(* ===== verification/Replica_Prelude.thy ===== *)
theory Replica_Prelude
  imports Main "HOL-Library.List_Lexorder" "HOL-Library.Char_ord"
begin

text \<open>
  What every component of the replica model shares: thrown JavaScript errors as values, the
  sequencing of throwing code, the string and array operations of the JavaScript standard
  library that the sources use, and generic lemmas about them.

  Strings are lists of characters; the order on them is the code unit order that
  \<^verbatim>\<open>Array.prototype.sort\<close> uses without a comparator.
\<close>

section \<open>Collections of facts\<close>

named_theorems result_simps \<open>unfolding of the sequencing of throwing code\<close>
named_theorems js_simps \<open>standard library operations of the source language\<close>

section \<open>Errors as values\<close>

text \<open>\<open>SourceBehindError\<close> is the one error class the program raises and catches itself; it carries the
  server's error (its code, its message and whether the request may be sent again).\<close>

datatype js_error =
    Error string | TypeError string | SyntaxError string | RangeError string
  | SourceBehindError string string bool

type_synonym 'a result = "js_error + 'a"

fun and_then :: "'a result \<Rightarrow> ('a \<Rightarrow> 'b result) \<Rightarrow> 'b result" where
  "and_then (Inl e) f = Inl e"
| "and_then (Inr x) f = f x"

definition throw_when :: "bool \<Rightarrow> string \<Rightarrow> 'a result \<Rightarrow> 'a result" where
  "throw_when bad msg k = (if bad then Inl (Error msg) else k)"

text \<open>\<^verbatim>\<open>xs.some(p)\<close>, \<^verbatim>\<open>xs.filter(p)\<close> and \<^verbatim>\<open>xs.flatMap(f)\<close> where the callback can throw.\<close>

fun some_result :: "('a \<Rightarrow> bool result) \<Rightarrow> 'a list \<Rightarrow> bool result" where
  "some_result p [] = Inr False"
| "some_result p (x # xs) =
     and_then (p x) (\<lambda>b. if b then Inr True else some_result p xs)"

fun flat_map_result :: "('a \<Rightarrow> 'b list result) \<Rightarrow> 'a list \<Rightarrow> 'b list result" where
  "flat_map_result f [] = Inr []"
| "flat_map_result f (x # xs) =
     and_then (f x) (\<lambda>ys. and_then (flat_map_result f xs) (\<lambda>zs. Inr (ys @ zs)))"

text \<open>A loop whose body may throw.\<close>

fun for_each :: "('a \<Rightarrow> unit result) \<Rightarrow> 'a list \<Rightarrow> unit result" where
  "for_each f [] = Inr ()"
| "for_each f (x # xs) = and_then (f x) (\<lambda>_. for_each f xs)"

lemma and_then_Inr_iff [simp, result_simps]:
  "and_then r f = Inr y \<longleftrightarrow> (\<exists>x. r = Inr x \<and> f x = Inr y)"
  by (cases r) auto

lemma throw_when_Inr_iff [simp, result_simps]:
  "throw_when bad msg k = Inr y \<longleftrightarrow> \<not> bad \<and> k = Inr y"
  by (simp add: throw_when_def)

lemma throw_when_simps [simp]:
  "throw_when True msg k = Inl (Error msg)"
  "throw_when False msg k = k"
  by (simp_all add: throw_when_def)

lemma for_each_Inr_iff [simp, result_simps]:
  "for_each f xs = Inr u \<longleftrightarrow> (\<forall>x \<in> set xs. f x = Inr ())"
  by (induction xs) auto

lemma some_result_total:
  "(\<And>x. x \<in> set xs \<Longrightarrow> p x = Inr (q x)) \<Longrightarrow>
     some_result p xs = Inr (list_ex q xs)"
  by (induction xs) auto

lemma some_result_False:
  "some_result p xs = Inr False \<longleftrightarrow> (\<forall>x \<in> set xs. p x = Inr False)"
  by (induction xs) (auto split: if_splits)

lemma some_result_True_dest:
  "some_result p xs = Inr True \<Longrightarrow> \<exists>x \<in> set xs. p x = Inr True"
  by (induction xs) (auto split: if_splits)

lemma flat_map_result_mem:
  "flat_map_result f xs = Inr ys \<Longrightarrow> y \<in> set ys \<Longrightarrow>
     \<exists>x \<in> set xs. \<exists>zs. f x = Inr zs \<and> y \<in> set zs"
proof (induction xs arbitrary: ys)
  case (Cons a xs)
  then obtain us vs where uv: "f a = Inr us" "flat_map_result f xs = Inr vs" "ys = us @ vs"
    by auto
  then show ?case using Cons by (cases "y \<in> set us") auto
qed simp

section \<open>Arrays\<close>

text \<open>\<^verbatim>\<open>xs.at(-1)\<close> and \<^verbatim>\<open>xs[i]\<close>: \<^verbatim>\<open>undefined\<close> out of range.\<close>

definition at_last :: "'a list \<Rightarrow> 'a option" where
  "at_last xs = (if xs = [] then None else Some (last xs))"

definition at_index :: "'a list \<Rightarrow> nat \<Rightarrow> 'a option" where
  "at_index xs i = (if i < length xs then Some (xs ! i) else None)"

text \<open>\<^verbatim>\<open>Math.max(0, ...xs)\<close>.\<close>

definition max_from_0 :: "int list \<Rightarrow> int" where
  "max_from_0 xs = foldr max xs 0"

lemma at_last_simps [simp]:
  "at_last [] = None"
  "at_last (xs @ [x]) = Some x"
  by (simp_all add: at_last_def)

lemma at_last_None_iff [simp]: "at_last xs = None \<longleftrightarrow> xs = []"
  by (simp add: at_last_def)

lemma at_last_Some_iff: "at_last xs = Some x \<longleftrightarrow> xs \<noteq> [] \<and> last xs = x"
  by (auto simp: at_last_def)

lemma at_last_Some_mem: "at_last xs = Some x \<Longrightarrow> x \<in> set xs"
  by (auto simp: at_last_def split: if_splits)

lemma max_from_0_ge: "x \<in> set xs \<Longrightarrow> x \<le> max_from_0 xs"
  by (induction xs) (auto simp: max_from_0_def)

lemma max_from_0_nonneg: "0 \<le> max_from_0 xs"
  by (induction xs) (auto simp: max_from_0_def)

lemma max_from_0_simps [simp]:
  "max_from_0 [] = 0"
  "max_from_0 (x # xs) = max x (max_from_0 xs)"
  by (simp_all add: max_from_0_def)

lemma max_from_0_append: "max_from_0 (xs @ ys) = max (max_from_0 xs) (max_from_0 ys)"
  using max_from_0_nonneg [of ys] by (induction xs) auto

lemma max_from_0_leI: "0 \<le> b \<Longrightarrow> (\<And>x. x \<in> set xs \<Longrightarrow> x \<le> b) \<Longrightarrow> max_from_0 xs \<le> b"
  by (induction xs) auto

lemma find_Some_mem: "find p xs = Some x \<Longrightarrow> x \<in> set xs \<and> p x"
  by (induction xs) (auto split: if_splits)

lemma find_None_conv: "find p xs = None \<longleftrightarrow> (\<forall>x \<in> set xs. \<not> p x)"
  by (induction xs) auto

lemma list_ex_set [simp]: "list_ex p xs \<longleftrightarrow> (\<exists>x \<in> set xs. p x)"
  by (induction xs) auto

lemma list_all_set [simp]: "list_all p xs \<longleftrightarrow> (\<forall>x \<in> set xs. p x)"
  by (induction xs) auto

text \<open>The first element in ascending order of an injective key is the one with the least key.\<close>

lemma sorted_find_least:
  assumes "find p (sort_key k xs) = Some x" and "y \<in> set xs" and "p y"
  shows "k x \<le> k y"
proof -
  have gen: "sorted (map k ys) \<Longrightarrow> find p ys = Some x \<Longrightarrow> y \<in> set ys \<Longrightarrow> k x \<le> k y" for ys
    using \<open>p y\<close> by (induction ys) (auto split: if_splits)
  have "sorted (map k (sort_key k xs))" by simp
  then show ?thesis using assms gen [of "sort_key k xs"] by simp
qed

section \<open>Strings\<close>

fun drop_leading :: "char \<Rightarrow> string \<Rightarrow> string" where
  "drop_leading c [] = []"
| "drop_leading c (x # xs) = (if x = c then drop_leading c xs else x # xs)"

definition drop_trailing :: "char \<Rightarrow> string \<Rightarrow> string" where
  "drop_trailing c s = rev (drop_leading c (rev s))"

text \<open>\<^verbatim>\<open>s.replace(/x$/, "")\<close> for one character.\<close>

definition drop_one_trailing :: "char \<Rightarrow> string \<Rightarrow> string" where
  "drop_one_trailing c s = (if s \<noteq> [] \<and> last s = c then butlast s else s)"

fun split_on :: "char \<Rightarrow> string \<Rightarrow> string list" where
  "split_on d [] = [[]]"
| "split_on d (c # cs) =
     (if c = d then [] # split_on d cs
      else (case split_on d cs of [] \<Rightarrow> [[c]] | w # ws \<Rightarrow> (c # w) # ws))"

fun join_with :: "string \<Rightarrow> string list \<Rightarrow> string" where
  "join_with d [] = []"
| "join_with d [w] = w"
| "join_with d (w # v # ws) = w @ d @ join_with d (v # ws)"

abbreviation slash :: char where "slash \<equiv> CHR ''/''"

definition path_split :: "string \<Rightarrow> string list" where
  "path_split s = split_on slash s"

definition path_join :: "string list \<Rightarrow> string" where
  "path_join ws = join_with [slash] ws"

text \<open>\<^verbatim>\<open>xs.filter(Boolean)\<close> on strings.\<close>

definition nonempty_strings :: "string list \<Rightarrow> string list" where
  "nonempty_strings ws = filter (\<lambda>w. w \<noteq> []) ws"

definition starts_with :: "string \<Rightarrow> string \<Rightarrow> bool" where
  "starts_with p s \<longleftrightarrow> take (length p) s = p"

lemma split_on_not_Nil [simp]: "split_on d s \<noteq> []"
  by (cases s) (auto split: list.splits)

lemma split_on_no_sep: "w \<in> set (split_on d s) \<Longrightarrow> d \<notin> set w"
  by (induction s arbitrary: w) (force split: if_splits list.splits)+

lemma join_split: "join_with [d] (split_on d s) = s"
proof (induction s)
  case (Cons c cs)
  obtain w ws where sp: "split_on d cs = w # ws" by (cases "split_on d cs") auto
  with Cons show ?case by (cases ws) auto
qed simp

lemma split_single: "d \<notin> set w \<Longrightarrow> split_on d w = [w]"
  by (induction w) auto

lemma split_append: "d \<notin> set w \<Longrightarrow> split_on d (w @ d # s) = w # split_on d s"
  by (induction w) auto

lemma split_join:
  "ws \<noteq> [] \<Longrightarrow> (\<And>w. w \<in> set ws \<Longrightarrow> d \<notin> set w) \<Longrightarrow> split_on d (join_with [d] ws) = ws"
  by (induction "[d]" ws rule: join_with.induct) (auto simp: split_single split_append)

lemma starts_with_append [simp]: "starts_with p (p @ s)"
  by (simp add: starts_with_def)

lemma starts_with_iff: "starts_with p s \<longleftrightarrow> (\<exists>t. s = p @ t)"
  unfolding starts_with_def by (metis append_eq_conv_conj append_take_drop_id)

lemma drop_leading_id: "s = [] \<or> hd s \<noteq> c \<Longrightarrow> drop_leading c s = s"
  by (cases s) auto

lemma drop_leading_not_head: "drop_leading c s = [] \<or> hd (drop_leading c s) \<noteq> c"
  by (induction s) auto

section \<open>White space and letter case\<close>

text \<open>
  \<^verbatim>\<open>String.prototype.trim\<close> and \<^verbatim>\<open>toLowerCase\<close> on the code units a \<open>char\<close> can hold
  (Latin-1): the white space and line terminators below 256, and the letters A to Z and the
  accented capitals 192 to 222 without the multiplication sign 215.
\<close>

definition is_white :: "char \<Rightarrow> bool" where
  "is_white c \<longleftrightarrow> (of_char c :: nat) \<in> {9, 10, 11, 12, 13, 32, 160}"

definition trim :: "string \<Rightarrow> string" where
  "trim s = rev (dropWhile is_white (rev (dropWhile is_white s)))"

definition lower_char :: "char \<Rightarrow> char" where
  "lower_char c =
     (let n = (of_char c :: nat) in
      if (65 \<le> n \<and> n \<le> 90) \<or> (192 \<le> n \<and> n \<le> 222 \<and> n \<noteq> 215) then char_of (n + 32) else c)"

definition to_lower :: "string \<Rightarrow> string" where
  "to_lower s = map lower_char s"

section \<open>Decimal numbers and \<open>BigInt\<close>\<close>

definition radix_digit :: "nat \<Rightarrow> char \<Rightarrow> int option" where
  "radix_digit r c =
     (let n = (of_char c :: nat);
          d = (if 48 \<le> n \<and> n \<le> 57 then Some (n - 48)
               else if 65 \<le> n \<and> n \<le> 90 then Some (n - 55)
               else if 97 \<le> n \<and> n \<le> 122 then Some (n - 87) else None)
      in case d of None \<Rightarrow> None | Some v \<Rightarrow> if v < r then Some (int v) else None)"

fun radix_digits :: "nat \<Rightarrow> int \<Rightarrow> string \<Rightarrow> int option" where
  "radix_digits r acc [] = Some acc"
| "radix_digits r acc (c # cs) =
     (case radix_digit r c of None \<Rightarrow> None | Some d \<Rightarrow> radix_digits r (int r * acc + d) cs)"

definition radix_value :: "nat \<Rightarrow> string \<Rightarrow> int option" where
  "radix_value r s = (if s = [] then None else radix_digits r 0 s)"

text \<open>
  \<^verbatim>\<open>BigInt(s)\<close> for a string: surrounding white space is ignored, the empty string is zero, a
  decimal may carry a sign, and the prefixes for radix 16, 8 and 2 may not.
\<close>

definition big_int :: "string \<Rightarrow> int option" where
  "big_int s =
     (let t = trim s in
      if t = [] then Some 0
      else if length t > 2 \<and> t ! 0 = CHR ''0'' \<and> t ! 1 \<in> {CHR ''x'', CHR ''X''}
        then radix_value 16 (drop 2 t)
      else if length t > 2 \<and> t ! 0 = CHR ''0'' \<and> t ! 1 \<in> {CHR ''o'', CHR ''O''}
        then radix_value 8 (drop 2 t)
      else if length t > 2 \<and> t ! 0 = CHR ''0'' \<and> t ! 1 \<in> {CHR ''b'', CHR ''B''}
        then radix_value 2 (drop 2 t)
      else if hd t = CHR ''+'' then radix_value 10 (tl t)
      else if hd t = CHR ''-'' then map_option uminus (radix_value 10 (tl t))
      else radix_value 10 t)"

definition BigInt :: "string \<Rightarrow> int result" where
  "BigInt s = (case big_int s of
     None \<Rightarrow> Inl (SyntaxError ''Cannot convert to a BigInt'') | Some v \<Rightarrow> Inr v)"

text \<open>The pattern \<^verbatim>\<open>/^(0|[1-9][0-9]*)$/\<close>.\<close>

definition is_digit :: "char \<Rightarrow> bool" where
  "is_digit c \<longleftrightarrow> c \<in> set ''0123456789''"

definition canonical_decimal :: "string \<Rightarrow> bool" where
  "canonical_decimal s \<longleftrightarrow>
     s = ''0'' \<or> (s \<noteq> [] \<and> hd s \<noteq> CHR ''0'' \<and> list_all is_digit s)"

lemma is_digit_radix: "is_digit c \<Longrightarrow> \<exists>d. radix_digit 10 c = Some d \<and> 0 \<le> d"
  by (auto simp: is_digit_def radix_digit_def)

lemma is_digit_not_white: "is_digit c \<Longrightarrow> \<not> is_white c"
  by (auto simp: is_digit_def is_white_def)

lemma digit_not_letter:
  "is_digit c \<Longrightarrow> c \<notin> {CHR ''x'', CHR ''X''} \<and> c \<notin> {CHR ''o'', CHR ''O''} \<and> c \<notin> {CHR ''b'', CHR ''B''}"
  "is_digit c \<Longrightarrow> c \<noteq> CHR ''+'' \<and> c \<noteq> CHR ''-''"
  by (auto simp: is_digit_def)

lemma digits_radix_value:
  assumes "s \<noteq> []" and "list_all is_digit s"
  shows "\<exists>v. radix_value 10 s = Some v \<and> 0 \<le> v"
proof -
  have "0 \<le> acc \<Longrightarrow> list_all is_digit t \<Longrightarrow> \<exists>v. radix_digits 10 acc t = Some v \<and> 0 \<le> v"
    for acc t
  proof (induction t arbitrary: acc)
    case (Cons c cs)
    then obtain d where "radix_digit 10 c = Some d" "0 \<le> d" using is_digit_radix [of c] by auto
    with Cons show ?case by auto
  qed simp
  with assms show ?thesis by (auto simp: radix_value_def)
qed

lemma trim_digits: "list_all is_digit s \<Longrightarrow> trim s = s"
proof -
  assume d: "list_all is_digit s"
  have *: "list_all is_digit t \<Longrightarrow> dropWhile is_white t = t" for t
    by (cases t) (auto dest: is_digit_not_white)
  show ?thesis using d * [of s] * [of "rev s"] by (simp add: trim_def)
qed

lemma canonical_decimal_digits: "canonical_decimal s \<Longrightarrow> s \<noteq> [] \<and> list_all is_digit s"
  by (auto simp: canonical_decimal_def is_digit_def)

text \<open>Every canonical decimal is a number \<open>BigInt\<close> accepts, and a natural one.\<close>

lemma big_int_canonical:
  assumes "canonical_decimal s"
  shows "big_int s = radix_value 10 s" and "\<exists>v. big_int s = Some v \<and> 0 \<le> v"
proof -
  have nz: "s \<noteq> []" and dig: "list_all is_digit s"
    using canonical_decimal_digits [OF assms] by auto
  have t: "trim s = s" by (rule trim_digits [OF dig])
  have d1: "length s > 2 \<Longrightarrow> is_digit (s ! 1)" using dig by (simp add: nth_mem)
  have hd: "is_digit (hd s)" using nz dig by simp
  have "length s > 2 \<Longrightarrow> s ! 1 \<notin> {CHR ''x'', CHR ''X''} \<and> s ! 1 \<notin> {CHR ''o'', CHR ''O''} \<and>
      s ! 1 \<notin> {CHR ''b'', CHR ''B''}"
    using d1 digit_not_letter by blast
  then have "big_int s = radix_value 10 s"
    using digit_not_letter(2) [OF hd] nz
    by (simp only: big_int_def Let_def t) (simp only: if_False simp_thms insert_iff cong: conj_cong)
  then show "big_int s = radix_value 10 s" .
  then show "\<exists>v. big_int s = Some v \<and> 0 \<le> v" using digits_radix_value [OF nz dig] by simp
qed

lemma BigInt_canonical: "canonical_decimal s \<Longrightarrow> \<exists>v. BigInt s = Inr v \<and> 0 \<le> v"
  using big_int_canonical(2) [of s] by (auto simp: BigInt_def)

end
