(* ===== verification/Canonical_Observation.thy ===== *)
theory Canonical_Observation
  imports Replica_Prelude
begin

text \<open>
  The freshness rule for server observations (\<^verbatim>\<open>canonical-observation.ts\<close>): an observation
  version is a decimal string, compared as a \<open>BigInt\<close>. A malformed incoming version is a
  \<open>TypeError\<close>, a malformed held one a \<open>SyntaxError\<close>.
\<close>

definition newer_canonical_observation :: "string \<Rightarrow> string option \<Rightarrow> bool result" where
  "newer_canonical_observation incoming held =
     (if \<not> canonical_decimal incoming
      then Inl (TypeError ''Invalid canonical observation version'')
      else case held of None \<Rightarrow> Inr True
        | Some h \<Rightarrow> and_then (BigInt incoming) (\<lambda>i. and_then (BigInt h) (\<lambda>v. Inr (i > v))))"

record refresh_observation =
  newer :: bool
  completes :: bool

definition canonical_refresh_observation ::
  "string \<Rightarrow> string option \<Rightarrow> string option \<Rightarrow> refresh_observation result" where
  "canonical_refresh_observation incoming held receiptVersion =
     and_then (newer_canonical_observation incoming held) (\<lambda>isNewer.
       if isNewer \<or> Some incoming = held
       then (case receiptVersion of
           None \<Rightarrow> Inr \<lparr>newer = isNewer, completes = True\<rparr>
         | Some r \<Rightarrow> and_then (BigInt incoming) (\<lambda>i. and_then (BigInt r) (\<lambda>v.
             Inr \<lparr>newer = isNewer, completes = i \<ge> v\<rparr>)))
       else Inr \<lparr>newer = isNewer, completes = False\<rparr>)"

section \<open>The order it induces\<close>

text \<open>The number a version stands for; every version the server sends is a canonical decimal.\<close>

definition version_number :: "string \<Rightarrow> int" where
  "version_number s = (case big_int s of Some v \<Rightarrow> v | None \<Rightarrow> 0)"

lemma BigInt_version: "canonical_decimal s \<Longrightarrow> BigInt s = Inr (version_number s)"
  using big_int_canonical(2) [of s] by (auto simp: BigInt_def version_number_def)

lemma newer_None [simp]:
  "canonical_decimal s \<Longrightarrow> newer_canonical_observation s None = Inr True"
  by (simp add: newer_canonical_observation_def)

lemma newer_canonical [simp]:
  "canonical_decimal s \<Longrightarrow> canonical_decimal h \<Longrightarrow>
     newer_canonical_observation s (Some h) = Inr (version_number h < version_number s)"
  by (simp add: newer_canonical_observation_def BigInt_version)

lemma newer_Inr_decimal:
  "newer_canonical_observation s h = Inr b \<Longrightarrow> canonical_decimal s"
  by (auto simp: newer_canonical_observation_def split: if_splits)

lemma newer_trans:
  assumes "newer_canonical_observation a (Some b) = Inr True"
    and "newer_canonical_observation b (Some c) = Inr True"
  shows "newer_canonical_observation a (Some c) = Inr True"
  using assms
  by (fastforce simp: newer_canonical_observation_def split: if_splits)

lemma newer_irrefl: "newer_canonical_observation a (Some a) \<noteq> Inr True"
  by (auto simp: newer_canonical_observation_def)

lemma newer_asym:
  "newer_canonical_observation a (Some b) = Inr True \<Longrightarrow>
     newer_canonical_observation b (Some a) \<noteq> Inr True"
  using newer_trans newer_irrefl by blast

text \<open>A version that is not strictly newer than the held one is at most the held one.\<close>

lemma not_newer_le:
  "newer_canonical_observation a (Some b) = Inr False \<Longrightarrow> canonical_decimal b \<Longrightarrow>
     version_number a \<le> version_number b"
  by (frule newer_Inr_decimal) (simp add: linorder_not_less)

lemma refresh_completes_le_receipt:
  assumes "canonical_refresh_observation i held (Some r) = Inr obs" and "completes obs"
    and "canonical_decimal r"
  shows "version_number r \<le> version_number i"
proof -
  have dec: "canonical_decimal i"
    using assms(1) newer_Inr_decimal [of i held] by (auto simp: canonical_refresh_observation_def)
  show ?thesis
    using assms dec
    by (auto simp: canonical_refresh_observation_def BigInt_version split: if_splits)
qed

section \<open>Observations as a locale\<close>

text \<open>
  What the installers rely on: an order check on versions that is a strict order. A client keeps
  the newest of the versions it was offered, whatever the order of arrival.
\<close>

locale observation_order =
  fixes newer_than :: "'v \<Rightarrow> 'v \<Rightarrow> bool"
  assumes asym: "newer_than a b \<Longrightarrow> \<not> newer_than b a"
    and trans: "newer_than a b \<Longrightarrow> newer_than b c \<Longrightarrow> newer_than a c"
begin

definition install :: "'v option \<Rightarrow> 'v \<Rightarrow> 'v option" where
  "install held incoming =
     (case held of None \<Rightarrow> Some incoming
      | Some h \<Rightarrow> if newer_than incoming h then Some incoming else Some h)"

lemma irrefl: "\<not> newer_than a a"
  using asym by blast

lemma install_idem: "install (install held v) v = install held v"
  by (auto simp: install_def irrefl split: option.splits)

lemma install_monotone:
  "install held v = Some w \<Longrightarrow> held = Some h \<Longrightarrow> w = h \<or> newer_than w h"
  by (auto simp: install_def split: if_splits)

lemma installs_monotone:
  "foldl install (Some h) vs = Some w \<Longrightarrow> w = h \<or> newer_than w h"
proof (induction vs arbitrary: h)
  case (Cons v vs)
  then show ?case
    by (cases "newer_than v h") (auto simp: install_def intro: trans)
qed simp

lemma installs_some: "\<exists>w. foldl install (Some h) vs = Some w"
  by (induction vs arbitrary: h) (auto simp: install_def)

text \<open>The version kept is one of those offered, and none offered is newer than it.\<close>

lemma installs_from: "foldl install (Some h) vs = Some w \<Longrightarrow> w = h \<or> w \<in> set vs"
proof (induction vs arbitrary: h)
  case (Cons v vs)
  then show ?case by (cases "newer_than v h") (auto simp: install_def)
qed simp

end

text \<open>The code's own check is such an order.\<close>

interpretation canonical: observation_order
  "\<lambda>a b. newer_canonical_observation a (Some b) = Inr True"
  by unfold_locales (fact newer_asym, fact newer_trans)

section \<open>Properties\<close>

text \<open>Comparing canonical observation versions is a strict order that agrees with the numbers the
  versions write: never newer than itself, never newer both ways, transitive, and newer exactly
  when the number is greater.\<close>

theorem newer_is_strict_order:
  "newer_canonical_observation a (Some a) \<noteq> Inr True \<and>
   \<not> (newer_canonical_observation a (Some b) = Inr True \<and>
      newer_canonical_observation b (Some a) = Inr True) \<and>
   \<not> (newer_canonical_observation a (Some b) = Inr True \<and>
      newer_canonical_observation b (Some c) = Inr True \<and>
      newer_canonical_observation a (Some c) \<noteq> Inr True) \<and>
   \<not> (canonical_decimal a \<and> canonical_decimal b \<and>
      newer_canonical_observation a (Some b) \<noteq> Inr (version_number b < version_number a))"
  using newer_irrefl newer_asym newer_trans newer_canonical by blast

text \<open>Installing versions one after another, each only when strictly newer than the one held,
  never goes back: however the arrivals are ordered, the version kept is the first one or newer.\<close>

theorem installs_never_go_back:
  assumes "foldl canonical.install (Some h) vs = Some w"
  shows "w = h \<or> newer_canonical_observation w (Some h) = Inr True"
  by (rule canonical.installs_monotone [OF assms])

theorem installs_never_go_back_witness:
  "newer_canonical_observation ''12'' (Some ''3'') = Inr True"
proof -
  have d: "canonical_decimal ''12''" "canonical_decimal ''3''" "canonical_decimal ''7''"
    by (simp_all add: canonical_decimal_def is_digit_def)
  have n: "version_number ''12'' = 12" "version_number ''3'' = 3" "version_number ''7'' = 7"
    by (simp_all add: version_number_def big_int_def radix_value_def radix_digit_def trim_def
          drop_trailing_def is_white_def)
  have "foldl canonical.install (Some ''3'') [''12'', ''7''] = Some ''12''"
    using d n by (simp add: canonical.install_def)
  from installs_never_go_back [OF this] show ?thesis by simp
qed

end
