(* ===== verification/Document_Filename.thy ===== *)
theory Document_Filename
  imports Replica_Prelude
begin

text \<open>
  The filetype registry and the codec for document basenames (\<^verbatim>\<open>protocol/filetype.ts\<close> and
  \<^verbatim>\<open>protocol/document-filename.ts\<close> of the contracts package). A document's stored parts are
  its name and its extension; the codec reads a typed filename into these parts, renders them,
  and finds the first free name for an arrival.
\<close>

section \<open>Filetypes\<close>

datatype filetype =
    Markdown | Python | Typescript | Javascript | Json | Shell | Yaml | Text | Csv
  | Notebook | Pdf | Png | Jpg | Svg | Docx | Image | Binary

datatype document_file_type = PdfFile | ImageFile | DocxFile | BinaryFile

datatype schema_type = DocumentSchema | CodeSchema

datatype filetype_disposition =
    TrackedAs schema_type | BinaryAs document_file_type | CustomAs document_file_type

fun filetype_dispositions :: "filetype \<Rightarrow> filetype_disposition" where
  "filetype_dispositions Markdown = TrackedAs DocumentSchema"
| "filetype_dispositions Python = TrackedAs CodeSchema"
| "filetype_dispositions Typescript = TrackedAs CodeSchema"
| "filetype_dispositions Javascript = TrackedAs CodeSchema"
| "filetype_dispositions Json = TrackedAs CodeSchema"
| "filetype_dispositions Shell = TrackedAs CodeSchema"
| "filetype_dispositions Yaml = TrackedAs CodeSchema"
| "filetype_dispositions Text = TrackedAs DocumentSchema"
| "filetype_dispositions Csv = TrackedAs CodeSchema"
| "filetype_dispositions Notebook = CustomAs BinaryFile"
| "filetype_dispositions Pdf = BinaryAs PdfFile"
| "filetype_dispositions Png = BinaryAs ImageFile"
| "filetype_dispositions Jpg = BinaryAs ImageFile"
| "filetype_dispositions Svg = BinaryAs ImageFile"
| "filetype_dispositions Docx = BinaryAs DocxFile"
| "filetype_dispositions Image = BinaryAs ImageFile"
| "filetype_dispositions Binary = BinaryAs BinaryFile"

fun filetype_text :: "filetype \<Rightarrow> string" where
  "filetype_text Markdown = ''markdown''"
| "filetype_text Python = ''python''"
| "filetype_text Typescript = ''typescript''"
| "filetype_text Javascript = ''javascript''"
| "filetype_text Json = ''json''"
| "filetype_text Shell = ''shell''"
| "filetype_text Yaml = ''yaml''"
| "filetype_text Text = ''text''"
| "filetype_text Csv = ''csv''"
| "filetype_text Notebook = ''notebook''"
| "filetype_text Pdf = ''pdf''"
| "filetype_text Png = ''png''"
| "filetype_text Jpg = ''jpg''"
| "filetype_text Svg = ''svg''"
| "filetype_text Docx = ''docx''"
| "filetype_text Image = ''image''"
| "filetype_text Binary = ''binary''"

text \<open>The registered extensions, in the order the source lists them.\<close>

definition ext_to_filetype :: "(string \<times> filetype) list" where
  "ext_to_filetype =
    [(''md'', Markdown), (''markdown'', Markdown), (''mdx'', Markdown), (''py'', Python),
     (''ts'', Typescript), (''tsx'', Typescript), (''js'', Javascript), (''jsx'', Javascript),
     (''json'', Json), (''sh'', Shell), (''yaml'', Yaml), (''yml'', Yaml), (''csv'', Csv),
     (''txt'', Markdown), (''toml'', Text), (''xml'', Text), (''ipynb'', Notebook),
     (''pdf'', Pdf), (''docx'', Docx), (''png'', Png), (''jpg'', Jpg), (''jpeg'', Jpg),
     (''svg'', Svg)]"

definition prose_extensions :: "string list" where
  "prose_extensions = map fst (filter (\<lambda>(_, t). t = Markdown) ext_to_filetype)"

definition is_prose :: "string \<Rightarrow> bool" where
  "is_prose e \<longleftrightarrow> e \<in> set prose_extensions"

definition registered_extension_for_filetype :: "filetype \<Rightarrow> string option" where
  "registered_extension_for_filetype t =
     map_option fst (find (\<lambda>(_, u). u = t) ext_to_filetype)"

definition filetype_for_extension :: "string \<Rightarrow> filetype option" where
  "filetype_for_extension e = map_of ext_to_filetype (to_lower e)"

section \<open>Parsing and rendering a filename\<close>

text \<open>
  \<^verbatim>\<open>s.lastIndexOf(".")\<close> with the two slices around it: the stem and the suffix, or
  \<open>None\<close> when the string has no dot.
\<close>

definition split_last_dot :: "string \<Rightarrow> (string \<times> string) option" where
  "split_last_dot s =
     (if CHR ''.'' \<in> set s
      then (let suffix = rev (takeWhile (\<lambda>c. c \<noteq> CHR ''.'') (rev s))
            in Some (take (length s - length suffix - 1) s, suffix))
      else None)"

definition lower_suffix :: "string \<Rightarrow> string" where
  "lower_suffix s = (case split_last_dot s of None \<Rightarrow> [] | Some (_, x) \<Rightarrow> to_lower x)"

definition stem_before_dot :: "string \<Rightarrow> string" where
  "stem_before_dot s = (case split_last_dot s of None \<Rightarrow> s | Some (x, _) \<Rightarrow> x)"

record parsed_filename =
  pf_name :: string
  pf_extension :: string
  pf_filetype :: filetype

lemma split_last_dot_append:
  "split_last_dot s = Some (a, b) \<longleftrightarrow> s = a @ CHR ''.'' # b \<and> CHR ''.'' \<notin> set b"
proof
  assume h: "split_last_dot s = Some (a, b)"
  define t where "t = takeWhile (\<lambda>c. c \<noteq> CHR ''.'') (rev s)"
  define u where "u = dropWhile (\<lambda>c. c \<noteq> CHR ''.'') (rev s)"
  have dot: "CHR ''.'' \<in> set s" and a: "a = take (length s - length t - 1) s" and b: "b = rev t"
    using h by (auto simp: split_last_dot_def t_def Let_def split: if_splits)
  have rs: "rev s = t @ u" by (simp add: t_def u_def)
  have "u \<noteq> []" using dot by (auto simp: u_def dropWhile_eq_Nil_conv)
  moreover from this have "hd u = CHR ''.''"
    using hd_dropWhile [of "\<lambda>c. c \<noteq> CHR ''.''" "rev s"] by (simp add: u_def)
  ultimately obtain v where u: "u = CHR ''.'' # v" by (cases u) auto
  have s: "s = rev v @ CHR ''.'' # rev t"
    using rs u by (metis rev_append rev_rev_ident rev.simps(2) append.assoc append_Cons append_Nil)
  have "CHR ''.'' \<notin> set t" by (auto simp: t_def dest: set_takeWhileD)
  with s a b show "s = a @ CHR ''.'' # b \<and> CHR ''.'' \<notin> set b" by simp
next
  assume h: "s = a @ CHR ''.'' # b \<and> CHR ''.'' \<notin> set b"
  then have "takeWhile (\<lambda>c. c \<noteq> CHR ''.'') (rev s) = rev b"
    by (auto simp: takeWhile_append takeWhile_tail)
  with h show "split_last_dot s = Some (a, b)"
    by (simp add: split_last_dot_def Let_def)
qed

lemma split_last_dot_shorter: "split_last_dot s = Some (a, b) \<Longrightarrow> length a < length s"
  by (simp add: split_last_dot_append)

lemma trim_length_le: "length (trim s) \<le> length s"
  unfolding trim_def by (metis length_dropWhile_le length_rev order_trans)

text \<open>The loop that strips prose suffixes one after the other.\<close>

function strip_prose :: "string \<Rightarrow> string" where
  "strip_prose name =
     (case split_last_dot name of
        None \<Rightarrow> name
      | Some (stem, suffix) \<Rightarrow>
          if is_prose (to_lower suffix) then strip_prose (trim stem) else name)"
  by pat_completeness auto
termination
  by (relation "measure length")
     (auto dest!: split_last_dot_shorter intro: le_less_trans [OF trim_length_le])

declare strip_prose.simps [simp del]

definition parse_document_filename :: "string \<Rightarrow> string option \<Rightarrow> string + parsed_filename" where
  "parse_document_filename filename sourceExtension =
     (let input = trim filename;
          suffix = lower_suffix input;
          source = (case sourceExtension of None \<Rightarrow> [] | Some e \<Rightarrow> to_lower e);
          registered = filetype_for_extension suffix \<noteq> None;
          name0 = (if registered then trim (stem_before_dot input) else input);
          extension0 = (if registered then suffix else source);
          name1 = (if is_prose extension0 then strip_prose name0 else name0);
          extension1 = (if is_prose extension0 then [] else extension0);
          shown = lower_suffix name1
      in if extension1 = [] \<and> filetype_for_extension shown \<noteq> None \<and> \<not> is_prose shown
         then Inl (CHR ''`'' # input @ ''` would show as `'' @ name1 @ ''`; name it `'' @ name1 @
                ''` for a '' @
                (case filetype_for_extension shown of None \<Rightarrow> [] | Some t \<Rightarrow> filetype_text t) @
                '' file, or drop `.'' @ shown @ ''`'')
         else if name1 = [] \<or> name1 = ''.'' \<or> name1 = ''..''
         then Inl ''A document name must have a nonempty stem other than . or ..''
         else Inr \<lparr>pf_name = name1, pf_extension = extension1,
                   pf_filetype = (case filetype_for_extension extension1 of
                     None \<Rightarrow> Markdown | Some t \<Rightarrow> t)\<rparr>)"

definition render_filename :: "string \<Rightarrow> string \<Rightarrow> string" where
  "render_filename name extension =
     (if extension = [] then name else name @ CHR ''.'' # extension)"

definition canonical_leaf :: "string \<Rightarrow> string" where
  "canonical_leaf filename =
     (case parse_document_filename filename None of
        Inl _ \<Rightarrow> filename
      | Inr v \<Rightarrow> render_filename (pf_name v) (pf_extension v))"

section \<open>Names of stored rows\<close>

record named_row =
  row_extension :: string
  row_editable :: bool

record stored_name =
  sn_name :: string
  sn_stem :: string
  sn_extension :: string
  sn_filetype :: "filetype option"

definition file_name :: "string \<Rightarrow> named_row \<Rightarrow> string + stored_name" where
  "file_name typed row =
     (let input = trim typed;
          suffix = lower_suffix input;
          stored = row_extension row;
          own = to_lower stored;
          ownSuffix = (suffix \<noteq> [] \<and> suffix = own);
          explicit = (ownSuffix \<or> filetype_for_extension suffix \<noteq> None);
          name = (if explicit then trim (stem_before_dot input) else input);
          extension = (if ownSuffix then stored else if explicit then suffix else stored)
      in if is_prose own \<and> is_prose suffix \<and> \<not> ownSuffix
         then Inl (''a kept file keeps its `.'' @ own @ ''` suffix; `.'' @ suffix @
                   ''` would not convert it'')
         else if name = [] \<or> name = ''.'' \<or> name = ''..''
         then Inl ''A document name must have a nonempty stem other than . or ..''
         else Inr \<lparr>sn_name = render_filename name extension, sn_stem = name,
                   sn_extension = extension,
                   sn_filetype = (if to_lower extension = own then None
                                  else filetype_for_extension extension)\<rparr>)"

definition stored_filename :: "string \<Rightarrow> named_row option \<Rightarrow> string + stored_name" where
  "stored_filename typed row =
     (case row of
        Some r \<Rightarrow>
          if \<not> row_editable r then file_name typed r
          else (case parse_document_filename typed (Some (row_extension r)) of
                  Inl e \<Rightarrow> Inl e
                | Inr v \<Rightarrow> Inr \<lparr>sn_name = render_filename (pf_name v) (pf_extension v),
                              sn_stem = pf_name v, sn_extension = pf_extension v,
                              sn_filetype = Some (pf_filetype v)\<rparr>)
      | None \<Rightarrow>
          (case parse_document_filename typed None of
             Inl e \<Rightarrow> Inl e
           | Inr v \<Rightarrow> Inr \<lparr>sn_name = render_filename (pf_name v) (pf_extension v),
                         sn_stem = pf_name v, sn_extension = pf_extension v,
                         sn_filetype = Some (pf_filetype v)\<rparr>))"

definition copied_filename :: "string \<Rightarrow> named_row \<Rightarrow> string + stored_name" where
  "copied_filename typed row =
     (let input = trim typed;
          suffix = lower_suffix input;
          bare = (if is_prose suffix \<and> suffix \<noteq> to_lower (row_extension row)
                  then stem_before_dot input else input)
      in file_name bare row)"

definition filename_splits :: "string \<Rightarrow> (string \<times> string) list" where
  "filename_splits filename =
     (filename, []) #
     map (\<lambda>at. (take at filename, drop (at + 1) filename))
         (filter (\<lambda>at. filename ! at = CHR ''.'') [1..<length filename - 1])"

definition split_rendered :: "string \<Rightarrow> string \<Rightarrow> string \<times> string" where
  "split_rendered filename extension =
     (let at = int (length filename) - int (length extension) - 1
      in if extension \<noteq> [] \<and> at > 0 \<and>
            to_lower (drop (nat at) filename) = CHR ''.'' # to_lower extension
         then (take (nat at) filename, drop (nat at + 1) filename)
         else (filename, []))"

definition address_candidates :: "string \<Rightarrow> string list" where
  "address_candidates leaf =
     (let alias = canonical_leaf leaf in if alias = leaf then [leaf] else [leaf, alias])"

section \<open>The first free name\<close>

fun show_nat :: "nat \<Rightarrow> string" where
  "show_nat n =
     (if n < 10 then [char_of (48 + n)]
      else show_nat (n div 10) @ [char_of (48 + n mod 10)])"

declare show_nat.simps [simp del]

definition numbered_name :: "string \<Rightarrow> nat \<Rightarrow> string" where
  "numbered_name name suffix =
     (if suffix = 1 then name else name @ '' ('' @ show_nat suffix @ '')'')"

text \<open>The search as a loop over the suffix; the fuel bounds the suffixes it may try.\<close>

fun first_free_from ::
  "nat \<Rightarrow> nat \<Rightarrow> string \<Rightarrow> string \<Rightarrow> string set \<Rightarrow> (string \<times> string \<times> string) option" where
  "first_free_from 0 suffix name extension taken = None"
| "first_free_from (Suc fuel) suffix name extension taken =
     (let n = numbered_name name suffix; filename = render_filename n extension
      in if filename \<notin> taken then Some (n, extension, filename)
         else first_free_from fuel (suffix + 1) name extension taken)"

definition first_free_name ::
  "string \<Rightarrow> string option \<Rightarrow> string set \<Rightarrow> (string \<times> string \<times> string) option" where
  "first_free_name name extension taken =
     first_free_from (card taken + 1) 1 name
       (case extension of None \<Rightarrow> [] | Some e \<Rightarrow> e) taken"


section \<open>Facts about the codec\<close>

subsection \<open>Letter case and white space\<close>

lemma lower_char_idem [simp]: "lower_char (lower_char c) = lower_char c"
proof -
  have n: "(of_char c :: nat) < 256" by simp
  show ?thesis by (auto simp: lower_char_def Let_def)
qed

lemma to_lower_idem [simp]: "to_lower (to_lower s) = to_lower s"
  by (simp add: to_lower_def)

definition trimmed :: "string \<Rightarrow> bool" where
  "trimmed s \<longleftrightarrow> s = [] \<or> (\<not> is_white (hd s) \<and> \<not> is_white (last s))"

lemma trim_trimmed: "trimmed (trim s)"
proof -
  define a where "a = dropWhile is_white s"
  define b where "b = dropWhile is_white (rev a)"
  have t: "trim s = rev b" by (simp add: trim_def a_def b_def)
  show ?thesis
  proof (cases "b = []")
    case False
    have l: "\<not> is_white (hd b)" using False hd_dropWhile [of is_white "rev a"] by (simp add: b_def)
    obtain pre where pre: "rev a = pre @ b" using takeWhile_dropWhile_id [of is_white "rev a"]
      by (metis b_def)
    then have a: "a = rev b @ rev pre" by (metis rev_append rev_rev_ident)
    then have "a \<noteq> []" and "hd a = hd (rev b)" using False by auto
    moreover have "\<not> is_white (hd a)"
      using calculation(1) hd_dropWhile [of is_white s] by (simp add: a_def)
    ultimately show ?thesis using l t by (simp add: trimmed_def last_rev)
  qed (simp add: t trimmed_def)
qed

lemma trim_id: "trimmed s \<Longrightarrow> trim s = s"
proof -
  assume t: "trimmed s"
  then have "dropWhile is_white s = s" by (cases s) (auto simp: trimmed_def)
  moreover have "dropWhile is_white (rev s) = rev s"
    using t by (cases "rev s") (auto simp: trimmed_def hd_rev dropWhile_eq_self_iff)
  ultimately show ?thesis by (simp add: trim_def)
qed

lemma strip_prose_trimmed: "trimmed s \<Longrightarrow> trimmed (strip_prose s)"
  by (induction s rule: strip_prose.induct)
     (subst strip_prose.simps, auto split: option.splits simp: trim_trimmed)

lemma strip_prose_no_suffix: "\<not> is_prose (lower_suffix (strip_prose s))"
proof (induction s rule: strip_prose.induct)
  case (1 name)
  have np: "\<not> is_prose []" by (simp add: is_prose_def prose_extensions_def ext_to_filetype_def)
  show ?case
  proof (cases "split_last_dot name")
    case None
    then show ?thesis using np by (subst strip_prose.simps) (simp add: lower_suffix_def)
  next
    case (Some p)
    obtain a b where p: "p = (a, b)" by (cases p)
    show ?thesis
      using 1 [OF Some p [symmetric]] Some p
      by (subst strip_prose.simps) (simp add: lower_suffix_def)
  qed
qed

subsection \<open>Registered extensions\<close>

lemma registered_props:
  assumes "e \<in> fst ` set ext_to_filetype"
  shows "to_lower e = e" and "e \<noteq> []" and "CHR ''.'' \<notin> set e" and "\<not> is_white (last e)"
  using assms
  by (auto simp: ext_to_filetype_def to_lower_def lower_char_def is_white_def)

lemma filetype_for_lower:
  "to_lower e = e \<Longrightarrow> filetype_for_extension e \<noteq> None \<longleftrightarrow> e \<in> fst ` set ext_to_filetype"
  by (simp add: filetype_for_extension_def map_of_eq_None_iff)

lemma lower_suffix_lower [simp]: "to_lower (lower_suffix s) = lower_suffix s"
  by (simp add: lower_suffix_def to_lower_def split: option.splits)

lemma is_prose_registered: "is_prose e \<Longrightarrow> e \<in> fst ` set ext_to_filetype"
  by (auto simp: is_prose_def prose_extensions_def)

lemma not_registered_Nil [simp]: "filetype_for_extension [] = None"
  by (simp add: filetype_for_extension_def to_lower_def ext_to_filetype_def)

lemma lower_suffix_render:
  "e \<in> fst ` set ext_to_filetype \<Longrightarrow> lower_suffix (n @ CHR ''.'' # e) = e"
  "e \<in> fst ` set ext_to_filetype \<Longrightarrow> stem_before_dot (n @ CHR ''.'' # e) = n"
proof -
  assume r: "e \<in> fst ` set ext_to_filetype"
  have "split_last_dot (n @ CHR ''.'' # e) = Some (n, e)"
    using registered_props(3) [OF r] by (simp add: split_last_dot_append)
  then show "lower_suffix (n @ CHR ''.'' # e) = e" "stem_before_dot (n @ CHR ''.'' # e) = n"
    using registered_props(1) [OF r] by (simp_all add: lower_suffix_def stem_before_dot_def)
qed

text \<open>What an accepted parse without a source extension looks like.\<close>

lemma parse_accepted:
  assumes "parse_document_filename f None = Inr v"
  shows "trimmed (pf_name v)" and "pf_name v \<notin> {[], ''.'', ''..''}"
    and "pf_extension v = [] \<Longrightarrow> filetype_for_extension (lower_suffix (pf_name v)) = None"
    and "pf_extension v \<noteq> [] \<Longrightarrow>
      pf_extension v \<in> fst ` set ext_to_filetype \<and> \<not> is_prose (pf_extension v)"
    and "pf_filetype v =
      (case filetype_for_extension (pf_extension v) of None \<Rightarrow> Markdown | Some t \<Rightarrow> t)"
proof -
  define input where "input = trim f"
  define suffix where "suffix = lower_suffix input"
  define reg where "reg \<longleftrightarrow> filetype_for_extension suffix \<noteq> None"
  define name0 where "name0 = (if reg then trim (stem_before_dot input) else input)"
  define ext0 where "ext0 = (if reg then suffix else [])"
  define name1 where "name1 = (if is_prose ext0 then strip_prose name0 else name0)"
  define ext1 where "ext1 = (if is_prose ext0 then [] else ext0)"
  note defs = input_def suffix_def reg_def name0_def ext0_def name1_def ext1_def
  have v: "pf_name v = name1" "pf_extension v = ext1"
      "pf_filetype v = (case filetype_for_extension ext1 of None \<Rightarrow> Markdown | Some t \<Rightarrow> t)"
    and ok: "\<not> (ext1 = [] \<and> filetype_for_extension (lower_suffix name1) \<noteq> None \<and>
        \<not> is_prose (lower_suffix name1))"
    and nm: "name1 \<noteq> []" "name1 \<noteq> ''.''" "name1 \<noteq> ''..''"
    using assms unfolding parse_document_filename_def Let_def defs
    by (simp_all only: option.case split: if_splits) auto
  have t0: "trimmed name0" by (simp add: name0_def input_def trim_trimmed)
  then have t1: "trimmed name1" by (simp add: name1_def strip_prose_trimmed)
  have sl: "to_lower suffix = suffix" by (simp add: suffix_def)
  have regd: "reg \<Longrightarrow> suffix \<in> fst ` set ext_to_filetype"
    using filetype_for_lower [OF sl] by (simp add: reg_def)
  show "trimmed (pf_name v)" using t1 v by simp
  show "pf_name v \<notin> {[], ''.'', ''..''}" using nm v by simp
  show "pf_filetype v =
      (case filetype_for_extension (pf_extension v) of None \<Rightarrow> Markdown | Some t \<Rightarrow> t)"
    using v by simp
  show "pf_extension v \<in> fst ` set ext_to_filetype \<and> \<not> is_prose (pf_extension v)"
    if "pf_extension v \<noteq> []"
    using that v regd by (auto simp: ext1_def ext0_def split: if_splits)
  show "filetype_for_extension (lower_suffix (pf_name v)) = None" if e: "pf_extension v = []"
  proof (cases "is_prose ext0")
    case True
    then have "\<not> is_prose (lower_suffix name1)" by (simp add: name1_def strip_prose_no_suffix)
    with ok e v show ?thesis by auto
  next
    case False
    with e v have "ext0 = []" by (simp add: ext1_def)
    then have nr: "\<not> reg" using registered_props(2) regd by (auto simp: ext0_def split: if_splits)
    then have "name1 = input" using False by (simp add: name1_def name0_def)
    then show ?thesis using nr v by (simp add: reg_def suffix_def)
  qed
qed

lemma parse_render:
  assumes "parse_document_filename f None = Inr v"
  shows "parse_document_filename (render_filename (pf_name v) (pf_extension v)) None = Inr v"
proof -
  note p = parse_accepted [OF assms]
  show ?thesis
  proof (cases "pf_extension v = []")
    case True
    have np: "\<not> is_prose []" by (simp add: is_prose_def prose_extensions_def ext_to_filetype_def)
    show ?thesis
      using True p(2) p(3) [OF True] p(5) np
      by (simp add: parse_document_filename_def Let_def render_filename_def trim_id [OF p(1)])
  next
    case False
    let ?f = "pf_name v @ CHR ''.'' # pf_extension v"
    have r: "pf_extension v \<in> fst ` set ext_to_filetype" "\<not> is_prose (pf_extension v)"
      using p(4) [OF False] by auto
    have tr: "trim ?f = ?f"
      by (rule trim_id) (use p(1,2) registered_props(2,4) [OF r(1)] in \<open>auto simp: trimmed_def\<close>)
    have reg: "filetype_for_extension (pf_extension v) \<noteq> None"
      using filetype_for_lower [OF registered_props(1) [OF r(1)]] r(1) by simp
    show ?thesis
      using False p(2) p(5) r(2) reg
      by (simp add: parse_document_filename_def Let_def render_filename_def tr
            lower_suffix_render [OF r(1)] trim_id [OF p(1)])
  qed
qed

subsection \<open>The first free name\<close>

lemma show_nat_value: "foldl (\<lambda>n c. 10 * n + (of_char c - 48)) 0 (show_nat n) = n"
proof (induction n rule: show_nat.induct)
  case (1 n)
  show ?case
  proof (cases "n < 10")
    case True
    then show ?thesis by (subst show_nat.simps) simp
  next
    case False
    with 1 have ih: "foldl (\<lambda>n c. 10 * n + (of_char c - 48)) 0 (show_nat (n div 10)) = n div 10"
      by simp
    have d: "(48 + n mod 10) mod 256 = 48 + n mod 10" by simp
    from False show ?thesis by (subst show_nat.simps) (simp add: ih d)
  qed
qed

lemma show_nat_inj: "show_nat m = show_nat n \<Longrightarrow> m = n"
  by (metis show_nat_value)

lemma numbered_render_inj:
  "1 \<le> i \<Longrightarrow> 1 \<le> j \<Longrightarrow>
     render_filename (numbered_name n i) e = render_filename (numbered_name n j) e \<Longrightarrow> i = j"
  by (auto simp: render_filename_def numbered_name_def split: if_splits dest: show_nat_inj)

lemma first_free_from_Some:
  assumes "first_free_from fuel s n e taken = Some (m, x, f)"
  shows "\<exists>i \<ge> s. m = numbered_name n i \<and> x = e \<and> f = render_filename m e \<and> f \<notin> taken \<and>
    (\<forall>j. s \<le> j \<and> j < i \<longrightarrow> render_filename (numbered_name n j) e \<in> taken)"
  using assms
proof (induction fuel arbitrary: s)
  case (Suc fuel)
  show ?case
  proof (cases "render_filename (numbered_name n s) e \<in> taken")
    case True
    with Suc.prems have "first_free_from fuel (s + 1) n e taken = Some (m, x, f)"
      by (simp add: Let_def)
    from Suc.IH [OF this] obtain i where i: "s + 1 \<le> i" "m = numbered_name n i" "x = e"
      "f = render_filename m e" "f \<notin> taken"
      "\<forall>j. s + 1 \<le> j \<and> j < i \<longrightarrow> render_filename (numbered_name n j) e \<in> taken" by auto
    have "\<forall>j. s \<le> j \<and> j < i \<longrightarrow> render_filename (numbered_name n j) e \<in> taken"
      using i(6) True by (metis Suc_eq_plus1 le_antisym not_less_eq_eq)
    with i show ?thesis by (intro exI [of _ i]) simp
  next
    case False
    with Suc.prems show ?thesis by (intro exI [of _ s]) (auto simp: Let_def)
  qed
qed simp

lemma first_free_from_None:
  "first_free_from fuel s n e taken = None \<Longrightarrow>
     (\<lambda>i. render_filename (numbered_name n i) e) ` {s..<s + fuel} \<subseteq> taken"
proof (induction fuel arbitrary: s)
  case (Suc fuel)
  then have hd: "render_filename (numbered_name n s) e \<in> taken"
    and tl: "first_free_from fuel (s + 1) n e taken = None"
    by (auto simp: Let_def split: if_splits)
  have "{s..<s + Suc fuel} = insert s {s + 1..<(s + 1) + fuel}" by auto
  with hd Suc.IH [OF tl] show ?case by (simp only: image_insert insert_subset)
qed simp

lemma first_free_total:
  assumes "finite taken"
  shows "first_free_name n e taken \<noteq> None"
proof
  let ?e = "case e of None \<Rightarrow> [] | Some e \<Rightarrow> e"
  let ?g = "\<lambda>i. render_filename (numbered_name n i) ?e"
  assume "first_free_name n e taken = None"
  then have "first_free_from (card taken + 1) 1 n ?e taken = None"
    by (simp add: first_free_name_def)
  then have sub: "?g ` {1..<1 + (card taken + 1)} \<subseteq> taken" by (rule first_free_from_None)
  have "inj_on ?g {1..<1 + (card taken + 1)}"
    by (rule inj_onI) (auto intro: numbered_render_inj)
  then have "card (?g ` {1..<1 + (card taken + 1)}) = card taken + 1"
    by (simp add: card_image)
  with card_mono [OF assms sub] show False by simp
qed

subsection \<open>Properties\<close>

text \<open>C40: A typed name the codec accepts round-trips: rendering the parsed name and extension and
  parsing the result gives the same name, extension and filetype, and the canonical leaf is stable
  (its own canonical leaf).\<close>

theorem filename_roundtrip:
  assumes "parse_document_filename typed None = Inr v"
  shows "parse_document_filename (render_filename (pf_name v) (pf_extension v)) None = Inr v \<and>
     canonical_leaf typed = render_filename (pf_name v) (pf_extension v) \<and>
     canonical_leaf (canonical_leaf typed) = canonical_leaf typed \<and>
     pf_name v \<notin> {[], ''.'', ''..''} \<and> \<not> is_prose (pf_extension v)"
proof -
  have "\<not> is_prose []" by (simp add: is_prose_def prose_extensions_def ext_to_filetype_def)
  with parse_accepted(4) [OF assms] have "\<not> is_prose (pf_extension v)"
    by (cases "pf_extension v = []") auto
  moreover note parse_accepted(2) [OF assms]
  ultimately have "\<not> is_prose (pf_extension v)" "pf_name v \<notin> {[], ''.'', ''..''}" by auto
  then show ?thesis using parse_render [OF assms] assms by (simp add: canonical_leaf_def)
qed

theorem filename_roundtrip_witness:
  "parse_document_filename (render_filename ''notes'' []) None =
     Inr \<lparr>pf_name = ''notes'', pf_extension = [], pf_filetype = Markdown\<rparr>"
proof -
  have "parse_document_filename ''notes.md'' None =
      Inr \<lparr>pf_name = ''notes'', pf_extension = [], pf_filetype = Markdown\<rparr>"
    by (simp add: parse_document_filename_def trim_def drop_trailing_def is_white_def
          lower_suffix_def split_last_dot_def stem_before_dot_def to_lower_def lower_char_def
          filetype_for_extension_def ext_to_filetype_def is_prose_def prose_extensions_def
          strip_prose.simps Let_def)
  from filename_roundtrip [OF this] show ?thesis by simp
qed

text \<open>Against any finite set of taken filenames the search for a free name ends, with a filename
  that is not taken, and every earlier number of the same name is taken.\<close>

theorem first_free_name_least:
  assumes "finite taken"
  shows "\<exists>i \<ge> 1. \<exists>f. first_free_name n e taken =
        Some (numbered_name n i, (case e of None \<Rightarrow> [] | Some x \<Rightarrow> x), f) \<and>
     f = render_filename (numbered_name n i) (case e of None \<Rightarrow> [] | Some x \<Rightarrow> x) \<and> f \<notin> taken \<and>
     (\<forall>j. 1 \<le> j \<and> j < i \<longrightarrow>
        render_filename (numbered_name n j) (case e of None \<Rightarrow> [] | Some x \<Rightarrow> x) \<in> taken)"
proof -
  obtain m x f where r: "first_free_name n e taken = Some (m, x, f)"
    using first_free_total [OF assms, of n e] by auto
  then have "first_free_from (card taken + 1) 1 n (case e of None \<Rightarrow> [] | Some x \<Rightarrow> x) taken =
      Some (m, x, f)" by (simp add: first_free_name_def)
  from first_free_from_Some [OF this] r show ?thesis by auto
qed

theorem first_free_name_least_witness:
  "first_free_name ''a'' (Some ''md'') {''a.md''} = Some (''a (2)'', ''md'', ''a (2).md'')"
proof -
  have two: "show_nat 2 = ''2''" by code_simp
  obtain i f where i: "1 \<le> i" "first_free_name ''a'' (Some ''md'') {''a.md''} =
        Some (numbered_name ''a'' i, ''md'', f)"
      "f = render_filename (numbered_name ''a'' i) ''md''" "f \<noteq> ''a.md''"
      "\<forall>j. 1 \<le> j \<and> j < i \<longrightarrow> render_filename (numbered_name ''a'' j) ''md'' = ''a.md''"
    using first_free_name_least [of "{''a.md''}" "''a''" "Some ''md''"] by auto
  have "i \<noteq> 1" using i(3,4) by (auto simp: numbered_name_def render_filename_def)
  moreover have "\<not> 2 < i"
    using i(5) by (auto simp: numbered_name_def render_filename_def dest!: spec [of _ 2])
  ultimately have "i = 2" using i(1) by simp
  with i(2,3) two show ?thesis by (simp add: numbered_name_def render_filename_def)
qed

end
