(* ===== verification/Resource_Records.thy ===== *)
theory Resource_Records
  imports Canonical_Observation Document_Filename
begin

text \<open>
  The durable records of the resource replica (\<^verbatim>\<open>resource-records.ts\<close>, \<^verbatim>\<open>server-hold.ts\<close>) with
  the wire types they carry (\<^verbatim>\<open>http-types.ts\<close>, \<^verbatim>\<open>context-operation.ts\<close> of the contracts
  package): locations and their owners, destinations, requests, outcomes, attempts, placement
  admissions, intents, and the resource, folder and operation records.

  A field that TypeScript marks optional is an \<open>option\<close>; \<^verbatim>\<open>undefined\<close> and \<^verbatim>\<open>null\<close> are told
  apart only where the code does. Revisions, sequences, admission orders and times are
  \<open>int\<close>. Where the code compares two values by their JSON text, the model compares the values.
\<close>

section \<open>Addresses\<close>

datatype context_scheme = Manuscript | Kb | UserArea | Unfiled | Scratch | Uploads

definition is_project_scoped_scheme :: "context_scheme \<Rightarrow> bool" where
  "is_project_scoped_scheme s \<longleftrightarrow> s \<in> {Manuscript, Kb, UserArea, Unfiled}"

definition is_owned_context_scheme :: "context_scheme \<Rightarrow> bool" where
  "is_owned_context_scheme s \<longleftrightarrow> s \<in> {Scratch, Uploads}"

fun scheme_text :: "context_scheme \<Rightarrow> string" where
  "scheme_text Manuscript = ''manuscript''"
| "scheme_text Kb = ''kb''"
| "scheme_text UserArea = ''user''"
| "scheme_text Unfiled = ''unfiled''"
| "scheme_text Scratch = ''scratch''"
| "scheme_text Uploads = ''uploads''"

text \<open>
  The four arms of \<^verbatim>\<open>ResourceOwner\<close>: no owner, a Work (id and handle, handle null for No Work), a
  lineage (first chat's id and handle), a chat (id and handle, null until the chat exists).
\<close>

datatype resource_owner =
    NoOwner
  | WorkOwner string "string option"
  | LineageOwner string string
  | ChatOwner string "string option"

fun owner_work_id :: "resource_owner \<Rightarrow> string option" where
  "owner_work_id (WorkOwner w _) = Some w" | "owner_work_id _ = None"

fun owner_work_handle :: "resource_owner \<Rightarrow> string option" where
  "owner_work_handle (WorkOwner _ h) = h" | "owner_work_handle _ = None"

fun owner_root_thread :: "resource_owner \<Rightarrow> string option" where
  "owner_root_thread (LineageOwner t _) = Some t" | "owner_root_thread _ = None"

fun owner_chat :: "resource_owner \<Rightarrow> string option" where
  "owner_chat (ChatOwner c _) = Some c" | "owner_chat _ = None"

record resource_location =
  loc_scheme :: context_scheme
  loc_path :: string
  loc_name :: string
  loc_owner :: resource_owner

definition owner_of :: "resource_location \<Rightarrow> resource_owner" where
  "owner_of location = loc_owner location"

definition same_owner :: "resource_owner \<Rightarrow> resource_owner \<Rightarrow> bool" where
  "same_owner left right \<longleftrightarrow>
     owner_work_id left = owner_work_id right \<and>
     owner_work_handle left = owner_work_handle right \<and>
     owner_root_thread left = owner_root_thread right \<and>
     owner_chat left = owner_chat right"

lemma same_owner_refl [simp]: "same_owner x x"
  by (simp add: same_owner_def)

lemma same_owner_sym: "same_owner x y \<Longrightarrow> same_owner y x"
  by (simp add: same_owner_def)

lemma same_owner_trans: "same_owner x y \<Longrightarrow> same_owner y z \<Longrightarrow> same_owner x z"
  by (simp add: same_owner_def)

datatype parent_ref = FolderParent string | RootParent context_scheme resource_owner

text \<open>A parent as a request or receipt carries it, with the folders to create beneath it.\<close>

record destination_parent =
  dp_parent :: parent_ref
  dp_createFolders :: "string list option"

abbreviation folders_or_none :: "string list option \<Rightarrow> string list" where
  "folders_or_none f \<equiv> (case f of None \<Rightarrow> [] | Some fs \<Rightarrow> fs)"

definition same_destination_parent ::
  "destination_parent option \<Rightarrow> destination_parent option \<Rightarrow> bool" where
  "same_destination_parent left right =
     (case (left, right) of
        (Some l, Some r) \<Rightarrow>
          folders_or_none (dp_createFolders l) = folders_or_none (dp_createFolders r) \<and>
          (case (dp_parent l, dp_parent r) of
             (FolderParent a, FolderParent b) \<Rightarrow> a = b
           | (RootParent s o1, RootParent t o2) \<Rightarrow>
               s = t \<and> owner_work_id o1 = owner_work_id o2 \<and>
               owner_root_thread o1 = owner_root_thread o2 \<and> owner_chat o1 = owner_chat o2
           | _ \<Rightarrow> False)
      | (None, None) \<Rightarrow> True
      | _ \<Rightarrow> False)"

text \<open>A bare parent reference, read as the code reads a \<^verbatim>\<open>ParentRef\<close> with no folders to create.\<close>

definition bare_parent :: "parent_ref \<Rightarrow> destination_parent" where
  "bare_parent p = \<lparr>dp_parent = p, dp_createFolders = None\<rparr>"

datatype sibling_position = BeforeSibling string | AfterSibling string | AtStart | AtEnd

text \<open>\<^verbatim>\<open>position && "siblingId" in position ? position.siblingId : undefined\<close>.\<close>

fun sibling_id :: "sibling_position \<Rightarrow> string option" where
  "sibling_id (BeforeSibling s) = Some s"
| "sibling_id (AfterSibling s) = Some s"
| "sibling_id _ = None"

record resource_destination =
  dest_parent :: parent_ref
  dest_createFolders :: "string list option"
  dest_name :: string
  dest_position :: "sibling_position option"

type_synonym parent_lookup = "string \<Rightarrow> resource_location option"

definition untitled_destination :: "string \<Rightarrow> string \<Rightarrow> resource_destination" where
  "untitled_destination folderPath name =
     (let createFolders = nonempty_strings (path_split folderPath)
      in \<lparr>dest_parent = RootParent Unfiled NoOwner,
          dest_createFolders = (if createFolders = [] then None else Some createFolders),
          dest_name = name, dest_position = None\<rparr>)"

definition destination_parent_location ::
  "parent_ref \<Rightarrow> parent_lookup \<Rightarrow> resource_location option" where
  "destination_parent_location parent lookup =
     (case parent of
        FolderParent f \<Rightarrow> lookup f
      | RootParent s w \<Rightarrow>
          Some \<lparr>loc_scheme = s, loc_path = [], loc_name = [], loc_owner = w\<rparr>)"

definition destination_location ::
  "resource_destination \<Rightarrow> parent_lookup \<Rightarrow> resource_location option" where
  "destination_location destination lookup =
     map_option (\<lambda>parent. parent\<lparr>
         loc_path := path_join (drop_one_trailing slash (loc_path parent) #
                       folders_or_none (dest_createFolders destination) @ [dest_name destination]),
         loc_name := last (path_split (dest_name destination))\<rparr>)
       (destination_parent_location (dest_parent destination) lookup)"

section \<open>Requests\<close>

datatype entry_kind = FileKind | FolderKind

record entry_ref =
  ref_kind :: entry_kind
  ref_node :: string

record create_destination =
  cd_parent :: destination_parent
  cd_name :: string
  cd_position :: "sibling_position option"

record create_body =
  crb_documentId :: string
  crb_folderPath :: "string option"
  crb_destination :: "create_destination option"

record create_folder_body =
  cfb_folderId :: string
  cfb_destination :: create_destination

record move_body =
  mvb_operationId :: string
  mvb_kind :: entry_kind
  mvb_destinationParent :: "destination_parent option"
  mvb_position :: "sibling_position option"
  mvb_name :: "string option"

record delete_body =
  dlb_operationId :: string
  dlb_kind :: entry_kind

datatype copy_view = LiveView | DraftView string

record copy_source =
  cs_scheme :: context_scheme
  cs_path :: string
  cs_expected :: entry_ref
  cs_workId :: "string option"
  cs_rootThreadId :: "string option"
  cs_chatRef :: "string option"
  cs_view :: copy_view
  cs_copyId :: "string option"
  cs_stateVector :: "string option"

record copy_body =
  cpb_operationId :: string
  cpb_sources :: "copy_source list"
  cpb_destinationScheme :: context_scheme
  cpb_destinationFolderPath :: string
  cpb_destinationWorkId :: "string option"
  cpb_destinationRootThreadId :: "string option"
  cpb_destinationParent :: "destination_parent option"
  cpb_position :: "sibling_position option"

datatype namespace_request =
    CreateRequest create_body
  | CreateFolderRequest resource_owner create_folder_body
  | MoveRequest string move_body
  | DeleteRequest string delete_body
  | CopyRequest resource_owner copy_body

text \<open>\<^verbatim>\<open>namespaceEntryIs\<close> on the entry id and kind of a move or delete request.\<close>

definition namespace_entry_is :: "entry_ref \<Rightarrow> string \<Rightarrow> entry_kind \<Rightarrow> bool" where
  "namespace_entry_is expected entryId kind \<longleftrightarrow>
     ref_kind expected = kind \<and> ref_node expected = entryId"

fun namespace_request_id :: "namespace_request \<Rightarrow> string" where
  "namespace_request_id (CreateRequest b) = crb_documentId b"
| "namespace_request_id (CreateFolderRequest _ b) = cfb_folderId b"
| "namespace_request_id (MoveRequest _ b) = mvb_operationId b"
| "namespace_request_id (DeleteRequest _ b) = dlb_operationId b"
| "namespace_request_id (CopyRequest _ b) = cpb_operationId b"

section \<open>Outcomes\<close>

record document_address =
  addr_scheme :: context_scheme
  addr_path :: string
  addr_name :: string
  addr_workId :: "string option"

datatype create_answer =
    CreateMade bool string document_address \<comment> \<open>already materialized, document id, address\<close>
  | CreateJoined string document_address
  | CreateConflict

datatype create_folder_answer =
    FolderMade bool string document_address
  | FolderConflict

datatype context_error =
    OperationMismatch string
  | InvalidName string string
  | NotFound string
  | DestinationMissing string
  | PermissionDenied string
  | Conflict string "entry_kind option"
  | StaleSource string
  | StaleTarget string
  | InvalidOperation string "string option"
  | ContextUnavailable string string "string option"
  | InvalidUri string string
  | IoError string string "string option"

record move_command =
  mvc_expected :: entry_ref
  mvc_destinationParent :: "destination_parent option"
  mvc_position :: "sibling_position option"
  mvc_name :: "string option"

record copy_command_source =
  ccs_uri :: string
  ccs_expected :: entry_ref
  ccs_view :: copy_view
  ccs_copyId :: "string option"

record copy_command =
  cpc_sources :: "copy_command_source list"
  cpc_destinationUri :: string
  cpc_destinationParent :: "destination_parent option"
  cpc_position :: "sibling_position option"

record move_value =
  mv_destinationUri :: string
  mv_locationVersion :: "string option"

record delete_value =
  dv_uri :: string
  dv_removed :: "string list"
  dv_availabilityGeneration :: string

record copied_entry =
  ce_kind :: entry_kind
  ce_id :: string
  ce_path :: string
  ce_name :: string
  ce_copiedFrom :: string

text \<open>
  A receipt's result has the kind of its command, so the two travel together:
  \<^verbatim>\<open>result.ok\<close> is \<open>Inr\<close>.
\<close>

datatype operation_answer =
    MoveAnswer move_command "context_error + move_value"
  | DeleteAnswer entry_ref "context_error + delete_value"
  | CopyAnswer copy_command "context_error + copied_entry list"

record operation_receipt =
  rcpt_operationId :: string
  rcpt_observationVersion :: string
  rcpt_answer :: operation_answer

fun answer_ok :: "operation_answer \<Rightarrow> bool" where
  "answer_ok (MoveAnswer _ r) = (\<not> isl r)"
| "answer_ok (DeleteAnswer _ r) = (\<not> isl r)"
| "answer_ok (CopyAnswer _ r) = (\<not> isl r)"

definition receipt_ok :: "operation_receipt \<Rightarrow> bool" where
  "receipt_ok r = answer_ok (rcpt_answer r)"

record meridian_error =
  me_code :: string
  me_message :: string
  me_retryable :: bool

datatype namespace_outcome =
    CreateOutcome create_answer
  | CreateFolderOutcome create_folder_answer
  | OperationOutcome operation_receipt
  | RefusalOutcome string meridian_error

record namespace_attempt =
  att_id :: string
  att_request :: namespace_request
  att_outcome :: "namespace_outcome option"

section \<open>Placement admissions and intents\<close>

datatype journal_kind = ResourceJournal | FolderJournal | OperationJournal

record placement_predecessor =
  pred_kind :: journal_kind
  pred_handle :: string
  pred_order :: int
  pred_anchor :: bool

record placement_admission =
  adm_order :: int
  adm_scope :: "string list"
  adm_predecessors :: "placement_predecessor list"

record copy_root =
  root_kind :: entry_kind
  root_handle :: string
  root_copyId :: string
  root_sourceId :: string
  root_view :: copy_view
  root_stateVector :: "string option"
  root_predictedName :: string

datatype desired =
    SetLocation string resource_destination
  | SetFolderLocation string resource_destination
  | DeleteEntry
  | CopyEntries "copy_root list" parent_ref "sibling_position option"

datatype intent_state =
    Pending | Submitted | Received | Settled | Superseded
  | UnexecutableAfterTerminal | NeedsRepair | Cancelled | SettledLocally

record namespace_intent =
  int_projectId :: string
  int_handle :: string
  int_id :: string
  int_operationId :: "string option"
  int_sequence :: int
  int_admission :: "placement_admission option"
  int_identityRevision :: int
  int_desired :: desired
  int_attempts :: "namespace_attempt list"
  int_settledAt :: "int option"
  int_state :: intent_state

text \<open>\<^verbatim>\<open>desired.kind === "set-location" || desired.kind === "set-folder-location"\<close>.\<close>

fun is_placement :: "desired \<Rightarrow> bool" where
  "is_placement (SetLocation _ _) = True"
| "is_placement (SetFolderLocation _ _) = True"
| "is_placement _ = False"

text \<open>\<^verbatim>\<open>left.desired.kind === right.desired.kind\<close>.\<close>

fun same_desired_kind :: "desired \<Rightarrow> desired \<Rightarrow> bool" where
  "same_desired_kind (SetLocation _ _) (SetLocation _ _) = True"
| "same_desired_kind (SetFolderLocation _ _) (SetFolderLocation _ _) = True"
| "same_desired_kind DeleteEntry DeleteEntry = True"
| "same_desired_kind (CopyEntries _ _ _) (CopyEntries _ _ _) = True"
| "same_desired_kind _ _ = False"

definition last_outcome :: "namespace_intent \<Rightarrow> namespace_outcome option" where
  "last_outcome i = Option.bind (at_last (int_attempts i)) att_outcome"

section \<open>What the server holds\<close>

datatype server_hold = LocalHold | UncertainHold | HeldHold | SpentHold

definition hold_after_attempt :: "server_hold \<Rightarrow> namespace_attempt \<Rightarrow> server_hold" where
  "hold_after_attempt hold attempt =
     (let isCreate = (case att_request attempt of
            CreateRequest _ \<Rightarrow> True | CreateFolderRequest _ _ \<Rightarrow> True | _ \<Rightarrow> False)
      in if \<not> isCreate then hold
         else (case att_outcome attempt of
             None \<Rightarrow> UncertainHold
           | Some (RefusalOutcome _ _) \<Rightarrow> LocalHold
           | Some (OperationOutcome _) \<Rightarrow> hold
           | Some (CreateOutcome a) \<Rightarrow>
               (if a = CreateConflict then SpentHold else HeldHold)
           | Some (CreateFolderOutcome a) \<Rightarrow>
               (if a = FolderConflict then SpentHold else HeldHold)))"

definition delete_needs_server :: "server_hold \<Rightarrow> bool" where
  "delete_needs_server hold \<longleftrightarrow> hold = HeldHold \<or> hold = UncertainHold"

section \<open>Durable records\<close>

datatype file_disposition =
    EditableFile filetype schema_type
  | BinaryDisposition document_file_type "string option"
  | CustomDisposition document_file_type "string option" filetype

record file_classification =
  class_extension :: string
  class_disposition :: file_disposition

definition class_editable :: "file_classification \<Rightarrow> bool" where
  "class_editable c =
     (case class_disposition c of EditableFile _ _ \<Rightarrow> True | _ \<Rightarrow> False)"

text \<open>The one materialization kind, \<^verbatim>\<open>untitled\<close>.\<close>

record document_materialization =
  mat_folderPath :: string
  mat_provisionalName :: string
  mat_unnamed :: bool

record copied_by =
  cby_operationId :: string
  cby_projectId :: string

record exact_content =
  ec_databaseName :: string
  ec_schema :: "string option"
  ec_reserved :: bool

datatype resource_content = ExactContent exact_content | Unacquired

record terminal_state =
  term_generation :: string
  term_transitionId :: string
  term_deletionVersion :: "string option"

datatype resource_lifecycle =
    LocalLife | Acknowledged "string option" | Terminal terminal_state

record canonical_refresh =
  cr_operationId :: string
  cr_identityRevision :: int
  cr_observationVersion :: "string option"

record session_adoption =
  sa_transitionId :: string
  sa_projectId :: string
  sa_documentId :: string
  sa_identityRevision :: int
  sa_exactDatabaseName :: string

record cleanup_work =
  cl_obligationId :: string
  cl_exactDatabaseName :: string
  cl_notBefore :: "int option"

text \<open>\<^verbatim>\<open>createEligibility\<close> is absent, or holds a time or null.\<close>

record resource_obligations =
  ob_createEligibility :: "int option option"
  ob_canonicalRefresh :: "canonical_refresh option"
  ob_sessionAdoption :: "session_adoption option"
  ob_cleanup :: "cleanup_work option"

definition no_obligations :: resource_obligations where
  "no_obligations = \<lparr>ob_createEligibility = None, ob_canonicalRefresh = None,
     ob_sessionAdoption = None, ob_cleanup = None\<rparr>"

record revived_from =
  rf_generation :: string
  rf_transitionId :: string

text \<open>The alias dictionary keeps its insertion order: old document id, identity revision.\<close>

record resource_descriptor =
  res_handle :: string
  res_revision :: int
  res_documentId :: string
  res_identityRevision :: int
  res_content :: resource_content
  res_classification :: file_classification
  res_materialization :: "document_materialization option"
  res_serverHold :: server_hold
  res_copiedBy :: "copied_by option"
  res_canonical :: "resource_location option"
  res_canonicalParent :: "parent_ref option"
  res_canonicalRank :: "string option option"
  res_canonicalLocationVersion :: "string option"
  res_observationVersion :: "string option"
  res_lifecycle :: resource_lifecycle
  res_aliases :: "(string \<times> int) list"
  res_revivedFrom :: "revived_from option"
  res_obligations :: resource_obligations

record resource_record =
  rec_resource :: resource_descriptor
  rec_intents :: "namespace_intent list"

datatype order_policy = DefaultOrder | ManualOrder

record folder_refresh =
  fr_operationId :: string
  fr_observationVersion :: "string option"

record local_deletion =
  ld_obligationId :: string
  ld_notBefore :: int

record folder_record =
  fol_projectId :: "string option"
  fol_handle :: string
  fol_folderId :: string
  fol_aliases :: "string list"
  fol_revision :: int
  fol_serverHold :: server_hold
  fol_copiedBy :: "copied_by option"
  fol_canonical :: "resource_location option"
  fol_canonicalParent :: "parent_ref option"
  fol_canonicalRank :: "string option option"
  fol_canonicalLocationVersion :: "string option"
  fol_canonicalOrderPolicy :: "order_policy option"
  fol_observationVersion :: "string option"
  fol_canonicalRefresh :: "folder_refresh option"
  fol_localDeletion :: "local_deletion option"
  fol_terminal :: "string option"
  fol_intents :: "namespace_intent list"

record operation_record =
  op_operationId :: string
  op_projectId :: string
  op_revision :: int
  op_behindSince :: "int option"
  op_intents :: "namespace_intent list"

text \<open>A write with the revision it expects to replace; \<open>None\<close> creates the record.\<close>

record resource_write =
  rw_expectedRevision :: "int option"
  rw_next :: resource_record

record folder_write =
  fw_expectedRevision :: "int option"
  fw_next :: folder_record

record root_place =
  rp_handle :: string
  rp_kind :: entry_kind
  rp_location :: resource_location
  rp_parent :: parent_ref
  rp_observationVersion :: string

text \<open>What an operation write does to its roots; each part is absent or a list, possibly empty.\<close>

record created_roots =
  cr_resources :: "resource_record list"
  cr_folders :: "folder_record list"

record operation_roots =
  roots_created :: "created_roots option"
  roots_placed :: "root_place list option"
  roots_dropped :: "string list option"

record operation_write =
  ow_expectedRevision :: "int option"
  ow_next :: operation_record
  ow_roots :: "operation_roots option"

record available_identity =
  av_location :: resource_location
  av_parent :: parent_ref
  av_observationVersion :: string
  av_locationVersion :: "string option"
  av_rank :: "string option option"
  av_orderPolicy :: "order_policy option"

datatype identity_availability =
    Available available_identity
  | DeletedIdentity string string \<comment> \<open>generation, observation version\<close>
  | Unavailable

section \<open>Facts about the hold\<close>

text \<open>
  Only the answer to a create attempt moves the hold, and an unanswered create leaves it
  uncertain.
\<close>

fun is_create_request :: "namespace_request \<Rightarrow> bool" where
  "is_create_request (CreateRequest _) = True"
| "is_create_request (CreateFolderRequest _ _) = True"
| "is_create_request _ = False"

lemma hold_after_other [simp]:
  "\<not> is_create_request (att_request a) \<Longrightarrow> hold_after_attempt h a = h"
  by (cases "att_request a") (simp_all add: hold_after_attempt_def)

lemma hold_after_create:
  "is_create_request (att_request a) \<Longrightarrow> hold_after_attempt h a =
     (case att_outcome a of None \<Rightarrow> UncertainHold
      | Some (RefusalOutcome _ _) \<Rightarrow> LocalHold
      | Some (OperationOutcome _) \<Rightarrow> h
      | Some (CreateOutcome c) \<Rightarrow> (if c = CreateConflict then SpentHold else HeldHold)
      | Some (CreateFolderOutcome c) \<Rightarrow> (if c = FolderConflict then SpentHold else HeldHold))"
  by (cases "att_request a") (simp_all add: hold_after_attempt_def)

lemma is_placement_desired:
  "is_placement d \<longleftrightarrow> (\<exists>n t. d = SetLocation n t) \<or> (\<exists>n t. d = SetFolderLocation n t)"
  by (cases d) auto

lemma same_desired_kind_refl [simp]: "same_desired_kind d d"
  by (cases d) auto

lemma last_outcome_Some_attempt:
  "last_outcome i = Some out \<Longrightarrow>
     int_attempts i \<noteq> [] \<and> att_outcome (last (int_attempts i)) = Some out"
  by (auto simp: last_outcome_def at_last_def split: if_splits)

end
