(* ===== verification/Intent_Policy.thy ===== *)
theory Intent_Policy
  imports Resource_Records
begin

text \<open>
  What an intent means for its record (\<^verbatim>\<open>resource-intent-policy.ts\<close>): the semantic outcome of
  recorded evidence, which intents own the deletion or the location of an identity, and how the
  writer's next command supersedes failed work.
\<close>

section \<open>Outcomes\<close>

datatype intent_outcome =
    AcceptedOutcome | RefusedOutcome | SupersededOutcome | UnexecutableOutcome

definition namespace_intent_outcome :: "namespace_outcome \<Rightarrow> bool \<Rightarrow> intent_outcome" where
  "namespace_intent_outcome outcome terminal =
     (if terminal then UnexecutableOutcome
      else case outcome of
          OperationOutcome receipt \<Rightarrow>
            (if receipt_ok receipt then AcceptedOutcome else RefusedOutcome)
        | CreateOutcome a \<Rightarrow> (if a = CreateConflict then RefusedOutcome else AcceptedOutcome)
        | CreateFolderOutcome a \<Rightarrow> (if a = FolderConflict then RefusedOutcome else AcceptedOutcome)
        | RefusalOutcome _ _ \<Rightarrow> RefusedOutcome)"

definition accepted_outcome :: "namespace_outcome \<Rightarrow> bool" where
  "accepted_outcome outcome \<longleftrightarrow> namespace_intent_outcome outcome False = AcceptedOutcome"

section \<open>Work that is still to send\<close>

definition awaits_remint :: "server_hold \<Rightarrow> namespace_intent list \<Rightarrow> bool" where
  "awaits_remint hold intents \<longleftrightarrow>
     hold = SpentHold \<and>
     list_ex (\<lambda>i. is_placement (int_desired i) \<and>
       (int_state i = NeedsRepair \<or> (int_state i = Pending \<and> int_attempts i = []))) intents"

definition unresolved_state :: "intent_state \<Rightarrow> bool" where
  "unresolved_state s \<longleftrightarrow> s = Pending \<or> s = Submitted \<or> s = Received"

definition resource_needs_background_reconciliation :: "resource_record \<Rightarrow> bool" where
  "resource_needs_background_reconciliation record \<longleftrightarrow>
     ob_sessionAdoption (res_obligations (rec_resource record)) \<noteq> None \<or>
     ob_cleanup (res_obligations (rec_resource record)) \<noteq> None \<or>
     awaits_remint (res_serverHold (rec_resource record)) (rec_intents record) \<or>
     list_ex (\<lambda>i. unresolved_state (int_state i)) (rec_intents record)"

section \<open>Superseding failed work\<close>

text \<open>A null project is every project.\<close>

definition in_project :: "string option \<Rightarrow> namespace_intent \<Rightarrow> bool" where
  "in_project projectId i \<longleftrightarrow> projectId = None \<or> projectId = Some (int_projectId i)"

definition supersede_repairable_namespace_work ::
  "namespace_intent list \<Rightarrow> string option \<Rightarrow> namespace_intent list \<times> bool" where
  "supersede_repairable_namespace_work intents projectId =
     (let failed = (\<lambda>i. in_project projectId i \<and> int_state i = NeedsRepair)
      in if \<not> list_ex failed intents then (intents, False)
         else (map (\<lambda>i.
             if failed i then i\<lparr>int_state := Superseded\<rparr>
             else if in_project projectId i \<and> int_state i = Pending \<and> int_attempts i = []
             then i\<lparr>int_state := Cancelled\<rparr>
             else i) intents, True))"

section \<open>Ownership of a deletion\<close>

definition intent_owns_deletion :: "namespace_intent \<Rightarrow> bool" where
  "intent_owns_deletion i \<longleftrightarrow>
     int_desired i = DeleteEntry \<and>
     int_state i \<in> {Pending, Submitted, Received, Settled, SettledLocally}"

definition confirmed_deletion_version :: "namespace_intent \<Rightarrow> string option" where
  "confirmed_deletion_version i =
     (if int_desired i \<noteq> DeleteEntry \<or> int_state i \<noteq> Settled then None
      else case last_outcome i of
          Some (OperationOutcome receipt) \<Rightarrow> Some (rcpt_observationVersion receipt)
        | _ \<Rightarrow> None)"

definition intent_owns_deletion_at :: "namespace_intent \<Rightarrow> string option \<Rightarrow> bool result" where
  "intent_owns_deletion_at i observationVersion =
     (if \<not> intent_owns_deletion i then Inr False
      else case (confirmed_deletion_version i, observationVersion) of
          (Some confirmed, Some version) \<Rightarrow>
            and_then (newer_canonical_observation version (Some confirmed)) (\<lambda>b. Inr (\<not> b))
        | _ \<Rightarrow> Inr True)"

section \<open>Ownership of a location\<close>

definition intent_owns_location :: "namespace_intent \<Rightarrow> bool" where
  "intent_owns_location i \<longleftrightarrow>
     is_placement (int_desired i) \<and> int_state i \<in> {Pending, Submitted, Received, Settled}"

definition owning_location_intent ::
  "string option \<Rightarrow> namespace_intent list \<Rightarrow> bool \<Rightarrow> namespace_intent option" where
  "owning_location_intent projectId intents canonicalRefreshPending =
     (let blocker = find (\<lambda>i. in_project projectId i \<and> int_state i = NeedsRepair) intents;
          owner = find (\<lambda>i. in_project projectId i \<and>
                       (case blocker of None \<Rightarrow> True
                        | Some b \<Rightarrow> int_sequence i < int_sequence b) \<and>
                       intent_owns_location i)
                    (sort_key (\<lambda>i. - int_sequence i) intents)
      in case owner of None \<Rightarrow> None
         | Some o' \<Rightarrow> if int_state o' = Settled \<and> \<not> canonicalRefreshPending then None else Some o')"

definition placement_destination ::
  "string option \<Rightarrow> resource_record \<Rightarrow> resource_destination option" where
  "placement_destination projectId record =
     (case owning_location_intent projectId (rec_intents record)
             (ob_canonicalRefresh (res_obligations (rec_resource record)) \<noteq> None) of
        Some i \<Rightarrow> (case int_desired i of SetLocation _ d \<Rightarrow> Some d | _ \<Rightarrow> None)
      | None \<Rightarrow> None)"

definition shown_row :: "string option \<Rightarrow> resource_record \<Rightarrow> named_row" where
  "shown_row projectId record =
     (let c = res_classification (rec_resource record);
          row = \<lparr>row_extension = class_extension c, row_editable = class_editable c\<rparr>
      in case placement_destination projectId record of
           None \<Rightarrow> row
         | Some d \<Rightarrow> (case stored_filename (dest_name d) (Some row) of
               Inl _ \<Rightarrow> row
             | Inr named \<Rightarrow> row\<lparr>row_extension := sn_extension named\<rparr>))"

section \<open>Facts about ownership\<close>

text \<open>
  The owner stands before the first failed placement, and no owning placement stands between it
  and that failure: it is the newest one in scope.
\<close>

lemma owning_location_intent_props:
  assumes "owning_location_intent p intents r = Some i"
  shows "i \<in> set intents" and "in_project p i" and "intent_owns_location i"
    and "int_state i = Settled \<Longrightarrow> r"
proof -
  define blocker where "blocker = find (\<lambda>i. in_project p i \<and> int_state i = NeedsRepair) intents"
  define q where "q = (\<lambda>i. in_project p i \<and>
    (case blocker of None \<Rightarrow> True | Some b \<Rightarrow> int_sequence i < int_sequence b) \<and>
    intent_owns_location i)"
  have "(case find q (sort_key (\<lambda>i. - int_sequence i) intents) of None \<Rightarrow> None
      | Some o' \<Rightarrow> if int_state o' = Settled \<and> \<not> r then None else Some o') = Some i"
    using assms unfolding owning_location_intent_def Let_def q_def blocker_def .
  then have f: "find q (sort_key (\<lambda>i. - int_sequence i) intents) = Some i"
    and s: "int_state i = Settled \<Longrightarrow> r"
    by (auto split: option.splits if_splits)
  from find_Some_mem [OF f] show "i \<in> set intents" "in_project p i" "intent_owns_location i"
    by (auto simp: q_def)
  from s show "int_state i = Settled \<Longrightarrow> r" .
qed

lemma owning_location_intent_newest:
  assumes own: "owning_location_intent p intents r = Some i"
    and mem: "j \<in> set intents" "in_project p j" "intent_owns_location j"
    and clear: "\<And>b. b \<in> set intents \<Longrightarrow> in_project p b \<Longrightarrow> int_state b \<noteq> NeedsRepair"
  shows "int_sequence j \<le> int_sequence i"
proof -
  have nb: "find (\<lambda>i. in_project p i \<and> int_state i = NeedsRepair) intents = None"
    using clear by (auto simp: find_None_conv)
  have "find (\<lambda>i. in_project p i \<and> True \<and> intent_owns_location i)
      (sort_key (\<lambda>i. - int_sequence i) intents) = Some i"
    using own by (auto simp: owning_location_intent_def Let_def nb split: option.splits if_splits)
  from sorted_find_least [OF this mem(1)] mem(2,3) show ?thesis by simp
qed

text \<open>A deletion the server confirmed is owned until a strictly newer observation arrives.\<close>

lemma owns_deletion_until_newer:
  assumes "intent_owns_deletion i" and "confirmed_deletion_version i = Some c"
    and "canonical_decimal c" and "canonical_decimal v"
  shows "intent_owns_deletion_at i (Some v) = Inr (version_number v \<le> version_number c)"
  using assms by (auto simp: intent_owns_deletion_at_def)

lemma supersede_length [simp]:
  "length (fst (supersede_repairable_namespace_work intents p)) = length intents"
  by (simp add: supersede_repairable_namespace_work_def Let_def)

lemma supersede_no_failed:
  "i \<in> set (fst (supersede_repairable_namespace_work intents p)) \<Longrightarrow>
     \<not> (in_project p i \<and> int_state i = NeedsRepair)"
  by (auto simp: supersede_repairable_namespace_work_def Let_def in_project_def split: if_splits)

text \<open>Superseding only moves states: everything else of every intent stays.\<close>

definition same_but_state :: "namespace_intent \<Rightarrow> namespace_intent \<Rightarrow> bool" where
  "same_but_state i j \<longleftrightarrow> j = i\<lparr>int_state := int_state j\<rparr>"

lemma same_but_state_refl [simp]: "same_but_state i i"
  by (simp add: same_but_state_def)

lemma same_but_state_update [simp]: "same_but_state i (i\<lparr>int_state := s\<rparr>)"
  by (simp add: same_but_state_def)

lemma supersede_same_but_state:
  "list_all2 same_but_state intents (fst (supersede_repairable_namespace_work intents p))"
  by (auto simp: supersede_repairable_namespace_work_def Let_def list_all2_conv_all_nth)

end
