(* ===== verification/First_Place.thy ===== *)
theory First_Place
  imports Intent_Policy
begin

text \<open>
  Requests by entry id (\<^verbatim>\<open>namespace-requests.ts\<close>), receipt kinds and the short-lived receipt note
  (\<^verbatim>\<open>namespace-receipts.ts\<close>), and the accepted answer behind a record's place
  (\<^verbatim>\<open>first-place.ts\<close>).
\<close>

section \<open>Requests\<close>

definition delete_request :: "entry_kind \<Rightarrow> string \<Rightarrow> string \<Rightarrow> namespace_request" where
  "delete_request kind entryId operationId =
     DeleteRequest entryId \<lparr>dlb_operationId = operationId, dlb_kind = kind\<rparr>"

definition parent_with_folders :: "resource_destination \<Rightarrow> destination_parent" where
  "parent_with_folders d =
     \<lparr>dp_parent = dest_parent d,
      dp_createFolders = (if folders_or_none (dest_createFolders d) = [] then None
                          else dest_createFolders d)\<rparr>"

definition same_current_parent :: "resource_destination \<Rightarrow> parent_ref option \<Rightarrow> bool" where
  "same_current_parent destination current \<longleftrightarrow>
     folders_or_none (dest_createFolders destination) = [] \<and>
     (case current of None \<Rightarrow> False
      | Some p \<Rightarrow> same_destination_parent (Some (bare_parent p))
          (Some (bare_parent (dest_parent destination))))"

definition move_request ::
  "entry_kind \<Rightarrow> string \<Rightarrow> string \<Rightarrow> resource_destination \<Rightarrow> string \<Rightarrow> string \<Rightarrow> parent_ref option \<Rightarrow>
     namespace_request" where
  "move_request kind entryId operationId destination typedName currentName currentParent =
     MoveRequest entryId
       \<lparr>mvb_operationId = operationId, mvb_kind = kind,
        mvb_destinationParent =
          (if same_current_parent destination currentParent then None
           else Some (parent_with_folders destination)),
        mvb_position = dest_position destination,
        mvb_name = (if typedName \<noteq> currentName \<and> dest_name destination \<noteq> currentName
                    then Some typedName else None)\<rparr>"

section \<open>Receipts\<close>

datatype command_kind = MoveCommand | DeleteCommand | CopyCommand

fun answer_kind :: "operation_answer \<Rightarrow> command_kind" where
  "answer_kind (MoveAnswer _ _) = MoveCommand"
| "answer_kind (DeleteAnswer _ _) = DeleteCommand"
| "answer_kind (CopyAnswer _ _) = CopyCommand"

definition namespace_receipt_is :: "operation_receipt \<Rightarrow> command_kind \<Rightarrow> bool" where
  "namespace_receipt_is receipt kind \<longleftrightarrow> answer_kind (rcpt_answer receipt) = kind"

definition namespace_receipt_note_ttl_ms :: int where
  "namespace_receipt_note_ttl_ms = 4000"

definition receipt_note_open :: "namespace_intent \<Rightarrow> int \<Rightarrow> int \<Rightarrow> bool" where
  "receipt_note_open i now ttl \<longleftrightarrow>
     (int_state i = Settled \<or> int_state i = NeedsRepair) \<and>
     (case int_settledAt i of None \<Rightarrow> False | Some t \<Rightarrow> t \<le> now \<and> now < t + ttl)"

fun attempt_receipt :: "string \<Rightarrow> namespace_attempt list \<Rightarrow> operation_receipt option" where
  "attempt_receipt operationId [] = None"
| "attempt_receipt operationId (a # as) =
     (case att_outcome a of
        Some (OperationOutcome r) \<Rightarrow>
          if rcpt_operationId r = operationId then Some r else attempt_receipt operationId as
      | _ \<Rightarrow> attempt_receipt operationId as)"

fun settled_namespace_receipt ::
  "namespace_intent list \<Rightarrow> string \<Rightarrow> int \<Rightarrow> int \<Rightarrow> operation_receipt option" where
  "settled_namespace_receipt [] operationId now ttl = None"
| "settled_namespace_receipt (i # is) operationId now ttl =
     (case (if receipt_note_open i now ttl then attempt_receipt operationId (int_attempts i)
            else None) of
        Some r \<Rightarrow> Some r
      | None \<Rightarrow> settled_namespace_receipt is operationId now ttl)"

section \<open>The answer behind a place\<close>

record place_origin =
  og_intents :: "namespace_intent list"
  og_copiedBy :: "copied_by option"

definition origin_operation ::
  "place_origin \<Rightarrow> (string \<Rightarrow> operation_record option) \<Rightarrow> operation_record option" where
  "origin_operation origin readOperation =
     (case og_copiedBy origin of None \<Rightarrow> None | Some c \<Rightarrow> readOperation (cby_operationId c))"

definition intent_answers ::
  "string option \<Rightarrow> namespace_intent \<Rightarrow> (string \<times> namespace_outcome) list" where
  "intent_answers projectId i =
     List.map_filter (\<lambda>a. case att_outcome a of
         Some out \<Rightarrow> if accepted_outcome out
           then Some (case projectId of None \<Rightarrow> int_projectId i | Some p \<Rightarrow> p, out) else None
       | None \<Rightarrow> None) (int_attempts i)"

definition accepted_answers ::
  "place_origin \<Rightarrow> operation_record option \<Rightarrow> (string \<times> namespace_outcome) list" where
  "accepted_answers origin operation =
     concat (map (intent_answers None) (og_intents origin)) @
     (case operation of
        Some op \<Rightarrow>
          if Some (op_operationId op) = map_option cby_operationId (og_copiedBy origin)
          then concat (map (intent_answers (Some (op_projectId op))) (op_intents op)) else []
      | None \<Rightarrow> [])"

definition first_place_witnessed ::
  "place_origin \<Rightarrow> operation_record option \<Rightarrow> string \<Rightarrow> entry_kind \<Rightarrow> bool" where
  "first_place_witnessed origin operation entryId kind \<longleftrightarrow>
     list_ex (\<lambda>(_, out). case out of
         CreateFolderOutcome _ \<Rightarrow> True
       | OperationOutcome r \<Rightarrow> (case rcpt_answer r of
             CopyAnswer _ (Inr entries) \<Rightarrow>
               list_ex (\<lambda>e. ce_id e = entryId \<and> ce_kind e = kind) entries
           | _ \<Rightarrow> False)
       | _ \<Rightarrow> False) (accepted_answers origin operation)"

definition refresh_witness ::
  "place_origin \<Rightarrow> operation_record option \<Rightarrow> string \<Rightarrow> string option" where
  "refresh_witness origin operation operationId =
     map_option fst (find (\<lambda>(_, out). case out of
         OperationOutcome r \<Rightarrow> rcpt_operationId r = operationId \<and>
           (namespace_receipt_is r MoveCommand \<or> namespace_receipt_is r CopyCommand)
       | _ \<Rightarrow> False) (accepted_answers origin operation))"

section \<open>Facts\<close>

text \<open>A move sends a name or parent only where it differs from the row the device last saw.\<close>

lemma move_request_unchanged:
  assumes "dest_name d = n" and "dest_parent d = p" and "folders_or_none (dest_createFolders d) = []"
    and "dest_position d = None"
  shows "move_request k e op d t n (Some p) =
     MoveRequest e \<lparr>mvb_operationId = op, mvb_kind = k, mvb_destinationParent = None,
       mvb_position = None, mvb_name = None\<rparr>"
  using assms by (simp add: move_request_def same_current_parent_def same_destination_parent_def
      bare_parent_def split: parent_ref.splits)

lemma accepted_answers_accepted:
  "(p, out) \<in> set (accepted_answers origin operation) \<Longrightarrow> accepted_outcome out"
  by (auto simp: accepted_answers_def intent_answers_def map_filter_def
        split: option.splits if_splits)

end
