(* ===== verification/Journal_Policy.thy ===== *)
theory Journal_Policy
  imports Intent_Policy
begin

text \<open>
  The ordered journal of namespace intents (\<^verbatim>\<open>namespace-journal-policy.ts\<close>): how an outcome
  settles an intent and the work queued behind it, how the work of a spent id moves to a new one,
  and the validator every stored update of a journal passes.
\<close>

section \<open>Settlement\<close>

text \<open>\<^verbatim>\<open>followsLocationIntent\<close>: queued placement work that rides on an earlier placement.\<close>

definition follows_location_intent :: "namespace_intent \<Rightarrow> namespace_intent \<Rightarrow> bool" where
  "follows_location_intent intent earlier \<longleftrightarrow>
     is_placement (int_desired earlier) \<and>
     same_desired_kind (int_desired intent) (int_desired earlier) \<and>
     int_identityRevision intent = int_identityRevision earlier \<and>
     int_sequence intent > int_sequence earlier"

definition resolve_refused_location_chain ::
  "namespace_intent list \<Rightarrow> namespace_intent \<Rightarrow> namespace_intent list" where
  "resolve_refused_location_chain intents failed =
     (let deleted = (int_desired failed \<noteq> DeleteEntry \<and>
            list_ex (\<lambda>i. int_sequence i > int_sequence failed \<and>
              int_identityRevision i = int_identityRevision failed \<and>
              intent_owns_deletion i) intents)
      in map (\<lambda>i.
           if int_id i = int_id failed \<and> deleted then i\<lparr>int_state := Superseded\<rparr>
           else if follows_location_intent i failed \<and> int_state i = Pending \<and> int_attempts i = []
           then i\<lparr>int_state := Cancelled\<rparr>
           else i) intents)"

fun settled_state :: "intent_outcome \<Rightarrow> intent_state" where
  "settled_state AcceptedOutcome = Settled"
| "settled_state RefusedOutcome = NeedsRepair"
| "settled_state SupersededOutcome = Superseded"
| "settled_state UnexecutableOutcome = UnexecutableAfterTerminal"

definition settle_namespace_intent ::
  "namespace_intent list \<Rightarrow> namespace_intent \<Rightarrow> intent_outcome \<Rightarrow> int \<Rightarrow> server_hold \<Rightarrow>
     namespace_intent list" where
  "settle_namespace_intent intents intent disposition settledAt hold =
     (let next' = map (\<lambda>c. if int_id c = int_id intent
             then c\<lparr>int_state := settled_state disposition, int_settledAt := Some settledAt\<rparr>
             else c) intents;
          refused = (case last_outcome intent of None \<Rightarrow> False
            | Some evidence \<Rightarrow> namespace_intent_outcome evidence False = RefusedOutcome)
      in if disposition = RefusedOutcome \<and> hold \<noteq> SpentHold \<and> refused
         then resolve_refused_location_chain next' intent else next')"

definition resolve_unavailable_namespace ::
  "namespace_intent list \<Rightarrow> bool \<Rightarrow> namespace_intent list" where
  "resolve_unavailable_namespace intents terminal =
     map (\<lambda>i. if int_state i = Pending \<or> int_state i = NeedsRepair
              then i\<lparr>int_state := (if terminal then UnexecutableAfterTerminal else NeedsRepair)\<rparr>
              else i) intents"

section \<open>Moving the work of a spent id\<close>

definition rename_scope_key :: "string \<Rightarrow> string \<Rightarrow> string \<Rightarrow> string" where
  "rename_scope_key from to key =
     (if key = ''entry:'' @ from then ''entry:'' @ to
      else if key = ''parent:folder:'' @ from then ''parent:folder:'' @ to
      else key)"

definition renamed_admission ::
  "placement_admission \<Rightarrow> string \<Rightarrow> string \<Rightarrow> placement_admission" where
  "renamed_admission admission from to =
     admission\<lparr>adm_scope := sort (map (rename_scope_key from to) (adm_scope admission))\<rparr>"

record remint_input =
  rm_intents :: "namespace_intent list"
  rm_from :: int
  rm_to :: int
  rm_fromId :: string
  rm_toId :: string
  rm_retryIntentId :: string
  rm_rebasedIntentIds :: "string \<Rightarrow> string option"

definition remint_failed :: "namespace_intent list \<Rightarrow> int \<Rightarrow> namespace_intent option" where
  "remint_failed intents from =
     (case sort_key (\<lambda>i. - int_sequence i)
         (filter (\<lambda>i. int_state i = NeedsRepair \<and> int_identityRevision i = from \<and>
            is_placement (int_desired i)) intents) of
        [] \<Rightarrow> None | f # _ \<Rightarrow> Some f)"

definition remint_dependents ::
  "namespace_intent list \<Rightarrow> int \<Rightarrow> namespace_intent option \<Rightarrow> namespace_intent list" where
  "remint_dependents intents from failed =
     filter (\<lambda>i. (case failed of None \<Rightarrow> True | Some f \<Rightarrow> int_sequence i > int_sequence f) \<and>
       int_identityRevision i = from \<and> int_state i = Pending \<and> int_attempts i = []) intents"

definition remint_retry :: "remint_input \<Rightarrow> namespace_intent \<Rightarrow> int \<Rightarrow> namespace_intent" where
  "remint_retry inp failed sequence =
     \<lparr>int_projectId = int_projectId failed, int_handle = int_handle failed,
      int_id = rm_retryIntentId inp, int_operationId = None, int_sequence = sequence,
      int_admission = map_option (\<lambda>a. renamed_admission a (rm_fromId inp) (rm_toId inp))
        (int_admission failed),
      int_identityRevision = rm_to inp, int_desired = int_desired failed, int_attempts = [],
      int_settledAt = None, int_state = Pending\<rparr>"

definition remint_rebased :: "remint_input \<Rightarrow> namespace_intent \<Rightarrow> int \<Rightarrow> namespace_intent" where
  "remint_rebased inp i sequence =
     i\<lparr>int_id := (case rm_rebasedIntentIds inp (int_id i) of None \<Rightarrow> [] | Some n \<Rightarrow> n),
       int_sequence := sequence, int_identityRevision := rm_to inp,
       int_admission := map_option (\<lambda>a. renamed_admission a (rm_fromId inp) (rm_toId inp))
         (int_admission i)\<rparr>"

definition remint_journal :: "remint_input \<Rightarrow> namespace_intent list option result" where
  "remint_journal inp =
     (let intents = rm_intents inp;
          failed = remint_failed intents (rm_from inp);
          dependents = remint_dependents intents (rm_from inp) failed
      in throw_when (list_ex (\<lambda>d. rm_rebasedIntentIds inp (int_id d) \<in> {None, Some []}) dependents)
           ''Remint requires an identity for every dependent intention''
         (if failed = None \<and> dependents = [] then Inr None
          else
            (let top = max_from_0 (map int_sequence intents);
                 retry = (case failed of None \<Rightarrow> [] | Some f \<Rightarrow> [remint_retry inp f (top + 1)]);
                 base = top + int (length retry);
                 rebased = map (\<lambda>(k, d). remint_rebased inp d (base + 1 + int k))
                   (enumerate 0 dependents)
             in Inr (Some
               (map (\<lambda>i. if (case failed of None \<Rightarrow> False | Some f \<Rightarrow> int_id i = int_id f)
                         then i\<lparr>int_state := Superseded\<rparr>
                         else if i \<in> set dependents then i\<lparr>int_state := Cancelled\<rparr>
                         else i) intents
                @ retry @ rebased)))))"

definition namespace_repair_destination ::
  "namespace_intent list \<Rightarrow> namespace_intent \<Rightarrow> resource_destination option" where
  "namespace_repair_destination intents failed =
     (let latest = foldl (\<lambda>candidate i.
            if int_state i = Cancelled \<and> follows_location_intent i failed \<and>
               int_sequence i > int_sequence candidate then i else candidate) failed intents
      in case int_desired latest of
           SetLocation typedName d \<Rightarrow> Some (d\<lparr>dest_name := typedName\<rparr>)
         | SetFolderLocation _ d \<Rightarrow> Some d
         | _ \<Rightarrow> None)"

section \<open>The validator\<close>

definition is_safe_integer :: "int \<Rightarrow> bool" where
  "is_safe_integer n \<longleftrightarrow> \<bar>n\<bar> \<le> 2 ^ 53 - 1"

text \<open>The outcome of one attempt answers the request that was submitted.\<close>

definition copy_sources_match :: "copy_source list \<Rightarrow> copy_command_source list \<Rightarrow> bool" where
  "copy_sources_match requested answered \<longleftrightarrow>
     list_all2 (\<lambda>r a. cs_copyId r = ccs_copyId a \<and> cs_expected r = ccs_expected a)
       requested answered"

definition answer_matches_identity :: "namespace_request \<Rightarrow> operation_answer \<Rightarrow> bool" where
  "answer_matches_identity request answer =
     (case (request, answer) of
        (MoveRequest e b, MoveAnswer c _) \<Rightarrow> namespace_entry_is (mvc_expected c) e (mvb_kind b)
      | (CopyRequest _ b, CopyAnswer c _) \<Rightarrow> copy_sources_match (cpb_sources b) (cpc_sources c)
      | (DeleteRequest e b, DeleteAnswer c _) \<Rightarrow> namespace_entry_is c e (dlb_kind b)
      | _ \<Rightarrow> False)"

definition same_command_kind :: "namespace_request \<Rightarrow> operation_answer \<Rightarrow> bool" where
  "same_command_kind request answer =
     (case (request, answer) of
        (MoveRequest _ _, MoveAnswer _ _) \<Rightarrow> True
      | (DeleteRequest _ _, DeleteAnswer _ _) \<Rightarrow> True
      | (CopyRequest _ _, CopyAnswer _ _) \<Rightarrow> True
      | _ \<Rightarrow> False)"

definition check_attempt_outcome :: "namespace_attempt \<Rightarrow> unit result" where
  "check_attempt_outcome attempt =
     (case att_outcome attempt of
        None \<Rightarrow> Inr ()
      | Some (RefusalOutcome operationId err) \<Rightarrow>
          throw_when (operationId \<noteq> namespace_request_id (att_request attempt) \<or> me_retryable err)
            ''Namespace refusal does not match submitted request'' (Inr ())
      | Some (OperationOutcome receipt) \<Rightarrow>
          throw_when (\<not> same_command_kind (att_request attempt) (rcpt_answer receipt) \<or>
              rcpt_operationId receipt \<noteq> namespace_request_id (att_request attempt))
            ''Namespace outcome does not match submitted request''
          (throw_when (\<not> answer_matches_identity (att_request attempt) (rcpt_answer receipt))
            ''Namespace outcome does not match submitted identity'' (Inr ()))
      | Some (CreateOutcome answer) \<Rightarrow>
          throw_when (case att_request attempt of
              CreateRequest b \<Rightarrow> (case answer of
                  CreateMade _ documentId _ \<Rightarrow> documentId \<noteq> crb_documentId b | _ \<Rightarrow> False)
            | _ \<Rightarrow> True)
            ''Create outcome does not match submitted identity'' (Inr ())
      | Some (CreateFolderOutcome answer) \<Rightarrow>
          throw_when (case att_request attempt of
              CreateFolderRequest _ b \<Rightarrow> (case answer of
                  FolderMade _ folderId _ \<Rightarrow> folderId \<noteq> cfb_folderId b | _ \<Rightarrow> False)
            | _ \<Rightarrow> True)
            ''Create outcome does not match submitted identity'' (Inr ()))"

fun check_attempts :: "string set \<Rightarrow> namespace_attempt list \<Rightarrow> unit result" where
  "check_attempts seen [] = Inr ()"
| "check_attempts seen (a # rest) =
     throw_when (att_id a \<in> seen) ''Duplicate namespace attempt''
       (and_then (check_attempt_outcome a)
          (\<lambda>_. check_attempts (insert (att_id a) seen) rest))"

record journal_input =
  ji_previous :: "namespace_intent list option"
  ji_handle :: string
  ji_intents :: "namespace_intent list"
  ji_identityRevision :: int
  ji_localDeletionAllowed :: bool
  ji_terminal :: bool

definition previous_intents :: "journal_input \<Rightarrow> namespace_intent list" where
  "previous_intents inp = (case ji_previous inp of None \<Rightarrow> [] | Some p \<Rightarrow> p)"

definition previous_intent :: "journal_input \<Rightarrow> namespace_intent \<Rightarrow> namespace_intent option" where
  "previous_intent inp i = find (\<lambda>p. int_id p = int_id i) (previous_intents inp)"

text \<open>A cancelled intent is unsubmitted placement work that later or failed work replaced.\<close>

definition refused_evidence :: "namespace_intent \<Rightarrow> bool" where
  "refused_evidence i =
     (case last_outcome i of
        Some (RefusalOutcome _ _) \<Rightarrow> True
      | Some (OperationOutcome receipt) \<Rightarrow> \<not> receipt_ok receipt
      | _ \<Rightarrow> False)"

definition cancellation_justified :: "journal_input \<Rightarrow> namespace_intent \<Rightarrow> bool" where
  "cancellation_justified inp i \<longleftrightarrow>
     int_attempts i = [] \<and> int_desired i \<noteq> DeleteEntry \<and>
     (list_ex (\<lambda>l. int_desired l = DeleteEntry \<and> int_sequence l > int_sequence i)
        (ji_intents inp) \<or>
      list_ex (\<lambda>e. follows_location_intent i e \<and> refused_evidence e) (ji_intents inp) \<or>
      list_ex (\<lambda>l. int_sequence l > int_sequence i \<and>
          int_identityRevision l = ji_identityRevision inp \<and>
          (int_desired l = int_desired i \<or>
           (is_placement (int_desired i) \<and> same_desired_kind (int_desired l) (int_desired i))))
        (ji_intents inp))"

definition check_settled_locally :: "journal_input \<Rightarrow> namespace_intent \<Rightarrow> unit result" where
  "check_settled_locally inp i =
     (if int_state i \<noteq> SettledLocally then Inr ()
      else throw_when (list_ex (\<lambda>o'. int_id o' \<noteq> int_id i \<and>
               int_state o' \<noteq> Cancelled \<and> int_state o' \<noteq> Superseded) (ji_intents inp))
             ''Locally deleted resources cannot retain executable namespace work''
           (throw_when (int_desired i \<noteq> DeleteEntry \<or> int_attempts i \<noteq> [])
             ''Local settlement requires retained deletion without an HTTP attempt''
           (throw_when ((case previous_intent inp i of None \<Rightarrow> True
                | Some p \<Rightarrow> int_state p \<noteq> SettledLocally) \<and> \<not> ji_localDeletionAllowed inp)
             ''Local deletion requires proven never-submitted identity'' (Inr ()))))"

definition intent_accepted :: "namespace_intent \<Rightarrow> bool" where
  "intent_accepted i = (case last_outcome i of None \<Rightarrow> False | Some o' \<Rightarrow> accepted_outcome o')"

definition check_intent_state :: "journal_input \<Rightarrow> namespace_intent \<Rightarrow> unit result" where
  "check_intent_state inp i =
     throw_when (int_state i = Cancelled \<and> \<not> cancellation_justified inp i)
       ''Only superseded unsubmitted work can be cancelled''
     (and_then (check_settled_locally inp i) (\<lambda>_.
      throw_when (int_state i = UnexecutableAfterTerminal \<and>
          (case previous_intent inp i of None \<Rightarrow> True
           | Some p \<Rightarrow> int_state p \<noteq> UnexecutableAfterTerminal) \<and> \<not> ji_terminal inp)
        ''Non-executable namespace history requires terminal identity''
     (throw_when (int_state i = Submitted \<and> (int_attempts i = [] \<or> last_outcome i \<noteq> None))
        ''Submitted intention requires an unresolved attempt''
     (throw_when (int_state i = Received \<and> last_outcome i = None)
        ''Received intention requires a durable outcome''
     (throw_when (int_state i = Settled \<and> \<not> intent_accepted i)
        ''Settled intention requires an accepted outcome''
     (throw_when (int_state i = Superseded \<and>
          ((int_attempts i \<noteq> [] \<and> last_outcome i = None) \<or>
           (intent_accepted i \<and> (case previous_intent inp i of None \<Rightarrow> True
              | Some p \<Rightarrow> int_state p \<noteq> NeedsRepair)) \<or>
           (case previous_intent inp i of None \<Rightarrow> False
              | Some p \<Rightarrow> int_state p \<notin> {NeedsRepair, Received, Superseded})))
        ''Only failed namespace work can be superseded''
     (throw_when (int_state i = Pending \<and> int_attempts i \<noteq> [])
        ''Recorded attempts cannot return to pending''
     (throw_when (list_ex (\<lambda>a. att_outcome a = None) (butlast (int_attempts i)))
        ''Uncertain attempt must settle before another submission'' (Inr ())))))))))"

definition check_settled_at :: "namespace_intent \<Rightarrow> bool" where
  "check_settled_at i =
     (case int_settledAt i of None \<Rightarrow> True
      | Some t \<Rightarrow> 0 \<le> t \<and>
          int_state i \<in> {Settled, NeedsRepair, Superseded, UnexecutableAfterTerminal})"

fun check_next_intents ::
  "journal_input \<Rightarrow> string set \<Rightarrow> int set \<Rightarrow> namespace_intent list \<Rightarrow> unit result" where
  "check_next_intents inp ids sequences [] = Inr ()"
| "check_next_intents inp ids sequences (i # rest) =
     throw_when (int_handle i \<noteq> ji_handle inp) ''Resource intent identity mismatch''
     (throw_when (int_id i \<in> ids \<or> int_sequence i \<in> sequences \<or>
          \<not> is_safe_integer (int_sequence i) \<or> int_sequence i < 1)
        ''Duplicate or invalid intent order''
     (throw_when (int_id i \<notin> int_id ` set (previous_intents inp) \<and>
          int_sequence i \<le> max_from_0 (map int_sequence (previous_intents inp)))
        ''New intention must follow recorded history''
     (throw_when (\<not> check_settled_at i) ''Invalid namespace settlement time''
     (and_then (check_attempts {} (int_attempts i)) (\<lambda>_.
      and_then (check_intent_state inp i) (\<lambda>_.
        check_next_intents inp (insert (int_id i) ids) (insert (int_sequence i) sequences) rest))))))"

fun check_old_attempts ::
  "namespace_attempt list \<Rightarrow> namespace_attempt list \<Rightarrow> unit result" where
  "check_old_attempts [] new = Inr ()"
| "check_old_attempts (o' # os) new =
     throw_when (case new of [] \<Rightarrow> True
         | a # _ \<Rightarrow> att_id a \<noteq> att_id o' \<or> att_request a \<noteq> att_request o')
       ''Submitted namespace request cannot be replaced''
     (throw_when (att_outcome o' \<noteq> None \<and>
          (case new of [] \<Rightarrow> True | a # _ \<Rightarrow> att_outcome o' \<noteq> att_outcome a))
       ''Recorded namespace outcome cannot be replaced''
       (check_old_attempts os (tl new)))"

definition check_old_intent :: "journal_input \<Rightarrow> namespace_intent \<Rightarrow> unit result" where
  "check_old_intent inp old =
     (case find (\<lambda>n. int_id n = int_id old) (ji_intents inp) of
        None \<Rightarrow> Inl (Error ''Recorded namespace intention cannot be replaced'')
      | Some i \<Rightarrow>
         throw_when (int_projectId i \<noteq> int_projectId old \<or> int_sequence i \<noteq> int_sequence old \<or>
             int_identityRevision i \<noteq> int_identityRevision old \<or>
             int_operationId i \<noteq> int_operationId old \<or>
             (int_settledAt old \<noteq> None \<and> int_settledAt i \<noteq> int_settledAt old) \<or>
             int_desired i \<noteq> int_desired old \<or> int_admission i \<noteq> int_admission old)
           ''Recorded namespace intention cannot be replaced''
        (throw_when (int_state old \<in> {Cancelled, SettledLocally} \<and>
             (int_state i \<noteq> int_state old \<or> int_attempts i \<noteq> []))
           ''Locally completed namespace work cannot restart''
        (throw_when (int_state old \<in> {Settled, Superseded, UnexecutableAfterTerminal} \<and>
             (int_state i \<noteq> int_state old \<or>
              length (int_attempts i) \<noteq> length (int_attempts old)))
           ''Terminal intentions cannot restart''
        (throw_when (int_state old = Received \<and>
             (int_state i = Pending \<or> int_state i = Submitted \<or>
              length (int_attempts i) \<noteq> length (int_attempts old) \<or> last_outcome i = None))
           ''Received outcomes cannot return to submission''
         (check_old_attempts (int_attempts old) (int_attempts i))))))"

definition validate_namespace_journal :: "journal_input \<Rightarrow> unit result" where
  "validate_namespace_journal inp =
     and_then (check_next_intents inp {} {} (ji_intents inp)) (\<lambda>_.
       for_each (check_old_intent inp) (previous_intents inp))"

end
