(* ===== verification/Replica_Examples.thy ===== *)
theory Replica_Examples
  imports Resource_Records
begin

text \<open>
  Small concrete records the witnesses of the development are evaluated on: one document of one
  project, its create request and answers, and intents over it.
\<close>

definition ex_destination :: "string \<Rightarrow> resource_destination" where
  "ex_destination name = \<lparr>dest_parent = RootParent Unfiled NoOwner, dest_createFolders = None,
     dest_name = name, dest_position = None\<rparr>"

definition ex_create :: namespace_request where
  "ex_create = CreateRequest \<lparr>crb_documentId = ''d1'', crb_folderPath = None,
     crb_destination = None\<rparr>"

definition ex_address :: document_address where
  "ex_address = \<lparr>addr_scheme = Unfiled, addr_path = ''/a.md'', addr_name = ''a.md'',
     addr_workId = None\<rparr>"

definition ex_made :: namespace_outcome where
  "ex_made = CreateOutcome (CreateMade False ''d1'' ex_address)"

definition ex_attempt :: "namespace_outcome option \<Rightarrow> namespace_attempt" where
  "ex_attempt out = \<lparr>att_id = ''t1'', att_request = ex_create, att_outcome = out\<rparr>"

definition ex_intent ::
  "int \<Rightarrow> intent_state \<Rightarrow> desired \<Rightarrow> namespace_attempt list \<Rightarrow> namespace_intent" where
  "ex_intent k st d atts =
     \<lparr>int_projectId = ''p'', int_handle = ''h'', int_id = (if k = 1 then ''i1'' else if k = 2 then ''i2'' else ''i3''),
      int_operationId = None, int_sequence = k, int_admission = None, int_identityRevision = 1,
      int_desired = d, int_attempts = atts, int_settledAt = None, int_state = st\<rparr>"

abbreviation ex_place :: "string \<Rightarrow> desired" where
  "ex_place name \<equiv> SetLocation name (ex_destination name)"

definition ex_resource :: resource_descriptor where
  "ex_resource = \<lparr>res_handle = ''h'', res_revision = 1, res_documentId = ''d1'',
     res_identityRevision = 1,
     res_content = ExactContent \<lparr>ec_databaseName = ''db'', ec_schema = None, ec_reserved = False\<rparr>,
     res_classification = \<lparr>class_extension = [],
       class_disposition = EditableFile Markdown DocumentSchema\<rparr>,
     res_materialization = Some \<lparr>mat_folderPath = [], mat_provisionalName = ''Untitled'',
       mat_unnamed = True\<rparr>,
     res_serverHold = LocalHold, res_copiedBy = None, res_canonical = None,
     res_canonicalParent = None, res_canonicalRank = None, res_canonicalLocationVersion = None,
     res_observationVersion = None, res_lifecycle = LocalLife, res_aliases = [],
     res_revivedFrom = None,
     res_obligations = \<lparr>ob_createEligibility = Some (Some 5), ob_canonicalRefresh = None,
       ob_sessionAdoption = None, ob_cleanup = None\<rparr>\<rparr>"

lemmas ex_defs = ex_resource_def ex_destination_def ex_create_def ex_address_def ex_made_def ex_attempt_def
  ex_intent_def

end
