(* ===== verification/Journal_History.thy ===== *)
theory Journal_History
  imports Journal_Policy Replica_Examples
begin

text \<open>
  What the journal validator accepts, stated as conditions on the two journals instead of a
  sequence of checks, and what follows for every chain of accepted updates: recorded intents,
  requests and outcomes never change, and finished work never restarts.
\<close>

section \<open>The checks as conditions\<close>

definition attempts_ok :: "namespace_attempt list \<Rightarrow> bool" where
  "attempts_ok xs \<longleftrightarrow>
     distinct (map att_id xs) \<and> (\<forall>a \<in> set xs. check_attempt_outcome a = Inr ())"

lemma check_attempts_iff:
  "check_attempts seen xs = Inr () \<longleftrightarrow> attempts_ok xs \<and> att_id ` set xs \<inter> seen = {}"
  by (induction seen xs rule: check_attempts.induct) (auto simp: attempts_ok_def)

definition attempt_continues :: "namespace_attempt \<Rightarrow> namespace_attempt \<Rightarrow> bool" where
  "attempt_continues old new \<longleftrightarrow>
     att_id new = att_id old \<and> att_request new = att_request old \<and>
     (att_outcome old \<noteq> None \<longrightarrow> att_outcome new = att_outcome old)"

definition attempts_continue :: "namespace_attempt list \<Rightarrow> namespace_attempt list \<Rightarrow> bool" where
  "attempts_continue old new \<longleftrightarrow>
     length old \<le> length new \<and> list_all2 attempt_continues old (take (length old) new)"

lemma attempts_continue_simps [simp]:
  "attempts_continue [] new"
  "\<not> attempts_continue (o' # os) []"
  "attempts_continue (o' # os) (n # ns) \<longleftrightarrow> attempt_continues o' n \<and> attempts_continue os ns"
  by (auto simp: attempts_continue_def)

lemma check_old_attempts_iff:
  "check_old_attempts old new = Inr () \<longleftrightarrow> attempts_continue old new"
  by (induction old new rule: check_old_attempts.induct)
     (auto simp: attempt_continues_def split: list.splits)

lemma attempt_continues_refl [simp]: "attempt_continues a a"
  by (simp add: attempt_continues_def)

lemma attempts_continue_refl [simp]: "attempts_continue xs xs"
  by (simp add: attempts_continue_def list_all2_conv_all_nth)

lemma attempts_continue_append [simp]: "attempts_continue xs (xs @ ys)"
  by (induction xs) auto

lemma attempts_continue_trans:
  "attempts_continue xs ys \<Longrightarrow> attempts_continue ys zs \<Longrightarrow> attempts_continue xs zs"
proof (induction xs arbitrary: ys zs)
  case (Cons x xs)
  then obtain y ys' z zs' where "ys = y # ys'" "zs = z # zs'" by (cases ys; cases zs) auto
  with Cons show ?case by (auto simp: attempt_continues_def)
qed simp

lemma attempts_continue_outcome:
  "attempts_continue xs ys \<Longrightarrow> k < length xs \<Longrightarrow> att_outcome (xs ! k) = Some out \<Longrightarrow>
     k < length ys \<and> att_outcome (ys ! k) = Some out \<and> att_request (ys ! k) = att_request (xs ! k)"
  by (auto simp: attempts_continue_def list_all2_conv_all_nth attempt_continues_def)

text \<open>What one stored intent may become in an accepted update.\<close>

definition intent_continues :: "namespace_intent \<Rightarrow> namespace_intent \<Rightarrow> bool" where
  "intent_continues old new \<longleftrightarrow>
     int_id new = int_id old \<and> int_projectId new = int_projectId old \<and>
     int_sequence new = int_sequence old \<and>
     int_identityRevision new = int_identityRevision old \<and>
     int_operationId new = int_operationId old \<and>
     (int_settledAt old \<noteq> None \<longrightarrow> int_settledAt new = int_settledAt old) \<and>
     int_desired new = int_desired old \<and> int_admission new = int_admission old \<and>
     (int_state old \<in> {Cancelled, SettledLocally} \<longrightarrow>
        int_state new = int_state old \<and> int_attempts new = []) \<and>
     (int_state old \<in> {Settled, Superseded, UnexecutableAfterTerminal} \<longrightarrow>
        int_state new = int_state old \<and> length (int_attempts new) = length (int_attempts old)) \<and>
     attempts_continue (int_attempts old) (int_attempts new)"

definition received_stays :: "namespace_intent \<Rightarrow> namespace_intent \<Rightarrow> bool" where
  "received_stays old new \<longleftrightarrow>
     (int_state old = Received \<longrightarrow>
        int_state new \<noteq> Pending \<and> int_state new \<noteq> Submitted \<and>
        length (int_attempts new) = length (int_attempts old) \<and> last_outcome new \<noteq> None)"

definition settled_locally_ok :: "journal_input \<Rightarrow> namespace_intent \<Rightarrow> bool" where
  "settled_locally_ok inp i \<longleftrightarrow>
     (int_state i = SettledLocally \<longrightarrow>
        (\<forall>o' \<in> set (ji_intents inp). int_id o' = int_id i \<or>
           int_state o' = Cancelled \<or> int_state o' = Superseded) \<and>
        int_desired i = DeleteEntry \<and> int_attempts i = [] \<and>
        (ji_localDeletionAllowed inp \<or>
         (\<exists>p. previous_intent inp i = Some p \<and> int_state p = SettledLocally)))"

definition superseded_ok :: "journal_input \<Rightarrow> namespace_intent \<Rightarrow> bool" where
  "superseded_ok inp i \<longleftrightarrow>
     (int_state i = Superseded \<longrightarrow>
        (int_attempts i \<noteq> [] \<longrightarrow> last_outcome i \<noteq> None) \<and>
        (case previous_intent inp i of
           None \<Rightarrow> \<not> intent_accepted i
         | Some p \<Rightarrow> int_state p = NeedsRepair \<or>
             (\<not> intent_accepted i \<and> int_state p \<in> {Received, Superseded})))"

text \<open>The part of the state check that reads the intent alone.\<close>

definition intent_shape :: "namespace_intent \<Rightarrow> bool" where
  "intent_shape i \<longleftrightarrow>
     (int_state i = Submitted \<longrightarrow> int_attempts i \<noteq> [] \<and> last_outcome i = None) \<and>
     (int_state i = Received \<longrightarrow> last_outcome i \<noteq> None) \<and>
     (int_state i = Settled \<longrightarrow> intent_accepted i) \<and>
     (int_state i = Pending \<longrightarrow> int_attempts i = []) \<and>
     (\<forall>a \<in> set (butlast (int_attempts i)). att_outcome a \<noteq> None)"

lemma check_settled_locally_iff:
  "check_settled_locally inp i = Inr () \<longleftrightarrow> settled_locally_ok inp i"
  by (auto simp: check_settled_locally_def settled_locally_ok_def split: option.splits)

lemma check_intent_state_iff:
  "check_intent_state inp i = Inr () \<longleftrightarrow>
     (int_state i = Cancelled \<longrightarrow> cancellation_justified inp i) \<and>
     settled_locally_ok inp i \<and>
     (int_state i = UnexecutableAfterTerminal \<longrightarrow> ji_terminal inp \<or>
        (\<exists>p. previous_intent inp i = Some p \<and> int_state p = UnexecutableAfterTerminal)) \<and>
     intent_shape i \<and> superseded_ok inp i"
  by (cases "previous_intent inp i"; cases "int_state i";
      simp add: check_intent_state_def check_settled_locally_iff intent_shape_def
        superseded_ok_def; blast?)

definition intent_ok :: "journal_input \<Rightarrow> namespace_intent \<Rightarrow> bool" where
  "intent_ok inp i \<longleftrightarrow>
     int_handle i = ji_handle inp \<and> is_safe_integer (int_sequence i) \<and> 1 \<le> int_sequence i \<and>
     (int_id i \<in> int_id ` set (previous_intents inp) \<or>
      int_sequence i > max_from_0 (map int_sequence (previous_intents inp))) \<and>
     check_settled_at i \<and> attempts_ok (int_attempts i) \<and> check_intent_state inp i = Inr ()"

lemma check_next_intents_iff:
  "check_next_intents inp ids seqs xs = Inr () \<longleftrightarrow>
     (\<forall>i \<in> set xs. intent_ok inp i) \<and> distinct (map int_id xs) \<and>
     distinct (map int_sequence xs) \<and> int_id ` set xs \<inter> ids = {} \<and>
     int_sequence ` set xs \<inter> seqs = {}"
  by (induction inp ids seqs xs rule: check_next_intents.induct)
     (auto simp: intent_ok_def check_attempts_iff not_le not_less)

lemma find_unique_id:
  assumes "distinct (map int_id xs)" and "x \<in> set xs" and "int_id x = k"
  shows "find (\<lambda>n. int_id n = k) xs = Some x"
  using assms by (induction xs) (auto simp: image_iff)

lemma check_old_intent_iff:
  "distinct (map int_id (ji_intents inp)) \<Longrightarrow>
   check_old_intent inp old = Inr () \<longleftrightarrow>
     (\<exists>i \<in> set (ji_intents inp). intent_continues old i \<and> received_stays old i)"
proof -
  assume d: "distinct (map int_id (ji_intents inp))"
  show ?thesis
  proof (cases "find (\<lambda>n. int_id n = int_id old) (ji_intents inp)")
    case None
    then have "\<forall>x \<in> set (ji_intents inp). int_id x \<noteq> int_id old" by (simp add: find_None_conv)
    with None show ?thesis by (simp add: check_old_intent_def intent_continues_def)
  next
    case (Some i)
    then have i: "i \<in> set (ji_intents inp)" "int_id i = int_id old"
      using find_Some_mem [OF Some] by auto
    have u: "j \<in> set (ji_intents inp) \<Longrightarrow> intent_continues old j \<Longrightarrow> j = i" for j
      using find_unique_id [OF d, of j "int_id old"] Some by (auto simp: intent_continues_def)
    have "check_old_intent inp old = Inr () \<longleftrightarrow> intent_continues old i \<and> received_stays old i"
      using i
      unfolding check_old_intent_def intent_continues_def received_stays_def
      by (simp only: Some option.simps throw_when_Inr_iff check_old_attempts_iff) auto
    with i u show ?thesis by blast
  qed
qed

text \<open>The validator as one condition on the previous and the next journal.\<close>

theorem validate_journal_iff:
  "validate_namespace_journal inp = Inr () \<longleftrightarrow>
     (\<forall>i \<in> set (ji_intents inp). intent_ok inp i) \<and>
     distinct (map int_id (ji_intents inp)) \<and> distinct (map int_sequence (ji_intents inp)) \<and>
     (\<forall>old \<in> set (previous_intents inp). \<exists>i \<in> set (ji_intents inp).
        intent_continues old i \<and> received_stays old i)"
proof -
  let ?ok = "(\<forall>i \<in> set (ji_intents inp). intent_ok inp i) \<and>
     distinct (map int_id (ji_intents inp)) \<and> distinct (map int_sequence (ji_intents inp))"
  have "validate_namespace_journal inp = Inr () \<longleftrightarrow>
      ?ok \<and> (\<forall>old \<in> set (previous_intents inp). check_old_intent inp old = Inr ())"
    by (simp add: validate_namespace_journal_def check_next_intents_iff conj_assoc)
  also have "\<dots> \<longleftrightarrow> ?ok \<and> (\<forall>old \<in> set (previous_intents inp). \<exists>i \<in> set (ji_intents inp).
      intent_continues old i \<and> received_stays old i)"
    by (cases "distinct (map int_id (ji_intents inp))") (simp_all add: check_old_intent_iff)
  finally show ?thesis by (simp only: conj_assoc)
qed

section \<open>Histories\<close>

text \<open>One accepted update of a stored journal, and any number of them.\<close>

definition accepted_update :: "namespace_intent list \<Rightarrow> namespace_intent list \<Rightarrow> bool" where
  "accepted_update old new \<longleftrightarrow>
     (\<exists>inp. ji_previous inp = Some old \<and> ji_intents inp = new \<and>
        validate_namespace_journal inp = Inr ())"

inductive journal_history :: "namespace_intent list \<Rightarrow> namespace_intent list \<Rightarrow> bool" where
  start: "journal_history intents intents"
| update: "journal_history first old \<Longrightarrow> accepted_update old new \<Longrightarrow> journal_history first new"

lemma intent_continues_refl [simp]:
  "int_state i \<notin> {Cancelled, SettledLocally} \<or> int_attempts i = [] \<Longrightarrow> intent_continues i i"
  by (auto simp: intent_continues_def)

lemma intent_continues_trans:
  assumes "intent_continues a b" and "intent_continues b c"
  shows "intent_continues a c"
  using assms attempts_continue_trans [of "int_attempts a" "int_attempts b" "int_attempts c"]
  unfolding intent_continues_def by auto

lemma accepted_update_continues:
  "accepted_update old new \<Longrightarrow> i \<in> set old \<Longrightarrow> \<exists>j \<in> set new. intent_continues i j"
  by (auto simp: accepted_update_def validate_journal_iff previous_intents_def)

lemma journal_history_continues:
  assumes "journal_history first last'" and "i \<in> set first"
    and "int_state i \<in> {Cancelled, SettledLocally} \<longrightarrow> int_attempts i = []"
  shows "\<exists>j \<in> set last'. intent_continues i j"
  using assms
proof (induction rule: journal_history.induct)
  case (start intents)
  then show ?case by (auto intro!: bexI [of _ i])
next
  case (update first old new)
  then obtain j where "j \<in> set old" "intent_continues i j" by auto
  moreover from this update obtain k where "k \<in> set new" "intent_continues j k"
    using accepted_update_continues by blast
  ultimately show ?case using intent_continues_trans by blast
qed

text \<open>Sequences only grow: an intent added later comes after everything recorded before.\<close>

lemma accepted_update_new_after:
  assumes "accepted_update old new" and "j \<in> set new" and "int_id j \<notin> int_id ` set old"
    and "i \<in> set old"
  shows "int_sequence i < int_sequence j"
proof -
  have "max_from_0 (map int_sequence old) < int_sequence j"
    using assms(1-3)
    by (auto simp: accepted_update_def validate_journal_iff previous_intents_def intent_ok_def)
  moreover have "int_sequence i \<le> max_from_0 (map int_sequence old)"
    using assms(4) by (intro max_from_0_ge) auto
  ultimately show ?thesis by simp
qed

text \<open>An accepted journal never holds a second attempt behind an unanswered one.\<close>

lemma accepted_single_unanswered:
  assumes "validate_namespace_journal inp = Inr ()" and "i \<in> set (ji_intents inp)"
    and "a \<in> set (int_attempts i)" and "att_outcome a = None"
  shows "a = last (int_attempts i)"
proof (rule ccontr)
  assume n: "a \<noteq> last (int_attempts i)"
  have "intent_shape i"
    using assms(1,2) by (simp add: validate_journal_iff intent_ok_def check_intent_state_iff)
  moreover have "a \<in> set (butlast (int_attempts i))"
    using assms(3) n
    by (metis append_butlast_last_id empty_iff in_set_conv_decomp list.set(1) set_ConsD
        Un_iff set_append)
  ultimately show False using assms(4) by (auto simp: intent_shape_def)
qed

section \<open>An accepted intent that ended superseded\<close>

text \<open>
  The check on superseded intents reads the stored state of the intent: one whose outcome was
  accepted is let in from needs-repair, and from nowhere else, its own stored state included.
\<close>

lemma superseded_accepted_stuck:
  assumes prev: "ji_previous inp = Some J" and d: "distinct (map int_id J)"
    and i: "i \<in> set J" "int_state i = Superseded" "intent_accepted i"
  shows "validate_namespace_journal inp \<noteq> Inr ()"
proof
  assume v: "validate_namespace_journal inp = Inr ()"
  then obtain j where j: "j \<in> set (ji_intents inp)" and c: "intent_continues i j"
    using i(1) by (auto simp: validate_journal_iff previous_intents_def prev)
  from c i(2) have st: "int_state j = Superseded" and id_j: "int_id j = int_id i"
    and len: "length (int_attempts j) = length (int_attempts i)"
    and ac: "attempts_continue (int_attempts i) (int_attempts j)"
    by (auto simp: intent_continues_def)
  obtain out where out: "last_outcome i = Some out" "accepted_outcome out"
    using i(3) by (auto simp: intent_accepted_def split: option.splits)
  then have ne: "int_attempts i \<noteq> []" "att_outcome (last (int_attempts i)) = Some out"
    using last_outcome_Some_attempt by blast+
  moreover from ne(1) len have "int_attempts j \<noteq> []" by auto
  ultimately have "att_outcome (last (int_attempts j)) = Some out"
    using attempts_continue_outcome [OF ac, of "length (int_attempts i) - 1"] len
    by (simp add: last_conv_nth)
  with ne len have "last_outcome j = Some out"
    by (cases "int_attempts j") (auto simp: last_outcome_def at_last_def)
  with out(2) have "intent_accepted j" by (simp add: intent_accepted_def)
  moreover have "previous_intent inp j = Some i"
    using find_unique_id [OF d i(1)] id_j by (simp add: previous_intent_def previous_intents_def prev)
  ultimately have "\<not> superseded_ok inp j" using st i(2) by (simp add: superseded_ok_def)
  moreover have "superseded_ok inp j"
    using v j by (simp add: validate_journal_iff intent_ok_def check_intent_state_iff)
  ultimately show False by blast
qed

section \<open>Well-formed intents\<close>

text \<open>
  The conditions on one intent without the code's checks: what may answer a request, which work may
  be cancelled, settled on this device or superseded, and what each state says of the attempts.
\<close>

inductive answers_request :: "namespace_request \<Rightarrow> namespace_outcome \<Rightarrow> bool" where
  refused: "\<not> me_retryable err \<Longrightarrow>
     answers_request request (RefusalOutcome (namespace_request_id request) err)"
| created: "answers_request (CreateRequest b)
     (CreateOutcome (CreateMade already (crb_documentId b) address))"
| joined: "answers_request (CreateRequest b) (CreateOutcome (CreateJoined documentId address))"
| create_conflict: "answers_request (CreateRequest b) (CreateOutcome CreateConflict)"
| folder_created: "answers_request (CreateFolderRequest owner f)
     (CreateFolderOutcome (FolderMade already (cfb_folderId f) address))"
| folder_conflict:
    "answers_request (CreateFolderRequest owner f) (CreateFolderOutcome FolderConflict)"
| moved: "rcpt_operationId receipt = mvb_operationId m \<Longrightarrow>
     rcpt_answer receipt = MoveAnswer command result \<Longrightarrow>
     ref_kind (mvc_expected command) = mvb_kind m \<Longrightarrow>
     ref_node (mvc_expected command) = entryId \<Longrightarrow>
     answers_request (MoveRequest entryId m) (OperationOutcome receipt)"
| deleted: "rcpt_operationId receipt = dlb_operationId d \<Longrightarrow>
     rcpt_answer receipt = DeleteAnswer entry gone \<Longrightarrow>
     ref_kind entry = dlb_kind d \<Longrightarrow> ref_node entry = entryId \<Longrightarrow>
     answers_request (DeleteRequest entryId d) (OperationOutcome receipt)"
| copied: "rcpt_operationId receipt = cpb_operationId c \<Longrightarrow>
     rcpt_answer receipt = CopyAnswer copying copies \<Longrightarrow>
     length (cpb_sources c) = length (cpc_sources copying) \<Longrightarrow>
     (\<And>k. k < length (cpb_sources c) \<Longrightarrow>
        cs_copyId (cpb_sources c ! k) = ccs_copyId (cpc_sources copying ! k) \<and>
        cs_expected (cpb_sources c ! k) = ccs_expected (cpc_sources copying ! k)) \<Longrightarrow>
     answers_request (CopyRequest owner c) (OperationOutcome receipt)"

inductive_simps answers_request_simps [simp]:
  "answers_request request (RefusalOutcome operationId err)"
  "answers_request request (CreateOutcome answer)"
  "answers_request request (CreateFolderOutcome folderAnswer)"
  "answers_request (CreateRequest b) (OperationOutcome receipt)"
  "answers_request (CreateFolderRequest owner f) (OperationOutcome receipt)"
  "answers_request (MoveRequest entryId m) (OperationOutcome receipt)"
  "answers_request (DeleteRequest entryId d) (OperationOutcome receipt)"
  "answers_request (CopyRequest owner c) (OperationOutcome receipt)"

lemma check_attempt_outcome_iff:
  "check_attempt_outcome a = Inr () \<longleftrightarrow>
     (\<forall>out. att_outcome a = Some out \<longrightarrow> answers_request (att_request a) out)"
proof (cases "att_outcome a")
  case None
  then show ?thesis by (simp add: check_attempt_outcome_def)
next
  case (Some out)
  show ?thesis
  proof (cases out)
    case (OperationOutcome receipt)
    with Some show ?thesis
      by (cases "att_request a"; cases "rcpt_answer receipt")
         (auto simp: check_attempt_outcome_def same_command_kind_def answer_matches_identity_def
            namespace_entry_is_def copy_sources_match_def list_all2_conv_all_nth)
  qed (use Some in \<open>auto simp: check_attempt_outcome_def split: namespace_request.splits create_answer.splits create_folder_answer.splits\<close>)
qed

text \<open>The last attempt of an intent and its answer; an answer that says the command was carried out.\<close>

definition last_answer_is :: "namespace_intent \<Rightarrow> namespace_outcome \<Rightarrow> bool" where
  "last_answer_is i out \<longleftrightarrow>
     (\<exists>earlier a. int_attempts i = earlier @ [a] \<and> att_outcome a = Some out)"

definition last_unanswered :: "namespace_intent \<Rightarrow> bool" where
  "last_unanswered i \<longleftrightarrow>
     (\<exists>earlier a. int_attempts i = earlier @ [a] \<and> att_outcome a = None)"

inductive refuses :: "namespace_outcome \<Rightarrow> bool" where
  "refuses (RefusalOutcome operationId err)"
| "rcpt_answer receipt \<in> {MoveAnswer c (Inl e), DeleteAnswer d (Inl e), CopyAnswer p (Inl e)} \<Longrightarrow>
     refuses (OperationOutcome receipt)"

inductive carried_out :: "namespace_outcome \<Rightarrow> bool" where
  "answer \<noteq> CreateConflict \<Longrightarrow> carried_out (CreateOutcome answer)"
| "folderAnswer \<noteq> FolderConflict \<Longrightarrow> carried_out (CreateFolderOutcome folderAnswer)"
| "rcpt_answer receipt \<in> {MoveAnswer c (Inr m), DeleteAnswer d (Inr g), CopyAnswer p (Inr q)} \<Longrightarrow>
     carried_out (OperationOutcome receipt)"

lemma last_answer_is_iff: "last_answer_is i out \<longleftrightarrow> last_outcome i = Some out"
  by (cases "int_attempts i" rule: rev_cases) (auto simp: last_answer_is_def last_outcome_def)

lemma last_unanswered_iff: "last_unanswered i \<longleftrightarrow> int_attempts i \<noteq> [] \<and> last_outcome i = None"
  by (cases "int_attempts i" rule: rev_cases) (auto simp: last_unanswered_def last_outcome_def)

lemma not_isl_conv: "\<not> isl x \<longleftrightarrow> (\<exists>y. x = Inr y)"
  by (cases x) simp_all

lemma refuses_iff:
  "refuses out \<longleftrightarrow> (case out of RefusalOutcome _ _ \<Rightarrow> True
     | OperationOutcome receipt \<Rightarrow> \<not> receipt_ok receipt | _ \<Rightarrow> False)"
proof (cases out)
  case (OperationOutcome receipt)
  then show ?thesis
    by (cases "rcpt_answer receipt") (auto simp: refuses.simps receipt_ok_def isl_def sum.split_sel_asm)
qed (auto simp: refuses.simps)

lemma carried_out_iff: "carried_out out \<longleftrightarrow> accepted_outcome out"
proof (cases out)
  case (OperationOutcome receipt)
  then show ?thesis
    by (cases "rcpt_answer receipt")
       (auto simp: carried_out.simps accepted_outcome_def namespace_intent_outcome_def
          receipt_ok_def not_isl_conv)
qed (auto simp: carried_out.simps accepted_outcome_def namespace_intent_outcome_def)

lemma refused_evidence_iff: "refused_evidence i \<longleftrightarrow> (\<exists>out. last_answer_is i out \<and> refuses out)"
  by (auto simp: refused_evidence_def last_answer_is_iff refuses_iff
      split: option.splits namespace_outcome.splits)

lemma intent_accepted_iff: "intent_accepted i \<longleftrightarrow> (\<exists>out. last_answer_is i out \<and> carried_out out)"
  by (auto simp: intent_accepted_def last_answer_is_iff carried_out_iff split: option.splits)

text \<open>Two placements of the same kind of entry.\<close>

definition both_place :: "desired \<Rightarrow> desired \<Rightarrow> bool" where
  "both_place a b \<longleftrightarrow>
     (\<exists>n d m e. a = SetLocation n d \<and> b = SetLocation m e) \<or>
     (\<exists>n d m e. a = SetFolderLocation n d \<and> b = SetFolderLocation m e)"

lemma both_place_iff:
  "both_place a b \<longleftrightarrow> is_placement a \<and> same_desired_kind b a"
  "both_place a b \<longleftrightarrow> is_placement b \<and> same_desired_kind a b"
  by (cases a; cases b; simp add: both_place_def)+

text \<open>
  Work is cancelled only unsent, never a deletion, and because a later deletion is queued, an earlier
  placement of the same entry was refused, or later work for the current identity replaces it.
\<close>

definition cancelled_with_reason :: "journal_input \<Rightarrow> namespace_intent \<Rightarrow> bool" where
  "cancelled_with_reason inp i \<longleftrightarrow>
     int_attempts i = [] \<and> int_desired i \<noteq> DeleteEntry \<and>
     (\<exists>o' \<in> set (ji_intents inp).
        (int_desired o' = DeleteEntry \<and> int_sequence i < int_sequence o') \<or>
        (both_place (int_desired i) (int_desired o') \<and>
         int_identityRevision o' = int_identityRevision i \<and> int_sequence o' < int_sequence i \<and>
         (\<exists>out. last_answer_is o' out \<and> refuses out)) \<or>
        (int_sequence i < int_sequence o' \<and> int_identityRevision o' = ji_identityRevision inp \<and>
         (int_desired o' = int_desired i \<or> both_place (int_desired i) (int_desired o'))))"

lemma follows_location_iff:
  "follows_location_intent i e \<longleftrightarrow> both_place (int_desired i) (int_desired e) \<and>
     int_identityRevision e = int_identityRevision i \<and> int_sequence e < int_sequence i"
  by (auto simp: follows_location_intent_def both_place_iff(2))

lemma cancellation_justified_iff: "cancellation_justified inp i \<longleftrightarrow> cancelled_with_reason inp i"
  unfolding cancellation_justified_def cancelled_with_reason_def follows_location_iff
    list_ex_iff refused_evidence_iff both_place_iff(1) [symmetric] by blast

text \<open>What the stored journal says of the intent, if it holds it.\<close>

definition stored_as :: "journal_input \<Rightarrow> namespace_intent \<Rightarrow> intent_state \<Rightarrow> bool" where
  "stored_as inp i s \<longleftrightarrow> (\<exists>p. previous_intent inp i = Some p \<and> int_state p = s)"

fun state_justified :: "intent_state \<Rightarrow> journal_input \<Rightarrow> namespace_intent \<Rightarrow> bool" where
  "state_justified Pending inp i \<longleftrightarrow> int_attempts i = []"
| "state_justified Submitted inp i \<longleftrightarrow> last_unanswered i"
| "state_justified Received inp i \<longleftrightarrow> (\<exists>out. last_answer_is i out)"
| "state_justified Settled inp i \<longleftrightarrow> (\<exists>out. last_answer_is i out \<and> carried_out out)"
| "state_justified NeedsRepair inp i \<longleftrightarrow> True"
| "state_justified Superseded inp i \<longleftrightarrow>
     \<not> last_unanswered i \<and>
     (previous_intent inp i = None \<or>
      stored_as inp i NeedsRepair \<or> stored_as inp i Received \<or> stored_as inp i Superseded) \<and>
     ((\<exists>out. last_answer_is i out \<and> carried_out out) \<longrightarrow> stored_as inp i NeedsRepair)"
| "state_justified UnexecutableAfterTerminal inp i \<longleftrightarrow>
     ji_terminal inp \<or> stored_as inp i UnexecutableAfterTerminal"
| "state_justified Cancelled inp i \<longleftrightarrow> cancelled_with_reason inp i"
| "state_justified SettledLocally inp i \<longleftrightarrow>
     int_desired i = DeleteEntry \<and> int_attempts i = [] \<and>
     (\<forall>o' \<in> set (ji_intents inp). int_id o' \<noteq> int_id i \<longrightarrow>
        int_state o' = Cancelled \<or> int_state o' = Superseded) \<and>
     (ji_localDeletionAllowed inp \<or> stored_as inp i SettledLocally)"

text \<open>
  An intent of the next journal is well formed: it belongs to the journal, its sequence is a positive
  safe integer, above every stored one when the intent is new; a settlement time is not negative and
  only on finished or failed work; attempt ids are distinct, each recorded answer answers its request,
  only the last attempt may lack one, and its state is justified.
\<close>

definition intent_well_formed :: "journal_input \<Rightarrow> namespace_intent \<Rightarrow> bool" where
  "intent_well_formed inp i \<longleftrightarrow>
     int_handle i = ji_handle inp \<and>
     1 \<le> int_sequence i \<and> int_sequence i < 2 ^ 53 \<and>
     ((\<forall>p \<in> set (previous_intents inp). int_id p \<noteq> int_id i) \<longrightarrow>
      (\<forall>p \<in> set (previous_intents inp). int_sequence p < int_sequence i)) \<and>
     (\<forall>t. int_settledAt i = Some t \<longrightarrow> 0 \<le> t \<and>
        int_state i \<in> {Settled, NeedsRepair, Superseded, UnexecutableAfterTerminal}) \<and>
     distinct (map att_id (int_attempts i)) \<and>
     (\<forall>a \<in> set (int_attempts i). \<forall>out.
        att_outcome a = Some out \<longrightarrow> answers_request (att_request a) out) \<and>
     (\<forall>a \<in> set (butlast (int_attempts i)). att_outcome a \<noteq> None) \<and>
     state_justified (int_state i) inp i"

lemma check_intent_state_justified:
  "check_intent_state inp i = Inr () \<longleftrightarrow>
     state_justified (int_state i) inp i \<and>
     (\<forall>a \<in> set (butlast (int_attempts i)). att_outcome a \<noteq> None)"
proof -
  have sup: "superseded_ok inp i \<longleftrightarrow> (int_state i = Superseded \<longrightarrow> state_justified Superseded inp i)"
    by (cases "previous_intent inp i"; cases "int_state (the (previous_intent inp i))")
       (auto simp: superseded_ok_def stored_as_def last_unanswered_iff intent_accepted_iff)
  show ?thesis
    unfolding check_intent_state_iff sup cancellation_justified_iff
    by (cases "int_state i")
       (auto simp: settled_locally_ok_def intent_shape_def stored_as_def last_unanswered_iff
          intent_accepted_iff last_answer_is_iff)
qed

lemma max_from_0_less_iff: "0 < n \<Longrightarrow> max_from_0 xs < n \<longleftrightarrow> (\<forall>x \<in> set xs. x < n)"
  by (induction xs) (auto simp: max_from_0_def)

lemma intent_ok_iff: "intent_ok inp i \<longleftrightarrow> intent_well_formed inp i"
proof -
  have new: "int_id i \<in> int_id ` set ps \<longleftrightarrow> \<not> (\<forall>p \<in> set ps. int_id p \<noteq> int_id i)" for ps
    by force
  have time: "check_settled_at i \<longleftrightarrow> (\<forall>t. int_settledAt i = Some t \<longrightarrow> 0 \<le> t \<and>
        int_state i \<in> {Settled, NeedsRepair, Superseded, UnexecutableAfterTerminal})"
    by (simp add: check_settled_at_def split: option.split)
  show ?thesis
    unfolding intent_ok_def intent_well_formed_def attempts_ok_def check_attempt_outcome_iff
      check_intent_state_justified time new
    by (cases "1 \<le> int_sequence i") (auto simp: is_safe_integer_def max_from_0_less_iff)
qed

section \<open>Properties\<close>

text \<open>C1: The journal validator accepts an update exactly when every intent of the next journal is
  well formed, ids and sequences are unique, and every stored intent is continued: same identity,
  order, destination and admission, requests and recorded answers kept, finished work unchanged,
  received answers never sent again. Well formed says which answers fit a request, which state the
  attempts allow, and what justifies cancelling, superseding or settling work on this device.\<close>

theorem validator_characterised:
  "validate_namespace_journal inp = Inr () \<longleftrightarrow>
     (\<forall>i \<in> set (ji_intents inp). intent_well_formed inp i) \<and>
     distinct (map int_id (ji_intents inp)) \<and> distinct (map int_sequence (ji_intents inp)) \<and>
     (\<forall>old \<in> set (previous_intents inp). \<exists>i \<in> set (ji_intents inp).
        intent_continues old i \<and> received_stays old i)"
  by (simp only: validate_journal_iff intent_ok_iff)

theorem validator_characterised_witness:
  "intent_well_formed \<lparr>ji_previous = None, ji_handle = ''h'',
       ji_intents = [ex_intent 1 Pending (ex_place ''a.md'') []], ji_identityRevision = 1,
       ji_localDeletionAllowed = False, ji_terminal = False\<rparr>
     (ex_intent 1 Pending (ex_place ''a.md'') [])"
proof -
  let ?i = "ex_intent 1 Pending (ex_place ''a.md'') []"
  let ?inp = "\<lparr>ji_previous = None, ji_handle = ''h'', ji_intents = [?i], ji_identityRevision = 1,
       ji_localDeletionAllowed = False, ji_terminal = False\<rparr>"
  have "validate_namespace_journal ?inp = Inr ()"
    by (simp add: validate_namespace_journal_def ex_intent_def previous_intents_def
          is_safe_integer_def check_settled_at_def check_intent_state_def check_settled_locally_def)
  then show ?thesis using validator_characterised [of ?inp] by simp
qed

text \<open>C2: Across any number of accepted updates, an intent once stored keeps its id, sequence,
  destination and admission, every request it recorded and every answer it recorded stay in place,
  and once it is settled, superseded or unexecutable its state never changes again.\<close>

theorem journal_history_immutable:
  assumes "journal_history first last'" and "i \<in> set first"
    and "int_state i \<in> {Cancelled, SettledLocally} \<longrightarrow> int_attempts i = []"
  shows "\<exists>j \<in> set last'. int_id j = int_id i \<and> int_sequence j = int_sequence i \<and>
     int_desired j = int_desired i \<and> int_admission j = int_admission i \<and>
     (int_state i \<in> {Settled, Superseded, UnexecutableAfterTerminal, Cancelled, SettledLocally} \<longrightarrow>
        int_state j = int_state i) \<and>
     (\<forall>k < length (int_attempts i). k < length (int_attempts j) \<and>
        att_request (int_attempts j ! k) = att_request (int_attempts i ! k) \<and>
        (att_outcome (int_attempts i ! k) \<noteq> None \<longrightarrow>
           att_outcome (int_attempts j ! k) = att_outcome (int_attempts i ! k)))"
proof -
  obtain j where j: "j \<in> set last'" and c: "intent_continues i j"
    using journal_history_continues [OF assms] by blast
  from c have "attempts_continue (int_attempts i) (int_attempts j)" by (simp add: intent_continues_def)
  then have "\<forall>k < length (int_attempts i). k < length (int_attempts j) \<and>
        att_request (int_attempts j ! k) = att_request (int_attempts i ! k) \<and>
        (att_outcome (int_attempts i ! k) \<noteq> None \<longrightarrow>
           att_outcome (int_attempts j ! k) = att_outcome (int_attempts i ! k))"
    by (auto simp: attempts_continue_def list_all2_conv_all_nth attempt_continues_def)
  with j c show ?thesis by (intro bexI [of _ j]) (auto simp: intent_continues_def)
qed

abbreviation ex_submitted :: "namespace_intent list" where
  "ex_submitted \<equiv> [ex_intent 1 Submitted (ex_place ''a.md'') [ex_attempt None]]"

abbreviation ex_received :: "namespace_intent list" where
  "ex_received \<equiv> [ex_intent 1 Received (ex_place ''a.md'') [ex_attempt (Some ex_made)]]"

lemma ex_accepted_update: "accepted_update ex_submitted ex_received"
  unfolding accepted_update_def
  by (rule exI [of _ "\<lparr>ji_previous = Some ex_submitted, ji_handle = ''h'', ji_intents = ex_received,
        ji_identityRevision = 1, ji_localDeletionAllowed = False, ji_terminal = False\<rparr>"])
     (simp add: validate_namespace_journal_def ex_intent_def previous_intents_def ex_attempt_def
        ex_made_def ex_create_def check_attempt_outcome_def check_old_intent_def last_outcome_def
        at_last_def is_safe_integer_def check_settled_at_def check_intent_state_def
        check_settled_locally_def)

theorem journal_history_immutable_witness:
  "\<exists>j \<in> set ex_received. int_attempts j \<noteq> [] \<and> int_sequence j = 1"
proof -
  have "journal_history ex_submitted ex_received"
    using ex_accepted_update by (blast intro: journal_history.intros)
  from journal_history_immutable [OF this, of "hd ex_submitted"] show ?thesis
    by (auto simp: ex_intent_def)
qed

text \<open>In an accepted journal only the last attempt of an intent can still be unanswered, so an
  uncertain request is never followed by another submission.\<close>

theorem only_last_attempt_unanswered:
  assumes "validate_namespace_journal inp = Inr ()" and "i \<in> set (ji_intents inp)"
    and "k < length (int_attempts i)" and "att_outcome (int_attempts i ! k) = None"
  shows "k = length (int_attempts i) - 1"
proof (rule ccontr)
  assume "k \<noteq> length (int_attempts i) - 1"
  with assms(3) have k: "k < length (butlast (int_attempts i))" by simp
  then have "butlast (int_attempts i) ! k = int_attempts i ! k" by (rule nth_butlast)
  with k have "int_attempts i ! k \<in> set (butlast (int_attempts i))" by (metis nth_mem)
  moreover have "intent_shape i"
    using assms(1,2) by (simp add: validate_journal_iff intent_ok_def check_intent_state_iff)
  ultimately show False using assms(4) by (auto simp: intent_shape_def)
qed

theorem only_last_attempt_unanswered_witness:
  "0 = length (int_attempts (hd ex_submitted)) - 1"
proof -
  have "validate_namespace_journal \<lparr>ji_previous = None, ji_handle = ''h'',
      ji_intents = ex_submitted, ji_identityRevision = 1,
      ji_localDeletionAllowed = False, ji_terminal = False\<rparr> = Inr ()"
    by (simp add: validate_namespace_journal_def ex_intent_def previous_intents_def ex_attempt_def
          check_attempt_outcome_def last_outcome_def at_last_def is_safe_integer_def
          check_settled_at_def check_intent_state_def check_settled_locally_def)
  from only_last_attempt_unanswered [OF this, of "hd ex_submitted" 0] show ?thesis
    by (simp add: ex_intent_def ex_attempt_def)
qed

text \<open>C30: A stored journal that holds a superseded intent whose last outcome was accepted (an accepted
  answer the replica could not apply, superseded by a remint) admits no later update at all: the
  validator throws whatever the next journal is, even when it is the stored one unchanged.\<close>

theorem superseded_accepted_blocks_updates:
  assumes "ji_previous inp = Some J" and "distinct (map int_id J)" and "i \<in> set J"
    and "int_state i = Superseded" and "intent_accepted i"
  shows "\<exists>err. validate_namespace_journal inp = Inl err"
  using superseded_accepted_stuck [OF assms] by (cases "validate_namespace_journal inp") auto

abbreviation ex_superseded :: "namespace_intent list" where
  "ex_superseded \<equiv> [ex_intent 1 Superseded (ex_place ''a.md'') [ex_attempt (Some ex_made)]]"

theorem superseded_accepted_blocks_updates_witness:
  "accepted_update [ex_intent 1 NeedsRepair (ex_place ''a.md'') [ex_attempt (Some ex_made)]]
     ex_superseded \<and>
   (\<exists>err. validate_namespace_journal \<lparr>ji_previous = Some ex_superseded, ji_handle = ''h'',
      ji_intents = ex_superseded, ji_identityRevision = 1, ji_localDeletionAllowed = False,
      ji_terminal = False\<rparr> = Inl err)"
proof
  show "accepted_update [ex_intent 1 NeedsRepair (ex_place ''a.md'') [ex_attempt (Some ex_made)]]
     ex_superseded"
    unfolding accepted_update_def
    by (rule exI [of _ "\<lparr>ji_previous = Some [ex_intent 1 NeedsRepair (ex_place ''a.md'')
            [ex_attempt (Some ex_made)]], ji_handle = ''h'', ji_intents = ex_superseded,
          ji_identityRevision = 1, ji_localDeletionAllowed = False, ji_terminal = False\<rparr>"])
       (simp add: validate_namespace_journal_def ex_intent_def previous_intents_def
          ex_attempt_def ex_made_def ex_create_def check_attempt_outcome_def check_old_intent_def
          last_outcome_def at_last_def is_safe_integer_def check_settled_at_def previous_intent_def
          check_intent_state_def check_settled_locally_def)
  show "\<exists>err. validate_namespace_journal \<lparr>ji_previous = Some ex_superseded, ji_handle = ''h'',
      ji_intents = ex_superseded, ji_identityRevision = 1, ji_localDeletionAllowed = False,
      ji_terminal = False\<rparr> = Inl err"
    by (rule superseded_accepted_blocks_updates [of _ ex_superseded "hd ex_superseded"])
       (simp_all add: ex_intent_def intent_accepted_def last_outcome_def at_last_def ex_attempt_def
          ex_made_def accepted_outcome_def namespace_intent_outcome_def)
qed

end
