(* ===== verification/Journal_Extension.thy ===== *)
theory Journal_Extension
  imports Journal_History
begin

text \<open>
  The planners of \<^verbatim>\<open>namespace-journal-policy.ts\<close> and \<^verbatim>\<open>resource-intent-policy.ts\<close> write journals
  the validator accepts: each moves states of stored intents and appends new pending ones, and
  one lemma reduces the validator to conditions on those moves.
\<close>

section \<open>Well-formed stored journals\<close>

definition intent_wf :: "string \<Rightarrow> namespace_intent \<Rightarrow> bool" where
  "intent_wf handle i \<longleftrightarrow>
     int_handle i = handle \<and> is_safe_integer (int_sequence i) \<and> 1 \<le> int_sequence i \<and>
     check_settled_at i \<and> attempts_ok (int_attempts i) \<and> intent_shape i \<and>
     (int_state i \<in> {Cancelled, SettledLocally} \<longrightarrow> int_attempts i = [])"

definition journal_wf :: "string \<Rightarrow> namespace_intent list \<Rightarrow> bool" where
  "journal_wf handle intents \<longleftrightarrow>
     (\<forall>i \<in> set intents. intent_wf handle i) \<and> distinct (map int_id intents) \<and>
     distinct (map int_sequence intents)"

text \<open>Everything the validator has let through is well formed.\<close>

lemma validated_wf:
  "validate_namespace_journal inp = Inr () \<Longrightarrow> journal_wf (ji_handle inp) (ji_intents inp)"
  by (auto simp: validate_journal_iff journal_wf_def intent_wf_def intent_ok_def
        check_intent_state_iff cancellation_justified_def settled_locally_ok_def)

lemma journal_wf_unique:
  "journal_wf h J \<Longrightarrow> i \<in> set J \<Longrightarrow> j \<in> set J \<Longrightarrow> int_id i = int_id j \<Longrightarrow> i = j"
  by (auto simp: journal_wf_def distinct_map inj_on_def)

section \<open>Moves and additions\<close>

text \<open>A stored intent moves: only its state and settlement time change.\<close>

definition intent_moves :: "namespace_intent \<Rightarrow> namespace_intent \<Rightarrow> bool" where
  "intent_moves i j \<longleftrightarrow>
     j = i\<lparr>int_state := int_state j, int_settledAt := int_settledAt j\<rparr> \<and>
     (int_settledAt i \<noteq> None \<longrightarrow> int_settledAt j = int_settledAt i) \<and>
     (int_state i \<in> {Cancelled, SettledLocally, Settled, Superseded, UnexecutableAfterTerminal}
        \<longrightarrow> int_state j = int_state i) \<and>
     (int_state i = Received \<longrightarrow> int_state j \<noteq> Pending \<and> int_state j \<noteq> Submitted)"

lemma intent_moves_refl [simp]: "intent_moves i i"
  by (simp add: intent_moves_def)

lemma intent_moves_same:
  assumes "intent_moves i j"
  shows "int_id j = int_id i" "int_sequence j = int_sequence i" "int_attempts j = int_attempts i"
    "int_desired j = int_desired i" "int_handle j = int_handle i"
    "int_identityRevision j = int_identityRevision i" "int_projectId j = int_projectId i"
    "int_admission j = int_admission i" "int_operationId j = int_operationId i"
    "last_outcome j = last_outcome i" "intent_accepted j = intent_accepted i"
proof -
  from assms obtain s t where j: "j = i\<lparr>int_state := s, int_settledAt := t\<rparr>"
    by (auto simp: intent_moves_def)
  show "int_id j = int_id i" "int_sequence j = int_sequence i" "int_attempts j = int_attempts i"
    "int_desired j = int_desired i" "int_handle j = int_handle i"
    "int_identityRevision j = int_identityRevision i" "int_projectId j = int_projectId i"
    "int_admission j = int_admission i" "int_operationId j = int_operationId i"
    "last_outcome j = last_outcome i" "intent_accepted j = intent_accepted i"
    by (simp_all add: j last_outcome_def intent_accepted_def)
qed

lemma intent_moves_continue:
  assumes "intent_moves i j" and "intent_wf h i"
  shows "intent_continues i j" and "received_stays i j"
proof -
  note [simp] = intent_moves_same [OF assms(1)]
  from assms show "intent_continues i j" "received_stays i j"
    by (auto simp: intent_continues_def received_stays_def intent_moves_def intent_wf_def
          intent_shape_def)
qed

text \<open>A stored intent steps: it continues in the sense of the validator, and evidence of a refusal stays.\<close>

definition intent_steps :: "namespace_intent \<Rightarrow> namespace_intent \<Rightarrow> bool" where
  "intent_steps i j \<longleftrightarrow>
     intent_continues i j \<and> received_stays i j \<and> int_handle j = int_handle i \<and>
     (refused_evidence i \<longrightarrow> refused_evidence j)"

lemma intent_moves_steps: "intent_moves i j \<Longrightarrow> intent_wf h i \<Longrightarrow> intent_steps i j"
  using intent_moves_continue [of i j h]
  by (simp add: intent_steps_def refused_evidence_def intent_moves_same)

lemma intent_steps_same:
  assumes "intent_steps i j"
  shows "int_id j = int_id i" "int_sequence j = int_sequence i" "int_desired j = int_desired i"
    "int_handle j = int_handle i" "int_identityRevision j = int_identityRevision i"
  using assms by (simp_all add: intent_steps_def intent_continues_def)

text \<open>What the state an intent stepped to still has to satisfy, in the journal it is written to.\<close>

definition state_ok :: "journal_input \<Rightarrow> namespace_intent \<Rightarrow> namespace_intent \<Rightarrow> bool" where
  "state_ok inp i j \<longleftrightarrow>
     check_settled_at j \<and> intent_shape j \<and>
     (int_state j = Cancelled \<longrightarrow> cancellation_justified inp j) \<and>
     settled_locally_ok inp j \<and>
     (int_state j = UnexecutableAfterTerminal \<longrightarrow>
        ji_terminal inp \<or> int_state i = UnexecutableAfterTerminal) \<and>
     (int_state j = Superseded \<longrightarrow> (int_attempts j \<noteq> [] \<longrightarrow> last_outcome j \<noteq> None) \<and>
        (int_state i = NeedsRepair \<or>
         (\<not> intent_accepted j \<and> int_state i \<in> {Received, Superseded})))"

definition move_ok :: "journal_input \<Rightarrow> namespace_intent \<Rightarrow> namespace_intent \<Rightarrow> bool" where
  "move_ok inp i j \<longleftrightarrow> intent_moves i j \<and> state_ok inp i j"

definition step_ok :: "journal_input \<Rightarrow> namespace_intent \<Rightarrow> namespace_intent \<Rightarrow> bool" where
  "step_ok inp i j \<longleftrightarrow> intent_steps i j \<and> attempts_ok (int_attempts j) \<and> state_ok inp i j"

lemma move_step_ok: "move_ok inp i j \<Longrightarrow> intent_wf h i \<Longrightarrow> step_ok inp i j"
  using intent_moves_steps [of i j h]
  by (auto simp: move_ok_def step_ok_def intent_wf_def intent_moves_same)

text \<open>A new intent is unsubmitted work behind everything recorded.\<close>

definition addition_ok :: "journal_input \<Rightarrow> namespace_intent list \<Rightarrow> namespace_intent \<Rightarrow> bool" where
  "addition_ok inp J n \<longleftrightarrow>
     int_handle n = ji_handle inp \<and> is_safe_integer (int_sequence n) \<and>
     max_from_0 (map int_sequence J) < int_sequence n \<and> int_attempts n = [] \<and>
     int_settledAt n = None \<and> int_state n = Pending \<and> int_id n \<notin> int_id ` set J"

lemma addition_intent_ok:
  assumes "addition_ok inp J n" and "ji_previous inp = Some J"
  shows "intent_ok inp n"
proof -
  have "1 \<le> int_sequence n"
    using assms(1) max_from_0_nonneg [of "map int_sequence J"] by (simp add: addition_ok_def)
  with assms show ?thesis
    by (simp add: addition_ok_def intent_ok_def check_settled_at_def attempts_ok_def
          check_intent_state_iff settled_locally_ok_def intent_shape_def superseded_ok_def
          previous_intents_def)
qed

lemma step_intent_ok:
  assumes step: "step_ok inp i j" and i: "i \<in> set J" and wf: "journal_wf (ji_handle inp) J"
    and prev: "ji_previous inp = Some J"
  shows "intent_ok inp j"
proof -
  from step have m: "intent_steps i j" by (simp add: step_ok_def)
  note s [simp] = intent_steps_same [OF m]
  from wf i have w: "intent_wf (ji_handle inp) i" by (simp add: journal_wf_def)
  have p: "previous_intent inp j = Some i"
    using wf i find_unique_id [of J i "int_id i"]
    by (simp add: previous_intent_def previous_intents_def prev journal_wf_def)
  have "superseded_ok inp j" using step by (simp add: superseded_ok_def p step_ok_def state_ok_def)
  moreover have "int_id j \<in> int_id ` set (previous_intents inp)"
    using i by (simp add: previous_intents_def prev)
  ultimately show ?thesis
    using step w unfolding intent_ok_def check_intent_state_iff
    by (simp add: p step_ok_def state_ok_def intent_wf_def)
qed

lemma sequences_above:
  "max_from_0 (map int_sequence J) < int_sequence n \<Longrightarrow> i \<in> set J \<Longrightarrow>
     int_sequence i < int_sequence n"
  using max_from_0_ge [of "int_sequence i" "map int_sequence J"] by fastforce

text \<open>The reduction: steps that are fine and additions that are fine make an accepted update.\<close>

theorem validate_extension:
  assumes prev: "ji_previous inp = Some J" and nxt: "ji_intents inp = map f J @ new"
    and wf: "journal_wf (ji_handle inp) J"
    and steps: "\<And>i. i \<in> set J \<Longrightarrow> step_ok inp i (f i)"
    and adds: "\<And>n. n \<in> set new \<Longrightarrow> addition_ok inp J n"
    and dist: "distinct (map int_id new)" "distinct (map int_sequence new)"
  shows "validate_namespace_journal inp = Inr ()"
proof -
  have m: "intent_steps i (f i)" if "i \<in> set J" for i using steps [OF that] by (simp add: step_ok_def)
  have ids: "map int_id (map f J) = map int_id J" "map int_sequence (map f J) = map int_sequence J"
    using intent_steps_same [OF m] by (simp_all cong: map_cong)
  have "\<forall>n \<in> set new. int_id n \<notin> int_id ` set J" using adds by (simp add: addition_ok_def)
  then have "set (map int_id J) \<inter> set (map int_id new) = {}"
    by (simp add: disjoint_iff image_iff) metis
  moreover have "\<forall>i \<in> set J. \<forall>n \<in> set new. int_sequence i < int_sequence n"
  proof (intro ballI)
    fix i n assume "i \<in> set J" "n \<in> set new"
    with adds [of n] show "int_sequence i < int_sequence n"
      using sequences_above [of J n i] by (simp add: addition_ok_def)
  qed
  then have "set (map int_sequence J) \<inter> set (map int_sequence new) = {}"
    by (simp add: disjoint_iff image_iff) (metis less_irrefl)
  ultimately have "distinct (map int_id (map f J @ new))" "distinct (map int_sequence (map f J @ new))"
    using wf dist unfolding map_append ids distinct_append by (simp_all add: journal_wf_def)
  moreover have "intent_ok inp n" if "n \<in> set (map f J @ new)" for n
    using that step_intent_ok [OF steps _ wf prev] addition_intent_ok [OF adds prev] by auto
  moreover have "\<exists>j \<in> set (map f J @ new). intent_continues i j \<and> received_stays i j"
    if "i \<in> set J" for i
    using m [OF that] that by (intro bexI [of _ "f i"]) (auto simp: intent_steps_def)
  ultimately show ?thesis
    by (simp only: validate_journal_iff nxt previous_intents_def prev option.simps) blast
qed

section \<open>Updates of a journal at rest\<close>

text \<open>
  A stored journal is at rest when the validator accepts it again unchanged. Every planner below
  starts from such a journal.
\<close>

definition journal_rests :: "journal_input \<Rightarrow> namespace_intent list \<Rightarrow> bool" where
  "journal_rests inp J \<longleftrightarrow>
     validate_namespace_journal (inp\<lparr>ji_previous := Some J, ji_intents := J\<rparr>) = Inr ()"

abbreviation update_of ::
  "journal_input \<Rightarrow> namespace_intent list \<Rightarrow> namespace_intent list \<Rightarrow> journal_input" where
  "update_of inp J next' \<equiv> inp\<lparr>ji_previous := Some J, ji_intents := next'\<rparr>"

lemma rests_wf: "journal_rests inp J \<Longrightarrow> journal_wf (ji_handle inp) J"
  using validated_wf [of "update_of inp J J"] by (simp add: journal_rests_def)

lemma update_of_fields:
  "ji_intents (update_of inp J n) = n" "ji_previous (update_of inp J n) = Some J"
  "ji_identityRevision (update_of inp J n) = ji_identityRevision inp"
  "ji_handle (update_of inp J n) = ji_handle inp" "ji_terminal (update_of inp J n) = ji_terminal inp"
  by simp_all

lemma follows_moves:
  "intent_moves e e' \<Longrightarrow> follows_location_intent i e' = follows_location_intent i e"
  "intent_moves i i' \<Longrightarrow> follows_location_intent i' e = follows_location_intent i e"
  by (simp_all add: follows_location_intent_def intent_moves_same)

lemma refused_moves: "intent_moves e e' \<Longrightarrow> refused_evidence e' = refused_evidence e"
  by (simp add: refused_evidence_def intent_moves_same)

lemma follows_steps:
  "intent_steps e e' \<Longrightarrow> follows_location_intent i e' = follows_location_intent i e"
  by (simp add: follows_location_intent_def intent_steps_same)

lemma refused_steps: "intent_steps e e' \<Longrightarrow> refused_evidence e \<Longrightarrow> refused_evidence e'"
  by (simp add: intent_steps_def)

lemma cancellation_kept:
  assumes just: "cancellation_justified (update_of inp J J) i"
    and m: "\<And>j. j \<in> set J \<Longrightarrow> intent_steps j (f j)"
  shows "cancellation_justified (update_of inp J (map f J @ new)) i"
proof -
  have "list_ex P J \<Longrightarrow> (\<And>j. j \<in> set J \<Longrightarrow> P j \<Longrightarrow> P (f j)) \<Longrightarrow> list_ex P (map f J @ new)" for P
    by auto
  note lift = this
  have "list_ex (\<lambda>l. int_desired l = DeleteEntry \<and> int_sequence l > int_sequence i) J \<Longrightarrow>
      list_ex (\<lambda>l. int_desired l = DeleteEntry \<and> int_sequence l > int_sequence i) (map f J @ new)"
    by (rule lift) (simp_all add: intent_steps_same [OF m])
  moreover have "list_ex (\<lambda>e. follows_location_intent i e \<and> refused_evidence e) J \<Longrightarrow>
      list_ex (\<lambda>e. follows_location_intent i e \<and> refused_evidence e) (map f J @ new)"
    by (rule lift) (simp_all add: follows_steps [OF m] refused_steps [OF m])
  moreover have "list_ex (\<lambda>l. int_sequence l > int_sequence i \<and>
        int_identityRevision l = ji_identityRevision inp \<and> (int_desired l = int_desired i \<or>
          (is_placement (int_desired i) \<and> same_desired_kind (int_desired l) (int_desired i)))) J \<Longrightarrow>
      list_ex (\<lambda>l. int_sequence l > int_sequence i \<and>
        int_identityRevision l = ji_identityRevision inp \<and> (int_desired l = int_desired i \<or>
          (is_placement (int_desired i) \<and> same_desired_kind (int_desired l) (int_desired i))))
        (map f J @ new)"
    by (rule lift) (simp_all add: intent_steps_same [OF m])
  ultimately show ?thesis
    using just unfolding cancellation_justified_def update_of_fields by blast
qed

lemma rests_stationary:
  assumes rest: "journal_rests inp J" and i: "i \<in> set J"
    and m: "\<And>j. j \<in> set J \<Longrightarrow> intent_steps j (f j)"
    and adds: "new = [] \<or> (\<forall>j \<in> set J. int_state j \<noteq> SettledLocally)"
  shows "step_ok (update_of inp J (map f J @ new)) i i"
proof -
  let ?old = "update_of inp J J" and ?new = "update_of inp J (map f J @ new)"
  have v: "validate_namespace_journal ?old = Inr ()" using rest by (simp add: journal_rests_def)
  then have ok: "intent_ok ?old i" and d: "distinct (map int_id J)"
    using i by (simp_all add: validate_journal_iff)
  have p: "previous_intent ?old i = Some i"
    using d i by (simp add: previous_intent_def previous_intents_def find_unique_id)
  have j: "int_state i = Cancelled \<Longrightarrow> cancellation_justified ?new i"
    using ok cancellation_kept [where inp = inp and J = J and i = i and f = f and new = new] m
    by (simp add: intent_ok_def check_intent_state_iff)
  have "settled_locally_ok ?new i"
  proof (cases "int_state i = SettledLocally")
    case True
    with adds i have n: "new = []" by auto
    have "settled_locally_ok ?old i" using ok by (simp add: intent_ok_def check_intent_state_iff)
    with True have o': "\<forall>j \<in> set J. int_id j = int_id i \<or> int_state j \<in> {Cancelled, Superseded}"
      and rest': "int_desired i = DeleteEntry" "int_attempts i = []"
      by (auto simp: settled_locally_ok_def)
    have "int_id (f j) = int_id i \<or> int_state (f j) \<in> {Cancelled, Superseded}" if "j \<in> set J" for j
      using o' that m [OF that] intent_steps_same [OF m [OF that]] by (auto simp: intent_steps_def intent_continues_def)
    with True rest' i show ?thesis
      using d by (auto simp: settled_locally_ok_def n previous_intent_def previous_intents_def
            find_unique_id)
  qed (simp add: settled_locally_ok_def)
  with ok j have st: "state_ok ?new i i" "attempts_ok (int_attempts i)"
    by (auto simp: state_ok_def intent_ok_def check_intent_state_iff p superseded_ok_def)
  have "intent_wf (ji_handle inp) i" using rests_wf [OF rest] i by (simp add: journal_wf_def)
  with st show ?thesis by (simp add: step_ok_def intent_moves_steps)
qed

theorem resting_step:
  assumes rest: "journal_rests inp J"
    and m: "\<And>j. j \<in> set J \<Longrightarrow> intent_steps j (f j)"
    and stepped: "\<And>i. i \<in> set J \<Longrightarrow> f i \<noteq> i \<Longrightarrow> step_ok (update_of inp J (map f J @ new)) i (f i)"
    and adds: "\<And>n. n \<in> set new \<Longrightarrow> addition_ok inp J n"
    and dist: "distinct (map int_id new)" "distinct (map int_sequence new)"
    and locally: "new = [] \<or> (\<forall>j \<in> set J. int_state j \<noteq> SettledLocally)"
  shows "validate_namespace_journal (update_of inp J (map f J @ new)) = Inr ()"
proof (rule validate_extension [of _ J f new])
  fix i assume i: "i \<in> set J"
  show "step_ok (update_of inp J (map f J @ new)) i (f i)"
    using rests_stationary [OF rest i m locally] stepped [OF i] by (cases "f i = i") auto
next
  fix n assume "n \<in> set new"
  from adds [OF this] show "addition_ok (update_of inp J (map f J @ new)) J n"
    by (simp add: addition_ok_def)
qed (use rests_wf [OF rest] dist in simp_all)

corollary resting_update:
  assumes rest: "journal_rests inp J"
    and m: "\<And>j. j \<in> set J \<Longrightarrow> intent_moves j (f j)"
    and moved: "\<And>i. i \<in> set J \<Longrightarrow> f i \<noteq> i \<Longrightarrow> move_ok (update_of inp J (map f J @ new)) i (f i)"
    and adds: "\<And>n. n \<in> set new \<Longrightarrow> addition_ok inp J n"
    and dist: "distinct (map int_id new)" "distinct (map int_sequence new)"
    and locally: "new = [] \<or> (\<forall>j \<in> set J. int_state j \<noteq> SettledLocally)"
  shows "validate_namespace_journal (update_of inp J (map f J @ new)) = Inr ()"
proof (rule resting_step [OF rest _ _ adds dist locally])
  fix j assume j: "j \<in> set J"
  then have w: "intent_wf (ji_handle inp) j" using rests_wf [OF rest] by (simp add: journal_wf_def)
  show "intent_steps j (f j)" by (rule intent_moves_steps [OF m [OF j] w])
  assume "f j \<noteq> j"
  from move_step_ok [OF moved [OF j this] w]
  show "step_ok (update_of inp J (map f J @ new)) j (f j)" .
qed

text \<open>
  Whether a journal rests depends on the handle and the identity revision alone: finished work was
  let in when it was stored.
\<close>

lemma rests_cong:
  assumes rest: "journal_rests inp J" and same: "ji_handle inp' = ji_handle inp"
    "ji_identityRevision inp' = ji_identityRevision inp"
  shows "journal_rests inp' J"
proof -
  let ?o = "update_of inp J J" and ?n = "update_of inp' J J"
  have v: "validate_namespace_journal ?o = Inr ()" using rest by (simp add: journal_rests_def)
  have d: "distinct (map int_id J)" using v by (simp add: validate_journal_iff)
  have "intent_ok ?n i" if i: "i \<in> set J" for i
  proof -
    have ok: "intent_ok ?o i" using v i by (simp add: validate_journal_iff)
    have p: "previous_intent ?n i = Some i" "previous_intent ?o i = Some i"
      using d i by (simp_all add: previous_intent_def previous_intents_def find_unique_id)
    have pi: "previous_intents ?n = previous_intents ?o" by (simp add: previous_intents_def)
    have c: "cancellation_justified ?n i = cancellation_justified ?o i"
      unfolding cancellation_justified_def update_of_fields same by (rule refl)
    have "settled_locally_ok ?o i = settled_locally_ok ?n i"
      unfolding settled_locally_ok_def update_of_fields p by auto
    with ok c show ?thesis
      unfolding intent_ok_def check_intent_state_iff superseded_ok_def update_of_fields p pi same
      by auto
  qed
  then show ?thesis
    using v same by (simp add: journal_rests_def validate_journal_iff previous_intents_def)
qed

text \<open>
  An accepted update leaves a journal at rest, unless it supersedes an intent whose outcome was
  accepted.
\<close>

lemma accepted_rests:
  assumes v: "validate_namespace_journal inp = Inr ()"
    and clean: "\<And>i. i \<in> set (ji_intents inp) \<Longrightarrow> int_state i = Superseded \<Longrightarrow> \<not> intent_accepted i"
  shows "journal_rests inp (ji_intents inp)"
proof -
  let ?N = "ji_intents inp"
  let ?n = "update_of inp ?N ?N"
  have d: "distinct (map int_id ?N)" and wf: "journal_wf (ji_handle inp) ?N"
    using v validated_wf by (auto simp: validate_journal_iff)
  have "step_ok ?n i i" if i: "i \<in> set ?N" for i
  proof -
    have ok: "intent_ok inp i" using v i by (simp add: validate_journal_iff)
    have w: "intent_wf (ji_handle inp) i" using wf i by (simp add: journal_wf_def)
    have p: "previous_intent ?n i = Some i"
      using d i by (simp add: previous_intent_def previous_intents_def find_unique_id)
    have c: "cancellation_justified ?n i = cancellation_justified inp i"
      unfolding cancellation_justified_def update_of_fields by (rule refl)
    have l: "settled_locally_ok inp i \<Longrightarrow> settled_locally_ok ?n i"
      unfolding settled_locally_ok_def update_of_fields p by auto
    have "superseded_ok inp i" using ok by (simp add: intent_ok_def check_intent_state_iff)
    then have "state_ok ?n i i"
      using ok c l clean [OF i]
      by (auto simp: state_ok_def intent_ok_def check_intent_state_iff superseded_ok_def)
    with w show ?thesis by (simp add: step_ok_def intent_moves_steps intent_wf_def)
  qed
  then have "validate_namespace_journal (update_of inp ?N (map (\<lambda>i. i) ?N @ [])) = Inr ()"
    using wf by (intro validate_extension [of _ ?N "\<lambda>i. i" "[]"]) simp_all
  then show ?thesis by (simp add: journal_rests_def)
qed

lemma rests_clean:
  assumes "journal_rests inp J" and "i \<in> set J" and "int_state i = Superseded"
  shows "\<not> intent_accepted i"
proof
  assume a: "intent_accepted i"
  have "validate_namespace_journal (update_of inp J J) = Inr ()"
    using assms(1) by (simp add: journal_rests_def)
  moreover have "distinct (map int_id J)" using rests_wf [OF assms(1)] by (simp add: journal_wf_def)
  ultimately show False
    using superseded_accepted_stuck [of "update_of inp J J" J i] assms(2,3) a by simp
qed

end
