(* ===== verification/Journal_Planning.thy ===== *)
theory Journal_Planning
  imports Journal_Extension
begin

text \<open>
  Settling an outcome, giving up work whose identity is gone, and moving the work of a spent id
  (\<^verbatim>\<open>settleNamespaceIntent\<close>, \<^verbatim>\<open>resolveUnavailableNamespace\<close>, \<^verbatim>\<open>remintJournal\<close>) each turn a journal
  at rest into an update the validator accepts.
\<close>

text \<open>Work the server is not holding, pending or in need of repair, may move to a closed state.\<close>

lemma unfinished_move_ok:
  assumes wf: "intent_wf h i"
    and i: "int_state i = Pending \<or> (int_state i = NeedsRepair \<and> st \<noteq> Cancelled)"
    and st: "st \<in> {NeedsRepair, UnexecutableAfterTerminal, Superseded, Cancelled}"
    and cancelled: "st = Cancelled \<Longrightarrow> cancellation_justified inp (i\<lparr>int_state := Cancelled\<rparr>)"
    and unexecutable: "st = UnexecutableAfterTerminal \<Longrightarrow> ji_terminal inp"
    and superseded: "st = Superseded \<Longrightarrow> int_state i = NeedsRepair \<and>
      (int_attempts i \<noteq> [] \<longrightarrow> last_outcome i \<noteq> None)"
  shows "move_ok inp i (i\<lparr>int_state := st\<rparr>)"
proof -
  let ?j = "i\<lparr>int_state := st\<rparr>"
  have m: "intent_moves i ?j" using i by (auto simp: intent_moves_def)
  have l: "last_outcome ?j = last_outcome i" by (simp add: last_outcome_def)
  have "int_state i = Pending \<Longrightarrow> int_settledAt i = None"
    using wf by (auto simp: intent_wf_def check_settled_at_def split: option.splits)
  then have c: "check_settled_at ?j"
    using wf i st by (auto simp: intent_wf_def check_settled_at_def split: option.splits)
  have s: "intent_shape ?j" using wf st unfolding intent_wf_def intent_shape_def by auto
  have "settled_locally_ok inp ?j" using st by (auto simp: settled_locally_ok_def)
  with m c s l show ?thesis
    using st cancelled unexecutable superseded unfolding move_ok_def state_ok_def by auto
qed

section \<open>Settlement\<close>

definition settle_step ::
  "namespace_intent \<Rightarrow> intent_outcome \<Rightarrow> int \<Rightarrow> namespace_intent \<Rightarrow> namespace_intent" where
  "settle_step intent disposition t c =
     (if int_id c = int_id intent
      then c\<lparr>int_state := settled_state disposition, int_settledAt := Some t\<rparr> else c)"

definition chain_step :: "namespace_intent \<Rightarrow> bool \<Rightarrow> namespace_intent \<Rightarrow> namespace_intent" where
  "chain_step failed deleted i =
     (if int_id i = int_id failed \<and> deleted then i\<lparr>int_state := Superseded\<rparr>
      else if follows_location_intent i failed \<and> int_state i = Pending \<and> int_attempts i = []
      then i\<lparr>int_state := Cancelled\<rparr>
      else i)"

lemma chain_as_map: "\<exists>deleted. resolve_refused_location_chain J i = map (chain_step i deleted) J"
  unfolding resolve_refused_location_chain_def Let_def chain_step_def by (rule exI) (rule refl)

lemma settle_as_map:
  assumes "last_outcome i = Some out"
  shows "\<exists>deleted. settle_namespace_intent J i d t hold =
     (if d = RefusedOutcome \<and> hold \<noteq> SpentHold \<and>
         namespace_intent_outcome out False = RefusedOutcome
      then map (\<lambda>c. chain_step i deleted (settle_step i d t c)) J
      else map (settle_step i d t) J)"
proof -
  let ?X = "map (settle_step i d t) J"
  obtain deleted where "resolve_refused_location_chain ?X i = map (chain_step i deleted) ?X"
    using chain_as_map by blast
  moreover have "settle_namespace_intent J i d t hold =
     (if d = RefusedOutcome \<and> hold \<noteq> SpentHold \<and>
         namespace_intent_outcome out False = RefusedOutcome
      then resolve_refused_location_chain ?X i else ?X)"
    unfolding settle_namespace_intent_def Let_def settle_step_def assms by simp
  ultimately show ?thesis by (auto simp: comp_def intro!: exI [of _ deleted])
qed

lemma refused_outcome_evidence:
  assumes "last_outcome i = Some out" and "namespace_intent_outcome out False = RefusedOutcome"
    and "out \<noteq> CreateOutcome CreateConflict" and "out \<noteq> CreateFolderOutcome FolderConflict"
  shows "refused_evidence i"
  using assms by (auto simp: refused_evidence_def namespace_intent_outcome_def
        split: namespace_outcome.splits if_splits)

text \<open>The intent being settled: received, in a journal at rest, with an outcome.\<close>

definition settles ::
  "journal_input \<Rightarrow> namespace_intent list \<Rightarrow> namespace_intent \<Rightarrow> namespace_outcome \<Rightarrow> bool" where
  "settles inp J i out \<longleftrightarrow>
     journal_rests inp J \<and> i \<in> set J \<and> int_state i = Received \<and> last_outcome i = Some out"

lemma settles_facts:
  assumes "settles inp J i out"
  shows "intent_wf (ji_handle inp) i" "int_settledAt i = None" "int_attempts i \<noteq> []"
    "\<And>c. c \<in> set J \<Longrightarrow> int_id c = int_id i \<Longrightarrow> c = i"
proof -
  have r: "journal_wf (ji_handle inp) J" using assms rests_wf by (auto simp: settles_def)
  with assms show w: "intent_wf (ji_handle inp) i" by (auto simp: journal_wf_def settles_def)
  from w assms show "int_settledAt i = None"
    by (auto simp: settles_def intent_wf_def check_settled_at_def split: option.splits)
  show "int_attempts i \<noteq> []"
    using assms last_outcome_Some_attempt [of i out] by (auto simp: settles_def)
  show "\<And>c. c \<in> set J \<Longrightarrow> int_id c = int_id i \<Longrightarrow> c = i"
    using journal_wf_unique [OF r] assms by (auto simp: settles_def)
qed

lemma outcome_cases:
  "namespace_intent_outcome out terminal =
     (if terminal then UnexecutableOutcome else namespace_intent_outcome out False)"
  "namespace_intent_outcome out False \<in> {AcceptedOutcome, RefusedOutcome}"
  by (auto simp: namespace_intent_outcome_def split: namespace_outcome.splits)

text \<open>The states a received intent may settle in, given its outcome.\<close>

lemma received_move_ok:
  assumes s: "settles inp J i out" and t: "0 \<le> t"
    and st: "(st = Settled \<and> namespace_intent_outcome out False = AcceptedOutcome) \<or>
      (st = UnexecutableAfterTerminal \<and> ji_terminal inp) \<or> st = NeedsRepair \<or>
      (st = Superseded \<and> namespace_intent_outcome out False = RefusedOutcome)"
  shows "move_ok (update_of inp J N) i (i\<lparr>int_state := st, int_settledAt := Some t\<rparr>)"
proof -
  let ?j = "i\<lparr>int_state := st, int_settledAt := Some t\<rparr>"
  note f = settles_facts [OF s]
  have o': "last_outcome ?j = Some out" "int_state i = Received"
    using s by (simp_all add: settles_def last_outcome_def)
  then have a: "intent_accepted ?j \<longleftrightarrow> namespace_intent_outcome out False = AcceptedOutcome"
    by (simp add: intent_accepted_def accepted_outcome_def)
  have moves: "intent_moves i ?j" using f(2) o'(2) st by (auto simp: intent_moves_def)
  have shape: "intent_shape ?j"
    using f(1) st a unfolding intent_wf_def intent_shape_def by auto
  have "check_settled_at ?j" using t st by (auto simp: check_settled_at_def)
  with moves shape o' a st show ?thesis
    unfolding move_ok_def state_ok_def settled_locally_ok_def by auto
qed

definition fitting_disposition :: "journal_input \<Rightarrow> namespace_outcome \<Rightarrow> intent_outcome \<Rightarrow> bool" where
  "fitting_disposition inp out d \<longleftrightarrow>
     d = namespace_intent_outcome out False \<or> d = RefusedOutcome \<or>
     (d = UnexecutableOutcome \<and> ji_terminal inp)"

lemma settled_state_allowed:
  assumes "fitting_disposition inp out d"
  shows "(settled_state d = Settled \<and> namespace_intent_outcome out False = AcceptedOutcome) \<or>
      (settled_state d = UnexecutableAfterTerminal \<and> ji_terminal inp) \<or>
      settled_state d = NeedsRepair"
  using outcome_cases(2) [of out] assms by (auto simp: fitting_disposition_def)

text \<open>What an intent of the settled journal was before.\<close>

lemma settled_intents_cases:
  assumes "last_outcome i = Some out" and "j \<in> set (settle_namespace_intent J i d t hold)"
  obtains (same) "j \<in> set J" and "int_id j \<noteq> int_id i"
    | (cancelled) x where "x \<in> set J" and "int_id x \<noteq> int_id i" and "j = x\<lparr>int_state := Cancelled\<rparr>"
    | (settled) x s where "x \<in> set J" and "int_id x = int_id i"
      and "j = x\<lparr>int_state := s, int_settledAt := Some t\<rparr>" and "s = settled_state d \<or> s = Superseded"
proof -
  obtain deleted where "settle_namespace_intent J i d t hold =
     (if d = RefusedOutcome \<and> hold \<noteq> SpentHold \<and> namespace_intent_outcome out False = RefusedOutcome
      then map (\<lambda>c. chain_step i deleted (settle_step i d t c)) J else map (settle_step i d t) J)"
    using settle_as_map [OF assms(1)] by blast
  with assms(2) have "\<exists>x \<in> set J. j = settle_step i d t x \<or> j = chain_step i deleted (settle_step i d t x)"
    by (auto split: if_splits)
  then obtain x where x: "x \<in> set J"
    and j: "j = settle_step i d t x \<or> j = chain_step i deleted (settle_step i d t x)" by blast
  have np: "settled_state d \<noteq> Pending" by (cases d) simp_all
  show ?thesis
  proof (cases "int_id x = int_id i")
    case True
    with j np have "\<exists>s. j = x\<lparr>int_state := s, int_settledAt := Some t\<rparr> \<and>
        (s = settled_state d \<or> s = Superseded)"
      by (intro exI [of _ "int_state j"]) (auto simp: settle_step_def chain_step_def)
    with settled [OF x True] show ?thesis by blast
  next
    case False
    with j have "j = x \<or> j = x\<lparr>int_state := Cancelled\<rparr>"
      by (auto simp: settle_step_def chain_step_def)
    with same cancelled x False show ?thesis by blast
  qed
qed

text \<open>Queued placement work behind a refused placement is cancelled with its reason on record.\<close>

lemma cancelled_follower_ok:
  assumes wf: "intent_wf h c" and c: "follows_location_intent c i" "int_state c = Pending"
    and i': "i' \<in> set N" "intent_moves i i'" "refused_evidence i"
  shows "move_ok (update_of inp J N) c (c\<lparr>int_state := Cancelled\<rparr>)"
proof -
  let ?c = "c\<lparr>int_state := Cancelled\<rparr>"
  have a: "int_attempts c = []" using wf c(2) by (simp add: intent_wf_def intent_shape_def)
  have m: "intent_moves c ?c" using c(2) by (simp add: intent_moves_def)
  have "int_desired c \<noteq> DeleteEntry"
    using c(1) by (cases "int_desired i") (auto simp: follows_location_intent_def)
  moreover have "follows_location_intent ?c i' \<and> refused_evidence i'"
    using c(1) i'(2,3) follows_moves(1) [OF i'(2)] follows_moves(2) [OF m]
    by (simp add: refused_moves)
  ultimately have "cancellation_justified (update_of inp J N) ?c"
    using a i'(1) by (auto simp: cancellation_justified_def)
  with wf c(2) show ?thesis by (intro unfinished_move_ok) simp_all
qed

theorem settle_update_accepted:
  assumes s: "settles inp J i out" and t: "0 \<le> t"
    and d: "fitting_disposition inp out d"
    and hold: "out = CreateOutcome CreateConflict \<or> out = CreateFolderOutcome FolderConflict \<Longrightarrow>
      hold = SpentHold"
  shows "validate_namespace_journal (update_of inp J (settle_namespace_intent J i d t hold)) = Inr ()"
proof -
  note f = settles_facts [OF s]
  from s have rest: "journal_rests inp J" and i: "i \<in> set J" and o': "last_outcome i = Some out"
    by (simp_all add: settles_def)
  note wf = rests_wf [OF rest]
  obtain deleted where settle: "settle_namespace_intent J i d t hold =
     (if d = RefusedOutcome \<and> hold \<noteq> SpentHold \<and>
         namespace_intent_outcome out False = RefusedOutcome
      then map (\<lambda>c. chain_step i deleted (settle_step i d t c)) J
      else map (settle_step i d t) J)"
    using settle_as_map [OF o'] by blast
  have step_i: "settle_step i d t i = i\<lparr>int_state := settled_state d, int_settledAt := Some t\<rparr>"
    by (simp add: settle_step_def)
  have step_other: "settle_step i d t c = c" if "c \<in> set J" "c \<noteq> i" for c
    using f(4) that by (auto simp: settle_step_def)
  have step_ok: "move_ok (update_of inp J N) i (settle_step i d t i)" for N
    unfolding step_i using received_move_ok [OF s t] settled_state_allowed [OF d] by blast
  show ?thesis
  proof (cases "d = RefusedOutcome \<and> hold \<noteq> SpentHold \<and>
      namespace_intent_outcome out False = RefusedOutcome")
    case False
    have "validate_namespace_journal (update_of inp J (map (settle_step i d t) J @ [])) = Inr ()"
    proof (rule resting_update [OF rest])
      fix c assume c: "c \<in> set J"
      show "intent_moves c (settle_step i d t c)"
        using step_ok step_other [OF c] by (cases "c = i") (auto simp: move_ok_def)
      assume "settle_step i d t c \<noteq> c"
      with step_other [OF c] have "c = i" by blast
      then show "move_ok (update_of inp J (map (settle_step i d t) J @ [])) c (settle_step i d t c)"
        using step_ok by simp
    qed simp_all
    then show ?thesis unfolding settle if_not_P [OF False] by simp
  next
    case True
    let ?g = "\<lambda>c. chain_step i deleted (settle_step i d t c)"
    have g_i: "?g i = i\<lparr>int_state := (if deleted then Superseded else NeedsRepair),
        int_settledAt := Some t\<rparr>"
      unfolding step_i using True by (simp add: chain_step_def follows_location_intent_def)
    have g_i_ok: "move_ok (update_of inp J N) i (?g i)" for N
      unfolding g_i using received_move_ok [OF s t] True by (cases deleted) simp_all
    have "refused_evidence i"
      using refused_outcome_evidence [OF o'] True hold by blast
    then have g_other: "?g c = c \<or> move_ok (update_of inp J (map ?g J @ [])) c (?g c)"
      if "c \<in> set J" "c \<noteq> i" for c
      using that cancelled_follower_ok [where h = "ji_handle inp" and c = c and i = i and i' = "?g i"
            and N = "map ?g J @ []" and inp = inp and J = J]
        wf i f(4) g_i_ok step_other [OF that]
      by (auto simp: chain_step_def [of i deleted c] journal_wf_def move_ok_def)
    have "validate_namespace_journal (update_of inp J (map ?g J @ [])) = Inr ()"
    proof (rule resting_update [OF rest])
      fix c assume c: "c \<in> set J"
      show "intent_moves c (?g c)"
        using g_i_ok g_other [OF c] by (cases "c = i") (auto simp: move_ok_def)
      assume "?g c \<noteq> c"
      with g_other [OF c] g_i_ok show "move_ok (update_of inp J (map ?g J @ [])) c (?g c)"
        by (cases "c = i") auto
    qed simp_all
    then show ?thesis unfolding settle if_P [OF True] by simp
  qed
qed

lemma settle_superseded:
  assumes s: "settles inp J i out" and d: "fitting_disposition inp out d"
    and n: "n \<in> set (settle_namespace_intent J i d t hold)" and st: "int_state n = Superseded"
  shows "n \<in> set J \<or> \<not> intent_accepted n"
proof -
  have lo: "last_outcome i = Some out" using s by (simp add: settles_def)
  have ds: "settled_state d \<noteq> Superseded"
    using d outcome_cases(2) [of out] by (cases d) (auto simp: fitting_disposition_def)
  obtain deleted where settle: "settle_namespace_intent J i d t hold =
     (if d = RefusedOutcome \<and> hold \<noteq> SpentHold \<and>
         namespace_intent_outcome out False = RefusedOutcome
      then map (\<lambda>c. chain_step i deleted (settle_step i d t c)) J
      else map (settle_step i d t) J)"
    using settle_as_map [OF lo] by blast
  have step: "settle_step i d t c = c" if "c \<in> set J" "c \<noteq> i" for c
    using settles_facts(4) [OF s] that by (auto simp: settle_step_def)
  show ?thesis
  proof (cases "d = RefusedOutcome \<and> hold \<noteq> SpentHold \<and>
      namespace_intent_outcome out False = RefusedOutcome")
    case False
    with n settle obtain c where c: "c \<in> set J" "n = settle_step i d t c" by auto
    then show ?thesis
      using step st ds by (cases "c = i") (auto simp: settle_step_def)
  next
    case True
    with n settle obtain c where c: "c \<in> set J" "n = chain_step i deleted (settle_step i d t c)"
      by (auto simp: if_P [OF True])
    show ?thesis
    proof (cases "c = i")
      case True
      then have "last_outcome n = Some out"
        using lo by (auto simp: c(2) chain_step_def settle_step_def last_outcome_def)
      then show ?thesis
        using \<open>d = RefusedOutcome \<and> _\<close> by (simp add: intent_accepted_def accepted_outcome_def)
    next
      case False
      then have "n = chain_step i deleted c" using step c by simp
      then show ?thesis
        using st c(1) False settles_facts(4) [OF s c(1)]
        by (auto simp: chain_step_def split: if_splits)
    qed
  qed
qed

section \<open>Giving up\<close>

theorem unavailable_update_accepted:
  assumes rest: "journal_rests inp J" and tm: "terminal \<longrightarrow> ji_terminal inp"
  shows "validate_namespace_journal (update_of inp J (resolve_unavailable_namespace J terminal)) = Inr ()"
proof -
  define g :: "namespace_intent \<Rightarrow> namespace_intent" where "g = (\<lambda>i. if int_state i = Pending \<or> int_state i = NeedsRepair
      then i\<lparr>int_state := (if terminal then UnexecutableAfterTerminal else NeedsRepair)\<rparr> else i)"
  have m: "intent_moves i (g i)" for i by (auto simp: g_def intent_moves_def)
  have "move_ok (update_of inp J (map g J @ [])) i (g i)" if i: "i \<in> set J" "g i \<noteq> i" for i
  proof -
    from i(1) rests_wf [OF rest] have w: "intent_wf (ji_handle inp) i" by (simp add: journal_wf_def)
    from i(2) have st: "int_state i = Pending \<or> int_state i = NeedsRepair"
      and gi: "g i = i\<lparr>int_state := (if terminal then UnexecutableAfterTerminal else NeedsRepair)\<rparr>"
      by (auto simp: g_def split: if_splits)
    from w st tm show ?thesis
      unfolding gi by (intro unfinished_move_ok) (auto split: if_splits)
  qed
  then have "validate_namespace_journal (update_of inp J (map g J @ [])) = Inr ()"
    by (intro resting_update [OF rest] m) simp_all
  then show ?thesis by (simp add: resolve_unavailable_namespace_def g_def)
qed

section \<open>Moving the work of a spent id\<close>

abbreviation remint_waiting :: "remint_input \<Rightarrow> namespace_intent list" where
  "remint_waiting r \<equiv>
     remint_dependents (rm_intents r) (rm_from r) (remint_failed (rm_intents r) (rm_from r))"

definition remint_move :: "remint_input \<Rightarrow> namespace_intent \<Rightarrow> namespace_intent" where
  "remint_move r i =
     (if (case remint_failed (rm_intents r) (rm_from r) of None \<Rightarrow> False
          | Some f \<Rightarrow> int_id i = int_id f)
      then i\<lparr>int_state := Superseded\<rparr>
      else if i \<in> set (remint_waiting r) then i\<lparr>int_state := Cancelled\<rparr>
      else i)"

definition remint_additions :: "remint_input \<Rightarrow> namespace_intent list" where
  "remint_additions r =
     (let top = max_from_0 (map int_sequence (rm_intents r));
          retry = (case remint_failed (rm_intents r) (rm_from r) of None \<Rightarrow> []
            | Some f \<Rightarrow> [remint_retry r f (top + 1)])
      in retry @ map (\<lambda>(k, d). remint_rebased r d (top + int (length retry) + 1 + int k))
           (enumerate 0 (remint_waiting r)))"

lemma remint_shape:
  assumes "remint_journal r = Inr (Some next')"
  shows "next' = map (remint_move r) (rm_intents r) @ remint_additions r"
    and "\<And>d. d \<in> set (remint_waiting r) \<Longrightarrow> \<exists>n. rm_rebasedIntentIds r (int_id d) = Some n \<and> n \<noteq> []"
    and "remint_failed (rm_intents r) (rm_from r) \<noteq> None \<or> remint_waiting r \<noteq> []"
proof -
  note a = assms [unfolded remint_journal_def Let_def throw_when_Inr_iff]
  from a show "next' = map (remint_move r) (rm_intents r) @ remint_additions r"
    by (auto simp: remint_move_def [abs_def] remint_additions_def Let_def split: if_splits)
  from a have "\<not> list_ex (\<lambda>d. rm_rebasedIntentIds r (int_id d) \<in> {None, Some []}) (remint_waiting r)"
    by simp
  then show "\<exists>n. rm_rebasedIntentIds r (int_id d) = Some n \<and> n \<noteq> []"
    if "d \<in> set (remint_waiting r)" for d
    using that by (auto simp: not_None_eq)
  from a show "remint_failed (rm_intents r) (rm_from r) \<noteq> None \<or> remint_waiting r \<noteq> []"
    by (auto split: if_splits)
qed

lemma remint_failed_props:
  assumes "remint_failed J v = Some f"
  shows "f \<in> set J" "int_state f = NeedsRepair" "int_identityRevision f = v"
    "is_placement (int_desired f)"
proof -
  from assms obtain rest where "sort_key (\<lambda>i. - int_sequence i)
      (filter (\<lambda>i. int_state i = NeedsRepair \<and> int_identityRevision i = v \<and>
        is_placement (int_desired i)) J) = f # rest"
    by (auto simp: remint_failed_def split: list.splits)
  then have "f \<in> set (filter (\<lambda>i. int_state i = NeedsRepair \<and> int_identityRevision i = v \<and>
        is_placement (int_desired i)) J)"
    by (metis list.set_intros(1) set_sort)
  then show "f \<in> set J" "int_state f = NeedsRepair" "int_identityRevision f = v"
    "is_placement (int_desired f)" by auto
qed

lemma remint_waiting_props:
  "d \<in> set (remint_waiting r) \<Longrightarrow> d \<in> set (rm_intents r) \<and> int_state d = Pending \<and>
     int_attempts d = [] \<and> int_identityRevision d = rm_from r"
  by (auto simp: remint_dependents_def)

lemma remint_additions_sequences:
  "map int_sequence (remint_additions r) =
     map (\<lambda>k. max_from_0 (map int_sequence (rm_intents r)) + 1 + int k)
       [0..<length (remint_additions r)]"
proof (rule nth_equalityI)
  fix k assume "k < length (map int_sequence (remint_additions r))"
  then show "map int_sequence (remint_additions r) ! k =
      map (\<lambda>k. max_from_0 (map int_sequence (rm_intents r)) + 1 + int k)
        [0..<length (remint_additions r)] ! k"
    by (cases "remint_failed (rm_intents r) (rm_from r)"; cases k)
       (simp_all add: remint_additions_def Let_def remint_retry_def remint_rebased_def
          nth_enumerate_eq del: upt_Suc)
qed simp

lemma remint_additions_ids:
  "map int_id (remint_additions r) =
     (if remint_failed (rm_intents r) (rm_from r) = None then [] else [rm_retryIntentId r]) @
     map (\<lambda>d. case rm_rebasedIntentIds r (int_id d) of None \<Rightarrow> [] | Some n \<Rightarrow> n) (remint_waiting r)"
proof -
  have e: "map int_id (map (\<lambda>(k, d). remint_rebased r d (b + int k)) (enumerate m xs)) =
      map (\<lambda>d. case rm_rebasedIntentIds r (int_id d) of None \<Rightarrow> [] | Some n \<Rightarrow> n) xs" for b m xs
    by (induction xs arbitrary: m) (simp_all add: remint_rebased_def)
  show ?thesis
    unfolding remint_additions_def Let_def map_append e
    by (simp add: remint_retry_def split: option.splits)
qed

text \<open>An added intent is the retry of the failed placement or the new form of a waiting one.\<close>

lemma remint_additions_from:
  assumes "n \<in> set (remint_additions r)"
  shows "int_state n = Pending \<and> int_attempts n = [] \<and> int_identityRevision n = rm_to r \<and>
     (\<exists>i \<in> set (rm_intents r). int_handle n = int_handle i \<and> int_desired n = int_desired i \<and>
        int_projectId n = int_projectId i \<and>
        (int_settledAt n = None \<or> (int_state i = Pending \<and> int_settledAt n = int_settledAt i)) \<and>
        map_option adm_order (int_admission n) = map_option adm_order (int_admission i) \<and>
        map_option adm_predecessors (int_admission n) = map_option adm_predecessors (int_admission i))"
proof -
  from assms consider (retry) f s where "remint_failed (rm_intents r) (rm_from r) = Some f"
      "n = remint_retry r f s" "f \<in> set (rm_intents r)"
    | (rebased) d s where "d \<in> set (remint_waiting r)" "n = remint_rebased r d s"
        "d \<in> set (rm_intents r)" "int_state d = Pending" "int_attempts d = []"
  proof (cases "\<exists>f s. remint_failed (rm_intents r) (rm_from r) = Some f \<and> n = remint_retry r f s")
    case True
    with retry remint_failed_props(1) show ?thesis by blast
  next
    case False
    with assms obtain k d b where kd: "(k, d) \<in> set (enumerate 0 (remint_waiting r))"
      "n = remint_rebased r d (b + int k)"
      by (auto simp: remint_additions_def Let_def split: option.splits)
    then have "d \<in> set (remint_waiting r)" by (metis enumerate_eq_zip in_set_zipE)
    with kd(2) rebased remint_waiting_props show ?thesis by blast
  qed
  then show ?thesis
  proof cases
    case retry
    then show ?thesis
      by (auto simp: remint_retry_def renamed_admission_def option.map_comp comp_def
            intro!: bexI [of _ f])
  next
    case rebased
    then show ?thesis
      by (auto simp: remint_rebased_def renamed_admission_def option.map_comp comp_def
            intro!: bexI [of _ d])
  qed
qed

text \<open>What the callers of \<^verbatim>\<open>remintJournal\<close> provide: fresh ids, room below the safe integers.\<close>

definition remint_ready :: "journal_input \<Rightarrow> remint_input \<Rightarrow> bool" where
  "remint_ready inp r \<longleftrightarrow>
     journal_rests inp (rm_intents r) \<and> ji_identityRevision inp = rm_to r \<and>
     distinct (map int_id (remint_additions r)) \<and>
     (\<forall>n \<in> set (remint_additions r). int_id n \<notin> int_id ` set (rm_intents r)) \<and>
     max_from_0 (map int_sequence (rm_intents r)) + int (length (remint_additions r)) \<le> 2 ^ 53 - 1 \<and>
     (\<forall>d \<in> set (remint_waiting r). int_desired d \<noteq> DeleteEntry) \<and>
     (\<forall>f. remint_failed (rm_intents r) (rm_from r) = Some f \<longrightarrow> int_attempts f \<noteq> [] \<longrightarrow>
        last_outcome f \<noteq> None)"

lemma remint_sequence_range:
  assumes "n \<in> set (remint_additions r)"
  shows "max_from_0 (map int_sequence (rm_intents r)) < int_sequence n \<and>
     int_sequence n \<le> max_from_0 (map int_sequence (rm_intents r)) + int (length (remint_additions r))"
proof -
  from assms have "int_sequence n \<in> set (map int_sequence (remint_additions r))" by simp
  then show ?thesis unfolding remint_additions_sequences by auto
qed

lemma remint_addition_ok:
  assumes ready: "remint_ready inp r" and n: "n \<in> set (remint_additions r)"
  shows "addition_ok inp (rm_intents r) n"
proof -
  have wf: "journal_wf (ji_handle inp) (rm_intents r)"
    using ready rests_wf by (auto simp: remint_ready_def)
  from remint_additions_from [OF n] obtain i where i: "i \<in> set (rm_intents r)"
    "int_handle n = int_handle i" "int_state n = Pending" "int_attempts n = []"
    "int_settledAt n = None \<or> (int_state i = Pending \<and> int_settledAt n = int_settledAt i)" by blast
  from wf i(1) have w: "intent_wf (ji_handle inp) i" by (simp add: journal_wf_def)
  then have "int_settledAt n = None"
    using i(5) by (auto simp: intent_wf_def check_settled_at_def split: option.splits)
  moreover have "is_safe_integer (int_sequence n)"
    using remint_sequence_range [OF n] ready max_from_0_nonneg [of "map int_sequence (rm_intents r)"]
    by (simp add: remint_ready_def is_safe_integer_def)
  ultimately show ?thesis
    using i w remint_sequence_range [OF n] ready n
    by (simp add: addition_ok_def remint_ready_def intent_wf_def)
qed

lemma rebased_stands_in:
  assumes "d \<in> set (remint_waiting r)"
  shows "\<exists>n \<in> set (remint_additions r). int_desired n = int_desired d \<and>
     int_identityRevision n = rm_to r"
proof -
  from assms obtain k where k: "k < length (remint_waiting r)" "remint_waiting r ! k = d"
    by (auto simp: in_set_conv_nth)
  then have "(k, d) \<in> set (enumerate 0 (remint_waiting r))"
    by (auto simp: in_set_enumerate_eq)
  then have "\<exists>s. remint_rebased r d s \<in> set (remint_additions r)"
    by (force simp: remint_additions_def Let_def)
  then obtain s where "remint_rebased r d s \<in> set (remint_additions r)" ..
  then show ?thesis by (rule rev_bexI) (simp add: remint_rebased_def)
qed

lemma resting_settled_locally:
  assumes rest: "journal_rests inp J" and k: "k \<in> set J" "int_state k = SettledLocally"
    and j: "j \<in> set J"
  shows "int_state j \<in> {SettledLocally, Cancelled, Superseded}"
proof -
  have "intent_ok (update_of inp J J) k"
    using rest k(1) by (simp add: journal_rests_def validate_journal_iff)
  with k(2) j have "int_id j = int_id k \<or> int_state j = Cancelled \<or> int_state j = Superseded"
    by (auto simp: intent_ok_def check_intent_state_iff settled_locally_ok_def)
  with journal_wf_unique [OF rests_wf [OF rest] j k(1)] k(2) show ?thesis by auto
qed

theorem remint_update_accepted:
  assumes ready: "remint_ready inp r" and res: "remint_journal r = Inr (Some next')"
  shows "validate_namespace_journal (update_of inp (rm_intents r) next') = Inr ()"
proof -
  let ?J = "rm_intents r" and ?N = "map (remint_move r) (rm_intents r) @ remint_additions r"
  let ?inp = "update_of inp ?J ?N"
  have rest: "journal_rests inp ?J" using ready by (simp add: remint_ready_def)
  note wf = rests_wf [OF rest]
  have failed: "i = f" if "remint_failed ?J (rm_from r) = Some f" "i \<in> set ?J" "int_id i = int_id f" for i f
    using journal_wf_unique [OF wf] that remint_failed_props(1) by blast
  have moves: "intent_moves i (remint_move r i)" if i: "i \<in> set ?J" for i
  proof (cases "\<exists>f. remint_failed ?J (rm_from r) = Some f \<and> int_id i = int_id f")
    case True
    with failed i have "remint_failed ?J (rm_from r) = Some i" by blast
    with remint_failed_props(2) have "int_state i = NeedsRepair" by blast
    then show ?thesis
      using remint_waiting_props [of i r] by (auto simp: remint_move_def intent_moves_def)
  next
    case False
    then show ?thesis
      using remint_waiting_props [of i r]
      by (auto simp: remint_move_def intent_moves_def split: option.splits)
  qed
  have "move_ok ?inp i (remint_move r i)" if i: "i \<in> set ?J" and mv: "remint_move r i \<noteq> i" for i
  proof (cases "\<exists>f. remint_failed ?J (rm_from r) = Some f \<and> int_id i = int_id f")
    case True
    then obtain f where f: "remint_failed ?J (rm_from r) = Some f" "int_id i = int_id f" by blast
    with failed i have fi: "f = i" by blast
    with f remint_failed_props(2) have st: "int_state i = NeedsRepair" by blast
    have mi: "remint_move r i = i\<lparr>int_state := Superseded\<rparr>"
      using f by (simp add: remint_move_def)
    have ev: "int_attempts i \<noteq> [] \<longrightarrow> last_outcome i \<noteq> None"
      using ready f(1) fi by (simp add: remint_ready_def)
    from wf i have w: "intent_wf (ji_handle inp) i" by (simp add: journal_wf_def)
    show ?thesis
      using w st ev unfolding mi by (intro unfinished_move_ok) simp_all
  next
    case False
    have nf: "\<not> (case remint_failed ?J (rm_from r) of None \<Rightarrow> False | Some f \<Rightarrow> int_id i = int_id f)"
      using False by (simp split: option.splits)
    then have d: "i \<in> set (remint_waiting r)" using mv unfolding remint_move_def by metis
    with nf have mi: "remint_move r i = i\<lparr>int_state := Cancelled\<rparr>" by (simp add: remint_move_def)
    note p = remint_waiting_props [OF d]
    from wf i have w: "intent_wf (ji_handle inp) i" by (simp add: journal_wf_def)
    obtain n where n: "n \<in> set (remint_additions r)" "int_desired n = int_desired i"
      "int_identityRevision n = rm_to r" using rebased_stands_in [OF d] by blast
    have "int_sequence i < int_sequence n"
      using sequences_above [of ?J n i] remint_sequence_range [OF n(1)] i by simp
    then have "cancellation_justified ?inp (i\<lparr>int_state := Cancelled\<rparr>)"
      using n p d ready unfolding cancellation_justified_def remint_ready_def list_ex_set
      by (intro conjI disjI2) (auto intro!: bexI [of _ n])
    then show ?thesis
      using w p unfolding mi by (intro unfinished_move_ok) simp_all
  qed
  moreover have "remint_additions r = [] \<or> (\<forall>j \<in> set ?J. int_state j \<noteq> SettledLocally)"
  proof -
    obtain j where j: "j \<in> set ?J" "int_state j = NeedsRepair \<or> int_state j = Pending"
    proof (cases "remint_failed ?J (rm_from r)")
      case None
      with remint_shape(3) [OF res] obtain d where "d \<in> set (remint_waiting r)"
        by (cases "remint_waiting r") auto
      with remint_waiting_props that show ?thesis by blast
    next
      case (Some f)
      with remint_failed_props(1,2) that show ?thesis by blast
    qed
    then show ?thesis using resting_settled_locally [OF rest] by fastforce
  qed
  moreover have "distinct (map int_sequence (remint_additions r))"
    unfolding remint_additions_sequences by (simp add: distinct_map inj_on_def)
  ultimately have "validate_namespace_journal ?inp = Inr ()"
    using ready remint_addition_ok [OF ready]
    by (intro resting_update [OF rest moves]) (simp_all add: remint_ready_def)
  then show ?thesis by (simp add: remint_shape(1) [OF res])
qed

section \<open>Properties\<close>

text \<open>Settling a received intent with the outcome it recorded, whatever that outcome is, or as
  refused because its effect could not be applied, or as unexecutable on a deleted identity, writes a journal the validator accepts: refused work becomes repairable or, behind a queued deletion,
  superseded; placements queued behind a refused one are cancelled with their reason on record.\<close>

theorem settling_is_accepted:
  assumes "settles inp J i out" and "0 \<le> t"
    and "fitting_disposition inp out d"
    and "out = CreateOutcome CreateConflict \<or> out = CreateFolderOutcome FolderConflict \<Longrightarrow>
      hold = SpentHold"
  shows "validate_namespace_journal (update_of inp J (settle_namespace_intent J i d t hold)) = Inr ()"
  by (rule settle_update_accepted [OF assms])

abbreviation ex_input :: journal_input where
  "ex_input \<equiv> \<lparr>ji_previous = None, ji_handle = ''h'', ji_intents = [], ji_identityRevision = 1,
     ji_localDeletionAllowed = False, ji_terminal = False\<rparr>"

lemma ex_settles: "settles ex_input ex_received (hd ex_received) ex_made"
  by (simp add: settles_def journal_rests_def validate_namespace_journal_def ex_intent_def
        previous_intents_def ex_attempt_def ex_made_def ex_create_def check_attempt_outcome_def
        check_old_intent_def last_outcome_def at_last_def is_safe_integer_def check_settled_at_def
        check_intent_state_def check_settled_locally_def)

theorem settling_is_accepted_witness:
  "validate_namespace_journal (update_of ex_input ex_received
     (settle_namespace_intent ex_received (hd ex_received) AcceptedOutcome 7 HeldHold)) = Inr ()"
  using settling_is_accepted [OF ex_settles, of 7 AcceptedOutcome HeldHold]
  by (simp add: ex_made_def namespace_intent_outcome_def fitting_disposition_def)

text \<open>Moving the work of a spent id to a new one writes a journal the validator accepts and loses
  nothing: every intent it adds carries the destination, admission order and predecessors of one it
  closes, under the new identity revision, and comes after everything recorded before.\<close>

theorem remint_is_accepted:
  assumes "remint_ready inp r" and "remint_journal r = Inr (Some next')"
  shows "validate_namespace_journal (update_of inp (rm_intents r) next') = Inr () \<and>
     (\<forall>n \<in> set next'. int_id n \<notin> int_id ` set (rm_intents r) \<longrightarrow>
        int_state n = Pending \<and> int_identityRevision n = rm_to r \<and>
        (\<forall>i \<in> set (rm_intents r). int_sequence i < int_sequence n) \<and>
        (\<exists>i \<in> set (rm_intents r). int_desired n = int_desired i \<and>
           map_option adm_order (int_admission n) = map_option adm_order (int_admission i) \<and>
           map_option adm_predecessors (int_admission n) =
             map_option adm_predecessors (int_admission i)))"
proof (intro conjI ballI impI)
  show "validate_namespace_journal (update_of inp (rm_intents r) next') = Inr ()"
    by (rule remint_update_accepted [OF assms])
  fix n assume n: "n \<in> set next'" "int_id n \<notin> int_id ` set (rm_intents r)"
  have "int_id (remint_move r i) = int_id i" for i by (simp add: remint_move_def)
  then have "n \<notin> remint_move r ` set (rm_intents r)" using n(2) by auto
  with n(1) have a: "n \<in> set (remint_additions r)" by (simp add: remint_shape(1) [OF assms(2)])
  note from_r = remint_additions_from [OF a]
  from from_r show "int_state n = Pending" "int_identityRevision n = rm_to r" by blast+
  from from_r show "\<exists>i \<in> set (rm_intents r). int_desired n = int_desired i \<and>
       map_option adm_order (int_admission n) = map_option adm_order (int_admission i) \<and>
       map_option adm_predecessors (int_admission n) =
         map_option adm_predecessors (int_admission i)" by blast
  fix i assume "i \<in> set (rm_intents r)"
  with remint_sequence_range [OF a] sequences_above show "int_sequence i < int_sequence n" by blast
qed

abbreviation ex_spent :: remint_input where
  "ex_spent \<equiv> \<lparr>rm_intents =
       [ex_intent 1 NeedsRepair (ex_place ''a.md'')
          [ex_attempt (Some (CreateOutcome CreateConflict))],
        ex_intent 2 Pending (ex_place ''b.md'') []],
     rm_from = 1, rm_to = 2, rm_fromId = ''d1'', rm_toId = ''d2'', rm_retryIntentId = ''r'',
     rm_rebasedIntentIds = [''i2'' \<mapsto> ''q'']\<rparr>"

theorem remint_is_accepted_witness:
  "\<exists>next'. remint_journal ex_spent = Inr (Some next') \<and> length next' = 4 \<and>
     validate_namespace_journal
       (update_of (ex_input\<lparr>ji_identityRevision := 2\<rparr>) (rm_intents ex_spent) next') = Inr ()"
proof -
  have failed: "remint_failed (rm_intents ex_spent) 1 = Some (hd (rm_intents ex_spent))"
    by (simp add: remint_failed_def ex_intent_def)
  have waiting: "remint_dependents (rm_intents ex_spent) 1 (Some (hd (rm_intents ex_spent))) =
      [ex_intent 2 Pending (ex_place ''b.md'') []]"
    by (simp add: remint_dependents_def ex_intent_def)
  obtain next' where n: "remint_journal ex_spent = Inr (Some next')" "length next' = 4"
    using failed waiting by (simp add: remint_journal_def Let_def ex_intent_def)
  have "journal_rests (ex_input\<lparr>ji_identityRevision := 2\<rparr>) (rm_intents ex_spent)"
    by (simp add: journal_rests_def validate_namespace_journal_def ex_intent_def
          previous_intents_def ex_attempt_def ex_create_def check_attempt_outcome_def
          check_old_intent_def last_outcome_def at_last_def is_safe_integer_def
          check_settled_at_def check_intent_state_def check_settled_locally_def)
  then have "remint_ready (ex_input\<lparr>ji_identityRevision := 2\<rparr>) ex_spent"
    using failed waiting
    by (simp add: remint_ready_def remint_additions_ids remint_additions_def remint_retry_def
          remint_rebased_def ex_intent_def last_outcome_def at_last_def ex_attempt_def)
  from remint_is_accepted [OF this n(1)] n show ?thesis by blast
qed

text \<open>C31: A remint never gets past the validator while a deletion waits behind the spent placement: the
  deletion is unsent work of the old identity, so it is cancelled and queued again, and a cancelled
  deletion is rejected whatever else the update holds.\<close>

theorem remint_of_waiting_deletion_rejected:
  assumes "remint_journal r = Inr (Some next')" and "d \<in> set (remint_waiting r)"
    and "int_desired d = DeleteEntry" and "distinct (map int_id (rm_intents r))"
    and "ji_intents inp = next'"
  shows "\<exists>err. validate_namespace_journal inp = Inl err"
proof -
  have d: "d \<in> set (rm_intents r)" "int_state d = Pending" using remint_waiting_props [OF assms(2)] by auto
  have "\<not> (case remint_failed (rm_intents r) (rm_from r) of None \<Rightarrow> False
      | Some f \<Rightarrow> int_id d = int_id f)"
  proof (cases "remint_failed (rm_intents r) (rm_from r)")
    case (Some f)
    with remint_failed_props(1,2) have "f \<in> set (rm_intents r)" "int_state f = NeedsRepair" by blast+
    with d assms(4) have "int_id d \<noteq> int_id f" by (auto simp: distinct_map inj_on_def)
    with Some show ?thesis by simp
  qed simp
  with assms(2) have "remint_move r d = d\<lparr>int_state := Cancelled\<rparr>" by (simp add: remint_move_def)
  moreover have "remint_move r d \<in> set (ji_intents inp)"
    using d(1) by (simp add: assms(5) remint_shape(1) [OF assms(1)])
  moreover have "\<not> cancellation_justified inp (d\<lparr>int_state := Cancelled\<rparr>)"
    using assms(3) by (simp add: cancellation_justified_def)
  ultimately have "validate_namespace_journal inp \<noteq> Inr ()"
    by (force simp: validate_journal_iff intent_ok_def check_intent_state_iff)
  then show ?thesis by (cases "validate_namespace_journal inp") auto
qed

abbreviation ex_spent_deleted :: remint_input where
  "ex_spent_deleted \<equiv> ex_spent\<lparr>rm_intents :=
     [ex_intent 1 NeedsRepair (ex_place ''a.md'') [ex_attempt (Some (CreateOutcome CreateConflict))],
      ex_intent 2 Pending DeleteEntry []]\<rparr>"

theorem remint_of_waiting_deletion_rejected_witness:
  "\<exists>next' err. remint_journal ex_spent_deleted = Inr (Some next') \<and>
     validate_namespace_journal (update_of (ex_input\<lparr>ji_identityRevision := 2\<rparr>)
       (rm_intents ex_spent_deleted) next') = Inl err"
proof -
  have failed: "remint_failed (rm_intents ex_spent_deleted) 1 = Some (hd (rm_intents ex_spent_deleted))"
    by (simp add: remint_failed_def ex_intent_def)
  have waiting: "remint_dependents (rm_intents ex_spent_deleted) 1
      (Some (hd (rm_intents ex_spent_deleted))) = [ex_intent 2 Pending DeleteEntry []]"
    by (simp add: remint_dependents_def ex_intent_def)
  obtain next' where n: "remint_journal ex_spent_deleted = Inr (Some next')"
    using failed waiting by (simp add: remint_journal_def Let_def ex_intent_def)
  have "\<exists>err. validate_namespace_journal (update_of (ex_input\<lparr>ji_identityRevision := 2\<rparr>)
      (rm_intents ex_spent_deleted) next') = Inl err"
    by (rule remint_of_waiting_deletion_rejected [OF n, of "ex_intent 2 Pending DeleteEntry []"])
       (use failed waiting in \<open>simp_all add: ex_intent_def\<close>)
  with n show ?thesis by blast
qed

end
