(* ===== verification/Resource_Deletion.thy ===== *)
theory Resource_Deletion
  imports Journal_Planning
begin

text \<open>
  Deleting a document (\<^verbatim>\<open>resource-deletion.ts\<close>): on this device alone when the server never held
  it, otherwise through a queued delete whose receipt makes the record terminal.
\<close>

section \<open>Records\<close>

definition local_deletion_undo_ms :: int where
  "local_deletion_undo_ms = 10 * 60000"

fun is_terminal :: "resource_lifecycle \<Rightarrow> bool" where
  "is_terminal (Terminal _) = True"
| "is_terminal _ = False"

fun is_acknowledged :: "resource_lifecycle \<Rightarrow> bool" where
  "is_acknowledged (Acknowledged _) = True"
| "is_acknowledged _ = False"

text \<open>A record with its revision advanced, and the write that stores it over the one read.\<close>

definition bumped :: "resource_descriptor \<Rightarrow> resource_descriptor" where
  "bumped res = res\<lparr>res_revision := res_revision res + 1\<rparr>"

definition resource_update ::
  "resource_record \<Rightarrow> resource_descriptor \<Rightarrow> namespace_intent list \<Rightarrow> resource_write" where
  "resource_update record res intents =
     \<lparr>rw_expectedRevision = Some (res_revision (rec_resource record)),
      rw_next = \<lparr>rec_resource = res, rec_intents = intents\<rparr>\<rparr>"

fun any_result :: "('a \<Rightarrow> bool result) \<Rightarrow> 'a list \<Rightarrow> bool result" where
  "any_result f [] = Inr False"
| "any_result f (x # xs) = and_then (f x) (\<lambda>b. if b then Inr True else any_result f xs)"

definition locally_deleted ::
  "resource_descriptor \<Rightarrow> string \<Rightarrow> int \<Rightarrow> resource_descriptor" where
  "locally_deleted res deletionIntentId now =
     (case res_content res of
        ExactContent c \<Rightarrow> (bumped res)\<lparr>res_obligations := (res_obligations res)
          \<lparr>ob_cleanup := Some \<lparr>cl_obligationId = deletionIntentId,
             cl_exactDatabaseName = ec_databaseName c,
             cl_notBefore = Some (now + local_deletion_undo_ms)\<rparr>\<rparr>\<rparr>
      | Unacquired \<Rightarrow> bumped res)"

definition settle_deletion_locally :: "resource_record \<Rightarrow> string \<Rightarrow> int \<Rightarrow> resource_write" where
  "settle_deletion_locally record intentId now =
     resource_update record (locally_deleted (rec_resource record) intentId now)
       (map (\<lambda>i. if int_id i = intentId then i\<lparr>int_state := SettledLocally\<rparr> else i)
         (rec_intents record))"

definition plan_resource_deletion ::
  "resource_record \<Rightarrow> string \<Rightarrow> string \<Rightarrow> string option \<Rightarrow> placement_admission option \<Rightarrow> int \<Rightarrow>
     resource_write option result" where
  "plan_resource_deletion record projectId intentId operationId admission now =
     (let res = rec_resource record
      in if is_terminal (res_lifecycle res) then Inr None
         else and_then (any_result (\<lambda>i. intent_owns_deletion_at i (res_observationVersion res))
                (rec_intents record)) (\<lambda>owned.
           if owned then Inr None
           else
             (let neverAccepted = (\<not> delete_needs_server (res_serverHold res));
                  (intents, repaired) =
                    supersede_repairable_namespace_work (rec_intents record) (Some projectId);
                  deletion = \<lparr>int_projectId = projectId, int_handle = res_handle res,
                    int_id = intentId,
                    int_operationId = (case operationId of
                       Some k \<Rightarrow> if k = [] then None else Some k | None \<Rightarrow> None),
                    int_sequence = max_from_0 (map int_sequence (rec_intents record)) + 1,
                    int_admission = admission, int_identityRevision = res_identityRevision res,
                    int_desired = DeleteEntry, int_attempts = [], int_settledAt = None,
                    int_state = (if neverAccepted then SettledLocally else Pending)\<rparr>
              in Inr (Some (resource_update record
                   (if neverAccepted then locally_deleted res intentId now else bumped res)
                   (map (\<lambda>i. if \<not> repaired \<and> int_attempts i = [] \<and>
                          int_state i \<noteq> Cancelled \<and> int_state i \<noteq> Superseded
                        then i\<lparr>int_state := Cancelled\<rparr> else i) intents @ [deletion]))))))"

fun deletion_version :: "resource_lifecycle \<Rightarrow> string option" where
  "deletion_version (Terminal t) = term_deletionVersion t"
| "deletion_version _ = None"

definition committed_resource_deletion ::
  "resource_descriptor \<Rightarrow> string \<Rightarrow> string \<Rightarrow> string \<Rightarrow> resource_descriptor result" where
  "committed_resource_deletion res generation transitionId observationVersion =
     and_then (newer_canonical_observation observationVersion (res_observationVersion res)) (\<lambda>newer.
       if \<not> newer then Inr res
       else and_then
         (case deletion_version (res_lifecycle res) of
            None \<Rightarrow> Inr observationVersion
          | Some held \<Rightarrow> and_then (newer_canonical_observation observationVersion (Some held))
              (\<lambda>b. Inr (if b then observationVersion else held)))
         (\<lambda>version. Inr (res\<lparr>res_canonical := None,
            res_observationVersion := Some observationVersion,
            res_obligations := (res_obligations res)
              \<lparr>ob_sessionAdoption := None, ob_canonicalRefresh := None\<rparr>,
            res_lifecycle := Terminal \<lparr>term_generation = generation,
              term_transitionId = transitionId, term_deletionVersion = Some version\<rparr>\<rparr>)))"

end
