(* ===== verification/Placement_Journal.thy ===== *)
theory Placement_Journal
  imports Journal_Policy Replica_Examples
begin

text \<open>
  The causal order of placements (\<^verbatim>\<open>placement-journal.ts\<close>): each placement is admitted once,
  behind the unresolved placements its scope conflicts with, and waits on them before dispatch.
\<close>

section \<open>Keys and operations\<close>

abbreviation or_empty :: "string option \<Rightarrow> string" where
  "or_empty s \<equiv> (case s of None \<Rightarrow> [] | Some x \<Rightarrow> x)"

definition placement_parent_key :: "parent_ref \<Rightarrow> string" where
  "placement_parent_key parent =
     (case parent of
        FolderParent f \<Rightarrow> ''folder:'' @ f
      | RootParent s w \<Rightarrow>
          if is_project_scoped_scheme s then ''root:'' @ scheme_text s
          else ''root:'' @ scheme_text s @ '':'' @ or_empty (owner_work_id w) @ '':'' @
               or_empty (owner_root_thread w) @ '':'' @ or_empty (owner_chat w))"

record placement_op =
  po_kind :: journal_kind
  po_handle :: string
  po_subject :: string
  po_intent :: namespace_intent
  po_admission :: placement_admission

record replica_snapshot =
  sn_records :: "resource_record list"
  sn_folders :: "folder_record list"
  sn_operations :: "operation_record list"

definition placement_unresolved :: "intent_state \<Rightarrow> bool" where
  "placement_unresolved s \<longleftrightarrow> s = Pending \<or> s = Submitted \<or> s = Received"

definition placement_failed :: "intent_state \<Rightarrow> bool" where
  "placement_failed s \<longleftrightarrow>
     s = NeedsRepair \<or> s = Cancelled \<or> s = Superseded \<or> s = UnexecutableAfterTerminal"

definition shapes_list :: "namespace_intent \<Rightarrow> string option \<Rightarrow> bool" where
  "shapes_list i refreshing \<longleftrightarrow>
     placement_unresolved (int_state i) \<or>
     (int_state i = Settled \<and> int_operationId i \<noteq> None \<and> int_operationId i = refreshing)"

text \<open>An operation id that is the empty string is falsy on a resource and truthy on a folder.\<close>

definition refresh_barrier_operation_ids ::
  "resource_record list \<Rightarrow> folder_record list \<Rightarrow> string list" where
  "refresh_barrier_operation_ids records folders =
     List.map_filter (\<lambda>r. case ob_canonicalRefresh (res_obligations (rec_resource r)) of
         None \<Rightarrow> None
       | Some c \<Rightarrow> if cr_operationId c = [] then None else Some (cr_operationId c)) records @
     List.map_filter (\<lambda>f. map_option fr_operationId (fol_canonicalRefresh f)) folders"

definition journal_ops ::
  "journal_kind \<Rightarrow> string \<Rightarrow> string \<Rightarrow> namespace_intent list \<Rightarrow> string option \<Rightarrow> placement_op list" where
  "journal_ops kind handle subject intents refreshing =
     List.map_filter (\<lambda>i. case int_admission i of
         None \<Rightarrow> None
       | Some a \<Rightarrow> if shapes_list i refreshing
           then Some \<lparr>po_kind = kind, po_handle = handle, po_subject = subject,
                  po_intent = i, po_admission = a\<rparr>
           else None) intents"

definition placement_ops :: "replica_snapshot \<Rightarrow> placement_op list" where
  "placement_ops s =
     sort_key (\<lambda>op. adm_order (po_admission op))
       (concat (map (\<lambda>r. journal_ops ResourceJournal (res_handle (rec_resource r))
            (res_documentId (rec_resource r)) (rec_intents r)
            (map_option cr_operationId (ob_canonicalRefresh (res_obligations (rec_resource r)))))
          (sn_records s)) @
        concat (map (\<lambda>f. journal_ops FolderJournal (fol_handle f) (fol_folderId f) (fol_intents f)
            (map_option fr_operationId (fol_canonicalRefresh f)))
          (sn_folders s)) @
        concat (map (\<lambda>op. journal_ops OperationJournal (op_operationId op) (op_operationId op)
            (op_intents op)
            (if op_operationId op \<in>
                  set (refresh_barrier_operation_ids (sn_records s) (sn_folders s))
             then Some (op_operationId op) else None))
          (sn_operations s)))"

definition copy_scope_keys :: "copy_root list \<Rightarrow> string list" where
  "copy_scope_keys roots =
     concat (map (\<lambda>root. [''entry:'' @ root_copyId root, ''entry:'' @ root_sourceId root] @
       (if root_kind root = FolderKind then [''parent:folder:'' @ root_copyId root] else [])) roots)"

section \<open>Admission\<close>

definition conflict_parent_key :: "parent_ref \<Rightarrow> string \<Rightarrow> string" where
  "conflict_parent_key parent projectId =
     (let key = placement_parent_key parent
      in case parent of
           RootParent s _ \<Rightarrow>
             if s \<noteq> UserArea \<and> is_project_scoped_scheme s then projectId @ ''/'' @ key else key
         | FolderParent _ \<Rightarrow> key)"

record placement_spec =
  sp_projectId :: string
  sp_subject :: string
  sp_touches :: "string list"
  sp_source :: "parent_ref option"
  sp_destination :: "parent_ref option"
  sp_position :: "sibling_position option"

definition anchor_of :: "sibling_position option \<Rightarrow> string option" where
  "anchor_of position = Option.bind position sibling_id"

text \<open>
  The walk from the destination to its root. The lookup is any function, so the walk is partial;
  the ids seen so far stop it on a cycle.
\<close>

partial_function (option) ancestor_folders ::
  "(string \<Rightarrow> parent_ref option) \<Rightarrow> string list \<Rightarrow> parent_ref option \<Rightarrow> string list option" where
  "ancestor_folders parentOf seen parent =
     (case parent of
        Some (FolderParent f) \<Rightarrow>
          if f \<in> set seen then Some seen
          else ancestor_folders parentOf (seen @ [f]) (parentOf f)
      | _ \<Rightarrow> Some seen)"

definition scope_of ::
  "placement_spec \<Rightarrow> (string \<Rightarrow> parent_ref option) \<Rightarrow> string list option" where
  "scope_of spec parentOf =
     map_option (\<lambda>ancestors. sort (remdups
         (((''entry:'' @ sp_subject spec) # sp_touches spec) @
          (case sp_source spec of None \<Rightarrow> []
           | Some p \<Rightarrow> [''parent:'' @ conflict_parent_key p (sp_projectId spec)]) @
          (case sp_destination spec of None \<Rightarrow> []
           | Some p \<Rightarrow> [''parent:'' @ conflict_parent_key p (sp_projectId spec)]) @
          map (\<lambda>f. ''entry:'' @ f) ancestors @
          (case anchor_of (sp_position spec) of None \<Rightarrow> []
           | Some a \<Rightarrow> if a = [] then [] else [''entry:'' @ a]))))
       (ancestor_folders parentOf [] (sp_destination spec))"

definition replaced_by :: "resource_record list \<Rightarrow> folder_record list \<Rightarrow> string \<Rightarrow> string option" where
  "replaced_by records folders =
     map_of (rev (concat (map (\<lambda>r. map (\<lambda>(alias, _). (alias, res_documentId (rec_resource r)))
            (res_aliases (rec_resource r))) records) @
          concat (map (\<lambda>f. map (\<lambda>alias. (alias, fol_folderId f)) (fol_aliases f)) folders)))"

fun rename_position :: "(string \<Rightarrow> string) \<Rightarrow> sibling_position \<Rightarrow> sibling_position" where
  "rename_position f (BeforeSibling s) = BeforeSibling (f s)"
| "rename_position f (AfterSibling s) = AfterSibling (f s)"
| "rename_position f p = p"

fun rename_parent :: "(string \<Rightarrow> string) \<Rightarrow> parent_ref \<Rightarrow> parent_ref" where
  "rename_parent f (FolderParent p) = FolderParent (f p)"
| "rename_parent f p = p"

definition current_spec :: "placement_spec \<Rightarrow> replica_snapshot \<Rightarrow> placement_spec" where
  "current_spec spec s =
     (let current = (\<lambda>k. case replaced_by (sn_records s) (sn_folders s) k of
            None \<Rightarrow> k | Some n \<Rightarrow> n)
      in spec\<lparr>sp_subject := current (sp_subject spec),
              sp_destination := map_option (rename_parent current) (sp_destination spec),
              sp_position := map_option (rename_position current) (sp_position spec)\<rparr>)"

definition overlapping_ops :: "placement_op list \<Rightarrow> string list \<Rightarrow> placement_op list" where
  "overlapping_ops ops scope =
     filter (\<lambda>op. placement_unresolved (int_state (po_intent op)) \<and>
       list_ex (\<lambda>key. key \<in> set scope) (adm_scope (po_admission op))) ops"

definition pred_orders :: "placement_admission \<Rightarrow> int list" where
  "pred_orders a = map pred_order (adm_predecessors a)"

definition admission_predecessors ::
  "placement_op list \<Rightarrow> string option \<Rightarrow> placement_predecessor list" where
  "admission_predecessors overlapping anchor =
     (let covered = concat (map (\<lambda>op. pred_orders (po_admission op)) overlapping)
      in concat (map (\<lambda>op.
           let anchored = (Some (po_subject op) = anchor)
           in if adm_order (po_admission op) \<in> set covered \<and> \<not> anchored then []
              else [\<lparr>pred_kind = po_kind op, pred_handle = po_handle op,
                     pred_order = adm_order (po_admission op), pred_anchor = anchored\<rparr>])
         overlapping))"

definition capture_placement_admission ::
  "replica_snapshot \<Rightarrow> int \<Rightarrow> (string \<Rightarrow> parent_ref option) \<Rightarrow> placement_spec \<Rightarrow>
     placement_admission option" where
  "capture_placement_admission s highWater parentOf given =
     (let spec = current_spec given s
      in map_option (\<lambda>scope.
           \<lparr>adm_order = highWater + 1, adm_scope = scope,
            adm_predecessors =
              admission_predecessors (overlapping_ops (placement_ops s) scope)
                (anchor_of (sp_position spec))\<rparr>)
         (scope_of spec parentOf))"

section \<open>Dispatch\<close>

datatype placement_verdict = Go | Wait | Repair

definition admitted_at :: "int \<Rightarrow> namespace_intent \<Rightarrow> bool" where
  "admitted_at order i \<longleftrightarrow> map_option adm_order (int_admission i) = Some order"

definition newer_admitted ::
  "int \<Rightarrow> namespace_intent option \<Rightarrow> namespace_intent \<Rightarrow> namespace_intent option" where
  "newer_admitted order latest i =
     (if admitted_at order i \<and>
         (case latest of None \<Rightarrow> True | Some l \<Rightarrow> int_sequence i > int_sequence l)
      then Some i else latest)"

definition latest_admitted_placement ::
  "namespace_intent list \<Rightarrow> int \<Rightarrow> namespace_intent option" where
  "latest_admitted_placement intents order = foldl (newer_admitted order) None intents"

fun verdict_from ::
  "(placement_predecessor \<Rightarrow> namespace_intent option) \<Rightarrow> placement_verdict \<Rightarrow>
     placement_predecessor list \<Rightarrow> placement_verdict" where
  "verdict_from predecessorIntent verdict [] = verdict"
| "verdict_from predecessorIntent verdict (ref # refs) =
     (case predecessorIntent ref of
        None \<Rightarrow> verdict_from predecessorIntent verdict refs
      | Some p \<Rightarrow>
          if placement_unresolved (int_state p) then Wait
          else verdict_from predecessorIntent
            (if pred_anchor ref \<and> placement_failed (int_state p) then Repair else verdict) refs)"

definition placement_dispatch_verdict ::
  "namespace_intent \<Rightarrow> (placement_predecessor \<Rightarrow> namespace_intent option) \<Rightarrow> placement_verdict" where
  "placement_dispatch_verdict i predecessorIntent =
     verdict_from predecessorIntent Go
       (case int_admission i of None \<Rightarrow> [] | Some a \<Rightarrow> adm_predecessors a)"

section \<open>The walk to the root\<close>

text \<open>With finitely many folders the walk ends, whatever cycles the parents form.\<close>

lemma ancestor_folders_total:
  assumes "finite F" and "\<And>f g. parentOf f = Some (FolderParent g) \<Longrightarrow> g \<in> F"
    and "case parent of Some (FolderParent f) \<Rightarrow> f \<in> F | _ \<Rightarrow> True"
  shows "\<exists>fs. ancestor_folders parentOf seen parent = Some fs \<and> set seen \<subseteq> set fs"
  using assms(3)
proof (induction "card (F - set seen)" arbitrary: seen parent rule: less_induct)
  case less
  show ?case
  proof (cases "\<exists>f. parent = Some (FolderParent f) \<and> f \<notin> set seen")
    case True
    then obtain f where f: "parent = Some (FolderParent f)" "f \<notin> set seen" by blast
    with less.prems have "f \<in> F" by simp
    with f assms(1) have "card (F - set (seen @ [f])) < card (F - set seen)"
      by (intro psubset_card_mono) auto
    moreover have "case parentOf f of Some (FolderParent g) \<Rightarrow> g \<in> F | _ \<Rightarrow> True"
      using assms(2) [of f] by (auto split: option.splits parent_ref.splits)
    ultimately obtain fs where "ancestor_folders parentOf (seen @ [f]) (parentOf f) = Some fs"
      and "set (seen @ [f]) \<subseteq> set fs"
      using less.hyps by blast
    with f show ?thesis by (subst ancestor_folders.simps) auto
  next
    case False
    then have "ancestor_folders parentOf seen parent = Some seen"
      by (auto simp: ancestor_folders.simps [of parentOf seen parent]
            split: option.splits parent_ref.splits)
    then show ?thesis by simp
  qed
qed

text \<open>The destination folder itself is always on the walk.\<close>

lemma ancestor_folders_start:
  assumes "ancestor_folders parentOf seen (Some (FolderParent f)) = Some fs"
    and "finite F" and "\<And>f g. parentOf f = Some (FolderParent g) \<Longrightarrow> g \<in> F"
  shows "f \<in> set fs"
proof (cases "f \<in> set seen")
  case True
  with assms(1) show ?thesis by (simp add: ancestor_folders.simps [of parentOf seen])
next
  case False
  have "case parentOf f of Some (FolderParent g) \<Rightarrow> g \<in> insert f F | _ \<Rightarrow> True"
    using assms(3) by (auto split: option.splits parent_ref.splits)
  with assms(2,3) have "\<exists>gs. ancestor_folders parentOf (seen @ [f]) (parentOf f) = Some gs \<and>
      set (seen @ [f]) \<subseteq> set gs"
    by (intro ancestor_folders_total [of "insert f F"]) auto
  with assms(1) False show ?thesis by (auto simp: ancestor_folders.simps [of parentOf seen])
qed

lemma capture_scope:
  assumes "capture_placement_admission s hw parentOf spec = Some a"
  shows "scope_of (current_spec spec s) parentOf = Some (adm_scope a)"
  using assms by (auto simp: capture_placement_admission_def Let_def)

lemma scope_keys:
  assumes "scope_of spec parentOf = Some scope"
  shows "sorted scope \<and> distinct scope \<and> ''entry:'' @ sp_subject spec \<in> set scope \<and>
     set (sp_touches spec) \<subseteq> set scope"
  using assms by (auto simp: scope_of_def)

section \<open>Causal order\<close>

text \<open>
  The orders of a snapshot are well formed under a high-water mark: every admission was given an
  order at or below it and waits only on older ones.
\<close>

definition admission_below :: "int \<Rightarrow> placement_admission \<Rightarrow> bool" where
  "admission_below highWater a \<longleftrightarrow>
     adm_order a \<le> highWater \<and> (\<forall>p \<in> set (adm_predecessors a). pred_order p < adm_order a)"

definition ops_below :: "int \<Rightarrow> placement_op list \<Rightarrow> bool" where
  "ops_below highWater ops \<longleftrightarrow> (\<forall>op \<in> set ops. admission_below highWater (po_admission op))"

lemma admission_predecessors_orders:
  "p \<in> set (admission_predecessors ops anchor) \<Longrightarrow>
     \<exists>op \<in> set ops. pred_order p = adm_order (po_admission op) \<and> pred_handle p = po_handle op \<and>
       pred_kind p = po_kind op \<and> (pred_anchor p \<longleftrightarrow> Some (po_subject op) = anchor)"
  by (auto simp: admission_predecessors_def Let_def split: if_splits)

lemma capture_below:
  assumes "capture_placement_admission s hw parentOf spec = Some a"
    and "ops_below hw (placement_ops s)"
  shows "adm_order a = hw + 1" and "admission_below (hw + 1) a"
proof -
  show o: "adm_order a = hw + 1"
    using assms(1) by (auto simp: capture_placement_admission_def Let_def)
  have "pred_order p < hw + 1" if "p \<in> set (adm_predecessors a)" for p
  proof -
    from that assms(1) obtain ops anchor where
      "p \<in> set (admission_predecessors (overlapping_ops (placement_ops s) ops) anchor)"
      by (auto simp: capture_placement_admission_def Let_def)
    then obtain op where "op \<in> set (placement_ops s)" "pred_order p = adm_order (po_admission op)"
      using admission_predecessors_orders by (fastforce simp: overlapping_ops_def)
    with assms(2) show ?thesis by (auto simp: ops_below_def admission_below_def)
  qed
  with o show "admission_below (hw + 1) a" by (simp add: admission_below_def)
qed

text \<open>
  One order waits on another when some admission with the first order names the second as a
  predecessor; the new admission counts as one of them.
\<close>

definition waits_on :: "placement_admission set \<Rightarrow> (int \<times> int) set" where
  "waits_on admissions = {(adm_order a, q) | a q. a \<in> admissions \<and> q \<in> set (pred_orders a)}"

text \<open>
  Nothing conflicting is missed: a predecessor left out because another one already waits on it
  is still reached through that one.
\<close>

lemma predecessors_cover:
  assumes below: "\<forall>op \<in> set overlapping. admission_below hw (po_admission op)"
    and new: "adm_predecessors a = admission_predecessors overlapping anchor"
    and op: "op \<in> set overlapping"
  shows "(adm_order a, adm_order (po_admission op)) \<in>
           (waits_on (insert a (po_admission ` set overlapping)))\<^sup>+"
  using op
proof (induction "nat (hw - adm_order (po_admission op))" arbitrary: op rule: less_induct)
  case less
  let ?W = "waits_on (insert a (po_admission ` set overlapping))"
  let ?o = "adm_order (po_admission op)"
  show ?case
  proof (cases "\<exists>later \<in> set overlapping. ?o \<in> set (pred_orders (po_admission later))")
    case True
    then obtain later where later: "later \<in> set overlapping"
      "?o \<in> set (pred_orders (po_admission later))" by blast
    with below have "?o < adm_order (po_admission later)" "adm_order (po_admission later) \<le> hw"
      by (auto simp: admission_below_def pred_orders_def)
    with less.hyps later(1) have "(adm_order a, adm_order (po_admission later)) \<in> ?W\<^sup>+" by simp
    moreover have "(adm_order (po_admission later), ?o) \<in> ?W"
      using later by (auto simp: waits_on_def)
    ultimately show ?thesis by (rule trancl_into_trancl)
  next
    case False
    with less.prems have "?o \<in> set (pred_orders a)"
      by (force simp: pred_orders_def new admission_predecessors_def Let_def)
    then show ?thesis by (auto simp: waits_on_def)
  qed
qed

lemma waits_on_older:
  assumes "\<forall>a \<in> A. \<exists>hw. admission_below hw a" and "(x, y) \<in> (waits_on A)\<^sup>+"
  shows "y < x"
proof -
  have "(u, v) \<in> waits_on A \<Longrightarrow> v < u" for u v
    using assms(1) by (auto simp: waits_on_def pred_orders_def admission_below_def)
  with assms(2) show ?thesis by (induction rule: trancl_induct) (auto intro: less_trans)
qed

section \<open>Dispatch decides by the state of the predecessors\<close>

definition unresolved_ahead ::
  "(placement_predecessor \<Rightarrow> namespace_intent option) \<Rightarrow> placement_predecessor list \<Rightarrow> bool" where
  "unresolved_ahead look refs \<longleftrightarrow>
     (\<exists>r \<in> set refs. \<exists>p. look r = Some p \<and> placement_unresolved (int_state p))"

definition premise_lost ::
  "(placement_predecessor \<Rightarrow> namespace_intent option) \<Rightarrow> placement_predecessor list \<Rightarrow> bool" where
  "premise_lost look refs \<longleftrightarrow>
     (\<exists>r \<in> set refs. pred_anchor r \<and> (\<exists>p. look r = Some p \<and> placement_failed (int_state p)))"

lemma unresolved_ahead_simps [simp]:
  "\<not> unresolved_ahead look []"
  "unresolved_ahead look (r # rs) \<longleftrightarrow>
     (\<exists>p. look r = Some p \<and> placement_unresolved (int_state p)) \<or> unresolved_ahead look rs"
  by (auto simp: unresolved_ahead_def)

lemma premise_lost_simps [simp]:
  "\<not> premise_lost look []"
  "premise_lost look (r # rs) \<longleftrightarrow>
     (pred_anchor r \<and> (\<exists>p. look r = Some p \<and> placement_failed (int_state p))) \<or>
     premise_lost look rs"
  by (auto simp: premise_lost_def)

lemma verdict_from_iff:
  "verdict_from look v refs =
     (if unresolved_ahead look refs then Wait else if premise_lost look refs then Repair else v)"
  by (induction look v refs rule: verdict_from.induct) (auto split: option.splits)

lemma dispatch_verdict:
  assumes "int_admission i = Some a"
  shows "placement_dispatch_verdict i look =
     (if unresolved_ahead look (adm_predecessors a) then Wait
      else if premise_lost look (adm_predecessors a) then Repair else Go)"
  using assms by (simp add: placement_dispatch_verdict_def verdict_from_iff)

lemma latest_admitted_fold:
  "foldl (newer_admitted order) start intents = Some m \<Longrightarrow>
   (start = Some m \<or> m \<in> set intents \<and> admitted_at order m) \<and>
   (\<forall>i \<in> set intents. admitted_at order i \<longrightarrow> int_sequence i \<le> int_sequence m) \<and>
   (\<forall>l. start = Some l \<longrightarrow> int_sequence l \<le> int_sequence m)"
proof (induction intents arbitrary: start)
  case (Cons i rest)
  have "(newer_admitted order start i = Some i \<and> admitted_at order i \<and>
        (\<forall>l. start = Some l \<longrightarrow> int_sequence l \<le> int_sequence i)) \<or>
     (newer_admitted order start i = start \<and>
        (admitted_at order i \<longrightarrow> (\<exists>l. start = Some l \<and> int_sequence i \<le> int_sequence l)))"
    by (auto simp: newer_admitted_def split: option.splits)
  then show ?case
  proof
    assume "newer_admitted order start i = Some i \<and> admitted_at order i \<and>
        (\<forall>l. start = Some l \<longrightarrow> int_sequence l \<le> int_sequence i)"
    with Cons.prems Cons.IH [of "Some i"] show ?thesis by force
  next
    assume "newer_admitted order start i = start \<and>
        (admitted_at order i \<longrightarrow> (\<exists>l. start = Some l \<and> int_sequence i \<le> int_sequence l))"
    with Cons.prems Cons.IH [of start] show ?thesis by force
  qed
qed simp

lemma latest_admitted_newest:
  assumes "latest_admitted_placement intents order = Some m"
  shows "m \<in> set intents" and "admitted_at order m"
    and "i \<in> set intents \<Longrightarrow> admitted_at order i \<Longrightarrow> int_sequence i \<le> int_sequence m"
  using latest_admitted_fold [OF assms [unfolded latest_admitted_placement_def]] by auto

lemma latest_admitted_total:
  "i \<in> set intents \<Longrightarrow> admitted_at order i \<Longrightarrow> latest_admitted_placement intents order \<noteq> None"
proof -
  have keep: "foldl (newer_admitted order) (Some l) xs \<noteq> None" for l xs
    by (induction xs arbitrary: l) (auto simp: newer_admitted_def split: if_splits)
  show "i \<in> set intents \<Longrightarrow> admitted_at order i \<Longrightarrow> latest_admitted_placement intents order \<noteq> None"
    unfolding latest_admitted_placement_def
  proof (induction intents)
    case (Cons j rest)
    have "newer_admitted order None j = (if admitted_at order j then Some j else None)"
      by (simp add: newer_admitted_def)
    with Cons keep show ?case by (cases "admitted_at order j") auto
  qed simp
qed

text \<open>
  No deadlock: among unresolved placements whose predecessors are older than themselves, the
  oldest never waits, whatever journals the predecessors are looked up in.
\<close>

lemma oldest_never_waits:
  assumes "int_admission i = Some a" and "admission_below hw a"
    and oldest: "\<And>r p. look r = Some p \<Longrightarrow> placement_unresolved (int_state p) \<Longrightarrow>
      adm_order a \<le> pred_order r"
  shows "placement_dispatch_verdict i look \<noteq> Wait"
proof -
  have "\<not> placement_unresolved (int_state p)" if "r \<in> set (adm_predecessors a)" "look r = Some p" for r p
    using that assms(2) oldest [of r p] by (auto simp: admission_below_def)
  then show ?thesis by (auto simp: dispatch_verdict [OF assms(1)] unresolved_ahead_def)
qed

section \<open>The dispatch gate of the reconciler\<close>

text \<open>
  \<^verbatim>\<open>gate\<close> and \<^verbatim>\<open>predecessorJournal\<close> of \<^verbatim>\<open>account-resource-reconciler.ts\<close>, reading the stored
  journals of a snapshot. The registration in \<^verbatim>\<open>waiting\<close> only schedules the next pass.
\<close>

definition predecessor_journal ::
  "replica_snapshot \<Rightarrow> placement_predecessor \<Rightarrow> (namespace_intent list \<times> bool) option" where
  "predecessor_journal s ref =
     (case pred_kind ref of
        OperationJournal \<Rightarrow>
          map_option (\<lambda>op. (op_intents op, False))
            (find (\<lambda>op. op_operationId op = pred_handle ref) (sn_operations s))
      | FolderJournal \<Rightarrow>
          map_option (\<lambda>f. (fol_intents f, awaits_remint (fol_serverHold f) (fol_intents f)))
            (find (\<lambda>f. fol_handle f = pred_handle ref) (sn_folders s))
      | ResourceJournal \<Rightarrow>
          map_option (\<lambda>r. (rec_intents r,
              awaits_remint (res_serverHold (rec_resource r)) (rec_intents r)))
            (find (\<lambda>r. res_handle (rec_resource r) = pred_handle ref) (sn_records s)))"

definition found_predecessors ::
  "replica_snapshot \<Rightarrow> placement_predecessor list \<Rightarrow> (int \<times> namespace_intent option) list" where
  "found_predecessors s refs =
     map (\<lambda>ref. (pred_order ref,
        Option.bind (predecessor_journal s ref)
          (\<lambda>(intents, _). latest_admitted_placement intents (pred_order ref)))) refs"

definition gate :: "replica_snapshot \<Rightarrow> namespace_intent \<Rightarrow> placement_verdict" where
  "gate s i =
     (let predecessors = (case int_admission i of None \<Rightarrow> [] | Some a \<Rightarrow> adm_predecessors a)
      in if predecessors = [] then Go
         else if list_ex (\<lambda>ref. case predecessor_journal s ref of
                Some (_, replacing) \<Rightarrow> replacing | None \<Rightarrow> False) predecessors
         then Wait
         else placement_dispatch_verdict i (\<lambda>ref.
           case map_of (rev (found_predecessors s predecessors)) (pred_order ref) of
             None \<Rightarrow> None | Some p \<Rightarrow> p))"

text \<open>The journals of a snapshot, with the intents each holds.\<close>

definition snapshot_journals :: "replica_snapshot \<Rightarrow> namespace_intent list set" where
  "snapshot_journals s = rec_intents ` set (sn_records s) \<union> fol_intents ` set (sn_folders s) \<union>
     op_intents ` set (sn_operations s)"

lemma predecessor_journal_stored:
  "predecessor_journal s ref = Some (intents, replacing) \<Longrightarrow> intents \<in> snapshot_journals s"
  by (auto simp: predecessor_journal_def snapshot_journals_def split: journal_kind.splits
        dest!: find_Some_mem)

lemma journal_ops_unresolved:
  "i \<in> set intents \<Longrightarrow> int_admission i = Some a \<Longrightarrow> placement_unresolved (int_state i) \<Longrightarrow>
     \<lparr>po_kind = k, po_handle = h, po_subject = sb, po_intent = i, po_admission = a\<rparr>
       \<in> set (journal_ops k h sb intents refreshing)"
  by (force simp: journal_ops_def shapes_list_def map_filter_def)

lemma placement_ops_set:
  "set (placement_ops s) =
     (\<Union>r \<in> set (sn_records s). set (journal_ops ResourceJournal (res_handle (rec_resource r))
         (res_documentId (rec_resource r)) (rec_intents r)
         (map_option cr_operationId (ob_canonicalRefresh (res_obligations (rec_resource r)))))) \<union>
     (\<Union>f \<in> set (sn_folders s). set (journal_ops FolderJournal (fol_handle f) (fol_folderId f)
         (fol_intents f) (map_option fr_operationId (fol_canonicalRefresh f)))) \<union>
     (\<Union>w \<in> set (sn_operations s). set (journal_ops OperationJournal (op_operationId w)
         (op_operationId w) (op_intents w)
         (if op_operationId w \<in> set (refresh_barrier_operation_ids (sn_records s) (sn_folders s))
          then Some (op_operationId w) else None)))"
  unfolding placement_ops_def set_sort set_append set_concat set_map by auto

text \<open>Every unresolved admitted intent of a stored journal is one of the operations admission reads.\<close>

lemma unresolved_in_ops:
  assumes "J \<in> snapshot_journals s" and "i \<in> set J" and "int_admission i = Some a"
    and "placement_unresolved (int_state i)"
  shows "\<exists>op \<in> set (placement_ops s). po_intent op = i \<and> po_admission op = a"
proof -
  note mem = journal_ops_unresolved [OF assms(2-4)]
  from assms(1) consider
      r where "r \<in> set (sn_records s)" "J = rec_intents r"
    | f where "f \<in> set (sn_folders s)" "J = fol_intents f"
    | w where "w \<in> set (sn_operations s)" "J = op_intents w"
    by (auto simp: snapshot_journals_def)
  then show ?thesis
  proof cases
    case 1
    then have "\<lparr>po_kind = ResourceJournal, po_handle = res_handle (rec_resource r),
        po_subject = res_documentId (rec_resource r), po_intent = i, po_admission = a\<rparr>
        \<in> set (placement_ops s)"
      using mem unfolding placement_ops_set by blast
    then show ?thesis by (rule rev_bexI) simp
  next
    case 2
    then have "\<lparr>po_kind = FolderJournal, po_handle = fol_handle f, po_subject = fol_folderId f,
        po_intent = i, po_admission = a\<rparr> \<in> set (placement_ops s)"
      using mem unfolding placement_ops_set by blast
    then show ?thesis by (rule rev_bexI) simp
  next
    case 3
    then have "\<lparr>po_kind = OperationJournal, po_handle = op_operationId w,
        po_subject = op_operationId w, po_intent = i, po_admission = a\<rparr> \<in> set (placement_ops s)"
      using mem unfolding placement_ops_set by blast
    then show ?thesis by (rule rev_bexI) simp
  qed
qed

lemma found_predecessor:
  assumes "map_of (rev (found_predecessors s refs)) (pred_order r) = Some (Some p)"
  shows "\<exists>J \<in> snapshot_journals s. p \<in> set J \<and> admitted_at (pred_order r) p"
proof -
  from map_of_SomeD [OF assms] obtain ref where
    "Option.bind (predecessor_journal s ref)
        (\<lambda>(intents, _). latest_admitted_placement intents (pred_order r)) = Some p"
    by (auto simp: found_predecessors_def)
  then obtain J b where "predecessor_journal s ref = Some (J, b)"
    "latest_admitted_placement J (pred_order r) = Some p"
    by (auto simp: bind_eq_Some_conv)
  with predecessor_journal_stored latest_admitted_newest(1,2) show ?thesis by blast
qed

text \<open>The gate opens for the oldest unresolved placement once no journal is being replaced.\<close>

lemma gate_opens_for_oldest:
  assumes below: "ops_below hw (placement_ops s)" and op: "op \<in> set (placement_ops s)"
    and adm: "int_admission (po_intent op) = Some (po_admission op)"
    and oldest: "\<And>p. p \<in> set (placement_ops s) \<Longrightarrow> placement_unresolved (int_state (po_intent p)) \<Longrightarrow>
      adm_order (po_admission op) \<le> adm_order (po_admission p)"
    and settled: "\<And>ref J b. predecessor_journal s ref = Some (J, b) \<Longrightarrow> \<not> b"
  shows "gate s (po_intent op) \<noteq> Wait"
proof -
  let ?preds = "adm_predecessors (po_admission op)"
  let ?look = "\<lambda>ref. case map_of (rev (found_predecessors s ?preds)) (pred_order ref) of
             None \<Rightarrow> None | Some p \<Rightarrow> p"
  have no: "\<not> list_ex (\<lambda>ref. case predecessor_journal s ref of
                Some (_, replacing) \<Rightarrow> replacing | None \<Rightarrow> False) ?preds"
    using settled by (auto split: option.splits)
  have "placement_dispatch_verdict (po_intent op) ?look \<noteq> Wait"
  proof (rule oldest_never_waits [OF adm])
    show "admission_below hw (po_admission op)" using below op by (simp add: ops_below_def)
    fix r p assume "?look r = Some p" and u: "placement_unresolved (int_state p)"
    then have "map_of (rev (found_predecessors s ?preds)) (pred_order r) = Some (Some p)"
      by (simp split: option.splits)
    then obtain J where J: "J \<in> snapshot_journals s" "p \<in> set J" "admitted_at (pred_order r) p"
      using found_predecessor by blast
    then obtain a where a: "int_admission p = Some a" "adm_order a = pred_order r"
      by (auto simp: admitted_at_def)
    from unresolved_in_ops [OF J(1,2) a(1) u] obtain q where "q \<in> set (placement_ops s)"
      "po_intent q = p" "po_admission q = a" by blast
    with oldest [of q] a(2) u show "adm_order (po_admission op) \<le> pred_order r" by simp
  qed
  with no show ?thesis by (simp add: gate_def adm Let_def)
qed

lemma placement_ops_admission:
  "op \<in> set (placement_ops s) \<Longrightarrow> int_admission (po_intent op) = Some (po_admission op)"
  by (auto simp: placement_ops_def journal_ops_def map_filter_def split: option.splits if_splits)

section \<open>Properties\<close>

text \<open>C3: A placement captured from a snapshot whose orders are well formed under the high-water mark
  gets the next order, waits only on older orders, and waits (directly, or through a predecessor
  that already waits) on every unresolved placement whose scope meets its own.\<close>

theorem captured_placement_waits_for_conflicts:
  assumes "capture_placement_admission s hw parentOf spec = Some a"
    and "ops_below hw (placement_ops s)"
  shows "adm_order a = hw + 1 \<and> (\<forall>p \<in> set (adm_predecessors a). pred_order p < adm_order a) \<and>
     (\<forall>op \<in> set (placement_ops s). placement_unresolved (int_state (po_intent op)) \<longrightarrow>
        set (adm_scope (po_admission op)) \<inter> set (adm_scope a) \<noteq> {} \<longrightarrow>
        (adm_order a, adm_order (po_admission op)) \<in>
          (waits_on (insert a (po_admission ` set (placement_ops s))))\<^sup>+)"
proof (intro conjI ballI impI)
  show "adm_order a = hw + 1" by (rule capture_below(1) [OF assms])
  show "pred_order p < adm_order a" if "p \<in> set (adm_predecessors a)" for p
    using capture_below [OF assms] that by (simp add: admission_below_def)
  fix op assume op: "op \<in> set (placement_ops s)" "placement_unresolved (int_state (po_intent op))"
    "set (adm_scope (po_admission op)) \<inter> set (adm_scope a) \<noteq> {}"
  let ?over = "overlapping_ops (placement_ops s) (adm_scope a)"
  have sub: "set ?over \<subseteq> set (placement_ops s)" by (auto simp: overlapping_ops_def)
  have "(adm_order a, adm_order (po_admission op)) \<in> (waits_on (insert a (po_admission ` set ?over)))\<^sup>+"
  proof (rule predecessors_cover)
    show "\<forall>op \<in> set ?over. admission_below hw (po_admission op)"
      using assms(2) sub by (auto simp: ops_below_def)
    show "adm_predecessors a =
        admission_predecessors ?over (anchor_of (sp_position (current_spec spec s)))"
      using assms(1) by (auto simp: capture_placement_admission_def Let_def)
    show "op \<in> set ?over" using op by (auto simp: overlapping_ops_def)
  qed
  moreover have "waits_on (insert a (po_admission ` set ?over)) \<subseteq>
      waits_on (insert a (po_admission ` set (placement_ops s)))"
    using sub unfolding waits_on_def by blast
  ultimately show "(adm_order a, adm_order (po_admission op)) \<in>
      (waits_on (insert a (po_admission ` set (placement_ops s))))\<^sup>+"
    by (rule trancl_mono)
qed

text \<open>Capturing an admission always ends when finitely many folders have parents, even if a stale
  view holds a cycle of folders.\<close>

theorem capture_terminates:
  assumes "finite F" and "\<And>f g. parentOf f = Some (FolderParent g) \<Longrightarrow> g \<in> F"
  shows "\<exists>a. capture_placement_admission s hw parentOf spec = Some a"
proof -
  let ?spec = "current_spec spec s"
  define G where "G = (case sp_destination ?spec of Some (FolderParent f) \<Rightarrow> insert f F | _ \<Rightarrow> F)"
  have "finite G" and sub: "F \<subseteq> G"
    using assms(1) by (auto simp: G_def split: option.splits parent_ref.splits)
  moreover have "case sp_destination ?spec of Some (FolderParent f) \<Rightarrow> f \<in> G | _ \<Rightarrow> True"
    by (auto simp: G_def split: option.splits parent_ref.splits)
  ultimately obtain fs where "ancestor_folders parentOf [] (sp_destination ?spec) = Some fs"
    using ancestor_folders_total [of G parentOf "sp_destination ?spec" "[]"] assms(2) by blast
  then show ?thesis by (simp add: capture_placement_admission_def scope_of_def Let_def)
qed

text \<open>C4: Dispatch never deadlocks: in a snapshot whose orders are well formed and where no journal is
  being replaced, whenever some admitted placement is unresolved, the gate lets one of the
  unresolved placements through (to dispatch or to repair).\<close>

theorem gate_never_deadlocks:
  assumes "ops_below hw (placement_ops s)"
    and "\<And>ref J b. predecessor_journal s ref = Some (J, b) \<Longrightarrow> \<not> b"
    and "op \<in> set (placement_ops s)" and "placement_unresolved (int_state (po_intent op))"
  shows "\<exists>p \<in> set (placement_ops s). placement_unresolved (int_state (po_intent p)) \<and>
     gate s (po_intent p) \<noteq> Wait"
proof -
  let ?U = "{p \<in> set (placement_ops s). placement_unresolved (int_state (po_intent p))}"
  have "finite ?U" "?U \<noteq> {}" using assms(3,4) by auto
  then obtain p where p: "p \<in> ?U"
    and least: "\<And>q. q \<in> ?U \<Longrightarrow> adm_order (po_admission p) \<le> adm_order (po_admission q)"
    using arg_min_if_finite [of ?U "\<lambda>p. adm_order (po_admission p)"]
    by (metis (no_types, lifting) not_less)
  from p have mem: "p \<in> set (placement_ops s)" by simp
  have "gate s (po_intent p) \<noteq> Wait"
  proof (rule gate_opens_for_oldest [OF assms(1) mem placement_ops_admission [OF mem]])
    fix ref J b assume "predecessor_journal s ref = Some (J, b)"
    then show "\<not> b" by (rule assms(2))
  qed (use least in simp)
  with p show ?thesis by blast
qed

subsection \<open>Witnesses\<close>

definition ex_operation :: "int \<Rightarrow> string list \<Rightarrow> placement_predecessor list \<Rightarrow> operation_record" where
  "ex_operation k scope preds =
     \<lparr>op_operationId = ''o'', op_projectId = ''p'', op_revision = 1, op_behindSince = None,
      op_intents = [(ex_intent 1 Pending (CopyEntries [] (RootParent Kb NoOwner) None) [])
        \<lparr>int_admission := Some \<lparr>adm_order = k, adm_scope = scope, adm_predecessors = preds\<rparr>\<rparr>]\<rparr>"

abbreviation ex_snapshot :: replica_snapshot where
  "ex_snapshot \<equiv> \<lparr>sn_records = [], sn_folders = [],
     sn_operations = [ex_operation 4 [''entry:d1''] []]\<rparr>"

abbreviation ex_spec :: placement_spec where
  "ex_spec \<equiv> \<lparr>sp_projectId = ''p'', sp_subject = ''d1'', sp_touches = [], sp_source = None,
     sp_destination = Some (FolderParent ''f''), sp_position = None\<rparr>"

lemma ex_ops: "placement_ops ex_snapshot =
    [\<lparr>po_kind = OperationJournal, po_handle = ''o'', po_subject = ''o'',
      po_intent = hd (op_intents (ex_operation 4 [''entry:d1''] [])),
      po_admission = \<lparr>adm_order = 4, adm_scope = [''entry:d1''], adm_predecessors = []\<rparr>\<rparr>]"
  by (simp add: placement_ops_def ex_operation_def journal_ops_def ex_intent_def shapes_list_def
        placement_unresolved_def map_filter_def refresh_barrier_operation_ids_def)

theorem capture_terminates_witness:
  "\<exists>a. capture_placement_admission ex_snapshot 4 (\<lambda>f. Some (FolderParent ''f'')) ex_spec = Some a"
  by (rule capture_terminates [of "{''f''}"]) auto

theorem captured_placement_waits_for_conflicts_witness:
  "\<exists>a. capture_placement_admission ex_snapshot 4 (\<lambda>f. None) ex_spec = Some a \<and> adm_order a = 5 \<and>
     (5, 4) \<in> (waits_on (insert a (po_admission ` set (placement_ops ex_snapshot))))\<^sup>+"
proof -
  have b: "ops_below 4 (placement_ops ex_snapshot)"
    by (simp add: ex_ops ops_below_def admission_below_def)
  have "ancestor_folders (\<lambda>f. None) [] (Some (FolderParent ''f'')) = Some [''f'']"
    by (simp add: ancestor_folders.simps)
  then obtain a where a: "capture_placement_admission ex_snapshot 4 (\<lambda>f. None) ex_spec = Some a"
    "''entry:d1'' \<in> set (adm_scope a)"
    by (simp add: capture_placement_admission_def scope_of_def current_spec_def replaced_by_def
          Let_def)
  have "placement_unresolved (int_state (hd (op_intents (ex_operation 4 [''entry:d1''] []))))"
    by (simp add: placement_unresolved_def ex_operation_def ex_intent_def)
  with captured_placement_waits_for_conflicts [OF a(1) b] a show ?thesis
    unfolding ex_ops by auto
qed

theorem gate_never_deadlocks_witness:
  "\<exists>p \<in> set (placement_ops ex_snapshot). gate ex_snapshot (po_intent p) \<noteq> Wait"
proof -
  have b: "ops_below 4 (placement_ops ex_snapshot)"
    by (simp add: ex_ops ops_below_def admission_below_def)
  have "\<not> r" if "predecessor_journal ex_snapshot ref = Some (J, r)" for ref J r
    using that by (auto simp: predecessor_journal_def ex_operation_def
          split: journal_kind.splits if_splits)
  moreover have "placement_unresolved (int_state (po_intent (hd (placement_ops ex_snapshot))))"
    unfolding ex_ops by (simp add: placement_unresolved_def ex_operation_def ex_intent_def)
  moreover have "hd (placement_ops ex_snapshot) \<in> set (placement_ops ex_snapshot)"
    by (simp add: ex_ops)
  ultimately show ?thesis using gate_never_deadlocks [OF b] by blast
qed

end
