(* ===== verification/Resource_Namespace.thy ===== *)
theory Resource_Namespace
  imports First_Place Resource_Deletion Placement_Journal
begin

text \<open>
  The journal of one document (\<^verbatim>\<open>resource-namespace.ts\<close>, \<^verbatim>\<open>resource-join.ts\<close>): which intent is
  active, the request it sends, how the answer is recorded and settled, and the canonical refresh a
  move owes. The transport, the lock and the clock are arguments.
\<close>

section \<open>The active intent\<close>

definition closed_state :: "intent_state \<Rightarrow> bool" where
  "closed_state s \<longleftrightarrow> s = Cancelled \<or> s = Settled \<or> s = Superseded \<or>
     s = UnexecutableAfterTerminal \<or> s = SettledLocally"

definition active_namespace_intent :: "namespace_intent list \<Rightarrow> namespace_intent option" where
  "active_namespace_intent intents =
     find (\<lambda>i. \<not> closed_state (int_state i)) (sort_key int_sequence intents)"

definition normalized_path :: "string \<Rightarrow> string" where
  "normalized_path path = drop_leading slash path"

definition displayed_path :: "string \<Rightarrow> string" where
  "displayed_path path = slash # normalized_path path"

section \<open>Requests\<close>

record attempt_ids =
  aid_attemptId :: string
  aid_operationId :: string

definition create_destination_of :: "resource_destination \<Rightarrow> create_destination" where
  "create_destination_of d =
     \<lparr>cd_parent = parent_with_folders d, cd_name = dest_name d, cd_position = dest_position d\<rparr>"

definition content_reserved :: "resource_content \<Rightarrow> bool" where
  "content_reserved c = (case c of ExactContent e \<Rightarrow> ec_reserved e | Unacquired \<Rightarrow> False)"

definition materialization_request ::
  "resource_record \<Rightarrow> namespace_intent \<Rightarrow> namespace_request option" where
  "materialization_request record i =
     (let res = rec_resource record
      in case (res_materialization res, int_desired i) of
           (Some m, SetLocation _ destination) \<Rightarrow>
             if (case ob_createEligibility (res_obligations res) of
                   Some (Some _) \<Rightarrow> False | _ \<Rightarrow> True) \<or>
                content_reserved (res_content res)
             then None
             else Some (CreateRequest
               (if mat_unnamed m
                then \<lparr>crb_documentId = res_documentId res,
                      crb_folderPath = (if mat_folderPath m = [] then None
                        else Some (normalized_path (mat_folderPath m))),
                      crb_destination = None\<rparr>
                else \<lparr>crb_documentId = res_documentId res, crb_folderPath = None,
                      crb_destination = Some (create_destination_of destination)\<rparr>))
         | _ \<Rightarrow> None)"

definition request_for ::
  "resource_record \<Rightarrow> namespace_intent \<Rightarrow> string \<Rightarrow> parent_lookup \<Rightarrow> namespace_request option" where
  "request_for record i operationId lookup =
     (let res = rec_resource record
      in if ob_canonicalRefresh (res_obligations res) \<noteq> None then None
         else if int_desired i = DeleteEntry
         then (if res_canonical res = None then None
               else Some (delete_request FileKind (res_documentId res) operationId))
         else (case res_serverHold res of
             LocalHold \<Rightarrow> materialization_request record i
           | HeldHold \<Rightarrow> (case (res_canonical res, int_desired i) of
                 (Some source, SetLocation typedName destination) \<Rightarrow>
                   if destination_parent_location (dest_parent destination) lookup = None then None
                   else Some (move_request FileKind (res_documentId res) operationId destination
                     typedName (loc_name source) (res_canonicalParent res))
               | _ \<Rightarrow> None)
           | _ \<Rightarrow> None))"

text \<open>\<^verbatim>\<open>replaceIntent\<close>: the record's next revision, one intent replaced, the hold as given.\<close>

definition replace_intent ::
  "resource_record \<Rightarrow> string \<Rightarrow> (namespace_intent \<Rightarrow> namespace_intent) \<Rightarrow> server_hold \<Rightarrow>
     resource_write" where
  "replace_intent record intentId replace hold =
     resource_update record ((bumped (rec_resource record))\<lparr>res_serverHold := hold\<rparr>)
       (map (\<lambda>i. if int_id i = intentId then replace i else i) (rec_intents record))"

definition needs_repair_write :: "resource_record \<Rightarrow> string \<Rightarrow> resource_write" where
  "needs_repair_write record intentId =
     replace_intent record intentId (\<lambda>i. i\<lparr>int_state := NeedsRepair\<rparr>)
       (res_serverHold (rec_resource record))"

definition unrecorded_attempt :: "string \<Rightarrow> namespace_request \<Rightarrow> namespace_attempt" where
  "unrecorded_attempt attemptId request =
     \<lparr>att_id = attemptId, att_request = request, att_outcome = None\<rparr>"

definition submit_intent :: "namespace_attempt \<Rightarrow> namespace_intent \<Rightarrow> namespace_intent" where
  "submit_intent attempt i =
     i\<lparr>int_state := Submitted, int_attempts := int_attempts i @ [attempt]\<rparr>"

definition destination_gone :: "resource_record \<Rightarrow> namespace_intent \<Rightarrow> parent_lookup \<Rightarrow> bool" where
  "destination_gone record i lookup \<longleftrightarrow>
     (case int_desired i of
        SetLocation _ d \<Rightarrow>
          res_serverHold (rec_resource record) = HeldHold \<and>
          res_canonical (rec_resource record) \<noteq> None \<and>
          destination_parent_location (dest_parent d) lookup = None
      | _ \<Rightarrow> False)"

definition prepare_namespace_attempt ::
  "resource_record \<Rightarrow> attempt_ids \<Rightarrow> parent_lookup \<Rightarrow> int \<Rightarrow> resource_write option" where
  "prepare_namespace_attempt record ids lookup now =
     (case active_namespace_intent (rec_intents record) of
        None \<Rightarrow> None
      | Some i \<Rightarrow>
          if int_state i \<noteq> Pending then None
          else if is_terminal (res_lifecycle (rec_resource record))
          then Some (resource_update record (bumped (rec_resource record))
                 (resolve_unavailable_namespace (rec_intents record) True))
          else if int_desired i = DeleteEntry \<and>
                  \<not> delete_needs_server (res_serverHold (rec_resource record))
          then Some (settle_deletion_locally record (int_id i) now)
          else if int_identityRevision i \<noteq> res_identityRevision (rec_resource record) \<or>
                  destination_gone record i lookup
          then Some (needs_repair_write record (int_id i))
          else (case request_for record i
                  (case int_operationId i of None \<Rightarrow> aid_operationId ids | Some k \<Rightarrow> k) lookup of
              None \<Rightarrow> None
            | Some request \<Rightarrow>
                (let attempt = unrecorded_attempt (aid_attemptId ids) request
                 in Some (replace_intent record (int_id i) (submit_intent attempt)
                      (hold_after_attempt (res_serverHold (rec_resource record)) attempt)))))"

section \<open>Answers\<close>

definition namespace_outcome_matches :: "namespace_attempt \<Rightarrow> namespace_outcome \<Rightarrow> bool" where
  "namespace_outcome_matches attempt outcome =
     (case outcome of
        RefusalOutcome operationId err \<Rightarrow>
          operationId = namespace_request_id (att_request attempt) \<and> \<not> me_retryable err
      | CreateOutcome answer \<Rightarrow> (case att_request attempt of
            CreateRequest b \<Rightarrow> (case answer of
                CreateMade _ documentId _ \<Rightarrow> documentId = crb_documentId b | _ \<Rightarrow> True)
          | _ \<Rightarrow> False)
      | CreateFolderOutcome answer \<Rightarrow> (case att_request attempt of
            CreateFolderRequest _ b \<Rightarrow> (case answer of
                FolderMade _ folderId _ \<Rightarrow> folderId = cfb_folderId b | _ \<Rightarrow> True)
          | _ \<Rightarrow> False)
      | OperationOutcome receipt \<Rightarrow>
          rcpt_operationId receipt = namespace_request_id (att_request attempt) \<and>
          (case (att_request attempt, rcpt_answer receipt) of
             (DeleteRequest e b, DeleteAnswer c _) \<Rightarrow> namespace_entry_is c e (dlb_kind b)
           | (CopyRequest _ b, CopyAnswer c _) \<Rightarrow>
               copy_sources_match (cpb_sources b) (cpc_sources c) \<and>
               same_destination_parent (cpc_destinationParent c) (cpb_destinationParent b) \<and>
               cpc_position c = cpb_position b
           | (MoveRequest e b, MoveAnswer c _) \<Rightarrow>
               namespace_entry_is (mvc_expected c) e (mvb_kind b) \<and>
               same_destination_parent (mvc_destinationParent c) (mvb_destinationParent b) \<and>
               mvc_position c = mvb_position b \<and> mvc_name c = mvb_name b
           | _ \<Rightarrow> False))"

definition namespace_attempt_with_outcome ::
  "namespace_attempt \<Rightarrow> namespace_outcome \<Rightarrow> namespace_attempt result" where
  "namespace_attempt_with_outcome attempt outcome =
     (if (case outcome of
            RefusalOutcome _ _ \<Rightarrow> True
          | CreateOutcome _ \<Rightarrow> (case att_request attempt of CreateRequest _ \<Rightarrow> True | _ \<Rightarrow> False)
          | CreateFolderOutcome _ \<Rightarrow>
              (case att_request attempt of CreateFolderRequest _ _ \<Rightarrow> True | _ \<Rightarrow> False)
          | OperationOutcome receipt \<Rightarrow> same_command_kind (att_request attempt) (rcpt_answer receipt))
      then Inr (attempt\<lparr>att_outcome := Some outcome\<rparr>)
      else Inl (Error ''Namespace outcome does not match current attempt''))"

definition receive_intent :: "string \<Rightarrow> namespace_attempt \<Rightarrow> namespace_intent \<Rightarrow> namespace_intent" where
  "receive_intent attemptId answered i =
     i\<lparr>int_state := Received,
       int_attempts := map (\<lambda>a. if att_id a = attemptId then answered else a) (int_attempts i)\<rparr>"

definition record_namespace_outcome ::
  "resource_record \<Rightarrow> string \<Rightarrow> string \<Rightarrow> namespace_outcome \<Rightarrow> resource_write option result" where
  "record_namespace_outcome record intentId attemptId outcome =
     (case find (\<lambda>i. int_id i = intentId) (rec_intents record) of
        None \<Rightarrow> Inl (Error ''Namespace attempt is no longer current'')
      | Some i \<Rightarrow> (case at_last (int_attempts i) of
            None \<Rightarrow> Inl (Error ''Namespace attempt is no longer current'')
          | Some attempt \<Rightarrow>
              if att_id attempt \<noteq> attemptId
              then Inl (Error ''Namespace attempt is no longer current'')
              else if att_outcome attempt \<noteq> None then Inr None
              else if int_state i \<noteq> Submitted \<or> \<not> namespace_outcome_matches attempt outcome
              then Inl (Error ''Namespace outcome does not match current attempt'')
              else and_then (namespace_attempt_with_outcome attempt outcome) (\<lambda>answered.
                Inr (Some (replace_intent record intentId (receive_intent attemptId answered)
                  (hold_after_attempt (res_serverHold (rec_resource record)) answered))))))"

section \<open>Joins\<close>

record join_target =
  jt_documentId :: string
  jt_location :: "resource_location option"
  jt_parent :: "parent_ref option"
  jt_rank :: "string option option"
  jt_locationVersion :: "string option"
  jt_classification :: "file_classification option"
  jt_observationVersion :: "string option"

record joined_create =
  jc_intent :: namespace_intent
  jc_attemptId :: string
  jc_answered :: "string option"
  jc_requestedId :: string

definition last_create :: "namespace_intent \<Rightarrow> (namespace_attempt \<times> create_body) option" where
  "last_create i =
     (case at_last (int_attempts i) of
        Some a \<Rightarrow> (case att_request a of CreateRequest b \<Rightarrow> Some (a, b) | _ \<Rightarrow> None)
      | None \<Rightarrow> None)"

definition submitted_create :: "resource_record \<Rightarrow> joined_create option" where
  "submitted_create record =
     (case find (\<lambda>i. last_create i \<noteq> None \<and> int_state i \<noteq> Cancelled \<and> int_state i \<noteq> Superseded)
             (sort_key (\<lambda>i. - int_sequence i) (rec_intents record)) of
        None \<Rightarrow> None
      | Some i \<Rightarrow> map_option (\<lambda>(a, b). \<lparr>jc_intent = i, jc_attemptId = att_id a,
            jc_answered = (case att_outcome a of
                Some (CreateOutcome (CreateJoined documentId _)) \<Rightarrow> Some documentId | _ \<Rightarrow> None),
            jc_requestedId = crb_documentId b\<rparr>) (last_create i))"

definition answer_location :: "document_address \<Rightarrow> resource_location option" where
  "answer_location address =
     (if addr_workId address \<notin> {None, Some []} then None
      else Some \<lparr>loc_scheme = addr_scheme address, loc_path = displayed_path (addr_path address),
                 loc_name = addr_name address, loc_owner = NoOwner\<rparr>)"

definition pending_join_target :: "resource_record \<Rightarrow> join_target option" where
  "pending_join_target record =
     (case submitted_create record of
        None \<Rightarrow> None
      | Some create \<Rightarrow> (case Option.bind (at_last (int_attempts (jc_intent create))) att_outcome of
            Some (CreateOutcome (CreateJoined documentId address)) \<Rightarrow>
              if jc_answered create \<in> {None, Some []} \<or>
                 int_state (jc_intent create) \<noteq> Received \<or>
                 res_documentId (rec_resource record) \<noteq> jc_requestedId create
              then None
              else Some \<lparr>jt_documentId = documentId, jt_location = answer_location address,
                jt_parent = None, jt_rank = None, jt_locationVersion = None,
                jt_classification = None, jt_observationVersion = None\<rparr>
          | _ \<Rightarrow> None))"

definition pending_join_project :: "resource_record \<Rightarrow> string option" where
  "pending_join_project record = map_option (int_projectId \<circ> jc_intent) (submitted_create record)"

definition followed_join :: "resource_record \<Rightarrow> string \<Rightarrow> string \<Rightarrow> bool" where
  "followed_join record requestedId documentId \<longleftrightarrow>
     res_documentId (rec_resource record) = documentId \<and>
     map_of (res_aliases (rec_resource record)) requestedId \<noteq> None"

text \<open>\<^verbatim>\<open>`${intentId}@${identityRevision}`\<close>; revisions are positive.\<close>

definition rebased_intent_id :: "string \<Rightarrow> int \<Rightarrow> string" where
  "rebased_intent_id intentId identityRevision =
     intentId @ ''@'' @ show_nat (nat identityRevision)"

definition put_alias :: "(string \<times> int) list \<Rightarrow> string \<Rightarrow> int \<Rightarrow> (string \<times> int) list" where
  "put_alias aliases k v =
     (if map_of aliases k = None then aliases @ [(k, v)]
      else map (\<lambda>(a, w). (a, if a = k then v else w)) aliases)"

definition join_dependents :: "resource_record \<Rightarrow> joined_create \<Rightarrow> namespace_intent list" where
  "join_dependents record create =
     filter (\<lambda>i. int_sequence i > int_sequence (jc_intent create) \<and>
       int_identityRevision i = res_identityRevision (rec_resource record) \<and>
       int_state i = Pending \<and> int_attempts i = []) (rec_intents record)"

definition join_allowed :: "resource_record \<Rightarrow> join_target \<Rightarrow> joined_create \<Rightarrow> bool" where
  "join_allowed record target create \<longleftrightarrow>
     res_lifecycle (rec_resource record) = LocalLife \<and> res_canonical (rec_resource record) = None \<and>
     (case res_content (rec_resource record) of ExactContent e \<Rightarrow> \<not> ec_reserved e | Unacquired \<Rightarrow> False) \<and>
     res_documentId (rec_resource record) = jc_requestedId create \<and>
     res_documentId (rec_resource record) \<noteq> jt_documentId target"

definition content_database :: "resource_content \<Rightarrow> string" where
  "content_database c = (case c of ExactContent e \<Rightarrow> ec_databaseName e | Unacquired \<Rightarrow> [])"

definition joined_resource ::
  "resource_descriptor \<Rightarrow> join_target \<Rightarrow> joined_create \<Rightarrow> resource_descriptor" where
  "joined_resource res target create =
     (let revision = res_identityRevision res + 1
      in (bumped res)
        \<lparr>res_documentId := jt_documentId target, res_identityRevision := revision,
         res_aliases := put_alias (res_aliases res) (res_documentId res) revision,
         res_serverHold := HeldHold, res_lifecycle := Acknowledged None,
         res_classification := (case jt_classification target of
            None \<Rightarrow> res_classification res | Some c \<Rightarrow> c),
         res_canonical := jt_location target,
         res_canonicalParent := (case jt_parent target of
            None \<Rightarrow> res_canonicalParent res | Some p \<Rightarrow> Some p),
         res_canonicalRank := (case jt_rank target of
            None \<Rightarrow> res_canonicalRank res | Some r \<Rightarrow> Some r),
         res_canonicalLocationVersion := (if jt_locationVersion target \<in> {None, Some []}
            then res_canonicalLocationVersion res else jt_locationVersion target),
         res_observationVersion := (if jt_observationVersion target \<in> {None, Some []}
            then res_observationVersion res else jt_observationVersion target),
         res_obligations := (res_obligations res)\<lparr>ob_createEligibility := None,
            ob_sessionAdoption := Some \<lparr>sa_transitionId = jc_attemptId create,
              sa_projectId = int_projectId (jc_intent create),
              sa_documentId = jt_documentId target, sa_identityRevision = revision,
              sa_exactDatabaseName = content_database (res_content res)\<rparr>\<rparr>\<rparr>)"

definition join_reservation ::
  "resource_record \<Rightarrow> join_target \<Rightarrow> int \<Rightarrow> resource_write option" where
  "join_reservation record target settledAt =
     (case submitted_create record of
        None \<Rightarrow> None
      | Some create \<Rightarrow>
          if \<not> join_allowed record target create then None
          else
            (let res = rec_resource record;
                 revision = res_identityRevision res + 1;
                 dependents = join_dependents record create;
                 top = foldl max (int_sequence (jc_intent create))
                         (map int_sequence (rec_intents record));
                 rebased = map (\<lambda>(k, i). i\<lparr>int_id := rebased_intent_id (int_id i) revision,
                     int_sequence := top + 1 + int k, int_identityRevision := revision\<rparr>)
                   (enumerate 0 dependents);
                 settled = (if jc_answered create = Some (jt_documentId target)
                   then settle_namespace_intent (rec_intents record) (jc_intent create)
                          AcceptedOutcome settledAt HeldHold
                   else rec_intents record)
             in Some (resource_update record (joined_resource res target create)
                  (map (\<lambda>i. if int_id i \<in> int_id ` set dependents then i\<lparr>int_state := Cancelled\<rparr>
                            else i) settled @ rebased))))"

section \<open>Settling a received outcome\<close>

text \<open>
  What the outcome does to the descriptor, and whether the intent needs repair. \<open>None\<close> waits for the
  app to follow a join.
\<close>

definition settle_create ::
  "resource_record \<Rightarrow> namespace_intent \<Rightarrow> namespace_attempt \<Rightarrow> create_answer \<Rightarrow> bool \<Rightarrow>
     (resource_descriptor \<times> bool) option result" where
  "settle_create record i attempt answer joinTaken =
     (let res = rec_resource record
      in case (answer, att_request attempt) of
           (CreateJoined documentId _, CreateRequest b) \<Rightarrow>
             if followed_join record (crb_documentId b) documentId then Inr (Some (res, False))
             else if \<not> joinTaken then Inr None
             else Inr (Some (res\<lparr>res_serverHold := SpentHold\<rparr>, True))
         | (CreateMade _ _ address, _) \<Rightarrow>
             if int_identityRevision i \<noteq> res_identityRevision res then Inr (Some (res, True))
             else (case res_content res of
                 ExactContent content \<Rightarrow>
                   if ec_reserved content
                   then Inl (Error ''Created resource content is not initialized'')
                   else Inr (Some (res\<lparr>
                     res_canonical := (case res_canonical res of
                        None \<Rightarrow> answer_location address | Some l \<Rightarrow> Some l),
                     res_lifecycle := (if res_lifecycle res = LocalLife then Acknowledged None
                        else res_lifecycle res),
                     res_obligations := (res_obligations res)\<lparr>ob_createEligibility := None,
                        ob_sessionAdoption := Some \<lparr>sa_transitionId = att_id attempt,
                          sa_projectId = int_projectId i, sa_documentId = res_documentId res,
                          sa_identityRevision = res_identityRevision res,
                          sa_exactDatabaseName = ec_databaseName content\<rparr>\<rparr>\<rparr>, False))
               | Unacquired \<Rightarrow> Inl (Error ''Created resource content is not initialized''))
         | _ \<Rightarrow> Inr (Some (res, True)))"

definition settle_receipt ::
  "resource_record \<Rightarrow> namespace_intent \<Rightarrow> namespace_attempt \<Rightarrow> operation_receipt \<Rightarrow>
     (resource_descriptor \<times> bool) result" where
  "settle_receipt record i attempt receipt =
     (let res = rec_resource record;
          matches = (int_identityRevision i = res_identityRevision res)
      in case (att_request attempt, rcpt_answer receipt) of
           (MoveRequest _ _, MoveAnswer _ (Inr _)) \<Rightarrow>
             if \<not> matches then Inr (res, True)
             else Inr (res\<lparr>res_obligations := (res_obligations res)\<lparr>ob_canonicalRefresh :=
               Some \<lparr>cr_operationId = rcpt_operationId receipt,
                 cr_identityRevision = int_identityRevision i,
                 cr_observationVersion = Some (rcpt_observationVersion receipt)\<rparr>\<rparr>\<rparr>, False)
         | (DeleteRequest _ _, DeleteAnswer _ (Inr v)) \<Rightarrow>
             if \<not> matches \<or> res_documentId res \<notin> set (dv_removed v) then Inr (res, True)
             else and_then (committed_resource_deletion res (dv_availabilityGeneration v)
                    (rcpt_operationId receipt) (rcpt_observationVersion receipt))
                  (\<lambda>res'. Inr (res', False))
         | _ \<Rightarrow> Inr (res, True))"

definition settle_effect ::
  "resource_record \<Rightarrow> namespace_intent \<Rightarrow> namespace_attempt \<Rightarrow> namespace_outcome \<Rightarrow> bool \<Rightarrow>
     (resource_descriptor \<times> bool) option result" where
  "settle_effect record i attempt outcome joinTaken =
     (if is_terminal (res_lifecycle (rec_resource record))
      then Inr (Some (rec_resource record, False))
      else case outcome of
          CreateOutcome answer \<Rightarrow> settle_create record i attempt answer joinTaken
        | OperationOutcome receipt \<Rightarrow>
            and_then (settle_receipt record i attempt receipt) (\<lambda>r. Inr (Some r))
        | _ \<Rightarrow> Inr (Some (rec_resource record, True)))"

definition settle_disposition :: "namespace_outcome \<Rightarrow> bool \<Rightarrow> bool \<Rightarrow> intent_outcome" where
  "settle_disposition outcome terminal repair =
     (let d = namespace_intent_outcome outcome terminal
      in if d = AcceptedOutcome \<and> repair then RefusedOutcome else d)"

definition settle_namespace_outcome ::
  "resource_record \<Rightarrow> int \<Rightarrow> bool \<Rightarrow> resource_write option result" where
  "settle_namespace_outcome record settledAt joinTaken =
     (case active_namespace_intent (rec_intents record) of
        None \<Rightarrow> Inr None
      | Some i \<Rightarrow> (case at_last (int_attempts i) of
            None \<Rightarrow> Inr None
          | Some attempt \<Rightarrow> (case att_outcome attempt of
                None \<Rightarrow> Inr None
              | Some outcome \<Rightarrow>
                  if int_state i \<noteq> Received then Inr None
                  else and_then (settle_effect record i attempt outcome joinTaken) (\<lambda>effect.
                    case effect of
                      None \<Rightarrow> Inr None
                    | Some (res, repair) \<Rightarrow>
                        Inr (Some (resource_update record
                          (res\<lparr>res_revision := res_revision (rec_resource record) + 1\<rparr>)
                          (settle_namespace_intent (rec_intents record) i
                            (settle_disposition outcome
                              (is_terminal (res_lifecycle (rec_resource record))) repair)
                            settledAt (res_serverHold res))))))))"

section \<open>The canonical refresh\<close>

definition has_owner :: "resource_owner \<Rightarrow> bool" where
  "has_owner w \<longleftrightarrow> w \<noteq> NoOwner"

definition install_canonical_refresh ::
  "resource_record \<Rightarrow> string \<Rightarrow> available_identity \<Rightarrow> resource_write option result" where
  "install_canonical_refresh record operationId av =
     (let res = rec_resource record
      in case ob_canonicalRefresh (res_obligations res) of
           None \<Rightarrow> Inr None
         | Some obligation \<Rightarrow>
             if cr_operationId obligation \<noteq> operationId \<or> is_terminal (res_lifecycle res) \<or>
                cr_identityRevision obligation \<noteq> res_identityRevision res
             then Inr None
             else and_then (canonical_refresh_observation (av_observationVersion av)
                    (res_observationVersion res) (cr_observationVersion obligation)) (\<lambda>obs.
               if \<not> newer obs \<and> \<not> completes obs then Inr None
               else throw_when (is_owned_context_scheme (loc_scheme (av_location av)) \<noteq>
                    has_owner (loc_owner (av_location av)))
                  ''Canonical observation has incomplete owner authority''
                 (let located = (if newer obs
                        then (bumped res)\<lparr>res_canonical := Some (av_location av),
                            res_canonicalParent := Some (av_parent av),
                            res_canonicalRank := av_rank av,
                            res_canonicalLocationVersion := av_locationVersion av,
                            res_observationVersion := Some (av_observationVersion av)\<rparr>
                        else bumped res)
                  in Inr (Some (resource_update record
                       (if completes obs
                        then located\<lparr>res_obligations :=
                          (res_obligations res)\<lparr>ob_canonicalRefresh := None\<rparr>\<rparr>
                        else located)
                       (rec_intents record))))))"

definition install_namespace_availability ::
  "resource_record \<Rightarrow> string \<Rightarrow> identity_availability \<Rightarrow> resource_write option result" where
  "install_namespace_availability record operationId availability =
     (let res = rec_resource record
      in if map_option cr_operationId (ob_canonicalRefresh (res_obligations res)) \<noteq> Some operationId
         then Inr None
         else (case availability of
             Available av \<Rightarrow> install_canonical_refresh record operationId av
           | _ \<Rightarrow> Inr (Some (resource_update record
               ((bumped res)\<lparr>res_obligations := (res_obligations res)\<lparr>ob_canonicalRefresh := None\<rparr>\<rparr>)
               (resolve_unavailable_namespace (rec_intents record)
                 (is_terminal (res_lifecycle res)))))))"

definition replay_eligible :: "resource_record \<Rightarrow> namespace_intent \<Rightarrow> namespace_attempt \<Rightarrow> bool" where
  "replay_eligible record i attempt =
     (let res = rec_resource record
      in if is_terminal (res_lifecycle res) then False
         else case att_request attempt of
             CreateRequest b \<Rightarrow>
               (crb_documentId b = res_documentId res \<and>
                int_identityRevision i = res_identityRevision res) \<or>
               map_of (res_aliases res) (crb_documentId b) \<noteq> None
           | CreateFolderRequest _ _ \<Rightarrow> False
           | CopyRequest _ _ \<Rightarrow> False
           | _ \<Rightarrow> int_identityRevision i = res_identityRevision res)"

end
