(* ===== verification/Namespace_Replay.thy ===== *)
theory Namespace_Replay
  imports Resource_Namespace Placement_Journal
begin

text \<open>
  One pass of \<^verbatim>\<open>reconcileNamespaceJournal\<close> (\<^verbatim>\<open>resource-namespace.ts\<close>), the loop documents, folders
  and operations replay their journals with. Everything it awaits is a parameter: the transport, the
  lock, the gate and the decisions of the kind of record. Other tabs and actors may change the stored
  record before every access of the pass: \<open>w_others\<close> lists what they do, so a statement about every
  such list is a statement about every interleaving.
\<close>

section \<open>The world of a pass\<close>

datatype reconcile_result = Idle | Progressed | RepairNeeded | Blocked | JoinNeeded | Uncertain

text \<open>What a pass did, in order; requests are named by the attempt they ride.\<close>

datatype 'r event =
    ReadStored "'r option"
  | AskedOutcome string string namespace_request
  | Dispatched string string namespace_request
  | Wrote 'r

record 'r world =
  w_stored :: "'r option"
  w_others :: "('r option \<Rightarrow> 'r option) list"
  w_log :: "'r event list"

text \<open>
  The callbacks of \<open>input\<close>. What they await may answer differently each time, so they are given the
  history of the pass.
\<close>

record ('r, 'wr) namespace_journal =
  nj_accounts :: "string \<times> string \<times> string"
  nj_intents :: "'r \<Rightarrow> namespace_intent list"
  nj_next :: "'wr \<Rightarrow> 'r"
  nj_commit :: "'r option \<Rightarrow> 'wr \<Rightarrow> 'r option result"
  nj_newAttemptIds :: "'r event list \<Rightarrow> attempt_ids"
  nj_gate :: "('r event list \<Rightarrow> namespace_intent \<Rightarrow> placement_verdict) option"
  nj_prepare :: "'r event list \<Rightarrow> 'r \<Rightarrow> attempt_ids \<Rightarrow> 'wr option result"
  nj_repair :: "'r \<Rightarrow> string \<Rightarrow> 'wr result"
  nj_recordOutcome :: "'r \<Rightarrow> string \<Rightarrow> string \<Rightarrow> namespace_outcome \<Rightarrow> 'wr option result"
  nj_settle :: "'r \<Rightarrow> 'wr option result"
  nj_pendingJoin :: "'r \<Rightarrow> bool"
  nj_refresh :: "'r event list \<Rightarrow> 'r \<Rightarrow> 'wr option result"
  nj_replayEligible :: "'r \<Rightarrow> namespace_intent \<Rightarrow> namespace_attempt \<Rightarrow> bool"
  nj_lockFree :: "'r event list \<Rightarrow> bool"
  nj_readOutcome :: "'r event list \<Rightarrow> string \<Rightarrow> namespace_request \<Rightarrow> namespace_outcome option result"
  nj_submit :: "'r event list \<Rightarrow> string \<Rightarrow> namespace_request \<Rightarrow> namespace_outcome option result"

record captured_outcome =
  cap_intentId :: string
  cap_attemptId :: string
  cap_outcome :: namespace_outcome

datatype turn = Finished reconcile_result | Again "captured_outcome option"

definition others_act :: "'r world \<Rightarrow> 'r world" where
  "others_act w = (case w_others w of
     [] \<Rightarrow> w
   | f # fs \<Rightarrow> w\<lparr>w_stored := f (w_stored w), w_others := fs\<rparr>)"

definition log_event :: "'r event \<Rightarrow> 'r world \<Rightarrow> 'r world" where
  "log_event e w = w\<lparr>w_log := w_log w @ [e]\<rparr>"

definition read_stored :: "'r world \<Rightarrow> 'r option \<times> 'r world" where
  "read_stored w =
     (let w' = others_act w in (w_stored w', log_event (ReadStored (w_stored w')) w'))"

text \<open>
  A commit either lands or is stale; a stale one always repeats the loop with what was captured.
\<close>

definition commit_then ::
  "('r, 'wr) namespace_journal \<Rightarrow> 'wr \<Rightarrow> captured_outcome option \<Rightarrow> turn \<Rightarrow> 'r world \<Rightarrow>
     turn result \<times> 'r world" where
  "commit_then nj write captured after w =
     (let w' = others_act w
      in case nj_commit nj (w_stored w') write of
           Inl e \<Rightarrow> (Inl e, w')
         | Inr None \<Rightarrow> (Inr (Again captured), w')
         | Inr (Some r) \<Rightarrow> (Inr after, log_event (Wrote r) (w'\<lparr>w_stored := Some r\<rparr>)))"

definition left_for_repair :: "namespace_intent list \<Rightarrow> string \<Rightarrow> bool" where
  "left_for_repair intents intentId \<longleftrightarrow>
     map_option int_state (find (\<lambda>i. int_id i = intentId) intents) = Some NeedsRepair"

section \<open>The turns of the loop\<close>

definition pending_turn ::
  "('r, 'wr) namespace_journal \<Rightarrow> captured_outcome option \<Rightarrow> 'r \<Rightarrow> namespace_intent \<Rightarrow> 'r world \<Rightarrow>
     turn result \<times> 'r world" where
  "pending_turn nj captured r i w =
     (let verdict = (case nj_gate nj of None \<Rightarrow> Go | Some g \<Rightarrow> g (w_log w) i)
      in if verdict = Wait then (Inr (Finished Blocked), w)
         else
           (case (if verdict = Repair then and_then (nj_repair nj r (int_id i)) (\<lambda>write. Inr (Some write))
                  else nj_prepare nj (w_log w) r (nj_newAttemptIds nj (w_log w))) of
              Inl e \<Rightarrow> (Inl e, w)
            | Inr None \<Rightarrow> (Inr (Finished Blocked), w)
            | Inr (Some write) \<Rightarrow> commit_then nj write captured
                (if left_for_repair (nj_intents nj (nj_next nj write)) (int_id i)
                 then Finished RepairNeeded else Again captured) w))"

definition received_turn ::
  "('r, 'wr) namespace_journal \<Rightarrow> captured_outcome option \<Rightarrow> 'r \<Rightarrow> namespace_intent \<Rightarrow> 'r world \<Rightarrow>
     turn result \<times> 'r world" where
  "received_turn nj captured r i w =
     (case nj_settle nj r of
        Inl e \<Rightarrow> (Inl e, w)
      | Inr None \<Rightarrow> (Inr (Finished (if nj_pendingJoin nj r then JoinNeeded else Idle)), w)
      | Inr (Some write) \<Rightarrow> commit_then nj write captured
          (Finished (if left_for_repair (nj_intents nj (nj_next nj write)) (int_id i)
             then RepairNeeded else Progressed)) w)"

text \<open>Under the lock the record is read again, and only the attempt still current is sent.\<close>

definition still_current ::
  "('r, 'wr) namespace_journal \<Rightarrow> namespace_intent \<Rightarrow> namespace_attempt \<Rightarrow> 'r option \<Rightarrow>
     (namespace_intent \<times> namespace_attempt) option" where
  "still_current nj i a current =
     (case current of
        None \<Rightarrow> None
      | Some r \<Rightarrow> (case active_namespace_intent (nj_intents nj r) of
            None \<Rightarrow> None
          | Some j \<Rightarrow> (case at_last (int_attempts j) of
                None \<Rightarrow> None
              | Some b \<Rightarrow>
                  if int_id j \<noteq> int_id i \<or> att_id b \<noteq> att_id a \<or> int_state j \<noteq> Submitted \<or>
                     \<not> nj_replayEligible nj r j b
                  then None else Some (j, b))))"

definition locked_dispatch ::
  "('r, 'wr) namespace_journal \<Rightarrow> namespace_intent \<Rightarrow> namespace_attempt \<Rightarrow> 'r world \<Rightarrow>
     namespace_outcome option result \<times> 'r world" where
  "locked_dispatch nj i a w =
     (let asked = log_event (AskedOutcome (att_id a) (int_projectId i) (att_request a)) w
      in case nj_readOutcome nj (w_log w) (int_projectId i) (att_request a) of
           Inl e \<Rightarrow> (Inl e, asked)
         | Inr (Some out) \<Rightarrow> (Inr (Some out), asked)
         | Inr None \<Rightarrow>
             (let (current, w') = read_stored asked
              in case still_current nj i a current of
                   None \<Rightarrow> (Inr None, w')
                 | Some (j, b) \<Rightarrow>
                     (nj_submit nj (w_log w') (int_projectId j) (att_request b),
                      log_event (Dispatched (att_id b) (int_projectId j) (att_request b)) w')))"

definition record_turn ::
  "('r, 'wr) namespace_journal \<Rightarrow> captured_outcome \<Rightarrow> 'r \<Rightarrow> namespace_intent \<Rightarrow>
     namespace_attempt \<Rightarrow> 'r world \<Rightarrow> turn result \<times> 'r world" where
  "record_turn nj captured r i a w =
     (if int_id i \<noteq> cap_intentId captured \<or> att_id a \<noteq> cap_attemptId captured
      then (Inr (Finished Progressed), w)
      else case nj_recordOutcome nj r (cap_intentId captured) (cap_attemptId captured)
             (cap_outcome captured) of
          Inl e \<Rightarrow> (Inl e, w)
        | Inr None \<Rightarrow> (Inr (Again (Some captured)), w)
        | Inr (Some write) \<Rightarrow>
            commit_then nj write (Some captured) (Again (Some captured)) w)"

definition submitted_turn ::
  "('r, 'wr) namespace_journal \<Rightarrow> captured_outcome option \<Rightarrow> 'r \<Rightarrow> namespace_intent \<Rightarrow> 'r world \<Rightarrow>
     turn result \<times> 'r world" where
  "submitted_turn nj captured r i w =
     (case at_last (int_attempts i) of
        None \<Rightarrow> (Inl (Error ''Submitted intention has no attempt''), w)
      | Some a \<Rightarrow> (case captured of
            Some c \<Rightarrow> record_turn nj c r i a w
          | None \<Rightarrow>
              if \<not> nj_lockFree nj (w_log w) then (Inr (Finished Blocked), w)
              else (case locked_dispatch nj i a w of
                  (Inl e, w') \<Rightarrow> (Inl e, w')
                | (Inr None, w') \<Rightarrow> (Inr (Finished Uncertain), w')
                | (Inr (Some out), w') \<Rightarrow> record_turn nj
                    \<lparr>cap_intentId = int_id i, cap_attemptId = att_id a, cap_outcome = out\<rparr> r i a w')))"

definition reconcile_turn ::
  "('r, 'wr) namespace_journal \<Rightarrow> captured_outcome option \<Rightarrow> 'r world \<Rightarrow> turn result \<times> 'r world" where
  "reconcile_turn nj captured w =
     (let (stored, w') = read_stored w
      in case stored of
           None \<Rightarrow> (Inr (Finished Idle), w')
         | Some r \<Rightarrow> (case nj_refresh nj (w_log w') r of
               Inl e \<Rightarrow> (Inl e, w')
             | Inr (Some write) \<Rightarrow> commit_then nj write captured (Finished Progressed) w'
             | Inr None \<Rightarrow> (case active_namespace_intent (nj_intents nj r) of
                   None \<Rightarrow> (Inr (Finished Idle), w')
                 | Some i \<Rightarrow> (case int_state i of
                       NeedsRepair \<Rightarrow> (Inr (Finished RepairNeeded), w')
                     | Pending \<Rightarrow> pending_turn nj captured r i w'
                     | Received \<Rightarrow> received_turn nj captured r i w'
                     | Submitted \<Rightarrow> submitted_turn nj captured r i w'
                     | _ \<Rightarrow> (Inr (Finished Idle), w')))))"

text \<open>The loop has no bound of its own: it repeats while commits are stale. Fuel counts its turns.\<close>

fun reconcile_loop ::
  "nat \<Rightarrow> ('r, 'wr) namespace_journal \<Rightarrow> captured_outcome option \<Rightarrow> 'r world \<Rightarrow>
     reconcile_result option result \<times> 'r world" where
  "reconcile_loop 0 nj captured w = (Inr None, w)"
| "reconcile_loop (Suc fuel) nj captured w =
     (case reconcile_turn nj captured w of
        (Inl e, w') \<Rightarrow> (Inl e, w')
      | (Inr (Finished res), w') \<Rightarrow> (Inr (Some res), w')
      | (Inr (Again c), w') \<Rightarrow> reconcile_loop fuel nj c w')"

definition reconcile_namespace_journal ::
  "nat \<Rightarrow> ('r, 'wr) namespace_journal \<Rightarrow> 'r world \<Rightarrow>
     reconcile_result option result \<times> 'r world" where
  "reconcile_namespace_journal fuel nj w =
     (case nj_accounts nj of (metadata, transport, lock) \<Rightarrow>
        if metadata \<noteq> transport \<or> metadata \<noteq> lock
        then (Inl (Error ''Resource namespace account mismatch''), w)
        else reconcile_loop fuel nj None w)"

section \<open>What a pass sends\<close>

fun is_dispatch :: "'r event \<Rightarrow> bool" where
  "is_dispatch (Dispatched _ _ _) = True"
| "is_dispatch _ = False"

text \<open>
  A dispatch follows, with nothing in between, a question about the outcome of the same attempt and
  a read of the record that still holds it as the last, unanswered, replayable attempt.
\<close>

definition current_attempt ::
  "('r, 'wr) namespace_journal \<Rightarrow> 'r \<Rightarrow> string \<Rightarrow> string \<Rightarrow> namespace_request \<Rightarrow> bool" where
  "current_attempt nj r attemptId projectId request \<longleftrightarrow>
     (\<exists>j b. active_namespace_intent (nj_intents nj r) = Some j \<and> int_state j = Submitted \<and>
        at_last (int_attempts j) = Some b \<and> att_id b = attemptId \<and> att_request b = request \<and>
        int_projectId j = projectId \<and> nj_replayEligible nj r j b)"

definition dispatches_guarded :: "('r, 'wr) namespace_journal \<Rightarrow> 'r event list \<Rightarrow> bool" where
  "dispatches_guarded nj es \<longleftrightarrow>
     (\<forall>before t project request after'. es = before @ Dispatched t project request # after' \<longrightarrow>
        (\<exists>earlier p q r. before = earlier @ [AskedOutcome t p q, ReadStored (Some r)] \<and>
           current_attempt nj r t project request))"

text \<open>Where the element of a split of \<open>xs @ ys\<close> stands.\<close>

lemma append_eq_split:
  assumes "xs @ ys = before @ e # after'"
  shows "(\<exists>vs. xs = before @ e # vs) \<or> (\<exists>vs. before = xs @ vs \<and> ys = vs @ e # after')"
proof -
  from assms obtain us where "xs = before @ us \<and> us @ ys = e # after' \<or> xs @ us = before \<and> ys = us @ e # after'"
    unfolding append_eq_append_conv2 by blast
  then show ?thesis by (cases us) auto
qed

lemma guarded_append:
  assumes "dispatches_guarded nj xs" and "dispatches_guarded nj ys"
  shows "dispatches_guarded nj (xs @ ys)"
  unfolding dispatches_guarded_def
proof (intro allI impI)
  fix before t project request after'
  assume "xs @ ys = before @ Dispatched t project request # after'"
  from append_eq_split [OF this]
  show "\<exists>earlier p q r. before = earlier @ [AskedOutcome t p q, ReadStored (Some r)] \<and>
       current_attempt nj r t project request"
  proof
    assume "\<exists>vs. xs = before @ Dispatched t project request # vs"
    with assms(1) show ?thesis by (auto simp: dispatches_guarded_def)
  next
    assume "\<exists>vs. before = xs @ vs \<and> ys = vs @ Dispatched t project request # after'"
    then obtain vs where vs: "before = xs @ vs" "ys = vs @ Dispatched t project request # after'" by blast
    with assms(2) obtain earlier p q r where
      "vs = earlier @ [AskedOutcome t p q, ReadStored (Some r)]"
      "current_attempt nj r t project request"
      unfolding dispatches_guarded_def by blast
    with vs(1) show ?thesis by (intro exI [of _ "xs @ earlier"]) auto
  qed
qed

lemma guarded_quiet: "\<forall>e \<in> set es. \<not> is_dispatch e \<Longrightarrow> dispatches_guarded nj es"
  by (force simp: dispatches_guarded_def)

text \<open>One stretch of a pass: what it logged, and whether it sent something.\<close>

definition stretch :: "('r, 'wr) namespace_journal \<Rightarrow> 'r world \<Rightarrow> 'r world \<Rightarrow> nat \<Rightarrow> bool" where
  "stretch nj w w' n \<longleftrightarrow> (\<exists>es. w_log w' = w_log w @ es \<and> dispatches_guarded nj es \<and>
     length (filter is_dispatch es) \<le> n)"

lemma stretch_refl: "stretch nj w w 0"
  by (auto simp: stretch_def dispatches_guarded_def)

lemma stretch_trans:
  assumes "stretch nj w w' m" and "stretch nj w' w'' n"
  shows "stretch nj w w'' (m + n)"
proof -
  from assms obtain xs ys where
    x: "w_log w' = w_log w @ xs" "dispatches_guarded nj xs" "length (filter is_dispatch xs) \<le> m"
    and y: "w_log w'' = w_log w' @ ys" "dispatches_guarded nj ys" "length (filter is_dispatch ys) \<le> n"
    by (auto simp: stretch_def)
  then show ?thesis
    unfolding stretch_def by (intro exI [of _ "xs @ ys"]) (simp add: guarded_append)
qed

lemma stretch_quiet:
  "w_log w' = w_log w @ es \<Longrightarrow> \<forall>e \<in> set es. \<not> is_dispatch e \<Longrightarrow> stretch nj w w' 0"
  unfolding stretch_def by (intro exI [of _ es]) (simp add: guarded_quiet filter_empty_conv)

lemma others_log [simp]: "w_log (others_act w) = w_log w"
  by (simp add: others_act_def split: list.split)

lemma stretch_read: "stretch nj w (snd (read_stored w)) 0"
  by (rule stretch_quiet [of _ _ "[ReadStored (w_stored (others_act w))]"])
     (simp_all add: read_stored_def log_event_def Let_def)

lemma stretch_commit: "stretch nj w (snd (commit_then nj write c t w)) 0"
proof (cases "\<exists>r. nj_commit nj (w_stored (others_act w)) write = Inr (Some r)")
  case True
  then obtain r where "nj_commit nj (w_stored (others_act w)) write = Inr (Some r)" by blast
  then show ?thesis
    by (intro stretch_quiet [of _ _ "[Wrote r]"])
       (simp_all add: commit_then_def log_event_def Let_def)
next
  case False
  then have "w_log (snd (commit_then nj write c t w)) = w_log w"
    by (auto simp: commit_then_def Let_def split: sum.splits option.splits)
  then show ?thesis by (intro stretch_quiet [of _ _ "[]"]) simp_all
qed

lemma stretch_record: "stretch nj w (snd (record_turn nj c r i a w)) 0"
  by (auto simp: record_turn_def stretch_refl stretch_commit split: sum.splits option.splits)

lemma stretch_pending: "stretch nj w (snd (pending_turn nj c r i w)) 0"
  by (auto simp: pending_turn_def stretch_refl stretch_commit Let_def
      split: sum.splits option.splits if_splits)

lemma stretch_received: "stretch nj w (snd (received_turn nj c r i w)) 0"
  by (auto simp: received_turn_def stretch_refl stretch_commit Let_def
      split: sum.splits option.splits)

lemma still_current_attempt:
  assumes "still_current nj i a current = Some (j, b)"
  shows "att_id b = att_id a \<and> (\<exists>r. current = Some r \<and>
    current_attempt nj r (att_id b) (int_projectId j) (att_request b))"
  using assms
  by (auto simp: still_current_def current_attempt_def split: option.splits if_splits)

lemma stretch_dispatch: "stretch nj w (snd (locked_dispatch nj i a w)) 1"
proof -
  let ?ask = "AskedOutcome (att_id a) (int_projectId i) (att_request a)"
  let ?asked = "log_event ?ask w"
  have q: "stretch nj w ?asked 0"
    by (rule stretch_quiet [of _ _ "[?ask]"]) (simp_all add: log_event_def)
  show ?thesis
  proof (cases "nj_readOutcome nj (w_log w) (int_projectId i) (att_request a) = Inr None")
    case False
    then have "snd (locked_dispatch nj i a w) = ?asked"
      by (auto simp: locked_dispatch_def Let_def split: sum.splits option.splits)
    with stretch_trans [OF q stretch_refl] show ?thesis by (auto simp: stretch_def)
  next
    case True
    let ?current = "w_stored (others_act ?asked)"
    show ?thesis
    proof (cases "still_current nj i a ?current")
      case None
      with True have "snd (locked_dispatch nj i a w) = snd (read_stored ?asked)"
        by (simp add: locked_dispatch_def read_stored_def Let_def)
      with stretch_trans [OF q stretch_read] show ?thesis by (auto simp: stretch_def)
    next
      case (Some jb)
      obtain j b where jb: "jb = (j, b)" by (cases jb)
      note c = still_current_attempt [OF Some [unfolded jb]]
      let ?es = "[?ask, ReadStored ?current, Dispatched (att_id b) (int_projectId j) (att_request b)]"
      have "w_log (snd (locked_dispatch nj i a w)) = w_log w @ ?es"
        using True Some jb by (simp add: locked_dispatch_def read_stored_def log_event_def Let_def)
      moreover have "dispatches_guarded nj ?es"
        using c by (auto simp: dispatches_guarded_def Cons_eq_append_conv)
      ultimately show ?thesis unfolding stretch_def by (intro exI [of _ ?es]) simp
    qed
  qed
qed

text \<open>A turn sends at most once, and not at all once an outcome is captured or when it captures none.\<close>

lemma stretch_weaken: "stretch nj w w' m \<Longrightarrow> m \<le> n \<Longrightarrow> stretch nj w w' n"
  by (auto simp: stretch_def)

lemma stretch_submitted:
  assumes "submitted_turn nj captured r i w = (res, w')"
  shows "stretch nj w w' (if captured = None then 1 else 0) \<and>
     (res = Inr (Again c) \<longrightarrow> c \<noteq> None)"
proof (cases "at_last (int_attempts i)")
  case None
  with assms show ?thesis
    by (auto simp: submitted_turn_def intro: stretch_weaken [OF stretch_refl])
next
  case (Some a)
  have again: "fst (record_turn nj d r i a v) = Inr (Again c) \<Longrightarrow> c \<noteq> None" for d v
    by (auto simp: record_turn_def commit_then_def Let_def split: if_splits sum.splits option.splits)
  show ?thesis
  proof (cases captured)
    case (Some d)
    with \<open>at_last (int_attempts i) = Some a\<close> assms have "(res, w') = record_turn nj d r i a w"
      by (simp add: submitted_turn_def)
    with Some again [of d w] stretch_record [of nj w d r i a] show ?thesis
      by (metis fst_conv snd_conv option.distinct(1))
  next
    case None
    show ?thesis
    proof (cases "nj_lockFree nj (w_log w)")
      case False
      with Some None assms show ?thesis
        by (auto simp: submitted_turn_def intro: stretch_weaken [OF stretch_refl])
    next
      case True
      obtain got v where d: "locked_dispatch nj i a w = (got, v)" by (cases "locked_dispatch nj i a w")
      note s = stretch_dispatch [of nj w i a, unfolded d snd_conv]
      show ?thesis
      proof (cases "\<exists>out. got = Inr (Some out)")
        case False
        with Some None True d assms s show ?thesis
          by (auto simp: submitted_turn_def split: sum.splits option.splits)
      next
        case True
        then obtain out where out: "got = Inr (Some out)" by blast
        let ?cap = "\<lparr>cap_intentId = int_id i, cap_attemptId = att_id a, cap_outcome = out\<rparr>"
        have t: "(res, w') = record_turn nj ?cap r i a v"
          using Some None \<open>nj_lockFree nj (w_log w)\<close> d out assms by (simp add: submitted_turn_def)
        have "stretch nj v w' 0"
          using stretch_record [of nj v ?cap r i a] by (simp add: t [symmetric])
        with stretch_trans [OF s] have "stretch nj w w' 1" by fastforce
        with None again [of ?cap v] show ?thesis by (simp add: t [symmetric])
      qed
    qed
  qed
qed

lemma stretch_turn:
  assumes "reconcile_turn nj captured w = (res, w')"
  shows "stretch nj w w' (if captured = None then 1 else 0) \<and>
     (res = Inr (Again None) \<longrightarrow> stretch nj w w' 0) \<and>
     (captured \<noteq> None \<longrightarrow> res \<noteq> Inr (Again None))"
proof -
  let ?n = "if captured = None then 1 else 0 :: nat"
  obtain stored v where rd: "read_stored w = (stored, v)" by (cases "read_stored w")
  note s = stretch_read [of nj w, unfolded rd snd_conv]
  have plain: "stretch nj w w' 0" if "stretch nj v w' 0"
    using stretch_trans [OF s that] by simp
  have c0: "stretch nj x (snd (commit_then nj wr d t x)) 0" for wr d t x by (rule stretch_commit)
  show ?thesis
  proof (cases "\<exists>r i. stored = Some r \<and> nj_refresh nj (w_log v) r = Inr None \<and>
      active_namespace_intent (nj_intents nj r) = Some i \<and> int_state i = Submitted")
    case True
    then obtain r i where r: "stored = Some r" "nj_refresh nj (w_log v) r = Inr None"
      "active_namespace_intent (nj_intents nj r) = Some i" "int_state i = Submitted" by blast
    then have t: "submitted_turn nj captured r i v = (res, w')"
      using assms rd by (simp add: reconcile_turn_def)
    have "stretch nj v w' ?n" and n: "res \<noteq> Inr (Again None)"
      using stretch_submitted [OF t] by blast+
    with stretch_trans [OF s, of w' ?n] show ?thesis by simp
  next
    case False
    have again: "fst (commit_then nj wr captured t x) \<noteq> Inr (Again None)"
      if "captured \<noteq> None" and "t \<noteq> Again None" for wr t x
      using that by (auto simp: commit_then_def Let_def split: sum.splits option.splits)
    have "stretch nj v w' 0 \<and> (captured \<noteq> None \<longrightarrow> res \<noteq> Inr (Again None))"
    proof (cases stored)
      case None
      with assms rd show ?thesis by (auto simp: reconcile_turn_def stretch_refl)
    next
      case (Some r)
      show ?thesis
      proof (cases "nj_refresh nj (w_log v) r")
        case (Inl e)
        with assms rd Some show ?thesis by (auto simp: reconcile_turn_def stretch_refl)
      next
        case (Inr refreshed)
        show ?thesis
        proof (cases refreshed)
          case (Some wr)
          with assms rd \<open>stored = Some r\<close> Inr
          have "(res, w') = commit_then nj wr captured (Finished Progressed) v"
            by (simp add: reconcile_turn_def)
          with c0 [of v wr captured "Finished Progressed"] again [of "Finished Progressed" wr v]
          show ?thesis by (metis fst_conv snd_conv turn.distinct(1))
        next
          case None
          note here = assms rd \<open>stored = Some r\<close> Inr None
          show ?thesis
          proof (cases "active_namespace_intent (nj_intents nj r)")
            case None
            with here show ?thesis by (auto simp: reconcile_turn_def stretch_refl)
          next
            case (Some i)
            have ns: "int_state i \<noteq> Submitted" using False here Some by auto
            have p: "fst (pending_turn nj captured r i v) \<noteq> Inr (Again None)" if "captured \<noteq> None"
              using again [OF that] that
              by (auto simp: pending_turn_def Let_def split: sum.splits option.splits)
            have q: "fst (received_turn nj captured r i v) \<noteq> Inr (Again None)" if "captured \<noteq> None"
              using again [OF that] that
              by (auto simp: received_turn_def Let_def split: sum.splits option.splits)
            show ?thesis
              using here Some ns p q stretch_pending [of nj v captured r i]
                stretch_received [of nj v captured r i] stretch_refl [of nj v]
              by (auto simp: reconcile_turn_def split: intent_state.splits)
          qed
        qed
      qed
    qed
    with plain show ?thesis by (auto intro: stretch_weaken)
  qed
qed

lemma stretch_loop:
  assumes "reconcile_loop fuel nj captured w = (res, w')"
  shows "stretch nj w w' (if captured = None then 1 else 0)"
  using assms
proof (induction fuel arbitrary: captured w)
  case 0
  then show ?case by (auto intro: stretch_weaken [OF stretch_refl])
next
  case (Suc fuel)
  obtain t v where tv: "reconcile_turn nj captured w = (t, v)" by (cases "reconcile_turn nj captured w")
  note s = stretch_turn [OF tv]
  show ?case
  proof (cases "\<exists>c. t = Inr (Again c)")
    case False
    with Suc.prems tv s show ?thesis by (auto split: sum.splits turn.splits)
  next
    case True
    then obtain c where c: "t = Inr (Again c)" by blast
    then have "reconcile_loop fuel nj c v = (res, w')" using Suc.prems tv by simp
    note ih = Suc.IH [OF this]
    show ?thesis
    proof (cases c)
      case None
      with c s ih stretch_trans [of nj w v 0 w' 1] show ?thesis by auto
    next
      case (Some d)
      with s ih stretch_trans [of nj w v _ w' 0] show ?thesis by auto
    qed
  qed
qed

section \<open>What every turn keeps\<close>

text \<open>A fact about the world that other actors, the log and landed commits keep is kept by a pass.\<close>

definition keeps :: "('r, 'wr) namespace_journal \<Rightarrow> ('r world \<Rightarrow> bool) \<Rightarrow> bool" where
  "keeps nj P \<longleftrightarrow> (\<forall>w. P w \<longrightarrow> P (others_act w)) \<and> (\<forall>w e. P w \<longrightarrow> P (log_event e w)) \<and>
     (\<forall>w x r. P w \<longrightarrow> nj_commit nj (w_stored w) x = Inr (Some r) \<longrightarrow>
        P (w\<lparr>w_stored := Some r\<rparr>))"

lemma kept_read: "keeps nj P \<Longrightarrow> P w \<Longrightarrow> P (snd (read_stored w))"
  by (auto simp: keeps_def read_stored_def Let_def)

lemma kept_commit: "keeps nj P \<Longrightarrow> P w \<Longrightarrow> P (snd (commit_then nj x c t w))"
  by (auto simp: keeps_def commit_then_def Let_def split: sum.split option.split)

lemma kept_dispatch: "keeps nj P \<Longrightarrow> P w \<Longrightarrow> P (snd (locked_dispatch nj i a w))"
  by (auto simp: keeps_def locked_dispatch_def read_stored_def Let_def split: sum.split option.split)

lemma kept_record: "keeps nj P \<Longrightarrow> P w \<Longrightarrow> P (snd (record_turn nj c r i a w))"
  by (auto simp: record_turn_def kept_commit split: sum.splits option.splits)

lemma kept_pending: "keeps nj P \<Longrightarrow> P w \<Longrightarrow> P (snd (pending_turn nj c r i w))"
  by (auto simp: pending_turn_def kept_commit Let_def split: sum.splits option.splits if_splits)

lemma kept_received: "keeps nj P \<Longrightarrow> P w \<Longrightarrow> P (snd (received_turn nj c r i w))"
  by (auto simp: received_turn_def kept_commit Let_def split: sum.splits option.splits)

lemma kept_submitted:
  assumes "keeps nj P" and "P w"
  shows "P (snd (submitted_turn nj c r i w))"
proof -
  have d: "locked_dispatch nj i a w = (got, v) \<Longrightarrow> P v" for a got v
    using kept_dispatch [OF assms, of i a] by simp
  have "locked_dispatch nj i a w = (got, v) \<Longrightarrow> P (snd (record_turn nj e r i a v))" for a got v e
    by (rule kept_record [OF assms(1) d])
  with d show ?thesis
    by (simp add: submitted_turn_def assms kept_record split: sum.split option.split prod.split)
qed

lemma kept_after_read:
  assumes "keeps nj P" and "read_stored w = (stored, v)" and "P v"
  shows "P (snd (reconcile_turn nj c w))"
  using assms
  by (auto simp: reconcile_turn_def kept_commit kept_pending kept_received kept_submitted
      split: option.split sum.split intent_state.split)

lemma kept_turn: "keeps nj P \<Longrightarrow> P w \<Longrightarrow> P (snd (reconcile_turn nj c w))"
  by (cases "read_stored w") (metis kept_after_read kept_read snd_conv)

lemma kept_loop: "keeps nj P \<Longrightarrow> P w \<Longrightarrow> P (snd (reconcile_loop fuel nj c w))"
proof (induction fuel arbitrary: c w)
  case (Suc fuel)
  obtain t v where tv: "reconcile_turn nj c w = (t, v)" by (cases "reconcile_turn nj c w")
  with kept_turn [OF Suc.prems, of c] have "P v" by simp
  with Suc.IH [OF Suc.prems(1)] tv show ?case by (auto split: sum.split turn.split)
qed simp

theorem pass_keeps: "keeps nj P \<Longrightarrow> P w \<Longrightarrow> P (snd (reconcile_namespace_journal fuel nj w))"
  using kept_loop by (auto simp: reconcile_namespace_journal_def split: prod.split)

section \<open>When a pass ends\<close>

text \<open>
  What each kind of record promises the loop: its writes are over the record read, so they are never
  stale while nobody else writes, and each one moves the active intent on. \<open>sound\<close> holds of every
  record the store accepts.
\<close>

definition progress_rank :: "namespace_intent list \<Rightarrow> nat" where
  "progress_rank intents = (case active_namespace_intent intents of
     None \<Rightarrow> 0
   | Some i \<Rightarrow> (case int_state i of Pending \<Rightarrow> 3 | Submitted \<Rightarrow> 2 | Received \<Rightarrow> 1 | _ \<Rightarrow> 0))"

lemma progress_rank_le: "progress_rank J \<le> 3"
  by (simp add: progress_rank_def split: option.split intent_state.split)

locale namespace_replay =
  fixes nj :: "('r, 'wr) namespace_journal"
    and sound :: "'r \<Rightarrow> bool"
    and over :: "'r \<Rightarrow> 'wr \<Rightarrow> bool"
  assumes over_fresh: "over r write \<Longrightarrow> nj_commit nj (Some r) write \<noteq> Inr None"
    and committed_sound: "nj_commit nj stored write = Inr (Some n) \<Longrightarrow> sound n"
    and refreshed_over: "nj_refresh nj es r = Inr (Some write) \<Longrightarrow> over r write"
    and repair_over: "nj_repair nj r k = Inr write \<Longrightarrow> over r write"
    and prepared_over: "nj_prepare nj es r ids = Inr (Some write) \<Longrightarrow> over r write"
    and settled_over: "nj_settle nj r = Inr (Some write) \<Longrightarrow> over r write"
    and recorded_over: "nj_recordOutcome nj r k t out = Inr (Some write) \<Longrightarrow> over r write"
    and repair_repairs: "active_namespace_intent (nj_intents nj r) = Some i \<Longrightarrow>
      nj_repair nj r (int_id i) = Inr write \<Longrightarrow>
      left_for_repair (nj_intents nj (nj_next nj write)) (int_id i)"
    and prepared_moves: "sound r \<Longrightarrow> nj_prepare nj es r ids = Inr (Some write) \<Longrightarrow>
      nj_commit nj (Some r) write = Inr (Some n) \<Longrightarrow> progress_rank (nj_intents nj n) < 3"
    and recorded_moves: "sound r \<Longrightarrow> active_namespace_intent (nj_intents nj r) = Some i \<Longrightarrow>
      int_state i = Submitted \<Longrightarrow> nj_recordOutcome nj r (int_id i) t out = Inr (Some write) \<Longrightarrow>
      nj_commit nj (Some r) write = Inr (Some n) \<Longrightarrow> progress_rank (nj_intents nj n) < 2"
    and recorded_now: "sound r \<Longrightarrow> active_namespace_intent (nj_intents nj r) = Some i \<Longrightarrow>
      int_state i = Submitted \<Longrightarrow> at_last (int_attempts i) = Some a \<Longrightarrow>
      nj_recordOutcome nj r (int_id i) (att_id a) out \<noteq> Inr None"
begin

definition sound_world :: "'r world \<Rightarrow> bool" where
  "sound_world w \<longleftrightarrow> (\<forall>r. w_stored w = Some r \<longrightarrow> sound r) \<and>
     (\<forall>f \<in> set (w_others w). \<forall>s. (\<forall>r. s = Some r \<longrightarrow> sound r) \<longrightarrow> (\<forall>r. f s = Some r \<longrightarrow> sound r))"

definition quiet :: "'r world \<Rightarrow> bool" where
  "quiet w \<longleftrightarrow> w_others w = []"

text \<open>How many more turns a pass can take: one per action of others, then one per state to go through.\<close>

definition remaining :: "'r world \<Rightarrow> nat" where
  "remaining w = (if quiet w
     then (case w_stored w of None \<Rightarrow> 0 | Some r \<Rightarrow> progress_rank (nj_intents nj r))
     else length (w_others w) + 3)"

lemma others_sound:
  assumes "sound_world w" shows "sound_world (others_act w)"
proof (cases "w_others w")
  case Nil
  with assms show ?thesis by (simp add: others_act_def)
next
  case (Cons f fs)
  then have f: "\<And>r. f (w_stored w) = Some r \<Longrightarrow> sound r"
    using assms unfolding sound_world_def by (metis list.set_intros(1))
  have "\<forall>g \<in> set fs. \<forall>s. (\<forall>r. s = Some r \<longrightarrow> sound r) \<longrightarrow> (\<forall>r. g s = Some r \<longrightarrow> sound r)"
    using assms Cons unfolding sound_world_def by (metis list.set_intros(2))
  with f Cons show ?thesis by (simp add: sound_world_def others_act_def)
qed

lemma others_shrink: "length (w_others (others_act w)) = length (w_others w) - 1"
  by (simp add: others_act_def split: list.split)

lemma others_quiet: "quiet w \<Longrightarrow> others_act w = w"
  by (simp add: quiet_def others_act_def)

lemma remaining_le: "remaining w \<le> length (w_others w) + 3"
  by (auto simp: remaining_def progress_rank_le trans_le_add2 split: option.split)

text \<open>A world that other actors have acted on has fewer turns left, whatever was stored.\<close>

lemma remaining_drops:
  assumes "\<not> quiet w" and "length (w_others w') < length (w_others w)"
  shows "remaining w' < remaining w"
  using assms remaining_le [of w'] by (simp add: remaining_def)

lemma commit_sound:
  assumes "sound_world w" and "commit_then nj write c t w = (res, w')"
  shows "sound_world w' \<and> length (w_others w') = length (w_others w) - 1"
  using others_sound [OF assms(1)] assms(2) committed_sound others_shrink [of w]
  by (auto simp: commit_then_def Let_def sound_world_def log_event_def split: sum.splits option.splits)

lemma quiet_commit:
  assumes "quiet w" and "w_stored w = Some r" and "over r write"
    and "commit_then nj write c t w = (Inr (Again d), w')"
  shows "t = Again d \<and> quiet w' \<and>
    (\<exists>n. w_stored w' = Some n \<and> nj_commit nj (Some r) write = Inr (Some n))"
  using assms over_fresh [OF assms(3)]
  by (auto simp: commit_then_def others_quiet Let_def log_event_def quiet_def
      split: sum.splits option.splits)

lemma read_world:
  "read_stored w = (stored, v) \<Longrightarrow> stored = w_stored (others_act w) \<and> w_stored v = stored \<and>
     w_others v = w_others (others_act w)"
  by (auto simp: read_stored_def Let_def log_event_def)

lemma sound_logged [simp]: "sound_world (log_event e w) = sound_world w"
  by (simp add: log_event_def sound_world_def)

lemma keeps_sound: "keeps nj sound_world"
  unfolding keeps_def
proof (intro conjI allI impI)
  fix w r and x :: 'wr
  assume w: "sound_world w" and c: "nj_commit nj (w_stored w) x = Inr (Some r)"
  show "sound_world (w\<lparr>w_stored := Some r\<rparr>)"
    using w committed_sound [OF c] unfolding sound_world_def by simp
qed (simp_all add: others_sound)

lemma keeps_shorter: "keeps nj (\<lambda>v. length (w_others v) < n)"
  by (auto simp: keeps_def others_shrink log_event_def)

lemma turn_shrinks:
  assumes "reconcile_turn nj c w = (res, w')" and "\<not> quiet w"
  shows "length (w_others w') < length (w_others w)"
proof -
  obtain stored v where v: "read_stored w = (stored, v)" by (cases "read_stored w")
  have "length (w_others v) < length (w_others w)"
    using read_world [OF v] others_shrink [of w] assms(2) by (cases "w_others w") (auto simp: quiet_def)
  from kept_after_read [OF keeps_shorter v this, of c] assms(1) show ?thesis by simp
qed

text \<open>Nobody else writes: a turn that repeats has moved the active intent on.\<close>

lemma quiet_record:
  assumes "quiet w" and "w_stored w = Some r" and "sound r"
    and i: "active_namespace_intent (nj_intents nj r) = Some i" "int_state i = Submitted"
      "at_last (int_attempts i) = Some a"
    and t: "record_turn nj c r i a w = (Inr (Again d), w')"
  shows "quiet w' \<and> (\<exists>r'. w_stored w' = Some r' \<and>
    progress_rank (nj_intents nj r') < progress_rank (nj_intents nj r))"
proof -
  from t have ids: "cap_intentId c = int_id i" "cap_attemptId c = att_id a"
    by (auto simp: record_turn_def split: if_splits)
  with t recorded_now [OF assms(3) i, of "cap_outcome c"] obtain wr where
    w: "nj_recordOutcome nj r (int_id i) (att_id a) (cap_outcome c) = Inr (Some wr)"
    "commit_then nj wr (Some c) (Again (Some c)) w = (Inr (Again d), w')"
    by (auto simp: record_turn_def split: sum.splits option.splits)
  from quiet_commit [OF assms(1,2) recorded_over [OF w(1)] w(2)] obtain n where
    q: "quiet w'" "w_stored w' = Some n" "nj_commit nj (Some r) wr = Inr (Some n)" by blast
  have "progress_rank (nj_intents nj n) < 2"
    using recorded_moves [OF assms(3) i(1,2) w(1) q(3)] .
  moreover have "progress_rank (nj_intents nj r) = 2" using i by (simp add: progress_rank_def)
  ultimately show ?thesis using q by simp
qed

lemma quiet_pending:
  assumes "quiet w" and "w_stored w = Some r" and "sound r"
    and i: "active_namespace_intent (nj_intents nj r) = Some i" "int_state i = Pending"
    and t: "pending_turn nj c r i w = (Inr (Again d), w')"
  shows "quiet w' \<and> (\<exists>r'. w_stored w' = Some r' \<and>
    progress_rank (nj_intents nj r') < progress_rank (nj_intents nj r))"
proof -
  have rank: "progress_rank (nj_intents nj r) = 3" using i by (simp add: progress_rank_def)
  define verdict where "verdict = (case nj_gate nj of None \<Rightarrow> Go | Some g \<Rightarrow> g (w_log w) i)"
  let ?after = "\<lambda>wr. if left_for_repair (nj_intents nj (nj_next nj wr)) (int_id i)
      then Finished RepairNeeded else Again c"
  consider "verdict = Wait"
    | wr where "nj_repair nj r (int_id i) = Inr wr" "commit_then nj wr c (?after wr) w = (Inr (Again d), w')"
    | wr where "nj_prepare nj (w_log w) r (nj_newAttemptIds nj (w_log w)) = Inr (Some wr)"
        "commit_then nj wr c (?after wr) w = (Inr (Again d), w')"
    using t unfolding pending_turn_def Let_def verdict_def [symmetric]
    by (cases verdict; cases "nj_repair nj r (int_id i)") (auto split: sum.splits option.splits)
  then show ?thesis
  proof cases
    case 1
    with t show ?thesis by (simp add: pending_turn_def Let_def verdict_def)
  next
    case 2
    have "?after wr = Again d"
      using quiet_commit [OF assms(1,2) repair_over [OF 2(1)] 2(2)] by blast
    with repair_repairs [OF i(1) 2(1)] show ?thesis by simp
  next
    case 3
    note q = quiet_commit [OF assms(1,2) prepared_over [OF 3(1)] 3(2)]
    with prepared_moves [OF assms(3) 3(1)] rank show ?thesis by auto
  qed
qed

lemma quiet_turn:
  assumes w: "quiet w" "w_stored w = Some r" "sound r"
    and t: "reconcile_turn nj c w = (Inr (Again d), w')"
  shows "quiet w' \<and> (\<exists>r'. w_stored w' = Some r' \<and>
    progress_rank (nj_intents nj r') < progress_rank (nj_intents nj r))"
proof -
  obtain stored v where v: "read_stored w = (stored, v)" by (cases "read_stored w")
  have q: "quiet v" "w_stored v = Some r" "stored = Some r"
    using read_world [OF v] others_quiet [OF w(1)] w by (auto simp: quiet_def)
  have refreshed: False if "nj_refresh nj es r = Inr (Some wr)"
    "commit_then nj wr c (Finished f) v = (Inr (Again d), w')" for es wr f
    using quiet_commit [OF q(1,2) refreshed_over [OF that(1)] that(2)] by simp
  have settled: False if "received_turn nj c r i v = (Inr (Again d), w')" for i
    using that quiet_commit [OF q(1,2) settled_over, of _ c _ d w']
    by (auto simp: received_turn_def split: sum.splits option.splits)
  show ?thesis
  proof (cases "nj_refresh nj (w_log v) r")
    case (Inl e)
    with t v q show ?thesis by (simp add: reconcile_turn_def)
  next
    case (Inr refresh)
    show ?thesis
    proof (cases refresh)
      case (Some wr)
      with t v q Inr refreshed show ?thesis by (auto simp: reconcile_turn_def)
    next
      case None
      note here = t v q(3) Inr None
      then obtain i where i: "active_namespace_intent (nj_intents nj r) = Some i"
        by (cases "active_namespace_intent (nj_intents nj r)") (auto simp: reconcile_turn_def)
      consider "int_state i = Pending" "pending_turn nj c r i v = (Inr (Again d), w')"
        | "int_state i = Submitted" "submitted_turn nj c r i v = (Inr (Again d), w')"
        using here i settled by (cases "int_state i") (auto simp: reconcile_turn_def)
      then show ?thesis
      proof cases
        case 1
        with quiet_pending [OF q(1,2) w(3) i] show ?thesis by blast
      next
        case 2
        then obtain a where a: "at_last (int_attempts i) = Some a"
          by (cases "at_last (int_attempts i)") (auto simp: submitted_turn_def)
        from 2(2) a obtain u e where
          u: "record_turn nj e r i a u = (Inr (Again d), w')" "u = v \<or> (\<exists>got. locked_dispatch nj i a v = (got, u))"
          by (auto simp: submitted_turn_def split: option.splits if_splits sum.splits prod.splits)
        have "w_others u = w_others v \<and> w_stored u = w_stored v"
          using u(2) q(1) others_quiet
          by (auto simp: locked_dispatch_def read_stored_def log_event_def Let_def others_act_def quiet_def
              split: sum.splits option.splits prod.splits)
        then show ?thesis
          using quiet_record [OF _ _ w(3) i 2(1) a u(1)] q by (auto simp: quiet_def)
      qed
    qed
  qed
qed

lemma loop_ends:
  assumes "sound_world w" and "remaining w < fuel"
  shows "fst (reconcile_loop fuel nj c w) \<noteq> Inr None"
  using assms
proof (induction fuel arbitrary: c w)
  case 0
  then show ?case by simp
next
  case (Suc fuel)
  obtain t v where tv: "reconcile_turn nj c w = (t, v)" by (cases "reconcile_turn nj c w")
  show ?case
  proof (cases "\<exists>d. t = Inr (Again d)")
    case False
    with tv show ?thesis by (cases t) (auto split: turn.split)
  next
    case True
    then obtain d where d: "t = Inr (Again d)" by blast
    have s: "sound_world v" using kept_turn [OF keeps_sound Suc.prems(1), of c] tv by simp
    have "remaining v < remaining w"
    proof (cases "quiet w")
      case False
      with remaining_drops turn_shrinks tv show ?thesis by blast
    next
      case True
      then obtain r where r: "w_stored w = Some r" "sound r"
        using tv d Suc.prems(1) others_quiet [OF True]
        by (cases "w_stored w") (auto simp: reconcile_turn_def read_stored_def sound_world_def Let_def)
      from quiet_turn [OF True r tv [unfolded d]] True r show ?thesis
        by (auto simp: remaining_def)
    qed
    with Suc.IH [OF s] Suc.prems(2) tv d show ?thesis by simp
  qed
qed

theorem pass_ends:
  assumes "sound_world w" and "length (w_others w) + 3 < fuel"
  shows "fst (reconcile_namespace_journal fuel nj w) \<noteq> Inr None"
  using loop_ends [OF assms(1)] remaining_le [of w] assms(2)
  by (auto simp: reconcile_namespace_journal_def split: prod.split)

end

section \<open>Properties\<close>

text \<open>C5: Whatever other actors do meanwhile, one pass sends at most one request, and only the request of an
  attempt it has just asked the outcome of and read again in the store as the last attempt of the
  active intent, which is still submitted.\<close>

theorem dispatch_guarded:
  "\<exists>es. w_log (snd (reconcile_namespace_journal fuel nj w)) = w_log w @ es \<and>
     length (filter is_dispatch es) \<le> 1 \<and> dispatches_guarded nj es"
proof -
  obtain res v where v: "reconcile_loop fuel nj None w = (res, v)"
    by (cases "reconcile_loop fuel nj None w")
  have "stretch nj w (snd (reconcile_namespace_journal fuel nj w)) 1"
    using stretch_loop [OF v] v stretch_weaken [OF stretch_refl]
    by (auto simp: reconcile_namespace_journal_def split: prod.split)
  then show ?thesis by (auto simp: stretch_def)
qed

end
