(* ===== verification/Journal_Steps.thy ===== *)
theory Journal_Steps
  imports Resource_Namespace
begin

text \<open>
  Single steps of a journal at rest: one intent is submitted, receives its answer, is left for repair
  or is settled on this device, and the validator accepts the update. Documents, folders and
  operations plan with these.
\<close>

section \<open>The active intent\<close>

lemma active_intent_props:
  assumes "active_namespace_intent J = Some i"
  shows "i \<in> set J" and "\<not> closed_state (int_state i)"
  using find_Some_mem [OF assms [unfolded active_namespace_intent_def]] by auto

text \<open>The active intent is the oldest open one.\<close>

lemma active_intent_oldest:
  assumes "active_namespace_intent J = Some i" and "j \<in> set J" and "\<not> closed_state (int_state j)"
  shows "int_sequence i \<le> int_sequence j"
  using sorted_find_least [OF assms(1) [unfolded active_namespace_intent_def] assms(2)] assms(3)
  by simp

section \<open>One step\<close>

text \<open>One intent of a journal steps, the others stay.\<close>

lemma one_step_update:
  assumes rests: "journal_rests inp J" and i: "i \<in> set J"
    and step: "step_ok (update_of inp J (map (\<lambda>c. if int_id c = int_id i then g c else c) J)) i (g i)"
  shows "validate_namespace_journal
    (update_of inp J (map (\<lambda>c. if int_id c = int_id i then g c else c) J)) = Inr ()"
proof -
  let ?f = "\<lambda>c. if int_id c = int_id i then g c else c"
  note wf = rests_wf [OF rests]
  have u: "c = i" if "c \<in> set J" "int_id c = int_id i" for c
    using journal_wf_unique [OF wf that(1) i that(2)] .
  have stay: "intent_steps c c" if "c \<in> set J" for c
    using wf that by (intro intent_moves_steps [of _ _ "ji_handle inp"]) (simp_all add: journal_wf_def)
  have "validate_namespace_journal (update_of inp J (map ?f J @ [])) = Inr ()"
  proof (rule resting_step [OF rests])
    fix c assume c: "c \<in> set J"
    show "intent_steps c (?f c)"
      using u [OF c] stay [OF c] step by (auto simp: step_ok_def)
    assume "?f c \<noteq> c"
    then have "c = i" using u [OF c] by (auto split: if_splits)
    then show "step_ok (update_of inp J (map ?f J @ [])) c (?f c)" using step by simp
  qed simp_all
  then show ?thesis by simp
qed

lemma pending_unsent: "intent_wf h i \<Longrightarrow> int_state i = Pending \<Longrightarrow>
    int_attempts i = [] \<and> int_settledAt i = None"
  by (auto simp: intent_wf_def intent_shape_def check_settled_at_def split: option.splits)

lemma submit_step_ok:
  assumes wf: "intent_wf h i" and p: "int_state i = Pending" and a: "att_outcome a = None"
  shows "step_ok inp i (submit_intent a i)"
proof -
  note e = pending_unsent [OF wf p]
  have "attempts_ok [a]" using a by (simp add: attempts_ok_def check_attempt_outcome_def)
  moreover have "intent_steps i (submit_intent a i)"
    using e p by (simp add: intent_steps_def intent_continues_def received_stays_def submit_intent_def
        refused_evidence_def last_outcome_def at_last_def)
  moreover have "state_ok inp i (submit_intent a i)"
    using e a by (simp add: state_ok_def submit_intent_def check_settled_at_def intent_shape_def
        settled_locally_ok_def last_outcome_def at_last_def)
  ultimately show ?thesis using e by (simp add: step_ok_def submit_intent_def)
qed

lemma settled_locally_step_ok:
  assumes wf: "intent_wf h i" and p: "int_state i = Pending" and d: "int_desired i = DeleteEntry"
    and allowed: "ji_localDeletionAllowed inp"
    and alone: "\<forall>c \<in> set (ji_intents inp). int_id c = int_id i \<or> int_state c \<in> {Cancelled, Superseded}"
  shows "step_ok inp i (i\<lparr>int_state := SettledLocally\<rparr>)"
proof -
  let ?j = "i\<lparr>int_state := SettledLocally\<rparr>"
  note e = pending_unsent [OF wf p]
  have "state_ok inp i ?j"
    using e d allowed alone by (auto simp: state_ok_def check_settled_at_def intent_shape_def
          settled_locally_ok_def)
  moreover have "intent_steps i ?j"
    using e p by (simp add: intent_steps_def intent_continues_def received_stays_def
        refused_evidence_def last_outcome_def)
  ultimately show ?thesis using e by (simp add: step_ok_def attempts_ok_def)
qed

lemma matching_outcome_checks:
  assumes "namespace_outcome_matches a out" and "namespace_attempt_with_outcome a out = Inr b"
  shows "check_attempt_outcome b = Inr () \<and> b = a\<lparr>att_outcome := Some out\<rparr>"
proof -
  have b: "b = a\<lparr>att_outcome := Some out\<rparr>"
    using assms(2) by (auto simp: namespace_attempt_with_outcome_def split: if_splits)
  show ?thesis
  proof (cases out)
    case (CreateOutcome c)
    with assms(1) b show ?thesis
      by (cases "att_request a"; cases c) (auto simp: check_attempt_outcome_def namespace_outcome_matches_def)
  next
    case (CreateFolderOutcome c)
    with assms(1) b show ?thesis
      by (cases "att_request a"; cases c) (auto simp: check_attempt_outcome_def namespace_outcome_matches_def)
  next
    case (OperationOutcome receipt)
    with assms(1) b show ?thesis
      by (cases "att_request a"; cases "rcpt_answer receipt")
         (auto simp: check_attempt_outcome_def namespace_outcome_matches_def same_command_kind_def
            answer_matches_identity_def)
  next
    case (RefusalOutcome k e)
    with assms(1) b show ?thesis
      by (auto simp: check_attempt_outcome_def namespace_outcome_matches_def)
  qed
qed

lemma replace_last_attempt:
  assumes "distinct (map att_id (xs @ [a]))" and "att_id b = att_id a"
  shows "map (\<lambda>c. if att_id c = att_id a then b else c) (xs @ [a]) = xs @ [b]"
proof -
  have "att_id a \<notin> att_id ` set xs" using assms(1) by simp
  then have "map (\<lambda>c. if att_id c = att_id a then b else c) xs = map (\<lambda>c. c) xs"
    by (intro map_cong) (auto simp: image_iff)
  then show ?thesis by simp
qed

lemma receive_step_ok:
  assumes wf: "intent_wf h i" and st: "int_state i = Submitted"
    and a: "at_last (int_attempts i) = Some a" "att_outcome a = None"
    and b: "b = a\<lparr>att_outcome := Some out\<rparr>" "check_attempt_outcome b = Inr ()"
  shows "step_ok inp i (receive_intent (att_id a) b i)"
proof -
  let ?j = "receive_intent (att_id a) b i"
  from a(1) obtain xs where xs: "int_attempts i = xs @ [a]"
    by (cases "int_attempts i" rule: rev_cases) (auto simp: at_last_def)
  have ok: "attempts_ok (int_attempts i)" and shape: "intent_shape i" and n: "int_settledAt i = None"
    using wf st by (auto simp: intent_wf_def check_settled_at_def split: option.splits)
  have j: "int_attempts ?j = xs @ [b]"
  proof -
    have "distinct (map att_id (xs @ [a]))" "att_id b = att_id a"
      using ok b(1) by (simp_all add: attempts_ok_def xs)
    from replace_last_attempt [OF this] show ?thesis by (simp add: receive_intent_def xs)
  qed
  obtain j where jd: "j = ?j" by simp
  have same: "int_attempts j = xs @ [b]" "int_state j = Received" "int_settledAt j = int_settledAt i"
    "int_id j = int_id i" "int_projectId j = int_projectId i" "int_sequence j = int_sequence i"
    "int_identityRevision j = int_identityRevision i" "int_operationId j = int_operationId i"
    "int_desired j = int_desired i" "int_admission j = int_admission i" "int_handle j = int_handle i"
    using j by (simp_all add: jd) (simp_all add: receive_intent_def)
  have last_j: "last_outcome j = Some out" using b(1) by (simp add: last_outcome_def at_last_def same)
  have last_i: "last_outcome i = None" using a by (simp add: last_outcome_def)
  have "attempts_ok (int_attempts j)"
    using ok b by (auto simp: same xs attempts_ok_def)
  moreover have "attempts_continue (xs @ [a]) (xs @ [b])"
    using a(2) b(1) by (induction xs) (simp_all add: attempt_continues_def)
  then have "intent_steps i j"
    using st last_i n by (simp add: intent_steps_def intent_continues_def received_stays_def
        refused_evidence_def same xs)
  moreover have "state_ok inp i j"
    using shape last_j n
    by (simp add: state_ok_def intent_shape_def same check_settled_at_def settled_locally_ok_def xs)
  ultimately show ?thesis by (simp add: step_ok_def jd)
qed

end
