(* ===== verification/Replay_Steps.thy ===== *)
theory Replay_Steps
  imports Namespace_Replay Journal_Steps
begin

text \<open>
  What the steps a journal owner plans (preparing, leaving for repair, recording an answer) do to
  the active intent. The replay loop of documents, folders and operations rests on these.
\<close>

section \<open>The environment of a pass\<close>

text \<open>The transport, the lock, the gate, the clock and the store's operations; each may answer differently
  at every call, so it sees the calls and commits made before.\<close>

record 'r replay_env =
  re_accounts :: "string \<times> string \<times> string"
  re_newAttemptIds :: "'r event list \<Rightarrow> attempt_ids"
  re_gate :: "('r event list \<Rightarrow> namespace_intent \<Rightarrow> placement_verdict) option"
  re_lookupIdentity ::
    "'r event list \<Rightarrow> string \<Rightarrow> entry_kind \<Rightarrow> string \<Rightarrow> identity_availability result"
  re_operation :: "'r \<Rightarrow> operation_record option"
  re_now :: int
  re_lockFree :: "'r event list \<Rightarrow> bool"
  re_readOutcome ::
    "'r event list \<Rightarrow> string \<Rightarrow> namespace_request \<Rightarrow> namespace_outcome option result"
  re_submit ::
    "'r event list \<Rightarrow> string \<Rightarrow> namespace_request \<Rightarrow> namespace_outcome option result"

section \<open>Journals the validator let in\<close>

definition accepted_journal :: "namespace_intent list \<Rightarrow> bool" where
  "accepted_journal J \<longleftrightarrow> (\<exists>inp. validate_namespace_journal inp = Inr () \<and> ji_intents inp = J)"

lemma accepted_journalI: "validate_namespace_journal inp = Inr () \<Longrightarrow> accepted_journal (ji_intents inp)"
  by (auto simp: accepted_journal_def)

lemma accepted_journal_facts:
  assumes "accepted_journal J"
  shows "i \<in> set J \<Longrightarrow> j \<in> set J \<Longrightarrow> int_id i = int_id j \<Longrightarrow> i = j"
    and "distinct (map int_id J)"
    and "i \<in> set J \<Longrightarrow> int_state i = Submitted \<Longrightarrow> last_outcome i = None"
    and "i \<in> set J \<Longrightarrow> int_state i = SettledLocally \<Longrightarrow> j \<in> set J \<Longrightarrow> j \<noteq> i \<Longrightarrow>
      int_state j \<in> {Cancelled, Superseded}"
proof -
  from assms obtain inp where v: "validate_namespace_journal inp = Inr ()" and J: "ji_intents inp = J"
    by (auto simp: accepted_journal_def)
  note wf = validated_wf [OF v, unfolded J]
  show u: "i \<in> set J \<Longrightarrow> j \<in> set J \<Longrightarrow> int_id i = int_id j \<Longrightarrow> i = j" for i j
    using journal_wf_unique [OF wf] by blast
  show "distinct (map int_id J)" using wf by (simp add: journal_wf_def)
  have ok: "intent_ok inp i" if "i \<in> set J" for i
    using v that by (simp add: validate_journal_iff J)
  show "i \<in> set J \<Longrightarrow> int_state i = Submitted \<Longrightarrow> last_outcome i = None"
    using ok [of i] by (auto simp: intent_ok_def check_intent_state_iff intent_shape_def)
  show "int_state j \<in> {Cancelled, Superseded}"
    if "i \<in> set J" "int_state i = SettledLocally" "j \<in> set J" "j \<noteq> i"
    using ok [OF that(1)] that u [OF that(3,1)]
    by (auto simp: intent_ok_def check_intent_state_iff settled_locally_ok_def J)
qed

section \<open>The active intent after a change in place\<close>

text \<open>Changing intents in place, open ones staying open, keeps the active one active.\<close>

lemma insort_key_map:
  "(\<And>x. k (f x) = k x) \<Longrightarrow> insort_key k (f x) (map f xs) = map f (insort_key k x xs)"
  by (induction xs) auto

lemma sort_key_map: "(\<And>x. k (f x) = k x) \<Longrightarrow> sort_key k (map f xs) = map f (sort_key k xs)"
  by (induction xs) (simp_all add: insort_key_map)

lemma active_map:
  assumes "\<And>x. int_sequence (f x) = int_sequence x"
    and "\<And>x. x \<in> set J \<Longrightarrow> closed_state (int_state (f x)) = closed_state (int_state x)"
  shows "active_namespace_intent (map f J) = map_option f (active_namespace_intent J)"
proof -
  have "find (\<lambda>i. \<not> closed_state (int_state i)) (map f xs) =
      map_option f (find (\<lambda>i. \<not> closed_state (int_state i)) xs)" if "set xs \<subseteq> set J" for xs
    using that by (induction xs) (auto simp: assms(2))
  from this [of "sort_key int_sequence J"] show ?thesis
    by (simp add: active_namespace_intent_def sort_key_map assms(1))
qed

lemma replaced_active:
  assumes J: "accepted_journal J" and i: "active_namespace_intent J = Some i"
    and g: "\<And>x. int_sequence (g x) = int_sequence x" "\<not> closed_state (int_state (g i))"
  shows "active_namespace_intent (map (\<lambda>x. if int_id x = int_id i then g x else x) J) = Some (g i)"
proof -
  note m = active_intent_props [OF i]
  have "x = i" if "x \<in> set J" "int_id x = int_id i" for x
    using accepted_journal_facts(1) [OF J that(1) m(1) that(2)] .
  then have same: "closed_state (int_state (if int_id x = int_id i then g x else x)) =
      closed_state (int_state x)" if "x \<in> set J" for x
    using that g(2) m(2) by auto
  have "active_namespace_intent (map (\<lambda>x. if int_id x = int_id i then g x else x) J) =
      map_option (\<lambda>x. if int_id x = int_id i then g x else x) (active_namespace_intent J)"
    by (rule active_map) (simp_all add: g(1) same)
  with i show ?thesis by simp
qed

section \<open>Progress\<close>

lemma rank_of_active: "active_namespace_intent J = Some i \<Longrightarrow> int_state i \<noteq> Pending \<Longrightarrow> progress_rank J < 3"
  by (auto simp: progress_rank_def split: intent_state.split)

lemma rank_without_pending:
  "(\<And>i. active_namespace_intent J = Some i \<Longrightarrow> int_state i \<noteq> Pending) \<Longrightarrow> progress_rank J < 3"
  by (auto simp: progress_rank_def split: option.split intent_state.split)

lemma unavailable_rank: "progress_rank (resolve_unavailable_namespace J terminal) < 3"
proof (rule rank_without_pending)
  fix i assume "active_namespace_intent (resolve_unavailable_namespace J terminal) = Some i"
  from active_intent_props(1) [OF this] show "int_state i \<noteq> Pending"
    by (auto simp: resolve_unavailable_namespace_def split: if_splits)
qed

text \<open>The active intent left the pending state, and the update was let in.\<close>

lemma replaced_rank:
  assumes J: "accepted_journal J" and i: "active_namespace_intent J = Some i"
    and J': "accepted_journal J'" "J' = map (\<lambda>x. if int_id x = int_id i then g x else x) J"
    and g: "\<And>x. int_sequence (g x) = int_sequence x"
      "int_state (g i) \<in> {SettledLocally, NeedsRepair, Submitted}"
  shows "progress_rank J' < 3"
proof (cases "int_state (g i) = SettledLocally")
  case True
  have k: "g i \<in> set J'" using active_intent_props(1) [OF i] by (auto simp: J'(2) image_iff intro!: bexI [of _ i])
  show ?thesis
  proof (rule rank_without_pending)
    fix j assume "active_namespace_intent J' = Some j"
    note j = active_intent_props [OF this]
    have "j \<noteq> g i" using j(2) True by (auto simp: closed_state_def)
    with accepted_journal_facts(4) [OF J'(1) k True j(1)] j(2) show "int_state j \<noteq> Pending"
      by (auto simp: closed_state_def)
  qed
next
  case False
  with g have "\<not> closed_state (int_state (g i))" by (auto simp: closed_state_def)
  from replaced_active [OF J i g(1) this] g(2) show ?thesis
    by (intro rank_of_active [of _ "g i"]) (auto simp: J'(2))
qed

lemma received_rank:
  assumes "accepted_journal J" and "active_namespace_intent J = Some i"
  shows "progress_rank (map (\<lambda>x. if int_id x = int_id i then receive_intent t b x else x) J) < 2"
proof -
  have "active_namespace_intent (map (\<lambda>x. if int_id x = int_id i then receive_intent t b x else x) J) =
      Some (receive_intent t b i)"
    by (rule replaced_active [OF assms]) (simp_all add: receive_intent_def closed_state_def)
  then show ?thesis by (simp add: progress_rank_def receive_intent_def)
qed

lemma found_active:
  assumes "accepted_journal J" and "active_namespace_intent J = Some i"
  shows "find (\<lambda>x. int_id x = int_id i) J = Some i"
  using accepted_journal_facts(2) [OF assms(1)] active_intent_props(1) [OF assms(2)]
  by (intro find_unique_id) simp_all

lemma repaired_left:
  assumes "active_namespace_intent J = Some i"
  shows "left_for_repair (map (\<lambda>j. if int_id j = int_id i then j\<lparr>int_state := NeedsRepair\<rparr> else j) J)
    (int_id i)"
proof -
  have "\<exists>x. find (\<lambda>j. int_id j = int_id i)
      (map (\<lambda>j. if int_id j = int_id i then j\<lparr>int_state := NeedsRepair\<rparr> else j) xs) = Some x \<and>
      int_state x = NeedsRepair" if "i \<in> set xs" for xs
    using that by (induction xs) auto
  with active_intent_props(1) [OF assms] show ?thesis by (force simp: left_for_repair_def)
qed

section \<open>What a pass reaches\<close>

text \<open>A pass only moves the stored record along a reflexive and transitive relation its commits and the
  other actors respect.\<close>

lemma pass_reaches:
  fixes w :: "'r world"
  assumes refl: "\<And>x. reach x x" and trans: "\<And>x y z. reach x y \<Longrightarrow> reach y z \<Longrightarrow> reach x z"
    and commits: "\<And>x y wr. nj_commit nj (Some x) wr = Inr (Some y) \<Longrightarrow> reach x y"
    and r: "w_stored w = Some r"
    and others: "\<And>f x. f \<in> set (w_others w) \<Longrightarrow> \<exists>y. f (Some x) = Some y \<and> reach x y"
  shows "\<exists>r'. w_stored (snd (reconcile_namespace_journal fuel nj w)) = Some r' \<and> reach r r'"
proof -
  let ?P = "\<lambda>v :: 'r world. (\<exists>r'. w_stored v = Some r' \<and> reach r r') \<and>
      set (w_others v) \<subseteq> set (w_others w)"
  have "keeps nj ?P"
    unfolding keeps_def
  proof (intro conjI allI impI; elim conjE exE)
    fix v :: "'r world" and r' assume v: "w_stored v = Some r'" "reach r r'"
      "set (w_others v) \<subseteq> set (w_others w)"
    show "\<exists>y. w_stored (others_act v) = Some y \<and> reach r y"
    proof (cases "w_others v")
      case Nil
      with v show ?thesis by (simp add: others_act_def)
    next
      case (Cons f fs)
      with v(3) others obtain y where "f (Some r') = Some y" "reach r' y" by fastforce
      with v(1,2) Cons trans show ?thesis by (auto simp: others_act_def)
    qed
    show "set (w_others (others_act v)) \<subseteq> set (w_others w)"
      using v(3) by (auto simp: others_act_def split: list.split_asm)
    show "\<exists>y. w_stored (log_event e v) = Some y \<and> reach r y"
      "set (w_others (log_event e v)) \<subseteq> set (w_others w)" for e
      using v by (auto simp: log_event_def)
    fix x n assume "nj_commit nj (w_stored v) x = Inr (Some n)"
    with v commits have "reach r' n" by simp
    with v trans show "\<exists>y. w_stored (v\<lparr>w_stored := Some n\<rparr>) = Some y \<and> reach r y"
      "set (w_others (v\<lparr>w_stored := Some n\<rparr>)) \<subseteq> set (w_others w)" by auto
  qed
  from pass_keeps [OF this] r refl show ?thesis by simp
qed

end
