(* ===== verification/Journaled_Record.thy ===== *)
theory Journaled_Record
  imports Journal_Extension
begin

text \<open>
  The interface documents, folders and operations share: a stored record with a key, a revision and
  a journal of intents, and a check every update passes. What holds along any chain of updates is
  proved once here; each kind of record interprets the locale with its own validator.
\<close>

locale journaled_record =
  fixes accepts :: "'r option \<Rightarrow> 'r \<Rightarrow> bool"
    and record_key :: "'r \<Rightarrow> string"
    and revision :: "'r \<Rightarrow> int"
    and journal :: "'r \<Rightarrow> namespace_intent list"
  assumes accepts_first: "accepts None a \<Longrightarrow> revision a = 1"
    and accepts_revision: "accepts (Some a) b \<Longrightarrow> revision b = revision a + 1"
    and accepts_key: "accepts (Some a) b \<Longrightarrow> record_key b = record_key a"
    and accepts_journal: "accepts (Some a) b \<Longrightarrow> accepted_update (journal a) (journal b)"
begin

inductive stored_after :: "'r \<Rightarrow> 'r \<Rightarrow> bool" where
  same: "stored_after a a"
| later: "stored_after a b \<Longrightarrow> accepts (Some b) c \<Longrightarrow> stored_after a c"

lemma stored_after_trans: "stored_after b c \<Longrightarrow> stored_after a b \<Longrightarrow> stored_after a c"
  by (induction rule: stored_after.induct) (auto intro: stored_after.intros)

lemma stored_after_key: "stored_after a b \<Longrightarrow> record_key b = record_key a"
  by (induction rule: stored_after.induct) (auto simp: accepts_key)

lemma stored_after_revision: "stored_after a b \<Longrightarrow> revision a \<le> revision b"
  by (induction rule: stored_after.induct) (auto simp: accepts_revision)

lemma stored_after_same_revision:
  "stored_after a b \<Longrightarrow> revision b = revision a \<Longrightarrow> b = a"
  by (induction rule: stored_after.induct)
     (auto simp: accepts_revision dest: stored_after_revision)

lemma stored_after_journal: "stored_after a b \<Longrightarrow> journal_history (journal a) (journal b)"
  by (induction rule: stored_after.induct)
     (auto intro: journal_history.intros accepts_journal)

lemma stored_after_continues:
  assumes "stored_after a b" and "i \<in> set (journal a)"
    and "int_state i \<in> {Cancelled, SettledLocally} \<longrightarrow> int_attempts i = []"
  shows "\<exists>j \<in> set (journal b). intent_continues i j"
  using journal_history_continues [OF stored_after_journal [OF assms(1)] assms(2,3)] .

text \<open>A fact every accepted update keeps is kept along the whole chain.\<close>

lemma stored_after_invariant:
  assumes "stored_after a b" and "P a"
    and "\<And>x y. accepts (Some x) y \<Longrightarrow> P x \<Longrightarrow> P y"
  shows "P b"
  using assms(1,2) by (induction rule: stored_after.induct) (auto intro: assms(3))

end

end
