(* ===== verification/Records_Validator.thy ===== *)
theory Records_Validator
  imports Resource_Namespace Journaled_Record
begin

text \<open>
  The update check the metadata store runs on every document record
  (\<^verbatim>\<open>validateResourceRecordUpdate\<close> of \<^verbatim>\<open>resource-records-policy.ts\<close>), in the order the code
  checks, and what it guarantees along any chain of stored updates.
\<close>

section \<open>The checks\<close>

fun is_folder_placement :: "desired \<Rightarrow> bool" where
  "is_folder_placement (SetFolderLocation _ _) = True"
| "is_folder_placement _ = False"

fun is_copy :: "desired \<Rightarrow> bool" where
  "is_copy (CopyEntries _ _ _) = True"
| "is_copy _ = False"

definition check_record_identity :: "resource_record option \<Rightarrow> resource_record \<Rightarrow> unit result" where
  "check_record_identity previous next' =
     (let res = rec_resource next'
      in throw_when (list_ex (\<lambda>i. is_folder_placement (int_desired i)) (rec_intents next'))
           ''Folder placement requires a folder namespace record''
        (throw_when (list_ex (\<lambda>i. is_copy (int_desired i)) (rec_intents next'))
           ''A Copy is journaled by its operation, not by a document''
        (throw_when (res_revision res \<noteq>
             (case previous of None \<Rightarrow> 0 | Some p \<Rightarrow> res_revision (rec_resource p)) + 1)
           ''Invalid resource revision''
        (throw_when (case previous of None \<Rightarrow> False
             | Some p \<Rightarrow> res_handle (rec_resource p) \<noteq> res_handle res)
           ''Resource identity mismatch'' (Inr ())))))"

definition check_hold :: "resource_record option \<Rightarrow> resource_record \<Rightarrow> unit result" where
  "check_hold previous next' =
     (let res = rec_resource next'; hold = res_serverHold res
      in throw_when ((res_canonical res \<noteq> None \<or> is_acknowledged (res_lifecycle res)) \<and>
             hold \<noteq> HeldHold)
           ''A document the server placed is held''
        (throw_when (case previous of None \<Rightarrow> False
             | Some p \<Rightarrow> res_serverHold (rec_resource p) = HeldHold \<and> hold \<noteq> HeldHold)
           ''A held document id never stops being held''
        (throw_when (case previous of None \<Rightarrow> False
             | Some p \<Rightarrow> map_option cby_operationId (res_copiedBy (rec_resource p)) \<noteq>
                 map_option cby_operationId (res_copiedBy res))
           ''The operation that made a record never changes''
        (throw_when (res_copiedBy res \<noteq> None \<and> hold \<noteq> UncertainHold \<and> hold \<noteq> HeldHold)
           ''An operation's root awaits its answer or is held''
        (throw_when (case previous of None \<Rightarrow> False
             | Some p \<Rightarrow> res_serverHold (rec_resource p) = SpentHold \<and> hold = LocalHold \<and>
                 res_documentId (rec_resource p) = res_documentId res)
           ''A spent document id is replaced, never reused'' (Inr ()))))))"

text \<open>Only a strictly newer observation brings a deleted document back.\<close>

definition restored_from :: "resource_descriptor \<Rightarrow> resource_descriptor \<Rightarrow> terminal_state \<Rightarrow> bool result" where
  "restored_from old res t =
     (case (res_observationVersion res, term_deletionVersion t) of
        (Some v, Some d) \<Rightarrow>
          if is_acknowledged (res_lifecycle res) \<and> res_canonical res \<noteq> None
          then and_then (newer_canonical_observation v (Some d)) (\<lambda>isNewer.
            Inr (isNewer \<and> ob_cleanup (res_obligations old) = None \<and>
              res_documentId res = res_documentId old \<and>
              res_identityRevision res = res_identityRevision old \<and>
              res_content res = Unacquired \<and>
              map_option rf_generation (res_revivedFrom res) = Some (term_generation t) \<and>
              map_option rf_transitionId (res_revivedFrom res) = Some (term_transitionId t)))
          else Inr False
      | _ \<Rightarrow> Inr False)"

definition check_terminal :: "resource_record option \<Rightarrow> resource_record \<Rightarrow> unit result" where
  "check_terminal previous next' =
     (case previous of
        None \<Rightarrow> Inr ()
      | Some p \<Rightarrow> (case res_lifecycle (rec_resource p) of
            Terminal t \<Rightarrow>
              (case res_lifecycle (rec_resource next') of
                 Terminal kept \<Rightarrow>
                   (case term_deletionVersion t of
                      None \<Rightarrow> Inr ()
                    | Some held \<Rightarrow>
                        and_then (case term_deletionVersion kept of None \<Rightarrow> Inr True
                            | Some k \<Rightarrow> newer_canonical_observation held (Some k)) (\<lambda>lost.
                          throw_when lost ''A terminal resource cannot lose its deletion version''
                            (Inr ())))
               | _ \<Rightarrow>
                   and_then (restored_from (rec_resource p) (rec_resource next') t) (\<lambda>restored.
                     throw_when (\<not> restored)
                       ''Terminal resources revive only from newer server observations'' (Inr ())))
          | _ \<Rightarrow> Inr ()))"

definition check_reservation :: "resource_record option \<Rightarrow> resource_record \<Rightarrow> unit result" where
  "check_reservation previous next' =
     (let res = rec_resource next';
          now = content_reserved (res_content res);
          wasReserved = (case previous of None \<Rightarrow> False
            | Some p \<Rightarrow> content_reserved (res_content (rec_resource p)))
      in throw_when (previous \<noteq> None \<and> now \<and> \<not> wasReserved)
           ''Content initialization reservation cannot restart''
        (throw_when (now \<and> (res_lifecycle res \<noteq> LocalLife \<or> res_canonical res \<noteq> None \<or>
             list_ex (\<lambda>i. int_attempts i \<noteq> []) (rec_intents next')))
           ''Content initialization may only be reserved with a new local resource''
        (throw_when (wasReserved \<and> (case (previous, res_content res) of
               (Some p, ExactContent c) \<Rightarrow>
                 ec_databaseName c \<noteq> content_database (res_content (rec_resource p)) \<or>
                 res_documentId res \<noteq> res_documentId (rec_resource p) \<or>
                 res_identityRevision res \<noteq> res_identityRevision (rec_resource p)
             | _ \<Rightarrow> True))
           ''Reserved content identity cannot change before initialization'' (Inr ()))))"

definition executable_create :: "resource_record \<Rightarrow> bool" where
  "executable_create r \<longleftrightarrow>
     res_canonical (rec_resource r) = None \<and>
     list_ex (\<lambda>i. is_placement (int_desired i) \<and>
       int_state i \<notin> {Cancelled, Settled, Superseded, SettledLocally}) (rec_intents r)"

definition check_eligibility :: "resource_record option \<Rightarrow> resource_record \<Rightarrow> unit result" where
  "check_eligibility previous next' =
     (let res = rec_resource next'; eligibility = ob_createEligibility (res_obligations res)
      in throw_when (case eligibility of Some (Some t) \<Rightarrow> t < 0 | _ \<Rightarrow> False)
           ''Resource create eligibility is invalid''
        (throw_when (executable_create next' \<and> res_lifecycle res = LocalLife \<and>
             eligibility = None \<and> res_copiedBy res = None)
           ''Local creation requires an explicit eligibility witness''
        (throw_when (case previous of None \<Rightarrow> False
             | Some p \<Rightarrow> (case (ob_createEligibility (res_obligations (rec_resource p)), eligibility) of
                 (Some (Some t), Some e) \<Rightarrow> e \<noteq> Some t | _ \<Rightarrow> False))
           ''Resource create eligibility cannot be reset''
        (throw_when (case ob_canonicalRefresh (res_obligations res) of None \<Rightarrow> False
             | Some c \<Rightarrow> cr_identityRevision c \<noteq> res_identityRevision res)
           ''Canonical refresh belongs to another resource identity'' (Inr ())))))"

definition adoption_source :: "resource_descriptor \<Rightarrow> session_adoption \<Rightarrow> namespace_intent \<Rightarrow> bool" where
  "adoption_source res adoption i \<longleftrightarrow>
     int_projectId i = sa_projectId adoption \<and>
     list_ex (\<lambda>a. case att_request a of
         CreateRequest b \<Rightarrow>
           att_id a = sa_transitionId adoption \<and>
           (if map_of (res_aliases res) (crb_documentId b) = Some (sa_identityRevision adoption)
            then (case att_outcome a of
                None \<Rightarrow> True
              | Some (CreateOutcome (CreateJoined d _)) \<Rightarrow> d = sa_documentId adoption
              | _ \<Rightarrow> False)
            else int_identityRevision i = sa_identityRevision adoption \<and>
              (case att_outcome a of Some (CreateOutcome (CreateMade _ _ _)) \<Rightarrow> True | _ \<Rightarrow> False))
       | _ \<Rightarrow> False) (int_attempts i)"

definition acknowledged_exact_cache ::
  "resource_descriptor \<Rightarrow> resource_descriptor \<Rightarrow> session_adoption \<Rightarrow> bool" where
  "acknowledged_exact_cache old res adoption \<longleftrightarrow>
     is_acknowledged (res_lifecycle old) \<and> is_acknowledged (res_lifecycle res) \<and>
     res_documentId old = sa_documentId adoption \<and>
     res_identityRevision old = sa_identityRevision adoption \<and>
     (case res_content old of Unacquired \<Rightarrow> True
      | ExactContent c \<Rightarrow> \<not> ec_reserved c \<and> ec_databaseName c = sa_exactDatabaseName adoption)"

definition check_adoption :: "resource_record option \<Rightarrow> resource_record \<Rightarrow> unit result" where
  "check_adoption previous next' =
     (let res = rec_resource next'
      in case ob_sessionAdoption (res_obligations res) of
           None \<Rightarrow> Inr ()
         | Some adoption \<Rightarrow>
             throw_when ((case res_content res of Unacquired \<Rightarrow> True
                 | ExactContent c \<Rightarrow> ec_reserved c \<or>
                     sa_exactDatabaseName adoption \<noteq> ec_databaseName c) \<or>
                 sa_documentId adoption \<noteq> res_documentId res \<or>
                 sa_identityRevision adoption \<noteq> res_identityRevision res \<or>
                 \<not> is_acknowledged (res_lifecycle res))
               ''Session adoption witness does not match the resource''
            (throw_when (case previous of None \<Rightarrow> False
                 | Some p \<Rightarrow> ob_sessionAdoption (res_obligations (rec_resource p)) = None \<and>
                     \<not> (res_lifecycle (rec_resource p) = LocalLife \<and>
                        list_ex (adoption_source res adoption) (rec_intents next')) \<and>
                     \<not> acknowledged_exact_cache (rec_resource p) res adoption)
               ''Session adoption requires created or acquired exact content'' (Inr ())))"

definition check_refresh_witness ::
  "resource_record \<Rightarrow> operation_record option \<Rightarrow> unit result" where
  "check_refresh_witness next' operation =
     throw_when (case ob_canonicalRefresh (res_obligations (rec_resource next')) of None \<Rightarrow> False
         | Some c \<Rightarrow> refresh_witness \<lparr>og_intents = rec_intents next',
             og_copiedBy = res_copiedBy (rec_resource next')\<rparr> operation (cr_operationId c) = None)
       ''Canonical refresh requires a successful move receipt'' (Inr ())"

definition record_journal_input ::
  "resource_record option \<Rightarrow> resource_record \<Rightarrow> journal_input" where
  "record_journal_input previous next' =
     \<lparr>ji_previous = map_option rec_intents previous, ji_handle = res_handle (rec_resource next'),
      ji_intents = rec_intents next', ji_identityRevision = res_identityRevision (rec_resource next'),
      ji_localDeletionAllowed = (\<not> delete_needs_server (res_serverHold (rec_resource next'))),
      ji_terminal = is_terminal (res_lifecycle (rec_resource next'))\<rparr>"

definition check_obligations_kept :: "resource_record option \<Rightarrow> resource_record \<Rightarrow> unit result" where
  "check_obligations_kept previous next' =
     (case previous of
        None \<Rightarrow> Inr ()
      | Some p \<Rightarrow>
          (let old = res_obligations (rec_resource p); now = res_obligations (rec_resource next')
           in throw_when (ob_canonicalRefresh old \<noteq> None \<and> ob_canonicalRefresh now \<noteq> None \<and>
                  ob_canonicalRefresh old \<noteq> ob_canonicalRefresh now)
                ''Canonical refresh obligation cannot be replaced''
             (throw_when (ob_sessionAdoption old \<noteq> None \<and> ob_sessionAdoption now \<noteq> None \<and>
                  ob_sessionAdoption old \<noteq> ob_sessionAdoption now)
                ''Session adoption obligation cannot be replaced''
             (throw_when (ob_sessionAdoption old \<noteq> None \<and> ob_sessionAdoption now = None \<and>
                  res_lifecycle (rec_resource next') = LocalLife)
                ''Session adoption can clear only after exact admission'' (Inr ())))))"

definition validate_resource_record_update ::
  "resource_record option \<Rightarrow> resource_record \<Rightarrow> operation_record option \<Rightarrow> unit result" where
  "validate_resource_record_update previous next' operation =
     and_then (check_record_identity previous next') (\<lambda>_.
     and_then (check_hold previous next') (\<lambda>_.
     and_then (check_terminal previous next') (\<lambda>_.
     and_then (check_reservation previous next') (\<lambda>_.
     and_then (check_eligibility previous next') (\<lambda>_.
     and_then (check_adoption previous next') (\<lambda>_.
     and_then (check_refresh_witness next' operation) (\<lambda>_.
     and_then (validate_namespace_journal (record_journal_input previous next')) (\<lambda>_.
       check_obligations_kept previous next'))))))))"

section \<open>What an accepted update keeps\<close>

definition record_accepts :: "resource_record option \<Rightarrow> resource_record \<Rightarrow> bool" where
  "record_accepts p n \<longleftrightarrow> (\<exists>operation. validate_resource_record_update p n operation = Inr ())"

lemma record_accepts_checks:
  assumes "record_accepts p n"
  shows "check_record_identity p n = Inr ()" "check_hold p n = Inr ()" "check_terminal p n = Inr ()"
    "check_reservation p n = Inr ()" "check_eligibility p n = Inr ()" "check_adoption p n = Inr ()"
    "validate_namespace_journal (record_journal_input p n) = Inr ()"
    "check_obligations_kept p n = Inr ()"
  using assms by (auto simp: record_accepts_def validate_resource_record_update_def)

interpretation document: journaled_record record_accepts "\<lambda>r. res_handle (rec_resource r)"
  "\<lambda>r. res_revision (rec_resource r)" rec_intents
proof unfold_locales
  fix a b :: resource_record
  show "res_revision (rec_resource a) = 1" if "record_accepts None a"
    using record_accepts_checks(1) [OF that] by (simp add: check_record_identity_def Let_def)
  show "res_revision (rec_resource b) = res_revision (rec_resource a) + 1"
    "res_handle (rec_resource b) = res_handle (rec_resource a)" if "record_accepts (Some a) b"
    using record_accepts_checks(1) [OF that] by (simp_all add: check_record_identity_def Let_def)
  show "accepted_update (rec_intents a) (rec_intents b)" if "record_accepts (Some a) b"
    unfolding accepted_update_def using record_accepts_checks(7) [OF that]
    by (intro exI [of _ "record_journal_input (Some a) b"]) (simp add: record_journal_input_def)
qed

lemma accepted_hold:
  assumes "record_accepts (Some p) n" and "res_serverHold (rec_resource p) = HeldHold"
  shows "res_serverHold (rec_resource n) = HeldHold"
  using record_accepts_checks(2) [OF assms(1)] assms(2) by (simp add: check_hold_def Let_def)

lemma accepted_copied_by:
  assumes "record_accepts (Some p) n"
  shows "map_option cby_operationId (res_copiedBy (rec_resource n)) =
     map_option cby_operationId (res_copiedBy (rec_resource p))"
  using record_accepts_checks(2) [OF assms] by (simp add: check_hold_def Let_def)

lemma accepted_placed_held:
  assumes "record_accepts p n"
    and "res_canonical (rec_resource n) \<noteq> None \<or> is_acknowledged (res_lifecycle (rec_resource n))"
  shows "res_serverHold (rec_resource n) = HeldHold"
  using record_accepts_checks(2) [OF assms(1)] assms(2) by (auto simp: check_hold_def Let_def)

lemma accepted_terminal:
  assumes acc: "record_accepts (Some p) n" and old: "res_lifecycle (rec_resource p) = Terminal t"
  shows "(case res_lifecycle (rec_resource n) of
      Terminal kept \<Rightarrow> (case term_deletionVersion t of None \<Rightarrow> True
        | Some held \<Rightarrow> (\<exists>k. term_deletionVersion kept = Some k \<and>
            newer_canonical_observation held (Some k) \<noteq> Inr True))
    | _ \<Rightarrow> (\<exists>v d. res_observationVersion (rec_resource n) = Some v \<and>
        term_deletionVersion t = Some d \<and> newer_canonical_observation v (Some d) = Inr True \<and>
        is_acknowledged (res_lifecycle (rec_resource n)) \<and>
        res_documentId (rec_resource n) = res_documentId (rec_resource p) \<and>
        ob_cleanup (res_obligations (rec_resource p)) = None))"
proof (cases "is_terminal (res_lifecycle (rec_resource n))")
  case True
  then obtain kept where n: "res_lifecycle (rec_resource n) = Terminal kept"
    by (cases "res_lifecycle (rec_resource n)") auto
  show ?thesis
    using record_accepts_checks(3) [OF acc] old n
    by (auto simp: check_terminal_def split: option.splits)
next
  case False
  then have r: "restored_from (rec_resource p) (rec_resource n) t = Inr True"
    using record_accepts_checks(3) [OF acc] old
    by (auto simp: check_terminal_def split: resource_lifecycle.splits)
  then have "\<exists>v d. res_observationVersion (rec_resource n) = Some v \<and>
        term_deletionVersion t = Some d \<and> newer_canonical_observation v (Some d) = Inr True \<and>
        is_acknowledged (res_lifecycle (rec_resource n)) \<and>
        res_documentId (rec_resource n) = res_documentId (rec_resource p) \<and>
        ob_cleanup (res_obligations (rec_resource p)) = None"
    by (auto simp: restored_from_def split: option.splits if_splits)
  with False show ?thesis by (cases "res_lifecycle (rec_resource n)") auto
qed

section \<open>Properties\<close>

text \<open>Along any chain of stored updates of a document record the handle never changes, the revision
  only grows and names the record, a held id stays held, the operation that made the record stays
  its maker, and every intent once stored is continued.\<close>

theorem document_history_keeps:
  assumes "document.stored_after a b"
  shows "res_handle (rec_resource b) = res_handle (rec_resource a) \<and>
     res_revision (rec_resource a) \<le> res_revision (rec_resource b) \<and>
     (res_revision (rec_resource b) = res_revision (rec_resource a) \<longrightarrow> b = a) \<and>
     (res_serverHold (rec_resource a) = HeldHold \<longrightarrow> res_serverHold (rec_resource b) = HeldHold) \<and>
     map_option cby_operationId (res_copiedBy (rec_resource b)) =
       map_option cby_operationId (res_copiedBy (rec_resource a)) \<and>
     (\<forall>i \<in> set (rec_intents a). int_attempts i = [] \<or>
        int_state i \<notin> {Cancelled, SettledLocally} \<longrightarrow>
        (\<exists>j \<in> set (rec_intents b). intent_continues i j))"
proof (intro conjI impI ballI)
  show "res_handle (rec_resource b) = res_handle (rec_resource a)"
    by (rule document.stored_after_key [OF assms])
  show "res_revision (rec_resource a) \<le> res_revision (rec_resource b)"
    by (rule document.stored_after_revision [OF assms])
  show "b = a" if "res_revision (rec_resource b) = res_revision (rec_resource a)"
    by (rule document.stored_after_same_revision [OF assms that])
  show "res_serverHold (rec_resource b) = HeldHold" if "res_serverHold (rec_resource a) = HeldHold"
    using document.stored_after_invariant [OF assms,
        of "\<lambda>r. res_serverHold (rec_resource r) = HeldHold"] that accepted_hold by blast
  show "map_option cby_operationId (res_copiedBy (rec_resource b)) =
       map_option cby_operationId (res_copiedBy (rec_resource a))"
    using document.stored_after_invariant [OF assms, of "\<lambda>r.
        map_option cby_operationId (res_copiedBy (rec_resource r)) =
        map_option cby_operationId (res_copiedBy (rec_resource a))"] accepted_copied_by by auto
  show "\<exists>j \<in> set (rec_intents b). intent_continues i j"
    if "i \<in> set (rec_intents a)" "int_attempts i = [] \<or> int_state i \<notin> {Cancelled, SettledLocally}" for i
    using document.stored_after_continues [OF assms that(1)] that(2) by blast
qed

abbreviation ex_held :: "int \<Rightarrow> resource_record" where
  "ex_held revision \<equiv> \<lparr>rec_resource = ex_resource\<lparr>res_revision := revision, res_serverHold := HeldHold\<rparr>,
     rec_intents = []\<rparr>"

lemmas validator_simps = record_accepts_def validate_resource_record_update_def
  check_record_identity_def check_hold_def check_terminal_def check_reservation_def
  check_eligibility_def check_adoption_def check_refresh_witness_def check_obligations_kept_def
  record_journal_input_def validate_namespace_journal_def previous_intents_def executable_create_def
  content_reserved_def Let_def

theorem document_history_keeps_witness:
  "document.stored_after (ex_held 1) (ex_held 2) \<and>
   res_serverHold (rec_resource (ex_held 2)) = HeldHold"
proof -
  have "record_accepts (Some (ex_held 1)) (ex_held 2)"
    by (simp add: validator_simps ex_resource_def)
  then have "document.stored_after (ex_held 1) (ex_held 2)"
    by (blast intro: document.stored_after.intros)
  from document_history_keeps [OF this] this show ?thesis by simp
qed

text \<open>C27: A deleted document comes back only on a strictly newer server observation of it as present,
  and while it stays deleted its deletion version is never lost or lowered.\<close>

theorem deleted_document_guarded:
  assumes "record_accepts (Some p) n" and "res_lifecycle (rec_resource p) = Terminal t"
  shows "(is_terminal (res_lifecycle (rec_resource n)) \<and>
      (\<forall>held. term_deletionVersion t = Some held \<longrightarrow>
         (\<exists>kept. deletion_version (res_lifecycle (rec_resource n)) = Some kept \<and>
            newer_canonical_observation held (Some kept) \<noteq> Inr True))) \<or>
     (\<exists>v d. res_observationVersion (rec_resource n) = Some v \<and> term_deletionVersion t = Some d \<and>
        newer_canonical_observation v (Some d) = Inr True \<and>
        is_acknowledged (res_lifecycle (rec_resource n)) \<and>
        res_serverHold (rec_resource n) = HeldHold \<and>
        res_documentId (rec_resource n) = res_documentId (rec_resource p))"
  using accepted_terminal [OF assms] accepted_placed_held [OF assms(1)]
  by (cases "res_lifecycle (rec_resource n)") (auto split: option.splits)

abbreviation ex_terminal :: "int \<Rightarrow> string \<Rightarrow> resource_record" where
  "ex_terminal revision version \<equiv> \<lparr>rec_resource = ex_resource\<lparr>res_revision := revision,
       res_serverHold := HeldHold, res_lifecycle := Terminal \<lparr>term_generation = ''1'',
         term_transitionId = ''t'', term_deletionVersion = Some version\<rparr>\<rparr>,
     rec_intents = []\<rparr>"

theorem deleted_document_guarded_witness:
  "\<exists>kept. deletion_version (res_lifecycle (rec_resource (ex_terminal 2 ''9''))) = Some kept \<and>
     newer_canonical_observation ''7'' (Some kept) \<noteq> Inr True"
proof -
  have d: "canonical_decimal ''7''" "canonical_decimal ''9''"
    by (simp_all add: canonical_decimal_def is_digit_def)
  have n: "version_number ''7'' = 7" "version_number ''9'' = 9"
    by (simp_all add: version_number_def big_int_def radix_value_def radix_digit_def trim_def
          drop_trailing_def is_white_def)
  have "record_accepts (Some (ex_terminal 1 ''7'')) (ex_terminal 2 ''9'')"
    using d n by (simp add: validator_simps ex_resource_def)
  from deleted_document_guarded [OF this, of "\<lparr>term_generation = ''1'', term_transitionId = ''t'',
      term_deletionVersion = Some ''7''\<rparr>"] show ?thesis by simp
qed

end
