(* ===== verification/Document_Replay.thy ===== *)
theory Document_Replay
  imports Replay_Steps Records_Validator
begin

text \<open>
  \<^verbatim>\<open>reconcileResourceNamespace\<close>: the replay loop over a document's journal, committed through the
  metadata store's compare-and-set and the record validator, and its contract with the loop.
\<close>

section \<open>The document's callbacks\<close>

text \<open>\<^verbatim>\<open>commitResource\<close> of one record: stale unless the revision read is still the stored one.\<close>

definition commit_document ::
  "resource_record replay_env \<Rightarrow> resource_record option \<Rightarrow> resource_write \<Rightarrow> resource_record option result" where
  "commit_document env stored w =
     (if map_option (\<lambda>r. res_revision (rec_resource r)) stored \<noteq> rw_expectedRevision w
      then Inr None
      else and_then (validate_resource_record_update stored (rw_next w) (re_operation env (rw_next w)))
        (\<lambda>_. Inr (Some (rw_next w))))"

definition document_prepare ::
  "resource_record replay_env \<Rightarrow> resource_record event list \<Rightarrow> resource_record \<Rightarrow> attempt_ids \<Rightarrow>
     resource_write option result" where
  "document_prepare env es record ids =
     (case (if res_serverHold (rec_resource record) = HeldHold
            then active_namespace_intent (rec_intents record) else None) of
        Some i \<Rightarrow> (case int_desired i of
            SetLocation _ d \<Rightarrow> (case dest_parent d of
                FolderParent folderId \<Rightarrow>
                  and_then (re_lookupIdentity env es (int_projectId i) FolderKind folderId) (\<lambda>observed.
                    Inr (prepare_namespace_attempt record ids
                      (\<lambda>_. case observed of Available av \<Rightarrow> Some (av_location av) | _ \<Rightarrow> None)
                      (re_now env)))
              | _ \<Rightarrow> Inr (prepare_namespace_attempt record ids (\<lambda>_. None) (re_now env)))
          | _ \<Rightarrow> Inr (prepare_namespace_attempt record ids (\<lambda>_. None) (re_now env)))
      | None \<Rightarrow> Inr (prepare_namespace_attempt record ids (\<lambda>_. None) (re_now env)))"

definition document_refresh ::
  "resource_record replay_env \<Rightarrow> resource_record event list \<Rightarrow> resource_record \<Rightarrow> resource_write option result" where
  "document_refresh env es record =
     (case ob_canonicalRefresh (res_obligations (rec_resource record)) of
        None \<Rightarrow> Inr None
      | Some barrier \<Rightarrow> (case refresh_witness
            \<lparr>og_intents = rec_intents record, og_copiedBy = res_copiedBy (rec_resource record)\<rparr>
            (re_operation env record) (cr_operationId barrier) of
            None \<Rightarrow> Inr None
          | Some projectId \<Rightarrow>
              and_then (re_lookupIdentity env es projectId FileKind (res_documentId (rec_resource record)))
                (\<lambda>availability. install_namespace_availability record (cr_operationId barrier) availability)))"

definition document_journal :: "resource_record replay_env \<Rightarrow> (resource_record, resource_write) namespace_journal" where
  "document_journal env =
     \<lparr>nj_accounts = re_accounts env, nj_intents = rec_intents, nj_next = rw_next,
      nj_commit = commit_document env, nj_newAttemptIds = re_newAttemptIds env,
      nj_gate = re_gate env, nj_prepare = document_prepare env, nj_repair = (\<lambda>r k. Inr (needs_repair_write r k)),
      nj_recordOutcome = record_namespace_outcome,
      nj_settle = (\<lambda>r. settle_namespace_outcome r (re_now env) False),
      nj_pendingJoin = (\<lambda>r. pending_join_target r \<noteq> None),
      nj_refresh = document_refresh env, nj_replayEligible = replay_eligible,
      nj_lockFree = re_lockFree env, nj_readOutcome = re_readOutcome env,
      nj_submit = re_submit env\<rparr>"

definition reconcile_resource_namespace ::
  "nat \<Rightarrow> resource_record replay_env \<Rightarrow> resource_record world \<Rightarrow>
     reconcile_result option result \<times> resource_record world" where
  "reconcile_resource_namespace fuel env = reconcile_namespace_journal fuel (document_journal env)"

section \<open>The contract with the loop\<close>

definition stored_document :: "resource_record \<Rightarrow> bool" where
  "stored_document r \<longleftrightarrow> (\<exists>p. record_accepts p r)"

definition writes_over :: "resource_record \<Rightarrow> resource_write \<Rightarrow> bool" where
  "writes_over r w \<longleftrightarrow> rw_expectedRevision w = Some (res_revision (rec_resource r))"

lemma stored_document_journal:
  assumes "stored_document r"
  shows "accepted_journal (rec_intents r)"
proof -
  from assms obtain p where "validate_namespace_journal (record_journal_input p r) = Inr ()"
    using record_accepts_checks(7) by (auto simp: stored_document_def)
  from accepted_journalI [OF this] show ?thesis by (simp add: record_journal_input_def)
qed

lemma replaced_fields:
  "rec_intents (rw_next (replace_intent r k g hold)) =
     map (\<lambda>i. if int_id i = k then g i else i) (rec_intents r)"
  "writes_over r (replace_intent r k g hold)"
  by (simp_all add: replace_intent_def resource_update_def writes_over_def)

lemma prepared_cases:
  assumes "prepare_namespace_attempt r ids lookup now = Some w"
    and "active_namespace_intent (rec_intents r) = Some i"
  shows "rec_intents (rw_next w) = resolve_unavailable_namespace (rec_intents r) True \<or>
     w = settle_deletion_locally r (int_id i) now \<or> w = needs_repair_write r (int_id i) \<or>
     (\<exists>a hold. w = replace_intent r (int_id i) (submit_intent a) hold)"
  using assms
  by (auto simp: prepare_namespace_attempt_def resource_update_def Let_def split: if_splits option.splits)

lemma prepared_rank:
  assumes stored: "stored_document r" "stored_document (rw_next w)"
    and p: "prepare_namespace_attempt r ids lookup now = Some w"
  shows "progress_rank (rec_intents (rw_next w)) < 3"
proof -
  obtain i where i: "active_namespace_intent (rec_intents r) = Some i"
    using p by (auto simp: prepare_namespace_attempt_def split: option.splits)
  note rank = replaced_rank [OF stored_document_journal [OF stored(1)] i
      stored_document_journal [OF stored(2)]]
  from prepared_cases [OF p i] show ?thesis
  proof (elim disjE exE)
    assume "w = settle_deletion_locally r (int_id i) now"
    then show ?thesis
      by (intro rank [of "\<lambda>x. x\<lparr>int_state := SettledLocally\<rparr>"])
         (simp_all add: settle_deletion_locally_def resource_update_def)
  next
    assume "w = needs_repair_write r (int_id i)"
    then show ?thesis
      by (intro rank [of "\<lambda>x. x\<lparr>int_state := NeedsRepair\<rparr>"]) (simp_all add: needs_repair_write_def replaced_fields)
  next
    fix a hold assume "w = replace_intent r (int_id i) (submit_intent a) hold"
    then show ?thesis
      by (intro rank [of "submit_intent a"]) (simp_all add: replaced_fields submit_intent_def)
  qed (simp add: unavailable_rank)
qed

lemma prepared_document:
  "document_prepare env es r ids = Inr (Some w) \<Longrightarrow>
     \<exists>lookup. prepare_namespace_attempt r ids lookup (re_now env) = Some w"
  by (auto simp: document_prepare_def split: option.splits if_splits desired.splits parent_ref.splits)

lemma prepare_over:
  "prepare_namespace_attempt r ids lookup now = Some w \<Longrightarrow> writes_over r w"
  by (auto simp: prepare_namespace_attempt_def settle_deletion_locally_def needs_repair_write_def
      writes_over_def resource_update_def replace_intent_def Let_def split: option.splits if_splits)

lemma recorded_document:
  assumes stored: "stored_document r" and i: "active_namespace_intent (rec_intents r) = Some i"
  shows "record_namespace_outcome r (int_id i) t out = Inr (Some w) \<Longrightarrow>
      progress_rank (rec_intents (rw_next w)) < 2"
    and "int_state i = Submitted \<Longrightarrow> at_last (int_attempts i) = Some a \<Longrightarrow>
      record_namespace_outcome r (int_id i) (att_id a) out \<noteq> Inr None"
proof -
  note J = stored_document_journal [OF stored]
  note f = found_active [OF J i]
  show "int_state i = Submitted \<Longrightarrow> at_last (int_attempts i) = Some a \<Longrightarrow>
      record_namespace_outcome r (int_id i) (att_id a) out \<noteq> Inr None"
    using accepted_journal_facts(3) [OF J active_intent_props(1) [OF i]] f
    by (auto simp: record_namespace_outcome_def last_outcome_def namespace_attempt_with_outcome_def)
  assume w: "record_namespace_outcome r (int_id i) t out = Inr (Some w)"
  then obtain answered hold where "w = replace_intent r (int_id i) (receive_intent t answered) hold"
    using f by (auto simp: record_namespace_outcome_def split: option.splits if_splits)
  with received_rank [OF J i] show "progress_rank (rec_intents (rw_next w)) < 2"
    by (simp add: replaced_fields)
qed

lemma committed_document:
  "commit_document env stored w = Inr (Some n) \<Longrightarrow> n = rw_next w \<and> stored_document n"
  by (auto simp: commit_document_def stored_document_def record_accepts_def split: if_splits)

lemma install_over:
  assumes "install_canonical_refresh r k av = Inr (Some w)"
  shows "writes_over r w"
proof -
  from assms obtain res where "w = resource_update r res (rec_intents r)"
    by (auto simp: install_canonical_refresh_def Let_def split: option.splits if_splits)
  then show ?thesis by (simp add: writes_over_def resource_update_def)
qed

lemma availability_over: "install_namespace_availability r k av = Inr (Some w) \<Longrightarrow> writes_over r w"
  using install_over
  by (cases av) (auto simp: install_namespace_availability_def Let_def writes_over_def
      resource_update_def split: if_splits)

lemma refresh_over: "document_refresh env es r = Inr (Some w) \<Longrightarrow> writes_over r w"
  using availability_over by (auto simp: document_refresh_def split: option.splits)

interpretation document_replay: namespace_replay "document_journal env" stored_document writes_over
  for env
proof unfold_locales
  fix r n es ids k t out i a stored and w :: resource_write
  show "nj_commit (document_journal env) (Some r) w \<noteq> Inr None" if "writes_over r w"
    using that by (simp add: document_journal_def commit_document_def writes_over_def)
  show "stored_document n" if "nj_commit (document_journal env) stored w = Inr (Some n)"
    using that committed_document by (simp add: document_journal_def)
  show "writes_over r w" if "nj_refresh (document_journal env) es r = Inr (Some w)"
    using that refresh_over by (simp add: document_journal_def)
  show "writes_over r w" if "nj_repair (document_journal env) r k = Inr w"
    using that by (auto simp: document_journal_def needs_repair_write_def replaced_fields)
  show "writes_over r w" if "nj_prepare (document_journal env) es r ids = Inr (Some w)"
    using that prepared_document prepare_over by (fastforce simp: document_journal_def)
  show "writes_over r w" if "nj_settle (document_journal env) r = Inr (Some w)"
    using that by (auto simp: document_journal_def settle_namespace_outcome_def resource_update_def
        writes_over_def split: option.splits if_splits)
  show "writes_over r w" if "nj_recordOutcome (document_journal env) r k t out = Inr (Some w)"
    using that by (auto simp: document_journal_def record_namespace_outcome_def replaced_fields
        split: option.splits if_splits)
  show "left_for_repair (nj_intents (document_journal env) (nj_next (document_journal env) w)) (int_id i)"
    if "active_namespace_intent (nj_intents (document_journal env) r) = Some i"
      "nj_repair (document_journal env) r (int_id i) = Inr w"
    using repaired_left that by (auto simp: document_journal_def needs_repair_write_def replaced_fields)
  show "progress_rank (nj_intents (document_journal env) n) < 3"
    if "stored_document r" "nj_prepare (document_journal env) es r ids = Inr (Some w)"
      "nj_commit (document_journal env) (Some r) w = Inr (Some n)"
    using that committed_document prepared_document prepared_rank by (fastforce simp: document_journal_def)
  show "progress_rank (nj_intents (document_journal env) n) < 2"
    if "stored_document r" "active_namespace_intent (nj_intents (document_journal env) r) = Some i"
      "nj_recordOutcome (document_journal env) r (int_id i) t out = Inr (Some w)"
      "nj_commit (document_journal env) (Some r) w = Inr (Some n)"
    using recorded_document(1) [OF that(1)] that committed_document
    by (fastforce simp: document_journal_def)
  show "nj_recordOutcome (document_journal env) r (int_id i) (att_id a) out \<noteq> Inr None"
    if "stored_document r" "active_namespace_intent (nj_intents (document_journal env) r) = Some i"
      "int_state i = Submitted" "at_last (int_attempts i) = Some a"
    using recorded_document(2) [OF that(1)] that by (auto simp: document_journal_def)
qed

section \<open>Properties\<close>

text \<open>A pass over a document ends once the other actors have stopped changing the record: as many turns
  as they make changes, and four more, are enough.\<close>

lemma document_pass_returns:
  assumes "\<And>r. w_stored w = Some r \<Longrightarrow> stored_document r"
    and "\<And>f s r. f \<in> set (w_others w) \<Longrightarrow> (\<And>x. s = Some x \<Longrightarrow> stored_document x) \<Longrightarrow>
      f s = Some r \<Longrightarrow> stored_document r"
    and "length (w_others w) + 4 \<le> fuel"
  shows "fst (reconcile_resource_namespace fuel env w) \<noteq> Inr None"
proof -
  have "document_replay.sound_world w"
    unfolding document_replay.sound_world_def using assms(1,2) by blast
  with document_replay.pass_ends assms(3) show ?thesis
    by (simp add: reconcile_resource_namespace_def)
qed

text \<open>A pass only ever continues the history of the record, whatever its fuel.\<close>

lemma document_pass_history:
  assumes "w_stored w = Some r"
    and "\<And>f x. f \<in> set (w_others w) \<Longrightarrow> \<exists>y. f (Some x) = Some y \<and> document.stored_after x y"
  shows "\<exists>r'. w_stored (snd (reconcile_resource_namespace fuel env w)) = Some r' \<and>
     document.stored_after r r'"
  unfolding reconcile_resource_namespace_def
proof (rule pass_reaches [where reach = document.stored_after and nj = "document_journal env"])
  fix x y wr assume "nj_commit (document_journal env) (Some x) wr = Inr (Some y)"
  then have "record_accepts (Some x) y"
    by (auto simp: document_journal_def commit_document_def record_accepts_def split: if_splits)
  then show "document.stored_after x y" by (rule document.stored_after.later [OF document.stored_after.same])
qed (use assms document.stored_after_trans document.stored_after.same in blast)+

text \<open>C6: A pass over a document ends once the other actors have stopped changing the record: as many turns
  as they make changes, and four more, are enough. It only ever continues the record's history: where
  every change the other actors make is a chain of updates the store accepted, the record stored
  after the pass is reached from the one before it by accepted updates.\<close>

theorem document_pass_ends_in_history:
  assumes "\<And>r. w_stored w = Some r \<Longrightarrow> stored_document r"
    and "\<And>f s r. f \<in> set (w_others w) \<Longrightarrow> (\<And>x. s = Some x \<Longrightarrow> stored_document x) \<Longrightarrow>
      f s = Some r \<Longrightarrow> stored_document r"
    and "length (w_others w) + 4 \<le> fuel"
  shows "fst (reconcile_resource_namespace fuel env w) \<noteq> Inr None \<and>
     (\<forall>r. w_stored w = Some r \<longrightarrow>
        (\<forall>f \<in> set (w_others w). \<forall>x. \<exists>y. f (Some x) = Some y \<and> document.stored_after x y) \<longrightarrow>
        (\<exists>r'. w_stored (snd (reconcile_resource_namespace fuel env w)) = Some r' \<and>
           document.stored_after r r'))"
proof (intro conjI allI impI)
  show "fst (reconcile_resource_namespace fuel env w) \<noteq> Inr None"
    by (rule document_pass_returns [OF assms(1)]) (use assms(2,3) in blast)+
  fix r assume "w_stored w = Some r"
    and "\<forall>f \<in> set (w_others w). \<forall>x. \<exists>y. f (Some x) = Some y \<and> document.stored_after x y"
  then show "\<exists>r'. w_stored (snd (reconcile_resource_namespace fuel env w)) = Some r' \<and>
      document.stored_after r r'"
    by (intro document_pass_history) blast+
qed

text \<open>A server that makes the document at the first request, and a record other actors leave alone.\<close>

definition ex_env :: "resource_record replay_env" where
  "ex_env = \<lparr>re_accounts = (''u'', ''u'', ''u''),
     re_newAttemptIds = (\<lambda>_. \<lparr>aid_attemptId = ''t1'', aid_operationId = ''o1''\<rparr>), re_gate = None,
     re_lookupIdentity = (\<lambda>_ _ _ _. Inr Unavailable), re_operation = (\<lambda>_. None), re_now = 0,
     re_lockFree = (\<lambda>_. True), re_readOutcome = (\<lambda>_ _ _. Inr None),
     re_submit = (\<lambda>_ _ _. Inr (Some ex_made))\<rparr>"

abbreviation ex_fresh :: resource_record where
  "ex_fresh \<equiv>
     \<lparr>rec_resource = ex_resource, rec_intents = [ex_intent 1 Pending (ex_place ''a.md'') []]\<rparr>"

abbreviation ex_world :: "resource_record world" where
  "ex_world \<equiv> \<lparr>w_stored = Some ex_fresh, w_others = [], w_log = []\<rparr>"

lemma ex_fresh_stored: "stored_document ex_fresh"
proof -
  have "record_accepts None ex_fresh"
    by (simp add: validator_simps ex_resource_def ex_intent_def check_settled_at_def is_safe_integer_def
        check_intent_state_def check_settled_locally_def)
  then show ?thesis by (auto simp: stored_document_def)
qed

theorem document_pass_ends_in_history_witness:
  "fst (reconcile_resource_namespace 5 ex_env (ex_world\<lparr>w_others := [\<lambda>s. s]\<rparr>)) = Inr (Some Progressed) \<and>
   (\<exists>r'. w_stored (snd (reconcile_resource_namespace 5 ex_env (ex_world\<lparr>w_others := [\<lambda>s. s]\<rparr>))) = Some r' \<and>
      document.stored_after ex_fresh r')"
proof
  show "fst (reconcile_resource_namespace 5 ex_env (ex_world\<lparr>w_others := [\<lambda>s. s]\<rparr>)) = Inr (Some Progressed)"
    by code_simp
  show "\<exists>r'. w_stored (snd (reconcile_resource_namespace 5 ex_env (ex_world\<lparr>w_others := [\<lambda>s. s]\<rparr>))) = Some r' \<and>
      document.stored_after ex_fresh r'"
    using document_pass_ends_in_history [of "ex_world\<lparr>w_others := [\<lambda>s. s]\<rparr>" 5 ex_env]
      ex_fresh_stored document.stored_after.same by auto
qed

end
