(* ===== verification/Resource_Authority.thy ===== *)
theory Resource_Authority
  imports Resource_Records
begin

text \<open>
  Who owns a location (\<^verbatim>\<open>resource-work-authority.ts\<close>): the owner a command or a scoped catalog
  asserts, the authority it spells in a context URI, and the catalog scope that lists it.
\<close>

section \<open>Owners of commands and catalogs\<close>

datatype catalog_scope =
    ProjectScope string
  | UserScope string
  | WorkScope string string
  | LineageScope string string
  | ChatScope string string

text \<open>The authority a context URI carries, as parsed.\<close>

datatype parsed_authority =
    ContextualAuthority | OwnersAuthority | LineageAuthority string | ChatAuthority string
  | WorkAuthority string

record works_snapshot =
  ws_works :: "(string \<times> string option) list"
  ws_noWork :: string

definition resource_work_authority_for :: "string \<Rightarrow> works_snapshot \<Rightarrow> resource_owner result" where
  "resource_work_authority_for workId snapshot =
     (if workId = ws_noWork snapshot then Inr (WorkOwner workId None)
      else case find (\<lambda>w. fst w = workId) (ws_works snapshot) of
          Some (k, Some h) \<Rightarrow> throw_when (h = [])
            ''The destination Work has no known named authority'' (Inr (WorkOwner k (Some h)))
        | _ \<Rightarrow> Inl (Error ''The destination Work has no known named authority''))"

definition resource_lineage_owner :: "string \<Rightarrow> string \<Rightarrow> resource_owner" where
  "resource_lineage_owner rootThreadId rootThreadRef = LineageOwner rootThreadId rootThreadRef"

definition resource_chat_owner :: "string \<Rightarrow> string option \<Rightarrow> resource_owner" where
  "resource_chat_owner chatId chatRef = ChatOwner chatId chatRef"

fun catalog_entry_owner :: "catalog_scope \<Rightarrow> parsed_authority \<Rightarrow> resource_owner" where
  "catalog_entry_owner (LineageScope _ thread) (LineageAuthority ref) = resource_lineage_owner thread ref"
| "catalog_entry_owner (LineageScope _ _) _ = NoOwner"
| "catalog_entry_owner (ChatScope _ chat) (ChatAuthority ref) = resource_chat_owner chat (Some ref)"
| "catalog_entry_owner (ChatScope _ chat) _ = resource_chat_owner chat None"
| "catalog_entry_owner (WorkScope _ workId) (WorkAuthority h) = WorkOwner workId (Some h)"
| "catalog_entry_owner (WorkScope _ workId) _ = WorkOwner workId None"
| "catalog_entry_owner _ _ = NoOwner"

fun owner_listed_in_scope :: "resource_owner \<Rightarrow> context_scheme \<Rightarrow> catalog_scope \<Rightarrow> string \<Rightarrow> bool" where
  "owner_listed_in_scope (ChatOwner c _) scheme scope projectId =
     (case scope of ChatScope _ chat \<Rightarrow> chat = c | _ \<Rightarrow> False)"
| "owner_listed_in_scope (LineageOwner t _) scheme scope projectId =
     (case scope of LineageScope _ thread \<Rightarrow> thread = t | _ \<Rightarrow> False)"
| "owner_listed_in_scope (WorkOwner w _) scheme scope projectId =
     (case scope of WorkScope _ workId \<Rightarrow> workId = w | _ \<Rightarrow> False)"
| "owner_listed_in_scope NoOwner scheme scope projectId =
     (case scope of UserScope _ \<Rightarrow> scheme = UserArea
      | ProjectScope p \<Rightarrow> scheme \<noteq> UserArea \<and> p = projectId | _ \<Rightarrow> False)"

section \<open>The authority a location spells\<close>

datatype context_authority =
    ContextualUri | WorkUri string | LineageUri string | ChatUri "string option"

definition resource_context_authority :: "context_scheme \<Rightarrow> resource_owner \<Rightarrow> context_authority result" where
  "resource_context_authority scheme owner =
     (if \<not> is_owned_context_scheme scheme then Inr ContextualUri
      else if scheme = Uploads
      then (case owner of
          ChatOwner chatId chatRef \<Rightarrow>
            throw_when (chatId = []) ''Uploads require a chat owner'' (Inr (ChatUri chatRef))
        | _ \<Rightarrow> Inl (Error ''Uploads require a chat owner''))
      else (case owner of
          ChatOwner chatId _ \<Rightarrow> throw_when (chatId \<noteq> []) ''Chat authority requires Uploads''
            (Inl (Error ''Work-scoped authority requires a known Work identity''))
        | LineageOwner thread ref \<Rightarrow>
            if thread = [] then Inl (Error ''Work-scoped authority requires a known Work identity'')
            else throw_when (ref = [])
              ''Lineage authority requires Scratch and a first-chat handle'' (Inr (LineageUri ref))
        | WorkOwner workId h \<Rightarrow> throw_when (workId = [])
            ''Work-scoped authority requires a known Work identity''
            (case h of None \<Rightarrow> Inl (Error ''No Work owns no Scratch'')
             | Some handle \<Rightarrow> Inr (WorkUri handle))
        | NoOwner \<Rightarrow> Inl (Error ''Work-scoped authority requires a known Work identity'')))"

lemma project_scoped_authority [simp]:
  "\<not> is_owned_context_scheme scheme \<Longrightarrow> resource_context_authority scheme owner = Inr ContextualUri"
  by (simp add: resource_context_authority_def)

text \<open>
  The owner a scoped catalog entry asserts is listed in that scope, so an observation never files a
  document where its own scope would not show it.
\<close>

lemma catalog_entry_owner_listed:
  assumes "catalog_entry_owner scope authority = owner" and "owner \<noteq> NoOwner"
  shows "owner_listed_in_scope owner scheme scope projectId"
  using assms by (cases scope; cases authority)
    (auto simp: resource_lineage_owner_def resource_chat_owner_def)

end
