(* ===== verification/Folder_Namespace.thy ===== *)
theory Folder_Namespace
  imports Resource_Namespace Resource_Authority
begin

text \<open>
  The journal of one folder (\<^verbatim>\<open>folder-namespace.ts\<close>): planning its creation, placement and deletion,
  the request its active intent sends, and how answers and catalog observations are applied.
\<close>

section \<open>Where a folder stands\<close>

fun folder_typed_name :: "desired \<Rightarrow> string" where
  "folder_typed_name (SetFolderLocation typed _) = typed"
| "folder_typed_name _ = []"

fun is_folder_location :: "desired \<Rightarrow> bool" where
  "is_folder_location (SetFolderLocation _ _) = True"
| "is_folder_location _ = False"

text \<open>The newest placement; a tie goes to the later one in the list.\<close>

definition newest_placed :: "namespace_intent list \<Rightarrow> namespace_intent option" where
  "newest_placed intents =
     foldl (\<lambda>newest i. case newest of
         None \<Rightarrow> Some i
       | Some a \<Rightarrow> if int_sequence a > int_sequence i then Some a else Some i) None
       (filter (\<lambda>i. is_folder_location (int_desired i)) intents)"

definition folder_base_location :: "folder_record \<Rightarrow> resource_location" where
  "folder_base_location record =
     (case fol_canonical record of
        Some l \<Rightarrow> l
      | None \<Rightarrow>
          (let name = (case newest_placed (fol_intents record) of
                 None \<Rightarrow> [] | Some i \<Rightarrow> folder_typed_name (int_desired i))
           in \<lparr>loc_scheme = Unfiled, loc_path = slash # name, loc_name = name, loc_owner = NoOwner\<rparr>))"

datatype repair_kind = RepairDelete | RepairPlace | RepairCreate

record folder_repair =
  fr_intentId :: string
  fr_kind :: repair_kind
  fr_name :: string
  fr_destination :: "resource_destination option"

definition project_folder_needs_repair :: "folder_record \<Rightarrow> folder_repair option" where
  "project_folder_needs_repair record =
     (case (if fol_serverHold record = SpentHold then None
            else find (\<lambda>i. int_state i = NeedsRepair) (fol_intents record)) of
        None \<Rightarrow> None
      | Some failed \<Rightarrow> (case int_desired failed of
            DeleteEntry \<Rightarrow> Some \<lparr>fr_intentId = int_id failed, fr_kind = RepairDelete,
              fr_name = loc_name (folder_base_location record), fr_destination = None\<rparr>
          | SetFolderLocation _ _ \<Rightarrow>
              map_option (\<lambda>d. \<lparr>fr_intentId = int_id failed,
                fr_kind = (if fol_serverHold record = HeldHold then RepairPlace else RepairCreate),
                fr_name = dest_name d, fr_destination = Some d\<rparr>)
                (namespace_repair_destination (fol_intents record) failed)
          | _ \<Rightarrow> None))"

definition folder_listed_locally :: "folder_record \<Rightarrow> bool" where
  "folder_listed_locally record \<longleftrightarrow>
     \<not> (fol_canonical record = None \<and>
        \<not> list_ex (\<lambda>i. is_folder_location (int_desired i)) (fol_intents record)) \<and>
     (project_folder_needs_repair record \<noteq> None \<or> fol_serverHold record \<noteq> HeldHold \<or>
      fol_observationVersion record = None)"

definition folder_needs_background_reconciliation :: "folder_record \<Rightarrow> bool" where
  "folder_needs_background_reconciliation record \<longleftrightarrow>
     awaits_remint (fol_serverHold record) (fol_intents record) \<or>
     list_ex (\<lambda>i. unresolved_state (int_state i)) (fol_intents record)"

definition project_folder_location :: "folder_record \<Rightarrow> parent_lookup \<Rightarrow> resource_location" where
  "project_folder_location record lookup =
     (case owning_location_intent (fol_projectId record) (fol_intents record)
             (fol_canonicalRefresh record \<noteq> None) of
        Some i \<Rightarrow> (case int_desired i of
            SetFolderLocation _ d \<Rightarrow> (case destination_location d lookup of
                Some l \<Rightarrow> l | None \<Rightarrow> folder_base_location record)
          | _ \<Rightarrow> folder_base_location record)
      | None \<Rightarrow> folder_base_location record)"

definition folder_owns_deletion :: "folder_record \<Rightarrow> bool result" where
  "folder_owns_deletion record =
     (if fol_terminal record \<noteq> None then Inr True
      else any_result (\<lambda>i. intent_owns_deletion_at i (fol_observationVersion record))
        (fol_intents record))"

section \<open>Commands\<close>

record folder_target =
  ft_record :: "folder_record option"
  ft_projectId :: string
  ft_handle :: string
  ft_folderId :: string
  ft_source :: "resource_location option"
  ft_sourceParent :: "parent_ref option"
  ft_sourceObservationVersion :: "string option"

definition folder_record_for :: "folder_target \<Rightarrow> folder_record result" where
  "folder_record_for target =
     (case ft_record target of
        Some previous \<Rightarrow>
          throw_when ((fol_projectId previous \<noteq> None \<and>
                fol_projectId previous \<noteq> Some (ft_projectId target)) \<or>
              fol_handle previous \<noteq> ft_handle target \<or> fol_folderId previous \<noteq> ft_folderId target)
            ''Folder namespace identity mismatch'' (Inr previous)
      | None \<Rightarrow> (case ft_source target of
            None \<Rightarrow> Inl (Error ''Folder is unavailable'')
          | Some source \<Rightarrow> Inr
              \<lparr>fol_projectId = (if loc_scheme source = UserArea then None else Some (ft_projectId target)),
               fol_handle = ft_handle target, fol_folderId = ft_folderId target, fol_aliases = [],
               fol_revision = 0, fol_serverHold = HeldHold, fol_copiedBy = None,
               fol_canonical = Some source, fol_canonicalParent = ft_sourceParent target,
               fol_canonicalRank = None, fol_canonicalLocationVersion = None,
               fol_canonicalOrderPolicy = None,
               fol_observationVersion = ft_sourceObservationVersion target,
               fol_canonicalRefresh = None, fol_localDeletion = None, fol_terminal = None,
               fol_intents = []\<rparr>))"

definition check_canonical_authority :: "folder_record \<Rightarrow> unit result" where
  "check_canonical_authority record =
     (case fol_canonical record of
        None \<Rightarrow> Inr ()
      | Some l \<Rightarrow> and_then (resource_context_authority (loc_scheme l) (loc_owner l)) (\<lambda>_. Inr ()))"

definition next_folder_sequence :: "namespace_intent list \<Rightarrow> int" where
  "next_folder_sequence intents = max_from_0 (map int_sequence intents) + 1"

definition folder_update :: "folder_record option \<Rightarrow> folder_record \<Rightarrow> folder_write" where
  "folder_update read next' =
     \<lparr>fw_expectedRevision = map_option fol_revision read, fw_next = next'\<rparr>"

definition plan_folder_deletion ::
  "folder_target \<Rightarrow> string \<Rightarrow> string \<Rightarrow> placement_admission option \<Rightarrow> int \<Rightarrow>
     folder_write option result" where
  "plan_folder_deletion target intentId operationId admission now =
     and_then (folder_record_for target) (\<lambda>record.
     and_then (folder_owns_deletion record) (\<lambda>owned.
       if owned then Inr None
       else and_then (check_canonical_authority record) (\<lambda>_.
         let localDeletion = \<not> delete_needs_server (fol_serverHold record);
             superseded = fst (supersede_repairable_namespace_work (fol_intents record)
               (fol_projectId record));
             deletion = \<lparr>int_projectId = ft_projectId target, int_handle = ft_handle target,
               int_id = intentId, int_operationId = Some operationId,
               int_sequence = next_folder_sequence (fol_intents record), int_admission = admission,
               int_identityRevision = 1, int_desired = DeleteEntry, int_attempts = [],
               int_settledAt = None,
               int_state = (if localDeletion then SettledLocally else Pending)\<rparr>
         in Inr (Some (folder_update (ft_record target)
              (record\<lparr>fol_revision := fol_revision record + 1,
                 fol_localDeletion := (if localDeletion
                    then Some \<lparr>ld_obligationId = intentId, ld_notBefore = now + local_deletion_undo_ms\<rparr>
                    else fol_localDeletion record),
                 fol_intents := map (\<lambda>i. if int_state i = Pending \<and> int_attempts i = []
                     then i\<lparr>int_state := Cancelled\<rparr> else i) superseded @ [deletion]\<rparr>))))))"

definition check_folder_name :: "string \<Rightarrow> unit result" where
  "check_folder_name name =
     throw_when (name = [] \<or> slash \<in> set name \<or> name = ''.'' \<or> name = ''..'')
       ''Invalid folder name'' (Inr ())"

record placement_input =
  pl_projectId :: string
  pl_intentId :: string
  pl_operationId :: "string option"
  pl_admission :: "placement_admission option"
  pl_destination :: resource_destination
  pl_typedName :: "string option"

definition placement_intent ::
  "string \<Rightarrow> namespace_intent list \<Rightarrow> placement_input \<Rightarrow> namespace_intent" where
  "placement_intent handle intents inp =
     \<lparr>int_projectId = pl_projectId inp, int_handle = handle, int_id = pl_intentId inp,
      int_operationId = (case pl_operationId inp of
         Some k \<Rightarrow> if k = [] then None else Some k | None \<Rightarrow> None),
      int_sequence = next_folder_sequence intents, int_admission = pl_admission inp,
      int_identityRevision = 1,
      int_desired = SetFolderLocation
        (case pl_typedName inp of None \<Rightarrow> dest_name (pl_destination inp) | Some n \<Rightarrow> n)
        (pl_destination inp),
      int_attempts = [], int_settledAt = None, int_state = Pending\<rparr>"

definition plan_folder_create ::
  "string \<Rightarrow> context_scheme \<Rightarrow> string \<Rightarrow> string \<Rightarrow> string \<Rightarrow> placement_admission option \<Rightarrow>
     resource_destination \<Rightarrow> folder_write result" where
  "plan_folder_create projectId scheme handle folderId intentId admission destination =
     and_then (check_folder_name (dest_name destination)) (\<lambda>_.
       Inr (folder_update None
         \<lparr>fol_projectId = (if scheme = UserArea then None else Some projectId), fol_handle = handle,
          fol_folderId = folderId, fol_aliases = [], fol_revision = 1, fol_serverHold = LocalHold,
          fol_copiedBy = None, fol_canonical = None, fol_canonicalParent = None,
          fol_canonicalRank = None, fol_canonicalLocationVersion = None,
          fol_canonicalOrderPolicy = None, fol_observationVersion = None,
          fol_canonicalRefresh = None, fol_localDeletion = None, fol_terminal = None,
          fol_intents = [placement_intent handle []
            \<lparr>pl_projectId = projectId, pl_intentId = intentId, pl_operationId = None,
             pl_admission = admission, pl_destination = destination, pl_typedName = None\<rparr>]\<rparr>))"

definition already_placed :: "folder_record \<Rightarrow> resource_destination \<Rightarrow> bool" where
  "already_placed record destination \<longleftrightarrow>
     (case (fol_canonical record, destination_location destination (\<lambda>_. None)) of
        (Some here, Some there) \<Rightarrow>
          loc_scheme there = loc_scheme here \<and> same_owner (loc_owner there) (loc_owner here) \<and>
          loc_path there = loc_path here \<and> dest_position destination = None
      | _ \<Rightarrow> False)"

definition plan_folder_location ::
  "folder_target \<Rightarrow> placement_input \<Rightarrow> folder_write option result" where
  "plan_folder_location target inp =
     and_then (case ft_record target of None \<Rightarrow> Inr False | Some r \<Rightarrow> folder_owns_deletion r) (\<lambda>deleted.
       throw_when deleted ''Folder is being deleted''
      (and_then (folder_record_for target) (\<lambda>record.
       and_then (check_canonical_authority record) (\<lambda>_.
       and_then (check_folder_name (dest_name (pl_destination inp))) (\<lambda>_.
         let (superseded, repaired) =
           supersede_repairable_namespace_work (fol_intents record) (fol_projectId record)
         in throw_when (dest_parent (pl_destination inp) = FolderParent (ft_folderId target))
              ''Cannot move a folder inside itself''
             (if already_placed record (pl_destination inp) \<and> \<not> repaired then Inr None
              else Inr (Some (folder_update (ft_record target)
                (record\<lparr>fol_revision := fol_revision record + 1,
                   fol_intents := superseded @
                     [placement_intent (fol_handle record) (fol_intents record) inp]\<rparr>)))))))))"

section \<open>Requests\<close>

definition folder_replace_intent ::
  "folder_record \<Rightarrow> string \<Rightarrow> (namespace_intent \<Rightarrow> namespace_intent) \<Rightarrow> server_hold \<Rightarrow> folder_write" where
  "folder_replace_intent record intentId replace hold =
     folder_update (Some record)
       (record\<lparr>fol_revision := fol_revision record + 1, fol_serverHold := hold,
          fol_intents := map (\<lambda>i. if int_id i = intentId then replace i else i) (fol_intents record)\<rparr>)"

definition folder_needs_repair_write :: "folder_record \<Rightarrow> string \<Rightarrow> folder_write" where
  "folder_needs_repair_write record intentId =
     folder_replace_intent record intentId (\<lambda>i. i\<lparr>int_state := NeedsRepair\<rparr>) (fol_serverHold record)"

definition folder_operation_id :: "namespace_intent \<Rightarrow> attempt_ids \<Rightarrow> string" where
  "folder_operation_id i ids = (case int_operationId i of None \<Rightarrow> aid_operationId ids | Some k \<Rightarrow> k)"

definition prepare_folder_delete ::
  "folder_record \<Rightarrow> namespace_intent \<Rightarrow> attempt_ids \<Rightarrow> folder_write option" where
  "prepare_folder_delete record i ids =
     (if \<not> delete_needs_server (fol_serverHold record)
      then Some (folder_replace_intent record (int_id i) (\<lambda>i. i\<lparr>int_state := SettledLocally\<rparr>)
        (fol_serverHold record))
      else if fol_canonical record = None then None
      else Some (folder_replace_intent record (int_id i)
        (submit_intent (unrecorded_attempt (aid_attemptId ids)
          (delete_request FolderKind (fol_folderId record) (folder_operation_id i ids))))
        (fol_serverHold record)))"

definition prepare_folder_placement ::
  "folder_record \<Rightarrow> namespace_intent \<Rightarrow> string \<Rightarrow> resource_destination \<Rightarrow> attempt_ids \<Rightarrow>
     parent_lookup \<Rightarrow> folder_write option" where
  "prepare_folder_placement record i typedName destination ids lookup =
     (case destination_parent_location (dest_parent destination) lookup of
        None \<Rightarrow> Some (folder_needs_repair_write record (int_id i))
      | Some parent \<Rightarrow>
          if fol_serverHold record = LocalHold
          then (let attempt = unrecorded_attempt (aid_attemptId ids)
                  (CreateFolderRequest (owner_of parent)
                    \<lparr>cfb_folderId = fol_folderId record,
                     cfb_destination = create_destination_of destination\<rparr>)
                in Some (folder_replace_intent record (int_id i) (submit_intent attempt)
                     (hold_after_attempt (fol_serverHold record) attempt)))
          else (case (fol_serverHold record, fol_canonical record) of
              (HeldHold, Some source) \<Rightarrow>
                Some (folder_replace_intent record (int_id i)
                  (submit_intent (unrecorded_attempt (aid_attemptId ids)
                    (move_request FolderKind (fol_folderId record) (folder_operation_id i ids)
                      destination typedName (loc_name source) (fol_canonicalParent record))))
                  (fol_serverHold record))
            | _ \<Rightarrow> None))"

definition prepare_folder_namespace_attempt ::
  "folder_record \<Rightarrow> attempt_ids \<Rightarrow> parent_lookup \<Rightarrow> folder_write option" where
  "prepare_folder_namespace_attempt record ids lookup =
     (case active_namespace_intent (fol_intents record) of
        None \<Rightarrow> None
      | Some i \<Rightarrow>
          if int_state i \<noteq> Pending \<or>
             (\<not> is_folder_location (int_desired i) \<and> int_desired i \<noteq> DeleteEntry) \<or>
             (fol_canonicalRefresh record \<noteq> None \<and> fol_terminal record = None)
          then None
          else if fol_terminal record \<noteq> None
          then Some (folder_update (Some record)
            (record\<lparr>fol_revision := fol_revision record + 1,
               fol_intents := resolve_unavailable_namespace (fol_intents record) True\<rparr>))
          else (case int_desired i of
              SetFolderLocation typedName destination \<Rightarrow>
                prepare_folder_placement record i typedName destination ids lookup
            | _ \<Rightarrow> prepare_folder_delete record i ids))"

section \<open>Answers\<close>

definition record_folder_namespace_outcome ::
  "folder_record \<Rightarrow> string \<Rightarrow> string \<Rightarrow> namespace_outcome \<Rightarrow> folder_write option result" where
  "record_folder_namespace_outcome record intentId attemptId outcome =
     (case find (\<lambda>i. int_id i = intentId) (fol_intents record) of
        None \<Rightarrow> Inl (Error ''Namespace attempt is no longer current'')
      | Some i \<Rightarrow> (case at_last (int_attempts i) of
            None \<Rightarrow> Inl (Error ''Namespace attempt is no longer current'')
          | Some attempt \<Rightarrow>
              if att_id attempt \<noteq> attemptId
              then Inl (Error ''Namespace attempt is no longer current'')
              else if att_outcome attempt \<noteq> None then Inr None
              else if int_state i \<noteq> Submitted \<or> \<not> namespace_outcome_matches attempt outcome
              then Inl (Error ''Namespace outcome does not match current attempt'')
              else and_then (namespace_attempt_with_outcome attempt outcome) (\<lambda>answered.
                Inr (Some (folder_replace_intent record intentId (receive_intent attemptId answered)
                  (hold_after_attempt (fol_serverHold record) answered))))))"

text \<open>What an accepted answer writes on the record beside its settled journal.\<close>

definition apply_folder_answer ::
  "namespace_attempt \<Rightarrow> namespace_outcome \<Rightarrow> folder_record \<Rightarrow> folder_record" where
  "apply_folder_answer attempt outcome next' =
     (case outcome of
        OperationOutcome receipt \<Rightarrow>
          (if namespace_receipt_is receipt MoveCommand
           then next'\<lparr>fol_canonicalRefresh := Some \<lparr>fr_operationId = rcpt_operationId receipt,
             fr_observationVersion = Some (rcpt_observationVersion receipt)\<rparr>\<rparr>
           else next')
      | CreateFolderOutcome (FolderMade _ _ address) \<Rightarrow> (case att_request attempt of
            CreateFolderRequest owner _ \<Rightarrow>
              next'\<lparr>fol_canonical := Some \<lparr>loc_scheme = addr_scheme address,
                loc_path = displayed_path (addr_path address), loc_name = addr_name address,
                loc_owner = owner\<rparr>\<rparr>
          | _ \<Rightarrow> next')
      | _ \<Rightarrow> next')"

definition settle_folder_namespace_outcome ::
  "folder_record \<Rightarrow> int \<Rightarrow> folder_write option" where
  "settle_folder_namespace_outcome record settledAt =
     (case active_namespace_intent (fol_intents record) of
        None \<Rightarrow> None
      | Some i \<Rightarrow> (case at_last (int_attempts i) of
            None \<Rightarrow> None
          | Some attempt \<Rightarrow> (case att_outcome attempt of
                None \<Rightarrow> None
              | Some outcome \<Rightarrow>
                  if int_state i \<noteq> Received \<or>
                     (case outcome of
                        CreateOutcome _ \<Rightarrow> True
                      | OperationOutcome r \<Rightarrow> namespace_receipt_is r CopyCommand
                      | _ \<Rightarrow> False)
                  then None
                  else
                    (let disposition = namespace_intent_outcome outcome (fol_terminal record \<noteq> None);
                         next' = record\<lparr>fol_revision := fol_revision record + 1,
                           fol_intents := settle_namespace_intent (fol_intents record) i disposition
                             settledAt (fol_serverHold record)\<rparr>
                     in Some (folder_update (Some record)
                          (if disposition = AcceptedOutcome
                           then apply_folder_answer attempt outcome next' else next'))))))"

section \<open>Deletion of the content inside\<close>

definition folder_deletion_settlement ::
  "folder_record option \<Rightarrow> folder_record \<Rightarrow> operation_receipt option" where
  "folder_deletion_settlement previous next' =
     (case find (\<lambda>i. int_desired i = DeleteEntry \<and> int_state i = Settled \<and>
          (case previous of None \<Rightarrow> True
           | Some p \<Rightarrow> map_option int_state
               (find (\<lambda>old. int_id old = int_id i) (fol_intents p)) \<noteq> Some Settled))
          (fol_intents next') of
        None \<Rightarrow> None
      | Some deletion \<Rightarrow> (case last_outcome deletion of
            Some (OperationOutcome receipt) \<Rightarrow>
              if namespace_receipt_is receipt DeleteCommand \<and> receipt_ok receipt then Some receipt
              else None
          | _ \<Rightarrow> None))"

text \<open>Whether the receipt still applies: a later generation of the document outlives it.\<close>

definition deletion_reaches :: "delete_value \<Rightarrow> resource_descriptor \<Rightarrow> bool result" where
  "deletion_reaches removed res =
     (if res_documentId res \<notin> set (dv_removed removed) then Inr False
      else case res_lifecycle res of
          Terminal _ \<Rightarrow> Inr False
        | Acknowledged (Some generation) \<Rightarrow>
            and_then (BigInt generation) (\<lambda>held.
            and_then (BigInt (dv_availabilityGeneration removed)) (\<lambda>given. Inr (\<not> held > given)))
        | _ \<Rightarrow> Inr True)"

fun deletion_writes ::
  "delete_value \<Rightarrow> operation_receipt \<Rightarrow> resource_record list \<Rightarrow> resource_write list result" where
  "deletion_writes removed receipt [] = Inr []"
| "deletion_writes removed receipt (r # rs) =
     and_then (deletion_reaches removed (rec_resource r)) (\<lambda>reached.
       if \<not> reached then deletion_writes removed receipt rs
       else and_then (committed_resource_deletion (rec_resource r)
              (dv_availabilityGeneration removed) (rcpt_operationId receipt)
              (rcpt_observationVersion receipt)) (\<lambda>res.
            and_then (deletion_writes removed receipt rs) (\<lambda>rest.
              Inr (resource_update r (res\<lparr>res_revision := res_revision (rec_resource r) + 1\<rparr>)
                (rec_intents r) # rest))))"

definition plan_folder_deletion_resources ::
  "operation_receipt \<Rightarrow> resource_record list \<Rightarrow> resource_write list result" where
  "plan_folder_deletion_resources receipt resources =
     (case rcpt_answer receipt of
        DeleteAnswer _ (Inr removed) \<Rightarrow> deletion_writes removed receipt resources
      | _ \<Rightarrow> Inr [])"

section \<open>Observations\<close>

definition install_folder_canonical_refresh ::
  "folder_record \<Rightarrow> string \<Rightarrow> available_identity \<Rightarrow> folder_write option result" where
  "install_folder_canonical_refresh record operationId av =
     (case fol_canonicalRefresh record of
        None \<Rightarrow> Inr None
      | Some barrier \<Rightarrow>
          if fr_operationId barrier \<noteq> operationId then Inr None
          else and_then (canonical_refresh_observation (av_observationVersion av)
                 (fol_observationVersion record) (fr_observationVersion barrier)) (\<lambda>obs.
            if \<not> newer obs \<and> \<not> completes obs then Inr None
            else and_then (resource_context_authority (loc_scheme (av_location av))
                   (loc_owner (av_location av))) (\<lambda>_.
              let base = (if completes obs then record\<lparr>fol_canonicalRefresh := None\<rparr> else record);
                  located = (if newer obs
                    then base\<lparr>fol_terminal := None, fol_canonical := Some (av_location av),
                      fol_canonicalParent := Some (av_parent av), fol_canonicalRank := av_rank av,
                      fol_canonicalLocationVersion := av_locationVersion av,
                      fol_canonicalOrderPolicy := av_orderPolicy av,
                      fol_observationVersion := Some (av_observationVersion av)\<rparr>
                    else base)
              in Inr (Some (folder_update (Some record)
                   (located\<lparr>fol_revision := fol_revision record + 1\<rparr>))))))"

definition install_folder_namespace_availability ::
  "folder_record \<Rightarrow> string \<Rightarrow> identity_availability \<Rightarrow> folder_write option result" where
  "install_folder_namespace_availability record operationId availability =
     (if map_option fr_operationId (fol_canonicalRefresh record) \<noteq> Some operationId then Inr None
      else (let gone = (\<lambda>terminal version. Inr (Some (folder_update (Some record)
                (record\<lparr>fol_canonicalRefresh := None, fol_revision := fol_revision record + 1,
                   fol_terminal := terminal, fol_observationVersion := version,
                   fol_intents :=
                     resolve_unavailable_namespace (fol_intents record) (terminal \<noteq> None)\<rparr>))))
            in case availability of
                 Available av \<Rightarrow> install_folder_canonical_refresh record operationId av
               | DeletedIdentity generation version \<Rightarrow>
                   and_then (newer_canonical_observation version (fol_observationVersion record))
                     (\<lambda>isNewer. if \<not> isNewer then Inr None else gone (Some generation) (Some version))
               | Unavailable \<Rightarrow> gone (fol_terminal record) (fol_observationVersion record)))"

definition folder_replay_eligible :: "folder_record \<Rightarrow> namespace_attempt \<Rightarrow> bool" where
  "folder_replay_eligible record attempt =
     (case att_request attempt of
        CreateRequest _ \<Rightarrow> False
      | CopyRequest _ _ \<Rightarrow> False
      | CreateFolderRequest _ b \<Rightarrow> cfb_folderId b = fol_folderId record
      | MoveRequest e b \<Rightarrow>
          fol_canonicalRefresh record = None \<and> mvb_kind b = FolderKind \<and> e = fol_folderId record
      | DeleteRequest e b \<Rightarrow>
          fol_canonicalRefresh record = None \<and> dlb_kind b = FolderKind \<and> e = fol_folderId record)"

end
