(* ===== verification/Folder_Validator.thy ===== *)
theory Folder_Validator
  imports Folder_Namespace Journaled_Record Replica_Examples
begin

text \<open>
  The update check the metadata store runs on every folder record (\<^verbatim>\<open>validateFolderNamespaceUpdate\<close>
  of \<^verbatim>\<open>folder-namespace.ts\<close>), in the order the code checks, and what it guarantees along any chain
  of stored updates.
\<close>

section \<open>The checks\<close>

definition named_by :: "folder_record \<Rightarrow> string \<Rightarrow> bool" where
  "named_by record k \<longleftrightarrow> k = fol_folderId record \<or> k \<in> set (fol_aliases record)"

text \<open>Only a spent id is replaced, by a new one that keeps the old as an alias.\<close>

definition id_replaced :: "folder_record \<Rightarrow> folder_record \<Rightarrow> bool" where
  "id_replaced p n \<longleftrightarrow> fol_serverHold p = SpentHold \<and> fol_serverHold n = LocalHold \<and>
     fol_folderId p \<in> set (fol_aliases n) \<and> set (fol_aliases p) \<subseteq> set (fol_aliases n)"

definition check_folder_identity :: "folder_record option \<Rightarrow> folder_record \<Rightarrow> unit result" where
  "check_folder_identity previous next' =
     throw_when (fol_revision next' \<noteq> (case previous of None \<Rightarrow> 0 | Some p \<Rightarrow> fol_revision p) + 1)
       ''Invalid folder namespace revision''
    (throw_when (case previous of None \<Rightarrow> False
         | Some p \<Rightarrow> fol_handle next' \<noteq> fol_handle p \<or> fol_projectId next' \<noteq> fol_projectId p)
       ''Folder namespace identity mismatch''
    (throw_when (case previous of None \<Rightarrow> False
         | Some p \<Rightarrow> fol_folderId next' \<noteq> fol_folderId p \<and> \<not> id_replaced p next')
       ''Folder namespace identity mismatch'' (Inr ())))"

definition folder_command :: "string option \<Rightarrow> namespace_intent \<Rightarrow> bool" where
  "folder_command projectId i \<longleftrightarrow>
     (projectId = None \<or> projectId = Some (int_projectId i)) \<and> int_identityRevision i = 1 \<and>
     (is_folder_location (int_desired i) \<or> int_desired i = DeleteEntry)"

definition request_names_folder :: "folder_record \<Rightarrow> namespace_request \<Rightarrow> bool" where
  "request_names_folder record request =
     (case request of
        CreateRequest _ \<Rightarrow> False
      | CopyRequest _ _ \<Rightarrow> False
      | CreateFolderRequest _ b \<Rightarrow> named_by record (cfb_folderId b)
      | MoveRequest e b \<Rightarrow> mvb_kind b = FolderKind \<and> named_by record e
      | DeleteRequest e b \<Rightarrow> dlb_kind b = FolderKind \<and> named_by record e)"

definition check_folder_commands :: "folder_record \<Rightarrow> unit result" where
  "check_folder_commands next' =
     throw_when (list_ex (\<lambda>i. \<not> folder_command (fol_projectId next') i) (fol_intents next'))
       ''Folder journal only admits folder namespace commands''
    (throw_when (list_ex (\<lambda>i. list_ex (\<lambda>a. \<not> request_names_folder next' (att_request a))
          (int_attempts i)) (fol_intents next'))
       ''Folder journal request identity mismatch'' (Inr ()))"

definition check_folder_terminal :: "folder_record option \<Rightarrow> folder_record \<Rightarrow> unit result" where
  "check_folder_terminal previous next' =
     (case previous of
        None \<Rightarrow> Inr ()
      | Some p \<Rightarrow>
          throw_when (fol_canonicalRefresh p \<noteq> None \<and> fol_canonicalRefresh next' \<noteq> None \<and>
              map_option fr_operationId (fol_canonicalRefresh p) \<noteq>
                map_option fr_operationId (fol_canonicalRefresh next'))
            ''Folder canonical refresh cannot be replaced''
         (if fol_terminal p = None \<or> fol_terminal p = fol_terminal next' then Inr ()
          else and_then (case (fol_terminal next', fol_observationVersion next') of
              (None, Some version) \<Rightarrow> newer_canonical_observation version (fol_observationVersion p)
            | _ \<Rightarrow> Inr False) (\<lambda>restored.
              throw_when (\<not> restored) ''Terminal folders revive only from newer server observations''
                (Inr ()))))"

definition folder_journal_input :: "folder_record option \<Rightarrow> folder_record \<Rightarrow> journal_input" where
  "folder_journal_input previous next' =
     \<lparr>ji_previous = map_option fol_intents previous, ji_handle = fol_handle next',
      ji_intents = fol_intents next', ji_identityRevision = 1,
      ji_localDeletionAllowed = (\<not> delete_needs_server (fol_serverHold next')),
      ji_terminal = (fol_terminal next' \<noteq> None)\<rparr>"

definition settled_deletion :: "namespace_intent \<Rightarrow> bool" where
  "settled_deletion i \<longleftrightarrow> int_desired i = DeleteEntry \<and> int_state i = SettledLocally"

definition check_local_deletion :: "folder_record \<Rightarrow> unit result" where
  "check_local_deletion next' =
     throw_when (case fol_localDeletion next' of None \<Rightarrow> False
         | Some w \<Rightarrow> \<not> list_ex (\<lambda>i. int_id i = ld_obligationId w \<and> settled_deletion i) (fol_intents next'))
       ''A local deletion window names its settled delete''
    (throw_when (fol_localDeletion next' = None \<and> list_ex settled_deletion (fol_intents next'))
       ''A settled local deletion keeps its window'' (Inr ()))"

definition check_folder_hold :: "folder_record option \<Rightarrow> folder_record \<Rightarrow> unit result" where
  "check_folder_hold previous next' =
     throw_when (fol_canonical next' \<noteq> None \<and> fol_serverHold next' \<noteq> HeldHold)
       ''A folder the server placed is held''
    (throw_when (case previous of None \<Rightarrow> False
         | Some p \<Rightarrow> fol_serverHold p = HeldHold \<and> fol_serverHold next' \<noteq> HeldHold)
       ''A held folder id never stops being held''
    (throw_when (case previous of None \<Rightarrow> False
         | Some p \<Rightarrow> map_option cby_operationId (fol_copiedBy p) \<noteq>
             map_option cby_operationId (fol_copiedBy next'))
       ''The operation that made a record never changes''
    (throw_when (fol_copiedBy next' \<noteq> None \<and> fol_serverHold next' \<noteq> UncertainHold \<and>
         fol_serverHold next' \<noteq> HeldHold)
       ''An operation's root awaits its answer or is held'' (Inr ()))))"

text \<open>A folder with no place carries its own create, or is the root of an operation that places it.\<close>

definition placeless :: "folder_record \<Rightarrow> bool" where
  "placeless record \<longleftrightarrow>
     fol_canonicalParent record = None \<and> fol_observationVersion record = None \<and>
     fol_canonicalRefresh record = None \<and> fol_terminal record = None \<and>
     (fol_copiedBy record \<noteq> None \<or>
      list_ex (\<lambda>i. is_folder_location (int_desired i)) (fol_intents record))"

abbreviation folder_origin :: "folder_record \<Rightarrow> place_origin" where
  "folder_origin record \<equiv> \<lparr>og_intents = fol_intents record, og_copiedBy = fol_copiedBy record\<rparr>"

definition check_folder_place ::
  "folder_record option \<Rightarrow> folder_record \<Rightarrow> operation_record option \<Rightarrow> unit result" where
  "check_folder_place previous next' operation =
     and_then (if fol_canonical next' \<noteq> None then check_canonical_authority next'
         else throw_when (\<not> placeless next')
           ''A local folder holds its create and no server observation'' (Inr ())) (\<lambda>_.
     throw_when (case previous of None \<Rightarrow> False
         | Some p \<Rightarrow> fol_canonical p \<noteq> None \<and> fol_canonical next' = None)
       ''A folder cannot lose its canonical place''
    (throw_when (case previous of None \<Rightarrow> False
         | Some p \<Rightarrow> fol_canonical p = None \<and> fol_canonical next' \<noteq> None \<and>
             \<not> first_place_witnessed (folder_origin next') operation (fol_folderId next') FolderKind)
       ''A local folder gains a place only from its accepted create''
    (throw_when (case fol_canonicalRefresh next' of None \<Rightarrow> False
         | Some c \<Rightarrow> refresh_witness (folder_origin next') operation (fr_operationId c) = None)
       ''Folder refresh requires a successful move receipt'' (Inr ()))))"

definition validate_folder_namespace_update ::
  "folder_record option \<Rightarrow> folder_record \<Rightarrow> operation_record option \<Rightarrow> unit result" where
  "validate_folder_namespace_update previous next' operation =
     and_then (check_folder_identity previous next') (\<lambda>_.
     and_then (check_folder_commands next') (\<lambda>_.
     and_then (check_folder_terminal previous next') (\<lambda>_.
     and_then (validate_namespace_journal (folder_journal_input previous next')) (\<lambda>_.
     and_then (check_local_deletion next') (\<lambda>_.
     and_then (check_folder_hold previous next') (\<lambda>_.
       check_folder_place previous next' operation))))))"

section \<open>What an accepted update keeps\<close>

definition folder_accepts :: "folder_record option \<Rightarrow> folder_record \<Rightarrow> bool" where
  "folder_accepts p n \<longleftrightarrow> (\<exists>operation. validate_folder_namespace_update p n operation = Inr ())"

lemma folder_accepts_checks:
  assumes "folder_accepts p n"
  shows "check_folder_identity p n = Inr ()" "check_folder_commands n = Inr ()"
    "check_folder_terminal p n = Inr ()"
    "validate_namespace_journal (folder_journal_input p n) = Inr ()"
    "check_local_deletion n = Inr ()" "check_folder_hold p n = Inr ()"
  using assms by (auto simp: folder_accepts_def validate_folder_namespace_update_def)

interpretation folder: journaled_record folder_accepts fol_handle fol_revision fol_intents
proof unfold_locales
  fix a b :: folder_record
  show "fol_revision a = 1" if "folder_accepts None a"
    using folder_accepts_checks(1) [OF that] by (simp add: check_folder_identity_def)
  show "fol_revision b = fol_revision a + 1" "fol_handle b = fol_handle a"
    if "folder_accepts (Some a) b"
    using folder_accepts_checks(1) [OF that] by (simp_all add: check_folder_identity_def)
  show "accepted_update (fol_intents a) (fol_intents b)" if "folder_accepts (Some a) b"
    unfolding accepted_update_def using folder_accepts_checks(4) [OF that]
    by (intro exI [of _ "folder_journal_input (Some a) b"]) (simp add: folder_journal_input_def)
qed

lemma accepted_folder_place:
  assumes "folder_accepts (Some p) n" and "fol_canonical p \<noteq> None"
  shows "fol_canonical n \<noteq> None"
  using assms
  by (auto simp: folder_accepts_def validate_folder_namespace_update_def check_folder_place_def
      split: if_splits)

lemma accepted_folder_held:
  assumes "folder_accepts (Some p) n" and "fol_serverHold p = HeldHold"
  shows "fol_serverHold n = HeldHold"
  using folder_accepts_checks(6) [OF assms(1)] assms(2) by (simp add: check_folder_hold_def)

lemma accepted_folder_maker:
  assumes "folder_accepts (Some p) n"
  shows "map_option cby_operationId (fol_copiedBy n) = map_option cby_operationId (fol_copiedBy p)"
  using folder_accepts_checks(6) [OF assms] by (simp add: check_folder_hold_def)

lemma accepted_requests_named:
  assumes "folder_accepts p n" and "i \<in> set (fol_intents n)" and "a \<in> set (int_attempts i)"
  shows "request_names_folder n (att_request a)"
  using folder_accepts_checks(2) [OF assms(1)] assms(2,3)
  by (auto simp: check_folder_commands_def list_ex_iff)

lemma stored_folder_accepted:
  "folder.stored_after a b \<Longrightarrow> folder_accepts p a \<Longrightarrow> \<exists>q. folder_accepts q b"
  by (induction rule: folder.stored_after.induct) auto

lemma continued_request:
  "attempts_continue old new \<Longrightarrow> a \<in> set old \<Longrightarrow> \<exists>b \<in> set new. att_request b = att_request a"
proof (induction old arbitrary: new)
  case (Cons x old)
  then show ?case by (cases new) (auto simp: attempt_continues_def)
qed simp

section \<open>Properties\<close>

text \<open>C28: Along any chain of stored updates of a folder record the handle never changes, the revision
  grows and names the record, a held id stays held, a folder with a place keeps one, the operation
  that made it stays its maker, and every request ever recorded still names the folder, by its
  current id or by an alias, however often a spent id was replaced.\<close>

theorem folder_history_keeps:
  assumes "folder.stored_after a b" and "folder_accepts p a"
  shows "fol_handle b = fol_handle a \<and> fol_revision a \<le> fol_revision b \<and>
     (fol_revision b = fol_revision a \<longrightarrow> b = a) \<and>
     (fol_serverHold a = HeldHold \<longrightarrow> fol_serverHold b = HeldHold) \<and>
     (fol_canonical a \<noteq> None \<longrightarrow> fol_canonical b \<noteq> None) \<and>
     map_option cby_operationId (fol_copiedBy b) = map_option cby_operationId (fol_copiedBy a) \<and>
     (\<forall>i \<in> set (fol_intents a). \<forall>t \<in> set (int_attempts i).
        request_names_folder b (att_request t))"
proof (intro conjI impI ballI)
  show "fol_handle b = fol_handle a" by (rule folder.stored_after_key [OF assms(1)])
  show "fol_revision a \<le> fol_revision b" by (rule folder.stored_after_revision [OF assms(1)])
  show "b = a" if "fol_revision b = fol_revision a"
    by (rule folder.stored_after_same_revision [OF assms(1) that])
  show "fol_serverHold b = HeldHold" if "fol_serverHold a = HeldHold"
    using folder.stored_after_invariant [OF assms(1), of "\<lambda>r. fol_serverHold r = HeldHold"] that
      accepted_folder_held by blast
  show "fol_canonical b \<noteq> None" if "fol_canonical a \<noteq> None"
    using folder.stored_after_invariant [OF assms(1), of "\<lambda>r. fol_canonical r \<noteq> None"] that
      accepted_folder_place by blast
  show "map_option cby_operationId (fol_copiedBy b) = map_option cby_operationId (fol_copiedBy a)"
    using folder.stored_after_invariant [OF assms(1), of "\<lambda>r.
        map_option cby_operationId (fol_copiedBy r) = map_option cby_operationId (fol_copiedBy a)"]
      accepted_folder_maker by auto
  fix i t assume i: "i \<in> set (fol_intents a)" and t: "t \<in> set (int_attempts i)"
  have "intent_wf (fol_handle a) i"
    using validated_wf [OF folder_accepts_checks(4) [OF assms(2)]] i
    by (simp add: journal_wf_def folder_journal_input_def)
  then have "int_state i \<in> {Cancelled, SettledLocally} \<longrightarrow> int_attempts i = []"
    by (simp add: intent_wf_def)
  from folder.stored_after_continues [OF assms(1) i this] obtain j where
    j: "j \<in> set (fol_intents b)" "intent_continues i j" by blast
  from j(2) have "attempts_continue (int_attempts i) (int_attempts j)"
    by (simp add: intent_continues_def)
  from continued_request [OF this t] obtain u where
    "u \<in> set (int_attempts j)" "att_request u = att_request t" by blast
  with accepted_requests_named j(1) stored_folder_accepted [OF assms] show "request_names_folder b (att_request t)"
    by metis
qed

text \<open>A deleted folder stays deleted by the same generation, unless a strictly newer server
  observation shows it present.\<close>

theorem deleted_folder_guarded:
  assumes "folder_accepts (Some p) n" and "fol_terminal p = Some t"
  shows "fol_terminal n = Some t \<or>
     (fol_terminal n = None \<and> (\<exists>v. fol_observationVersion n = Some v \<and>
        newer_canonical_observation v (fol_observationVersion p) = Inr True))"
  using folder_accepts_checks(3) [OF assms(1)] assms(2)
  by (auto simp: check_folder_terminal_def split: option.splits if_splits)

definition ex_folder :: folder_record where
  "ex_folder = \<lparr>fol_projectId = Some ''p'', fol_handle = ''h'', fol_folderId = ''f1'', fol_aliases = [],
     fol_revision = 1, fol_serverHold = HeldHold, fol_copiedBy = None,
     fol_canonical = Some \<lparr>loc_scheme = Unfiled, loc_path = ''/a'', loc_name = ''a'', loc_owner = NoOwner\<rparr>,
     fol_canonicalParent = None, fol_canonicalRank = None, fol_canonicalLocationVersion = None,
     fol_canonicalOrderPolicy = None, fol_observationVersion = Some ''3'', fol_canonicalRefresh = None,
     fol_localDeletion = None, fol_terminal = None, fol_intents = []\<rparr>"

lemmas folder_validator_simps = folder_accepts_def validate_folder_namespace_update_def
  check_folder_identity_def check_folder_commands_def check_folder_terminal_def
  check_local_deletion_def check_folder_hold_def check_folder_place_def
  check_canonical_authority_def folder_journal_input_def validate_namespace_journal_def
  previous_intents_def folder_command_def is_owned_context_scheme_def

theorem folder_history_keeps_witness:
  "folder.stored_after ex_folder (ex_folder\<lparr>fol_revision := 2\<rparr>) \<and>
   fol_canonical (ex_folder\<lparr>fol_revision := 2\<rparr>) \<noteq> None"
proof -
  have a: "folder_accepts None ex_folder"
    and b: "folder_accepts (Some ex_folder) (ex_folder\<lparr>fol_revision := 2\<rparr>)"
    by (simp_all add: folder_validator_simps ex_folder_def)
  have s: "folder.stored_after ex_folder (ex_folder\<lparr>fol_revision := 2\<rparr>)"
    by (rule folder.stored_after.later [OF folder.stored_after.same b])
  from folder_history_keeps [OF s a] s show ?thesis by (simp add: ex_folder_def)
qed

theorem deleted_folder_guarded_witness:
  "folder_accepts (Some (ex_folder\<lparr>fol_terminal := Some ''1''\<rparr>))
     (ex_folder\<lparr>fol_revision := 2, fol_observationVersion := Some ''7''\<rparr>) \<and>
   newer_canonical_observation ''7'' (Some ''3'') = Inr True"
proof -
  have d: "canonical_decimal ''3''" "canonical_decimal ''7''"
    by (simp_all add: canonical_decimal_def is_digit_def)
  have v: "version_number ''3'' = 3" "version_number ''7'' = 7"
    by (simp_all add: version_number_def big_int_def radix_value_def radix_digit_def trim_def
          drop_trailing_def is_white_def)
  have a: "folder_accepts (Some (ex_folder\<lparr>fol_terminal := Some ''1''\<rparr>))
     (ex_folder\<lparr>fol_revision := 2, fol_observationVersion := Some ''7''\<rparr>)"
    using d v by (simp add: folder_validator_simps ex_folder_def)
  from deleted_folder_guarded [OF a, of "''1''"] a show ?thesis by (simp add: ex_folder_def)
qed

section \<open>A delete queued behind a refused create\<close>

lemma settled_deletion_needs_window:
  assumes "fol_localDeletion n = None" and "i \<in> set (fol_intents n)" and "settled_deletion i"
  shows "\<not> folder_accepts p n"
proof
  assume "folder_accepts p n"
  from folder_accepts_checks(5) [OF this] show False
    using assms by (auto simp: check_local_deletion_def list_ex_iff)
qed

text \<open>C29: A folder deleted while its create is in flight, whose create is then refused, can never be
  deleted: the next pass always settles the waiting delete on this device, and the store rejects that
  write whatever it holds, because it records no undo window.\<close>

theorem waiting_folder_delete_rejected:
  assumes "active_namespace_intent (fol_intents r) = Some i"
    and "int_state i = Pending" and "int_desired i = DeleteEntry"
    and "\<not> delete_needs_server (fol_serverHold r)" and "fol_localDeletion r = None"
    and "fol_canonicalRefresh r = None" and "fol_terminal r = None"
  shows "\<exists>w. prepare_folder_namespace_attempt r ids lookup = Some w \<and>
     (\<forall>p. \<not> folder_accepts p (fw_next w))"
proof -
  let ?w = "folder_replace_intent r (int_id i) (\<lambda>i. i\<lparr>int_state := SettledLocally\<rparr>) (fol_serverHold r)"
  have "i \<in> set (fol_intents r)"
    using find_Some_mem [OF assms(1) [unfolded active_namespace_intent_def]] by auto
  then have "i\<lparr>int_state := SettledLocally\<rparr> \<in> set (fol_intents (fw_next ?w))"
    by (force simp: folder_replace_intent_def folder_update_def)
  then have "\<not> folder_accepts p (fw_next ?w)" for p
    by (rule settled_deletion_needs_window [rotated])
      (simp_all add: assms(3,5) folder_replace_intent_def folder_update_def settled_deletion_def)
  moreover have "prepare_folder_namespace_attempt r ids lookup = Some ?w"
    using assms by (simp add: prepare_folder_namespace_attempt_def prepare_folder_delete_def)
  ultimately show ?thesis by blast
qed

text \<open>The state is reached: the create is answered by a refusal with a delete waiting behind it.\<close>

definition ex_waiting_folder :: folder_record where
  "ex_waiting_folder = ex_folder\<lparr>fol_serverHold := LocalHold, fol_canonical := None,
     fol_observationVersion := None, fol_revision := 4,
     fol_intents :=
      [(ex_intent 1 Received (SetFolderLocation ''a'' (ex_destination ''a''))
          [\<lparr>att_id = ''t1'', att_request = CreateFolderRequest NoOwner
             \<lparr>cfb_folderId = ''f1'', cfb_destination = create_destination_of (ex_destination ''a'')\<rparr>,
            att_outcome = Some (RefusalOutcome ''f1''
              \<lparr>me_code = ''name_taken'', me_message = ''taken'', me_retryable = False\<rparr>)\<rparr>]),
       (ex_intent 2 Pending DeleteEntry [])\<lparr>int_operationId := Some ''op2''\<rparr>]\<rparr>"

theorem waiting_folder_delete_rejected_witness:
  "\<exists>s w. settle_folder_namespace_outcome ex_waiting_folder 9 = Some s \<and>
     folder_accepts (Some ex_waiting_folder) (fw_next s) \<and>
     prepare_folder_namespace_attempt (fw_next s) \<lparr>aid_attemptId = ''t2'', aid_operationId = ''o''\<rparr>
       (\<lambda>_. None) = Some w \<and>
     \<not> folder_accepts (Some (fw_next s)) (fw_next w)"
proof -
  define s where "s = the (settle_folder_namespace_outcome ex_waiting_folder 9)"
  have s: "settle_folder_namespace_outcome ex_waiting_folder 9 = Some s"
    unfolding s_def by code_simp
  have v: "validate_folder_namespace_update (Some ex_waiting_folder) (fw_next s) None = Inr ()"
    unfolding s_def by code_simp
  have a: "active_namespace_intent (fol_intents (fw_next s)) =
      Some (fol_intents (fw_next s) ! 1)"
    unfolding s_def by code_simp
  have b: "int_state (fol_intents (fw_next s) ! 1) = Pending"
    "int_desired (fol_intents (fw_next s) ! 1) = DeleteEntry"
    "\<not> delete_needs_server (fol_serverHold (fw_next s))"
    unfolding s_def by code_simp+
  have c: "fol_localDeletion (fw_next s) = None" "fol_canonicalRefresh (fw_next s) = None"
    "fol_terminal (fw_next s) = None"
    unfolding s_def by code_simp+
  from v have f: "folder_accepts (Some ex_waiting_folder) (fw_next s)"
    unfolding folder_accepts_def by blast
  show ?thesis
    using waiting_folder_delete_rejected [OF a b c] s f by blast
qed

end
