(* ===== verification/Folder_Replay.thy ===== *)
theory Folder_Replay
  imports Replay_Steps Folder_Validator
begin

text \<open>
  \<^verbatim>\<open>reconcileFolderNamespace\<close>: the replay loop over a folder's journal, committed through the metadata
  store's compare-and-set and the folder validator, and its contract with the loop.
\<close>

section \<open>The folder's callbacks\<close>

text \<open>\<^verbatim>\<open>commitFolder\<close> of one record: stale unless the revision read is still the stored one.\<close>

definition commit_folder ::
  "folder_record replay_env \<Rightarrow> folder_record option \<Rightarrow> folder_write \<Rightarrow> folder_record option result" where
  "commit_folder env stored w =
     (if map_option fol_revision stored \<noteq> fw_expectedRevision w then Inr None
      else and_then (validate_folder_namespace_update stored (fw_next w) (re_operation env (fw_next w)))
        (\<lambda>_. Inr (Some (fw_next w))))"

definition folder_prepare ::
  "folder_record replay_env \<Rightarrow> folder_record event list \<Rightarrow> folder_record \<Rightarrow> attempt_ids \<Rightarrow>
     folder_write option result" where
  "folder_prepare env es record ids =
     (let prepare = prepare_folder_namespace_attempt record ids
      in case active_namespace_intent (fol_intents record) of
        None \<Rightarrow> Inr (prepare (\<lambda>_. None))
      | Some i \<Rightarrow> (case int_desired i of
            SetFolderLocation _ d \<Rightarrow> (case dest_parent d of
                FolderParent folderId \<Rightarrow>
                  and_then (re_lookupIdentity env es (int_projectId i) FolderKind folderId) (\<lambda>observed.
                    Inr (prepare
                      (\<lambda>_. case observed of Available av \<Rightarrow> Some (av_location av) | _ \<Rightarrow> None)))
              | _ \<Rightarrow> Inr (prepare (\<lambda>_. None)))
          | _ \<Rightarrow> Inr (prepare (\<lambda>_. None))))"

definition refresh_folder ::
  "folder_record replay_env \<Rightarrow> folder_record event list \<Rightarrow> folder_record \<Rightarrow>
     folder_write option result" where
  "refresh_folder env es record =
     (case fol_canonicalRefresh record of
        None \<Rightarrow> Inr None
      | Some barrier \<Rightarrow> (case refresh_witness (folder_origin record) (re_operation env record)
            (fr_operationId barrier) of
            None \<Rightarrow> Inr None
          | Some projectId \<Rightarrow>
              and_then (re_lookupIdentity env es projectId FolderKind (fol_folderId record))
                (\<lambda>availability. install_folder_namespace_availability record
                  (fr_operationId barrier) availability)))"

definition folder_journal ::
  "folder_record replay_env \<Rightarrow> (folder_record, folder_write) namespace_journal" where
  "folder_journal env =
     \<lparr>nj_accounts = re_accounts env, nj_intents = fol_intents, nj_next = fw_next,
      nj_commit = commit_folder env, nj_newAttemptIds = re_newAttemptIds env,
      nj_gate = re_gate env, nj_prepare = folder_prepare env, nj_repair = (\<lambda>r k. Inr (folder_needs_repair_write r k)),
      nj_recordOutcome = record_folder_namespace_outcome,
      nj_settle = (\<lambda>r. Inr (settle_folder_namespace_outcome r (re_now env))),
      nj_pendingJoin = (\<lambda>_. False), nj_refresh = refresh_folder env,
      nj_replayEligible = (\<lambda>r _ a. folder_replay_eligible r a),
      nj_lockFree = re_lockFree env, nj_readOutcome = re_readOutcome env,
      nj_submit = re_submit env\<rparr>"

definition reconcile_folder_namespace ::
  "nat \<Rightarrow> folder_record replay_env \<Rightarrow> folder_record world \<Rightarrow>
     reconcile_result option result \<times> folder_record world" where
  "reconcile_folder_namespace fuel env = reconcile_namespace_journal fuel (folder_journal env)"

section \<open>The contract with the loop\<close>

definition stored_folder :: "folder_record \<Rightarrow> bool" where
  "stored_folder r \<longleftrightarrow> (\<exists>p. folder_accepts p r)"

definition folder_writes_over :: "folder_record \<Rightarrow> folder_write \<Rightarrow> bool" where
  "folder_writes_over r w \<longleftrightarrow> fw_expectedRevision w = Some (fol_revision r)"

lemma folder_update_over [simp]: "folder_writes_over r (folder_update (Some r) n)"
  by (simp add: folder_writes_over_def folder_update_def)

lemma folder_replaced_fields:
  "fol_intents (fw_next (folder_replace_intent r k g hold)) =
     map (\<lambda>i. if int_id i = k then g i else i) (fol_intents r)"
  "folder_writes_over r (folder_replace_intent r k g hold)"
  by (simp_all add: folder_replace_intent_def) (simp add: folder_update_def)

lemma stored_folder_journal:
  assumes "stored_folder r"
  shows "accepted_journal (fol_intents r)"
proof -
  from assms obtain p where "validate_namespace_journal (folder_journal_input p r) = Inr ()"
    using folder_accepts_checks(4) by (auto simp: stored_folder_def)
  from accepted_journalI [OF this] show ?thesis by (simp add: folder_journal_input_def)
qed

lemma prepared_folder_cases:
  assumes "prepare_folder_namespace_attempt r ids lookup = Some w"
    and "active_namespace_intent (fol_intents r) = Some i"
  shows "(fol_intents (fw_next w) = resolve_unavailable_namespace (fol_intents r) True \<and>
       folder_writes_over r w) \<or>
     (\<exists>g hold. w = folder_replace_intent r (int_id i) g hold \<and>
       (\<forall>x. int_sequence (g x) = int_sequence x) \<and>
       int_state (g i) \<in> {SettledLocally, NeedsRepair, Submitted})"
proof -
  have replaced: "\<exists>g' hold'. folder_replace_intent r (int_id i) g hold =
       folder_replace_intent r (int_id i) g' hold' \<and> (\<forall>x. int_sequence (g' x) = int_sequence x) \<and>
       int_state (g' i) \<in> {SettledLocally, NeedsRepair, Submitted}"
    if "g = (\<lambda>i. i\<lparr>int_state := SettledLocally\<rparr>) \<or> g = (\<lambda>i. i\<lparr>int_state := NeedsRepair\<rparr>) \<or>
      (\<exists>a. g = submit_intent a)" for g hold
    using that by (intro exI [of _ g] exI [of _ hold]) (auto simp: submit_intent_def)
  show ?thesis
  proof (cases "fol_terminal r = None")
    case False
    with assms show ?thesis
      by (auto simp: prepare_folder_namespace_attempt_def folder_update_def folder_writes_over_def
          split: if_splits)
  next
    case True
    with assms have "(\<exists>t d. prepare_folder_placement r i t d ids lookup = Some w) \<or>
        prepare_folder_delete r i ids = Some w"
      by (auto simp: prepare_folder_namespace_attempt_def split: if_splits desired.splits)
    then have "\<exists>g hold. w = folder_replace_intent r (int_id i) g hold \<and>
      (g = (\<lambda>i. i\<lparr>int_state := SettledLocally\<rparr>) \<or> g = (\<lambda>i. i\<lparr>int_state := NeedsRepair\<rparr>) \<or>
        (\<exists>a. g = submit_intent a))"
      by (auto simp: prepare_folder_placement_def prepare_folder_delete_def Let_def
          folder_needs_repair_write_def split: option.splits if_splits server_hold.splits)
    with replaced show ?thesis by blast
  qed
qed

lemma prepared_folder:
  "folder_prepare env es r ids = Inr (Some w) \<Longrightarrow>
     \<exists>lookup. prepare_folder_namespace_attempt r ids lookup = Some w"
  by (auto simp: folder_prepare_def Let_def split: option.splits desired.splits parent_ref.splits)

lemma prepared_folder_active:
  "prepare_folder_namespace_attempt r ids lookup = Some w \<Longrightarrow>
     \<exists>i. active_namespace_intent (fol_intents r) = Some i"
  by (auto simp: prepare_folder_namespace_attempt_def split: option.splits)

lemma prepared_folder_over:
  assumes "prepare_folder_namespace_attempt r ids lookup = Some w"
  shows "folder_writes_over r w"
  using prepared_folder_active [OF assms] prepared_folder_cases [OF assms] folder_replaced_fields(2)
  by blast

lemma prepared_folder_rank:
  assumes stored: "stored_folder r" "stored_folder (fw_next w)"
    and p: "prepare_folder_namespace_attempt r ids lookup = Some w"
  shows "progress_rank (fol_intents (fw_next w)) < 3"
proof -
  from prepared_folder_active [OF p] obtain i where i: "active_namespace_intent (fol_intents r) = Some i"
    by blast
  from prepared_folder_cases [OF p i] show ?thesis
  proof (elim disjE exE conjE)
    fix g hold assume w: "w = folder_replace_intent r (int_id i) g hold"
      and g: "\<forall>x. int_sequence (g x) = int_sequence x"
        "int_state (g i) \<in> {SettledLocally, NeedsRepair, Submitted}"
    from g show ?thesis
      by (intro replaced_rank [OF stored_folder_journal [OF stored(1)] i
            stored_folder_journal [OF stored(2)], of g]) (simp_all add: w folder_replaced_fields)
  qed (simp add: unavailable_rank)
qed

lemma recorded_folder:
  assumes stored: "stored_folder r" and i: "active_namespace_intent (fol_intents r) = Some i"
  shows "record_folder_namespace_outcome r (int_id i) t out = Inr (Some w) \<Longrightarrow>
      progress_rank (fol_intents (fw_next w)) < 2"
    and "int_state i = Submitted \<Longrightarrow> at_last (int_attempts i) = Some a \<Longrightarrow>
      record_folder_namespace_outcome r (int_id i) (att_id a) out \<noteq> Inr None"
proof -
  note J = stored_folder_journal [OF stored]
  note f = found_active [OF J i]
  show "int_state i = Submitted \<Longrightarrow> at_last (int_attempts i) = Some a \<Longrightarrow>
      record_folder_namespace_outcome r (int_id i) (att_id a) out \<noteq> Inr None"
    using accepted_journal_facts(3) [OF J active_intent_props(1) [OF i]] f
    by (auto simp: record_folder_namespace_outcome_def last_outcome_def
        namespace_attempt_with_outcome_def)
  assume w: "record_folder_namespace_outcome r (int_id i) t out = Inr (Some w)"
  then obtain answered hold where
    "w = folder_replace_intent r (int_id i) (receive_intent t answered) hold"
    using f by (auto simp: record_folder_namespace_outcome_def split: option.splits if_splits)
  with received_rank [OF J i] show "progress_rank (fol_intents (fw_next w)) < 2"
    by (simp add: folder_replaced_fields)
qed

lemma committed_folder:
  "commit_folder env stored w = Inr (Some n) \<Longrightarrow> n = fw_next w \<and> folder_accepts stored n"
  by (auto simp: commit_folder_def folder_accepts_def split: if_splits)

lemma refresh_folder_over:
  assumes "refresh_folder env es r = Inr (Some w)"
  shows "folder_writes_over r w"
proof -
  have i: "folder_writes_over r w"
    if "install_folder_canonical_refresh r k av = Inr (Some w)" for k av
    using that by (auto simp: install_folder_canonical_refresh_def Let_def split: option.splits if_splits)
  have "folder_writes_over r w" if "install_folder_namespace_availability r k av = Inr (Some w)" for k av
    using that i by (cases av) (auto simp: install_folder_namespace_availability_def Let_def split: if_splits)
  with assms show ?thesis by (auto simp: refresh_folder_def split: option.splits)
qed

lemma settled_folder_over:
  "settle_folder_namespace_outcome r t = Some w \<Longrightarrow> folder_writes_over r w"
  by (auto simp: settle_folder_namespace_outcome_def Let_def split: option.splits if_splits)

lemma recorded_folder_over:
  "record_folder_namespace_outcome r k t out = Inr (Some w) \<Longrightarrow> folder_writes_over r w"
  by (auto simp: record_folder_namespace_outcome_def folder_replaced_fields
      split: option.splits if_splits)

interpretation folder_replay: namespace_replay "folder_journal env" stored_folder folder_writes_over
  for env
proof unfold_locales
  fix r n es ids k t out i a stored and w :: folder_write
  show "nj_commit (folder_journal env) (Some r) w \<noteq> Inr None" if "folder_writes_over r w"
    using that by (simp add: folder_journal_def commit_folder_def folder_writes_over_def)
  show "stored_folder n" if "nj_commit (folder_journal env) stored w = Inr (Some n)"
    using committed_folder [of env stored w n] that
    by (auto simp: folder_journal_def stored_folder_def)
  show "folder_writes_over r w" if "nj_refresh (folder_journal env) es r = Inr (Some w)"
    using that refresh_folder_over by (simp add: folder_journal_def)
  show "folder_writes_over r w" if "nj_repair (folder_journal env) r k = Inr w"
    using that by (auto simp: folder_journal_def folder_needs_repair_write_def folder_replaced_fields)
  show "folder_writes_over r w" if "nj_prepare (folder_journal env) es r ids = Inr (Some w)"
    using that prepared_folder prepared_folder_over by (fastforce simp: folder_journal_def)
  show "folder_writes_over r w" if "nj_settle (folder_journal env) r = Inr (Some w)"
    using that settled_folder_over by (simp add: folder_journal_def)
  show "folder_writes_over r w" if "nj_recordOutcome (folder_journal env) r k t out = Inr (Some w)"
    using that recorded_folder_over by (simp add: folder_journal_def)
  show "left_for_repair (nj_intents (folder_journal env) (nj_next (folder_journal env) w)) (int_id i)"
    if "active_namespace_intent (nj_intents (folder_journal env) r) = Some i"
      "nj_repair (folder_journal env) r (int_id i) = Inr w"
    using repaired_left that
    by (auto simp: folder_journal_def folder_needs_repair_write_def folder_replaced_fields)
  show "progress_rank (nj_intents (folder_journal env) n) < 3"
    if "stored_folder r" "nj_prepare (folder_journal env) es r ids = Inr (Some w)"
      "nj_commit (folder_journal env) (Some r) w = Inr (Some n)"
    using that committed_folder prepared_folder prepared_folder_rank
    by (fastforce simp: folder_journal_def stored_folder_def)
  show "progress_rank (nj_intents (folder_journal env) n) < 2"
    if "stored_folder r" "active_namespace_intent (nj_intents (folder_journal env) r) = Some i"
      "nj_recordOutcome (folder_journal env) r (int_id i) t out = Inr (Some w)"
      "nj_commit (folder_journal env) (Some r) w = Inr (Some n)"
    using recorded_folder(1) [OF that(1)] that committed_folder
    by (fastforce simp: folder_journal_def)
  show "nj_recordOutcome (folder_journal env) r (int_id i) (att_id a) out \<noteq> Inr None"
    if "stored_folder r" "active_namespace_intent (nj_intents (folder_journal env) r) = Some i"
      "int_state i = Submitted" "at_last (int_attempts i) = Some a"
    using recorded_folder(2) [OF that(1)] that by (auto simp: folder_journal_def)
qed

section \<open>Properties\<close>

text \<open>C19: A pass over a folder ends once the other actors have stopped changing the record, and its commits
  and theirs only ever continue the record's history: the folder stored after the pass is reached
  from the one before it by updates the store accepts, so handle, held id, place and recorded
  requests are kept.\<close>

theorem folder_pass_ends_in_history:
  assumes "w_stored w = Some r" and "stored_folder r"
    and "\<And>f s x. f \<in> set (w_others w) \<Longrightarrow> (\<And>y. s = Some y \<Longrightarrow> stored_folder y) \<Longrightarrow>
      f s = Some x \<Longrightarrow> stored_folder x"
    and "\<And>f x. f \<in> set (w_others w) \<Longrightarrow> \<exists>y. f (Some x) = Some y \<and> folder.stored_after x y"
    and "length (w_others w) + 4 \<le> fuel"
  shows "fst (reconcile_folder_namespace fuel env w) \<noteq> Inr None \<and>
     (\<exists>r'. w_stored (snd (reconcile_folder_namespace fuel env w)) = Some r' \<and>
        folder.stored_after r r')"
proof
  have "folder_replay.sound_world w"
    unfolding folder_replay.sound_world_def using assms(1-3) by auto
  with folder_replay.pass_ends assms(5)
  show "fst (reconcile_folder_namespace fuel env w) \<noteq> Inr None"
    by (simp add: reconcile_folder_namespace_def)
  show "\<exists>r'. w_stored (snd (reconcile_folder_namespace fuel env w)) = Some r' \<and>
      folder.stored_after r r'"
    unfolding reconcile_folder_namespace_def
  proof (rule pass_reaches [where reach = folder.stored_after and nj = "folder_journal env"])
    fix x y wr assume "nj_commit (folder_journal env) (Some x) wr = Inr (Some y)"
    then have "folder_accepts (Some x) y" using committed_folder by (auto simp: folder_journal_def)
    then show "folder.stored_after x y" by (rule folder.stored_after.later [OF folder.stored_after.same])
  qed (use assms folder.stored_after_trans folder.stored_after.same in blast)+
qed

text \<open>A server that makes the folder at the first request.\<close>

definition ex_folder_env :: "folder_record replay_env" where
  "ex_folder_env = \<lparr>re_accounts = (''u'', ''u'', ''u''),
     re_newAttemptIds = (\<lambda>_. \<lparr>aid_attemptId = ''t1'', aid_operationId = ''o1''\<rparr>), re_gate = None,
     re_lookupIdentity = (\<lambda>_ _ _ _. Inr Unavailable), re_operation = (\<lambda>_. None), re_now = 5,
     re_lockFree = (\<lambda>_. True), re_readOutcome = (\<lambda>_ _ _. Inr None),
     re_submit = (\<lambda>_ _ _. Inr (Some (CreateFolderOutcome (FolderMade False ''f1''
       \<lparr>addr_scheme = Unfiled, addr_path = ''a'', addr_name = ''a'', addr_workId = None\<rparr>))))\<rparr>"

definition ex_new_folder :: folder_record where
  "ex_new_folder = ex_folder\<lparr>fol_serverHold := LocalHold, fol_canonical := None,
     fol_observationVersion := None,
     fol_intents := [ex_intent 1 Pending (SetFolderLocation ''a'' (ex_destination ''a'')) []]\<rparr>"

theorem folder_pass_ends_in_history_witness:
  "let w = \<lparr>w_stored = Some ex_new_folder, w_others = [], w_log = []\<rparr>;
       pass = reconcile_folder_namespace 4 ex_folder_env w
   in fst pass \<noteq> Inr None \<and> fst pass = Inr (Some Progressed) \<and>
      (\<exists>r'. w_stored (snd pass) = Some r' \<and> folder.stored_after ex_new_folder r' \<and>
        fol_serverHold r' = HeldHold)"
proof -
  let ?w = "\<lparr>w_stored = Some ex_new_folder, w_others = [], w_log = []\<rparr> :: folder_record world"
  let ?pass = "reconcile_folder_namespace 4 ex_folder_env ?w"
  have v: "validate_folder_namespace_update None ex_new_folder None = Inr ()" by code_simp
  have s: "stored_folder ex_new_folder"
    unfolding stored_folder_def folder_accepts_def using v by blast
  have e: "fst ?pass = Inr (Some Progressed)" by code_simp
  have h: "map_option fol_serverHold (w_stored (snd ?pass)) = Some HeldHold" by code_simp
  from folder_pass_ends_in_history [of ?w ex_new_folder 4 ex_folder_env] s
  have "\<exists>r'. w_stored (snd ?pass) = Some r' \<and> folder.stored_after ex_new_folder r'" by simp
  with e h show ?thesis by (auto simp: Let_def)
qed

end
