(* ===== verification/Folder_Planning.thy ===== *)
theory Folder_Planning
  imports Folder_Replay
begin

text \<open>
  Every write the reconciler plans over a folder record in order (preparing a request, leaving a
  placement for repair, recording an answer, settling it, installing an observation) passes the
  whole folder validator and leaves the record in order.
\<close>

section \<open>Records in order\<close>

text \<open>The store would take the record again unchanged.\<close>

definition folder_rests :: "operation_record option \<Rightarrow> folder_record \<Rightarrow> bool" where
  "folder_rests op r \<longleftrightarrow>
     validate_folder_namespace_update (Some r) (r\<lparr>fol_revision := fol_revision r + 1\<rparr>) op = Inr ()"

definition in_flight :: "namespace_intent \<Rightarrow> bool" where
  "in_flight i \<longleftrightarrow> int_state i = Submitted \<or> int_state i = Received"

text \<open>A request on its way is the active intent's, no barrier is up, and either it creates the folder and
  the hold already says what the request or its answer makes of the id, or the folder has a place.\<close>

definition in_flight_ok :: "folder_record \<Rightarrow> bool" where
  "in_flight_ok r \<longleftrightarrow>
     (\<forall>i \<in> set (fol_intents r). in_flight i \<longrightarrow>
        active_namespace_intent (fol_intents r) = Some i \<and> fol_canonicalRefresh r = None \<and>
        (\<forall>a. at_last (int_attempts i) = Some a \<longrightarrow>
           (if is_create_request (att_request a)
            then fol_copiedBy r = None \<and>
              hold_after_attempt (fol_serverHold r) a = fol_serverHold r
            else fol_canonical r \<noteq> None)))"

definition repairs_refused :: "folder_record \<Rightarrow> bool" where
  "repairs_refused r \<longleftrightarrow>
     (\<forall>i \<in> set (fol_intents r). int_state i = NeedsRepair \<longrightarrow> \<not> intent_accepted i)"

definition folder_in_order :: "operation_record option \<Rightarrow> folder_record \<Rightarrow> bool" where
  "folder_in_order op r \<longleftrightarrow> folder_rests op r \<and> in_flight_ok r \<and> repairs_refused r"

section \<open>What a record at rest satisfies\<close>

definition folder_holds_ok :: "folder_record \<Rightarrow> bool" where
  "folder_holds_ok r \<longleftrightarrow>
     (fol_canonical r \<noteq> None \<longrightarrow> fol_serverHold r = HeldHold) \<and>
     (fol_copiedBy r \<noteq> None \<longrightarrow> fol_serverHold r = UncertainHold \<or> fol_serverHold r = HeldHold)"

definition folder_place_ok :: "operation_record option \<Rightarrow> folder_record \<Rightarrow> bool" where
  "folder_place_ok op r \<longleftrightarrow>
     (if fol_canonical r \<noteq> None then check_canonical_authority r = Inr () else placeless r) \<and>
     (case fol_canonicalRefresh r of None \<Rightarrow> True
      | Some c \<Rightarrow> refresh_witness (folder_origin r) op (fr_operationId c) \<noteq> None)"

lemma revision_irrelevant [simp]:
  "check_folder_commands (r\<lparr>fol_revision := k\<rparr>) = check_folder_commands r"
  "check_local_deletion (r\<lparr>fol_revision := k\<rparr>) = check_local_deletion r"
  "folder_journal_input p (r\<lparr>fol_revision := k\<rparr>) = folder_journal_input p r"
  "check_canonical_authority (r\<lparr>fol_revision := k\<rparr>) = check_canonical_authority r"
  "placeless (r\<lparr>fol_revision := k\<rparr>) = placeless r"
  by (simp_all add: check_folder_commands_def request_names_folder_def named_by_def
      check_local_deletion_def folder_journal_input_def check_canonical_authority_def placeless_def
      cong: namespace_request.case_cong option.case_cong split: option.split)

lemma check_folder_hold_iff:
  "check_folder_hold (Some p) n = Inr () \<longleftrightarrow>
     folder_holds_ok n \<and> (fol_serverHold p = HeldHold \<longrightarrow> fol_serverHold n = HeldHold) \<and>
     map_option cby_operationId (fol_copiedBy p) = map_option cby_operationId (fol_copiedBy n)"
  by (auto simp: check_folder_hold_def folder_holds_ok_def)

lemma check_folder_place_iff:
  "check_folder_place (Some p) n op = Inr () \<longleftrightarrow>
     folder_place_ok op n \<and> (fol_canonical p \<noteq> None \<longrightarrow> fol_canonical n \<noteq> None) \<and>
     (fol_canonical p = None \<and> fol_canonical n \<noteq> None \<longrightarrow>
        first_place_witnessed (folder_origin n) op (fol_folderId n) FolderKind)"
  by (auto simp: check_folder_place_def folder_place_ok_def split: option.splits)

lemma folder_update_accepted_iff:
  "validate_folder_namespace_update (Some p) n op = Inr () \<longleftrightarrow>
     check_folder_identity (Some p) n = Inr () \<and> check_folder_commands n = Inr () \<and>
     check_folder_terminal (Some p) n = Inr () \<and>
     validate_namespace_journal (folder_journal_input (Some p) n) = Inr () \<and>
     check_local_deletion n = Inr () \<and> check_folder_hold (Some p) n = Inr () \<and>
     check_folder_place (Some p) n op = Inr ()"
  by (simp add: validate_folder_namespace_update_def)

lemma folder_rests_iff:
  "folder_rests op r \<longleftrightarrow>
     check_folder_commands r = Inr () \<and> journal_rests (folder_journal_input None r) (fol_intents r) \<and>
     check_local_deletion r = Inr () \<and> folder_holds_ok r \<and> folder_place_ok op r"
proof -
  have "check_folder_identity (Some r) (r\<lparr>fol_revision := fol_revision r + 1\<rparr>) = Inr ()"
    by (simp add: check_folder_identity_def)
  moreover have "check_folder_terminal (Some r) (r\<lparr>fol_revision := fol_revision r + 1\<rparr>) = Inr ()"
    by (simp add: check_folder_terminal_def)
  moreover have "folder_holds_ok (r\<lparr>fol_revision := k\<rparr>) = folder_holds_ok r"
    "folder_place_ok op (r\<lparr>fol_revision := k\<rparr>) = folder_place_ok op r" for k
    by (simp_all add: folder_holds_ok_def folder_place_ok_def split: option.split)
  moreover have "folder_journal_input (Some r) r =
      (folder_journal_input None r)\<lparr>ji_previous := Some (fol_intents r), ji_intents := fol_intents r\<rparr>"
    by (simp add: folder_journal_input_def)
  ultimately show ?thesis
    by (auto simp: folder_rests_def folder_update_accepted_iff check_folder_hold_iff
        check_folder_place_iff journal_rests_def)
qed

text \<open>A record the store let in, none of whose superseded intents was accepted, is at rest.\<close>

lemma accepted_folder_rests:
  assumes v: "validate_folder_namespace_update (Some p) n op = Inr ()"
    and clean: "\<And>i. i \<in> set (fol_intents n) \<Longrightarrow> int_state i = Superseded \<Longrightarrow> \<not> intent_accepted i"
  shows "folder_rests op n"
proof -
  have "validate_namespace_journal (folder_journal_input (Some p) n) = Inr ()"
    using v by (simp add: folder_update_accepted_iff)
  from accepted_rests [OF this] clean
  have "journal_rests (folder_journal_input (Some p) n) (fol_intents n)"
    by (simp add: folder_journal_input_def)
  then have "journal_rests (folder_journal_input None n) (fol_intents n)"
    by (rule rests_cong) (simp_all add: folder_journal_input_def)
  with v show ?thesis
    by (simp add: folder_rests_iff folder_update_accepted_iff check_folder_hold_iff check_folder_place_iff)
qed

section \<open>Updates over a record at rest\<close>

text \<open>The update keeps everything that names the folder.\<close>

definition same_folder :: "folder_record \<Rightarrow> folder_record \<Rightarrow> bool" where
  "same_folder r n \<longleftrightarrow>
     fol_revision n = fol_revision r + 1 \<and> fol_handle n = fol_handle r \<and>
     fol_projectId n = fol_projectId r \<and> fol_folderId n = fol_folderId r \<and>
     fol_aliases n = fol_aliases r \<and> fol_copiedBy n = fol_copiedBy r \<and>
     fol_localDeletion n = fol_localDeletion r"

text \<open>An intent of the update stands for one of the record; a request it adds names the folder.\<close>

definition stands_for :: "folder_record \<Rightarrow> namespace_intent \<Rightarrow> namespace_intent \<Rightarrow> bool" where
  "stands_for r i j \<longleftrightarrow>
     int_projectId j = int_projectId i \<and> int_identityRevision j = int_identityRevision i \<and>
     (is_folder_location (int_desired i) \<longrightarrow> is_folder_location (int_desired j)) \<and>
     (int_desired i = DeleteEntry \<longrightarrow> int_desired j = DeleteEntry) \<and>
     (settled_deletion j \<longrightarrow> settled_deletion i) \<and>
     (\<forall>a \<in> set (int_attempts j). att_request a \<in> att_request ` set (int_attempts i) \<or>
        request_names_folder r (att_request a))"

definition intents_from :: "folder_record \<Rightarrow> folder_record \<Rightarrow> bool" where
  "intents_from r n \<longleftrightarrow> (\<forall>j \<in> set (fol_intents n). \<exists>i \<in> set (fol_intents r). stands_for r i j)"

lemma stands_for_refl [simp]: "stands_for r i i"
  by (simp add: stands_for_def)

lemma stands_for_state [simp]:
  "s \<noteq> SettledLocally \<Longrightarrow> stands_for r i (i\<lparr>int_state := s\<rparr>)"
  "s \<noteq> SettledLocally \<Longrightarrow> stands_for r i (i\<lparr>int_state := s, int_settledAt := t\<rparr>)"
  by (simp_all add: stands_for_def settled_deletion_def)

lemma intents_from_map:
  "fol_intents n = map f (fol_intents r) \<Longrightarrow>
     (\<And>x. x \<in> set (fol_intents r) \<Longrightarrow> stands_for r x (f x)) \<Longrightarrow> intents_from r n"
  by (auto simp: intents_from_def)

lemma unavailable_from:
  assumes "fol_intents n = resolve_unavailable_namespace (fol_intents r) terminal"
  shows "intents_from r n"
  using assms unfolding resolve_unavailable_namespace_def by (rule intents_from_map) simp

lemma commands_kept:
  assumes c: "check_folder_commands r = Inr ()" and same: "same_folder r n" and f: "intents_from r n"
  shows "check_folder_commands n = Inr ()"
proof -
  have named: "request_names_folder n q = request_names_folder r q" for q
    using same by (simp add: request_names_folder_def named_by_def same_folder_def
        cong: namespace_request.case_cong)
  have p: "fol_projectId n = fol_projectId r" using same by (simp add: same_folder_def)
  have "folder_command (fol_projectId n) j \<and> (\<forall>a \<in> set (int_attempts j). request_names_folder n (att_request a))"
    if j: "j \<in> set (fol_intents n)" for j
  proof -
    from f j obtain i where i: "i \<in> set (fol_intents r)" "stands_for r i j"
      by (auto simp: intents_from_def)
    with c have "folder_command (fol_projectId r) i"
      "\<forall>a \<in> set (int_attempts i). request_names_folder r (att_request a)"
      by (auto simp: check_folder_commands_def list_ex_iff split: if_splits)
    with i(2) show ?thesis by (auto simp: stands_for_def folder_command_def p named)
  qed
  then show ?thesis by (auto simp: check_folder_commands_def list_ex_iff)
qed

lemma journal_forward:
  assumes "validate_namespace_journal (folder_journal_input (Some r) n) = Inr ()"
    and "i \<in> set (fol_intents r)"
  shows "\<exists>j \<in> set (fol_intents n). intent_continues i j"
proof (rule accepted_update_continues [OF _ assms(2)])
  show "accepted_update (fol_intents r) (fol_intents n)"
    unfolding accepted_update_def using assms(1)
    by (intro exI [of _ "folder_journal_input (Some r) n"]) (simp add: folder_journal_input_def)
qed

lemma local_kept:
  assumes l: "check_local_deletion r = Inr ()" and same: "same_folder r n" and f: "intents_from r n"
    and j: "validate_namespace_journal (folder_journal_input (Some r) n) = Inr ()"
  shows "check_local_deletion n = Inr ()"
proof (cases "fol_localDeletion r")
  case None
  with l have "\<forall>i \<in> set (fol_intents r). \<not> settled_deletion i"
    by (auto simp: check_local_deletion_def list_ex_iff split: if_splits)
  with f have "\<forall>i \<in> set (fol_intents n). \<not> settled_deletion i"
    by (auto simp: intents_from_def stands_for_def)
  with None same show ?thesis by (auto simp: check_local_deletion_def list_ex_iff same_folder_def)
next
  case (Some w)
  with l obtain i where i: "i \<in> set (fol_intents r)" "int_id i = ld_obligationId w" "settled_deletion i"
    by (auto simp: check_local_deletion_def list_ex_iff split: if_splits)
  from journal_forward [OF j i(1)] obtain k where "k \<in> set (fol_intents n)" "intent_continues i k"
    by blast
  with i have "k \<in> set (fol_intents n) \<and> int_id k = ld_obligationId w \<and> settled_deletion k"
    by (auto simp: settled_deletion_def intent_continues_def)
  with Some same show ?thesis by (auto simp: check_local_deletion_def list_ex_iff same_folder_def)
qed

lemma identity_kept: "same_folder r n \<Longrightarrow> check_folder_identity (Some r) n = Inr ()"
  by (simp add: same_folder_def check_folder_identity_def)

theorem folder_step_accepted:
  assumes rests: "folder_rests op r" and same: "same_folder r n" and f: "intents_from r n"
    and j: "validate_namespace_journal (folder_journal_input (Some r) n) = Inr ()"
    and terminal: "check_folder_terminal (Some r) n = Inr ()"
    and holds: "folder_holds_ok n" "fol_serverHold r = HeldHold \<longrightarrow> fol_serverHold n = HeldHold"
    and place: "check_folder_place (Some r) n op = Inr ()"
  shows "validate_folder_namespace_update (Some r) n op = Inr ()"
proof -
  from rests have "check_folder_commands r = Inr ()" "check_local_deletion r = Inr ()"
    by (simp_all add: folder_rests_iff)
  with commands_kept [OF _ same f] local_kept [OF _ same f j] identity_kept [OF same] assms
  show ?thesis by (simp add: folder_update_accepted_iff check_folder_hold_iff same_folder_def)
qed

section \<open>Places and barriers are kept\<close>

lemma answers_continue:
  assumes "attempts_continue xs ys"
  shows "a \<in> set xs \<Longrightarrow> att_outcome a = Some out \<Longrightarrow> \<exists>b \<in> set ys. att_outcome b = Some out"
  using assms
proof (induction xs arbitrary: ys)
  case (Cons x xs)
  then show ?case by (cases ys) (auto simp: attempt_continues_def)
qed simp

lemma map_filter_mem: "y \<in> set (List.map_filter f xs) \<longleftrightarrow> (\<exists>x \<in> set xs. f x = Some y)"
  by (induction xs) (auto simp: map_filter_simps split: option.splits)

lemma intent_answers_mem:
  "(p, out) \<in> set (intent_answers q i) \<longleftrightarrow>
     p = (case q of None \<Rightarrow> int_projectId i | Some p \<Rightarrow> p) \<and> accepted_outcome out \<and>
     (\<exists>a \<in> set (int_attempts i). att_outcome a = Some out)"
  unfolding intent_answers_def map_filter_mem by (auto split: option.splits if_splits)

lemma answers_kept:
  assumes j: "validate_namespace_journal (folder_journal_input (Some r) n) = Inr ()"
    and same: "same_folder r n"
  shows "set (accepted_answers (folder_origin r) op) \<subseteq> set (accepted_answers (folder_origin n) op)"
proof
  fix x assume x: "x \<in> set (accepted_answers (folder_origin r) op)"
  obtain p out where po: "x = (p, out)" by force
  have "x \<in> set (accepted_answers (folder_origin n) op)"
    if i: "i \<in> set (fol_intents r)" "(p, out) \<in> set (intent_answers None i)" for i
  proof -
    from journal_forward [OF j i(1)] obtain k where k: "k \<in> set (fol_intents n)" "intent_continues i k"
      by blast
    with i(2) answers_continue [of "int_attempts i" "int_attempts k"]
    have "(p, out) \<in> set (intent_answers None k)"
      by (auto simp: intent_answers_mem intent_continues_def)
    with k(1) po show ?thesis by (auto simp: accepted_answers_def)
  qed
  with x po same show "x \<in> set (accepted_answers (folder_origin n) op)"
    by (auto simp: accepted_answers_def same_folder_def split: option.splits if_splits)
qed

lemma find_monotone: "find P xs \<noteq> None \<Longrightarrow> set xs \<subseteq> set ys \<Longrightarrow> find P ys \<noteq> None"
  by (auto simp: find_None_iff)

lemma witness_kept:
  assumes "set (accepted_answers o1 op) \<subseteq> set (accepted_answers o2 op)"
    and "refresh_witness o1 op k \<noteq> None"
  shows "refresh_witness o2 op k \<noteq> None"
  using assms find_monotone unfolding refresh_witness_def by (simp add: find_monotone)

text \<open>Nothing about the place changes.\<close>

definition same_place :: "folder_record \<Rightarrow> folder_record \<Rightarrow> bool" where
  "same_place r n \<longleftrightarrow>
     fol_canonical n = fol_canonical r \<and> fol_canonicalParent n = fol_canonicalParent r \<and>
     fol_observationVersion n = fol_observationVersion r \<and>
     fol_canonicalRefresh n = fol_canonicalRefresh r \<and> fol_terminal n = fol_terminal r"

lemma placements_kept:
  assumes j: "validate_namespace_journal (folder_journal_input (Some r) n) = Inr ()"
    and "list_ex (\<lambda>i. is_folder_location (int_desired i)) (fol_intents r)"
  shows "list_ex (\<lambda>i. is_folder_location (int_desired i)) (fol_intents n)"
proof -
  from assms(2) obtain i where i: "i \<in> set (fol_intents r)" "is_folder_location (int_desired i)"
    by (auto simp: list_ex_iff)
  from journal_forward [OF j i(1)] obtain k where "k \<in> set (fol_intents n)" "intent_continues i k"
    by blast
  with i(2) have "k \<in> set (fol_intents n) \<and> is_folder_location (int_desired k)"
    by (simp add: intent_continues_def)
  then show ?thesis by (auto simp: list_ex_iff)
qed

lemma same_place_accepted:
  assumes rests: "folder_rests op r" and same: "same_folder r n" "same_place r n"
    and j: "validate_namespace_journal (folder_journal_input (Some r) n) = Inr ()"
  shows "check_folder_place (Some r) n op = Inr ()"
proof -
  have "folder_place_ok op r" using rests by (simp add: folder_rests_iff)
  then have "folder_place_ok op n"
    using same placements_kept [OF j] witness_kept [OF answers_kept [OF j same(1)]]
    by (auto simp: folder_place_ok_def same_place_def same_folder_def placeless_def
        check_canonical_authority_def split: option.splits if_splits)
  with same(2) show ?thesis by (auto simp: check_folder_place_iff same_place_def)
qed

lemma same_place_terminal: "same_place r n \<Longrightarrow> check_folder_terminal (Some r) n = Inr ()"
  by (simp add: same_place_def check_folder_terminal_def)

text \<open>The common case: only the hold and the journal change.\<close>

lemma journal_step_accepted:
  assumes rests: "folder_rests op r" and same: "same_folder r n" "same_place r n"
    and f: "intents_from r n"
    and j: "validate_namespace_journal (folder_journal_input (Some r) n) = Inr ()"
    and holds: "folder_holds_ok n" "fol_serverHold r = HeldHold \<longrightarrow> fol_serverHold n = HeldHold"
  shows "validate_folder_namespace_update (Some r) n op = Inr ()"
  using folder_step_accepted [OF rests same(1) f j same_place_terminal [OF same(2)] holds
      same_place_accepted [OF rests same j]] .

section \<open>Leaving work for repair\<close>

lemma rests_in_record:
  assumes "folder_rests op r" and "fol_handle n = fol_handle r"
  shows "journal_rests (folder_journal_input None n) (fol_intents r)"
  using assms(1) rests_cong [where inp = "folder_journal_input None r" and J = "fol_intents r"
      and inp' = "folder_journal_input None n"]
  by (simp add: folder_rests_iff folder_journal_input_def assms(2))

lemma folder_input_update:
  "folder_journal_input (Some r) n = update_of (folder_journal_input None n) (fol_intents r) (fol_intents n)"
  by (simp add: folder_journal_input_def)

lemma rests_folder_wf: "folder_rests op r \<Longrightarrow> journal_wf (fol_handle r) (fol_intents r)"
  using rests_wf [of "folder_journal_input None r" "fol_intents r"]
  by (simp add: folder_rests_iff folder_journal_input_def)

lemma replaced_folder:
  "fw_next (folder_replace_intent r k g hold) =
     r\<lparr>fol_revision := fol_revision r + 1, fol_serverHold := hold,
       fol_intents := map (\<lambda>i. if int_id i = k then g i else i) (fol_intents r)\<rparr>"
  by (simp add: folder_replace_intent_def folder_update_def)

text \<open>One intent steps and the hold moves with it.\<close>

lemma replaced_accepted:
  assumes rests: "folder_rests op r" and i: "i \<in> set (fol_intents r)"
    and step: "\<And>inp. step_ok inp i (g i)" and from_i: "stands_for r i (g i)"
    and holds: "fol_canonical r \<noteq> None \<longrightarrow> hold = HeldHold"
      "fol_copiedBy r \<noteq> None \<longrightarrow> hold = UncertainHold \<or> hold = HeldHold"
      "fol_serverHold r = HeldHold \<longrightarrow> hold = HeldHold"
  shows "validate_folder_namespace_update (Some r)
    (fw_next (folder_replace_intent r (int_id i) g hold)) op = Inr ()"
proof (rule journal_step_accepted [OF rests])
  let ?n = "fw_next (folder_replace_intent r (int_id i) g hold)"
  show "same_folder r ?n" "same_place r ?n" by (simp_all add: replaced_folder same_folder_def same_place_def)
  have "x = i" if "x \<in> set (fol_intents r)" "int_id x = int_id i" for x
    using journal_wf_unique [OF rests_folder_wf [OF rests] that(1) i that(2)] .
  then show "intents_from r ?n"
    using from_i by (intro intents_from_map [where f = "\<lambda>x. if int_id x = int_id i then g x else x"])
      (auto simp: replaced_folder)
  show "validate_namespace_journal (folder_journal_input (Some r) ?n) = Inr ()"
    using one_step_update [OF rests_in_record [OF rests, of ?n] i, of g] step
    by (simp add: folder_input_update replaced_folder)
  show "folder_holds_ok ?n" "fol_serverHold r = HeldHold \<longrightarrow> fol_serverHold ?n = HeldHold"
    using holds by (simp_all add: replaced_folder folder_holds_ok_def)
qed

lemma quiet_holds:
  "folder_rests op r \<Longrightarrow> fol_canonical r \<noteq> None \<longrightarrow> fol_serverHold r = HeldHold"
  "folder_rests op r \<Longrightarrow> fol_copiedBy r \<noteq> None \<longrightarrow>
     fol_serverHold r = UncertainHold \<or> fol_serverHold r = HeldHold"
  by (simp_all add: folder_rests_iff folder_holds_ok_def)

lemma repair_accepted:
  assumes rests: "folder_rests op r" and i: "i \<in> set (fol_intents r)" "int_state i = Pending"
  shows "validate_folder_namespace_update (Some r)
    (fw_next (folder_needs_repair_write r (int_id i))) op = Inr ()"
  unfolding folder_needs_repair_write_def
proof (rule replaced_accepted [OF rests i(1)])
  have wf: "intent_wf (fol_handle r) i"
    using rests_folder_wf [OF rests] i(1) by (simp add: journal_wf_def)
  show "step_ok inp i (i\<lparr>int_state := NeedsRepair\<rparr>)" for inp
    by (rule move_step_ok [OF unfinished_move_ok [OF wf] wf]) (simp_all add: i(2))
qed (use quiet_holds [OF rests] in \<open>simp_all add: stands_for_def settled_deletion_def\<close>)

section \<open>Preparing\<close>

text \<open>The only delete prepared without the server is the one the validator never accepts.\<close>

definition server_deletes :: "folder_record \<Rightarrow> bool" where
  "server_deletes r \<longleftrightarrow>
     (case active_namespace_intent (fol_intents r) of None \<Rightarrow> True
      | Some i \<Rightarrow> int_desired i = DeleteEntry \<longrightarrow> delete_needs_server (fol_serverHold r))"

lemma submit_accepted:
  assumes rests: "folder_rests op r" and i: "i \<in> set (fol_intents r)" "int_state i = Pending"
    and q: "request_names_folder r q"
    and hold: "hold = hold_after_attempt (fol_serverHold r) (unrecorded_attempt k q)"
    and local_only: "is_create_request q \<longrightarrow> fol_serverHold r = LocalHold"
  shows "validate_folder_namespace_update (Some r) (fw_next (folder_replace_intent r (int_id i)
    (submit_intent (unrecorded_attempt k q)) hold)) op = Inr ()"
proof (rule replaced_accepted [OF rests i(1)])
  have wf: "intent_wf (fol_handle r) i"
    using rests_folder_wf [OF rests] i(1) by (simp add: journal_wf_def)
  show "step_ok inp i (submit_intent (unrecorded_attempt k q) i)" for inp
    by (rule submit_step_ok [OF wf i(2)]) (simp add: unrecorded_attempt_def)
  show "stands_for r i (submit_intent (unrecorded_attempt k q) i)"
    using pending_unsent [OF wf i(2)] q
    by (simp add: stands_for_def submit_intent_def unrecorded_attempt_def settled_deletion_def)
  have "hold = (if is_create_request q then UncertainHold else fol_serverHold r)"
    by (simp add: hold unrecorded_attempt_def hold_after_create hold_after_other)
  with quiet_holds [OF rests] local_only show "fol_canonical r \<noteq> None \<longrightarrow> hold = HeldHold"
    "fol_copiedBy r \<noteq> None \<longrightarrow> hold = UncertainHold \<or> hold = HeldHold"
    "fol_serverHold r = HeldHold \<longrightarrow> hold = HeldHold" by auto
qed

definition submits :: "folder_record \<Rightarrow> namespace_intent \<Rightarrow> attempt_ids \<Rightarrow> namespace_request \<Rightarrow> folder_write" where
  "submits r i ids q =
     (let attempt = unrecorded_attempt (aid_attemptId ids) q
      in folder_replace_intent r (int_id i) (submit_intent attempt)
           (hold_after_attempt (fol_serverHold r) attempt))"

definition own_request :: "folder_record \<Rightarrow> namespace_request \<Rightarrow> bool" where
  "own_request r q \<longleftrightarrow>
     request_names_folder r q \<and>
     (if is_create_request q then fol_serverHold r = LocalHold else fol_canonical r \<noteq> None)"

lemma own_requests [simp]:
  "fol_canonical r \<noteq> None \<Longrightarrow> own_request r (delete_request FolderKind (fol_folderId r) k)"
  "fol_canonical r \<noteq> None \<Longrightarrow> own_request r (move_request FolderKind (fol_folderId r) k d t n p)"
  "fol_serverHold r = LocalHold \<Longrightarrow>
     own_request r (CreateFolderRequest o' \<lparr>cfb_folderId = fol_folderId r, cfb_destination = c\<rparr>)"
  by (simp_all add: own_request_def delete_request_def move_request_def request_names_folder_def
      named_by_def Let_def)

lemma submits_held: "\<not> is_create_request q \<Longrightarrow> submits r i ids q = folder_replace_intent r (int_id i)
    (submit_intent (unrecorded_attempt (aid_attemptId ids) q)) (fol_serverHold r)"
  by (simp add: submits_def Let_def unrecorded_attempt_def)

lemma other_requests [simp]:
  "\<not> is_create_request (delete_request k e op)"
  "\<not> is_create_request (move_request k e op d t n p)"
  by (simp_all add: delete_request_def move_request_def Let_def)

lemma placement_write:
  assumes "prepare_folder_placement r i t d ids lookup = Some w"
  shows "w = folder_needs_repair_write r (int_id i) \<or> (\<exists>q. own_request r q \<and> w = submits r i ids q)"
proof (cases "destination_parent_location (dest_parent d) lookup")
  case None
  with assms show ?thesis by (simp add: prepare_folder_placement_def)
next
  case (Some parent)
  show ?thesis
  proof (cases "fol_serverHold r = LocalHold")
    case True
    with assms Some have "w = submits r i ids (CreateFolderRequest (owner_of parent)
        \<lparr>cfb_folderId = fol_folderId r, cfb_destination = create_destination_of d\<rparr>)"
      by (simp add: prepare_folder_placement_def submits_def Let_def)
    with own_requests(3) [OF True] show ?thesis by blast
  next
    case False
    with assms Some obtain source where "fol_serverHold r = HeldHold" "fol_canonical r = Some source"
      by (cases "fol_serverHold r"; cases "fol_canonical r") (simp_all add: prepare_folder_placement_def)
    with assms Some have "w = submits r i ids (move_request FolderKind (fol_folderId r)
        (folder_operation_id i ids) d t (loc_name source) (fol_canonicalParent r))"
      by (simp add: submits_held prepare_folder_placement_def)
    moreover have "fol_canonical r \<noteq> None" using \<open>fol_canonical r = Some source\<close> by simp
    ultimately show ?thesis using own_requests(2) by blast
  qed
qed

lemma prepared_folder_write:
  assumes w: "prepare_folder_namespace_attempt r ids lookup = Some w" and d: "server_deletes r"
  obtains (terminal) "fol_terminal r \<noteq> None" and "w = folder_update (Some r)
      (r\<lparr>fol_revision := fol_revision r + 1,
         fol_intents := resolve_unavailable_namespace (fol_intents r) True\<rparr>)"
    | (repair) i where "active_namespace_intent (fol_intents r) = Some i" and "int_state i = Pending"
      and "w = folder_needs_repair_write r (int_id i)"
    | (submit) i q where "active_namespace_intent (fol_intents r) = Some i" and "int_state i = Pending"
      and "own_request r q" and "fol_canonicalRefresh r = None" and "w = submits r i ids q"
proof -
  from w obtain i where i: "active_namespace_intent (fol_intents r) = Some i" "int_state i = Pending"
    by (auto simp: prepare_folder_namespace_attempt_def split: option.splits if_splits)
  show ?thesis
  proof (cases "fol_terminal r = None")
    case False
    with w i show ?thesis
      by (intro terminal) (auto simp: prepare_folder_namespace_attempt_def split: if_splits)
  next
    case True
    with w i have refresh: "fol_canonicalRefresh r = None"
      by (auto simp: prepare_folder_namespace_attempt_def split: if_splits)
    from True w i consider
        (place) t d where "prepare_folder_placement r i t d ids lookup = Some w"
      | (delete) "int_desired i = DeleteEntry" "prepare_folder_delete r i ids = Some w"
      by (auto simp: prepare_folder_namespace_attempt_def split: if_splits desired.splits)
    then show ?thesis
    proof cases
      case place
      from placement_write [OF this] repair [OF i] submit [OF i _ refresh] show ?thesis by blast
    next
      case delete
      with d i have "delete_needs_server (fol_serverHold r)" by (simp add: server_deletes_def)
      with delete have "fol_canonical r \<noteq> None" "w = submits r i ids
          (delete_request FolderKind (fol_folderId r) (folder_operation_id i ids))"
        by (auto simp: prepare_folder_delete_def submits_held split: if_splits)
      with submit [OF i own_requests(1) refresh] show ?thesis by blast
    qed
  qed
qed

lemma prepared_accepted:
  assumes rests: "folder_rests op r" and d: "server_deletes r"
    and w: "prepare_folder_namespace_attempt r ids lookup = Some w"
  shows "validate_folder_namespace_update (Some r) (fw_next w) op = Inr ()"
  using w d
proof (cases rule: prepared_folder_write)
  case terminal
  let ?J = "resolve_unavailable_namespace (fol_intents r) True"
  let ?n = "r\<lparr>fol_revision := fol_revision r + 1, fol_intents := ?J\<rparr>"
  have "validate_folder_namespace_update (Some r) ?n op = Inr ()"
  proof (rule journal_step_accepted [OF rests])
    show "same_folder r ?n" "same_place r ?n" by (simp_all add: same_folder_def same_place_def)
    show "intents_from r ?n" by (rule unavailable_from) simp
    have "journal_rests (folder_journal_input None ?n) (fol_intents r)"
      by (rule rests_in_record [OF rests]) simp
    from unavailable_update_accepted [OF this, of True] terminal(1)
    show "validate_namespace_journal (folder_journal_input (Some r) ?n) = Inr ()"
      by (simp add: folder_journal_input_def)
    show "folder_holds_ok ?n" "fol_serverHold r = HeldHold \<longrightarrow> fol_serverHold ?n = HeldHold"
      using quiet_holds [OF rests] by (simp_all add: folder_holds_ok_def)
  qed
  with terminal(2) show ?thesis by (simp add: folder_update_def)
next
  case (repair i)
  with repair_accepted [OF rests active_intent_props(1)] show ?thesis by simp
next
  case (submit i q)
  with submit_accepted [OF rests active_intent_props(1) [OF submit(1)] submit(2), of q]
  show ?thesis by (auto simp: submits_def Let_def own_request_def split: if_splits)
qed

section \<open>Recording an answer\<close>

lemma recorded_folder_write:
  assumes "record_folder_namespace_outcome r intentId attemptId out = Inr (Some w)"
  obtains i a b where "i \<in> set (fol_intents r)" and "int_id i = intentId" and "int_state i = Submitted"
    and "at_last (int_attempts i) = Some a" and "att_id a = attemptId" and "att_outcome a = None"
    and "namespace_outcome_matches a out" and "check_attempt_outcome b = Inr ()"
    and "b = a\<lparr>att_outcome := Some out\<rparr>"
    and "w = folder_replace_intent r (int_id i) (receive_intent (att_id a) b)
      (hold_after_attempt (fol_serverHold r) b)"
proof -
  from assms obtain i a b where i: "find (\<lambda>i. int_id i = intentId) (fol_intents r) = Some i"
    and a: "at_last (int_attempts i) = Some a" "att_id a = attemptId" "att_outcome a = None"
    and st: "int_state i = Submitted" and m: "namespace_outcome_matches a out"
    and b: "namespace_attempt_with_outcome a out = Inr b"
    and w: "w = folder_replace_intent r intentId (receive_intent attemptId b)
      (hold_after_attempt (fol_serverHold r) b)"
    by (auto simp: record_folder_namespace_outcome_def split: option.splits if_splits)
  have "i \<in> set (fol_intents r)" "int_id i = intentId" using find_Some_mem [OF i] by auto
  moreover have "check_attempt_outcome b = Inr ()" "b = a\<lparr>att_outcome := Some out\<rparr>"
    using matching_outcome_checks [OF m b] by blast+
  moreover have "w = folder_replace_intent r (int_id i) (receive_intent (att_id a) b)
      (hold_after_attempt (fol_serverHold r) b)"
    using w a(2) \<open>int_id i = intentId\<close> by simp
  ultimately show ?thesis using that [of i a b] a st m by blast
qed

lemma answered_hold:
  assumes "namespace_outcome_matches a out" and "is_create_request (att_request a)"
    and b: "b = a\<lparr>att_outcome := Some out\<rparr>"
  shows "hold_after_attempt (hold_after_attempt h b) b = hold_after_attempt h b"
proof -
  have "\<nexists>r. out = OperationOutcome r"
    using assms(1,2) by (cases "att_request a") (auto simp: namespace_outcome_matches_def split: operation_answer.splits)
  with assms(2) show ?thesis
    by (cases out) (auto simp: b hold_after_create)
qed

lemma recorded_folder_accepted:
  assumes rests: "folder_rests op r" and flight: "in_flight_ok r"
    and w: "record_folder_namespace_outcome r intentId attemptId out = Inr (Some w)"
  shows "validate_folder_namespace_update (Some r) (fw_next w) op = Inr ()"
  using w
proof (cases rule: recorded_folder_write)
  case (1 i a b)
  have wf: "intent_wf (fol_handle r) i"
    using rests_folder_wf [OF rests] 1(1) by (simp add: journal_wf_def)
  have held: "is_create_request (att_request a) \<Longrightarrow>
      fol_copiedBy r = None \<and> fol_serverHold r = UncertainHold"
    using flight 1 by (auto simp: in_flight_ok_def in_flight_def hold_after_create)
  have other: "\<not> is_create_request (att_request a) \<Longrightarrow>
      hold_after_attempt (fol_serverHold r) b = fol_serverHold r"
    by (simp add: 1(9))
  have hold: "fol_canonical r \<noteq> None \<longrightarrow> hold_after_attempt (fol_serverHold r) b = HeldHold"
      "fol_copiedBy r \<noteq> None \<longrightarrow> hold_after_attempt (fol_serverHold r) b = UncertainHold \<or>
        hold_after_attempt (fol_serverHold r) b = HeldHold"
      "fol_serverHold r = HeldHold \<longrightarrow> hold_after_attempt (fol_serverHold r) b = HeldHold"
    using quiet_holds [OF rests] held other by (cases "is_create_request (att_request a)"; force)+
  have from_i: "stands_for r i (receive_intent (att_id a) b i)"
  proof -
    have "a \<in> set (int_attempts i)"
      using 1(4) by (auto simp: at_last_def split: if_splits)
    then show ?thesis
      by (auto simp: stands_for_def receive_intent_def settled_deletion_def 1(9) image_iff)
  qed
  have step: "step_ok inp i (receive_intent (att_id a) b i)" for inp
    using receive_step_ok [OF wf 1(3,4,6,9,8)] .
  show ?thesis
    unfolding 1(10) using step
    by (intro replaced_accepted [OF rests 1(1), of "receive_intent (att_id a) b"] from_i hold)
qed

section \<open>Settling\<close>

text \<open>The server places a folder it makes where the owner it was asked for has a place.\<close>

definition answers_have_owners :: "folder_record \<Rightarrow> bool" where
  "answers_have_owners r \<longleftrightarrow>
     (\<forall>i \<in> set (fol_intents r). \<forall>a made folderId address owner b. at_last (int_attempts i) = Some a \<longrightarrow>
        att_outcome a = Some (CreateFolderOutcome (FolderMade made folderId address)) \<longrightarrow>
        att_request a = CreateFolderRequest owner b \<longrightarrow>
        \<not> isl (resource_context_authority (addr_scheme address) owner))"

lemma settled_folder_write:
  assumes "settle_folder_namespace_outcome r t = Some w"
  obtains i a out d where "active_namespace_intent (fol_intents r) = Some i"
    and "at_last (int_attempts i) = Some a" and "att_outcome a = Some out" and "int_state i = Received"
    and "\<nexists>c. out = CreateOutcome c" and "d = namespace_intent_outcome out (fol_terminal r \<noteq> None)"
    and "fw_next w = (let n = r\<lparr>fol_revision := fol_revision r + 1,
        fol_intents := settle_namespace_intent (fol_intents r) i d t (fol_serverHold r)\<rparr>
      in if d = AcceptedOutcome then apply_folder_answer a out n else n)"
  using assms that
  by (auto simp: settle_folder_namespace_outcome_def folder_update_def Let_def
      split: option.splits if_splits namespace_outcome.splits)

lemma apply_answer_fields [simp]:
  "fol_revision (apply_folder_answer a out n) = fol_revision n"
  "fol_handle (apply_folder_answer a out n) = fol_handle n"
  "fol_projectId (apply_folder_answer a out n) = fol_projectId n"
  "fol_folderId (apply_folder_answer a out n) = fol_folderId n"
  "fol_aliases (apply_folder_answer a out n) = fol_aliases n"
  "fol_copiedBy (apply_folder_answer a out n) = fol_copiedBy n"
  "fol_localDeletion (apply_folder_answer a out n) = fol_localDeletion n"
  "fol_serverHold (apply_folder_answer a out n) = fol_serverHold n"
  "fol_intents (apply_folder_answer a out n) = fol_intents n"
  "fol_terminal (apply_folder_answer a out n) = fol_terminal n"
  "fol_observationVersion (apply_folder_answer a out n) = fol_observationVersion n"
  "fol_canonicalParent (apply_folder_answer a out n) = fol_canonicalParent n"
  by (simp_all add: apply_folder_answer_def
      split: namespace_outcome.split create_folder_answer.split namespace_request.split)

lemma settled_from:
  assumes "last_outcome i = Some out"
    and "fol_intents n = settle_namespace_intent (fol_intents r) i d t hold"
  shows "intents_from r n"
  unfolding intents_from_def
proof
  fix j assume "j \<in> set (fol_intents n)"
  with assms(2) have "j \<in> set (settle_namespace_intent (fol_intents r) i d t hold)" by simp
  with assms(1) show "\<exists>x \<in> set (fol_intents r). stands_for r x j"
  proof (cases rule: settled_intents_cases)
    case (settled x s)
    then have "s \<noteq> SettledLocally" by (cases d) auto
    with settled show ?thesis by (intro bexI [of _ x]) simp_all
  next
    case (cancelled x)
    then show ?thesis by (intro bexI [of _ x]) simp_all
  qed (blast intro: stands_for_refl)
qed

lemma settled_journal:
  assumes rests: "folder_rests op r" and flight: "in_flight_ok r" and t: "0 \<le> t"
    and i: "active_namespace_intent (fol_intents r) = Some i" "int_state i = Received"
    and a: "at_last (int_attempts i) = Some a" "att_outcome a = Some out"
    and d: "d = namespace_intent_outcome out (fol_terminal r \<noteq> None)"
    and created: "\<nexists>c. out = CreateOutcome c"
    and n: "fol_handle n = fol_handle r" "fol_terminal n = fol_terminal r"
      "fol_intents n = settle_namespace_intent (fol_intents r) i d t (fol_serverHold r)"
  shows "validate_namespace_journal (folder_journal_input (Some r) n) = Inr ()"
    and "settles (folder_journal_input None n) (fol_intents r) i out"
    and "fitting_disposition (folder_journal_input None n) out d"
proof -
  note mem = active_intent_props(1) [OF i(1)]
  show s: "settles (folder_journal_input None n) (fol_intents r) i out"
    using rests_in_record [OF rests n(1)] mem i(2) a by (simp add: settles_def last_outcome_def)
  show fit: "fitting_disposition (folder_journal_input None n) out d"
    using n(2) outcome_cases(1) [of out "fol_terminal r \<noteq> None"] d
    by (auto simp: fitting_disposition_def folder_journal_input_def)
  have "fol_serverHold r = SpentHold"
    if "out = CreateOutcome CreateConflict \<or> out = CreateFolderOutcome FolderConflict"
  proof -
    have "intent_wf (fol_handle r) i"
      using rests_folder_wf [OF rests] mem by (simp add: journal_wf_def)
    then have "check_attempt_outcome a = Inr ()"
      using a(1) by (auto simp: intent_wf_def attempts_ok_def at_last_def split: if_splits)
    with that created a(2) have "is_create_request (att_request a)"
      by (cases "att_request a") (auto simp: check_attempt_outcome_def split: if_splits)
    with flight mem i(2) a that created show ?thesis
      by (auto simp: in_flight_ok_def in_flight_def hold_after_create)
  qed
  from settle_update_accepted [OF s t fit this]
  show "validate_namespace_journal (folder_journal_input (Some r) n) = Inr ()"
    by (simp add: folder_input_update n(3))
qed

lemma settled_answer_present:
  assumes j: "validate_namespace_journal (folder_journal_input (Some r) n) = Inr ()"
    and i: "i \<in> set (fol_intents r)" and a: "at_last (int_attempts i) = Some a" "att_outcome a = Some out"
    and acc: "accepted_outcome out"
  shows "\<exists>p. (p, out) \<in> set (accepted_answers (folder_origin n) op)"
proof -
  from journal_forward [OF j i] obtain k where k: "k \<in> set (fol_intents n)" "intent_continues i k" by blast
  have "a \<in> set (int_attempts i)" using a(1) by (auto simp: at_last_def split: if_splits)
  moreover have "attempts_continue (int_attempts i) (int_attempts k)"
    using k(2) by (simp add: intent_continues_def)
  ultimately have "\<exists>b \<in> set (int_attempts k). att_outcome b = Some out"
    using answers_continue a(2) by blast
  with acc have "(int_projectId k, out) \<in> set (intent_answers None k)" by (simp add: intent_answers_mem)
  with k(1) show ?thesis by (auto simp: accepted_answers_def)
qed

text \<open>What an accepted answer writes on the record.\<close>

lemma apply_answer_cases:
  obtains (move) receipt where "out = OperationOutcome receipt" and "namespace_receipt_is receipt MoveCommand"
      and "apply_folder_answer a out n = n\<lparr>fol_canonicalRefresh := Some
        \<lparr>fr_operationId = rcpt_operationId receipt,
         fr_observationVersion = Some (rcpt_observationVersion receipt)\<rparr>\<rparr>"
    | (made) m k address owner b where "out = CreateFolderOutcome (FolderMade m k address)"
      and "att_request a = CreateFolderRequest owner b"
      and "apply_folder_answer a out n = n\<lparr>fol_canonical := Some \<lparr>loc_scheme = addr_scheme address,
        loc_path = displayed_path (addr_path address), loc_name = addr_name address,
        loc_owner = owner\<rparr>\<rparr>"
    | (nothing) "apply_folder_answer a out n = n"
proof (cases "apply_folder_answer a out n = n")
  case False
  then show ?thesis
    using move made by (auto simp: apply_folder_answer_def
        split: namespace_outcome.splits create_folder_answer.splits namespace_request.splits if_splits)
qed (rule nothing)

lemma find_hit: "x \<in> set xs \<Longrightarrow> P x \<Longrightarrow> find P xs \<noteq> None"
  by (auto simp: find_None_iff)

lemma settled_answer_place:
  assumes rests: "folder_rests op r" and flight: "in_flight_ok r"
    and i: "i \<in> set (fol_intents r)" "int_state i = Received"
    and a: "at_last (int_attempts i) = Some a" "att_outcome a = Some out" and acc: "accepted_outcome out"
    and owners: "answers_have_owners r"
    and s: "same_folder r s" "same_place r s" "fol_serverHold s = fol_serverHold r"
    and n: "n = apply_folder_answer a out s"
    and j: "validate_namespace_journal (folder_journal_input (Some r) n) = Inr ()"
    and p: "(p, out) \<in> set (accepted_answers (folder_origin n) op)"
  shows "check_folder_place (Some r) n op = Inr () \<and> folder_holds_ok n"
proof (cases rule: apply_answer_cases [of out a s])
  case (move receipt)
  with a i flight acc have "fol_canonical r \<noteq> None"
  proof -
    have "\<not> is_create_request (att_request a)"
    proof
      assume c: "is_create_request (att_request a)"
      have "intent_wf (fol_handle r) i" using rests_folder_wf [OF rests] i(1) by (simp add: journal_wf_def)
      then have "check_attempt_outcome a = Inr ()"
        using a(1) by (auto simp: intent_wf_def attempts_ok_def at_last_def split: if_splits)
      with c a(2) move(1) show False
        by (cases "att_request a"; cases "rcpt_answer receipt")
          (auto simp: check_attempt_outcome_def same_command_kind_def)
    qed
    with flight i a(1) show ?thesis by (auto simp: in_flight_ok_def in_flight_def)
  qed
  moreover have "refresh_witness (folder_origin n) op (rcpt_operationId receipt) \<noteq> None"
    unfolding refresh_witness_def option.map_disc_iff
    by (rule find_hit [OF p]) (simp add: move(1,2))
  moreover have "folder_place_ok op r" "folder_holds_ok r" using rests by (simp_all add: folder_rests_iff)
  ultimately show ?thesis
    using s move(3) by (auto simp: n check_folder_place_iff folder_place_ok_def folder_holds_ok_def
        same_place_def same_folder_def check_canonical_authority_def)
next
  case (made m k address owner b)
  have h: "fol_serverHold r = HeldHold" "fol_copiedBy r = None" "fol_canonicalRefresh r = None"
    using flight i a made(1,2) by (auto simp: in_flight_ok_def in_flight_def hold_after_create)
  have "\<not> isl (resource_context_authority (addr_scheme address) owner)"
    using owners i(1) a made(1,2) unfolding answers_have_owners_def by blast
  then have "check_canonical_authority n = Inr ()"
    by (cases "resource_context_authority (addr_scheme address) owner")
      (simp_all add: n made(3) check_canonical_authority_def)
  moreover have "first_place_witnessed (folder_origin n) op k' FolderKind" for k'
    unfolding first_place_witnessed_def list_ex_iff
    by (rule bexI [OF _ p]) (simp add: made(1))
  ultimately show ?thesis
    using s h made(3) by (auto simp: n check_folder_place_iff folder_place_ok_def folder_holds_ok_def
        same_place_def same_folder_def)
next
  case nothing
  with s n same_place_accepted [OF rests, of n] j quiet_holds [OF rests] show ?thesis
    by (simp add: folder_holds_ok_def same_place_def same_folder_def)
qed

lemma settled_folder_accepted:
  assumes rests: "folder_rests op r" and flight: "in_flight_ok r"
    and w: "settle_folder_namespace_outcome r t = Some w" and t: "0 \<le> t"
    and owners: "answers_have_owners r"
  shows "validate_folder_namespace_update (Some r) (fw_next w) op = Inr ()"
  using w
proof (cases rule: settled_folder_write)
  case (1 i a out d)
  define s where "s = r\<lparr>fol_revision := fol_revision r + 1,
      fol_intents := settle_namespace_intent (fol_intents r) i d t (fol_serverHold r)\<rparr>"
  let ?n = "fw_next w"
  note mem = active_intent_props(1) [OF 1(1)]
  have lo: "last_outcome i = Some out" using 1(2,3) by (simp add: last_outcome_def)
  have s: "same_folder r s" "same_place r s" "fol_serverHold s = fol_serverHold r"
    by (simp_all add: s_def same_folder_def same_place_def)
  have n: "?n = (if d = AcceptedOutcome then apply_folder_answer a out s else s)"
    using 1(7) by (simp add: Let_def s_def)
  have same: "same_folder r ?n" "fol_terminal ?n = fol_terminal r" "fol_serverHold ?n = fol_serverHold r"
    and intents: "fol_intents ?n = settle_namespace_intent (fol_intents r) i d t (fol_serverHold r)"
    by (simp_all add: n s_def same_folder_def)
  have j: "validate_namespace_journal (folder_journal_input (Some r) ?n) = Inr ()"
    using same intents by (intro settled_journal(1) [OF rests flight t 1(1,4,2,3,6,5)])
      (simp_all add: same_folder_def)
  have f: "intents_from r ?n" by (rule settled_from [OF lo intents])
  have "fol_canonicalRefresh r = None"
    using flight mem 1(4) by (auto simp: in_flight_ok_def in_flight_def)
  with same(2) have barrier: "check_folder_terminal (Some r) ?n = Inr ()"
    by (simp add: check_folder_terminal_def)
  have "check_folder_place (Some r) ?n op = Inr () \<and> folder_holds_ok ?n"
  proof (cases "d = AcceptedOutcome")
    case True
    with 1(6) outcome_cases(1) [of out "fol_terminal r \<noteq> None"] have acc: "accepted_outcome out"
      by (auto simp: accepted_outcome_def split: if_splits)
    from settled_answer_present [OF j mem 1(2,3) acc] obtain p where
      p: "(p, out) \<in> set (accepted_answers (folder_origin ?n) op)" by blast
    from settled_answer_place [OF rests flight mem 1(4,2,3) acc owners s _ j p] n True
    show ?thesis by simp
  next
    case False
    with n same_place_accepted [OF rests s(1,2)] j quiet_holds [OF rests] s show ?thesis
      by (simp add: folder_holds_ok_def same_place_def same_folder_def)
  qed
  with folder_step_accepted [OF rests same(1) f j barrier] same(3) show ?thesis by simp
qed

section \<open>Installing an observation\<close>

text \<open>A deletion is told once: the record is not already terminal under another generation.\<close>

definition same_deletion :: "folder_record \<Rightarrow> identity_availability \<Rightarrow> bool" where
  "same_deletion r availability \<longleftrightarrow>
     (case availability of DeletedIdentity generation _ \<Rightarrow>
        fol_terminal r = None \<or> fol_terminal r = Some generation
      | _ \<Rightarrow> True)"

text \<open>The record an observation of the folder as present leaves.\<close>

definition observed_folder :: "folder_record \<Rightarrow> refresh_observation \<Rightarrow> available_identity \<Rightarrow> folder_record" where
  "observed_folder r obs av =
     (let base = (if completes obs then r\<lparr>fol_canonicalRefresh := None\<rparr> else r)
      in (if newer obs
          then base\<lparr>fol_terminal := None, fol_canonical := Some (av_location av),
            fol_canonicalParent := Some (av_parent av), fol_canonicalRank := av_rank av,
            fol_canonicalLocationVersion := av_locationVersion av,
            fol_canonicalOrderPolicy := av_orderPolicy av,
            fol_observationVersion := Some (av_observationVersion av)\<rparr>
          else base)\<lparr>fol_revision := fol_revision r + 1\<rparr>)"

lemma observed_folder_write:
  assumes "install_folder_canonical_refresh r k av = Inr (Some w)"
  obtains obs where "fol_canonicalRefresh r \<noteq> None"
    and "newer obs \<Longrightarrow> newer_canonical_observation (av_observationVersion av)
        (fol_observationVersion r) = Inr True"
    and "\<not> isl (resource_context_authority (loc_scheme (av_location av)) (loc_owner (av_location av)))"
    and "fw_next w = observed_folder r obs av"
proof -
  from assms obtain barrier where b: "fol_canonicalRefresh r = Some barrier"
    by (auto simp: install_folder_canonical_refresh_def split: option.splits)
  with assms obtain obs where o': "canonical_refresh_observation (av_observationVersion av)
      (fol_observationVersion r) (fr_observationVersion barrier) = Inr obs"
    by (cases "canonical_refresh_observation (av_observationVersion av)
        (fol_observationVersion r) (fr_observationVersion barrier)")
      (simp_all add: install_folder_canonical_refresh_def split: if_splits)
  obtain auth where u: "resource_context_authority (loc_scheme (av_location av))
      (loc_owner (av_location av)) = Inr auth"
    using assms b o' by (cases "resource_context_authority (loc_scheme (av_location av))
        (loc_owner (av_location av))")
      (simp_all add: install_folder_canonical_refresh_def split: if_splits)
  have "fw_next w = observed_folder r obs av"
    using assms b o' u by (auto simp: install_folder_canonical_refresh_def observed_folder_def Let_def
        folder_update_def split: if_splits)
  moreover have "newer obs \<Longrightarrow> newer_canonical_observation (av_observationVersion av)
      (fol_observationVersion r) = Inr True"
    using o' by (auto simp: canonical_refresh_observation_def split: if_splits option.splits)
  ultimately show ?thesis using that [of obs] b u by simp
qed

lemma observed_fields [simp]:
  "same_folder r (observed_folder r obs av)"
  "fol_intents (observed_folder r obs av) = fol_intents r"
  "fol_serverHold (observed_folder r obs av) = fol_serverHold r"
  "fol_copiedBy (observed_folder r obs av) = fol_copiedBy r"
  "fol_canonicalRefresh (observed_folder r obs av) =
     (if completes obs then None else fol_canonicalRefresh r)"
  "fol_canonical (observed_folder r obs av) =
     (if newer obs then Some (av_location av) else fol_canonical r)"
  "fol_terminal (observed_folder r obs av) = (if newer obs then None else fol_terminal r)"
  "fol_observationVersion (observed_folder r obs av) =
     (if newer obs then Some (av_observationVersion av) else fol_observationVersion r)"
  by (simp_all add: observed_folder_def Let_def same_folder_def)

lemma barrier_placed:
  "folder_rests op r \<Longrightarrow> fol_canonicalRefresh r \<noteq> None \<Longrightarrow>
     fol_canonical r \<noteq> None \<and> fol_serverHold r = HeldHold"
  by (auto simp: folder_rests_iff folder_place_ok_def folder_holds_ok_def placeless_def split: if_splits)

lemma same_intents_accepted:
  assumes rests: "folder_rests op r" and "fol_handle n = fol_handle r" "fol_intents n = fol_intents r"
  shows "validate_namespace_journal (folder_journal_input (Some r) n) = Inr ()"
  using rests_in_record [OF rests assms(2)]
  by (simp add: journal_rests_def folder_input_update assms(3))

lemma observed_accepted:
  assumes rests: "folder_rests op r" and w: "install_folder_canonical_refresh r k av = Inr (Some w)"
  shows "validate_folder_namespace_update (Some r) (fw_next w) op = Inr ()"
  using w
proof (cases rule: observed_folder_write)
  case (1 obs)
  let ?n = "observed_folder r obs av"
  note placed = barrier_placed [OF rests 1(1)]
  obtain auth where "resource_context_authority (loc_scheme (av_location av))
      (loc_owner (av_location av)) = Inr auth"
    using 1(3) by (cases "resource_context_authority (loc_scheme (av_location av))
        (loc_owner (av_location av))") simp_all
  moreover have "folder_place_ok op r" using rests by (simp add: folder_rests_iff)
  ultimately have "folder_place_ok op ?n"
    using placed by (auto simp: folder_place_ok_def check_canonical_authority_def split: option.splits)
  with placed have place: "check_folder_place (Some r) ?n op = Inr ()"
    by (auto simp: check_folder_place_iff)
  have same: "same_folder r ?n" by simp
  have j: "validate_namespace_journal (folder_journal_input (Some r) ?n) = Inr ()"
    using same by (intro same_intents_accepted [OF rests]) (auto simp: same_folder_def)
  have "check_folder_terminal (Some r) ?n = Inr ()"
    using 1(2) by (auto simp: check_folder_terminal_def)
  moreover have "folder_holds_ok ?n" using placed by (simp add: folder_holds_ok_def)
  moreover have "intents_from r ?n" by (rule intents_from_map [where f = "\<lambda>i. i"]) simp_all
  ultimately show ?thesis
    unfolding 1(4) using folder_step_accepted [OF rests same _ j _ _ _ place] by simp
qed

lemma gone_accepted:
  assumes rests: "folder_rests op r" and refresh: "fol_canonicalRefresh r \<noteq> None"
    and terminal: "fol_terminal r \<noteq> None \<longrightarrow> terminal = fol_terminal r"
  shows "validate_folder_namespace_update (Some r)
    (r\<lparr>fol_canonicalRefresh := None, fol_revision := fol_revision r + 1, fol_terminal := terminal,
       fol_observationVersion := v,
       fol_intents := resolve_unavailable_namespace (fol_intents r) (terminal \<noteq> None)\<rparr>) op = Inr ()"
    (is "validate_folder_namespace_update _ ?n _ = _")
proof -
  note placed = barrier_placed [OF rests refresh]
  have same: "same_folder r ?n" by (simp add: same_folder_def)
  have "journal_rests (folder_journal_input None ?n) (fol_intents r)"
    by (rule rests_in_record [OF rests]) simp
  from unavailable_update_accepted [OF this, of "terminal \<noteq> None"]
  have j: "validate_namespace_journal (folder_journal_input (Some r) ?n) = Inr ()"
    by (simp add: folder_journal_input_def)
  have f: "intents_from r ?n" by (rule unavailable_from) simp
  have "folder_place_ok op r" using rests by (simp add: folder_rests_iff)
  with placed have "check_folder_place (Some r) ?n op = Inr ()"
    by (auto simp: check_folder_place_iff folder_place_ok_def check_canonical_authority_def)
  moreover have "check_folder_terminal (Some r) ?n = Inr ()"
    using terminal by (auto simp: check_folder_terminal_def)
  moreover have "folder_holds_ok ?n" using placed by (simp add: folder_holds_ok_def)
  ultimately show ?thesis using folder_step_accepted [OF rests same f j] by simp
qed

lemma availability_accepted:
  assumes rests: "folder_rests op r" and d: "same_deletion r availability"
    and w: "install_folder_namespace_availability r k availability = Inr (Some w)"
  shows "validate_folder_namespace_update (Some r) (fw_next w) op = Inr ()"
proof -
  have refresh: "fol_canonicalRefresh r \<noteq> None"
    using w by (auto simp: install_folder_namespace_availability_def split: if_splits)
  show ?thesis
  proof (cases availability)
    case (Available av)
    with w have "install_folder_canonical_refresh r k av = Inr (Some w)"
      by (simp add: install_folder_namespace_availability_def split: if_splits)
    then show ?thesis by (rule observed_accepted [OF rests])
  next
    case (DeletedIdentity generation version)
    with w d gone_accepted [OF rests refresh, of "Some generation" "Some version"] show ?thesis
      by (auto simp: install_folder_namespace_availability_def same_deletion_def Let_def
          folder_update_def split: if_splits)
  next
    case Unavailable
    with w gone_accepted [OF rests refresh, of "fol_terminal r" "fol_observationVersion r"] show ?thesis
      by (auto simp: install_folder_namespace_availability_def Let_def folder_update_def
          split: if_splits)
  qed
qed

section \<open>Staying in order\<close>

lemma rests_superseded:
  "folder_rests op r \<Longrightarrow> i \<in> set (fol_intents r) \<Longrightarrow> int_state i = Superseded \<Longrightarrow> \<not> intent_accepted i"
  by (auto simp: folder_rests_iff dest: rests_clean)

lemma no_flight_behind:
  "in_flight_ok r \<Longrightarrow> active_namespace_intent (fol_intents r) = Some i \<Longrightarrow> j \<in> set (fol_intents r) \<Longrightarrow>
     in_flight j \<Longrightarrow> j = i"
  by (auto simp: in_flight_ok_def)

lemma no_flight_at_barrier:
  "in_flight_ok r \<Longrightarrow> fol_canonicalRefresh r \<noteq> None \<Longrightarrow> i \<in> set (fol_intents r) \<Longrightarrow> \<not> in_flight i"
  by (auto simp: in_flight_ok_def)

lemma unsent_refused: "intent_wf h i \<Longrightarrow> int_state i = Pending \<Longrightarrow> \<not> intent_accepted i"
  using pending_unsent [of h i] by (auto simp: intent_accepted_def last_outcome_def at_last_def)

text \<open>The active intent changes in place.\<close>

lemma replaced_in_order:
  assumes order: "folder_in_order op r" and i: "active_namespace_intent (fol_intents r) = Some i"
    and n: "n = fw_next (folder_replace_intent r (int_id i) g hold)"
    and v: "validate_folder_namespace_update (Some r) n op = Inr ()"
    and g: "\<And>x. int_sequence (g x) = int_sequence x"
      "int_state (g i) \<in> {NeedsRepair, Submitted, Received}"
      "int_state (g i) = NeedsRepair \<Longrightarrow> \<not> intent_accepted (g i)"
    and flight: "in_flight (g i) \<Longrightarrow> fol_canonicalRefresh r = None"
      "\<And>a. in_flight (g i) \<Longrightarrow> at_last (int_attempts (g i)) = Some a \<Longrightarrow>
        (if is_create_request (att_request a)
         then fol_copiedBy r = None \<and> hold_after_attempt hold a = hold
         else fol_canonical r \<noteq> None)"
  shows "folder_in_order op n"
proof -
  from order have rests: "folder_rests op r" and ok: "in_flight_ok r" and refused: "repairs_refused r"
    by (simp_all add: folder_in_order_def)
  note mem = active_intent_props(1) [OF i]
  have J: "accepted_journal (fol_intents r)"
    using rests accepted_journalI [of "update_of (folder_journal_input None r) (fol_intents r) (fol_intents r)"]
    by (simp add: folder_rests_iff journal_rests_def)
  have elems: "j = g i \<or> (j \<in> set (fol_intents r) \<and> int_id j \<noteq> int_id i)" if "j \<in> set (fol_intents n)" for j
    using that accepted_journal_facts(1) [OF J _ mem] by (auto simp: n replaced_folder split: if_splits)
  have "folder_rests op n"
    using v by (rule accepted_folder_rests) (use elems g(2) rests_superseded [OF rests] in fastforce)
  moreover have "repairs_refused n"
    using elems refused g(3) by (fastforce simp: repairs_refused_def)
  moreover have active: "active_namespace_intent (fol_intents n) = Some (g i)"
    using replaced_active [OF J i g(1)] g(2) by (auto simp: n replaced_folder closed_state_def)
  have "in_flight_ok n"
    unfolding in_flight_ok_def
  proof (intro ballI impI)
    fix j assume "j \<in> set (fol_intents n)" and f: "in_flight j"
    with elems no_flight_behind [OF ok i] have "j = g i" by blast
    with f active flight show "active_namespace_intent (fol_intents n) = Some j \<and>
      fol_canonicalRefresh n = None \<and> (\<forall>a. at_last (int_attempts j) = Some a \<longrightarrow>
        (if is_create_request (att_request a)
         then fol_copiedBy n = None \<and> hold_after_attempt (fol_serverHold n) a = fol_serverHold n
         else fol_canonical n \<noteq> None))"
      by (auto simp: n replaced_folder split: if_splits)
  qed
  ultimately show ?thesis by (simp add: folder_in_order_def)
qed

text \<open>With nothing in flight, only the states of waiting and failed work matter.\<close>

lemma quiet_in_order:
  assumes order: "folder_in_order op r" and v: "validate_folder_namespace_update (Some r) n op = Inr ()"
    and intents: "\<And>j. j \<in> set (fol_intents n) \<Longrightarrow> \<not> in_flight j \<and>
      (int_state j = NeedsRepair \<or> int_state j = Superseded \<longrightarrow>
        j \<in> set (fol_intents r) \<or> \<not> intent_accepted j)"
  shows "folder_in_order op n"
proof -
  from order have rests: "folder_rests op r" and refused: "repairs_refused r"
    by (simp_all add: folder_in_order_def)
  have "folder_rests op n"
    using v by (rule accepted_folder_rests) (use intents rests_superseded [OF rests] in blast)
  moreover have "in_flight_ok n" using intents by (simp add: in_flight_ok_def)
  moreover have "repairs_refused n"
    using intents refused unfolding repairs_refused_def by blast
  ultimately show ?thesis by (simp add: folder_in_order_def)
qed

lemma unavailable_quiet:
  assumes wf: "journal_wf h J" and none: "\<And>i. i \<in> set J \<Longrightarrow> \<not> in_flight i"
    and refused: "\<And>i. i \<in> set J \<Longrightarrow> int_state i = NeedsRepair \<Longrightarrow> \<not> intent_accepted i"
    and j: "j \<in> set (resolve_unavailable_namespace J terminal)"
  shows "\<not> in_flight j \<and> (int_state j = NeedsRepair \<or> int_state j = Superseded \<longrightarrow>
    j \<in> set J \<or> \<not> intent_accepted j)"
proof -
  from j obtain i where i: "i \<in> set J" "j = i \<or> (int_state i \<in> {Pending, NeedsRepair} \<and>
      j = i\<lparr>int_state := (if terminal then UnexecutableAfterTerminal else NeedsRepair)\<rparr>)"
    by (auto simp: resolve_unavailable_namespace_def split: if_splits)
  have "\<not> intent_accepted i" if "int_state i \<in> {Pending, NeedsRepair}"
    using that refused [OF i(1)] unsent_refused [of h i] wf i(1) by (auto simp: journal_wf_def)
  with i none [OF i(1)] show ?thesis
    by (auto simp: in_flight_def intent_accepted_def last_outcome_def split: if_splits)
qed

lemma settled_quiet:
  assumes order: "folder_in_order op r" and i: "active_namespace_intent (fol_intents r) = Some i"
    and s: "settles inp (fol_intents r) i out" and d: "d = namespace_intent_outcome out terminal"
    and fit: "fitting_disposition inp out d"
    and j: "j \<in> set (settle_namespace_intent (fol_intents r) i d t hold)"
  shows "\<not> in_flight j \<and> (int_state j = NeedsRepair \<or> int_state j = Superseded \<longrightarrow>
    j \<in> set (fol_intents r) \<or> \<not> intent_accepted j)"
proof -
  from order have ok: "in_flight_ok r" by (simp add: folder_in_order_def)
  have lo: "last_outcome i = Some out" using s by (simp add: settles_def)
  from lo j show ?thesis
  proof (cases rule: settled_intents_cases)
    case same
    with no_flight_behind [OF ok i] show ?thesis by blast
  next
    case (cancelled x)
    then show ?thesis by (simp add: in_flight_def)
  next
    case (settled x st)
    from settles_facts(4) [OF s settled(1,2)] have x: "x = i" .
    have "\<not> in_flight j" using settled(3,4) by (cases d) (auto simp: in_flight_def)
    moreover have "\<not> intent_accepted j" if "int_state j = NeedsRepair"
    proof -
      have "d = RefusedOutcome" using that settled(3,4) by (cases d) (auto simp: d namespace_intent_outcome_def
            split: namespace_outcome.splits if_splits)
      with d have "namespace_intent_outcome out False \<noteq> AcceptedOutcome"
        using outcome_cases(1) [of out terminal] by (auto split: if_splits)
      moreover have "last_outcome j = Some out" using lo by (simp add: settled(3) x last_outcome_def)
      ultimately show ?thesis by (simp add: intent_accepted_def accepted_outcome_def)
    qed
    ultimately show ?thesis using settle_superseded [OF s fit j] by blast
  qed
qed

section \<open>Transitions\<close>

text \<open>
  What the reconciler does with a folder record it read, and the write it plans: it prepares the
  active intent, holds a placement back for repair, records an answer, settles it, or installs what
  it observed of the folder's identity.
\<close>

datatype folder_event =
    Preparing attempt_ids parent_lookup
  | HoldingBack
  | Recording string namespace_outcome
  | Settling int
  | Observing string identity_availability

inductive folder_transition :: "folder_record \<Rightarrow> folder_event \<Rightarrow> folder_write \<Rightarrow> bool" where
  prepared: "prepare_folder_namespace_attempt r ids lookup = Some w \<Longrightarrow>
     folder_transition r (Preparing ids lookup) w"
| held_back: "active_namespace_intent (fol_intents r) = Some i \<Longrightarrow> int_state i = Pending \<Longrightarrow>
     folder_transition r HoldingBack (folder_needs_repair_write r (int_id i))"
| recorded: "active_namespace_intent (fol_intents r) = Some i \<Longrightarrow>
     record_folder_namespace_outcome r (int_id i) attemptId out = Inr (Some w) \<Longrightarrow>
     folder_transition r (Recording attemptId out) w"
| settled: "settle_folder_namespace_outcome r t = Some w \<Longrightarrow> folder_transition r (Settling t) w"
| observed: "install_folder_namespace_availability r k availability = Inr (Some w) \<Longrightarrow>
     folder_transition r (Observing k availability) w"

text \<open>
  When a planned write is one the store takes: a waiting delete is not settled on this device, the
  clock is not before its epoch, the server placed a folder it made where the owner asked for has a
  place, and a deletion is told once.
\<close>

fun event_expected :: "folder_record \<Rightarrow> folder_event \<Rightarrow> bool" where
  "event_expected r (Preparing ids lookup) \<longleftrightarrow> server_deletes r"
| "event_expected r (Settling t) \<longleftrightarrow> 0 \<le> t \<and> answers_have_owners r"
| "event_expected r (Observing k availability) \<longleftrightarrow> same_deletion r availability"
| "event_expected r _ \<longleftrightarrow> True"

lemma transition_over: "folder_transition r e w \<Longrightarrow> folder_writes_over r w"
proof (induction rule: folder_transition.induct)
  case (observed r k availability w)
  have "folder_writes_over r w" if "install_folder_canonical_refresh r k av = Inr (Some w)" for av
    using that by (auto simp: install_folder_canonical_refresh_def Let_def split: option.splits if_splits)
  with observed(1) show ?case
    by (cases availability) (auto simp: install_folder_namespace_availability_def Let_def split: if_splits)
qed (auto simp: folder_needs_repair_write_def folder_replaced_fields
    intro: prepared_folder_over recorded_folder_over settled_folder_over)

lemma folder_transition_accepted:
  assumes "folder_transition r e w" and order: "folder_in_order op r" and "event_expected r e"
  shows "validate_folder_namespace_update (Some r) (fw_next w) op = Inr ()"
proof -
  from order have o: "folder_rests op r" "in_flight_ok r" by (simp_all add: folder_in_order_def)
  from assms(1,3) show ?thesis
  proof cases
    case (held_back i)
    with repair_accepted [OF o(1) active_intent_props(1)] show ?thesis by simp
  qed (simp_all, (blast intro: prepared_accepted recorded_folder_accepted settled_folder_accepted availability_accepted o)+)
qed

lemma repair_in_order:
  assumes order: "folder_in_order op r" and i: "active_namespace_intent (fol_intents r) = Some i"
    "int_state i = Pending"
  shows "folder_in_order op (fw_next (folder_needs_repair_write r (int_id i)))"
proof -
  have rests: "folder_rests op r" using order by (simp add: folder_in_order_def)
  note mem = active_intent_props(1) [OF i(1)]
  have "intent_wf (fol_handle r) i" using rests_folder_wf [OF rests] mem by (simp add: journal_wf_def)
  from unsent_refused [OF this i(2)] repair_accepted [OF rests mem i(2)] show ?thesis
    by (intro replaced_in_order [OF order i(1), of _ "\<lambda>x. x\<lparr>int_state := NeedsRepair\<rparr>" "fol_serverHold r"])
      (simp_all add: folder_needs_repair_write_def in_flight_def intent_accepted_def last_outcome_def)
qed

lemma submits_in_order:
  assumes order: "folder_in_order op r" and i: "active_namespace_intent (fol_intents r) = Some i"
    "int_state i = Pending" and q: "own_request r q" "fol_canonicalRefresh r = None"
    and v: "validate_folder_namespace_update (Some r) (fw_next (submits r i ids q)) op = Inr ()"
  shows "folder_in_order op (fw_next (submits r i ids q))"
proof -
  let ?a = "unrecorded_attempt (aid_attemptId ids) q"
  have "fol_copiedBy r = None" if "fol_serverHold r = LocalHold"
    using order that by (auto simp: folder_in_order_def folder_rests_iff folder_holds_ok_def)
  moreover have "at_last (int_attempts (submit_intent ?a i)) = Some ?a"
    by (simp add: submit_intent_def at_last_def)
  ultimately show ?thesis
    using v q by (intro replaced_in_order [OF order i(1), of _ "submit_intent ?a"
          "hold_after_attempt (fol_serverHold r) ?a"])
      (auto simp: submits_def Let_def submit_intent_def own_request_def unrecorded_attempt_def
          hold_after_create split: if_splits)
qed

lemma recorded_in_order:
  assumes order: "folder_in_order op r" and i: "active_namespace_intent (fol_intents r) = Some i"
    and w: "record_folder_namespace_outcome r (int_id i) attemptId out = Inr (Some w)"
    and v: "validate_folder_namespace_update (Some r) (fw_next w) op = Inr ()"
  shows "folder_in_order op (fw_next w)"
  using w
proof (cases rule: recorded_folder_write)
  case (1 j a b)
  from order have rests: "folder_rests op r" and ok: "in_flight_ok r" by (simp_all add: folder_in_order_def)
  have j: "j = i"
    using journal_wf_unique [OF rests_folder_wf [OF rests] 1(1) active_intent_props(1) [OF i] 1(2)] .
  have f: "fol_canonicalRefresh r = None" "if is_create_request (att_request a)
      then fol_copiedBy r = None \<and> hold_after_attempt (fol_serverHold r) a = fol_serverHold r
      else fol_canonical r \<noteq> None"
    using ok 1(1,3,4) by (auto simp: in_flight_ok_def in_flight_def)
  have wf: "intent_wf (fol_handle r) i"
    using rests_folder_wf [OF rests] active_intent_props(1) [OF i] by (simp add: journal_wf_def)
  have lastb: "at_last (int_attempts (receive_intent (att_id a) b i)) = Some b"
  proof -
    from 1(4) j obtain xs where xs: "int_attempts i = xs @ [a]"
      by (cases "int_attempts i" rule: rev_cases) (auto simp: at_last_def)
    have "distinct (map att_id (xs @ [a]))" using wf by (simp add: intent_wf_def attempts_ok_def xs)
    from replace_last_attempt [OF this, of b] 1(9) show ?thesis
      by (simp add: receive_intent_def xs at_last_def)
  qed
  have "hold_after_attempt (hold_after_attempt (fol_serverHold r) b) b =
      hold_after_attempt (fol_serverHold r) b" if "is_create_request (att_request a)"
    by (rule answered_hold [OF 1(7) that 1(9)])
  with f lastb v show ?thesis
    unfolding 1(10) by (intro replaced_in_order [OF order i, of _ "receive_intent (att_id a) b"
          "hold_after_attempt (fol_serverHold r) b"])
      (auto simp: j receive_intent_def 1(9) split: if_splits)
qed

lemma transition_in_order:
  assumes t: "folder_transition r e w" and order: "folder_in_order op r" and e: "event_expected r e"
  shows "folder_in_order op (fw_next w)"
proof -
  note v = folder_transition_accepted [OF t order e]
  from order have rests: "folder_rests op r" and ok: "in_flight_ok r" and refused: "repairs_refused r"
    by (simp_all add: folder_in_order_def)
  note wf = rests_folder_wf [OF rests]
  have unavailable: ?thesis if none: "\<And>i. i \<in> set (fol_intents r) \<Longrightarrow> \<not> in_flight i"
    and n: "fol_intents (fw_next w) = resolve_unavailable_namespace (fol_intents r) tm" for tm
    using refused by (intro quiet_in_order [OF order v] unavailable_quiet [OF wf none])
      (auto simp: n repairs_refused_def)
  from t show ?thesis
  proof cases
    case (prepared ids lookup)
    from prepared(2) obtain i where i: "active_namespace_intent (fol_intents r) = Some i" "int_state i = Pending"
      by (auto simp: prepare_folder_namespace_attempt_def split: option.splits if_splits)
    have none: "\<not> in_flight j" if "j \<in> set (fol_intents r)" for j
      using no_flight_behind [OF ok i(1) that] i(2) by (auto simp: in_flight_def)
    from prepared(2) e have "server_deletes r" by (simp add: prepared(1))
    with prepared(2) show ?thesis
    proof (cases rule: prepared_folder_write)
      case terminal
      then show ?thesis by (intro unavailable [OF none, of True]) (simp_all add: folder_update_def)
    next
      case (repair i)
      with repair_in_order [OF order] show ?thesis by simp
    next
      case (submit i q)
      with submits_in_order [OF order, of i q ids] v show ?thesis by simp
    qed
  next
    case (held_back i)
    with repair_in_order [OF order] show ?thesis by simp
  next
    case (recorded i attemptId out)
    with recorded_in_order [OF order _ _ v] show ?thesis by blast
  next
    case (settled t)
    have time: "0 \<le> t" using e by (simp add: settled(1))
    from settled(2) show ?thesis
    proof (cases rule: settled_folder_write)
      case (1 i a out d)
      have n: "fol_intents (fw_next w) = settle_namespace_intent (fol_intents r) i d t (fol_serverHold r)"
        "fol_handle (fw_next w) = fol_handle r" "fol_terminal (fw_next w) = fol_terminal r"
        using 1(7) by (simp_all add: Let_def)
      note s = settled_journal [OF rests ok time 1(1,4,2,3,6,5) n(2,3,1)]
      from settled_quiet [OF order 1(1) s(2) 1(6) s(3)] show ?thesis
        by (intro quiet_in_order [OF order v]) (simp add: n(1))
    qed
  next
    case (observed k availability)
    have refresh: "fol_canonicalRefresh r \<noteq> None"
      using observed(2) by (auto simp: install_folder_namespace_availability_def split: if_splits)
    note none = no_flight_at_barrier [OF ok refresh]
    have "fol_intents (fw_next w) = fol_intents r \<or> (\<exists>tm. fol_intents (fw_next w) =
        resolve_unavailable_namespace (fol_intents r) tm)"
    proof (cases availability)
      case (Available av)
      with observed(2) have "install_folder_canonical_refresh r k av = Inr (Some w)"
        by (simp add: install_folder_namespace_availability_def split: if_splits)
      then show ?thesis by (rule observed_folder_write) simp
    qed (use observed(2) in \<open>auto simp: install_folder_namespace_availability_def Let_def
        folder_update_def split: if_splits\<close>)
    then show ?thesis
    proof (elim disjE exE)
      assume "fol_intents (fw_next w) = fol_intents r"
      with none show ?thesis by (intro quiet_in_order [OF order v]) simp_all
    qed (rule unavailable [OF none])
  qed
qed

section \<open>Properties\<close>

text \<open>C26: Every write the reconciler plans over a folder record in order (preparing a request, leaving a
  placement for repair, recording an answer, settling it, installing an observation) is over the
  revision it read, passes the whole folder validator and leaves the record in order for the next
  one, under four named conditions. When a request is prepared, the active intent is not a delete the
  server need not see (server_deletes): that one is settled on this device with no undo window, and
  the validator turns the write away. An answer is settled at a time not before the epoch, and the
  server has placed a folder it made where the owner it was asked for can have a place. A record that
  is already terminal is not told of another deletion.\<close>

theorem folder_transitions_pass_the_validator:
  assumes "folder_transition r e w" and "folder_in_order op r"
    and local_settlement: "\<And>ids lookup. e = Preparing ids lookup \<Longrightarrow> server_deletes r"
    and clock: "\<And>t. e = Settling t \<Longrightarrow> 0 \<le> t"
    and placed: "\<And>t. e = Settling t \<Longrightarrow> answers_have_owners r"
    and once: "\<And>k availability. e = Observing k availability \<Longrightarrow> same_deletion r availability"
  shows "fw_expectedRevision w = Some (fol_revision r) \<and>
     validate_folder_namespace_update (Some r) (fw_next w) op = Inr () \<and>
     folder_in_order op (fw_next w)"
proof -
  have e: "event_expected r e" using assms(3-6) by (cases e) simp_all
  from transition_over [OF assms(1)] folder_transition_accepted [OF assms(1,2) e]
    transition_in_order [OF assms(1,2) e]
  show ?thesis by (simp add: folder_writes_over_def)
qed

theorem folder_transitions_pass_the_validator_witness:
  "\<exists>w. prepare_folder_namespace_attempt ex_new_folder \<lparr>aid_attemptId = ''t1'', aid_operationId = ''o1''\<rparr>
      (\<lambda>_. None) = Some w \<and> fol_serverHold (fw_next w) = UncertainHold \<and>
     validate_folder_namespace_update (Some ex_new_folder) (fw_next w) None = Inr () \<and>
     folder_in_order None (fw_next w)"
proof -
  let ?p = "prepare_folder_namespace_attempt ex_new_folder
      \<lparr>aid_attemptId = ''t1'', aid_operationId = ''o1''\<rparr> (\<lambda>_. None)"
  have h: "map_option (\<lambda>w. fol_serverHold (fw_next w)) ?p = Some UncertainHold" by code_simp
  then obtain w where w: "?p = Some w" "fol_serverHold (fw_next w) = UncertainHold" by auto
  have "folder_rests None ex_new_folder" unfolding folder_rests_def by code_simp
  moreover have "in_flight_ok ex_new_folder" "repairs_refused ex_new_folder"
    by (simp_all add: in_flight_ok_def repairs_refused_def ex_new_folder_def ex_intent_def in_flight_def)
  ultimately have "folder_in_order None ex_new_folder" by (simp add: folder_in_order_def)
  moreover have "server_deletes ex_new_folder" by code_simp
  ultimately have "validate_folder_namespace_update (Some ex_new_folder) (fw_next w) None = Inr () \<and>
      folder_in_order None (fw_next w)"
    using folder_transitions_pass_the_validator [OF folder_transition.prepared [OF w(1)]] by simp
  with w show ?thesis by blast
qed

end
