(* ===== verification/Resource_Planning.thy ===== *)
theory Resource_Planning
  imports Records_Validator Journal_Steps
begin

text \<open>
  The transitions of a document's journal write updates the journal validator accepts: preparing a
  request, recording its answer, settling it. Each starts from a record whose stored journal is at
  rest.
\<close>

section \<open>Records at rest\<close>

definition record_rests :: "resource_record \<Rightarrow> bool" where
  "record_rests r \<longleftrightarrow> journal_rests (record_journal_input None r) (rec_intents r)"

lemma record_input_update:
  "record_journal_input (Some r) n =
     update_of (record_journal_input None n) (rec_intents r) (rec_intents n)"
  by (simp add: record_journal_input_def)

lemma record_input_fields:
  "ji_handle (record_journal_input p n) = res_handle (rec_resource n)"
  "ji_identityRevision (record_journal_input p n) = res_identityRevision (rec_resource n)"
  "ji_intents (record_journal_input p n) = rec_intents n"
  "ji_terminal (record_journal_input p n) = is_terminal (res_lifecycle (rec_resource n))"
  by (simp_all add: record_journal_input_def)

text \<open>A write over the same handle and identity revision.\<close>

definition same_identity :: "resource_record \<Rightarrow> resource_record \<Rightarrow> bool" where
  "same_identity r n \<longleftrightarrow> res_handle (rec_resource n) = res_handle (rec_resource r) \<and>
     res_identityRevision (rec_resource n) = res_identityRevision (rec_resource r)"

lemma rests_for_next:
  "record_rests r \<Longrightarrow> same_identity r n \<Longrightarrow>
     journal_rests (record_journal_input None n) (rec_intents r)"
  using rests_cong [where inp = "record_journal_input None r" and J = "rec_intents r"
      and inp' = "record_journal_input None n"]
  by (simp add: record_rests_def same_identity_def record_input_fields)

lemma record_rests_wf: "record_rests r \<Longrightarrow> journal_wf (res_handle (rec_resource r)) (rec_intents r)"
  unfolding record_rests_def by (drule rests_wf) (simp add: record_journal_input_def)

text \<open>One intent of a journal steps, the others stay.\<close>

lemma one_step_accepted:
  assumes rests: "record_rests r" and same: "same_identity r n" and i: "i \<in> set (rec_intents r)"
    and next': "rec_intents n = map (\<lambda>c. if int_id c = int_id i then g c else c) (rec_intents r)"
    and step: "step_ok (record_journal_input (Some r) n) i (g i)"
  shows "validate_namespace_journal (record_journal_input (Some r) n) = Inr ()"
proof -
  have "validate_namespace_journal (update_of (record_journal_input None n) (rec_intents r)
      (map (\<lambda>c. if int_id c = int_id i then g c else c) (rec_intents r))) = Inr ()"
    using step by (intro one_step_update [OF rests_for_next [OF rests same] i])
      (simp add: record_input_update next')
  then show ?thesis by (simp add: record_input_update next')
qed

section \<open>Preparing a request\<close>

definition deletion_alone :: "resource_record \<Rightarrow> bool" where
  "deletion_alone r \<longleftrightarrow>
     (case active_namespace_intent (rec_intents r) of None \<Rightarrow> True
      | Some i \<Rightarrow> int_desired i = DeleteEntry \<and>
          \<not> delete_needs_server (res_serverHold (rec_resource r)) \<longrightarrow>
          (\<forall>j \<in> set (rec_intents r). int_id j = int_id i \<or> int_state j \<in> {Cancelled, Superseded}))"

theorem prepare_accepted:
  assumes rests: "record_rests r" and w: "prepare_namespace_attempt r ids lookup now = Some w"
    and alone: "deletion_alone r"
  shows "validate_namespace_journal (record_journal_input (Some r) (rw_next w)) = Inr ()"
proof -
  from w obtain i where act: "active_namespace_intent (rec_intents r) = Some i"
    and p: "int_state i = Pending"
    by (auto simp: prepare_namespace_attempt_def split: option.splits if_splits)
  note mem = active_intent_props(1) [OF act]
  have wf: "intent_wf (res_handle (rec_resource r)) i"
    using record_rests_wf [OF rests] mem by (simp add: journal_wf_def)
  consider (terminal) "is_terminal (res_lifecycle (rec_resource r))"
      "w = resource_update r (bumped (rec_resource r)) (resolve_unavailable_namespace (rec_intents r) True)"
    | (locally) "int_desired i = DeleteEntry" "\<not> delete_needs_server (res_serverHold (rec_resource r))"
      "w = settle_deletion_locally r (int_id i) now"
    | (repair) "w = needs_repair_write r (int_id i)"
    | (submit) request where "w = replace_intent r (int_id i)
        (submit_intent (unrecorded_attempt (aid_attemptId ids) request))
        (hold_after_attempt (res_serverHold (rec_resource r))
          (unrecorded_attempt (aid_attemptId ids) request))"
    using w p by (auto simp: prepare_namespace_attempt_def act Let_def split: option.splits if_splits)
  then show ?thesis
  proof cases
    case terminal
    have "same_identity r (rw_next w)"
      by (simp add: terminal(2) same_identity_def resource_update_def bumped_def)
    from unavailable_update_accepted [OF rests_for_next [OF rests this], of True] terminal
    show ?thesis by (simp add: record_input_update resource_update_def record_journal_input_def
          bumped_def)
  next
    case locally
    have same: "same_identity r (rw_next w)"
      by (simp add: locally(3) same_identity_def settle_deletion_locally_def resource_update_def
            locally_deleted_def bumped_def split: resource_content.splits)
    have n: "rec_intents (rw_next w) = map (\<lambda>c. if int_id c = int_id i
        then c\<lparr>int_state := SettledLocally\<rparr> else c) (rec_intents r)"
      by (simp add: locally(3) settle_deletion_locally_def resource_update_def)
    have "res_serverHold (rec_resource (rw_next w)) = res_serverHold (rec_resource r)"
      by (simp add: locally(3) settle_deletion_locally_def resource_update_def locally_deleted_def
            bumped_def split: resource_content.splits)
    then have "step_ok (record_journal_input (Some r) (rw_next w)) i (i\<lparr>int_state := SettledLocally\<rparr>)"
      using locally(1,2) alone act n p
      by (intro settled_locally_step_ok [OF wf p]) (auto simp: deletion_alone_def record_journal_input_def)
    then show ?thesis by (rule one_step_accepted [OF rests same mem n])
  next
    case repair
    have same: "same_identity r (rw_next w)"
      by (simp add: repair same_identity_def needs_repair_write_def replace_intent_def
            resource_update_def bumped_def)
    have n: "rec_intents (rw_next w) = map (\<lambda>c. if int_id c = int_id i
        then c\<lparr>int_state := NeedsRepair\<rparr> else c) (rec_intents r)"
      by (simp add: repair needs_repair_write_def replace_intent_def resource_update_def)
    have "move_ok (record_journal_input (Some r) (rw_next w)) i (i\<lparr>int_state := NeedsRepair\<rparr>)"
      using wf p by (intro unfinished_move_ok) simp_all
    from one_step_accepted [OF rests same mem n move_step_ok [OF this wf]] show ?thesis .
  next
    case submit
    have same: "same_identity r (rw_next w)"
      by (simp add: submit same_identity_def replace_intent_def resource_update_def bumped_def)
    have n: "rec_intents (rw_next w) = map (\<lambda>c. if int_id c = int_id i
        then submit_intent (unrecorded_attempt (aid_attemptId ids) request) c else c) (rec_intents r)"
      by (simp add: submit replace_intent_def resource_update_def)
    from one_step_accepted [OF rests same mem n submit_step_ok [OF wf p]] show ?thesis
      by (simp add: unrecorded_attempt_def)
  qed
qed

section \<open>Recording an answer\<close>

theorem recorded_accepted:
  assumes rests: "record_rests r"
    and w: "record_namespace_outcome r intentId attemptId out = Inr (Some w)"
  shows "validate_namespace_journal (record_journal_input (Some r) (rw_next w)) = Inr ()"
proof -
  from w obtain i a b where i: "find (\<lambda>i. int_id i = intentId) (rec_intents r) = Some i"
    and a: "at_last (int_attempts i) = Some a" "att_id a = attemptId" "att_outcome a = None"
    and st: "int_state i = Submitted" and m: "namespace_outcome_matches a out"
    and b: "namespace_attempt_with_outcome a out = Inr b"
    and w': "w = replace_intent r intentId (receive_intent attemptId b)
        (hold_after_attempt (res_serverHold (rec_resource r)) b)"
    by (auto simp: record_namespace_outcome_def split: option.splits if_splits)
  have mem: "i \<in> set (rec_intents r)" and id_i: "int_id i = intentId" using find_Some_mem [OF i] by auto
  have wf: "intent_wf (res_handle (rec_resource r)) i"
    using record_rests_wf [OF rests] mem by (simp add: journal_wf_def)
  have same: "same_identity r (rw_next w)"
    by (simp add: w' same_identity_def replace_intent_def resource_update_def bumped_def)
  have n: "rec_intents (rw_next w) =
      map (\<lambda>c. if int_id c = int_id i then receive_intent attemptId b c else c) (rec_intents r)"
    by (simp add: w' replace_intent_def resource_update_def id_i)
  from matching_outcome_checks [OF m b] receive_step_ok [OF wf st a(1,3)] a(2)
  have "step_ok (record_journal_input (Some r) (rw_next w)) i (receive_intent attemptId b i)" by blast
  then show ?thesis by (rule one_step_accepted [OF rests same mem n])
qed

section \<open>Settling\<close>

text \<open>A conflict answer has spent the id: what \<^verbatim>\<open>holdAfterAttempt\<close> records with it.\<close>

definition conflict_spends :: "resource_record \<Rightarrow> bool" where
  "conflict_spends r \<longleftrightarrow>
     (\<forall>i \<in> set (rec_intents r). int_state i = Received \<longrightarrow>
        last_outcome i \<in> {Some (CreateOutcome CreateConflict), Some (CreateFolderOutcome FolderConflict)}
        \<longrightarrow> res_serverHold (rec_resource r) = SpentHold)"

lemma committed_deletion_identity:
  assumes "committed_resource_deletion res g t v = Inr res'"
  shows "res_handle res' = res_handle res" "res_identityRevision res' = res_identityRevision res"
    "res_serverHold res' = res_serverHold res"
  using assms by (auto simp: committed_resource_deletion_def split: if_splits)

lemma settle_effect_identity:
  assumes "settle_effect r i a out jt = Inr (Some (res, repair))"
  shows "res_handle res = res_handle (rec_resource r)"
    and "res_identityRevision res = res_identityRevision (rec_resource r)"
    and "res_serverHold (rec_resource r) = SpentHold \<Longrightarrow> res_serverHold res = SpentHold"
    and "is_terminal (res_lifecycle (rec_resource r)) \<Longrightarrow> is_terminal (res_lifecycle res)"
proof -
  let ?same = "\<lambda>res'. res_handle res' = res_handle (rec_resource r) \<and>
      res_identityRevision res' = res_identityRevision (rec_resource r) \<and>
      (res_serverHold (rec_resource r) = SpentHold \<longrightarrow> res_serverHold res' = SpentHold)"
  have create: "?same res'" if "settle_create r i a c jt = Inr (Some (res', rp))" for res' rp c
    using that by (cases c; cases "att_request a")
      (auto simp: settle_create_def Let_def split: if_splits resource_content.splits)
  have receipt: "?same res'" if "settle_receipt r i a rc = Inr (res', rp)" for res' rp rc
    using that committed_deletion_identity [of "rec_resource r"]
    by (cases "att_request a"; cases "rcpt_answer rc")
       (auto simp: settle_receipt_def Let_def split: if_splits sum.splits)
  have "?same res"
    using assms create receipt
    by (auto simp: settle_effect_def split: if_splits namespace_outcome.splits)
  then show "res_handle res = res_handle (rec_resource r)"
    "res_identityRevision res = res_identityRevision (rec_resource r)"
    "res_serverHold (rec_resource r) = SpentHold \<Longrightarrow> res_serverHold res = SpentHold" by auto
  show "is_terminal (res_lifecycle (rec_resource r)) \<Longrightarrow> is_terminal (res_lifecycle res)"
    using assms by (simp add: settle_effect_def)
qed

theorem settled_accepted:
  assumes rests: "record_rests r" and w: "settle_namespace_outcome r t joinTaken = Inr (Some w)"
    and t: "0 \<le> t" and spends: "conflict_spends r"
  shows "validate_namespace_journal (record_journal_input (Some r) (rw_next w)) = Inr ()"
proof -
  from w obtain i a out res repair where act: "active_namespace_intent (rec_intents r) = Some i"
    and a: "at_last (int_attempts i) = Some a" "att_outcome a = Some out" and st: "int_state i = Received"
    and eff: "settle_effect r i a out joinTaken = Inr (Some (res, repair))"
    and w': "w = resource_update r (res\<lparr>res_revision := res_revision (rec_resource r) + 1\<rparr>)
        (settle_namespace_intent (rec_intents r) i
          (settle_disposition out (is_terminal (res_lifecycle (rec_resource r))) repair) t
          (res_serverHold res))"
    by (auto simp: settle_namespace_outcome_def split: option.splits if_splits)
  let ?n = "rw_next w"
  note e = settle_effect_identity [OF eff]
  have same: "same_identity r ?n" using e by (simp add: w' same_identity_def resource_update_def)
  have mem: "i \<in> set (rec_intents r)" using active_intent_props(1) [OF act] .
  have lo: "last_outcome i = Some out" using a by (simp add: last_outcome_def)
  have s: "settles (record_journal_input None ?n) (rec_intents r) i out"
    using rests_for_next [OF rests same] mem st lo by (simp add: settles_def)
  have "is_terminal (res_lifecycle (rec_resource r)) \<Longrightarrow> is_terminal (res_lifecycle res)" by (rule e(4))
  then have fit: "fitting_disposition (record_journal_input None ?n) out
      (settle_disposition out (is_terminal (res_lifecycle (rec_resource r))) repair)"
    by (auto simp: fitting_disposition_def settle_disposition_def Let_def w' resource_update_def
          record_journal_input_def namespace_intent_outcome_def)
  have "res_serverHold res = SpentHold"
    if "out = CreateOutcome CreateConflict \<or> out = CreateFolderOutcome FolderConflict"
    using spends mem st lo e(3) that by (auto simp: conflict_spends_def)
  from settle_update_accepted [OF s t fit this] show ?thesis
    by (simp add: record_input_update w' resource_update_def)
qed

section \<open>Transitions\<close>

text \<open>The writes the reconciler makes over a record it read.\<close>

inductive resource_transition :: "resource_record \<Rightarrow> resource_write \<Rightarrow> bool" where
  prepared: "prepare_namespace_attempt r ids lookup now = Some w \<Longrightarrow> deletion_alone r \<Longrightarrow>
     resource_transition r w"
| recorded: "record_namespace_outcome r intentId attemptId out = Inr (Some w) \<Longrightarrow>
     resource_transition r w"
| settled: "settle_namespace_outcome r t joinTaken = Inr (Some w) \<Longrightarrow> 0 \<le> t \<Longrightarrow>
     conflict_spends r \<Longrightarrow> resource_transition r w"

lemma rests_record_clean:
  "record_rests r \<Longrightarrow> i \<in> set (rec_intents r) \<Longrightarrow> int_state i = Superseded \<Longrightarrow> \<not> intent_accepted i"
  unfolding record_rests_def by (rule rests_clean)

lemma prepared_superseded:
  assumes "prepare_namespace_attempt r ids lookup now = Some w"
    and "n \<in> set (rec_intents (rw_next w))" and "int_state n = Superseded"
  shows "n \<in> set (rec_intents r)"
  using assms
  by (auto simp: prepare_namespace_attempt_def Let_def resource_update_def replace_intent_def
        needs_repair_write_def settle_deletion_locally_def resolve_unavailable_namespace_def
        submit_intent_def split: option.splits if_splits)

lemma recorded_superseded:
  assumes "record_namespace_outcome r intentId attemptId out = Inr (Some w)"
    and "n \<in> set (rec_intents (rw_next w))" and "int_state n = Superseded"
  shows "n \<in> set (rec_intents r)"
  using assms
  by (auto simp: record_namespace_outcome_def resource_update_def replace_intent_def
        receive_intent_def split: option.splits if_splits)

lemma settled_write:
  assumes "settle_namespace_outcome r t joinTaken = Inr (Some w)"
  obtains i a out res repair where "active_namespace_intent (rec_intents r) = Some i"
    "at_last (int_attempts i) = Some a" "att_outcome a = Some out" "int_state i = Received"
    "settle_effect r i a out joinTaken = Inr (Some (res, repair))"
    "w = resource_update r (res\<lparr>res_revision := res_revision (rec_resource r) + 1\<rparr>)
        (settle_namespace_intent (rec_intents r) i
          (settle_disposition out (is_terminal (res_lifecycle (rec_resource r))) repair) t
          (res_serverHold res))"
  using assms by (auto simp: settle_namespace_outcome_def split: option.splits if_splits)

lemma settled_same_identity:
  assumes "settle_namespace_outcome r t joinTaken = Inr (Some w)"
  shows "same_identity r (rw_next w)"
proof -
  from assms show ?thesis
  proof (rule settled_write)
    fix i a out res repair
    assume e: "settle_effect r i a out joinTaken = Inr (Some (res, repair))"
      and w: "w = resource_update r (res\<lparr>res_revision := res_revision (rec_resource r) + 1\<rparr>)
        (settle_namespace_intent (rec_intents r) i
          (settle_disposition out (is_terminal (res_lifecycle (rec_resource r))) repair) t
          (res_serverHold res))"
    from settle_effect_identity(1,2) [OF e] show ?thesis
      by (simp add: w same_identity_def resource_update_def)
  qed
qed

lemma settled_superseded:
  assumes rests: "record_rests r" and w: "settle_namespace_outcome r t joinTaken = Inr (Some w)"
    and n: "n \<in> set (rec_intents (rw_next w))" "int_state n = Superseded"
  shows "n \<in> set (rec_intents r) \<or> \<not> intent_accepted n"
proof -
  from w show ?thesis
  proof (rule settled_write)
    fix i a out res repair
    assume act: "active_namespace_intent (rec_intents r) = Some i"
      and a: "at_last (int_attempts i) = Some a" "att_outcome a = Some out" "int_state i = Received"
      and e: "settle_effect r i a out joinTaken = Inr (Some (res, repair))"
      and wd: "w = resource_update r (res\<lparr>res_revision := res_revision (rec_resource r) + 1\<rparr>)
        (settle_namespace_intent (rec_intents r) i
          (settle_disposition out (is_terminal (res_lifecycle (rec_resource r))) repair) t
          (res_serverHold res))"
    have s: "settles (record_journal_input None (rw_next w)) (rec_intents r) i out"
      using rests_for_next [OF rests settled_same_identity [OF w]] active_intent_props(1) [OF act] a
      by (simp add: settles_def last_outcome_def)
    have "fitting_disposition (record_journal_input None (rw_next w)) out
        (settle_disposition out (is_terminal (res_lifecycle (rec_resource r))) repair)"
      using settle_effect_identity(4) [OF e]
      by (auto simp: fitting_disposition_def settle_disposition_def Let_def wd resource_update_def
            record_journal_input_def namespace_intent_outcome_def)
    from settle_superseded [OF s this _ n(2)] n(1) show ?thesis
      by (simp add: wd resource_update_def)
  qed
qed

lemma transition_revision:
  assumes "resource_transition r w"
  shows "rw_expectedRevision w = Some (res_revision (rec_resource r)) \<and>
     res_revision (rec_resource (rw_next w)) = res_revision (rec_resource r) + 1 \<and>
     same_identity r (rw_next w)"
  using assms
proof cases
  case (prepared ids lookup now)
  then show ?thesis
    by (auto simp: prepare_namespace_attempt_def Let_def resource_update_def replace_intent_def
          needs_repair_write_def settle_deletion_locally_def locally_deleted_def bumped_def
          same_identity_def split: option.splits if_splits resource_content.splits)
next
  case (recorded intentId attemptId out)
  then show ?thesis
    by (auto simp: record_namespace_outcome_def resource_update_def replace_intent_def bumped_def
          same_identity_def split: option.splits if_splits)
next
  case (settled t joinTaken)
  then show ?thesis
    using settled_same_identity [OF settled(1)]
    by (auto simp: settle_namespace_outcome_def resource_update_def split: option.splits if_splits)
qed

theorem transition_accepted:
  assumes t: "resource_transition r w" and rests: "record_rests r"
  shows "validate_namespace_journal (record_journal_input (Some r) (rw_next w)) = Inr () \<and>
     record_rests (rw_next w)"
proof -
  have v: "validate_namespace_journal (record_journal_input (Some r) (rw_next w)) = Inr ()"
    using t by cases (auto intro: prepare_accepted [OF rests] recorded_accepted [OF rests]
        settled_accepted [OF rests])
  have "\<not> intent_accepted n" if n: "n \<in> set (rec_intents (rw_next w))" "int_state n = Superseded" for n
    using t
  proof cases
    case prepared
    with prepared_superseded n rests_record_clean [OF rests] show ?thesis by blast
  next
    case recorded
    with recorded_superseded n rests_record_clean [OF rests] show ?thesis by blast
  next
    case settled
    with settled_superseded [OF rests] n rests_record_clean [OF rests] show ?thesis by blast
  qed
  then have "journal_rests (record_journal_input (Some r) (rw_next w)) (rec_intents (rw_next w))"
    using accepted_rests [OF v] by (simp add: record_input_fields)
  then have "record_rests (rw_next w)"
    unfolding record_rests_def by (rule rests_cong) (simp_all add: record_input_fields)
  with v show ?thesis by blast
qed

section \<open>Properties\<close>

text \<open>Every transition the reconciler plans over a document record at rest (preparing a request,
  recording its answer, settling it) is a write over the revision it read, keeps handle and
  identity revision, passes the journal validator, and leaves the record at rest for the next
  one.\<close>

theorem transitions_pass_the_validator:
  assumes "resource_transition r w" and "record_rests r"
  shows "rw_expectedRevision w = Some (res_revision (rec_resource r)) \<and>
     res_revision (rec_resource (rw_next w)) = res_revision (rec_resource r) + 1 \<and>
     same_identity r (rw_next w) \<and>
     validate_namespace_journal (record_journal_input (Some r) (rw_next w)) = Inr () \<and>
     record_rests (rw_next w)"
  using transition_revision [OF assms(1)] transition_accepted [OF assms] by blast

abbreviation ex_pending_record :: resource_record where
  "ex_pending_record \<equiv>
     \<lparr>rec_resource = ex_resource, rec_intents = [ex_intent 1 Pending (ex_place ''a.md'') []]\<rparr>"

theorem transitions_pass_the_validator_witness:
  "\<exists>w. prepare_namespace_attempt ex_pending_record
      \<lparr>aid_attemptId = ''t1'', aid_operationId = ''o1''\<rparr> (\<lambda>_. None) 0 = Some w \<and>
     int_state (hd (rec_intents (rw_next w))) = Submitted \<and>
     res_serverHold (rec_resource (rw_next w)) = UncertainHold \<and> record_rests (rw_next w)"
proof -
  let ?i = "ex_intent 1 Pending (ex_place ''a.md'') []"
  have act: "active_namespace_intent [?i] = Some ?i"
    by (simp add: active_namespace_intent_def closed_state_def ex_intent_def)
  obtain w where w: "prepare_namespace_attempt ex_pending_record
      \<lparr>aid_attemptId = ''t1'', aid_operationId = ''o1''\<rparr> (\<lambda>_. None) 0 = Some w"
    "int_state (hd (rec_intents (rw_next w))) = Submitted"
    "res_serverHold (rec_resource (rw_next w)) = UncertainHold"
    by (simp add: prepare_namespace_attempt_def act)
       (simp add: ex_intent_def ex_resource_def request_for_def materialization_request_def
          content_reserved_def destination_gone_def replace_intent_def resource_update_def
          submit_intent_def unrecorded_attempt_def hold_after_attempt_def bumped_def Let_def)
  have "record_rests ex_pending_record"
    by (simp add: record_rests_def journal_rests_def record_journal_input_def
          validate_namespace_journal_def ex_intent_def ex_resource_def previous_intents_def
          check_old_intent_def is_safe_integer_def check_settled_at_def check_intent_state_def
          check_settled_locally_def)
  moreover have "deletion_alone ex_pending_record"
    by (simp add: deletion_alone_def act)
  ultimately show ?thesis
    using transitions_pass_the_validator [OF resource_transition.prepared [OF w(1)]] w by blast
qed

end
