(* ===== verification/Resource_State.thy ===== *)
theory Resource_State
  imports Resource_Planning
begin

text \<open>
  Decisions about a document record (\<^verbatim>\<open>resource-state.ts\<close>): reserving a new document, placing it,
  replacing a spent id, adopting and acknowledging sessions, acquiring content, and the terminal
  that ends it.
\<close>

section \<open>Creation and placement\<close>

definition next_sequence :: "namespace_intent list \<Rightarrow> int" where
  "next_sequence intents = max_from_0 (map int_sequence intents) + 1"

record reserve_input =
  ri_projectId :: string
  ri_handle :: string
  ri_documentId :: string
  ri_databaseName :: string
  ri_schema :: string
  ri_intentId :: string
  ri_folderPath :: "string option"
  ri_provisionalName :: "string option"
  ri_destination :: "(resource_destination \<times> int) option"
  ri_admission :: "placement_admission option"

definition reserve_resource_document :: "reserve_input \<Rightarrow> resource_write" where
  "reserve_resource_document inp =
     (let folderPath = or_empty (ri_folderPath inp);
          provisionalName = (case ri_provisionalName inp of None \<Rightarrow> ''Untitled'' | Some n \<Rightarrow> n)
      in \<lparr>rw_expectedRevision = None,
          rw_next = \<lparr>
            rec_resource = \<lparr>res_handle = ri_handle inp, res_revision = 1,
              res_documentId = ri_documentId inp, res_identityRevision = 1,
              res_content = ExactContent \<lparr>ec_databaseName = ri_databaseName inp,
                ec_schema = Some (ri_schema inp), ec_reserved = True\<rparr>,
              res_classification = \<lparr>class_extension = [],
                class_disposition = EditableFile Markdown DocumentSchema\<rparr>,
              res_materialization = Some \<lparr>mat_folderPath = folderPath,
                mat_provisionalName = provisionalName, mat_unnamed = (ri_destination inp = None)\<rparr>,
              res_serverHold = LocalHold, res_copiedBy = None, res_canonical = None,
              res_canonicalParent = None, res_canonicalRank = None,
              res_canonicalLocationVersion = None, res_observationVersion = None,
              res_lifecycle = LocalLife, res_aliases = [], res_revivedFrom = None,
              res_obligations = no_obligations
                \<lparr>ob_createEligibility := Some (map_option snd (ri_destination inp))\<rparr>\<rparr>,
            rec_intents = [\<lparr>int_projectId = ri_projectId inp, int_handle = ri_handle inp,
              int_id = ri_intentId inp, int_operationId = None, int_sequence = 1,
              int_admission = ri_admission inp, int_identityRevision = 1,
              int_desired = SetLocation provisionalName
                (case ri_destination inp of
                   None \<Rightarrow> untitled_destination folderPath provisionalName
                 | Some (d, _) \<Rightarrow> d),
              int_attempts = [], int_settledAt = None, int_state = Pending\<rparr>]\<rparr>\<rparr>)"

text \<open>Times are integers here, so only the sign of \<^verbatim>\<open>eligibleAt\<close> is checked.\<close>

definition mark_resource_create_eligible ::
  "resource_record \<Rightarrow> int \<Rightarrow> resource_write option result" where
  "mark_resource_create_eligible record eligibleAt =
     throw_when (eligibleAt < 0) ''Resource create eligibility time is invalid''
       (let res = rec_resource record
        in if ob_createEligibility (res_obligations res) \<noteq> Some None then Inr None
           else Inr (Some (resource_update record
             ((bumped res)\<lparr>res_obligations := (res_obligations res)
               \<lparr>ob_createEligibility := Some (Some eligibleAt)\<rparr>\<rparr>)
             (rec_intents record))))"

record location_input =
  li_projectId :: string
  li_intentId :: string
  li_eligibleAt :: int
  li_admission :: "placement_admission option"
  li_operationId :: "string option"
  li_destination :: resource_destination
  li_typedName :: "string option"

definition duplicate_location ::
  "namespace_intent option \<Rightarrow> string \<Rightarrow> resource_destination \<Rightarrow> bool" where
  "duplicate_location latest typed destination \<longleftrightarrow>
     (case latest of
        Some i \<Rightarrow> int_state i = Pending \<and> int_desired i = SetLocation typed destination
      | None \<Rightarrow> False)"

definition located_resource :: "resource_descriptor \<Rightarrow> int \<Rightarrow> resource_descriptor" where
  "located_resource res eligibleAt =
     (bumped res)
       \<lparr>res_materialization := map_option (\<lambda>m. m\<lparr>mat_unnamed := False\<rparr>) (res_materialization res),
        res_obligations := (res_obligations res)
          \<lparr>ob_createEligibility := map_option (\<lambda>e. Some (case e of None \<Rightarrow> eligibleAt | Some t \<Rightarrow> t))
             (ob_createEligibility (res_obligations res))\<rparr>\<rparr>"

definition plan_resource_location ::
  "resource_record \<Rightarrow> location_input \<Rightarrow> resource_write option" where
  "plan_resource_location record inp =
     (let res = rec_resource record
      in if is_terminal (res_lifecycle res) then None
         else
           (let latest = owning_location_intent (Some (li_projectId inp)) (rec_intents record)
                  (ob_canonicalRefresh (res_obligations res) \<noteq> None);
                destination = (case stored_filename (dest_name (li_destination inp))
                      (Some (shown_row (Some (li_projectId inp)) record)) of
                    Inr stored \<Rightarrow> (li_destination inp)\<lparr>dest_name := sn_name stored\<rparr>
                  | Inl _ \<Rightarrow> li_destination inp);
                (intents, repaired) =
                  supersede_repairable_namespace_work (rec_intents record) (Some (li_projectId inp));
                typed = (case li_typedName inp of None \<Rightarrow> dest_name (li_destination inp) | Some n \<Rightarrow> n)
            in if \<not> repaired \<and> dest_position destination = None \<and>
                  duplicate_location latest typed destination
               then None
               else Some (resource_update record (located_resource res (li_eligibleAt inp))
                 (intents @ [\<lparr>int_projectId = li_projectId inp, int_handle = res_handle res,
                    int_id = li_intentId inp,
                    int_operationId = (case li_operationId inp of
                       Some k \<Rightarrow> if k = [] then None else Some k | None \<Rightarrow> None),
                    int_sequence = next_sequence (rec_intents record),
                    int_admission = li_admission inp,
                    int_identityRevision = res_identityRevision res,
                    int_desired = SetLocation typed destination, int_attempts = [],
                    int_settledAt = None, int_state = Pending\<rparr>]))))"

section \<open>Replacing a spent id\<close>

definition remint_input_of ::
  "resource_record \<Rightarrow> string \<Rightarrow> string \<Rightarrow> (string \<Rightarrow> string option) \<Rightarrow> remint_input" where
  "remint_input_of record documentId retryIntentId rebasedIntentIds =
     \<lparr>rm_intents = rec_intents record, rm_from = res_identityRevision (rec_resource record),
      rm_to = res_identityRevision (rec_resource record) + 1,
      rm_fromId = res_documentId (rec_resource record), rm_toId = documentId,
      rm_retryIntentId = retryIntentId, rm_rebasedIntentIds = rebasedIntentIds\<rparr>"

definition remint_resource ::
  "resource_record \<Rightarrow> string \<Rightarrow> string \<Rightarrow> (string \<Rightarrow> string option) \<Rightarrow> resource_write option result" where
  "remint_resource record documentId retryIntentId rebasedIntentIds =
     (let res = rec_resource record
      in if \<not> awaits_remint (res_serverHold res) (rec_intents record) then Inr None
         else throw_when (res_documentId res = documentId)
           ''Remint requires a new document identity''
          (and_then (remint_journal (remint_input_of record documentId retryIntentId rebasedIntentIds))
             (\<lambda>intents. Inr (map_option (\<lambda>next'. resource_update record
               ((bumped res)\<lparr>res_serverHold := LocalHold, res_documentId := documentId,
                 res_identityRevision := res_identityRevision res + 1,
                 res_aliases := put_alias (res_aliases res) (res_documentId res)
                   (res_identityRevision res + 1)\<rparr>)
               next') intents))))"

section \<open>Sessions and content\<close>

definition adoption_of :: "resource_descriptor \<Rightarrow> string \<Rightarrow> string \<Rightarrow> string \<Rightarrow> session_adoption" where
  "adoption_of res transitionId projectId databaseName =
     \<lparr>sa_transitionId = transitionId, sa_projectId = projectId,
      sa_documentId = res_documentId res, sa_identityRevision = res_identityRevision res,
      sa_exactDatabaseName = databaseName\<rparr>"

definition plan_cached_session_adoption ::
  "resource_record \<Rightarrow> string \<Rightarrow> string \<Rightarrow> resource_write option" where
  "plan_cached_session_adoption record projectId transitionId =
     (let res = rec_resource record
      in case res_content res of
           ExactContent c \<Rightarrow>
             if \<not> is_acknowledged (res_lifecycle res) \<or> ec_reserved c \<or>
                ob_sessionAdoption (res_obligations res) \<noteq> None
             then None
             else Some (resource_update record
               ((bumped res)\<lparr>res_obligations := (res_obligations res)\<lparr>ob_sessionAdoption :=
                 Some (adoption_of res transitionId projectId (ec_databaseName c))\<rparr>\<rparr>)
               (rec_intents record))
         | Unacquired \<Rightarrow> None)"

definition assert_availability_generation :: "string \<Rightarrow> unit result" where
  "assert_availability_generation generation =
     (if canonical_decimal generation then Inr ()
      else Inl (TypeError ''Invalid availability generation''))"

definition acknowledge_session_adoption ::
  "resource_record \<Rightarrow> string \<Rightarrow> resource_write option result" where
  "acknowledge_session_adoption record generation =
     and_then (assert_availability_generation generation) (\<lambda>_.
       let res = rec_resource record
       in if ob_sessionAdoption (res_obligations res) = None \<or> \<not> is_acknowledged (res_lifecycle res)
          then Inr None
          else Inr (Some (resource_update record
            ((bumped res)\<lparr>res_lifecycle := Acknowledged (Some generation),
              res_obligations := (res_obligations res)\<lparr>ob_sessionAdoption := None\<rparr>\<rparr>)
            (rec_intents record))))"

definition superseded_terminal :: "resource_record \<Rightarrow> string \<Rightarrow> bool result" where
  "superseded_terminal record generation =
     (if is_terminal (res_lifecycle (rec_resource record)) then Inr False
      else case res_revivedFrom (rec_resource record) of
          None \<Rightarrow> Inr False
        | Some revived \<Rightarrow>
            and_then (BigInt generation) (\<lambda>g.
            and_then (BigInt (rf_generation revived)) (\<lambda>h. Inr (g \<le> h))))"

record acquired_input =
  ai_projectId :: string
  ai_documentId :: string
  ai_databaseName :: string
  ai_schema :: string
  ai_generation :: string
  ai_transitionId :: string

definition acquired_resource ::
  "resource_descriptor \<Rightarrow> acquired_input \<Rightarrow> resource_descriptor" where
  "acquired_resource res inp =
     (bumped res)
       \<lparr>res_content := ExactContent \<lparr>ec_databaseName = ai_databaseName inp,
          ec_schema = Some (ai_schema inp), ec_reserved = False\<rparr>,
        res_lifecycle := Acknowledged (Some (ai_generation inp)),
        res_obligations := (res_obligations res)\<lparr>ob_sessionAdoption :=
          Some (adoption_of res (ai_transitionId inp) (ai_projectId inp) (ai_databaseName inp))\<rparr>\<rparr>"

definition record_acquired_resource_content ::
  "resource_record \<Rightarrow> acquired_input \<Rightarrow> resource_write option result" where
  "record_acquired_resource_content record inp =
     and_then (assert_availability_generation (ai_generation inp)) (\<lambda>_.
     and_then (superseded_terminal record (ai_generation inp)) (\<lambda>superseded.
       let res = rec_resource record;
           write = resource_update record (acquired_resource res inp) (rec_intents record)
       in if superseded then Inr None
          else throw_when (res_documentId res \<noteq> ai_documentId inp)
            ''Acquired content does not match the current resource identity''
           (case res_lifecycle res of
              Acknowledged generation \<Rightarrow>
                if ob_sessionAdoption (res_obligations res) \<noteq> None then Inr None
                else (case res_content res of
                    ExactContent c \<Rightarrow>
                      if ec_databaseName c = ai_databaseName inp \<and>
                         generation = Some (ai_generation inp) then Inr None
                      else throw_when (ec_databaseName c \<noteq> ai_databaseName inp)
                        ''Acquired resource content changed exact persistence'' (Inr (Some write))
                  | Unacquired \<Rightarrow> Inr (Some write))
            | _ \<Rightarrow> Inr None)))"

section \<open>The terminal\<close>

definition terminal_deletion_version ::
  "resource_record \<Rightarrow> string option \<Rightarrow> string option result" where
  "terminal_deletion_version record given =
     (case (given, deletion_version (res_lifecycle (rec_resource record))) of
        (None, held) \<Rightarrow> Inr held
      | (Some v, None) \<Rightarrow> Inr (Some v)
      | (Some v, Some held) \<Rightarrow>
          and_then (newer_canonical_observation held (Some v)) (\<lambda>newer.
            Inr (Some (if newer then held else v))))"

record terminal_input =
  ti_documentId :: string
  ti_generation :: string
  ti_transitionId :: string
  ti_exactDatabaseName :: string
  ti_deletionVersion :: "string option"

definition terminal_of :: "terminal_input \<Rightarrow> string option \<Rightarrow> resource_lifecycle" where
  "terminal_of inp version =
     Terminal \<lparr>term_generation = ti_generation inp, term_transitionId = ti_transitionId inp,
       term_deletionVersion = version\<rparr>"

definition cleanup_of :: "terminal_input \<Rightarrow> cleanup_work" where
  "cleanup_of inp = \<lparr>cl_obligationId = ti_transitionId inp,
     cl_exactDatabaseName = ti_exactDatabaseName inp, cl_notBefore = None\<rparr>"

text \<open>A document already deleted keeps its other obligations, a newly deleted one drops them.\<close>

definition terminal_resource ::
  "resource_descriptor \<Rightarrow> terminal_input \<Rightarrow> string option \<Rightarrow> resource_descriptor" where
  "terminal_resource res inp version =
     (if is_terminal (res_lifecycle res)
      then (bumped res)\<lparr>res_lifecycle := terminal_of inp version,
        res_obligations := (res_obligations res)\<lparr>ob_cleanup := Some (cleanup_of inp)\<rparr>\<rparr>
      else (bumped res)\<lparr>res_canonical := None, res_lifecycle := terminal_of inp version,
        res_obligations := no_obligations\<lparr>ob_cleanup := Some (cleanup_of inp)\<rparr>\<rparr>)"

definition publish_resource_terminal ::
  "resource_record \<Rightarrow> terminal_input \<Rightarrow> resource_write option result" where
  "publish_resource_terminal record inp =
     and_then (assert_availability_generation (ti_generation inp)) (\<lambda>_.
     and_then (terminal_deletion_version record (ti_deletionVersion inp)) (\<lambda>version.
     and_then (superseded_terminal record (ti_generation inp)) (\<lambda>superseded.
       let res = rec_resource record
       in if superseded then Inr None
          else throw_when (res_documentId res \<noteq> ti_documentId inp \<or>
              (case res_content res of
                 ExactContent c \<Rightarrow> ec_databaseName c \<noteq> ti_exactDatabaseName inp
               | Unacquired \<Rightarrow> True))
            ''Terminal transition does not match exact resource content''
           (case res_lifecycle res of
              Terminal t \<Rightarrow>
                throw_when (term_generation t \<noteq> ti_generation inp)
                  ''Terminal resource belongs to another transition''
                 (case ob_cleanup (res_obligations res) of
                    Some c \<Rightarrow>
                      if term_transitionId t = ti_transitionId inp \<and>
                         cl_obligationId c = ti_transitionId inp \<and>
                         cl_exactDatabaseName c = ti_exactDatabaseName inp
                      then Inr None
                      else Inl (Error ''Terminal resource belongs to another transition'')
                  | None \<Rightarrow> Inr (Some (resource_update record (terminal_resource res inp version)
                      (rec_intents record))))
            | _ \<Rightarrow> Inr (Some (resource_update record (terminal_resource res inp version)
                (rec_intents record)))))))"

definition acknowledge_resource_terminal_cleanup ::
  "resource_record \<Rightarrow> string \<Rightarrow> string \<Rightarrow> string \<Rightarrow> resource_write option result" where
  "acknowledge_resource_terminal_cleanup record generation transitionId exactDatabaseName =
     and_then (superseded_terminal record generation) (\<lambda>superseded.
       let res = rec_resource record
       in if superseded then Inr None
          else throw_when (case res_lifecycle res of
              Terminal t \<Rightarrow> term_generation t \<noteq> generation \<or> term_transitionId t \<noteq> transitionId
            | _ \<Rightarrow> True)
            ''Terminal cleanup belongs to another transition''
           (case ob_cleanup (res_obligations res) of
              None \<Rightarrow> Inr None
            | Some c \<Rightarrow> throw_when (cl_obligationId c \<noteq> transitionId \<or>
                  cl_exactDatabaseName c \<noteq> exactDatabaseName)
                ''Terminal cleanup witness changed''
                (Inr (Some (resource_update record
                  ((bumped res)\<lparr>res_obligations := no_obligations\<rparr>) (rec_intents record))))))"

definition acknowledge_local_resource_cleanup ::
  "resource_record \<Rightarrow> string \<Rightarrow> string \<Rightarrow> resource_write option result" where
  "acknowledge_local_resource_cleanup record transitionId exactDatabaseName =
     (let res = rec_resource record
      in throw_when (\<not> list_ex (\<lambda>i. int_id i = transitionId \<and> int_desired i = DeleteEntry \<and>
             int_state i = SettledLocally) (rec_intents record) \<or> res_lifecycle res \<noteq> LocalLife)
           ''Local cleanup belongs to another deletion''
          (case ob_cleanup (res_obligations res) of
             None \<Rightarrow> Inr None
           | Some c \<Rightarrow> throw_when (cl_obligationId c \<noteq> transitionId \<or>
                 cl_exactDatabaseName c \<noteq> exactDatabaseName)
               ''Local cleanup witness changed''
               (Inr (Some (resource_update record
                 ((bumped res)\<lparr>res_obligations := (res_obligations res)\<lparr>ob_cleanup := None\<rparr>\<rparr>)
                 (rec_intents record))))))"

section \<open>Records in order\<close>

text \<open>
  A stored record is in order when the store would accept it again unchanged but for its revision,
  beside the given operation. Every write below starts from such a record and leaves one.
\<close>

definition restored :: "resource_record \<Rightarrow> resource_record" where
  "restored r = r\<lparr>rec_resource := bumped (rec_resource r)\<rparr>"

definition in_order :: "resource_record \<Rightarrow> operation_record option \<Rightarrow> bool" where
  "in_order r operation \<longleftrightarrow>
     validate_resource_record_update (Some r) (restored r) operation = Inr ()"

lemma in_order_checks:
  assumes "in_order r operation"
  shows "check_hold (Some r) (restored r) = Inr ()" "check_terminal (Some r) (restored r) = Inr ()"
    "check_reservation (Some r) (restored r) = Inr ()"
    "check_eligibility (Some r) (restored r) = Inr ()" "check_adoption (Some r) (restored r) = Inr ()"
    "check_refresh_witness (restored r) operation = Inr ()"
    "check_record_identity (Some r) (restored r) = Inr ()"
  using assms by (auto simp: in_order_def validate_resource_record_update_def)

lemma in_order_rests: "in_order r operation \<Longrightarrow> record_rests r"
  unfolding record_rests_def
  by (rule rests_cong [of "record_journal_input None (restored r)"])
     (auto simp: in_order_def validate_resource_record_update_def record_journal_input_def
        journal_rests_def restored_def bumped_def)

text \<open>A write that leaves the journal as it was.\<close>

lemma journal_kept_accepted:
  assumes "record_rests r" and "same_identity r n" and "rec_intents n = rec_intents r"
  shows "validate_namespace_journal (record_journal_input (Some r) n) = Inr ()"
  using rests_for_next [OF assms(1,2)] assms(3)
  by (simp add: record_input_update journal_rests_def)

lemma journal_kept_rests:
  "record_rests r \<Longrightarrow> same_identity r n \<Longrightarrow> rec_intents n = rec_intents r \<Longrightarrow> record_rests n"
  using rests_for_next [of r n] by (simp add: record_rests_def)

lemma restored_fields [simp]:
  "rec_intents (restored n) = rec_intents n"
  "res_serverHold (rec_resource (restored n)) = res_serverHold (rec_resource n)"
  "res_handle (rec_resource (restored n)) = res_handle (rec_resource n)"
  "res_revision (rec_resource (restored n)) = res_revision (rec_resource n) + 1"
  "res_documentId (rec_resource (restored n)) = res_documentId (rec_resource n)"
  "res_identityRevision (rec_resource (restored n)) = res_identityRevision (rec_resource n)"
  "res_canonical (rec_resource (restored n)) = res_canonical (rec_resource n)"
  "res_copiedBy (rec_resource (restored n)) = res_copiedBy (rec_resource n)"
  "res_content (rec_resource (restored n)) = res_content (rec_resource n)"
  "res_aliases (rec_resource (restored n)) = res_aliases (rec_resource n)"
  "res_lifecycle (rec_resource (restored n)) = res_lifecycle (rec_resource n)"
  "res_obligations (rec_resource (restored n)) = res_obligations (rec_resource n)"
  "executable_create (restored n) = executable_create n"
  by (simp_all add: restored_def bumped_def executable_create_def)

lemma kept_checks:
  "check_record_identity p n = Inr () \<Longrightarrow> check_record_identity (Some n) (restored n) = Inr ()"
  "check_hold p n = Inr () \<Longrightarrow> check_hold (Some n) (restored n) = Inr ()"
  "check_eligibility p n = Inr () \<Longrightarrow> check_eligibility (Some n) (restored n) = Inr ()"
  "check_adoption p n = Inr () \<Longrightarrow> check_adoption (Some n) (restored n) = Inr ()"
  "check_refresh_witness n operation = Inr () \<Longrightarrow>
     check_refresh_witness (restored n) operation = Inr ()"
  by (simp_all add: check_record_identity_def check_hold_def check_eligibility_def check_adoption_def
      check_refresh_witness_def Let_def split: option.split)
     (auto split: option.splits if_splits)

lemma kept_reservation:
  "check_reservation p n = Inr () \<Longrightarrow> check_reservation (Some n) (restored n) = Inr ()"
  by (cases "res_content (rec_resource n)")
     (auto simp: check_reservation_def content_reserved_def content_database_def Let_def
        split: option.splits if_splits)

lemma kept_terminal:
  assumes "\<And>d. deletion_version (res_lifecycle (rec_resource n)) = Some d \<Longrightarrow> canonical_decimal d"
  shows "check_terminal (Some n) (restored n) = Inr ()"
  using assms by (auto simp: check_terminal_def split: resource_lifecycle.split option.split)

lemma kept_obligations: "check_obligations_kept (Some n) (restored n) = Inr ()"
  by (auto simp: check_obligations_kept_def Let_def)

lemma accepted_in_order:
  assumes v: "validate_resource_record_update p n operation = Inr ()" and rests: "record_rests n"
    and decimal: "\<And>d. deletion_version (res_lifecycle (rec_resource n)) = Some d \<Longrightarrow> canonical_decimal d"
  shows "in_order n operation"
proof -
  have "validate_namespace_journal (record_journal_input (Some n) (restored n)) = Inr ()"
    using rests by (intro journal_kept_accepted) (simp_all add: same_identity_def)
  then show ?thesis
    using v kept_checks(1-4) [of p n] kept_checks(5) [of n] kept_reservation [of p n] kept_terminal [of n] decimal
      kept_obligations [of n]
    by (auto simp: in_order_def validate_resource_record_update_def)
qed

section \<open>Writes that leave the journal alone\<close>

text \<open>
  What the store asks of such a write over a record in order: everything but the journal, which was
  accepted before.
\<close>

definition keeps_order :: "resource_record \<Rightarrow> resource_descriptor \<Rightarrow> bool" where
  "keeps_order r res \<longleftrightarrow>
     (let n = \<lparr>rec_resource = res, rec_intents = rec_intents r\<rparr>
      in same_identity r n \<and> res_revision res = res_revision (rec_resource r) + 1 \<and>
         res_copiedBy res = res_copiedBy (rec_resource r) \<and>
         res_serverHold res = res_serverHold (rec_resource r) \<and>
         ob_canonicalRefresh (res_obligations res) \<in>
           {None, ob_canonicalRefresh (res_obligations (rec_resource r))} \<and>
         check_hold (Some r) n = Inr () \<and> check_terminal (Some r) n = Inr () \<and>
         check_reservation (Some r) n = Inr () \<and> check_eligibility (Some r) n = Inr () \<and>
         check_adoption (Some r) n = Inr () \<and> check_obligations_kept (Some r) n = Inr ())"

lemma keeps_order_accepted:
  assumes o: "in_order r operation" and k: "keeps_order r res"
  shows "validate_resource_record_update (Some r) (rw_next (resource_update r res (rec_intents r)))
      operation = Inr () \<and> record_rests (rw_next (resource_update r res (rec_intents r)))"
proof -
  let ?n = "\<lparr>rec_resource = res, rec_intents = rec_intents r\<rparr>"
  have s: "same_identity r ?n" using k by (simp add: keeps_order_def Let_def)
  have "check_record_identity (Some r) ?n = Inr ()"
    using in_order_checks(7) [OF o] k s
    by (auto simp: check_record_identity_def keeps_order_def same_identity_def Let_def)
  moreover have "check_refresh_witness ?n operation = Inr ()"
    using in_order_checks(6) [OF o] k
    by (auto simp: check_refresh_witness_def keeps_order_def Let_def split: option.splits)
  moreover note journal_kept_accepted [OF in_order_rests [OF o] s]
    journal_kept_rests [OF in_order_rests [OF o] s]
  ultimately show ?thesis
    using k by (simp add: resource_update_def keeps_order_def Let_def validate_resource_record_update_def)
qed

lemmas order_simps = check_hold_def check_terminal_def check_reservation_def check_eligibility_def
  check_adoption_def check_obligations_kept_def executable_create_def content_reserved_def
  acknowledged_exact_cache_def adoption_of_def bumped_def same_identity_def Let_def

text \<open>A record in order, condition by condition.\<close>

lemma in_order_facts:
  assumes "in_order r operation"
  shows "res_canonical (rec_resource r) \<noteq> None \<or> is_acknowledged (res_lifecycle (rec_resource r)) \<Longrightarrow>
      res_serverHold (rec_resource r) = HeldHold"
    and "res_copiedBy (rec_resource r) \<noteq> None \<Longrightarrow>
      res_serverHold (rec_resource r) \<in> {UncertainHold, HeldHold}"
    and "content_reserved (res_content (rec_resource r)) \<Longrightarrow>
      res_lifecycle (rec_resource r) = LocalLife \<and> res_canonical (rec_resource r) = None \<and>
      (\<forall>i \<in> set (rec_intents r). int_attempts i = [])"
    and "ob_createEligibility (res_obligations (rec_resource r)) = Some (Some t) \<Longrightarrow> 0 \<le> t"
    and "executable_create r \<Longrightarrow> res_lifecycle (rec_resource r) = LocalLife \<Longrightarrow>
      ob_createEligibility (res_obligations (rec_resource r)) = None \<Longrightarrow>
      res_copiedBy (rec_resource r) \<noteq> None"
    and "ob_canonicalRefresh (res_obligations (rec_resource r)) = Some c \<Longrightarrow>
      cr_identityRevision c = res_identityRevision (rec_resource r)"
    and "ob_sessionAdoption (res_obligations (rec_resource r)) = Some a \<Longrightarrow>
      is_acknowledged (res_lifecycle (rec_resource r)) \<and>
      \<not> content_reserved (res_content (rec_resource r)) \<and>
      content_database (res_content (rec_resource r)) = sa_exactDatabaseName a \<and>
      res_content (rec_resource r) \<noteq> Unacquired \<and>
      sa_documentId a = res_documentId (rec_resource r) \<and>
      sa_identityRevision a = res_identityRevision (rec_resource r)"
    and "deletion_version (res_lifecycle (rec_resource r)) = Some d \<Longrightarrow> canonical_decimal d"
proof -
  note c = in_order_checks [OF assms]
  show "res_canonical (rec_resource r) \<noteq> None \<or> is_acknowledged (res_lifecycle (rec_resource r)) \<Longrightarrow>
      res_serverHold (rec_resource r) = HeldHold"
    and "res_copiedBy (rec_resource r) \<noteq> None \<Longrightarrow>
      res_serverHold (rec_resource r) \<in> {UncertainHold, HeldHold}"
    using c(1) by (auto simp: check_hold_def Let_def)
  show "content_reserved (res_content (rec_resource r)) \<Longrightarrow>
      res_lifecycle (rec_resource r) = LocalLife \<and> res_canonical (rec_resource r) = None \<and>
      (\<forall>i \<in> set (rec_intents r). int_attempts i = [])"
    using c(3) by (auto simp: check_reservation_def list_ex_iff Let_def)
  show "ob_createEligibility (res_obligations (rec_resource r)) = Some (Some t) \<Longrightarrow> 0 \<le> t"
    and "executable_create r \<Longrightarrow> res_lifecycle (rec_resource r) = LocalLife \<Longrightarrow>
      ob_createEligibility (res_obligations (rec_resource r)) = None \<Longrightarrow>
      res_copiedBy (rec_resource r) \<noteq> None"
    and "ob_canonicalRefresh (res_obligations (rec_resource r)) = Some c \<Longrightarrow>
      cr_identityRevision c = res_identityRevision (rec_resource r)"
    using c(4) by (auto simp: check_eligibility_def Let_def)
  show "ob_sessionAdoption (res_obligations (rec_resource r)) = Some a \<Longrightarrow>
      is_acknowledged (res_lifecycle (rec_resource r)) \<and>
      \<not> content_reserved (res_content (rec_resource r)) \<and>
      content_database (res_content (rec_resource r)) = sa_exactDatabaseName a \<and>
      res_content (rec_resource r) \<noteq> Unacquired \<and>
      sa_documentId a = res_documentId (rec_resource r) \<and>
      sa_identityRevision a = res_identityRevision (rec_resource r)"
    using c(5) by (cases "res_content (rec_resource r)")
      (auto simp: check_adoption_def content_reserved_def content_database_def Let_def)
  show "deletion_version (res_lifecycle (rec_resource r)) = Some d \<Longrightarrow> canonical_decimal d"
    using c(2) by (cases "res_lifecycle (rec_resource r)")
      (auto simp: check_terminal_def newer_canonical_observation_def split: if_splits)
qed

text \<open>The content is exact and not reserved: it was initialized or acquired.\<close>

definition content_settled :: "resource_record \<Rightarrow> bool" where
  "content_settled r \<longleftrightarrow> \<not> content_reserved (res_content (rec_resource r))"

inductive obligation_step :: "resource_record \<Rightarrow> resource_write \<Rightarrow> bool" where
  eligible: "mark_resource_create_eligible r t = Inr (Some w) \<Longrightarrow> obligation_step r w"
| adopting: "plan_cached_session_adoption r project t = Some w \<Longrightarrow> obligation_step r w"
| adopted: "acknowledge_session_adoption r generation = Inr (Some w) \<Longrightarrow> obligation_step r w"
| acquired: "record_acquired_resource_content r inp = Inr (Some w) \<Longrightarrow> obligation_step r w"
| deleted: "publish_resource_terminal r inp' = Inr (Some w) \<Longrightarrow> content_settled r \<Longrightarrow>
    (\<And>v. ti_deletionVersion inp' = Some v \<Longrightarrow> canonical_decimal v) \<Longrightarrow> obligation_step r w"
| cleaned: "acknowledge_resource_terminal_cleanup r generation t db = Inr (Some w) \<Longrightarrow>
    obligation_step r w"
| cleaned_locally: "acknowledge_local_resource_cleanup r t db = Inr (Some w) \<Longrightarrow>
    obligation_step r w"

lemma keeps_orderI:
  fixes r :: resource_record and res :: resource_descriptor
  defines "old \<equiv> rec_resource r"
  assumes o: "in_order r operation"
    and same: "res_handle res = res_handle old" "res_identityRevision res = res_identityRevision old"
      "res_documentId res = res_documentId old" "res_copiedBy res = res_copiedBy old"
      "res_serverHold res = res_serverHold old" "res_revision res = res_revision old + 1"
    and canonical: "res_canonical res \<in> {None, res_canonical old}"
    and refresh: "ob_canonicalRefresh (res_obligations res) \<in>
      {None, ob_canonicalRefresh (res_obligations old)}"
    and life: "is_acknowledged (res_lifecycle res) \<Longrightarrow> is_acknowledged (res_lifecycle old)"
      "res_lifecycle res = LocalLife \<Longrightarrow> res_lifecycle old = LocalLife \<and>
         res_canonical res = res_canonical old"
    and content: "res_content res = res_content old \<and> res_lifecycle res = res_lifecycle old \<or>
      \<not> content_reserved (res_content res) \<and> \<not> content_reserved (res_content old)"
    and eligibility: "(case ob_createEligibility (res_obligations res) of
        None \<Rightarrow> ob_createEligibility (res_obligations old) = None \<or> res_lifecycle res \<noteq> LocalLife
      | Some e \<Rightarrow> ob_createEligibility (res_obligations old) = Some e \<or>
          ob_createEligibility (res_obligations old) = Some None \<and> (\<forall>t. e = Some t \<longrightarrow> 0 \<le> t))"
    and terminal: "check_terminal (Some r) \<lparr>rec_resource = res, rec_intents = rec_intents r\<rparr> = Inr ()"
    and adoption: "ob_sessionAdoption (res_obligations res) = None \<and>
        (ob_sessionAdoption (res_obligations old) = None \<or> res_lifecycle res \<noteq> LocalLife) \<or>
      ob_sessionAdoption (res_obligations res) = ob_sessionAdoption (res_obligations old) \<and>
        res_content res = res_content old \<and>
        is_acknowledged (res_lifecycle res) = is_acknowledged (res_lifecycle old) \<or>
      ob_sessionAdoption (res_obligations old) = None \<and> is_acknowledged (res_lifecycle res) \<and>
        (\<exists>t project c. res_content res = ExactContent c \<and> \<not> ec_reserved c \<and>
          ob_sessionAdoption (res_obligations res) =
            Some (adoption_of old t project (ec_databaseName c)) \<and>
          res_content old \<in> {Unacquired} \<union> {ExactContent c' |c'. ec_databaseName c' = ec_databaseName c})"
  shows "keeps_order r res"
proof -
  let ?n = "\<lparr>rec_resource = res, rec_intents = rec_intents r\<rparr>"
  note f = in_order_facts [OF o]
  have exec: "executable_create ?n \<Longrightarrow> res_canonical res = res_canonical old \<Longrightarrow> executable_create r"
    by (simp add: executable_create_def old_def)
  have held: "(res_canonical old = None \<and> \<not> is_acknowledged (res_lifecycle old)) \<or>
      res_serverHold old = HeldHold"
    using f(1) unfolding old_def by blast
  have "check_hold (Some r) ?n = Inr ()"
    using held f(2) same canonical life(1) by (auto simp: check_hold_def old_def Let_def)
  moreover have "check_reservation (Some r) ?n = Inr ()"
    using content f(3) same canonical
    by (cases "res_content (rec_resource r)"; cases "res_content res")
       (auto simp: check_reservation_def content_reserved_def content_database_def old_def Let_def
          list_ex_iff)
  moreover have "check_eligibility (Some r) ?n = Inr ()"
    using eligibility f(4,5,6) same refresh life(2) exec
    by (auto simp: check_eligibility_def old_def Let_def split: option.splits)
  moreover have "check_adoption (Some r) ?n = Inr ()"
    using adoption
  proof (elim disjE)
    assume "ob_sessionAdoption (res_obligations res) = ob_sessionAdoption (res_obligations old) \<and>
        res_content res = res_content old \<and>
        is_acknowledged (res_lifecycle res) = is_acknowledged (res_lifecycle old)"
    then show ?thesis
      using f(7) same
      by (cases "ob_sessionAdoption (res_obligations (rec_resource r))";
          cases "res_content (rec_resource r)")
         (auto simp: check_adoption_def content_reserved_def content_database_def old_def Let_def
            split: option.split)
  next
    assume "ob_sessionAdoption (res_obligations old) = None \<and> is_acknowledged (res_lifecycle res) \<and>
        (\<exists>t project c. res_content res = ExactContent c \<and> \<not> ec_reserved c \<and>
          ob_sessionAdoption (res_obligations res) =
            Some (adoption_of old t project (ec_databaseName c)) \<and>
          res_content old \<in> {Unacquired} \<union> {ExactContent c' |c'. ec_databaseName c' = ec_databaseName c})"
    then show ?thesis
      using same life(1) content
      by (auto simp: check_adoption_def content_reserved_def adoption_of_def
          acknowledged_exact_cache_def old_def Let_def)
  qed (simp add: check_adoption_def Let_def)
  moreover have "check_obligations_kept (Some r) ?n = Inr ()"
    using adoption refresh f(7) by (auto simp: check_obligations_kept_def old_def Let_def)
  ultimately show ?thesis
    using same refresh terminal by (simp add: keeps_order_def same_identity_def old_def Let_def)
qed

text \<open>A terminal kept as it is, or one that only gains a version, is not lost.\<close>

lemma terminal_kept:
  assumes "in_order r operation" and "res_lifecycle res = res_lifecycle (rec_resource r)"
  shows "check_terminal (Some r) \<lparr>rec_resource = res, rec_intents = J\<rparr> = Inr ()"
  using in_order_facts(8) [OF assms(1)] assms(2)
  by (auto simp: check_terminal_def split: resource_lifecycle.split option.split)

lemma not_terminal_check:
  "\<not> is_terminal (res_lifecycle (rec_resource r)) \<Longrightarrow> check_terminal (Some r) n = Inr ()"
  by (cases "res_lifecycle (rec_resource r)") (simp_all add: check_terminal_def)

lemmas step_defs = mark_resource_create_eligible_def plan_cached_session_adoption_def
  acknowledge_session_adoption_def record_acquired_resource_content_def acquired_resource_def
  acknowledge_resource_terminal_cleanup_def acknowledge_local_resource_cleanup_def Let_def bumped_def

lemma terminal_version_decimal:
  assumes "terminal_deletion_version r given = Inr (Some v)" and "in_order r operation"
    and "\<And>v. given = Some v \<Longrightarrow> canonical_decimal v"
  shows "canonical_decimal v" and "\<And>w. given = Some w \<Longrightarrow> version_number w \<le> version_number v"
    and "\<And>h. deletion_version (res_lifecycle (rec_resource r)) = Some h \<Longrightarrow>
      version_number h \<le> version_number v"
  using assms in_order_facts(8) [OF assms(2)]
  by (auto simp: terminal_deletion_version_def split: option.splits if_splits)

lemma published_shape:
  assumes "publish_resource_terminal r inp = Inr (Some w)"
  shows "\<exists>version res. terminal_deletion_version r (ti_deletionVersion inp) = Inr version \<and>
     w = resource_update r res (rec_intents r) \<and> res = terminal_resource (rec_resource r) inp version \<and>
     superseded_terminal r (ti_generation inp) = Inr False \<and> canonical_decimal (ti_generation inp) \<and>
     res_documentId (rec_resource r) = ti_documentId inp \<and>
     res_content (rec_resource r) \<noteq> Unacquired \<and>
     content_database (res_content (rec_resource r)) = ti_exactDatabaseName inp"
  using assms
  by (auto simp: publish_resource_terminal_def assert_availability_generation_def Let_def
      content_database_def split: if_splits resource_lifecycle.splits option.splits
      resource_content.splits)

lemma published_keeps:
  assumes o: "in_order r operation" and w: "publish_resource_terminal r inp = Inr (Some w)"
    and settled: "content_settled r" and dec: "\<And>v. ti_deletionVersion inp = Some v \<Longrightarrow> canonical_decimal v"
  shows "\<exists>res. w = resource_update r res (rec_intents r) \<and> keeps_order r res \<and>
     (\<forall>d. deletion_version (res_lifecycle res) = Some d \<longrightarrow> canonical_decimal d)"
proof -
  from published_shape [OF w] obtain version where
    v: "terminal_deletion_version r (ti_deletionVersion inp) = Inr version"
    and eq: "w = resource_update r (terminal_resource (rec_resource r) inp version) (rec_intents r)"
    by blast
  let ?res = "terminal_resource (rec_resource r) inp version"
  have t: "res_lifecycle ?res = terminal_of inp version" by (simp add: terminal_resource_def)
  have d: "canonical_decimal x \<and> (\<forall>h. deletion_version (res_lifecycle (rec_resource r)) = Some h \<longrightarrow>
      version_number h \<le> version_number x)" if "version = Some x" for x
    using terminal_version_decimal [OF v [unfolded that] o dec] by blast
  have none: "deletion_version (res_lifecycle (rec_resource r)) = None" if "version = None"
    using v that by (auto simp: terminal_deletion_version_def split: option.splits)
  have "check_terminal (Some r) \<lparr>rec_resource = ?res, rec_intents = rec_intents r\<rparr> = Inr ()"
    using d none t in_order_facts(8) [OF o]
    by (cases "res_lifecycle (rec_resource r)"; cases version)
       (auto simp: check_terminal_def terminal_of_def split: option.split)
  moreover have "\<not> content_reserved (res_content (rec_resource r))"
    using settled by (simp add: content_settled_def)
  moreover have "ob_sessionAdoption (res_obligations (rec_resource r)) = None"
    if "is_terminal (res_lifecycle (rec_resource r))"
    using in_order_facts(7) [OF o] that
    by (cases "ob_sessionAdoption (res_obligations (rec_resource r))";
        cases "res_lifecycle (rec_resource r)") auto
  ultimately have "keeps_order r ?res"
    using t
    by (intro keeps_orderI [OF o])
       (auto simp: terminal_resource_def no_obligations_def bumped_def terminal_of_def split: option.split)
  with eq t d show ?thesis by (auto simp: terminal_of_def)
qed

lemma step_keeps:
  assumes s: "obligation_step r w" and o: "in_order r operation"
  shows "\<exists>res. w = resource_update r res (rec_intents r) \<and> keeps_order r res \<and>
     (\<forall>d. deletion_version (res_lifecycle res) = Some d \<longrightarrow> canonical_decimal d)"
  using s
proof cases
  case (eligible t)
  then show ?thesis
    using in_order_facts(8) [OF o] terminal_kept [OF o]
    by (auto simp: step_defs split: if_splits intro!: exI keeps_orderI [OF o])
next
  case (adopting project t)
  then show ?thesis
    using in_order_facts(8) [OF o] terminal_kept [OF o]
    by (auto simp: step_defs content_reserved_def split: if_splits resource_content.splits option.split
        intro!: exI keeps_orderI [OF o])
next
  case (adopted generation)
  then show ?thesis
    using in_order_facts(3) [OF o] not_terminal_check [of r]
    by (cases "res_lifecycle (rec_resource r)")
       (auto simp: step_defs assert_availability_generation_def split: if_splits
        intro!: exI keeps_orderI [OF o] split: option.split)
next
  case (acquired inp)
  then show ?thesis
    using in_order_facts(3) [OF o] not_terminal_check [of r]
    by (cases "res_lifecycle (rec_resource r)"; cases "res_content (rec_resource r)")
       (auto simp: step_defs adoption_of_def content_reserved_def assert_availability_generation_def
        split: if_splits option.split intro!: exI keeps_orderI [OF o])
next
  case (deleted inp')
  then show ?thesis using published_keeps [OF o] by blast
next
  case (cleaned generation t db)
  then have "is_terminal (res_lifecycle (rec_resource r))"
    by (cases "res_lifecycle (rec_resource r)") (auto simp: step_defs split: if_splits)
  moreover from this have "res_lifecycle (rec_resource r) \<noteq> LocalLife" by auto
  ultimately show ?thesis
    using in_order_facts(8) [OF o] terminal_kept [OF o] cleaned
    by (auto simp: step_defs no_obligations_def split: if_splits option.splits
        intro!: exI keeps_orderI [OF o])
next
  case (cleaned_locally t db)
  then show ?thesis
    using in_order_facts(8) [OF o] terminal_kept [OF o]
    by (auto simp: step_defs split: if_splits option.splits
        intro!: exI keeps_orderI [OF o])
qed

section \<open>Properties\<close>

text \<open>Every obligation of a document record (its create made dispatchable, a session adopted and
  acknowledged, content acquired, a deletion published and its cleanup acknowledged) is written over
  the revision read, passes the whole record validator, and leaves a record in order for the next
  write.\<close>

theorem obligations_pass_the_validator:
  assumes "obligation_step r w" and "in_order r operation"
  shows "rw_expectedRevision w = Some (res_revision (rec_resource r)) \<and>
     rec_intents (rw_next w) = rec_intents r \<and>
     validate_resource_record_update (Some r) (rw_next w) operation = Inr () \<and>
     in_order (rw_next w) operation"
proof -
  from step_keeps [OF assms] obtain res where w: "w = resource_update r res (rec_intents r)"
    and k: "keeps_order r res"
    and d: "\<forall>d. deletion_version (res_lifecycle res) = Some d \<longrightarrow> canonical_decimal d" by blast
  note a = keeps_order_accepted [OF assms(2) k]
  have "in_order (rw_next w) operation"
    using accepted_in_order [of "Some r" "rw_next w"] a d w by (auto simp: resource_update_def)
  with a w show ?thesis by (simp add: resource_update_def)
qed

abbreviation ex_acknowledged :: resource_record where
  "ex_acknowledged \<equiv> \<lparr>rec_resource = ex_resource\<lparr>res_serverHold := HeldHold,
     res_lifecycle := Acknowledged (Some ''3'')\<rparr>, rec_intents = []\<rparr>"

abbreviation ex_terminal_input :: terminal_input where
  "ex_terminal_input \<equiv> \<lparr>ti_documentId = ''d1'', ti_generation = ''4'', ti_transitionId = ''t'',
     ti_exactDatabaseName = ''db'', ti_deletionVersion = Some ''9''\<rparr>"

lemma ex_acknowledged_in_order: "in_order ex_acknowledged operation"
  by (simp add: in_order_def restored_def validator_simps ex_resource_def bumped_def)

lemma ex_published: "publish_resource_terminal ex_acknowledged ex_terminal_input =
    Inr (Some (resource_update ex_acknowledged
      (terminal_resource (rec_resource ex_acknowledged) ex_terminal_input (Some ''9'')) []))"
  by (simp add: publish_resource_terminal_def ex_resource_def assert_availability_generation_def
      canonical_decimal_def is_digit_def terminal_deletion_version_def superseded_terminal_def Let_def)

theorem obligations_pass_the_validator_witness:
  "\<exists>w. publish_resource_terminal ex_acknowledged ex_terminal_input = Inr (Some w) \<and>
     validate_resource_record_update (Some ex_acknowledged) (rw_next w) None = Inr ()"
proof -
  let ?w = "resource_update ex_acknowledged
      (terminal_resource (rec_resource ex_acknowledged) ex_terminal_input (Some ''9'')) []"
  have "content_settled ex_acknowledged"
    by (simp add: content_settled_def content_reserved_def ex_resource_def)
  moreover have "canonical_decimal ''9''" by (simp add: canonical_decimal_def is_digit_def)
  ultimately have "obligation_step ex_acknowledged ?w"
    using obligation_step.deleted [OF ex_published] by simp
  from obligations_pass_the_validator [OF this ex_acknowledged_in_order [of None]] ex_published
  show ?thesis by blast
qed

text \<open>Publishing a deletion makes the record terminal for exactly this transition, owing the cleanup
  of its exact database, under a deletion version no lower than the one given or held; publishing it
  again changes nothing, acknowledging the cleanup settles it once, and acknowledging it again changes
  nothing.\<close>

theorem deletion_published_once:
  assumes w: "publish_resource_terminal r inp = Inr (Some w)" and o: "in_order r operation"
    and dec: "\<And>v. ti_deletionVersion inp = Some v \<Longrightarrow> canonical_decimal v"
  shows "\<exists>version w'. res_lifecycle (rec_resource (rw_next w)) = terminal_of inp version \<and>
     (\<forall>v \<in> set_option (ti_deletionVersion inp) \<union>
        set_option (deletion_version (res_lifecycle (rec_resource r))).
        \<exists>kept. version = Some kept \<and> version_number v \<le> version_number kept) \<and>
     ob_cleanup (res_obligations (rec_resource (rw_next w))) = Some (cleanup_of inp) \<and>
     publish_resource_terminal (rw_next w) inp = Inr None \<and>
     acknowledge_resource_terminal_cleanup (rw_next w) (ti_generation inp) (ti_transitionId inp)
       (ti_exactDatabaseName inp) = Inr (Some w') \<and>
     res_lifecycle (rec_resource (rw_next w')) = terminal_of inp version \<and>
     res_obligations (rec_resource (rw_next w')) = no_obligations \<and>
     acknowledge_resource_terminal_cleanup (rw_next w') (ti_generation inp) (ti_transitionId inp)
       (ti_exactDatabaseName inp) = Inr None"
proof -
  from published_shape [OF w] obtain version where
    v: "terminal_deletion_version r (ti_deletionVersion inp) = Inr version"
    and eq: "w = resource_update r (terminal_resource (rec_resource r) inp version) (rec_intents r)"
    and given: "canonical_decimal (ti_generation inp)"
      "res_documentId (rec_resource r) = ti_documentId inp"
      "res_content (rec_resource r) \<noteq> Unacquired"
      "content_database (res_content (rec_resource r)) = ti_exactDatabaseName inp" by blast
  let ?n = "rw_next w"
  have n: "res_lifecycle (rec_resource ?n) = terminal_of inp version"
    "ob_cleanup (res_obligations (rec_resource ?n)) = Some (cleanup_of inp)"
    "res_documentId (rec_resource ?n) = ti_documentId inp"
    "res_content (rec_resource ?n) = res_content (rec_resource r)"
    using given(2) by (simp_all add: eq resource_update_def terminal_resource_def bumped_def)
  have s: "superseded_terminal m g = Inr False" if "res_lifecycle (rec_resource m) = terminal_of inp version" for m g
    using that by (simp add: superseded_terminal_def terminal_of_def)
  have kept: "\<exists>kept. version = Some kept \<and> version_number x \<le> version_number kept"
    if "x \<in> set_option (ti_deletionVersion inp) \<union>
        set_option (deletion_version (res_lifecycle (rec_resource r)))" for x
    using that v dec in_order_facts(8) [OF o]
    by (cases "ti_deletionVersion inp"; cases "deletion_version (res_lifecycle (rec_resource r))")
       (auto simp: terminal_deletion_version_def)
  have "\<exists>u. terminal_deletion_version ?n (ti_deletionVersion inp) = Inr u"
    using v dec in_order_facts(8) [OF o] n(1)
    by (auto simp: terminal_deletion_version_def terminal_of_def split: option.splits if_splits)
  then have again: "publish_resource_terminal ?n inp = Inr None"
    using n given s [OF n(1)]
    by (cases "res_content (rec_resource r)")
       (auto simp: publish_resource_terminal_def assert_availability_generation_def terminal_of_def
        cleanup_of_def content_database_def Let_def)
  let ?w' = "resource_update ?n ((bumped (rec_resource ?n))\<lparr>res_obligations := no_obligations\<rparr>) (rec_intents ?n)"
  have cleaned: "acknowledge_resource_terminal_cleanup ?n (ti_generation inp) (ti_transitionId inp)
       (ti_exactDatabaseName inp) = Inr (Some ?w')"
    using n s [OF n(1)]
    by (simp add: acknowledge_resource_terminal_cleanup_def terminal_of_def cleanup_of_def Let_def)
  have n': "res_lifecycle (rec_resource (rw_next ?w')) = terminal_of inp version"
    "res_obligations (rec_resource (rw_next ?w')) = no_obligations"
    using n by (simp_all add: resource_update_def bumped_def)
  have "acknowledge_resource_terminal_cleanup (rw_next ?w') (ti_generation inp) (ti_transitionId inp)
       (ti_exactDatabaseName inp) = Inr None"
    using n' s [OF n'(1)]
    by (simp add: acknowledge_resource_terminal_cleanup_def terminal_of_def no_obligations_def Let_def)
  with n n' kept again cleaned show ?thesis by blast
qed

theorem deletion_published_once_witness:
  "\<exists>w. publish_resource_terminal ex_acknowledged ex_terminal_input = Inr (Some w) \<and>
     publish_resource_terminal (rw_next w) ex_terminal_input = Inr None"
  using deletion_published_once [OF ex_published ex_acknowledged_in_order [of None]] ex_published
  by (auto simp: canonical_decimal_def is_digit_def)

end
