(* ===== verification/Resource_Creation.thy ===== *)
theory Resource_Creation
  imports Resource_State
begin

text \<open>
  The first write of a document and the replacement of a spent id pass the whole record validator.
\<close>

section \<open>Reservation\<close>

text \<open>A reserved document passes the whole record validator as a first write, whether it is named or
  still untitled, and is in order for every write that follows.\<close>

theorem reserved_document_accepted:
  assumes "\<And>d t. ri_destination inp = Some (d, t) \<Longrightarrow> 0 \<le> t"
  shows "validate_resource_record_update None (rw_next (reserve_resource_document inp)) operation = Inr () \<and>
     in_order (rw_next (reserve_resource_document inp)) operation"
proof -
  let ?n = "rw_next (reserve_resource_document inp)"
  have v: "validate_resource_record_update None ?n operation = Inr ()"
    using assms
    by (auto simp: reserve_resource_document_def validator_simps no_obligations_def is_safe_integer_def
        check_settled_at_def check_intent_state_def check_settled_locally_def split: option.splits)
  have "validate_namespace_journal (record_journal_input None ?n) = Inr ()"
    using v by (auto simp: validate_resource_record_update_def)
  then have "journal_rests (record_journal_input None ?n) (ji_intents (record_journal_input None ?n))"
    by (rule accepted_rests)
       (auto simp: record_input_fields reserve_resource_document_def Let_def)
  then have "record_rests ?n" by (simp add: record_rests_def record_input_fields)
  then have "in_order ?n operation"
    using v by (rule_tac accepted_in_order) (auto simp: reserve_resource_document_def Let_def)
  with v show ?thesis by blast
qed

abbreviation ex_reserve :: reserve_input where
  "ex_reserve \<equiv> \<lparr>ri_projectId = ''p'', ri_handle = ''h'', ri_documentId = ''d1'',
     ri_databaseName = ''db'', ri_schema = ''s'', ri_intentId = ''i1'', ri_folderPath = None,
     ri_provisionalName = None, ri_destination = Some (ex_destination ''a.md'', 5),
     ri_admission = None\<rparr>"

theorem reserved_document_accepted_witness:
  "in_order (rw_next (reserve_resource_document ex_reserve)) None"
  using reserved_document_accepted [of ex_reserve None] by simp

section \<open>Replacement of a spent id\<close>

lemma map_of_replaced:
  "map_of (map (\<lambda>(a, w). (a, if a = k then v else w)) xs) x =
     (if x = k then map_option (\<lambda>_. v) (map_of xs k) else map_of xs x)"
  by (induction xs) auto

lemma map_of_put_alias: "map_of (put_alias aliases k v) = (map_of aliases)(k \<mapsto> v)"
  by (rule ext) (auto simp: put_alias_def map_of_replaced map_add_def split: option.split)

lemma remint_resource_shape:
  assumes "remint_resource r documentId retry ids = Inr (Some w)"
  shows "\<exists>intents. remint_journal (remint_input_of r documentId retry ids) = Inr (Some intents) \<and>
     awaits_remint (res_serverHold (rec_resource r)) (rec_intents r) \<and>
     res_documentId (rec_resource r) \<noteq> documentId \<and>
     w = resource_update r ((bumped (rec_resource r))\<lparr>res_serverHold := LocalHold,
       res_documentId := documentId,
       res_identityRevision := res_identityRevision (rec_resource r) + 1,
       res_aliases := put_alias (res_aliases (rec_resource r)) (res_documentId (rec_resource r))
         (res_identityRevision (rec_resource r) + 1)\<rparr>) intents"
  using assms by (auto simp: remint_resource_def Let_def split: if_splits)

text \<open>The intents of the new journal want what intents of the old one wanted.\<close>

lemma remint_desires:
  assumes "remint_journal inp = Inr (Some next')" and "n \<in> set next'"
  shows "\<exists>i \<in> set (rm_intents inp). int_desired n = int_desired i"
proof -
  have "(\<exists>i \<in> set (rm_intents inp). n = remint_move inp i) \<or> n \<in> set (remint_additions inp)"
    using assms(2) unfolding remint_shape(1) [OF assms(1)] by auto
  then show ?thesis
    using remint_additions_from [of n inp] by (auto simp: remint_move_def)
qed

text \<open>Replacing a spent id is accepted by the whole record validator: the record gets the new id under
  the next identity revision, keeps its handle and content, and answers to the old id as an
  alias.\<close>

theorem remint_resource_accepted:
  assumes w: "remint_resource r documentId retry ids = Inr (Some w)" and o: "in_order r operation"
    and ready: "remint_ready (record_journal_input None (rw_next w))
      (remint_input_of r documentId retry ids)"
    and settled: "content_settled r"
    and quiet: "ob_canonicalRefresh (res_obligations (rec_resource r)) = None"
  shows "validate_resource_record_update (Some r) (rw_next w) operation = Inr () \<and>
     res_documentId (rec_resource (rw_next w)) = documentId \<and>
     res_content (rec_resource (rw_next w)) = res_content (rec_resource r) \<and>
     map_of (res_aliases (rec_resource (rw_next w))) (res_documentId (rec_resource r)) =
       Some (res_identityRevision (rec_resource (rw_next w)))"
proof -
  from remint_resource_shape [OF w] obtain J where
    J: "remint_journal (remint_input_of r documentId retry ids) = Inr (Some J)"
    and await: "awaits_remint (res_serverHold (rec_resource r)) (rec_intents r)"
    and new: "res_documentId (rec_resource r) \<noteq> documentId"
    and eq: "w = resource_update r ((bumped (rec_resource r))\<lparr>res_serverHold := LocalHold,
       res_documentId := documentId,
       res_identityRevision := res_identityRevision (rec_resource r) + 1,
       res_aliases := put_alias (res_aliases (rec_resource r)) (res_documentId (rec_resource r))
         (res_identityRevision (rec_resource r) + 1)\<rparr>) J" by blast
  let ?n = "rw_next w"
  note f = in_order_facts [OF o]
  have spent: "res_serverHold (rec_resource r) = SpentHold" using await by (simp add: awaits_remint_def)
  have none: "res_canonical (rec_resource r) = None" "res_copiedBy (rec_resource r) = None"
    "\<not> is_acknowledged (res_lifecycle (rec_resource r))"
    using f(1,2) spent by (cases "res_canonical (rec_resource r)"; cases "res_copiedBy (rec_resource r)"; auto)+
  have fields: "rec_intents ?n = J" "rm_intents (remint_input_of r documentId retry ids) = rec_intents r"
    by (simp_all add: eq resource_update_def remint_input_of_def)
  have "\<exists>i \<in> set (rec_intents r). int_desired n = int_desired i" if "n \<in> set J" for n
    using remint_desires [OF J that] by (simp add: fields)
  then have "list_all (\<lambda>i. \<not> is_folder_placement (int_desired i) \<and> \<not> is_copy (int_desired i)) J"
    using in_order_checks(7) [OF o] by (fastforce simp: check_record_identity_def list_ex_iff list_all_iff Let_def)
  then have id: "check_record_identity (Some r) ?n = Inr ()"
    by (auto simp: check_record_identity_def list_ex_iff list_all_iff eq resource_update_def bumped_def Let_def)
  have hold: "check_hold (Some r) ?n = Inr ()"
    using none spent new by (simp add: check_hold_def eq resource_update_def bumped_def Let_def)
  have ex: "executable_create r"
    using await none by (fastforce simp: awaits_remint_def executable_create_def list_ex_iff)
  have el: "check_eligibility (Some r) ?n = Inr ()"
    using f(4) f(5) [OF ex] none quiet
    by (auto simp: check_eligibility_def eq resource_update_def bumped_def Let_def split: option.splits)
  have no: "ob_sessionAdoption (res_obligations (rec_resource r)) = None"
    using f(7) none by (cases "ob_sessionAdoption (res_obligations (rec_resource r))") auto
  have rest: "check_reservation (Some r) ?n = Inr ()" "check_adoption (Some r) ?n = Inr ()"
    "check_refresh_witness ?n operation = Inr ()" "check_obligations_kept (Some r) ?n = Inr ()"
    using settled quiet no
    by (simp_all add: check_reservation_def check_adoption_def check_refresh_witness_def
        check_obligations_kept_def content_settled_def eq resource_update_def bumped_def Let_def)
  have deletion: "check_terminal (Some r) ?n = Inr ()"
    using terminal_kept [OF o] by (simp add: eq resource_update_def bumped_def)
  have "validate_namespace_journal (record_journal_input (Some r) ?n) = Inr ()"
    unfolding record_input_update using remint_update_accepted [OF ready J]
    by (simp add: fields)
  with id hold el rest deletion have "validate_resource_record_update (Some r) ?n operation = Inr ()"
    by (simp add: validate_resource_record_update_def)
  then show ?thesis
    by (simp add: eq resource_update_def bumped_def map_of_put_alias)
qed

abbreviation ex_spent_record :: resource_record where
  "ex_spent_record \<equiv> \<lparr>rec_resource = ex_resource\<lparr>res_serverHold := SpentHold\<rparr>,
     rec_intents = rm_intents ex_spent\<rparr>"

theorem remint_resource_accepted_witness:
  "\<exists>w. remint_resource ex_spent_record ''d2'' ''r'' [''i2'' \<mapsto> ''q''] = Inr (Some w) \<and>
     validate_resource_record_update (Some ex_spent_record) (rw_next w) None = Inr () \<and>
     map_of (res_aliases (rec_resource (rw_next w))) ''d1'' = Some 2"
proof -
  let ?r = ex_spent_record
  have input: "remint_input_of ?r ''d2'' ''r'' [''i2'' \<mapsto> ''q''] = ex_spent"
    by (simp add: remint_input_of_def ex_resource_def)
  have failed: "remint_failed (rm_intents ex_spent) 1 = Some (hd (rm_intents ex_spent))"
    by (simp add: remint_failed_def ex_intent_def)
  have waiting: "remint_dependents (rm_intents ex_spent) 1 (Some (hd (rm_intents ex_spent))) =
      [ex_intent 2 Pending (ex_place ''b.md'') []]"
    by (simp add: remint_dependents_def ex_intent_def)
  obtain J where J: "remint_journal ex_spent = Inr (Some J)"
    using failed waiting by (simp add: remint_journal_def Let_def ex_intent_def)
  then obtain w where w: "remint_resource ?r ''d2'' ''r'' [''i2'' \<mapsto> ''q''] = Inr (Some w)"
    "res_handle (rec_resource (rw_next w)) = ''h''"
    "res_identityRevision (rec_resource (rw_next w)) = 2"
    unfolding remint_resource_def input
    by (simp add: Let_def awaits_remint_def ex_intent_def ex_resource_def resource_update_def bumped_def)
  have o: "in_order ?r None"
    by (simp add: in_order_def restored_def bumped_def validator_simps ex_resource_def ex_intent_def
        ex_attempt_def ex_create_def check_attempt_outcome_def check_old_intent_def last_outcome_def
        at_last_def is_safe_integer_def check_settled_at_def check_intent_state_def
        check_settled_locally_def)
  have "journal_rests (record_journal_input None (rw_next w)) (rm_intents ex_spent)"
    by (simp add: journal_rests_def validate_namespace_journal_def ex_intent_def record_input_fields
          previous_intents_def ex_attempt_def ex_create_def check_attempt_outcome_def w(2)
          check_old_intent_def last_outcome_def at_last_def is_safe_integer_def
          check_settled_at_def check_intent_state_def check_settled_locally_def)
  then have "remint_ready (record_journal_input None (rw_next w)) ex_spent"
    using failed waiting w(3)
    by (simp add: remint_ready_def remint_additions_ids remint_additions_def remint_retry_def
          remint_rebased_def ex_intent_def last_outcome_def at_last_def ex_attempt_def record_input_fields)
  moreover have "content_settled ?r"
    by (simp add: content_settled_def content_reserved_def ex_resource_def)
  moreover have "ob_canonicalRefresh (res_obligations (rec_resource ?r)) = None"
    by (simp add: ex_resource_def)
  ultimately show ?thesis
    using remint_resource_accepted [OF w(1) o] w input by (auto simp: ex_resource_def)
qed

end
