(* ===== verification/Folder_Remint.thy ===== *)
theory Folder_Remint
  imports Folder_Planning Resource_Creation
begin

text \<open>
  Replacing a folder id the server holds out of reach (\<^verbatim>\<open>folder-remint.ts\<close>): the folder's own
  record takes a new id and keeps the old one as an alias, and the unsent placements of the other
  journals that named the old id are cancelled and queued again under the new one.
\<close>

section \<open>The folder itself\<close>

definition folder_remint_input ::
  "folder_record \<Rightarrow> string \<Rightarrow> string \<Rightarrow> (string \<Rightarrow> string option) \<Rightarrow> remint_input" where
  "folder_remint_input record folderId retryIntentId rebasedIntentIds =
     \<lparr>rm_intents = fol_intents record, rm_from = 1, rm_to = 1, rm_fromId = fol_folderId record,
      rm_toId = folderId, rm_retryIntentId = retryIntentId, rm_rebasedIntentIds = rebasedIntentIds\<rparr>"

definition remint_folder ::
  "folder_record \<Rightarrow> string \<Rightarrow> string \<Rightarrow> (string \<Rightarrow> string option) \<Rightarrow> folder_write option result" where
  "remint_folder record folderId retryIntentId rebasedIntentIds =
     (if \<not> awaits_remint (fol_serverHold record) (fol_intents record) then Inr None
      else throw_when (fol_folderId record = folderId) ''Remint requires a new folder identity''
       (and_then (remint_journal (folder_remint_input record folderId retryIntentId rebasedIntentIds))
         (\<lambda>intents. case intents of
            None \<Rightarrow> Inr None
          | Some J \<Rightarrow> Inr (Some (folder_update (Some record)
              (record\<lparr>fol_revision := fol_revision record + 1, fol_serverHold := LocalHold,
                 fol_folderId := folderId,
                 fol_aliases := fol_aliases record @ [fol_folderId record],
                 fol_intents := J\<rparr>))))))"

text \<open>The folder whose current id it is, else the first that was minted under it.\<close>

definition folder_for_id :: "folder_record list \<Rightarrow> string \<Rightarrow> folder_record option" where
  "folder_for_id folders folderId =
     (case find (\<lambda>f. fol_folderId f = folderId) folders of
        Some f \<Rightarrow> Some f
      | None \<Rightarrow> find (\<lambda>f. folderId \<in> set (fol_aliases f)) folders)"

section \<open>Placements that named it\<close>

definition names_folder :: "resource_destination \<Rightarrow> string \<Rightarrow> bool" where
  "names_folder destination folderId \<longleftrightarrow>
     dest_parent destination = FolderParent folderId \<or>
     Option.bind (dest_position destination) sibling_id = Some folderId"

fun with_sibling :: "sibling_position \<Rightarrow> string \<Rightarrow> sibling_position" where
  "with_sibling (BeforeSibling _) s = BeforeSibling s"
| "with_sibling (AfterSibling _) s = AfterSibling s"
| "with_sibling p _ = p"

definition followed_destination ::
  "resource_destination \<Rightarrow> string \<Rightarrow> string \<Rightarrow> resource_destination" where
  "followed_destination destination from to =
     destination\<lparr>
       dest_parent := (if dest_parent destination = FolderParent from then FolderParent to
         else dest_parent destination),
       dest_position := (case dest_position destination of
           None \<Rightarrow> None
         | Some p \<Rightarrow> Some (if sibling_id p = Some from then with_sibling p to else p))\<rparr>"

fun followed_desired :: "desired \<Rightarrow> string \<Rightarrow> string \<Rightarrow> desired" where
  "followed_desired (SetLocation t d) from to = SetLocation t (followed_destination d from to)"
| "followed_desired (SetFolderLocation t d) from to =
     SetFolderLocation t (followed_destination d from to)"
| "followed_desired d from to = d"

definition followed_intent ::
  "namespace_intent \<Rightarrow> string \<Rightarrow> string \<Rightarrow> int \<Rightarrow> namespace_intent" where
  "followed_intent i from to sequence =
     (if is_placement (int_desired i)
      then i\<lparr>int_id := int_id i @ ''@'' @ to, int_sequence := sequence,
             int_desired := followed_desired (int_desired i) from to,
             int_admission := map_option (\<lambda>a. renamed_admission a from to) (int_admission i)\<rparr>
      else i)"

fun placement_of :: "desired \<Rightarrow> resource_destination option" where
  "placement_of (SetLocation _ d) = Some d"
| "placement_of (SetFolderLocation _ d) = Some d"
| "placement_of _ = None"

definition follows_remint :: "namespace_intent \<Rightarrow> string \<Rightarrow> bool" where
  "follows_remint i from \<longleftrightarrow>
     int_state i = Pending \<and> int_attempts i = [] \<and>
     (case placement_of (int_desired i) of None \<Rightarrow> False | Some d \<Rightarrow> names_folder d from)"

text \<open>\<^verbatim>\<open>Math.max(...)\<close> over the sequences of a journal with a dependent, so not an empty one.\<close>

definition follow :: "string \<Rightarrow> string \<Rightarrow> namespace_intent list \<Rightarrow> namespace_intent list option" where
  "follow from to intents =
     (let dependents = filter (\<lambda>i. follows_remint i from) intents
      in if dependents = [] then None
         else
           (let top = Max (set (map int_sequence intents))
            in Some (map (\<lambda>i. if follows_remint i from then i\<lparr>int_state := Cancelled\<rparr> else i) intents
                 @ map (\<lambda>(k, i). followed_intent i from to (top + 1 + int k)) (enumerate 0 dependents))))"

record remint_dependents_plan =
  rd_resources :: "resource_write list"
  rd_folders :: "folder_write list"

definition plan_folder_remint_dependents ::
  "string \<Rightarrow> string \<Rightarrow> resource_record list \<Rightarrow> folder_record list \<Rightarrow> remint_dependents_plan" where
  "plan_folder_remint_dependents from to records folders =
     \<lparr>rd_resources = List.map_filter (\<lambda>r. map_option (\<lambda>J.
          resource_update r (bumped (rec_resource r)) J) (follow from to (rec_intents r))) records,
      rd_folders = List.map_filter (\<lambda>f.
          if fol_folderId f = to then None
          else map_option (\<lambda>J. folder_update (Some f)
                 (f\<lparr>fol_revision := fol_revision f + 1, fol_intents := J\<rparr>))
                 (follow from to (fol_intents f))) folders\<rparr>"

section \<open>The new id passes the validator\<close>

lemma remint_folder_shape:
  assumes "remint_folder r folderId retry ids = Inr (Some w)"
  shows "\<exists>J. remint_journal (folder_remint_input r folderId retry ids) = Inr (Some J) \<and>
     awaits_remint (fol_serverHold r) (fol_intents r) \<and> fol_folderId r \<noteq> folderId \<and>
     w = folder_update (Some r) (r\<lparr>fol_revision := fol_revision r + 1, fol_serverHold := LocalHold,
       fol_folderId := folderId, fol_aliases := fol_aliases r @ [fol_folderId r], fol_intents := J\<rparr>)"
  using assms by (auto simp: remint_folder_def split: if_splits option.splits)

lemma folder_remint_fields [simp]:
  "rm_intents (folder_remint_input r folderId retry ids) = fol_intents r"
  "rm_to (folder_remint_input r folderId retry ids) = 1"
  by (simp_all add: folder_remint_input_def)

lemma remint_move_fields:
  "int_projectId (remint_move x i) = int_projectId i" "int_desired (remint_move x i) = int_desired i"
  "int_identityRevision (remint_move x i) = int_identityRevision i"
  "int_attempts (remint_move x i) = int_attempts i" "int_id (remint_move x i) = int_id i"
  by (simp_all add: remint_move_def)

lemma remint_move_settled:
  assumes "i \<in> set (rm_intents x)" and "journal_wf h (rm_intents x)"
  shows "settled_deletion (remint_move x i) \<longleftrightarrow> settled_deletion i"
proof -
  have "int_state i \<noteq> SettledLocally"
    if f: "remint_failed (rm_intents x) (rm_from x) = Some f" "int_id i = int_id f" for f
    using journal_wf_unique [OF assms(2,1) remint_failed_props(1) [OF f(1)] f(2)]
      remint_failed_props(2) [OF f(1)] by simp
  then show ?thesis
    using remint_waiting_props [of i x] by (auto simp: settled_deletion_def remint_move_def split: option.splits)
qed

text \<open>Every intent of the new journal is one of the old with another state, or unsent work like it.\<close>

lemma remint_from:
  assumes "remint_journal x = Inr (Some J)" and "n \<in> set J"
  shows "(\<exists>i \<in> set (rm_intents x). n = remint_move x i) \<or>
     (int_attempts n = [] \<and> int_state n = Pending \<and> int_identityRevision n = rm_to x \<and>
      (\<exists>i \<in> set (rm_intents x). int_projectId n = int_projectId i \<and> int_desired n = int_desired i))"
  using assms(2) remint_additions_from [of n x] unfolding remint_shape(1) [OF assms(1)] by auto

lemma renamed_still_named:
  "request_names_folder r q \<Longrightarrow> request_names_folder (r\<lparr>fol_revision := k, fol_serverHold := h,
     fol_folderId := new, fol_aliases := fol_aliases r @ [fol_folderId r], fol_intents := J\<rparr>) q"
  by (auto simp: request_names_folder_def named_by_def split: namespace_request.splits)

text \<open>Replacing the spent id of a folder passes the whole folder validator: the record takes the new
  id, keeps its handle, answers to the old id as an alias, and with nothing in flight it is in order
  for every step that follows.\<close>

theorem remint_folder_accepted:
  assumes w: "remint_folder r folderId retry ids = Inr (Some w)" and o: "folder_in_order operation r"
    and ready: "remint_ready (folder_journal_input None (fw_next w))
      (folder_remint_input r folderId retry ids)"
  shows "validate_folder_namespace_update (Some r) (fw_next w) operation = Inr () \<and>
     fol_folderId (fw_next w) = folderId \<and> fol_handle (fw_next w) = fol_handle r \<and>
     named_by (fw_next w) (fol_folderId r) \<and>
     ((\<forall>i \<in> set (fol_intents r). \<not> in_flight i) \<longrightarrow> folder_in_order operation (fw_next w))"
proof -
  let ?x = "folder_remint_input r folderId retry ids"
  from remint_folder_shape [OF w] obtain J where
    J: "remint_journal ?x = Inr (Some J)"
    and await: "awaits_remint (fol_serverHold r) (fol_intents r)" and new: "fol_folderId r \<noteq> folderId"
    and eq: "w = folder_update (Some r) (r\<lparr>fol_revision := fol_revision r + 1, fol_serverHold := LocalHold,
       fol_folderId := folderId, fol_aliases := fol_aliases r @ [fol_folderId r], fol_intents := J\<rparr>)"
    by blast
  let ?n = "fw_next w"
  have n: "?n = r\<lparr>fol_revision := fol_revision r + 1, fol_serverHold := LocalHold,
       fol_folderId := folderId, fol_aliases := fol_aliases r @ [fol_folderId r], fol_intents := J\<rparr>"
    by (simp add: eq folder_update_def)
  have rests: "check_folder_commands r = Inr ()" "check_local_deletion r = Inr ()" "folder_holds_ok r"
    "folder_place_ok operation r" and refused: "repairs_refused r"
    and wf: "journal_wf (fol_handle r) (fol_intents r)"
    using o rests_wf [of "folder_journal_input None r"]
    by (auto simp: folder_in_order_def folder_rests_iff folder_journal_input_def)
  have spent: "fol_serverHold r = SpentHold" using await by (simp add: awaits_remint_def)
  then have none: "fol_canonical r = None" "fol_copiedBy r = None" "placeless r"
    using rests(3,4) by (auto simp: folder_holds_ok_def folder_place_ok_def split: if_splits)
  have from': "(\<exists>i \<in> set (fol_intents r). j = remint_move ?x i) \<or>
      (int_attempts j = [] \<and> int_state j = Pending \<and> int_identityRevision j = 1 \<and>
       (\<exists>i \<in> set (fol_intents r). int_projectId j = int_projectId i \<and> int_desired j = int_desired i))"
    if "j \<in> set J" for j
    using remint_from [OF J that] by simp
  have moved: "remint_move ?x i \<in> set J" if "i \<in> set (fol_intents r)" for i
    using that remint_shape(1) [OF J] by simp
  have identity: "check_folder_identity (Some r) ?n = Inr ()"
    using spent by (auto simp: check_folder_identity_def id_replaced_def n)
  have commands: "check_folder_commands ?n = Inr ()"
  proof -
    have old: "folder_command (fol_projectId r) i"
      "\<And>a. a \<in> set (int_attempts i) \<Longrightarrow> request_names_folder ?n (att_request a)"
      if "i \<in> set (fol_intents r)" for i
      using rests(1) that unfolding n
      by (auto simp: check_folder_commands_def intro: renamed_still_named split: if_splits)
    have "folder_command (fol_projectId r) j \<and>
        (\<forall>a \<in> set (int_attempts j). request_names_folder ?n (att_request a))" if "j \<in> set J" for j
      using from' [OF that]
    proof (elim disjE bexE conjE)
      fix i assume i: "i \<in> set (fol_intents r)" and j: "j = remint_move ?x i"
      show ?thesis using old [OF i] by (simp add: j folder_command_def remint_move_fields)
    next
      fix i assume i: "i \<in> set (fol_intents r)" and "int_attempts j = []" "int_identityRevision j = 1"
        "int_projectId j = int_projectId i" "int_desired j = int_desired i"
      with old(1) [OF i] show ?thesis by (simp add: folder_command_def)
    qed
    moreover have "fol_projectId ?n = fol_projectId r" "fol_intents ?n = J" by (simp_all add: n)
    ultimately show ?thesis by (simp add: check_folder_commands_def)
  qed
  have settled: "settled_deletion (remint_move ?x i) = settled_deletion i" if "i \<in> set (fol_intents r)" for i
    using remint_move_settled [of i ?x] that wf by simp
  have earlier: "\<exists>i \<in> set (fol_intents r). settled_deletion i" if "j \<in> set J" "settled_deletion j" for j
    using from' [OF that(1)]
  proof (elim disjE bexE conjE)
    fix i assume "i \<in> set (fol_intents r)" "j = remint_move ?x i"
    then show ?thesis using settled that(2) by blast
  qed (use that(2) in \<open>simp add: settled_deletion_def\<close>)
  have deletion: "check_local_deletion ?n = Inr ()"
  proof (cases "fol_localDeletion r")
    case None
    with rests(2) have "\<forall>i \<in> set (fol_intents r). \<not> settled_deletion i"
      by (simp add: check_local_deletion_def)
    with earlier None show ?thesis by (auto simp: check_local_deletion_def n)
  next
    case (Some d)
    with rests(2) obtain i where i: "i \<in> set (fol_intents r)" "int_id i = ld_obligationId d" "settled_deletion i"
      by (auto simp: check_local_deletion_def)
    then have "int_id (remint_move ?x i) = ld_obligationId d \<and> settled_deletion (remint_move ?x i)"
      by (simp add: settled remint_move_fields)
    with moved [OF i(1)] have "\<exists>j \<in> set J. int_id j = ld_obligationId d \<and> settled_deletion j" by blast
    with Some show ?thesis by (simp add: check_local_deletion_def n)
  qed
  have "placeless ?n"
  proof -
    from none(2,3) obtain i where "i \<in> set (fol_intents r)" "is_folder_location (int_desired i)"
      by (auto simp: placeless_def)
    then have "\<exists>j \<in> set J. is_folder_location (int_desired j)"
      using moved [of i] by (intro bexI [of _ "remint_move ?x i"]) (simp_all add: remint_move_fields)
    with none(3) show ?thesis by (simp add: placeless_def n)
  qed
  then have place: "check_folder_place (Some r) ?n operation = Inr ()"
    using none by (simp add: check_folder_place_iff folder_place_ok_def n placeless_def)
  have hold: "check_folder_hold (Some r) ?n = Inr ()"
    using none spent by (simp add: check_folder_hold_iff folder_holds_ok_def n)
  have terminal: "check_folder_terminal (Some r) ?n = Inr ()"
    using none by (simp add: check_folder_terminal_def n)
  have "folder_journal_input (Some r) ?n =
      update_of (folder_journal_input None ?n) (fol_intents r) J"
    by (simp add: folder_journal_input_def n)
  then have "validate_namespace_journal (folder_journal_input (Some r) ?n) = Inr ()"
    using remint_update_accepted [OF ready J] by simp
  with identity commands deletion hold place terminal
  have v: "validate_folder_namespace_update (Some r) ?n operation = Inr ()"
    by (simp add: folder_update_accepted_iff)
  have clean: "\<not> intent_accepted j" if "j \<in> set J" "int_state j = Superseded" for j
  proof -
    from from' [OF that(1)] that(2) obtain i where i: "i \<in> set (fol_intents r)" "j = remint_move ?x i"
      by auto
    have "int_state i = Superseded \<or> int_state i = NeedsRepair"
    proof (cases "\<exists>f. remint_failed (fol_intents r) (rm_from ?x) = Some f \<and> int_id i = int_id f")
      case True
      then show ?thesis
        using journal_wf_unique [OF wf i(1)] remint_failed_props(1,2) by metis
    next
      case False
      then show ?thesis using that(2) i(2) by (auto simp: remint_move_def split: option.splits if_splits)
    qed
    moreover have "int_state i = Superseded \<Longrightarrow> \<not> intent_accepted i"
      using o i(1) rests_clean by (auto simp: folder_in_order_def folder_rests_iff)
    ultimately have "\<not> intent_accepted i" using refused i(1) by (auto simp: repairs_refused_def)
    then show ?thesis by (simp add: i(2) intent_accepted_def last_outcome_def remint_move_fields)
  qed
  have "folder_in_order operation ?n" if quiet: "\<forall>i \<in> set (fol_intents r). \<not> in_flight i"
  proof -
    have "\<not> in_flight j \<and> (int_state j = NeedsRepair \<longrightarrow> \<not> intent_accepted j)" if "j \<in> set J" for j
      using from' [OF that] quiet refused
      by (auto simp: in_flight_def remint_move_def repairs_refused_def split: if_splits)
    then show ?thesis
      using accepted_folder_rests [OF v] clean
      by (auto simp: folder_in_order_def in_flight_ok_def repairs_refused_def n)
  qed
  with v show ?thesis by (auto simp: n named_by_def)
qed

text \<open>A folder whose create was answered by a conflict, with a rename waiting behind it.\<close>

definition ex_spent_folder :: folder_record where
  "ex_spent_folder = ex_folder\<lparr>fol_serverHold := SpentHold, fol_canonical := None,
     fol_observationVersion := None,
     fol_intents := [ex_intent 1 NeedsRepair (SetFolderLocation ''a'' (ex_destination ''a''))
         [\<lparr>att_id = ''t1'', att_request = CreateFolderRequest NoOwner
            \<lparr>cfb_folderId = ''f1'', cfb_destination = create_destination_of (ex_destination ''a'')\<rparr>,
           att_outcome = Some (CreateFolderOutcome FolderConflict)\<rparr>],
       ex_intent 2 Pending (SetFolderLocation ''b'' (ex_destination ''b'')) []]\<rparr>"

theorem remint_folder_accepted_witness:
  "\<exists>w. remint_folder ex_spent_folder ''f2'' ''r'' [''i2'' \<mapsto> ''q''] = Inr (Some w) \<and>
     fol_folderId (fw_next w) = ''f2'' \<and> named_by (fw_next w) ''f1'' \<and>
     folder_in_order None (fw_next w)"
proof -
  let ?x = "folder_remint_input ex_spent_folder ''f2'' ''r'' [''i2'' \<mapsto> ''q'']"
  define w where "w = the (projr (remint_folder ex_spent_folder ''f2'' ''r'' [''i2'' \<mapsto> ''q'']))"
  define f where "f = hd (fol_intents ex_spent_folder)"
  have w: "remint_folder ex_spent_folder ''f2'' ''r'' [''i2'' \<mapsto> ''q''] = Inr (Some w)"
    unfolding w_def by code_simp
  have rests: "folder_rests None ex_spent_folder" unfolding folder_rests_def by code_simp
  have quiet: "\<forall>i \<in> set (fol_intents ex_spent_folder). \<not> in_flight i \<and>
      (int_state i = NeedsRepair \<longrightarrow> \<not> intent_accepted i)" by code_simp
  then have o': "folder_in_order None ex_spent_folder"
    using rests by (auto simp: folder_in_order_def in_flight_ok_def repairs_refused_def)
  have f: "remint_failed (rm_intents ?x) (rm_from ?x) = Some f" "last_outcome f \<noteq> None"
    unfolding f_def by code_simp+
  have more: "journal_rests (folder_journal_input None (fw_next w)) (rm_intents ?x)"
      "distinct (map int_id (remint_additions ?x))"
      "\<forall>n \<in> set (remint_additions ?x). int_id n \<notin> int_id ` set (rm_intents ?x)"
      "max_from_0 (map int_sequence (rm_intents ?x)) + int (length (remint_additions ?x)) \<le> 2 ^ 53 - 1"
      "\<forall>d \<in> set (remint_waiting ?x). int_desired d \<noteq> DeleteEntry"
    unfolding journal_rests_def w_def by code_simp+
  have "ji_identityRevision (folder_journal_input None (fw_next w)) = rm_to ?x"
    by (simp add: folder_journal_input_def folder_remint_input_def)
  with more f have "remint_ready (folder_journal_input None (fw_next w)) ?x"
    by (simp add: remint_ready_def)
  moreover have "fol_folderId ex_spent_folder = ''f1''" by (simp add: ex_spent_folder_def ex_folder_def)
  ultimately show ?thesis using remint_folder_accepted [OF w o'] quiet w by metis
qed

section \<open>The followers pass the validator\<close>

definition follow_move :: "string \<Rightarrow> namespace_intent \<Rightarrow> namespace_intent" where
  "follow_move from i = (if follows_remint i from then i\<lparr>int_state := Cancelled\<rparr> else i)"

definition follow_additions :: "string \<Rightarrow> string \<Rightarrow> namespace_intent list \<Rightarrow> namespace_intent list" where
  "follow_additions from to J =
     map (\<lambda>(k, i). followed_intent i from to (Max (set (map int_sequence J)) + 1 + int k))
       (enumerate 0 (filter (\<lambda>i. follows_remint i from) J))"

lemma follow_shape:
  assumes "follow from to J = Some J'"
  shows "J' = map (follow_move from) J @ follow_additions from to J" "\<exists>i \<in> set J. follows_remint i from"
  using assms by (auto simp: follow_def Let_def follow_move_def [abs_def] follow_additions_def
      filter_empty_conv split: if_splits)

lemma follows_placement: "follows_remint i from \<Longrightarrow> is_placement (int_desired i)"
  by (cases "int_desired i") (auto simp: follows_remint_def)

lemma followed_kind: "same_desired_kind (followed_desired d from to) d"
  by (cases d) auto

lemma follow_addition_nth:
  assumes "k < length (filter (\<lambda>i. follows_remint i from) J)"
  shows "follow_additions from to J ! k = followed_intent (filter (\<lambda>i. follows_remint i from) J ! k) from to
      (Max (set (map int_sequence J)) + 1 + int k)"
  using assms by (simp add: follow_additions_def nth_enumerate_eq)

lemma follow_additions_length [simp]:
  "length (follow_additions from to J) = length (filter (\<lambda>i. follows_remint i from) J)"
  by (simp add: follow_additions_def)

lemma follow_addition_of:
  assumes "i \<in> set J" and "follows_remint i from"
  shows "\<exists>k < length (follow_additions from to J). followed_intent i from to
      (Max (set (map int_sequence J)) + 1 + int k) \<in> set (follow_additions from to J)"
proof -
  from assms have "i \<in> set (filter (\<lambda>i. follows_remint i from) J)" by simp
  then obtain k where "k < length (filter (\<lambda>i. follows_remint i from) J)"
    "filter (\<lambda>i. follows_remint i from) J ! k = i" unfolding in_set_conv_nth by blast
  then show ?thesis using follow_addition_nth [of k "from" J to]
    by (intro exI [of _ k]) (metis follow_additions_length nth_mem)
qed

lemma follow_addition_from:
  assumes "n \<in> set (follow_additions from to J)"
  shows "\<exists>i k. i \<in> set J \<and> follows_remint i from \<and> k < length (follow_additions from to J) \<and>
     n = followed_intent i from to (Max (set (map int_sequence J)) + 1 + int k)"
proof -
  from assms obtain k where k: "k < length (follow_additions from to J)" "n = follow_additions from to J ! k"
    by (auto simp: in_set_conv_nth)
  then have "filter (\<lambda>i. follows_remint i from) J ! k \<in> set (filter (\<lambda>i. follows_remint i from) J)"
    by (metis follow_additions_length nth_mem)
  with k follow_addition_nth [of k "from" J to] show ?thesis by auto
qed

lemma follow_additions_sequences:
  "map int_sequence (follow_additions from to J) =
     map (\<lambda>k. Max (set (map int_sequence J)) + 1 + int k) [0..<length (follow_additions from to J)]"
proof (rule nth_equalityI)
  fix k assume k: "k < length (map int_sequence (follow_additions from to J))"
  then have "follows_remint (filter (\<lambda>i. follows_remint i from) J ! k) from"
    using nth_mem [of k "filter (\<lambda>i. follows_remint i from) J"] by simp
  with k show "map int_sequence (follow_additions from to J) ! k =
      map (\<lambda>k. Max (set (map int_sequence J)) + 1 + int k) [0..<length (follow_additions from to J)] ! k"
    by (simp add: follow_addition_nth followed_intent_def follows_placement)
qed simp

lemma follow_additions_ids:
  "map int_id (follow_additions from to J) =
     map (\<lambda>i. int_id i @ ''@'' @ to) (filter (\<lambda>i. follows_remint i from) J)"
proof (rule nth_equalityI)
  fix k assume k: "k < length (map int_id (follow_additions from to J))"
  then have "follows_remint (filter (\<lambda>i. follows_remint i from) J ! k) from"
    using nth_mem [of k "filter (\<lambda>i. follows_remint i from) J"] by simp
  with k show "map int_id (follow_additions from to J) ! k =
      map (\<lambda>i. int_id i @ ''@'' @ to) (filter (\<lambda>i. follows_remint i from) J) ! k"
    by (simp add: follow_addition_nth followed_intent_def follows_placement)
qed simp

text \<open>What the store and the ids provide: the new ids are free, the dependents belong to the present
  identity, the sequences stay safe integers.\<close>

definition follow_ready :: "journal_input \<Rightarrow> string \<Rightarrow> string \<Rightarrow> namespace_intent list \<Rightarrow> bool" where
  "follow_ready inp from to J \<longleftrightarrow>
     journal_rests inp J \<and>
     (\<forall>i \<in> set J. follows_remint i from \<longrightarrow>
        int_identityRevision i = ji_identityRevision inp \<and> int_id i @ ''@'' @ to \<notin> int_id ` set J) \<and>
     max_from_0 (map int_sequence J) + int (length J) \<le> 2 ^ 53 - 1"

lemma max_sequences:
  assumes "journal_wf h J" and "J \<noteq> []"
  shows "Max (set (map int_sequence J)) = max_from_0 (map int_sequence J)"
proof (rule antisym)
  show "Max (set (map int_sequence J)) \<le> max_from_0 (map int_sequence J)"
    using assms(2) max_from_0_ge by (intro Max.boundedI) auto
  have "1 \<le> int_sequence (hd J)" using assms by (simp add: journal_wf_def intent_wf_def)
  moreover have "int_sequence (hd J) \<le> Max (set (map int_sequence J))" using assms(2) by simp
  ultimately show "max_from_0 (map int_sequence J) \<le> Max (set (map int_sequence J))"
    by (intro max_from_0_leI) auto
qed

lemma follow_addition_ok:
  assumes ready: "follow_ready inp from to J" and n: "n \<in> set (follow_additions from to J)"
  shows "addition_ok inp J n"
proof -
  have rest: "journal_rests inp J" using ready by (simp add: follow_ready_def)
  note wf = rests_wf [OF rest]
  from follow_addition_from [OF n] obtain i k where i: "i \<in> set J" "follows_remint i from"
    and k: "k < length (follow_additions from to J)"
    and nk: "n = followed_intent i from to (Max (set (map int_sequence J)) + 1 + int k)" by blast
  then have "J \<noteq> []" by auto
  with wf have top: "Max (set (map int_sequence J)) = max_from_0 (map int_sequence J)"
    by (rule max_sequences)
  from wf i(1) have w: "intent_wf (ji_handle inp) i" by (simp add: journal_wf_def)
  have p: "int_state i = Pending" "int_attempts i = []" using i(2) by (simp_all add: follows_remint_def)
  with w have s: "int_settledAt i = None"
    by (auto simp: intent_wf_def check_settled_at_def split: option.splits)
  have "int k < int (length J)"
    using order_less_le_trans [OF k [unfolded follow_additions_length] length_filter_le] by simp
  then have "is_safe_integer (max_from_0 (map int_sequence J) + 1 + int k)"
    using ready max_from_0_nonneg [of "map int_sequence J"]
    by (simp add: follow_ready_def is_safe_integer_def)
  then show ?thesis
    using w p s i ready unfolding nk top
    by (auto simp: addition_ok_def followed_intent_def follows_placement follow_ready_def intent_wf_def)
qed

theorem follow_update_accepted:
  assumes ready: "follow_ready inp from to J" and res: "follow from to J = Some J'"
  shows "validate_namespace_journal (update_of inp J J') = Inr ()"
proof -
  let ?A = "follow_additions from to J"
  let ?inp = "update_of inp J (map (follow_move from) J @ ?A)"
  have rest: "journal_rests inp J" using ready by (simp add: follow_ready_def)
  note wf = rests_wf [OF rest]
  have moves: "intent_moves i (follow_move from i)" for i
    by (auto simp: follow_move_def intent_moves_def follows_remint_def)
  have moved: "move_ok ?inp i (follow_move from i)" if i: "i \<in> set J" and mv: "follow_move from i \<noteq> i" for i
  proof -
    have f: "follows_remint i from" and mi: "follow_move from i = i\<lparr>int_state := Cancelled\<rparr>"
      using mv by (auto simp: follow_move_def split: if_splits)
    from wf i have w: "intent_wf (ji_handle inp) i" by (simp add: journal_wf_def)
    from follow_addition_of [OF i f, where to = to] obtain k where
      n: "followed_intent i from to (Max (set (map int_sequence J)) + 1 + int k) \<in> set ?A" (is "?n \<in> _")
      by blast
    have later: "int_sequence i < int_sequence ?n"
      using follow_addition_ok [OF ready n] sequences_above [of J ?n i] i by (simp add: addition_ok_def)
    have "is_placement (int_desired i)" "same_desired_kind (int_desired ?n) (int_desired i)"
      "int_identityRevision ?n = ji_identityRevision inp"
      using follows_placement [OF f] followed_kind ready i f
      by (simp_all add: followed_intent_def follow_ready_def)
    with later n have "cancellation_justified ?inp (i\<lparr>int_state := Cancelled\<rparr>)"
      using f follows_placement [OF f] unfolding cancellation_justified_def list_ex_set
      by (intro conjI disjI2) (auto simp: follows_remint_def intro!: bexI [of _ ?n])
    then show ?thesis
      using w f unfolding mi by (intro unfinished_move_ok) (simp_all add: follows_remint_def)
  qed
  have "?A = [] \<or> (\<forall>j \<in> set J. int_state j \<noteq> SettledLocally)"
    using follow_shape(2) [OF res] resting_settled_locally [OF rest]
    by (fastforce simp: follows_remint_def)
  moreover have "distinct (map int_id ?A)"
    using wf unfolding follow_additions_ids
    by (auto simp: distinct_map journal_wf_def inj_on_def distinct_filter)
  moreover have "distinct (map int_sequence ?A)"
    unfolding follow_additions_sequences by (simp add: distinct_map inj_on_def)
  ultimately have "validate_namespace_journal ?inp = Inr ()"
    using follow_addition_ok [OF ready] by (intro resting_update [OF rest moves moved]) simp_all
  then show ?thesis by (simp add: follow_shape(1) [OF res])
qed

section \<open>The records of the followers\<close>

lemma follow_from:
  assumes "follow from to J = Some J'" and "j \<in> set J'"
  shows "\<exists>i \<in> set J. int_projectId j = int_projectId i \<and> int_identityRevision j = int_identityRevision i \<and>
     int_attempts j = int_attempts i \<and> same_desired_kind (int_desired j) (int_desired i) \<and>
     (int_state j = int_state i \<or> int_state j = Cancelled \<and> follows_remint i from)"
proof -
  from assms(2) consider (moved) i where "i \<in> set J" "j = follow_move from i"
    | (added) "j \<in> set (follow_additions from to J)"
    unfolding follow_shape(1) [OF assms(1)] by auto
  then show ?thesis
  proof cases
    case moved
    then show ?thesis by (auto simp: follow_move_def)
  next
    case added
    from follow_addition_from [OF this] obtain i k where "i \<in> set J" "follows_remint i from"
      "j = followed_intent i from to (Max (set (map int_sequence J)) + 1 + int k)" by blast
    then show ?thesis
      by (intro bexI [of _ i]) (simp_all add: followed_intent_def follows_placement followed_kind)
  qed
qed

lemma same_kind_facts:
  assumes "same_desired_kind d e"
  shows "is_placement d = is_placement e" "is_folder_placement d = is_folder_placement e"
    "is_copy d = is_copy e" "is_folder_location d = is_folder_location e"
    "d = DeleteEntry \<longleftrightarrow> e = DeleteEntry"
  using assms by (cases d; cases e; simp)+

lemma follow_keeps_old:
  assumes "follow from to J = Some J'" and "i \<in> set J"
  shows "follow_move from i \<in> set J'"
  using assms(2) by (simp add: follow_shape(1) [OF assms(1)])

lemma followed_folder_accepted:
  assumes f: "follow from to (fol_intents r) = Some J" and rests: "folder_rests operation r"
    and ready: "follow_ready (folder_journal_input None r) from to (fol_intents r)"
  shows "validate_folder_namespace_update (Some r)
     (r\<lparr>fol_revision := fol_revision r + 1, fol_intents := J\<rparr>) operation = Inr ()"
    (is "validate_folder_namespace_update _ ?n _ = _")
proof (rule journal_step_accepted [OF rests])
  show "same_folder r ?n" "same_place r ?n" by (simp_all add: same_folder_def same_place_def)
  show "intents_from r ?n"
    unfolding intents_from_def
  proof
    fix j assume "j \<in> set (fol_intents ?n)"
    then have "j \<in> set J" by simp
    from follow_from [OF f this] obtain i where i: "i \<in> set (fol_intents r)"
      "int_projectId j = int_projectId i" "int_identityRevision j = int_identityRevision i"
      "int_attempts j = int_attempts i" "same_desired_kind (int_desired j) (int_desired i)"
      "int_state j = int_state i \<or> int_state j = Cancelled \<and> follows_remint i from" by blast
    then show "\<exists>i \<in> set (fol_intents r). stands_for r i j"
      using same_kind_facts [OF i(5)]
      by (intro bexI [of _ i]) (auto simp: stands_for_def settled_deletion_def)
  qed
  show "validate_namespace_journal (folder_journal_input (Some r) ?n) = Inr ()"
    using follow_update_accepted [OF ready f] by (simp add: folder_journal_input_def)
  show "folder_holds_ok ?n" "fol_serverHold r = HeldHold \<longrightarrow> fol_serverHold ?n = HeldHold"
    using rests by (simp_all add: folder_rests_iff folder_holds_ok_def)
qed

lemma followed_witness:
  assumes f: "follow from to (rec_intents r) = Some J"
    and "refresh_witness \<lparr>og_intents = rec_intents r, og_copiedBy = c\<rparr> operation k \<noteq> None"
  shows "refresh_witness \<lparr>og_intents = J, og_copiedBy = c\<rparr> operation k \<noteq> None"
proof (rule witness_kept [OF _ assms(2)])
  have "(p, out) \<in> set (intent_answers None (follow_move from i))"
    if "(p, out) \<in> set (intent_answers None i)" for p out i
    using that by (auto simp: intent_answers_mem follow_move_def)
  then show "set (accepted_answers \<lparr>og_intents = rec_intents r, og_copiedBy = c\<rparr> operation)
      \<subseteq> set (accepted_answers \<lparr>og_intents = J, og_copiedBy = c\<rparr> operation)"
    using follow_keeps_old [OF f] unfolding accepted_answers_def by fastforce
qed

lemma followed_document_accepted:
  assumes f: "follow from to (rec_intents r) = Some J" and o: "in_order r operation"
    and ready: "follow_ready (record_journal_input None r) from to (rec_intents r)"
  shows "validate_resource_record_update (Some r)
     \<lparr>rec_resource = bumped (rec_resource r), rec_intents = J\<rparr> operation = Inr ()"
    (is "validate_resource_record_update _ ?n _ = _")
proof -
  have res: "rec_resource ?n = rec_resource (restored r)" by (simp add: restored_def)
  note c = in_order_checks [OF o]
  have old: "\<exists>i \<in> set (rec_intents r). int_attempts j = int_attempts i \<and>
      same_desired_kind (int_desired j) (int_desired i) \<and>
      (int_state j = int_state i \<or> int_state j = Cancelled)" if "j \<in> set J" for j
    using follow_from [OF f that] by blast
  have "check_record_identity (Some r) ?n = Inr ()"
    using c(7) old same_kind_facts(2,3)
    by (fastforce simp: check_record_identity_def restored_def bumped_def Let_def)
  moreover have "check_hold (Some r) ?n = Inr ()"
    using c(1) unfolding check_hold_def res by simp
  moreover have "check_terminal (Some r) ?n = Inr ()"
    by (rule terminal_kept [OF o]) (simp add: bumped_def)
  moreover have "check_reservation (Some r) ?n = Inr ()"
  proof -
    have "\<exists>i \<in> set (rec_intents r). int_attempts i \<noteq> []" if "j \<in> set J" "int_attempts j \<noteq> []" for j
      using old [OF that(1)] that(2) by metis
    then show ?thesis
      using c(3) unfolding check_reservation_def res by (auto simp: Let_def restored_def)
  qed
  moreover have "executable_create ?n \<Longrightarrow> executable_create r"
  proof -
    assume e: "executable_create ?n"
    then obtain j where j: "j \<in> set J" "is_placement (int_desired j)"
      "int_state j \<notin> {Cancelled, Settled, Superseded, SettledLocally}"
      by (auto simp: executable_create_def)
    from old [OF j(1)] j(2,3) same_kind_facts(1) obtain i where "i \<in> set (rec_intents r)"
      "is_placement (int_desired i)" "int_state i \<notin> {Cancelled, Settled, Superseded, SettledLocally}"
      by (metis insertCI)
    with e show "executable_create r" by (auto simp: executable_create_def bumped_def)
  qed
  then have "check_eligibility (Some r) ?n = Inr ()"
    using in_order_facts(4,5,6) [OF o]
    by (auto simp: check_eligibility_def bumped_def Let_def split: option.splits)
  moreover have "check_adoption (Some r) ?n = Inr ()"
    using c(5) unfolding check_adoption_def res by (simp add: Let_def split: option.splits)
  moreover have "check_refresh_witness ?n operation = Inr ()"
    using c(6) followed_witness [OF f, of "res_copiedBy (rec_resource r)" operation]
    by (auto simp: check_refresh_witness_def bumped_def restored_def split: option.splits)
  moreover have "validate_namespace_journal (record_journal_input (Some r) ?n) = Inr ()"
    using follow_update_accepted [OF ready f] by (simp add: record_journal_input_def bumped_def)
  moreover have "check_obligations_kept (Some r) ?n = Inr ()"
    by (auto simp: check_obligations_kept_def bumped_def Let_def)
  ultimately show ?thesis by (simp add: validate_resource_record_update_def)
qed

end
