(* ===== verification/Folder_Following.thy ===== *)
theory Folder_Following
  imports Folder_Remint
begin

text \<open>
  What moving the work of other journals to the new id of a folder achieves (\<^verbatim>\<open>folder-remint.ts\<close>):
  the writes pass the validators and leave nothing unsent behind, and the order in which they queue
  the copies loses the newest command.
\<close>

section \<open>What following achieves\<close>

lemma with_sibling_id: "sibling_id p = Some a \<Longrightarrow> sibling_id (with_sibling p b) = Some b"
  by (cases p) auto

lemma followed_forgets:
  "from \<noteq> to \<Longrightarrow> \<not> names_folder (followed_destination d from to) from"
  by (cases "dest_position d") (auto simp: names_folder_def followed_destination_def with_sibling_id)

lemma followed_placement:
  "placement_of (followed_desired d from to) =
     map_option (\<lambda>x. followed_destination x from to) (placement_of d)"
  by (cases d) auto

lemma follow_leaves_none:
  assumes f: "follow from to J = Some J'" and new: "from \<noteq> to" and j: "j \<in> set J'"
  shows "\<not> follows_remint j from"
proof -
  from j consider (moved) i where "i \<in> set J" "j = follow_move from i"
    | (added) "j \<in> set (follow_additions from to J)"
    unfolding follow_shape(1) [OF f] by auto
  then show ?thesis
  proof cases
    case moved
    then show ?thesis by (auto simp: follow_move_def follows_remint_def)
  next
    case added
    from follow_addition_from [OF this] obtain i k where "follows_remint i from"
      "j = followed_intent i from to (Max (set (map int_sequence J)) + 1 + int k)" by blast
    with followed_forgets [OF new] follows_placement [of i "from"] show ?thesis
      by (auto simp: followed_intent_def follows_remint_def followed_placement split: option.splits)
  qed
qed

lemma follow_none: "follow from to J = None \<Longrightarrow> i \<in> set J \<Longrightarrow> \<not> follows_remint i from"
  by (auto simp: follow_def Let_def filter_empty_conv split: if_splits)

lemma followed_from_record:
  "w \<in> set (rd_resources (plan_folder_remint_dependents from to records folders)) \<longleftrightarrow>
     (\<exists>r \<in> set records. \<exists>J. follow from to (rec_intents r) = Some J \<and>
        w = resource_update r (bumped (rec_resource r)) J)"
  "v \<in> set (rd_folders (plan_folder_remint_dependents from to records folders)) \<longleftrightarrow>
     (\<exists>f \<in> set folders. fol_folderId f \<noteq> to \<and> (\<exists>J. follow from to (fol_intents f) = Some J \<and>
        v = folder_update (Some f) (f\<lparr>fol_revision := fol_revision f + 1, fol_intents := J\<rparr>)))"
  by (auto simp: plan_folder_remint_dependents_def map_filter_mem)

section \<open>Properties\<close>

text \<open>C24: When a folder takes a new id, the writes that move the work of other journals to it pass the
  validators of documents and folders over the records read and leave no unsent placement in them
  that names the old id; a record not written held none. This is for records the store would take
  again unchanged (in_order, folder_rests) whose journals are ready to follow
  (follow_ready): the placements that follow belong to the present revision of their entry's
  identity, no intent yet has the id a copy of one would get, and the copies' sequences stay safe
  integers. A folder that already bears the new id is left out, as its own write renames its work.\<close>

theorem remint_followers_accepted:
  assumes new: "from \<noteq> to"
    and records: "\<And>r. r \<in> set records \<Longrightarrow> in_order r (operation r) \<and>
      follow_ready (record_journal_input None r) from to (rec_intents r)"
    and folders: "\<And>f. f \<in> set folders \<Longrightarrow> folder_rests (folder_operation f) f \<and>
      follow_ready (folder_journal_input None f) from to (fol_intents f)"
  shows "(\<forall>r \<in> set records. (\<forall>i \<in> set (rec_intents r). \<not> follows_remint i from) \<or>
       (\<exists>w \<in> set (rd_resources (plan_folder_remint_dependents from to records folders)).
          rw_expectedRevision w = Some (res_revision (rec_resource r)) \<and>
          validate_resource_record_update (Some r) (rw_next w) (operation r) = Inr () \<and>
          (\<forall>i \<in> set (rec_intents (rw_next w)). \<not> follows_remint i from))) \<and>
     (\<forall>f \<in> set folders. fol_folderId f = to \<or> (\<forall>i \<in> set (fol_intents f). \<not> follows_remint i from) \<or>
       (\<exists>w \<in> set (rd_folders (plan_folder_remint_dependents from to records folders)).
          fw_expectedRevision w = Some (fol_revision f) \<and>
          validate_folder_namespace_update (Some f) (fw_next w) (folder_operation f) = Inr () \<and>
          (\<forall>i \<in> set (fol_intents (fw_next w)). \<not> follows_remint i from)))"
proof (intro conjI ballI)
  fix r assume r: "r \<in> set records"
  show "(\<forall>i \<in> set (rec_intents r). \<not> follows_remint i from) \<or>
       (\<exists>w \<in> set (rd_resources (plan_folder_remint_dependents from to records folders)).
          rw_expectedRevision w = Some (res_revision (rec_resource r)) \<and>
          validate_resource_record_update (Some r) (rw_next w) (operation r) = Inr () \<and>
          (\<forall>i \<in> set (rec_intents (rw_next w)). \<not> follows_remint i from))"
  proof (cases "follow from to (rec_intents r)")
    case None
    with follow_none show ?thesis by blast
  next
    case (Some J)
    have "resource_update r (bumped (rec_resource r)) J \<in>
        set (rd_resources (plan_folder_remint_dependents from to records folders))"
      using r Some by (auto simp: followed_from_record)
    then show ?thesis
      using followed_document_accepted [OF Some] records [OF r] follow_leaves_none [OF Some new]
      by (intro disjI2) (erule rev_bexI, simp add: resource_update_def)
  qed
next
  fix f assume f: "f \<in> set folders"
  show "fol_folderId f = to \<or> (\<forall>i \<in> set (fol_intents f). \<not> follows_remint i from) \<or>
       (\<exists>w \<in> set (rd_folders (plan_folder_remint_dependents from to records folders)).
          fw_expectedRevision w = Some (fol_revision f) \<and>
          validate_folder_namespace_update (Some f) (fw_next w) (folder_operation f) = Inr () \<and>
          (\<forall>i \<in> set (fol_intents (fw_next w)). \<not> follows_remint i from))"
  proof (cases "fol_folderId f = to \<or> follow from to (fol_intents f) = None")
    case True
    with follow_none show ?thesis by blast
  next
    case False
    then obtain J where J: "follow from to (fol_intents f) = Some J" "fol_folderId f \<noteq> to" by auto
    then have "folder_update (Some f) (f\<lparr>fol_revision := fol_revision f + 1, fol_intents := J\<rparr>) \<in>
        set (rd_folders (plan_folder_remint_dependents from to records folders))"
      using f by (auto simp: followed_from_record)
    then show ?thesis
      using followed_folder_accepted [OF J(1)] folders [OF f] follow_leaves_none [OF J(1) new]
      by (intro disjI2) (erule rev_bexI, simp add: folder_update_def)
  qed
qed

lemma owner_is_newest:
  assumes mem: "i \<in> set J" "in_project p i" "intent_owns_location i" "int_state i \<noteq> Settled"
    and clear: "\<And>b. b \<in> set J \<Longrightarrow> in_project p b \<Longrightarrow> int_state b \<noteq> NeedsRepair"
    and newest: "\<And>j. j \<in> set J \<Longrightarrow> j \<noteq> i \<Longrightarrow> in_project p j \<Longrightarrow> intent_owns_location j \<Longrightarrow>
      int_sequence j < int_sequence i"
  shows "owning_location_intent p J refresh = Some i"
proof -
  have nb: "find (\<lambda>i. in_project p i \<and> int_state i = NeedsRepair) J = None"
    using clear by (auto simp: find_None_conv)
  let ?q = "\<lambda>i. in_project p i \<and> True \<and> intent_owns_location i"
  have "find ?q (sort_key (\<lambda>i. - int_sequence i) J) \<noteq> None"
    using mem by (auto simp: find_None_conv)
  then obtain o' where o': "find ?q (sort_key (\<lambda>i. - int_sequence i) J) = Some o'" by blast
  from sorted_find_least [OF this mem(1)] mem(2,3) have "int_sequence i \<le> int_sequence o'" by simp
  moreover have "o' \<in> set J" "in_project p o'" "intent_owns_location o'"
    using find_Some_mem [OF o'] by auto
  ultimately have "o' = i" using newest [of o'] by force
  with o' mem(4) show ?thesis by (simp add: owning_location_intent_def Let_def nb)
qed

text \<open>C25: Following loses the writer's last command. Where a placement queued inside the folder is
  followed by a newer one elsewhere, the copy of the older one is queued behind the newer, so after
  the folder is replaced a copy of a placement into the folder owns the location, whatever the
  writer asked for after it. The journal has no failed intent and is read for all projects.\<close>

theorem follower_overrides_newer:
  assumes f: "follow from to J = Some J'" and wf: "journal_wf h J"
    and clear: "\<And>b. b \<in> set J \<Longrightarrow> int_state b \<noteq> NeedsRepair"
    and last: "owning_location_intent None J refresh = Some latest" "\<not> follows_remint latest from"
  shows "\<exists>older \<in> set J. \<exists>i'. owning_location_intent None J' refresh = Some i' \<and>
     int_sequence older < int_sequence latest \<and> follows_remint older from \<and>
     int_id i' = int_id older @ ''@'' @ to \<and>
     int_desired i' = followed_desired (int_desired older) from to"
proof -
  let ?D = "filter (\<lambda>i. follows_remint i from) J" and ?A = "follow_additions from to J"
  define older where "older = last ?D"
  define k where "k = length ?D - 1"
  from follow_shape(2) [OF f] have ne: "?D \<noteq> []" by (auto simp: filter_empty_conv)
  then have k: "k < length ?D" "?D ! k = older" by (simp_all add: k_def older_def last_conv_nth)
  then have o': "older \<in> set J" "follows_remint older from"
    using nth_mem [OF k(1)] by auto
  define i' where "i' = ?A ! k"
  have i': "i' = followed_intent older from to (Max (set (map int_sequence J)) + 1 + int k)"
    using follow_addition_nth [OF k(1)] k(2) by (simp add: i'_def)
  have mem: "i' \<in> set ?A" using k(1) nth_mem [of k ?A] by (simp add: i'_def)
  have J': "J' = map (follow_move from) J @ ?A" by (rule follow_shape(1) [OF f])
  have fields: "int_state i' = Pending" "is_placement (int_desired i')"
    "int_id i' = int_id older @ ''@'' @ to" "int_desired i' = followed_desired (int_desired older) from to"
    "int_sequence i' = Max (set (map int_sequence J)) + 1 + int k"
    using o'(2) follows_placement [OF o'(2)] same_kind_facts(1) [OF followed_kind]
    by (simp_all add: i' followed_intent_def follows_remint_def)
  have "owning_location_intent None J' refresh = Some i'"
  proof (rule owner_is_newest)
    show "i' \<in> set J'" using mem J' by simp
    show "in_project None i'" by (simp add: in_project_def)
    show "intent_owns_location i'" "int_state i' \<noteq> Settled"
      using fields by (simp_all add: intent_owns_location_def)
    show "int_state b \<noteq> NeedsRepair" if "b \<in> set J'" for b
      using follow_from [OF f that] clear by fastforce
    fix j assume j: "j \<in> set J'" "j \<noteq> i'"
    show "int_sequence j < int_sequence i'"
    proof (cases "j \<in> set ?A")
      case True
      then obtain m where m: "m < length ?A" "j = ?A ! m" by (auto simp: in_set_conv_nth)
      with j(2) have "m \<noteq> k" by (auto simp: i'_def)
      with m(1) have "m < k" by (simp add: k_def)
      moreover have "map int_sequence ?A ! m = Max (set (map int_sequence J)) + 1 + int m"
        using m(1) unfolding follow_additions_sequences by simp
      ultimately show ?thesis using m fields(5) by simp
    next
      case False
      with j(1) obtain i where "i \<in> set J" "j = follow_move from i" unfolding J' by auto
      then have "int_sequence j \<le> Max (set (map int_sequence J))" by (simp add: follow_move_def)
      then show ?thesis using fields(5) by simp
    qed
  qed
  moreover have "int_sequence older < int_sequence latest"
  proof -
    have "intent_owns_location older"
      using o'(2) follows_placement [OF o'(2)] by (simp add: intent_owns_location_def follows_remint_def)
    with owning_location_intent_newest [OF last(1) o'(1)] clear
    have "int_sequence older \<le> int_sequence latest" by (simp add: in_project_def)
    moreover have "int_sequence older \<noteq> int_sequence latest"
    proof
      assume "int_sequence older = int_sequence latest"
      with wf o'(1) owning_location_intent_props(1) [OF last(1)] have "older = latest"
        by (auto simp: journal_wf_def distinct_map inj_on_def)
      with o'(2) last(2) show False by simp
    qed
    ultimately show ?thesis by simp
  qed
  ultimately show ?thesis using o' fields by blast
qed

section \<open>Examples\<close>

definition ex_inside :: "string \<Rightarrow> string \<Rightarrow> desired" where
  "ex_inside folder name = SetLocation name
     ((ex_destination name)\<lparr>dest_parent := FolderParent folder\<rparr>)"

definition ex_child :: resource_record where
  "ex_child = \<lparr>rec_resource = ex_resource, rec_intents = [ex_intent 1 Pending (ex_inside ''f1'' ''a.md'') []]\<rparr>"

theorem remint_followers_accepted_witness:
  "\<exists>w. rd_resources (plan_folder_remint_dependents ''f1'' ''f2'' [ex_child] []) = [w] \<and>
     validate_resource_record_update (Some ex_child) (rw_next w) None = Inr () \<and>
     (\<forall>i \<in> set (rec_intents (rw_next w)). \<not> follows_remint i ''f1'')"
proof -
  define w where "w = hd (rd_resources (plan_folder_remint_dependents ''f1'' ''f2'' [ex_child] []))"
  have w: "rd_resources (plan_folder_remint_dependents ''f1'' ''f2'' [ex_child] []) = [w]"
    unfolding w_def by code_simp
  have r: "in_order ex_child None" unfolding in_order_def by code_simp
  have f: "follow_ready (record_journal_input None ex_child) ''f1'' ''f2'' (rec_intents ex_child)"
    unfolding follow_ready_def journal_rests_def by code_simp
  have held: "\<exists>i \<in> set (rec_intents ex_child). follows_remint i ''f1''" by code_simp
  have "\<forall>r \<in> set [ex_child]. (\<forall>i \<in> set (rec_intents r). \<not> follows_remint i ''f1'') \<or>
      (\<exists>w \<in> set (rd_resources (plan_folder_remint_dependents ''f1'' ''f2'' [ex_child] [])).
         rw_expectedRevision w = Some (res_revision (rec_resource r)) \<and>
         validate_resource_record_update (Some r) (rw_next w) None = Inr () \<and>
         (\<forall>i \<in> set (rec_intents (rw_next w)). \<not> follows_remint i ''f1''))"
    by (rule conjunct1 [OF remint_followers_accepted [where folder_operation = "\<lambda>_. None"]])
       (use r f in simp_all)
  with held w show ?thesis by auto
qed

text \<open>A document placed inside the folder and then, by another command, outside it.\<close>

definition ex_moved_away :: "namespace_intent list" where
  "ex_moved_away = rec_intents (rw_next (the (plan_resource_location ex_child
     \<lparr>li_projectId = ''p'', li_intentId = ''i2'', li_eligibleAt = 5, li_admission = None,
      li_operationId = None, li_destination = ex_destination ''a.md'', li_typedName = None\<rparr>)))"

theorem follower_overrides_newer_witness:
  "\<exists>J latest i'. follow ''f1'' ''f2'' ex_moved_away = Some J \<and>
     owning_location_intent None ex_moved_away False = Some latest \<and>
     map_option dest_parent (placement_of (int_desired latest)) = Some (RootParent Unfiled NoOwner) \<and>
     owning_location_intent None J False = Some i' \<and> int_desired i' = ex_inside ''f2'' ''a.md''"
proof -
  define J where "J = the (follow ''f1'' ''f2'' ex_moved_away)"
  define latest where "latest = the (owning_location_intent None ex_moved_away False)"
  have f: "follow ''f1'' ''f2'' ex_moved_away = Some J" unfolding J_def by code_simp
  have wf: "journal_wf ''h'' ex_moved_away" by code_simp
  have c: "int_state b \<noteq> NeedsRepair" if "b \<in> set ex_moved_away" for b
  proof -
    have "\<forall>b \<in> set ex_moved_away. int_state b \<noteq> NeedsRepair" by code_simp
    with that show ?thesis by blast
  qed
  have l: "owning_location_intent None ex_moved_away False = Some latest"
    "\<not> follows_remint latest ''f1''" "map_option dest_parent (placement_of (int_desired latest)) = Some (RootParent Unfiled NoOwner)"
    unfolding latest_def by code_simp+
  have only: "\<forall>i \<in> set ex_moved_away. follows_remint i ''f1'' \<longrightarrow>
      followed_desired (int_desired i) ''f1'' ''f2'' = ex_inside ''f2'' ''a.md''" by code_simp
  from follower_overrides_newer [OF f wf c l(1,2)] only f l show ?thesis by metis
qed

end
