(* ===== verification/Copy_Operations.thy ===== *)
theory Copy_Operations
  imports Folder_Replay Placement_Journal
begin

text \<open>
  The journal of a Copy (\<^verbatim>\<open>operation-journal.ts\<close>) and the records of its roots
  (\<^verbatim>\<open>copy-roots.ts\<close>): admission, the request and the roots it names, the answer that places or
  drops them, resending while a source is behind, repair and retirement.
\<close>

section \<open>The record validator\<close>

fun is_copy_desired :: "desired \<Rightarrow> bool" where
  "is_copy_desired (CopyEntries _ _ _) = True"
| "is_copy_desired _ = False"

definition operation_command :: "operation_record \<Rightarrow> namespace_intent \<Rightarrow> bool" where
  "operation_command record i \<longleftrightarrow>
     int_projectId i = op_projectId record \<and> int_identityRevision i = 1 \<and>
     is_copy_desired (int_desired i)"

definition sent_as :: "string \<Rightarrow> namespace_attempt \<Rightarrow> bool" where
  "sent_as operationId a \<longleftrightarrow> (case att_request a of
     CopyRequest _ body \<Rightarrow> cpb_operationId body = operationId | _ \<Rightarrow> False)"

definition operation_journal_input :: "operation_record option \<Rightarrow> operation_record \<Rightarrow> journal_input" where
  "operation_journal_input previous next' =
     \<lparr>ji_previous = map_option op_intents previous, ji_handle = op_operationId next',
      ji_intents = op_intents next', ji_identityRevision = 1, ji_localDeletionAllowed = False,
      ji_terminal = False\<rparr>"

definition validate_operation_record_update ::
  "operation_record option \<Rightarrow> operation_record \<Rightarrow> unit result" where
  "validate_operation_record_update previous next' =
     throw_when (op_revision next' \<noteq> (case previous of None \<Rightarrow> 0 | Some p \<Rightarrow> op_revision p) + 1)
       ''Invalid operation revision''
    (throw_when (case previous of None \<Rightarrow> False
         | Some p \<Rightarrow> op_operationId next' \<noteq> op_operationId p \<or> op_projectId next' \<noteq> op_projectId p)
       ''Operation identity mismatch''
    (throw_when (list_ex (\<lambda>i. \<not> operation_command next' i) (op_intents next'))
       ''Operation journal only admits Copy intents of its project''
    (throw_when (list_ex (\<lambda>i. list_ex (\<lambda>a. \<not> sent_as (op_operationId next') a) (int_attempts i))
         (op_intents next'))
       ''An operation is sent only under its own id''
      (validate_namespace_journal (operation_journal_input previous next')))))"

definition operation_needs_background_reconciliation :: "operation_record \<Rightarrow> bool" where
  "operation_needs_background_reconciliation record \<longleftrightarrow>
     list_ex (\<lambda>i. placement_unresolved (int_state i)) (op_intents record)"

section \<open>Root records\<close>

datatype root_record = ResourceRoot resource_record | FolderRoot folder_record

definition new_copy_root_record ::
  "copied_by \<Rightarrow> copy_root \<Rightarrow> context_scheme \<Rightarrow> file_classification option \<Rightarrow> root_record result" where
  "new_copy_root_record copiedBy root scheme classification =
     (if root_kind root = FolderKind
      then Inr (FolderRoot
        \<lparr>fol_projectId = (if scheme = UserArea then None else Some (cby_projectId copiedBy)),
         fol_handle = root_handle root, fol_folderId = root_copyId root, fol_aliases = [],
         fol_revision = 1, fol_serverHold = UncertainHold, fol_copiedBy = Some copiedBy,
         fol_canonical = None, fol_canonicalParent = None, fol_canonicalRank = None,
         fol_canonicalLocationVersion = None, fol_canonicalOrderPolicy = None,
         fol_observationVersion = None, fol_canonicalRefresh = None, fol_localDeletion = None,
         fol_terminal = None, fol_intents = []\<rparr>)
      else case classification of
          None \<Rightarrow> Inl (Error ''A copied document needs its source's classification'')
        | Some c \<Rightarrow> Inr (ResourceRoot
            \<lparr>rec_resource =
               \<lparr>res_handle = root_handle root, res_revision = 1, res_documentId = root_copyId root,
                res_identityRevision = 1, res_content = Unacquired, res_classification = c,
                res_materialization = None, res_serverHold = UncertainHold,
                res_copiedBy = Some copiedBy, res_canonical = None, res_canonicalParent = None,
                res_canonicalRank = None, res_canonicalLocationVersion = None,
                res_observationVersion = None, res_lifecycle = LocalLife, res_aliases = [],
                res_revivedFrom = None, res_obligations = no_obligations\<rparr>,
             rec_intents = []\<rparr>))"

definition place_resource_root :: "resource_record \<Rightarrow> root_place \<Rightarrow> string \<Rightarrow> resource_record" where
  "place_resource_root record place operationId =
     (let res = rec_resource record
      in record\<lparr>rec_resource := res\<lparr>res_revision := res_revision res + 1, res_serverHold := HeldHold,
           res_canonical := Some (rp_location place), res_canonicalParent := Some (rp_parent place),
           res_lifecycle := Acknowledged None,
           res_obligations := (res_obligations res)\<lparr>ob_canonicalRefresh :=
             Some \<lparr>cr_operationId = operationId, cr_identityRevision = res_identityRevision res,
               cr_observationVersion = Some (rp_observationVersion place)\<rparr>\<rparr>\<rparr>\<rparr>)"

definition place_folder_root :: "folder_record \<Rightarrow> root_place \<Rightarrow> string \<Rightarrow> folder_record" where
  "place_folder_root record place operationId =
     record\<lparr>fol_revision := fol_revision record + 1, fol_serverHold := HeldHold,
       fol_canonical := Some (rp_location place), fol_canonicalParent := Some (rp_parent place),
       fol_canonicalRefresh := Some \<lparr>fr_operationId = operationId,
         fr_observationVersion = Some (rp_observationVersion place)\<rparr>\<rparr>"

section \<open>Admission\<close>

record plan_copy_input =
  pc_projectId :: string
  pc_operationId :: string
  pc_intentId :: string
  pc_admission :: placement_admission
  pc_scheme :: context_scheme
  pc_roots :: "(copy_root \<times> file_classification option) list"
  pc_parent :: parent_ref
  pc_position :: "sibling_position option"

fun root_records ::
  "copied_by \<Rightarrow> context_scheme \<Rightarrow> (copy_root \<times> file_classification option) list \<Rightarrow>
     root_record list result" where
  "root_records c scheme [] = Inr []"
| "root_records c scheme ((root, classification) # rest) =
     and_then (new_copy_root_record c root scheme classification) (\<lambda>r.
       and_then (root_records c scheme rest) (\<lambda>rs. Inr (r # rs)))"

definition plan_copy :: "plan_copy_input \<Rightarrow> operation_write result" where
  "plan_copy inp =
     and_then (root_records \<lparr>cby_operationId = pc_operationId inp, cby_projectId = pc_projectId inp\<rparr>
       (pc_scheme inp) (pc_roots inp)) (\<lambda>records.
     Inr \<lparr>ow_expectedRevision = None,
       ow_next = \<lparr>op_operationId = pc_operationId inp, op_projectId = pc_projectId inp,
         op_revision = 1, op_behindSince = None,
         op_intents = [\<lparr>int_projectId = pc_projectId inp, int_handle = pc_operationId inp,
           int_id = pc_intentId inp, int_operationId = Some (pc_operationId inp), int_sequence = 1,
           int_admission = Some (pc_admission inp), int_identityRevision = 1,
           int_desired = CopyEntries (map fst (pc_roots inp)) (pc_parent inp) (pc_position inp),
           int_attempts = [], int_settledAt = None, int_state = Pending\<rparr>]\<rparr>,
       ow_roots = Some \<lparr>roots_created = Some
           \<lparr>cr_resources = List.map_filter (\<lambda>r. case r of ResourceRoot x \<Rightarrow> Some x | _ \<Rightarrow> None) records,
            cr_folders = List.map_filter (\<lambda>r. case r of FolderRoot x \<Rightarrow> Some x | _ \<Rightarrow> None) records\<rparr>,
         roots_placed = None, roots_dropped = None\<rparr>\<rparr>)"

section \<open>Writes over a record\<close>

definition operation_replace_intent ::
  "operation_record \<Rightarrow> string \<Rightarrow> (namespace_intent \<Rightarrow> namespace_intent) \<Rightarrow> operation_write" where
  "operation_replace_intent record intentId replace =
     \<lparr>ow_expectedRevision = Some (op_revision record),
      ow_next = record\<lparr>op_revision := op_revision record + 1,
        op_intents := map (\<lambda>i. if int_id i = intentId then replace i else i) (op_intents record)\<rparr>,
      ow_roots = None\<rparr>"

abbreviation roots_drop :: "string list \<Rightarrow> operation_roots" where
  "roots_drop handles \<equiv> \<lparr>roots_created = None, roots_placed = None, roots_dropped = Some handles\<rparr>"

text \<open>The roots' records leave with a Copy that did not happen.\<close>

definition refusal :: "operation_record \<Rightarrow> namespace_intent \<Rightarrow> copy_root list \<Rightarrow> operation_write" where
  "refusal record i roots =
     (operation_replace_intent record (int_id i) (\<lambda>j. j\<lparr>int_state := NeedsRepair\<rparr>))
       \<lparr>ow_roots := Some (roots_drop (map root_handle roots))\<rparr>"

section \<open>The roots the server copies\<close>

definition path_parts :: "string \<Rightarrow> string" where
  "path_parts path = drop_leading slash path"

type_synonym placed_root = "copy_root \<times> resource_location"

definition within :: "resource_location \<Rightarrow> string" where
  "within place = drop_trailing slash (path_parts (loc_path place))"

definition same_space :: "placed_root \<Rightarrow> placed_root \<Rightarrow> bool" where
  "same_space other item \<longleftrightarrow> loc_scheme (snd other) = loc_scheme (snd item) \<and>
     same_owner (loc_owner (snd other)) (loc_owner (snd item))"

text \<open>What takes the item at \<open>k\<close> along: a folder above it, or an earlier item at its place.\<close>

definition carries :: "nat \<times> placed_root \<Rightarrow> nat \<times> placed_root \<Rightarrow> bool" where
  "carries = (\<lambda>(m, other) (k, item).
     m \<noteq> k \<and> same_space other item \<and>
     ((root_kind (fst other) = FolderKind \<and> starts_with (within (snd other) @ [slash]) (within (snd item))) \<or>
      (within (snd other) = within (snd item) \<and> m < k)))"

definition outermost_indexed :: "placed_root list \<Rightarrow> (nat \<times> placed_root) list" where
  "outermost_indexed placed =
     filter (\<lambda>item. \<not> list_ex (\<lambda>other. carries other item) (enumerate 0 placed)) (enumerate 0 placed)"

definition outermost_placed :: "placed_root list \<Rightarrow> placed_root list" where
  "outermost_placed placed = map snd (outermost_indexed placed)"

text \<open>\<^verbatim>\<open>placed.filter((item) => !sent.includes(item))\<close>: objects, so told apart by where they stand.\<close>

definition collapsed_roots :: "placed_root list \<Rightarrow> placed_root list" where
  "collapsed_roots placed =
     map snd (filter (\<lambda>item. item \<notin> set (outermost_indexed placed)) (enumerate 0 placed))"

section \<open>The request\<close>

type_synonym identity_lookup = "string \<Rightarrow> entry_kind \<Rightarrow> string \<Rightarrow> identity_availability result"

fun look_up_sources ::
  "identity_lookup \<Rightarrow> string \<Rightarrow> copy_root list \<Rightarrow> identity_availability list result" where
  "look_up_sources lookup projectId [] = Inr []"
| "look_up_sources lookup projectId (r # rs) =
     and_then (lookup projectId (root_kind r) (root_sourceId r)) (\<lambda>a.
       and_then (look_up_sources lookup projectId rs) (\<lambda>as. Inr (a # as)))"

definition look_up_destination ::
  "identity_lookup \<Rightarrow> string \<Rightarrow> parent_ref \<Rightarrow> identity_availability option result" where
  "look_up_destination lookup projectId parent =
     (case parent of
        FolderParent f \<Rightarrow> and_then (lookup projectId FolderKind f) (\<lambda>a. Inr (Some a))
      | RootParent _ _ \<Rightarrow> Inr None)"

fun available_location :: "identity_availability \<Rightarrow> resource_location option" where
  "available_location (Available av) = Some (av_location av)"
| "available_location _ = None"

text \<open>\<^verbatim>\<open>source.chatRef\<close>: a chat's handle, null while the chat's row does not exist yet.\<close>

fun owner_chat_ref :: "resource_owner \<Rightarrow> string option" where
  "owner_chat_ref (ChatOwner _ chatRef) = chatRef"
| "owner_chat_ref _ = None"

definition copy_source_of :: "placed_root \<Rightarrow> copy_source" where
  "copy_source_of = (\<lambda>(root, source).
     \<lparr>cs_scheme = loc_scheme source, cs_path = path_parts (loc_path source),
      cs_expected = \<lparr>ref_kind = root_kind root, ref_node = root_sourceId root\<rparr>,
      cs_workId = owner_work_id (loc_owner source),
      cs_rootThreadId = owner_root_thread (loc_owner source),
      cs_chatRef = (case owner_chat_ref (loc_owner source) of
          Some r \<Rightarrow> if r = [] then None else Some r | None \<Rightarrow> None),
      cs_view = root_view root, cs_copyId = Some (root_copyId root),
      cs_stateVector = (case root_stateVector root of
          Some v \<Rightarrow> if v = [] then None else Some v | None \<Rightarrow> None)\<rparr>)"

definition copy_request ::
  "string \<Rightarrow> placed_root list \<Rightarrow> resource_location \<Rightarrow> parent_ref \<Rightarrow> sibling_position option \<Rightarrow>
     namespace_request" where
  "copy_request operationId sent parentLocation parent position =
     CopyRequest (owner_of parentLocation)
       \<lparr>cpb_operationId = operationId, cpb_sources = map copy_source_of sent,
        cpb_destinationScheme = loc_scheme parentLocation,
        cpb_destinationFolderPath = path_parts (loc_path parentLocation),
        cpb_destinationWorkId = owner_work_id (loc_owner parentLocation),
        cpb_destinationRootThreadId = owner_root_thread (loc_owner parentLocation),
        cpb_destinationParent = Some (bare_parent parent), cpb_position = position\<rparr>"

definition send_copy ::
  "operation_record \<Rightarrow> namespace_intent \<Rightarrow> string \<Rightarrow> placed_root list \<Rightarrow> resource_location \<Rightarrow>
     parent_ref \<Rightarrow> sibling_position option \<Rightarrow> operation_write" where
  "send_copy record i attemptId placed parentLocation parent position =
     (let request = copy_request (op_operationId record) (outermost_placed placed) parentLocation
            parent position;
          collapsed = collapsed_roots placed
      in (operation_replace_intent record (int_id i) (submit_intent (unrecorded_attempt attemptId request)))
           \<lparr>ow_roots := (if collapsed = [] then None
              else Some (roots_drop (map (\<lambda>p. root_handle (fst p)) collapsed)))\<rparr>)"

definition prepare_copy_attempt ::
  "operation_record \<Rightarrow> string \<Rightarrow> identity_lookup \<Rightarrow> operation_write option result" where
  "prepare_copy_attempt record attemptId lookup =
     (case active_namespace_intent (op_intents record) of
        None \<Rightarrow> Inr None
      | Some i \<Rightarrow> (case int_desired i of
            CopyEntries roots parent position \<Rightarrow>
              if int_state i \<noteq> Pending then Inr None
              else and_then (look_up_destination lookup (op_projectId record) parent) (\<lambda>destination.
                and_then (look_up_sources lookup (op_projectId record) roots) (\<lambda>sources.
                  let parentLocation = destination_parent_location parent
                        (\<lambda>_. Option.bind destination available_location);
                      places = List.map_filter available_location sources
                  in case parentLocation of
                       None \<Rightarrow> Inr (Some (refusal record i roots))
                     | Some location \<Rightarrow>
                         if length places \<noteq> length sources then Inr (Some (refusal record i roots))
                         else Inr (Some (send_copy record i attemptId (zip roots places) location
                                parent position))))
          | _ \<Rightarrow> Inr None))"

section \<open>The answer\<close>

definition record_copy_outcome ::
  "operation_record \<Rightarrow> string \<Rightarrow> string \<Rightarrow> namespace_outcome \<Rightarrow> operation_write option result" where
  "record_copy_outcome record intentId attemptId outcome =
     (case find (\<lambda>i. int_id i = intentId) (op_intents record) of
        None \<Rightarrow> Inl (Error ''Namespace attempt is no longer current'')
      | Some i \<Rightarrow> (case at_last (int_attempts i) of
            None \<Rightarrow> Inl (Error ''Namespace attempt is no longer current'')
          | Some attempt \<Rightarrow>
              if att_id attempt \<noteq> attemptId
              then Inl (Error ''Namespace attempt is no longer current'')
              else if att_outcome attempt \<noteq> None then Inr None
              else if int_state i \<noteq> Submitted \<or> \<not> namespace_outcome_matches attempt outcome
              then Inl (Error ''Namespace outcome does not match current attempt'')
              else and_then (namespace_attempt_with_outcome attempt outcome) (\<lambda>answered.
                Inr (Some (operation_replace_intent record intentId (receive_intent attemptId answered))))))"

record copy_receipt_entries =
  cre_observationVersion :: string
  cre_entries :: "copied_entry list"

definition copy_receipt :: "namespace_intent \<Rightarrow> copy_receipt_entries option" where
  "copy_receipt i =
     (case last_outcome i of
        Some (OperationOutcome receipt) \<Rightarrow> (case rcpt_answer receipt of
            CopyAnswer _ (Inr entries) \<Rightarrow>
              Some \<lparr>cre_observationVersion = rcpt_observationVersion receipt, cre_entries = entries\<rparr>
          | _ \<Rightarrow> None)
      | _ \<Rightarrow> None)"

fun receipt_places ::
  "copy_root list \<Rightarrow> parent_ref \<Rightarrow> resource_owner \<Rightarrow> copy_body \<Rightarrow> copy_receipt_entries \<Rightarrow>
     root_place list option" where
  "receipt_places [] parent owner body receipt = Some []"
| "receipt_places (root # roots) parent owner body receipt =
     (if Some (root_copyId root) \<notin> set (map cs_copyId (cpb_sources body))
      then receipt_places roots parent owner body receipt
      else case find (\<lambda>e. ce_id e = root_copyId root) (cre_entries receipt) of
          None \<Rightarrow> None
        | Some entry \<Rightarrow>
            if ce_kind entry \<noteq> root_kind root then None
            else map_option (\<lambda>places.
                \<lparr>rp_handle = root_handle root, rp_kind = root_kind root,
                 rp_location = \<lparr>loc_scheme = cpb_destinationScheme body,
                   loc_path = displayed_path (ce_path entry), loc_name = ce_name entry,
                   loc_owner = owner\<rparr>,
                 rp_parent = parent, rp_observationVersion = cre_observationVersion receipt\<rparr> # places)
              (receipt_places roots parent owner body receipt))"

definition settle_copy :: "operation_record \<Rightarrow> int \<Rightarrow> operation_write option" where
  "settle_copy record settledAt =
     (case active_namespace_intent (op_intents record) of
        None \<Rightarrow> None
      | Some i \<Rightarrow> (case (int_desired i, at_last (int_attempts i)) of
            (CopyEntries roots parent _, Some attempt) \<Rightarrow>
              (case (att_request attempt, att_outcome attempt) of
                 (CopyRequest owner body, Some outcome) \<Rightarrow>
                   if int_state i \<noteq> Received then None
                   else
                     (let disposition = namespace_intent_outcome outcome False;
                          settled = \<lparr>ow_expectedRevision = Some (op_revision record),
                            ow_next = record\<lparr>op_revision := op_revision record + 1,
                              op_intents := settle_namespace_intent (op_intents record) i disposition
                                settledAt UncertainHold\<rparr>,
                            ow_roots = None\<rparr>
                      in if disposition \<noteq> AcceptedOutcome
                         then Some (settled\<lparr>ow_roots := Some (roots_drop (map root_handle roots))\<rparr>)
                         else case Option.bind (copy_receipt i) (receipt_places roots parent owner body) of
                             Some places \<Rightarrow> Some (settled\<lparr>ow_roots := Some \<lparr>roots_created = None,
                               roots_placed = Some places, roots_dropped = None\<rparr>\<rparr>)
                           | None \<Rightarrow> Some (refusal record i roots))
               | _ \<Rightarrow> None)
          | _ \<Rightarrow> None))"

section \<open>Resending while a source is behind\<close>

definition source_behind_bound_ms :: int where
  "source_behind_bound_ms = 120000"

text \<open>
  What the pass makes of the transport's answer to a submission: its result, and the write that
  notes since when the source is behind. \<open>record\<close> is the operation as it is read then; \<open>asked\<close> and
  \<open>checked\<close> are the two readings of the clock. The write is one more change of the stored record
  beside the pass; a stale one is not repeated.
\<close>

definition copy_submission ::
  "operation_record option \<Rightarrow> int \<Rightarrow> int \<Rightarrow> namespace_request \<Rightarrow> namespace_outcome option result \<Rightarrow>
     namespace_outcome option result \<times> operation_write option" where
  "copy_submission stored asked checked request answer =
     (case answer of
        Inl (SourceBehindError code message retryable) \<Rightarrow> (case stored of
            None \<Rightarrow> (answer, None)
          | Some record \<Rightarrow>
              (let since = (case op_behindSince record of None \<Rightarrow> asked | Some t \<Rightarrow> t)
               in if checked - since < source_behind_bound_ms
                  then (Inr None,
                    if op_behindSince record = None
                    then Some \<lparr>ow_expectedRevision = Some (op_revision record),
                      ow_next = record\<lparr>op_revision := op_revision record + 1,
                        op_behindSince := Some since\<rparr>, ow_roots = None\<rparr>
                    else None)
                  else (Inr (Some (RefusalOutcome (namespace_request_id request)
                    \<lparr>me_code = code, me_message = message, me_retryable = False\<rparr>)), None)))
      | _ \<Rightarrow> (answer, None))"

section \<open>The pass over an operation\<close>

text \<open>Beside the environment of every pass: the key, what the store makes of the roots of a write, and the
  clock.\<close>

record operation_env = "operation_record replay_env" +
  oe_key :: string
  oe_applyRoots :: "operation_write \<Rightarrow> unit result"
  oe_asked :: "operation_record event list \<Rightarrow> int"
  oe_checked :: "operation_record event list \<Rightarrow> int"

definition commit_operation ::
  "operation_env \<Rightarrow> operation_record option \<Rightarrow> operation_write \<Rightarrow> operation_record option result" where
  "commit_operation env stored w =
     (if map_option op_revision stored \<noteq> ow_expectedRevision w then Inr None
      else and_then (validate_operation_record_update stored (ow_next w)) (\<lambda>_.
        and_then (oe_applyRoots env w) (\<lambda>_. Inr (Some (ow_next w)))))"

definition places_roots :: "operation_write \<Rightarrow> bool" where
  "places_roots w \<longleftrightarrow> Option.bind (ow_roots w) roots_placed \<noteq> None"

text \<open>An answer whose roots the store refuses is refused like any other. The read and the second commit
  follow the failed one with no change of the record in between.\<close>

definition commit_or_refuse ::
  "operation_env \<Rightarrow> operation_record option \<Rightarrow> operation_write \<Rightarrow> operation_record option result" where
  "commit_or_refuse env stored w =
     (case commit_operation env stored w of
        Inr committed \<Rightarrow> Inr committed
      | Inl e \<Rightarrow>
          (case (if places_roots w then stored else None) of
             None \<Rightarrow> Inl e
           | Some record \<Rightarrow> (case active_namespace_intent (op_intents record) of
                 None \<Rightarrow> Inl e
               | Some i \<Rightarrow> (case int_desired i of
                     CopyEntries roots _ _ \<Rightarrow>
                       if int_state i \<noteq> Received then Inl e
                       else commit_operation env stored (refusal record i roots)
                   | _ \<Rightarrow> Inl e))))"

definition repair_copy :: "operation_record \<Rightarrow> string \<Rightarrow> operation_write result" where
  "repair_copy record intentId =
     (case find (\<lambda>i. int_id i = intentId) (op_intents record) of
        None \<Rightarrow> Inl (Error ''Only a Copy can be repaired'')
      | Some i \<Rightarrow> (case int_desired i of
            CopyEntries roots _ _ \<Rightarrow> Inr (refusal record i roots)
          | _ \<Rightarrow> Inl (Error ''Only a Copy can be repaired'')))"

fun last_read :: "'r event list \<Rightarrow> 'r option" where
  "last_read es = (case find (\<lambda>e. case e of ReadStored _ \<Rightarrow> True | _ \<Rightarrow> False) (rev es) of
     Some (ReadStored r) \<Rightarrow> r | _ \<Rightarrow> None)"

fun is_copy_request :: "namespace_request \<Rightarrow> bool" where
  "is_copy_request (CopyRequest _ _) = True"
| "is_copy_request _ = False"

definition operation_journal ::
  "operation_env \<Rightarrow> (operation_record, operation_write) namespace_journal" where
  "operation_journal env =
     \<lparr>nj_accounts = re_accounts env, nj_intents = op_intents, nj_next = ow_next,
      nj_commit = commit_or_refuse env,
      nj_newAttemptIds = (\<lambda>es. (re_newAttemptIds env es)\<lparr>aid_operationId := oe_key env\<rparr>),
      nj_gate = re_gate env,
      nj_prepare = (\<lambda>es r ids. prepare_copy_attempt r (aid_attemptId ids) (re_lookupIdentity env es)),
      nj_repair = repair_copy, nj_recordOutcome = record_copy_outcome,
      nj_settle = (\<lambda>r. Inr (settle_copy r (re_now env))), nj_pendingJoin = (\<lambda>_. False),
      nj_refresh = (\<lambda>_ _. Inr None),
      nj_replayEligible = (\<lambda>_ i a. is_copy_desired (int_desired i) \<and> is_copy_request (att_request a)),
      nj_lockFree = re_lockFree env, nj_readOutcome = re_readOutcome env,
      nj_submit = (\<lambda>es projectId request. fst (copy_submission (last_read es) (oe_asked env es)
        (oe_checked env es) request (re_submit env es projectId request)))\<rparr>"

definition reconcile_operation_namespace ::
  "nat \<Rightarrow> operation_env \<Rightarrow> operation_record world \<Rightarrow>
     reconcile_result option result \<times> operation_record world" where
  "reconcile_operation_namespace fuel env = reconcile_namespace_journal fuel (operation_journal env)"

section \<open>Repair and retirement\<close>

definition resolve_refused_copy :: "operation_record \<Rightarrow> operation_write option" where
  "resolve_refused_copy record =
     (if \<not> list_ex (\<lambda>i. int_state i = NeedsRepair) (op_intents record) then None
      else Some \<lparr>ow_expectedRevision = Some (op_revision record),
        ow_next = record\<lparr>op_revision := op_revision record + 1,
          op_intents := map (\<lambda>i. if int_state i = NeedsRepair then i\<lparr>int_state := Superseded\<rparr> else i)
            (op_intents record)\<rparr>,
        ow_roots = None\<rparr>)"

text \<open>The operations something still waits on: a refresh barrier, or a root whose answer is unknown.\<close>

definition held_operations :: "replica_snapshot \<Rightarrow> string list" where
  "held_operations snapshot =
     refresh_barrier_operation_ids (sn_records snapshot) (sn_folders snapshot) @
     List.map_filter (\<lambda>r. if res_serverHold (rec_resource r) = UncertainHold
       then map_option cby_operationId (res_copiedBy (rec_resource r)) else None) (sn_records snapshot) @
     List.map_filter (\<lambda>f. if fol_serverHold f = UncertainHold
       then map_option cby_operationId (fol_copiedBy f) else None) (sn_folders snapshot)"

definition intent_retires :: "int \<Rightarrow> namespace_intent \<Rightarrow> bool" where
  "intent_retires now i \<longleftrightarrow>
     (case int_state i of
        Settled \<Rightarrow> (case int_settledAt i of None \<Rightarrow> False
          | Some t \<Rightarrow> now \<ge> t + namespace_receipt_note_ttl_ms)
      | Cancelled \<Rightarrow> True
      | Superseded \<Rightarrow> True
      | _ \<Rightarrow> False)"

definition retired_operations :: "replica_snapshot \<Rightarrow> int \<Rightarrow> operation_record list" where
  "retired_operations snapshot now =
     filter (\<lambda>op. op_operationId op \<notin> set (held_operations snapshot) \<and>
       list_all (intent_retires now) (op_intents op)) (sn_operations snapshot)"

section \<open>What the projection shows of a Copy\<close>

definition pending_copy :: "operation_record \<Rightarrow> namespace_intent option" where
  "pending_copy operation =
     find (\<lambda>i. is_copy_desired (int_desired i) \<and> placement_unresolved (int_state i)) (op_intents operation)"

definition root_placement ::
  "operation_record \<Rightarrow> namespace_intent \<Rightarrow> parent_ref \<Rightarrow> sibling_position option \<Rightarrow> copy_root \<Rightarrow>
     namespace_intent" where
  "root_placement operation i parent position root =
     (let destination = \<lparr>dest_parent = parent, dest_createFolders = None,
            dest_name = root_predictedName root, dest_position = position\<rparr>
      in \<lparr>int_projectId = op_projectId operation, int_handle = root_handle root,
          int_id = int_id i @ '':'' @ root_copyId root, int_operationId = None, int_sequence = 0,
          int_admission = int_admission i, int_identityRevision = 1,
          int_desired = (if root_kind root = FileKind
            then SetLocation (root_predictedName root) destination
            else SetFolderLocation (root_predictedName root) destination),
          int_attempts = [], int_settledAt = None, int_state = int_state i\<rparr>)"

fun operation_placements :: "operation_record \<Rightarrow> (string \<times> namespace_intent) list" where
  "operation_placements operation =
     (case pending_copy operation of
        None \<Rightarrow> []
      | Some i \<Rightarrow> (case int_desired i of
            CopyEntries roots parent position \<Rightarrow>
              map (\<lambda>root. (root_handle root, root_placement operation i parent position root)) roots
          | _ \<Rightarrow> []))"

text \<open>A later entry for a handle replaces an earlier one, as in a \<^verbatim>\<open>Map\<close>.\<close>

definition overlay_placement :: "operation_record list \<Rightarrow> string \<Rightarrow> namespace_intent option" where
  "overlay_placement operations = map_of (rev (concat (map operation_placements operations)))"

definition overlay_copy_roots ::
  "replica_snapshot \<Rightarrow> resource_record list \<times> folder_record list" where
  "overlay_copy_roots snapshot =
     (let placement = overlay_placement (sn_operations snapshot)
      in (map (\<lambda>r. case placement (res_handle (rec_resource r)) of
              None \<Rightarrow> r | Some p \<Rightarrow> r\<lparr>rec_intents := p # rec_intents r\<rparr>) (sn_records snapshot),
          map (\<lambda>f. case placement (fol_handle f) of
              None \<Rightarrow> f | Some p \<Rightarrow> f\<lparr>fol_intents := p # fol_intents f\<rparr>) (sn_folders snapshot)))"

end
