(* ===== verification/Copy_Replay.thy ===== *)
theory Copy_Replay
  imports Copy_Operations Journal_Planning
begin

text \<open>
  Lemmas about the journal of a Copy (\<^verbatim>\<open>operation-journal.ts\<close>): collapsing the roots a request
  names, the operation's record as a journaled record and its writes over a record in order, the steps
  of its pass as an instance of the replay loop, and the retirement of finished operations.
\<close>

section \<open>The roots a request names\<close>

definition outer_or_same :: "placed_root \<Rightarrow> placed_root \<Rightarrow> bool" where
  "outer_or_same other item \<longleftrightarrow> same_space other item \<and>
     (within (snd other) = within (snd item) \<or>
      root_kind (fst other) = FolderKind \<and> starts_with (within (snd other) @ [slash]) (within (snd item)))"

text \<open>The server holds one entry at a place.\<close>

definition one_kind_per_place :: "placed_root list \<Rightarrow> bool" where
  "one_kind_per_place placed \<longleftrightarrow>
     (\<forall>a \<in> set placed. \<forall>b \<in> set placed. same_space a b \<longrightarrow> within (snd a) = within (snd b) \<longrightarrow>
        root_kind (fst a) = root_kind (fst b))"

lemma same_space_trans: "same_space a b \<Longrightarrow> same_space b c \<Longrightarrow> same_space a c"
  by (auto simp: same_space_def intro: same_owner_trans)

lemma same_space_sym: "same_space a b \<Longrightarrow> same_space b a"
  by (auto simp: same_space_def same_owner_sym)

lemma same_space_refl [simp]: "same_space a a"
  by (simp add: same_space_def)

lemma enumerated: "(k, x) \<in> set (enumerate 0 xs) \<longleftrightarrow> k < length xs \<and> xs ! k = x"
  by (auto simp: in_set_enumerate_eq)

lemma prefix_shorter: "starts_with (p @ [c]) s \<Longrightarrow> length p < length s"
  by (auto simp: starts_with_iff)

lemma prefix_chain:
  "starts_with (p @ [slash]) q \<Longrightarrow> starts_with (q @ [slash]) s \<Longrightarrow> starts_with (p @ [slash]) s"
  by (auto simp: starts_with_iff)

lemma outermost_from: "x \<in> set (outermost_placed placed) \<Longrightarrow> x \<in> set placed"
  unfolding outermost_placed_def outermost_indexed_def
  by (auto simp: in_set_enumerate_eq) (metis fst_conv nth_mem snd_conv)

text \<open>Whatever is left out is inside something that is sent.\<close>

lemma carried_by_sent:
  assumes one: "one_kind_per_place placed" and item: "(k, item) \<in> set (enumerate 0 placed)"
  shows "\<exists>sent \<in> set (outermost_placed placed). outer_or_same sent item"
  using item
proof (induction "(length (within (snd item)), k)" arbitrary: k item
    rule: wf_induct_rule [OF wf_lex_prod [OF wf_less_than wf_less_than]])
  case 1
  show ?case
  proof (cases "(k, item) \<in> set (outermost_indexed placed)")
    case True
    then have "item \<in> set (outermost_placed placed)" by (force simp: outermost_placed_def)
    then show ?thesis by (rule rev_bexI) (simp add: outer_or_same_def)
  next
    case False
    with 1(2) obtain m other where m: "(m, other) \<in> set (enumerate 0 placed)"
      "carries (m, other) (k, item)"
      by (auto simp: outermost_indexed_def)
    have "((length (within (snd other)), m), length (within (snd item)), k)
        \<in> less_than <*lex*> less_than"
      using m(2) prefix_shorter by (auto simp: carries_def)
    from 1(1) [OF this m(1)] obtain sent where sent: "sent \<in> set (outermost_placed placed)"
      "outer_or_same sent other" by blast
    have "sent \<in> set placed" using sent(1) by (rule outermost_from)
    moreover have "other \<in> set placed" using m(1) by (auto simp: enumerated)
    ultimately have kind: "same_space sent other \<Longrightarrow> within (snd sent) = within (snd other) \<Longrightarrow>
        root_kind (fst sent) = root_kind (fst other)"
      using one unfolding one_kind_per_place_def by blast
    have near: "same_space sent other" "same_space other item"
      using sent(2) m(2) by (simp_all add: outer_or_same_def carries_def)
    then have "same_space sent item" by (rule same_space_trans)
    moreover have "within (snd sent) = within (snd other) \<or>
        root_kind (fst sent) = FolderKind \<and> starts_with (within (snd sent) @ [slash]) (within (snd other))"
      "within (snd other) = within (snd item) \<or>
        root_kind (fst other) = FolderKind \<and> starts_with (within (snd other) @ [slash]) (within (snd item))"
      using sent(2) m(2) by (auto simp: outer_or_same_def carries_def)
    ultimately have "outer_or_same sent item"
      using near kind prefix_chain [of "within (snd sent)" "within (snd other)" "within (snd item)"]
      unfolding outer_or_same_def by metis
    with sent(1) show ?thesis by blast
  qed
qed

text \<open>No two sent roots hold one another.\<close>

lemma sent_not_carried:
  assumes "x \<in> set (outermost_indexed placed)" and "y \<in> set (outermost_indexed placed)"
  shows "\<not> carries x y"
  using assms unfolding outermost_indexed_def set_filter mem_Collect_eq list_ex_set by blast

section \<open>Operations as stored records\<close>

definition operation_accepts :: "operation_record option \<Rightarrow> operation_record \<Rightarrow> bool" where
  "operation_accepts p n \<longleftrightarrow> validate_operation_record_update p n = Inr ()"

lemma operation_accepts_iff:
  "operation_accepts p n \<longleftrightarrow>
     op_revision n = (case p of None \<Rightarrow> 0 | Some r \<Rightarrow> op_revision r) + 1 \<and>
     (\<forall>r. p = Some r \<longrightarrow> op_operationId n = op_operationId r \<and> op_projectId n = op_projectId r) \<and>
     (\<forall>i \<in> set (op_intents n). operation_command n i \<and>
        (\<forall>a \<in> set (int_attempts i). sent_as (op_operationId n) a)) \<and>
     validate_namespace_journal (operation_journal_input p n) = Inr ()"
  by (auto simp: operation_accepts_def validate_operation_record_update_def split: option.splits)

interpretation operation: journaled_record operation_accepts op_operationId op_revision op_intents
proof unfold_locales
  fix a b :: operation_record
  show "op_revision a = 1" if "operation_accepts None a"
    using that by (simp add: operation_accepts_iff)
  show "op_revision b = op_revision a + 1" "op_operationId b = op_operationId a"
    if "operation_accepts (Some a) b"
    using that by (simp_all add: operation_accepts_iff)
  show "accepted_update (op_intents a) (op_intents b)" if "operation_accepts (Some a) b"
  proof -
    from that have "validate_namespace_journal (operation_journal_input (Some a) b) = Inr ()"
      by (simp add: operation_accepts_iff)
    then show ?thesis unfolding accepted_update_def
      by (intro exI [of _ "operation_journal_input (Some a) b"]) (simp add: operation_journal_input_def)
  qed
qed

definition operation_rests :: "operation_record \<Rightarrow> bool" where
  "operation_rests r \<longleftrightarrow>
     validate_operation_record_update (Some r) (r\<lparr>op_revision := op_revision r + 1\<rparr>) = Inr ()"

lemma operation_rests_iff:
  "operation_rests r \<longleftrightarrow>
     (\<forall>i \<in> set (op_intents r). operation_command r i \<and>
        (\<forall>a \<in> set (int_attempts i). sent_as (op_operationId r) a)) \<and>
     journal_rests (operation_journal_input None r) (op_intents r)"
  using operation_accepts_iff [of "Some r" "r\<lparr>op_revision := op_revision r + 1\<rparr>"]
  by (simp add: operation_rests_def operation_accepts_def operation_command_def
      operation_journal_input_def journal_rests_def)

definition repairs_answered :: "operation_record \<Rightarrow> bool" where
  "repairs_answered r \<longleftrightarrow> (\<forall>i \<in> set (op_intents r). int_state i = NeedsRepair \<longrightarrow>
     int_attempts i \<noteq> [] \<longrightarrow> last_outcome i \<noteq> None)"

definition operation_in_order :: "operation_record \<Rightarrow> bool" where
  "operation_in_order r \<longleftrightarrow> operation_rests r \<and> repairs_answered r"

lemma rests_operation_wf: "operation_rests r \<Longrightarrow> journal_wf (op_operationId r) (op_intents r)"
  using rests_wf [of "operation_journal_input None r" "op_intents r"]
  by (simp add: operation_rests_iff operation_journal_input_def)

text \<open>An update of the journal alone, sending under the operation's own id.\<close>

definition journal_update :: "operation_record \<Rightarrow> operation_record \<Rightarrow> bool" where
  "journal_update r n \<longleftrightarrow>
     n = r\<lparr>op_revision := op_revision r + 1, op_intents := op_intents n\<rparr> \<and>
     (\<forall>j \<in> set (op_intents n). \<exists>i \<in> set (op_intents r). int_projectId j = int_projectId i \<and>
        int_identityRevision j = int_identityRevision i \<and> int_desired j = int_desired i \<and>
        (\<forall>a \<in> set (int_attempts j). sent_as (op_operationId r) a \<or>
           att_request a \<in> att_request ` set (int_attempts i)))"

lemma update_fields:
  assumes "journal_update r n"
  shows "op_operationId n = op_operationId r" "op_projectId n = op_projectId r"
    "op_revision n = op_revision r + 1"
proof -
  have n: "n = r\<lparr>op_revision := op_revision r + 1, op_intents := op_intents n\<rparr>"
    using assms by (simp add: journal_update_def)
  show "op_operationId n = op_operationId r" "op_projectId n = op_projectId r"
    "op_revision n = op_revision r + 1"
    by (subst n; simp)+
qed

lemma same_request_sent: "att_request a = att_request b \<Longrightarrow> sent_as k a = sent_as k b"
  by (simp add: sent_as_def)

lemma operation_step_accepted:
  assumes rests: "operation_rests r" and u: "journal_update r n"
    and j: "validate_namespace_journal
      (update_of (operation_journal_input None r) (op_intents r) (op_intents n)) = Inr ()"
  shows "validate_operation_record_update (Some r) n = Inr ()"
proof -
  note f = update_fields [OF u]
  have "operation_command n k \<and> (\<forall>a \<in> set (int_attempts k). sent_as (op_operationId n) a)"
    if "k \<in> set (op_intents n)" for k
  proof -
    from u that obtain i where i: "i \<in> set (op_intents r)" "int_projectId k = int_projectId i"
      "int_identityRevision k = int_identityRevision i" "int_desired k = int_desired i"
      "\<forall>a \<in> set (int_attempts k). sent_as (op_operationId r) a \<or>
         att_request a \<in> att_request ` set (int_attempts i)" by (auto simp: journal_update_def)
    from rests i(1) have "operation_command r i"
      "\<forall>a \<in> set (int_attempts i). sent_as (op_operationId r) a" by (auto simp: operation_rests_iff)
    moreover have "sent_as (op_operationId r) a" if a: "a \<in> set (int_attempts k)" for a
      using i(5) a
    proof (elim ballE disjE)
      assume "att_request a \<in> att_request ` set (int_attempts i)"
      then obtain b where "b \<in> set (int_attempts i)" "att_request a = att_request b" by auto
      with calculation(2) same_request_sent show ?thesis by metis
    qed simp_all
    ultimately show ?thesis using i(2-4) f by (simp add: operation_command_def)
  qed
  moreover have "operation_journal_input (Some r) n =
      update_of (operation_journal_input None r) (op_intents r) (op_intents n)"
    by (simp add: operation_journal_input_def f)
  ultimately have "operation_accepts (Some r) n"
    using j f by (simp add: operation_accepts_iff)
  then show ?thesis by (simp add: operation_accepts_def)
qed

lemma accepted_operation_rests:
  assumes v: "validate_operation_record_update p n = Inr ()"
    and clean: "\<And>i. i \<in> set (op_intents n) \<Longrightarrow> int_state i = Superseded \<Longrightarrow> \<not> intent_accepted i"
  shows "operation_rests n"
proof -
  have a: "operation_accepts p n" using v by (simp add: operation_accepts_def)
  then have "journal_rests (operation_journal_input p n) (op_intents n)"
    using accepted_rests [of "operation_journal_input p n"] clean
    by (simp add: operation_accepts_iff operation_journal_input_def)
  then have "journal_rests (operation_journal_input None n) (op_intents n)"
    by (rule rests_cong) (simp_all add: operation_journal_input_def)
  with a show ?thesis by (simp add: operation_accepts_iff operation_rests_iff)
qed

section \<open>The steps of an operation\<close>

lemma replaced_operation [simp]:
  "ow_next (operation_replace_intent r k g) = r\<lparr>op_revision := op_revision r + 1,
     op_intents := map (\<lambda>i. if int_id i = k then g i else i) (op_intents r)\<rparr>"
  "ow_expectedRevision (operation_replace_intent r k g) = Some (op_revision r)"
  "ow_next (refusal r i roots) = ow_next (operation_replace_intent r (int_id i) (\<lambda>j. j\<lparr>int_state := NeedsRepair\<rparr>))"
  "ow_expectedRevision (refusal r i roots) = Some (op_revision r)"
  by (simp_all add: operation_replace_intent_def refusal_def)

lemma send_copy_next [simp]:
  "ow_next (send_copy r i k placed location parent position) =
     ow_next (operation_replace_intent r (int_id i) (submit_intent (unrecorded_attempt k
       (copy_request (op_operationId r) (outermost_placed placed) location parent position))))"
  "ow_expectedRevision (send_copy r i k placed location parent position) = Some (op_revision r)"
  by (simp_all add: send_copy_def Let_def operation_replace_intent_def)

lemma map_filter_full:
  "length (List.map_filter f xs) = length xs \<Longrightarrow> map f xs = map Some (List.map_filter f xs)"
proof (induction xs)
  case (Cons x xs)
  have "length (List.map_filter f xs) \<le> length xs"
    by (simp add: map_filter_def)
  with Cons show ?case by (auto simp: map_filter_simps split: option.splits)
qed (simp add: map_filter_simps)

lemma look_up_sources_list:
  "look_up_sources lookup p roots = Inr sources \<Longrightarrow>
     map (\<lambda>r. lookup p (root_kind r) (root_sourceId r)) roots = map Inr sources"
  by (induction roots arbitrary: sources) auto

definition found_at :: "identity_lookup \<Rightarrow> string \<Rightarrow> placed_root \<Rightarrow> bool" where
  "found_at lookup projectId = (\<lambda>(root, location).
     \<exists>av. lookup projectId (root_kind root) (root_sourceId root) = Inr (Available av) \<and>
       av_location av = location)"

lemma available_location_Some: "available_location a = Some l \<longleftrightarrow> (\<exists>av. a = Available av \<and> av_location av = l)"
  by (cases a) auto

lemma prepared_copy_write:
  assumes "prepare_copy_attempt r attemptId lookup = Inr (Some w)"
  obtains (refused) i roots parent position where
      "active_namespace_intent (op_intents r) = Some i" and "int_state i = Pending"
      and "int_desired i = CopyEntries roots parent position" and "w = refusal r i roots"
    | (sent) i roots parent position placed location where
      "active_namespace_intent (op_intents r) = Some i" and "int_state i = Pending"
      and "int_desired i = CopyEntries roots parent position"
      and "map fst placed = roots" and "\<forall>p \<in> set placed. found_at lookup (op_projectId r) p"
      and "w = send_copy r i attemptId placed location parent position"
proof -
  from assms obtain i where a: "active_namespace_intent (op_intents r) = Some i"
    by (auto simp: prepare_copy_attempt_def split: option.splits)
  with assms obtain roots parent position where d: "int_desired i = CopyEntries roots parent position"
    and p: "int_state i = Pending"
    by (auto simp: prepare_copy_attempt_def split: desired.splits if_splits)
  note i = a p d
  from assms have "and_then (look_up_destination lookup (op_projectId r) parent) (\<lambda>destination.
      and_then (look_up_sources lookup (op_projectId r) roots) (\<lambda>sources.
        case destination_parent_location parent (\<lambda>_. Option.bind destination available_location) of
          None \<Rightarrow> Inr (Some (refusal r i roots))
        | Some location \<Rightarrow>
            if length (List.map_filter available_location sources) \<noteq> length sources
            then Inr (Some (refusal r i roots))
            else Inr (Some (send_copy r i attemptId (zip roots (List.map_filter available_location sources))
              location parent position)))) = Inr (Some w)"
    by (simp add: prepare_copy_attempt_def i Let_def)
  then obtain destination sources where
    s: "look_up_sources lookup (op_projectId r) roots = Inr sources"
    and w: "(case destination_parent_location parent (\<lambda>_. Option.bind destination available_location) of
        None \<Rightarrow> Inr (Some (refusal r i roots))
      | Some location \<Rightarrow>
          if length (List.map_filter available_location sources) \<noteq> length sources
          then Inr (Some (refusal r i roots))
          else Inr (Some (send_copy r i attemptId (zip roots (List.map_filter available_location sources))
            location parent position))) = (Inr (Some w) :: operation_write option result)"
    unfolding and_then_Inr_iff by blast
  show ?thesis
  proof (cases "w = refusal r i roots")
    case True
    with refused i show ?thesis by blast
  next
    case False
    let ?places = "List.map_filter available_location sources"
    from False w obtain location where full: "length ?places = length sources"
      and ws: "w = send_copy r i attemptId (zip roots ?places) location parent position"
      by (auto split: option.splits if_splits)
    note found = look_up_sources_list [OF s]
    have len: "length ?places = length roots" using full arg_cong [OF found, of length] by simp
    have "found_at lookup (op_projectId r) p" if "p \<in> set (zip roots ?places)" for p
    proof -
      from that obtain k where k: "k < length roots" "p = (roots ! k, ?places ! k)"
        using len by (auto simp: set_zip)
      have kl: "k < length sources" using k(1) len full by simp
      have "lookup (op_projectId r) (root_kind (roots ! k)) (root_sourceId (roots ! k)) = Inr (sources ! k)"
        using arg_cong [OF found, of "\<lambda>xs. xs ! k"] k(1) kl by simp
      moreover have "available_location (sources ! k) = Some (?places ! k)"
        using arg_cong [OF map_filter_full [OF full], of "\<lambda>xs. xs ! k"] kl k(1) len by simp
      ultimately show ?thesis by (auto simp: found_at_def k(2) available_location_Some)
    qed
    moreover have "map fst (zip roots ?places) = roots" using len by simp
    ultimately show ?thesis using sent [OF i] ws by blast
  qed
qed

lemma replaced_journal_update:
  assumes rests: "operation_rests r" and i: "i \<in> set (op_intents r)"
    and g: "int_projectId (g i) = int_projectId i" "int_identityRevision (g i) = int_identityRevision i"
      "int_desired (g i) = int_desired i"
      "\<forall>a \<in> set (int_attempts (g i)). sent_as (op_operationId r) a \<or>
         att_request a \<in> att_request ` set (int_attempts i)"
  shows "journal_update r (ow_next (operation_replace_intent r (int_id i) g))"
proof -
  have u: "x = i" if "x \<in> set (op_intents r)" "int_id x = int_id i" for x
    using journal_wf_unique [OF rests_operation_wf [OF rests] that(1) i that(2)] .
  show ?thesis
    unfolding journal_update_def
  proof (intro conjI ballI)
    fix j assume "j \<in> set (op_intents (ow_next (operation_replace_intent r (int_id i) g)))"
    then obtain x where x: "x \<in> set (op_intents r)" "j = (if int_id x = int_id i then g x else x)"
      by auto
    show "\<exists>i \<in> set (op_intents r). int_projectId j = int_projectId i \<and>
        int_identityRevision j = int_identityRevision i \<and> int_desired j = int_desired i \<and>
        (\<forall>a \<in> set (int_attempts j). sent_as (op_operationId r) a \<or>
           att_request a \<in> att_request ` set (int_attempts i))"
    proof (cases "int_id x = int_id i")
      case True
      with u [OF x(1)] x(2) have "j = g i" by simp
      with i g show ?thesis by blast
    next
      case False
      with x show ?thesis by (intro bexI [of _ x]) auto
    qed
  qed simp
qed

lemma replaced_operation_accepted:
  assumes rests: "operation_rests r" and i: "i \<in> set (op_intents r)"
    and step: "\<And>inp. step_ok inp i (g i)"
    and g: "int_projectId (g i) = int_projectId i" "int_identityRevision (g i) = int_identityRevision i"
      "int_desired (g i) = int_desired i"
      "\<forall>a \<in> set (int_attempts (g i)). sent_as (op_operationId r) a \<or>
         att_request a \<in> att_request ` set (int_attempts i)"
  shows "validate_operation_record_update (Some r)
    (ow_next (operation_replace_intent r (int_id i) g)) = Inr ()"
proof (rule operation_step_accepted [OF rests])
  show "journal_update r (ow_next (operation_replace_intent r (int_id i) g))"
    by (rule replaced_journal_update [OF rests i]) (use g in simp_all)
  have "journal_rests (operation_journal_input None r) (op_intents r)"
    using rests by (simp add: operation_rests_iff)
  from one_step_update [OF this i, of g] step
  show "validate_namespace_journal (update_of (operation_journal_input None r) (op_intents r)
      (op_intents (ow_next (operation_replace_intent r (int_id i) g)))) = Inr ()" by simp
qed

lemma operation_intent_wf:
  "operation_rests r \<Longrightarrow> i \<in> set (op_intents r) \<Longrightarrow> intent_wf (op_operationId r) i"
  using rests_operation_wf by (auto simp: journal_wf_def)

lemma repair_step_ok:
  assumes wf: "intent_wf h i" and st: "int_state i = Pending \<or> int_state i = Received"
  shows "step_ok inp i (i\<lparr>int_state := NeedsRepair\<rparr>)"
proof (rule move_step_ok [OF _ wf])
  show "move_ok inp i (i\<lparr>int_state := NeedsRepair\<rparr>)"
  proof (cases "int_state i = Pending")
    case True
    then show ?thesis by (intro unfinished_move_ok [OF wf]) simp_all
  next
    case False
    with st have r: "int_state i = Received" by simp
    have n: "int_settledAt i = None"
      using wf r by (auto simp: intent_wf_def check_settled_at_def split: option.splits)
    have "intent_shape (i\<lparr>int_state := NeedsRepair\<rparr>)"
      using wf r unfolding intent_wf_def intent_shape_def by auto
    then show ?thesis
      using r n by (simp add: move_ok_def state_ok_def intent_moves_def check_settled_at_def
          settled_locally_ok_def)
  qed
qed

lemma refusal_accepted:
  assumes rests: "operation_rests r" and i: "i \<in> set (op_intents r)"
    and st: "int_state i = Pending \<or> int_state i = Received"
  shows "validate_operation_record_update (Some r) (ow_next (refusal r i roots)) = Inr ()"
  using replaced_operation_accepted [OF rests i, of "\<lambda>j. j\<lparr>int_state := NeedsRepair\<rparr>"]
    repair_step_ok [OF operation_intent_wf [OF rests i] st] by simp

lemma sent_accepted:
  assumes rests: "operation_rests r" and i: "i \<in> set (op_intents r)" "int_state i = Pending"
  shows "validate_operation_record_update (Some r)
    (ow_next (send_copy r i k placed location parent position)) = Inr ()"
  unfolding send_copy_next
proof (rule replaced_operation_accepted [OF rests i(1)])
  note wf = operation_intent_wf [OF rests i(1)]
  show "step_ok inp i (submit_intent (unrecorded_attempt k q) i)" for inp q
    by (rule submit_step_ok [OF wf i(2)]) (simp add: unrecorded_attempt_def)
  show "\<forall>a \<in> set (int_attempts (submit_intent (unrecorded_attempt k (copy_request (op_operationId r)
      (outermost_placed placed) location parent position)) i)). sent_as (op_operationId r) a \<or>
      att_request a \<in> att_request ` set (int_attempts i)"
    using pending_unsent [OF wf i(2)]
    by (simp add: submit_intent_def unrecorded_attempt_def sent_as_def copy_request_def)
qed (simp_all add: submit_intent_def)

lemma recorded_copy_write:
  assumes "record_copy_outcome r intentId attemptId out = Inr (Some w)"
  obtains i a b where "find (\<lambda>i. int_id i = intentId) (op_intents r) = Some i"
    and "int_state i = Submitted" and "at_last (int_attempts i) = Some a" and "att_id a = attemptId"
    and "att_outcome a = None" and "check_attempt_outcome b = Inr ()"
    and "b = a\<lparr>att_outcome := Some out\<rparr>"
    and "w = operation_replace_intent r (int_id i) (receive_intent (att_id a) b)"
proof -
  from assms obtain i a b where i: "find (\<lambda>i. int_id i = intentId) (op_intents r) = Some i"
    and a: "at_last (int_attempts i) = Some a" "att_id a = attemptId" "att_outcome a = None"
    and st: "int_state i = Submitted" and m: "namespace_outcome_matches a out"
    and b: "namespace_attempt_with_outcome a out = Inr b"
    and w: "w = operation_replace_intent r intentId (receive_intent attemptId b)"
    by (auto simp: record_copy_outcome_def split: option.splits if_splits)
  have k: "int_id i = intentId" using find_Some_mem [OF i] by auto
  have "check_attempt_outcome b = Inr ()" "b = a\<lparr>att_outcome := Some out\<rparr>"
    using matching_outcome_checks [OF m b] by blast+
  with that [of i a b] i a st w k show ?thesis by simp
qed

lemma recorded_copy_accepted:
  assumes rests: "operation_rests r"
    and w: "record_copy_outcome r intentId attemptId out = Inr (Some w)"
  shows "validate_operation_record_update (Some r) (ow_next w) = Inr ()"
  using w
proof (cases rule: recorded_copy_write)
  case (1 i a b)
  have i: "i \<in> set (op_intents r)" using find_Some_mem [OF 1(1)] by simp
  note wf = operation_intent_wf [OF rests i]
  have a: "a \<in> set (int_attempts i)" using 1(3) by (rule at_last_Some_mem)
  show ?thesis
    unfolding 1(8)
  proof (rule replaced_operation_accepted [OF rests i])
    show "step_ok inp i (receive_intent (att_id a) b i)" for inp
      using receive_step_ok [OF wf 1(2,3,5,7,6)] .
    show "\<forall>c \<in> set (int_attempts (receive_intent (att_id a) b i)). sent_as (op_operationId r) c \<or>
        att_request c \<in> att_request ` set (int_attempts i)"
      using a by (auto simp: receive_intent_def 1(7) image_iff)
  qed (simp_all add: receive_intent_def)
qed

lemma settled_copy_write:
  assumes "settle_copy r t = Some w"
  obtains (settled) i out where
      "active_namespace_intent (op_intents r) = Some i" and "int_state i = Received"
      and "last_outcome i = Some out"
      and "ow_next w = r\<lparr>op_revision := op_revision r + 1,
        op_intents := settle_namespace_intent (op_intents r) i (namespace_intent_outcome out False)
          t UncertainHold\<rparr>"
      and "ow_expectedRevision w = Some (op_revision r)"
    | (refused) i roots where "active_namespace_intent (op_intents r) = Some i"
      and "int_state i = Received" and "last_outcome i \<noteq> None" and "w = refusal r i roots"
proof -
  from assms obtain i where a: "active_namespace_intent (op_intents r) = Some i"
    by (auto simp: settle_copy_def split: option.splits)
  with assms obtain roots parent position attempt where
    d: "int_desired i = CopyEntries roots parent position" and l: "at_last (int_attempts i) = Some attempt"
    by (auto simp: settle_copy_def split: desired.splits option.splits)
  with assms a obtain owner body out where q: "att_request attempt = CopyRequest owner body"
    "att_outcome attempt = Some out" and st: "int_state i = Received"
    by (auto simp: settle_copy_def split: namespace_request.splits option.splits if_splits)
  have lo: "last_outcome i = Some out" using l q by (simp add: last_outcome_def)
  note eq = assms [unfolded settle_copy_def a option.simps prod.case d l desired.simps q
      namespace_request.simps st Let_def]
  show ?thesis
  proof (cases "w = refusal r i roots")
    case True
    with refused a st lo show ?thesis by simp
  next
    case False
    with eq have "ow_next w = r\<lparr>op_revision := op_revision r + 1,
        op_intents := settle_namespace_intent (op_intents r) i (namespace_intent_outcome out False)
          t UncertainHold\<rparr>" "ow_expectedRevision w = Some (op_revision r)"
      by (auto split: if_splits option.splits)
    with settled a st lo show ?thesis by blast
  qed
qed

lemma settled_journal_update:
  assumes "last_outcome i = Some out"
    and n: "n = r\<lparr>op_revision := op_revision r + 1,
      op_intents := settle_namespace_intent (op_intents r) i d t hold\<rparr>"
  shows "journal_update r n"
  unfolding journal_update_def
proof (intro conjI ballI)
  fix j assume "j \<in> set (op_intents n)"
  then have "j \<in> set (settle_namespace_intent (op_intents r) i d t hold)" by (simp add: n)
  with assms(1) show "\<exists>x \<in> set (op_intents r). int_projectId j = int_projectId x \<and>
      int_identityRevision j = int_identityRevision x \<and> int_desired j = int_desired x \<and>
      (\<forall>a \<in> set (int_attempts j). sent_as (op_operationId r) a \<or>
         att_request a \<in> att_request ` set (int_attempts x))"
    by (cases rule: settled_intents_cases) (force intro: bexI)+
qed (simp add: n)

lemma copy_outcome_kind:
  assumes "operation_rests r" and "i \<in> set (op_intents r)" and "last_outcome i = Some out"
  shows "out \<noteq> CreateOutcome c \<and> out \<noteq> CreateFolderOutcome f"
proof -
  from assms(3) have m: "last (int_attempts i) \<in> set (int_attempts i)"
    and o: "att_outcome (last (int_attempts i)) = Some out"
    using last_outcome_Some_attempt [of i out] by auto
  have "sent_as (op_operationId r) (last (int_attempts i))"
    using assms(1,2) m by (auto simp: operation_rests_iff)
  moreover have "check_attempt_outcome (last (int_attempts i)) = Inr ()"
    using operation_intent_wf [OF assms(1,2)] m by (auto simp: intent_wf_def attempts_ok_def)
  ultimately show ?thesis
    using o by (auto simp: sent_as_def check_attempt_outcome_def split: namespace_request.splits if_splits)
qed

lemma settled_copy_accepted:
  assumes rests: "operation_rests r" and t: "0 \<le> t" and w: "settle_copy r t = Some w"
  shows "validate_operation_record_update (Some r) (ow_next w) = Inr ()"
  using w
proof (cases rule: settled_copy_write)
  case (refused i roots)
  then show ?thesis
    using refusal_accepted [OF rests active_intent_props(1)] by blast
next
  case (settled i out)
  note i = active_intent_props(1) [OF settled(1)]
  have "settles (operation_journal_input None r) (op_intents r) i out"
    using rests i settled(2,3) by (simp add: settles_def operation_rests_iff)
  moreover have "fitting_disposition (operation_journal_input None r) out
      (namespace_intent_outcome out False)" by (simp add: fitting_disposition_def)
  moreover have "out \<noteq> CreateOutcome CreateConflict" "out \<noteq> CreateFolderOutcome FolderConflict"
    using copy_outcome_kind [OF rests i settled(3)] by blast+
  ultimately have "validate_namespace_journal (update_of (operation_journal_input None r) (op_intents r)
      (settle_namespace_intent (op_intents r) i (namespace_intent_outcome out False) t UncertainHold)) = Inr ()"
    using t by (intro settle_update_accepted) auto
  then have "validate_namespace_journal (update_of (operation_journal_input None r) (op_intents r)
      (op_intents (ow_next w))) = Inr ()" by (simp add: settled(4))
  with operation_step_accepted [OF rests settled_journal_update [OF settled(3,4)]] show ?thesis .
qed

lemma resolved_copy_accepted:
  assumes o: "operation_in_order r" and w: "resolve_refused_copy r = Some w"
  shows "validate_operation_record_update (Some r) (ow_next w) = Inr ()"
proof -
  let ?f = "\<lambda>i. if int_state i = NeedsRepair then i\<lparr>int_state := Superseded\<rparr> else i"
  have rests: "operation_rests r" using o by (simp add: operation_in_order_def)
  have n: "ow_next w = r\<lparr>op_revision := op_revision r + 1, op_intents := map ?f (op_intents r)\<rparr>"
    using w by (auto simp: resolve_refused_copy_def split: if_splits)
  have "journal_update r (ow_next w)" by (auto simp: journal_update_def n)
  moreover have "validate_namespace_journal (update_of (operation_journal_input None r) (op_intents r)
      (map ?f (op_intents r) @ [])) = Inr ()"
  proof (rule resting_update)
    show "journal_rests (operation_journal_input None r) (op_intents r)"
      using rests by (simp add: operation_rests_iff)
    show "intent_moves i (?f i)" for i by (auto simp: intent_moves_def)
    fix i assume i: "i \<in> set (op_intents r)" "?f i \<noteq> i"
    then have "int_state i = NeedsRepair" by (auto split: if_splits)
    with o i(1) show "move_ok (update_of (operation_journal_input None r) (op_intents r)
        (map ?f (op_intents r) @ [])) i (?f i)"
      using unfinished_move_ok [OF operation_intent_wf [OF rests i(1)], of Superseded]
      by (auto simp: operation_in_order_def repairs_answered_def)
  qed simp_all
  ultimately show ?thesis
    using operation_step_accepted [OF rests] by (simp add: n)
qed

section \<open>Operations stay in order\<close>

lemma rests_operation_clean:
  "operation_rests r \<Longrightarrow> i \<in> set (op_intents r) \<Longrightarrow> int_state i = Superseded \<Longrightarrow> \<not> intent_accepted i"
  using rests_clean unfolding operation_rests_iff by blast

lemma replaced_operation_in_order:
  assumes o: "operation_in_order r" and i: "i \<in> set (op_intents r)"
    and v: "validate_operation_record_update (Some r) (ow_next (operation_replace_intent r (int_id i) g)) = Inr ()"
    and g: "int_state (g i) \<noteq> Superseded"
      "int_state (g i) = NeedsRepair \<Longrightarrow> int_attempts (g i) \<noteq> [] \<Longrightarrow> last_outcome (g i) \<noteq> None"
  shows "operation_in_order (ow_next (operation_replace_intent r (int_id i) g))"
proof -
  have rests: "operation_rests r" using o by (simp add: operation_in_order_def)
  have j: "j = g i \<or> j \<in> set (op_intents r)"
    if "j \<in> set (op_intents (ow_next (operation_replace_intent r (int_id i) g)))" for j
    using that journal_wf_unique [OF rests_operation_wf [OF rests] _ i] by auto
  have "operation_rests (ow_next (operation_replace_intent r (int_id i) g))"
    using j g(1) rests_operation_clean [OF rests] by (intro accepted_operation_rests [OF v]) blast
  moreover have "repairs_answered (ow_next (operation_replace_intent r (int_id i) g))"
    using o j g(2) unfolding repairs_answered_def operation_in_order_def by blast
  ultimately show ?thesis by (simp add: operation_in_order_def)
qed

inductive operation_transition :: "operation_record \<Rightarrow> operation_write \<Rightarrow> bool" where
  prepared: "prepare_copy_attempt r k lookup = Inr (Some w) \<Longrightarrow> operation_transition r w"
| held_back: "active_namespace_intent (op_intents r) = Some i \<Longrightarrow> int_state i = Pending \<Longrightarrow>
    repair_copy r (int_id i) = Inr w \<Longrightarrow> operation_transition r w"
| recorded: "record_copy_outcome r intentId k out = Inr (Some w) \<Longrightarrow> operation_transition r w"
| settled: "settle_copy r t = Some w \<Longrightarrow> 0 \<le> t \<Longrightarrow> operation_transition r w"

lemma repaired_copy_write:
  assumes "operation_rests r" and "i \<in> set (op_intents r)" and "repair_copy r (int_id i) = Inr w"
  shows "\<exists>roots. w = refusal r i roots"
proof -
  have "find (\<lambda>x. int_id x = int_id i) (op_intents r) = Some i"
    using rests_operation_wf [OF assms(1)] assms(2) by (intro find_unique_id) (simp_all add: journal_wf_def)
  with assms(3) show ?thesis by (auto simp: repair_copy_def split: desired.splits)
qed

lemma refusal_in_order:
  assumes o: "operation_in_order r" and i: "i \<in> set (op_intents r)"
    and st: "int_state i = Pending \<or> int_state i = Received \<and> last_outcome i \<noteq> None"
  shows "validate_operation_record_update (Some r) (ow_next (refusal r i roots)) = Inr ()"
    and "operation_in_order (ow_next (refusal r i roots))"
proof -
  have rests: "operation_rests r" using o by (simp add: operation_in_order_def)
  show v: "validate_operation_record_update (Some r) (ow_next (refusal r i roots)) = Inr ()"
    using refusal_accepted [OF rests i] st by blast
  show "operation_in_order (ow_next (refusal r i roots))"
    using replaced_operation_in_order [OF o i, of "\<lambda>j. j\<lparr>int_state := NeedsRepair\<rparr>"] v st
      pending_unsent [OF operation_intent_wf [OF rests i]] by (auto simp: last_outcome_def)
qed

lemma operation_transition_accepted:
  assumes "operation_transition r w" and o: "operation_in_order r"
  shows "validate_operation_record_update (Some r) (ow_next w) = Inr () \<and> operation_in_order (ow_next w)"
  using assms(1)
proof cases
  have rests: "operation_rests r" using o by (simp add: operation_in_order_def)
  {
    case (prepared k lookup)
    from prepared show ?thesis
    proof (cases rule: prepared_copy_write)
      case (refused i roots parent position)
      then show ?thesis using refusal_in_order [OF o active_intent_props(1)] by blast
    next
      case (sent i roots parent position placed location)
      note i = active_intent_props(1) [OF sent(1)]
      have v: "validate_operation_record_update (Some r) (ow_next w) = Inr ()"
        using sent_accepted [OF rests i sent(2)] by (simp add: sent(6))
      moreover have "operation_in_order (ow_next w)"
        using v unfolding sent(6) send_copy_next
        by (intro replaced_operation_in_order [OF o i]) (simp_all add: submit_intent_def)
      ultimately show ?thesis ..
    qed
  next
    case (held_back i)
    note i = active_intent_props(1) [OF held_back(1)]
    from repaired_copy_write [OF rests i held_back(3)] obtain roots where "w = refusal r i roots" ..
    with refusal_in_order [OF o i] held_back(2) show ?thesis by simp
  next
    case (recorded intentId k out)
    note v = recorded_copy_accepted [OF rests recorded]
    from recorded show ?thesis
    proof (cases rule: recorded_copy_write)
      case (1 i a b)
      have i: "i \<in> set (op_intents r)" using find_Some_mem [OF 1(1)] by simp
      have "operation_in_order (ow_next w)"
        using v unfolding 1(8)
        by (intro replaced_operation_in_order [OF o i]) (simp_all add: receive_intent_def)
      with v show ?thesis ..
    qed
  next
    case (settled t)
    note v = settled_copy_accepted [OF rests settled(2,1)]
    from settled(1) show ?thesis
    proof (cases rule: settled_copy_write)
      case (refused i roots)
      then show ?thesis using refusal_in_order [OF o active_intent_props(1)] by blast
    next
      case (settled i out)
      note i = active_intent_props(1) [OF settled(1)]
      have n: "op_intents (ow_next w) = settle_namespace_intent (op_intents r) i
          (namespace_intent_outcome out False) t UncertainHold" by (simp add: settled(4))
      have s: "settles (operation_journal_input None r) (op_intents r) i out"
        using rests i settled(2,3) by (simp add: settles_def operation_rests_iff)
      have "\<not> intent_accepted j" if "j \<in> set (op_intents (ow_next w))" "int_state j = Superseded" for j
        using that settle_superseded [OF s, of "namespace_intent_outcome out False"]
          rests_operation_clean [OF rests] unfolding n fitting_disposition_def by blast
      then have "operation_rests (ow_next w)" by (intro accepted_operation_rests [OF v])
      moreover have "repairs_answered (ow_next w)"
        unfolding repairs_answered_def n
      proof (intro ballI impI)
        fix j assume j: "j \<in> set (settle_namespace_intent (op_intents r) i
            (namespace_intent_outcome out False) t UncertainHold)"
          and st: "int_state j = NeedsRepair" "int_attempts j \<noteq> []"
        from settled(3) j show "last_outcome j \<noteq> None"
        proof (cases rule: settled_intents_cases)
          case same
          with o st show ?thesis by (simp add: operation_in_order_def repairs_answered_def)
        next
          case (settled x s)
          with journal_wf_unique [OF rests_operation_wf [OF rests] settled(1) i] \<open>last_outcome i = Some out\<close>
          show ?thesis by (simp add: last_outcome_def)
        qed (use st in simp)
      qed
      ultimately show ?thesis using v by (simp add: operation_in_order_def)
    qed
  }
qed

section \<open>The contract with the loop\<close>

definition stored_operation :: "operation_record \<Rightarrow> bool" where
  "stored_operation r \<longleftrightarrow> (\<exists>p. operation_accepts p r)"

definition operation_writes_over :: "operation_record \<Rightarrow> operation_write \<Rightarrow> bool" where
  "operation_writes_over r w \<longleftrightarrow> ow_expectedRevision w = Some (op_revision r)"

lemma stored_operation_journal:
  assumes "stored_operation r" shows "accepted_journal (op_intents r)"
proof -
  from assms obtain p where "validate_namespace_journal (operation_journal_input p r) = Inr ()"
    by (auto simp: stored_operation_def operation_accepts_iff)
  from accepted_journalI [OF this] show ?thesis by (simp add: operation_journal_input_def)
qed

lemma committed_operation:
  "commit_operation env stored w = Inr (Some n) \<Longrightarrow> n = ow_next w \<and> operation_accepts stored n"
  by (auto simp: commit_operation_def operation_accepts_def split: if_splits)

lemma commit_over: "operation_writes_over r w \<Longrightarrow> commit_operation env (Some r) w \<noteq> Inr None"
  by (simp add: commit_operation_def operation_writes_over_def)

lemma refusal_over [simp]: "operation_writes_over r (refusal r i roots)"
  by (simp add: operation_writes_over_def)

lemma commit_or_refuse_cases:
  assumes "commit_or_refuse env stored w = Inr c"
  shows "commit_operation env stored w = Inr c \<or>
     places_roots w \<and> (\<exists>r i roots. stored = Some r \<and> commit_operation env stored (refusal r i roots) = Inr c)"
  using assms
  by (auto simp: commit_or_refuse_def split: sum.splits option.splits desired.splits if_splits)

lemma committed_or_refused:
  assumes "commit_or_refuse env stored w = Inr (Some n)"
  shows "operation_accepts stored n" and "\<not> places_roots w \<Longrightarrow> n = ow_next w"
  using commit_or_refuse_cases [OF assms] committed_operation by blast+

lemma unplaced [simp]:
  "\<not> places_roots (refusal r i roots)" "\<not> places_roots (operation_replace_intent r k g)"
  "\<not> places_roots (send_copy r i k placed location parent position)"
  by (simp_all add: places_roots_def refusal_def send_copy_def Let_def operation_replace_intent_def)

lemma prepared_copy_over:
  "prepare_copy_attempt r k lookup = Inr (Some w) \<Longrightarrow> operation_writes_over r w \<and> \<not> places_roots w"
  by (erule prepared_copy_write) (simp_all add: operation_writes_over_def)

lemma prepared_copy_rank:
  assumes r: "stored_operation r" "stored_operation (ow_next w)"
    and w: "prepare_copy_attempt r k lookup = Inr (Some w)"
  shows "progress_rank (op_intents (ow_next w)) < 3"
proof -
  note J = stored_operation_journal [OF r(1)] and J' = stored_operation_journal [OF r(2)]
  from w show ?thesis
  proof (cases rule: prepared_copy_write)
    case (refused i roots parent position)
    with J' show ?thesis
      by (intro replaced_rank [OF J refused(1), of _ "\<lambda>j. j\<lparr>int_state := NeedsRepair\<rparr>"]) simp_all
  next
    case (sent i roots parent position placed location)
    with J' show ?thesis
      by (intro replaced_rank [OF J sent(1), of _ "submit_intent (unrecorded_attempt k
          (copy_request (op_operationId r) (outermost_placed placed) location parent position))"])
         (simp_all add: submit_intent_def)
  qed
qed

lemma recorded_copy_rank:
  assumes r: "stored_operation r" and i: "active_namespace_intent (op_intents r) = Some i"
    and w: "record_copy_outcome r (int_id i) k out = Inr (Some w)"
  shows "progress_rank (op_intents (ow_next w)) < 2"
  using w
proof (cases rule: recorded_copy_write)
  case (1 j a b)
  have "j = i" using 1(1) found_active [OF stored_operation_journal [OF r] i] by simp
  with received_rank [OF stored_operation_journal [OF r] i] show ?thesis by (simp add: 1(8))
qed

lemma recorded_copy_now:
  assumes r: "stored_operation r" and i: "active_namespace_intent (op_intents r) = Some i"
    and st: "int_state i = Submitted" "at_last (int_attempts i) = Some a"
  shows "record_copy_outcome r (int_id i) (att_id a) out \<noteq> Inr None"
  using accepted_journal_facts(3) [OF stored_operation_journal [OF r] active_intent_props(1) [OF i] st(1)]
    found_active [OF stored_operation_journal [OF r] i] st
  by (auto simp: record_copy_outcome_def last_outcome_def namespace_attempt_with_outcome_def)

interpretation operation_replay: namespace_replay "operation_journal env" stored_operation
  operation_writes_over for env
proof unfold_locales
  fix r n es ids k t out i a stored and w :: operation_write
  show "nj_commit (operation_journal env) (Some r) w \<noteq> Inr None" if "operation_writes_over r w"
    using commit_over [OF that] commit_over [OF refusal_over]
    by (auto simp: operation_journal_def dest: commit_or_refuse_cases)
  show "stored_operation n" if "nj_commit (operation_journal env) stored w = Inr (Some n)"
    using that committed_or_refused(1) [of env stored w n]
    by (auto simp: operation_journal_def stored_operation_def)
  show "operation_writes_over r w" if "nj_refresh (operation_journal env) es r = Inr (Some w)"
    using that by (simp add: operation_journal_def)
  show "operation_writes_over r w" if "nj_repair (operation_journal env) r k = Inr w"
    using that by (auto simp: operation_journal_def repair_copy_def split: option.splits desired.splits)
  show "operation_writes_over r w" if "nj_prepare (operation_journal env) es r ids = Inr (Some w)"
    using that prepared_copy_over by (auto simp: operation_journal_def)
  show "operation_writes_over r w" if "nj_settle (operation_journal env) r = Inr (Some w)"
  proof -
    from that have "settle_copy r (re_now env) = Some w" by (simp add: operation_journal_def)
    then show ?thesis by (cases rule: settled_copy_write) (simp_all add: operation_writes_over_def)
  qed
  show "operation_writes_over r w" if "nj_recordOutcome (operation_journal env) r k t out = Inr (Some w)"
  proof -
    from that have "record_copy_outcome r k t out = Inr (Some w)" by (simp add: operation_journal_def)
    then show ?thesis by (cases rule: recorded_copy_write) (simp add: operation_writes_over_def)
  qed
  show "left_for_repair (nj_intents (operation_journal env) (nj_next (operation_journal env) w)) (int_id i)"
    if "active_namespace_intent (nj_intents (operation_journal env) r) = Some i"
      "nj_repair (operation_journal env) r (int_id i) = Inr w"
  proof -
    from that obtain j roots where j: "find (\<lambda>x. int_id x = int_id i) (op_intents r) = Some j"
      "w = refusal r j roots"
      by (auto simp: operation_journal_def repair_copy_def split: option.splits desired.splits)
    then have "int_id j = int_id i" using find_Some_mem [OF j(1)] by simp
    with repaired_left that(1) j(2) show ?thesis by (simp add: operation_journal_def)
  qed
  show "progress_rank (nj_intents (operation_journal env) n) < 3"
    if "stored_operation r" "nj_prepare (operation_journal env) es r ids = Inr (Some w)"
      "nj_commit (operation_journal env) (Some r) w = Inr (Some n)"
  proof -
    from that have p: "prepare_copy_attempt r (aid_attemptId ids) (re_lookupIdentity env es) = Inr (Some w)"
      and c: "commit_or_refuse env (Some r) w = Inr (Some n)" by (simp_all add: operation_journal_def)
    have "n = ow_next w" "stored_operation n"
      using committed_or_refused [OF c] prepared_copy_over [OF p] by (auto simp: stored_operation_def)
    with prepared_copy_rank [OF that(1) _ p] show ?thesis by (simp add: operation_journal_def)
  qed
  show "progress_rank (nj_intents (operation_journal env) n) < 2"
    if "stored_operation r" "active_namespace_intent (nj_intents (operation_journal env) r) = Some i"
      "int_state i = Submitted"
      "nj_recordOutcome (operation_journal env) r (int_id i) t out = Inr (Some w)"
      "nj_commit (operation_journal env) (Some r) w = Inr (Some n)"
  proof -
    from that have p: "record_copy_outcome r (int_id i) t out = Inr (Some w)"
      and c: "commit_or_refuse env (Some r) w = Inr (Some n)"
      and a: "active_namespace_intent (op_intents r) = Some i" by (simp_all add: operation_journal_def)
    have "\<not> places_roots w" using p by (cases rule: recorded_copy_write) simp
    with committed_or_refused(2) [OF c] recorded_copy_rank [OF that(1) a p]
    show ?thesis by (simp add: operation_journal_def)
  qed
  show "nj_recordOutcome (operation_journal env) r (int_id i) (att_id a) out \<noteq> Inr None"
    if "stored_operation r" "active_namespace_intent (nj_intents (operation_journal env) r) = Some i"
      "int_state i = Submitted" "at_last (int_attempts i) = Some a"
    using recorded_copy_now [OF that(1)] that by (simp add: operation_journal_def)
qed

end
