(* ===== verification/Copy_Roots.thy ===== *)
theory Copy_Roots
  imports Copy_Replay
begin

text \<open>
  What becomes of the roots of a Copy and of the operation itself (\<^verbatim>\<open>operation-journal.ts\<close>): every root
  is sent or inside one that is, every root sent is placed or dropped with the answer, the pass ends
  in the record's history, and resending is bounded.
\<close>

section \<open>What a request accounts for\<close>

definition dropped_roots :: "operation_write \<Rightarrow> string list" where
  "dropped_roots w = (case Option.bind (ow_roots w) roots_dropped of None \<Rightarrow> [] | Some hs \<Rightarrow> hs)"

definition placed_roots :: "operation_write \<Rightarrow> root_place list" where
  "placed_roots w = (case Option.bind (ow_roots w) roots_placed of None \<Rightarrow> [] | Some ps \<Rightarrow> ps)"

text \<open>The request an operation write recorded for an intent.\<close>

definition recorded_request :: "operation_write \<Rightarrow> string \<Rightarrow> namespace_request option" where
  "recorded_request w intentId =
     Option.bind (find (\<lambda>i. int_id i = intentId) (op_intents (ow_next w)))
       (\<lambda>i. map_option att_request (at_last (int_attempts i)))"

fun request_sources :: "namespace_request \<Rightarrow> copy_source list" where
  "request_sources (CopyRequest _ body) = cpb_sources body"
| "request_sources _ = []"

lemma collapsed_mem:
  "p \<in> set (collapsed_roots placed) \<longleftrightarrow>
     (\<exists>k. (k, p) \<in> set (enumerate 0 placed) \<and> (k, p) \<notin> set (outermost_indexed placed))"
  unfolding collapsed_roots_def by force

lemma placed_at: "p \<in> set placed \<Longrightarrow> \<exists>k. (k, p) \<in> set (enumerate 0 placed)"
  unfolding enumerated by (metis in_set_conv_nth)

lemma sent_or_collapsed:
  assumes "p \<in> set placed"
  shows "p \<in> set (outermost_placed placed) \<or> p \<in> set (collapsed_roots placed)"
proof -
  from placed_at [OF assms] obtain k where "(k, p) \<in> set (enumerate 0 placed)" ..
  then show ?thesis unfolding collapsed_mem outermost_placed_def by force
qed

lemma collapsed_not_sent:
  assumes d: "distinct (map (\<lambda>p. root_handle (fst p)) placed)"
    and p: "p \<in> set (outermost_placed placed)"
  shows "root_handle (fst p) \<notin> (\<lambda>p. root_handle (fst p)) ` set (collapsed_roots placed)"
proof
  assume "root_handle (fst p) \<in> (\<lambda>p. root_handle (fst p)) ` set (collapsed_roots placed)"
  then obtain q where q: "q \<in> set (collapsed_roots placed)" "root_handle (fst q) = root_handle (fst p)"
    by auto
  then obtain k where k: "k < length placed" "placed ! k = q" "(k, q) \<notin> set (outermost_indexed placed)"
    unfolding collapsed_mem enumerated by blast
  from p obtain m where m: "(m, p) \<in> set (outermost_indexed placed)"
    by (auto simp: outermost_placed_def)
  then have mp: "m < length placed" "placed ! m = p"
    unfolding outermost_indexed_def set_filter mem_Collect_eq enumerated by blast+
  with d k q have "m = k" by (auto simp: distinct_conv_nth)
  with k m mp show False by simp
qed

lemma send_copy_facts:
  assumes r: "operation_rests r" and i: "i \<in> set (op_intents r)" and p: "int_state i = Pending"
    and w: "w = send_copy r i attemptId placed location parent position"
  shows "recorded_request w (int_id i) = Some (copy_request (op_operationId r) (outermost_placed placed)
      location parent position)"
    and "dropped_roots w = map (\<lambda>p. root_handle (fst p)) (collapsed_roots placed)"
proof -
  let ?g = "submit_intent (unrecorded_attempt attemptId (copy_request (op_operationId r)
    (outermost_placed placed) location parent position))"
  have "find (\<lambda>x. int_id x = int_id i) (op_intents (ow_next w)) = Some (?g i)"
  proof -
    have "?g i \<in> set (op_intents (ow_next w))" using i by (auto simp: w intro!: image_eqI [of _ _ i])
    moreover have "map int_id (op_intents (ow_next w)) = map int_id (op_intents r)"
      by (simp add: w submit_intent_def)
    then have "distinct (map int_id (op_intents (ow_next w)))"
      using rests_operation_wf [OF r] by (simp add: journal_wf_def)
    moreover have "int_id (?g i) = int_id i" by (simp add: submit_intent_def)
    ultimately show ?thesis using find_unique_id [of "op_intents (ow_next w)" "?g i"] by simp
  qed
  then show "recorded_request w (int_id i) = Some (copy_request (op_operationId r) (outermost_placed placed)
      location parent position)"
    by (simp add: recorded_request_def submit_intent_def unrecorded_attempt_def)
  show "dropped_roots w = map (\<lambda>p. root_handle (fst p)) (collapsed_roots placed)"
    by (simp add: w send_copy_def dropped_roots_def Let_def operation_replace_intent_def)
qed

text \<open>
  What one source of a Copy request says of a root and of the place the server was found to hold it:
  the root's identity, copy id and view, its address there without leading slashes, and the Work, the
  lineage or the chat that owns the place. A chat is named by its handle, which is null until the
  chat's row exists; an empty handle and an empty state vector are left out.
\<close>

definition names_source :: "placed_root \<Rightarrow> copy_source \<Rightarrow> bool" where
  "names_source p s \<longleftrightarrow>
     ref_kind (cs_expected s) = root_kind (fst p) \<and> ref_node (cs_expected s) = root_sourceId (fst p) \<and>
     cs_copyId s = Some (root_copyId (fst p)) \<and> cs_view s = root_view (fst p) \<and>
     (\<forall>v. cs_stateVector s = Some v \<longleftrightarrow> root_stateVector (fst p) = Some v \<and> v \<noteq> []) \<and>
     cs_scheme s = loc_scheme (snd p) \<and>
     (\<exists>n. loc_path (snd p) = replicate n slash @ cs_path s) \<and> \<not> starts_with [slash] (cs_path s) \<and>
     (\<forall>workId. cs_workId s = Some workId \<longleftrightarrow> (\<exists>h. loc_owner (snd p) = WorkOwner workId h)) \<and>
     (\<forall>t. cs_rootThreadId s = Some t \<longleftrightarrow> (\<exists>ref. loc_owner (snd p) = LineageOwner t ref)) \<and>
     (\<forall>h. cs_chatRef s = Some h \<longleftrightarrow> h \<noteq> [] \<and> (\<exists>chat. loc_owner (snd p) = ChatOwner chat (Some h)))"

lemma path_parts_split:
  "\<exists>n. path = replicate n slash @ path_parts path" "\<not> starts_with [slash] (path_parts path)"
  by (induction path)
     (auto simp: path_parts_def starts_with_def intro: exI [of _ 0] exI [of _ "Suc _"] split: list.splits)

lemma copy_source_names: "names_source p (copy_source_of p)"
  using path_parts_split [of "loc_path (snd p)"]
  by (cases p; cases "loc_owner (snd p)")
     (auto simp: names_source_def copy_source_of_def split: option.split)

section \<open>Properties\<close>

text \<open>C20: Preparing a Copy accounts for every selected root. Either nothing is sent, the Copy needs repair
  and every root's record is dropped, or each root was found where the server holds it and is named by
  the request or dropped, and no root that is sent is dropped. Each source of the request names its
  root's entry, copy id and view, its address and the Work, lineage or chat handle that owns it. When
  the server holds no file and folder at one place, a root that is dropped lies inside, or at the
  place of, one that is sent.\<close>

theorem copy_request_accounts_for_roots:
  assumes w: "prepare_copy_attempt r attemptId lookup = Inr (Some w)" and rests: "operation_rests r"
    and i: "active_namespace_intent (op_intents r) = Some i"
      "int_desired i = CopyEntries roots parent position"
    and handles: "distinct (map root_handle roots)"
  shows "(recorded_request w (int_id i) = None \<and> dropped_roots w = map root_handle roots) \<or>
     (\<exists>placed request. map fst placed = roots \<and> (\<forall>p \<in> set placed. found_at lookup (op_projectId r) p) \<and>
        recorded_request w (int_id i) = Some request \<and>
        (\<exists>sent. set sent \<subseteq> set placed \<and> list_all2 names_source sent (request_sources request) \<and>
           (\<forall>p \<in> set placed. p \<in> set sent \<or> root_handle (fst p) \<in> set (dropped_roots w)) \<and>
           (\<forall>p \<in> set sent. root_handle (fst p) \<notin> set (dropped_roots w)) \<and>
           (one_kind_per_place placed \<longrightarrow> (\<forall>p \<in> set placed. \<exists>q \<in> set sent. outer_or_same q p))))"
  using w
proof (cases rule: prepared_copy_write)
  case (refused j roots' parent' position')
  then have j: "j = i" "roots' = roots" using i by auto
  have mem: "i \<in> set (op_intents r)" using i(1) by (rule active_intent_props(1))
  note e = pending_unsent [OF operation_intent_wf [OF rests mem]]
  have u: "x = i" if "x \<in> set (op_intents r)" "int_id x = int_id i" for x
    using journal_wf_unique [OF rests_operation_wf [OF rests] that(1) mem that(2)] .
  have "int_attempts x = []" if "x \<in> set (op_intents (ow_next w))" "int_id x = int_id i" for x
  proof -
    from that obtain y where "y \<in> set (op_intents r)" "int_id y = int_id i"
      "x = y\<lparr>int_state := NeedsRepair\<rparr>"
      by (auto simp: refused(4) j split: if_splits)
    with u [of y] e refused(2) j show ?thesis by auto
  qed
  then have "recorded_request w (int_id i) = None"
    using find_Some_mem unfolding recorded_request_def
    by (cases "find (\<lambda>x. int_id x = int_id i) (op_intents (ow_next w))") fastforce+
  moreover have "dropped_roots w = map root_handle roots"
    by (simp add: refused(4) j refusal_def dropped_roots_def)
  ultimately show ?thesis by blast
next
  case (sent j roots' parent' position' placed location)
  then have j: "j = i" "roots' = roots" using i by auto
  note facts = send_copy_facts [OF rests active_intent_props(1) [OF sent(1)] sent(2,6)]
  have "map (\<lambda>p. root_handle (fst p)) placed = map root_handle roots"
    using arg_cong [OF sent(4), of "map root_handle"] j by (simp add: comp_def)
  then have d: "distinct (map (\<lambda>p. root_handle (fst p)) placed)" using handles by simp
  have covered: "\<exists>q \<in> set (outermost_placed placed). outer_or_same q p"
    if "one_kind_per_place placed" "p \<in> set placed" for p
  proof -
    from placed_at [OF that(2)] obtain k where "(k, p) \<in> set (enumerate 0 placed)" ..
    from carried_by_sent [OF that(1) this] show ?thesis .
  qed
  have "set (outermost_placed placed) \<subseteq> set placed" using outermost_from by blast
  moreover have "\<forall>p \<in> set placed. p \<in> set (outermost_placed placed) \<or>
      root_handle (fst p) \<in> set (dropped_roots w)"
    using sent_or_collapsed unfolding facts(2) by force
  moreover have "\<forall>p \<in> set (outermost_placed placed). root_handle (fst p) \<notin> set (dropped_roots w)"
    using collapsed_not_sent [OF d] unfolding facts(2) by simp
  moreover have "list_all2 names_source (outermost_placed placed)
      (request_sources (copy_request (op_operationId r) (outermost_placed placed) location parent' position'))"
    by (simp add: copy_request_def list.rel_map copy_source_names list.rel_refl)
  ultimately show ?thesis
    using sent(4,5) facts(1) covered j
    by (intro disjI2 exI [of _ placed] exI [of _ "copy_request (op_operationId r) (outermost_placed placed)
      location parent' position'"] conjI exI [of _ "outermost_placed placed"]) auto
qed

text \<open>A folder and a file another actor moved into it since both were selected.\<close>

definition ex_root :: "entry_kind \<Rightarrow> string \<Rightarrow> copy_root" where
  "ex_root kind k = \<lparr>root_kind = kind, root_handle = CHR ''h'' # k, root_copyId = CHR ''c'' # k,
     root_sourceId = CHR ''s'' # k, root_view = LiveView, root_stateVector = None, root_predictedName = k\<rparr>"

definition ex_copy_intent :: "intent_state \<Rightarrow> namespace_attempt list \<Rightarrow> namespace_intent" where
  "ex_copy_intent st atts = \<lparr>int_projectId = ''p'', int_handle = ''op'', int_id = ''i1'',
     int_operationId = Some ''op'', int_sequence = 1, int_admission = None, int_identityRevision = 1,
     int_desired = CopyEntries [ex_root FolderKind ''1'', ex_root FileKind ''2''] (RootParent Manuscript NoOwner) None,
     int_attempts = atts, int_settledAt = None, int_state = st\<rparr>"

definition ex_copy :: operation_record where
  "ex_copy = \<lparr>op_operationId = ''op'', op_projectId = ''p'', op_revision = 1, op_behindSince = None,
     op_intents = [ex_copy_intent Pending []]\<rparr>"

definition ex_available :: "string \<Rightarrow> identity_availability" where
  "ex_available path = Available
     \<lparr>av_location = \<lparr>loc_scheme = Unfiled, loc_path = path, loc_name = [], loc_owner = NoOwner\<rparr>,
      av_parent = RootParent Unfiled NoOwner, av_observationVersion = ''3'', av_locationVersion = None,
      av_rank = None, av_orderPolicy = None\<rparr>"

definition ex_lookup :: identity_lookup where
  "ex_lookup = (\<lambda>_ kind k. Inr (if k = ''s1'' then ex_available ''/a'' else ex_available ''/a/b''))"

lemma ex_copy_rests: "operation_rests ex_copy"
  unfolding operation_rests_def by code_simp

lemma ex_copy_active: "active_namespace_intent (op_intents ex_copy) = Some (ex_copy_intent Pending [])"
  by code_simp

theorem copy_request_accounts_for_roots_witness:
  "\<exists>w. prepare_copy_attempt ex_copy ''t1'' ex_lookup = Inr (Some w) \<and> dropped_roots w = [''h2''] \<and>
     (\<exists>placed request. recorded_request w ''i1'' = Some request \<and>
        map fst placed = [ex_root FolderKind ''1'', ex_root FileKind ''2''] \<and>
        (\<exists>sent. list_all2 names_source sent (request_sources request) \<and>
           (\<forall>p \<in> set placed. p \<in> set sent \<or> root_handle (fst p) \<in> {''h2''})))"
proof -
  define w where "w = the (projr (prepare_copy_attempt ex_copy ''t1'' ex_lookup))"
  have w: "prepare_copy_attempt ex_copy ''t1'' ex_lookup = Inr (Some w)" unfolding w_def by code_simp
  have d: "dropped_roots w = [''h2'']" unfolding w_def by code_simp
  have q: "recorded_request w ''i1'' \<noteq> None" unfolding w_def by code_simp
  have k: "int_id (ex_copy_intent Pending []) = ''i1''" by (simp add: ex_copy_intent_def)
  have c: "int_desired (ex_copy_intent Pending []) = CopyEntries [ex_root FolderKind ''1'', ex_root FileKind ''2'']
      (RootParent Manuscript NoOwner) None" by (simp add: ex_copy_intent_def)
  have h: "distinct (map root_handle [ex_root FolderKind ''1'', ex_root FileKind ''2''])"
    by (simp add: ex_root_def)
  from copy_request_accounts_for_roots [OF w ex_copy_rests ex_copy_active c h] q k obtain placed request sent
    where "map fst placed = [ex_root FolderKind ''1'', ex_root FileKind ''2'']"
      "recorded_request w ''i1'' = Some request" "list_all2 names_source sent (request_sources request)"
      "\<forall>p \<in> set placed. p \<in> set sent \<or> root_handle (fst p) \<in> set (dropped_roots w)"
    by metis
  with w d show ?thesis by (intro exI [of _ w] conjI exI [of _ placed] exI [of _ request] exI [of _ sent]) simp_all
qed

lemma receipt_placed:
  assumes "receipt_places rs parent owner body receipt = Some ps"
  shows "map rp_handle ps =
        map root_handle (filter (\<lambda>root. Some (root_copyId root) \<in> cs_copyId ` set (cpb_sources body)) rs) \<and>
      (\<forall>p \<in> set ps. loc_scheme (rp_location p) = cpb_destinationScheme body \<and>
         loc_owner (rp_location p) = owner \<and> rp_parent p = parent \<and>
         (\<exists>e \<in> set (cre_entries receipt). ce_kind e = rp_kind p \<and> ce_name e = loc_name (rp_location p)))"
  using assms
proof (induction rs arbitrary: ps)
  case (Cons root rs)
  then show ?case
    using find_Some_mem [of "\<lambda>e. ce_id e = root_copyId root" "cre_entries receipt"]
    by (auto split: if_splits option.splits) blast
qed simp

text \<open>An answer moves the roots with the operation that settles: an accepted one places exactly the roots
  the request was sent for, each under the kind and the name the receipt gives it, in the destination
  the request named; every other answer, and an accepted one that leaves a root out, leaves the Copy
  unsettled and drops every root.\<close>

theorem settled_copy_moves_roots:
  assumes w: "settle_copy r t = Some w" and rests: "operation_rests r"
    and i: "active_namespace_intent (op_intents r) = Some i"
      "int_desired i = CopyEntries roots parent position"
    and a: "at_last (int_attempts i) = Some a" "att_request a = CopyRequest owner body"
  shows "(map rp_handle (placed_roots w) =
        map root_handle (filter (\<lambda>root. Some (root_copyId root) \<in> cs_copyId ` set (cpb_sources body)) roots) \<and>
      dropped_roots w = [] \<and>
      (\<forall>p \<in> set (placed_roots w). loc_scheme (rp_location p) = cpb_destinationScheme body \<and>
         loc_owner (rp_location p) = owner \<and> rp_parent p = parent \<and>
         (\<exists>receipt. copy_receipt i = Some receipt \<and>
            (\<exists>e \<in> set (cre_entries receipt). ce_kind e = rp_kind p \<and> ce_name e = loc_name (rp_location p)))) \<and>
      (\<exists>j \<in> set (op_intents (ow_next w)). int_id j = int_id i \<and> int_state j = Settled)) \<or>
     (placed_roots w = [] \<and> dropped_roots w = map root_handle roots \<and>
      (\<exists>j \<in> set (op_intents (ow_next w)). int_id j = int_id i \<and> int_state j \<in> {NeedsRepair, Superseded}))"
proof -
  have mem: "i \<in> set (op_intents r)" using i(1) by (rule active_intent_props(1))
  from w i a obtain out where o': "att_outcome a = Some out" and st: "int_state i = Received"
    by (auto simp: settle_copy_def split: option.splits if_splits)
  have lo: "last_outcome i = Some out" using a(1) o' by (simp add: last_outcome_def)
  note eq = w [unfolded settle_copy_def i option.simps prod.case a desired.simps o'
      namespace_request.simps st Let_def]
  have refused: ?thesis if "w = refusal r i roots"
  proof -
    have "i\<lparr>int_state := NeedsRepair\<rparr> \<in> set (op_intents (ow_next w))"
      using mem by (force simp: that)
    then show ?thesis
      by (intro disjI2 conjI bexI [of _ "i\<lparr>int_state := NeedsRepair\<rparr>"])
         (simp_all add: that refusal_def placed_roots_def dropped_roots_def)
  qed
  obtain deleted where settle: "settle_namespace_intent (op_intents r) i d t UncertainHold =
     (if d = RefusedOutcome \<and> UncertainHold \<noteq> SpentHold \<and>
         namespace_intent_outcome out False = RefusedOutcome
      then map (\<lambda>c. chain_step i deleted (settle_step i d t c)) (op_intents r)
      else map (settle_step i d t) (op_intents r))" if "d = namespace_intent_outcome out False" for d
    using settle_as_map [OF lo] by metis
  show ?thesis
  proof (cases "namespace_intent_outcome out False = AcceptedOutcome")
    case False
    then have d: "namespace_intent_outcome out False = RefusedOutcome" using outcome_cases(2) by blast
    let ?j = "chain_step i deleted (settle_step i RefusedOutcome t i)"
    have "op_intents (ow_next w) = map (\<lambda>c. chain_step i deleted (settle_step i RefusedOutcome t c)) (op_intents r)"
      using eq False settle d by (auto split: if_splits)
    with mem have "?j \<in> set (op_intents (ow_next w))" by simp
    moreover have "int_id ?j = int_id i \<and> int_state ?j \<in> {NeedsRepair, Superseded}"
      by (auto simp: chain_step_def settle_step_def)
    moreover have "placed_roots w = [] \<and> dropped_roots w = map root_handle roots"
      using eq False by (auto simp: placed_roots_def dropped_roots_def)
    ultimately show ?thesis by blast
  next
    case True
    show ?thesis
    proof (cases "Option.bind (copy_receipt i) (receipt_places roots parent owner body)")
      case None
      with eq True refused show ?thesis by auto
    next
      case (Some ps)
      then obtain receipt where receipt: "copy_receipt i = Some receipt"
        "receipt_places roots parent owner body receipt = Some ps"
        by (cases "copy_receipt i") auto
      let ?j = "settle_step i AcceptedOutcome t i"
      have "op_intents (ow_next w) = map (settle_step i AcceptedOutcome t) (op_intents r)"
        using eq True Some settle by auto
      with mem have "?j \<in> set (op_intents (ow_next w))" by simp
      moreover have "int_id ?j = int_id i \<and> int_state ?j = Settled" by (simp add: settle_step_def)
      moreover have "placed_roots w = ps" "dropped_roots w = []"
        using eq True Some by (auto simp: placed_roots_def dropped_roots_def)
      ultimately show ?thesis using receipt_placed [OF receipt(2)] receipt(1) by blast
    qed
  qed
qed

text \<open>The server copies the folder, and with it the file.\<close>

definition ex_copied :: "operation_answer" where
  "ex_copied = CopyAnswer \<lparr>cpc_sources = [\<lparr>ccs_uri = [], ccs_expected = \<lparr>ref_kind = FolderKind, ref_node = ''s1''\<rparr>,
       ccs_view = LiveView, ccs_copyId = Some ''c1''\<rparr>],
     cpc_destinationUri = [], cpc_destinationParent = Some (bare_parent (RootParent Manuscript NoOwner)),
     cpc_position = None\<rparr>
   (Inr [\<lparr>ce_kind = FolderKind, ce_id = ''c1'', ce_path = ''a'', ce_name = ''a'', ce_copiedFrom = ''s1''\<rparr>])"

definition ex_copy_env :: operation_env where
  "ex_copy_env = \<lparr>re_accounts = (''u'', ''u'', ''u''),
     re_newAttemptIds = (\<lambda>_. \<lparr>aid_attemptId = ''t1'', aid_operationId = []\<rparr>), re_gate = None,
     re_lookupIdentity = (\<lambda>_. ex_lookup), re_operation = (\<lambda>_. None), re_now = 5,
     re_lockFree = (\<lambda>_. True), re_readOutcome = (\<lambda>_ _ _. Inr None),
     re_submit = (\<lambda>_ _ _. Inr (Some (OperationOutcome
       \<lparr>rcpt_operationId = ''op'', rcpt_observationVersion = ''7'', rcpt_answer = ex_copied\<rparr>))),
     oe_key = ''op'', oe_applyRoots = (\<lambda>_. Inr ()), oe_asked = (\<lambda>_. 5), oe_checked = (\<lambda>_. 5)\<rparr>"

definition ex_copy_received :: operation_record where
  "ex_copy_received = (let sent = ow_next (the (projr (prepare_copy_attempt ex_copy ''t1'' ex_lookup)))
     in ow_next (the (projr (record_copy_outcome sent ''i1'' ''t1'' (OperationOutcome
       \<lparr>rcpt_operationId = ''op'', rcpt_observationVersion = ''7'', rcpt_answer = ex_copied\<rparr>)))))"

theorem settled_copy_moves_roots_witness:
  "\<exists>w. settle_copy ex_copy_received 9 = Some w \<and> map rp_handle (placed_roots w) = [''h1''] \<and>
     dropped_roots w = []"
proof -
  define i where "i = hd (op_intents ex_copy_received)"
  define a where "a = last (int_attempts i)"
  define w where "w = the (settle_copy ex_copy_received 9)"
  have w: "settle_copy ex_copy_received 9 = Some w" unfolding w_def by code_simp
  have r: "operation_rests ex_copy_received" unfolding operation_rests_def by code_simp
  have i: "active_namespace_intent (op_intents ex_copy_received) = Some i"
    "int_desired i = CopyEntries [ex_root FolderKind ''1'', ex_root FileKind ''2''] (RootParent Manuscript NoOwner) None"
    unfolding i_def by code_simp+
  have a: "at_last (int_attempts i) = Some a" unfolding a_def i_def by code_simp
  have "att_request a = copy_request ''op'' [(ex_root FolderKind ''1'',
        \<lparr>loc_scheme = Unfiled, loc_path = ''/a'', loc_name = [], loc_owner = NoOwner\<rparr>)]
      \<lparr>loc_scheme = Manuscript, loc_path = [], loc_name = [], loc_owner = NoOwner\<rparr>
      (RootParent Manuscript NoOwner) None" unfolding a_def i_def by code_simp
  note q = this [unfolded copy_request_def]
  have "dropped_roots w = []" unfolding w_def by code_simp
  with settled_copy_moves_roots [OF w r i a q] w show ?thesis
    by (auto simp: copy_source_of_def ex_root_def)
qed

section \<open>Steps and passes\<close>

text \<open>C22: Every write the reconciler plans over an operation in order (sending it, leaving it for repair,
  recording its answer, settling it, refusing an answer its roots cannot take) passes the operation
  validator and leaves the operation in order; dismissing a refused Copy is accepted too.\<close>

theorem operation_transitions_pass_the_validator:
  assumes "operation_transition r w" and "operation_in_order r"
  shows "validate_operation_record_update (Some r) (ow_next w) = Inr () \<and> operation_in_order (ow_next w) \<and>
     (\<forall>v. resolve_refused_copy (ow_next w) = Some v \<longrightarrow>
        validate_operation_record_update (Some (ow_next w)) (ow_next v) = Inr ())"
  using operation_transition_accepted [OF assms] resolved_copy_accepted by blast

theorem operation_transitions_pass_the_validator_witness:
  "\<exists>w. prepare_copy_attempt ex_copy ''t1'' ex_lookup = Inr (Some w) \<and> operation_in_order (ow_next w)"
proof -
  define w where "w = the (projr (prepare_copy_attempt ex_copy ''t1'' ex_lookup))"
  have w: "prepare_copy_attempt ex_copy ''t1'' ex_lookup = Inr (Some w)" unfolding w_def by code_simp
  have "operation_in_order ex_copy"
    using ex_copy_rests by (simp add: operation_in_order_def repairs_answered_def ex_copy_def ex_copy_intent_def)
  from operation_transitions_pass_the_validator [OF operation_transition.prepared [OF w] this] w
  show ?thesis by blast
qed

text \<open>C21: A pass over a Copy ends once the other actors have stopped changing the record, whatever the store
  makes of its roots, and its commits, the refusal of an answer the roots cannot take among them,
  only ever continue the operation's history.\<close>

theorem operation_pass_ends_in_history:
  assumes "w_stored w = Some r" and "stored_operation r"
    and "\<And>f s x. f \<in> set (w_others w) \<Longrightarrow> (\<And>y. s = Some y \<Longrightarrow> stored_operation y) \<Longrightarrow>
      f s = Some x \<Longrightarrow> stored_operation x"
    and "\<And>f x. f \<in> set (w_others w) \<Longrightarrow> \<exists>y. f (Some x) = Some y \<and> operation.stored_after x y"
    and "length (w_others w) + 4 \<le> fuel"
  shows "fst (reconcile_operation_namespace fuel env w) \<noteq> Inr None \<and>
     (\<exists>r'. w_stored (snd (reconcile_operation_namespace fuel env w)) = Some r' \<and>
        operation.stored_after r r')"
proof
  have "operation_replay.sound_world w"
    unfolding operation_replay.sound_world_def using assms(1-3) by auto
  with operation_replay.pass_ends assms(5)
  show "fst (reconcile_operation_namespace fuel env w) \<noteq> Inr None"
    by (simp add: reconcile_operation_namespace_def)
  show "\<exists>r'. w_stored (snd (reconcile_operation_namespace fuel env w)) = Some r' \<and>
      operation.stored_after r r'"
    unfolding reconcile_operation_namespace_def
  proof (rule pass_reaches [where reach = operation.stored_after and nj = "operation_journal env"])
    fix x y wr assume "nj_commit (operation_journal env) (Some x) wr = Inr (Some y)"
    then have "operation_accepts (Some x) y"
      using committed_or_refused(1) by (simp add: operation_journal_def)
    then show "operation.stored_after x y" by (rule operation.stored_after.later [OF operation.stored_after.same])
  qed (use assms operation.stored_after_trans operation.stored_after.same in blast)+
qed

theorem operation_pass_ends_in_history_witness:
  "let w = \<lparr>w_stored = Some ex_copy, w_others = [], w_log = []\<rparr>;
       pass = reconcile_operation_namespace 4 ex_copy_env w
   in fst pass = Inr (Some Progressed) \<and>
      (\<exists>r'. w_stored (snd pass) = Some r' \<and> operation.stored_after ex_copy r')"
proof -
  let ?w = "\<lparr>w_stored = Some ex_copy, w_others = [], w_log = []\<rparr> :: operation_record world"
  let ?pass = "reconcile_operation_namespace 4 ex_copy_env ?w"
  have v: "validate_operation_record_update None ex_copy = Inr ()" by code_simp
  have s: "stored_operation ex_copy"
    unfolding stored_operation_def operation_accepts_def using v by blast
  have e: "fst ?pass = Inr (Some Progressed)" by code_simp
  from operation_pass_ends_in_history [of ?w ex_copy 4 ex_copy_env] s
  have "\<exists>r'. w_stored (snd ?pass) = Some r' \<and> operation.stored_after ex_copy r'" by simp
  with e show ?thesis by (simp add: Let_def)
qed

section \<open>Resending\<close>

text \<open>The answers to one request sent again and again while the server says the source is behind; each
  submission reads the clock twice, and the record notes since when it waits.\<close>

fun resend ::
  "operation_record \<Rightarrow> namespace_request \<Rightarrow> js_error \<Rightarrow> (int \<times> int) list \<Rightarrow>
     namespace_outcome option result list" where
  "resend r q e [] = []"
| "resend r q e ((asked, checked) # later) =
     (let (answer, write) = copy_submission (Some r) asked checked q (Inl e)
      in answer # resend (case write of None \<Rightarrow> r | Some w \<Rightarrow> ow_next w) q e later)"

lemma resend_noted:
  "op_behindSince r = Some since \<Longrightarrow> resend r q (SourceBehindError code message again) later =
     map (\<lambda>(_, checked). if checked - since < source_behind_bound_ms then Inr None
       else Inr (Some (RefusalOutcome (namespace_request_id q)
         \<lparr>me_code = code, me_message = message, me_retryable = False\<rparr>))) later"
  by (induction later) (auto simp: copy_submission_def Let_def)

text \<open>C23: A Copy whose source stays behind is resent for 120 seconds from its first submission and no longer:
  every submission checked before that is left uncertain, every one checked at or after it is refused,
  and the refusal is an answer its attempt takes.\<close>

theorem copy_resending_bounded:
  assumes "op_behindSince r = None" and "checked - asked < source_behind_bound_ms"
  shows "resend r q (SourceBehindError code message again) ((asked, checked) # later) =
     Inr None # map (\<lambda>(_, now). if now < asked + 120000 then Inr None
       else Inr (Some (RefusalOutcome (namespace_request_id q)
         \<lparr>me_code = code, me_message = message, me_retryable = False\<rparr>))) later \<and>
     (\<forall>a. att_request a = q \<longrightarrow> namespace_outcome_matches a (RefusalOutcome (namespace_request_id q)
        \<lparr>me_code = code, me_message = message, me_retryable = False\<rparr>))"
proof -
  have "(now - asked < source_behind_bound_ms) = (now < asked + 120000)" for now
    by (auto simp: source_behind_bound_ms_def)
  then show ?thesis
    using assms by (simp add: copy_submission_def Let_def resend_noted namespace_outcome_matches_def)
qed

theorem copy_resending_bounded_witness:
  "resend ex_copy ex_create (SourceBehindError ''behind'' [] True) [(0, 1), (60000, 60001), (120000, 120000)] =
     [Inr None, Inr None, Inr (Some (RefusalOutcome ''d1''
        \<lparr>me_code = ''behind'', me_message = [], me_retryable = False\<rparr>))]"
  using copy_resending_bounded [of ex_copy 1 0 ex_create "''behind''" "[]" True "[(60000, 60001), (120000, 120000)]"]
  by (simp add: ex_copy_def source_behind_bound_ms_def ex_create_def)

end
