(* ===== verification/Sibling_Order.thy ===== *)
theory Sibling_Order
  imports Resource_Authority
begin

text \<open>
  The order of a parent's children (\<^verbatim>\<open>sibling-order.ts\<close>): by stored rank under a manually ordered
  parent, folders first and then by name otherwise, the entry id breaking ties. The collator of
  names, \<^verbatim>\<open>Intl.Collator\<close>, is a parameter; that it is a comparator is its documented behaviour.
\<close>

section \<open>Comparators\<close>

text \<open>What \<^verbatim>\<open>Array.prototype.sort\<close> asks of a comparison, and what sorting by one gives.\<close>

locale comparator =
  fixes cmp :: "'a \<Rightarrow> 'a \<Rightarrow> int"
  assumes swap: "sgn (cmp y x) = - sgn (cmp x y)"
    and trans_le: "cmp x y \<le> 0 \<Longrightarrow> cmp y z \<le> 0 \<Longrightarrow> cmp x z \<le> 0"
begin

lemma total: "cmp x y \<le> 0 \<or> cmp y x \<le> 0"
  using swap [of y x] by (auto simp: sgn_if split: if_splits)

lemma same [simp]: "cmp x x = 0"
  using swap [of x x] by (auto simp: sgn_if split: if_splits)

lemma zero_swap: "cmp x y = 0 \<longleftrightarrow> cmp y x = 0"
  using swap [of y x] by (auto simp: sgn_if split: if_splits)

lemma le_both: "cmp x y \<le> 0 \<Longrightarrow> cmp y x \<le> 0 \<Longrightarrow> cmp x y = 0"
  using swap [of y x] by (auto simp: sgn_if split: if_splits)

lemma less_swap: "0 < cmp x y \<longleftrightarrow> cmp y x < 0"
  using swap [of y x] by (auto simp: sgn_if split: if_splits)

end

text \<open>A stable sort by a comparison.\<close>

fun insert_with :: "('a \<Rightarrow> 'a \<Rightarrow> int) \<Rightarrow> 'a \<Rightarrow> 'a list \<Rightarrow> 'a list" where
  "insert_with cmp x [] = [x]"
| "insert_with cmp x (y # ys) = (if cmp x y \<le> 0 then x # y # ys else y # insert_with cmp x ys)"

definition sort_with :: "('a \<Rightarrow> 'a \<Rightarrow> int) \<Rightarrow> 'a list \<Rightarrow> 'a list" where
  "sort_with cmp xs = foldr (insert_with cmp) xs []"

lemma set_insert_with [simp]: "set (insert_with cmp x xs) = insert x (set xs)"
  by (induction xs) auto

lemma set_sort_with [simp]: "set (sort_with cmp xs) = set xs"
  by (induction xs) (auto simp: sort_with_def)

lemma distinct_insert_with: "distinct (insert_with cmp x xs) \<longleftrightarrow> x \<notin> set xs \<and> distinct xs"
  by (induction xs) auto

lemma distinct_sort_with [simp]: "distinct (sort_with cmp xs) = distinct xs"
proof (induction xs)
  case (Cons x xs)
  then show ?case using set_sort_with [of cmp xs] by (simp add: sort_with_def distinct_insert_with)
qed (simp add: sort_with_def)

lemma length_sort_with [simp]: "length (sort_with cmp xs) = length xs"
proof -
  have "length (insert_with cmp x ys) = Suc (length ys)" for x ys by (induction ys) auto
  then show ?thesis by (induction xs) (simp_all add: sort_with_def)
qed

context comparator
begin

lemma insert_sorted:
  "sorted_wrt (\<lambda>x y. cmp x y \<le> 0) xs \<Longrightarrow> sorted_wrt (\<lambda>x y. cmp x y \<le> 0) (insert_with cmp x xs)"
proof (induction xs)
  case (Cons y ys)
  then show ?case using total [of x y] by (auto intro: trans_le)
qed simp

lemma sort_sorted: "sorted_wrt (\<lambda>x y. cmp x y \<le> 0) (sort_with cmp xs)"
  by (induction xs) (simp_all add: sort_with_def insert_sorted)

text \<open>Without ties, the order of the rows does not depend on the order they came in.\<close>

lemma sorted_unique:
  assumes "sorted_wrt (\<lambda>x y. cmp x y \<le> 0) xs" and "sorted_wrt (\<lambda>x y. cmp x y \<le> 0) ys"
    and "distinct xs" and "distinct ys" and "set xs = set ys"
    and ties: "\<And>x y. x \<in> set xs \<Longrightarrow> y \<in> set xs \<Longrightarrow> cmp x y = 0 \<Longrightarrow> x = y"
  shows "xs = ys"
  using assms
proof (induction xs arbitrary: ys)
  case (Cons x xs)
  then obtain y zs where ys: "ys = y # zs" by (cases ys) auto
  have y: "y \<in> set (x # xs)" and x: "x \<in> set (y # zs)" using Cons.prems(5) ys by auto
  have "cmp x y \<le> 0" using Cons.prems(1) y by auto
  moreover have "cmp y x \<le> 0" using Cons.prems(2) ys x by auto
  moreover note y
  ultimately have "x = y" using Cons.prems(6) [of x y] le_both by simp
  moreover have "set xs = set zs" using Cons.prems(3-5) ys \<open>x = y\<close> by auto
  then have "xs = zs" using Cons.IH [of zs] Cons.prems ys by simp
  ultimately show ?case using ys by simp
qed simp

end

section \<open>Comparisons of siblings\<close>

definition compare_text :: "string \<Rightarrow> string \<Rightarrow> int" where
  "compare_text left right = (if left < right then - 1 else if left > right then 1 else 0)"

interpretation bytes: comparator compare_text
  by unfold_locales (auto simp: compare_text_def split: if_splits)

record default_sibling =
  ds_kind :: entry_kind
  ds_name :: string
  ds_identity :: string

definition compare_default_siblings ::
  "(string \<Rightarrow> string \<Rightarrow> int) \<Rightarrow> default_sibling \<Rightarrow> default_sibling \<Rightarrow> int" where
  "compare_default_siblings collate left right =
     (if ds_kind left \<noteq> ds_kind right then (if ds_kind left = FolderKind then - 1 else 1)
      else let byName = collate (ds_name left) (ds_name right)
           in if byName \<noteq> 0 then byName else compare_text (ds_identity left) (ds_identity right))"

record ranked_sibling =
  rs_kind :: entry_kind
  rs_name :: string
  rs_rank :: "string option option"
  rs_entryId :: string

definition rank_text :: "ranked_sibling \<Rightarrow> string" where
  "rank_text s = (case rs_rank s of Some (Some r) \<Rightarrow> r | _ \<Rightarrow> [])"

definition default_of :: "ranked_sibling \<Rightarrow> default_sibling" where
  "default_of s = \<lparr>ds_kind = rs_kind s, ds_name = rs_name s, ds_identity = rs_entryId s\<rparr>"

definition compare_catalog_siblings ::
  "(string \<Rightarrow> string \<Rightarrow> int) \<Rightarrow> bool \<Rightarrow> ranked_sibling \<Rightarrow> ranked_sibling \<Rightarrow> int" where
  "compare_catalog_siblings collate manual left right =
     (if manual
      then (if rank_text left \<noteq> rank_text right then (if rank_text left < rank_text right then - 1 else 1)
            else compare_text (rs_entryId left) (rs_entryId right))
      else compare_default_siblings collate (default_of left) (default_of right))"

section \<open>Both orders are comparators\<close>

text \<open>Ties broken by a second comparison, and a comparison of parts.\<close>

lemma comparator_lex:
  assumes f: "comparator f" and g: "comparator g"
  shows "comparator (\<lambda>x y. if f x y \<noteq> 0 then f x y else g x y)"
proof
  fix x y z
  show "sgn (if f y x \<noteq> 0 then f y x else g y x) = - sgn (if f x y \<noteq> 0 then f x y else g x y)"
    using comparator.swap [OF f, of y x] comparator.swap [OF g, of y x]
      comparator.zero_swap [OF f, of x y] by simp
  assume a: "(if f x y \<noteq> 0 then f x y else g x y) \<le> 0" "(if f y z \<noteq> 0 then f y z else g y z) \<le> 0"
  then have le: "f x y \<le> 0" "f y z \<le> 0" by (auto split: if_splits)
  note xz = comparator.trans_le [OF f le]
  show "(if f x z \<noteq> 0 then f x z else g x z) \<le> 0"
  proof (cases "f x z = 0")
    case True
    then have zx: "f z x \<le> 0" using comparator.zero_swap [OF f, of x z] by simp
    have "f x y = 0" using comparator.le_both [OF f le(1)] comparator.trans_le [OF f le(2) zx] by simp
    moreover have "f y z = 0"
      using comparator.le_both [OF f le(2)] comparator.trans_le [OF f zx le(1)] by simp
    ultimately show ?thesis using a True comparator.trans_le [OF g, of x y z] by simp
  qed (use xz in simp)
qed

lemma comparator_on: "comparator f \<Longrightarrow> comparator (\<lambda>x y. f (h x) (h y))"
  by (unfold comparator_def) blast

definition compare_kinds :: "entry_kind \<Rightarrow> entry_kind \<Rightarrow> int" where
  "compare_kinds k l = (if k = l then 0 else if k = FolderKind then - 1 else 1)"

interpretation kinds: comparator compare_kinds
proof
  fix x y z :: entry_kind
  show "sgn (compare_kinds y x) = - sgn (compare_kinds x y)"
    by (cases x; cases y) (simp_all add: compare_kinds_def)
  show "compare_kinds x z \<le> 0" if "compare_kinds x y \<le> 0" "compare_kinds y z \<le> 0"
    using that by (cases x; cases y; cases z) (simp_all add: compare_kinds_def)
qed

lemma default_siblings_comparator:
  assumes "comparator collate"
  shows "comparator (compare_default_siblings collate)"
proof -
  have "compare_default_siblings collate = (\<lambda>x y.
      if compare_kinds (ds_kind x) (ds_kind y) \<noteq> 0 then compare_kinds (ds_kind x) (ds_kind y)
      else if collate (ds_name x) (ds_name y) \<noteq> 0 then collate (ds_name x) (ds_name y)
      else compare_text (ds_identity x) (ds_identity y))"
    by (intro ext) (simp add: compare_default_siblings_def compare_kinds_def Let_def)
  then show ?thesis
    using comparator_lex [OF comparator_on [OF kinds.comparator_axioms]
        comparator_lex [OF comparator_on [OF assms] comparator_on [OF bytes.comparator_axioms]]]
    by simp
qed

lemma catalog_siblings_comparator:
  assumes "comparator collate"
  shows "comparator (compare_catalog_siblings collate manual)"
proof (cases manual)
  case True
  have "compare_catalog_siblings collate manual = (\<lambda>x y.
      if compare_text (rank_text x) (rank_text y) \<noteq> 0 then compare_text (rank_text x) (rank_text y)
      else compare_text (rs_entryId x) (rs_entryId y))"
    by (intro ext) (auto simp: compare_catalog_siblings_def compare_text_def True)
  then show ?thesis
    using comparator_lex [OF comparator_on [OF bytes.comparator_axioms] comparator_on [OF bytes.comparator_axioms]]
    by simp
next
  case False
  then have "compare_catalog_siblings collate manual =
      (\<lambda>x y. compare_default_siblings collate (default_of x) (default_of y))"
    by (intro ext) (simp add: compare_catalog_siblings_def)
  with comparator_on [OF default_siblings_comparator [OF assms]] show ?thesis by simp
qed

lemma compare_text_zero [simp]: "compare_text x y = 0 \<longleftrightarrow> x = y"
  by (auto simp: compare_text_def)

lemma siblings_tie:
  "compare_catalog_siblings collate manual x y = 0 \<Longrightarrow> rs_entryId x = rs_entryId y"
  by (auto simp: compare_catalog_siblings_def compare_default_siblings_def default_of_def Let_def
      split: if_splits)

end
