(* ===== verification/Catalog_View.thy ===== *)
theory Catalog_View
  imports Sibling_Order
begin

text \<open>
  The installed server catalog (\<^verbatim>\<open>context-catalog.ts\<close>, \<^verbatim>\<open>catalog-scope.ts\<close>, \<^verbatim>\<open>catalog.ts\<close>): scopes
  and entries, the view indexed by parent and scheme, and the replay of whole commits over it.
\<close>

section \<open>Scopes\<close>

fun catalog_scope_key :: "catalog_scope \<Rightarrow> string" where
  "catalog_scope_key (ProjectScope p) = ''project:'' @ p"
| "catalog_scope_key (UserScope u) = ''user:'' @ u"
| "catalog_scope_key (LineageScope p t) = ''lineage:'' @ p @ '':'' @ t"
| "catalog_scope_key (ChatScope p c) = ''chat:'' @ p @ '':'' @ c"
| "catalog_scope_key (WorkScope p w) = ''work:'' @ p @ '':'' @ w"

fun is_user_scope :: "catalog_scope \<Rightarrow> bool" where
  "is_user_scope (UserScope _) = True"
| "is_user_scope _ = False"

fun scope_project :: "catalog_scope \<Rightarrow> string option" where
  "scope_project (ProjectScope p) = Some p"
| "scope_project (UserScope _) = None"
| "scope_project (LineageScope p _) = Some p"
| "scope_project (ChatScope p _) = Some p"
| "scope_project (WorkScope p _) = Some p"

text \<open>\<^verbatim>\<open>JSON.stringify\<close> of a string: quotes, backslashes and control characters are escaped.\<close>

definition hex_digit :: "nat \<Rightarrow> char" where
  "hex_digit n = char_of (if n < 10 then 48 + n else 87 + n)"

definition json_char :: "char \<Rightarrow> string" where
  "json_char c =
     (let n = (of_char c :: nat) in
      if n = 34 \<or> n = 92 then [CHR 0x5C, c]
      else if n = 8 then [CHR 0x5C, CHR ''b'']
      else if n = 9 then [CHR 0x5C, CHR ''t'']
      else if n = 10 then [CHR 0x5C, CHR ''n'']
      else if n = 12 then [CHR 0x5C, CHR ''f'']
      else if n = 13 then [CHR 0x5C, CHR ''r'']
      else if n < 32 then [CHR 0x5C, CHR ''u'', CHR ''0'', CHR ''0'', hex_digit (n div 16), hex_digit (n mod 16)]
      else [c])"

definition json_string :: "string \<Rightarrow> string" where
  "json_string s = CHR 0x22 # concat (map json_char s) @ [CHR 0x22]"

definition catalog_projection_key :: "string \<Rightarrow> catalog_scope \<Rightarrow> string" where
  "catalog_projection_key projectId scope =
     ''['' @ json_string projectId @ '','' @
       json_string (if is_user_scope scope then ''user'' else catalog_scope_key scope) @ '']''"

definition same_catalog_projection_scope :: "catalog_scope \<Rightarrow> catalog_scope \<Rightarrow> bool" where
  "same_catalog_projection_scope left right \<longleftrightarrow>
     (if is_user_scope left \<and> is_user_scope right then True
      else catalog_scope_key left = catalog_scope_key right)"

definition same_catalog_scope :: "catalog_scope \<Rightarrow> catalog_scope \<Rightarrow> bool" where
  "same_catalog_scope left right \<longleftrightarrow> catalog_scope_key left = catalog_scope_key right"

definition catalog_scope_belongs_to_project :: "string \<Rightarrow> catalog_scope \<Rightarrow> bool" where
  "catalog_scope_belongs_to_project projectId scope \<longleftrightarrow>
     is_user_scope scope \<or> scope_project scope = Some projectId"

definition catalog_request_belongs_to_project :: "string \<Rightarrow> catalog_scope \<Rightarrow> bool" where
  "catalog_request_belongs_to_project projectId scope \<longleftrightarrow>
     catalog_scope_belongs_to_project projectId scope \<and>
     (case scope of UserScope u \<Rightarrow> u = ''self'' | _ \<Rightarrow> True)"

definition catalog_response_matches_request ::
  "string \<Rightarrow> catalog_scope \<Rightarrow> catalog_scope \<Rightarrow> bool" where
  "catalog_response_matches_request accountId requested received \<longleftrightarrow>
     (case requested of
        UserScope _ \<Rightarrow> (case received of UserScope u \<Rightarrow> u = accountId | _ \<Rightarrow> False)
      | _ \<Rightarrow> catalog_scope_key requested = catalog_scope_key received)"

section \<open>Entries\<close>

record catalog_authority =
  ca_entryId :: string
  ca_projectId :: string
  ca_workId :: string
  ca_workHandle :: "string option"
  ca_name :: string
  ca_available :: bool
  ca_entityRevision :: string

record catalog_source =
  cs_entryId :: string
  cs_scope :: catalog_scope
  cs_scheme :: context_scheme
  cs_name :: string
  cs_uri :: string
  cs_orderPolicy :: "order_policy option"

record catalog_folder =
  cfo_observationVersion :: string
  cfo_locationVersion :: "string option"
  cfo_entryId :: string
  cfo_scope :: catalog_scope
  cfo_sourceId :: string
  cfo_parentId :: string
  cfo_name :: string
  cfo_path :: "string list"
  cfo_uri :: string
  cfo_hasChildren :: bool
  cfo_rank :: "string option option"
  cfo_orderPolicy :: "order_policy option"
  cfo_navigationOnly :: bool

record upload_entry =
  up_attachedAt :: string
  up_used :: bool
  up_intakeId :: string
  up_locationRevision :: string

record catalog_file =
  cfi_observationVersion :: string
  cfi_locationVersion :: "string option"
  cfi_entryId :: string
  cfi_scope :: catalog_scope
  cfi_sourceId :: string
  cfi_parentId :: string
  cfi_name :: string
  cfi_aliases :: "string list"
  cfi_path :: "string list"
  cfi_uri :: string
  cfi_provisionalName :: bool
  cfi_hasProperties :: "bool option"
  cfi_rank :: "string option option"
  cfi_joinedFrom :: "string list option"
  cfi_upload :: "upload_entry option"
  cfi_classification :: file_classification

datatype catalog_entry =
    AuthorityEntry catalog_authority
  | SourceEntry catalog_source
  | FolderEntry catalog_folder
  | FileEntry catalog_file

fun entry_id :: "catalog_entry \<Rightarrow> string" where
  "entry_id (AuthorityEntry e) = ca_entryId e"
| "entry_id (SourceEntry e) = cs_entryId e"
| "entry_id (FolderEntry e) = cfo_entryId e"
| "entry_id (FileEntry e) = cfi_entryId e"

text \<open>The parent of a folder or a file; other entries are nobody's child.\<close>

fun entry_parent :: "catalog_entry \<Rightarrow> string option" where
  "entry_parent (FolderEntry e) = Some (cfo_parentId e)"
| "entry_parent (FileEntry e) = Some (cfi_parentId e)"
| "entry_parent _ = None"

fun ranked :: "catalog_entry \<Rightarrow> ranked_sibling option" where
  "ranked (FolderEntry e) = Some \<lparr>rs_kind = FolderKind, rs_name = cfo_name e, rs_rank = cfo_rank e,
     rs_entryId = cfo_entryId e\<rparr>"
| "ranked (FileEntry e) = Some \<lparr>rs_kind = FileKind, rs_name = cfi_name e, rs_rank = cfi_rank e,
     rs_entryId = cfi_entryId e\<rparr>"
| "ranked _ = None"

fun is_manual_parent :: "catalog_entry option \<Rightarrow> bool" where
  "is_manual_parent (Some (SourceEntry e)) = (cs_orderPolicy e = Some ManualOrder)"
| "is_manual_parent (Some (FolderEntry e)) = (cfo_orderPolicy e = Some ManualOrder)"
| "is_manual_parent _ = False"

section \<open>Entry maps\<close>

text \<open>A \<^verbatim>\<open>Map\<close> from entry id to entry, in insertion order.\<close>

type_synonym entry_map = "catalog_entry list"

definition entries_get :: "string \<Rightarrow> entry_map \<Rightarrow> catalog_entry option" where
  "entries_get k m = find (\<lambda>e. entry_id e = k) m"

definition entries_set :: "catalog_entry \<Rightarrow> entry_map \<Rightarrow> entry_map" where
  "entries_set e m =
     (if list_ex (\<lambda>x. entry_id x = entry_id e) m
      then map (\<lambda>x. if entry_id x = entry_id e then e else x) m else m @ [e])"

definition entries_delete :: "string \<Rightarrow> entry_map \<Rightarrow> entry_map" where
  "entries_delete k m = filter (\<lambda>x. entry_id x \<noteq> k) m"

definition entries_of :: "catalog_entry list \<Rightarrow> entry_map" where
  "entries_of es = foldl (\<lambda>m e. entries_set e m) [] es"

section \<open>Views\<close>

record catalog_view =
  cv_scope :: catalog_scope
  cv_generation :: string
  cv_appliedRevision :: string
  cv_observedHeadRevision :: string
  cv_cursor :: string
  cv_entries :: entry_map
  cv_childIds :: "(string \<times> string list) list"
  cv_sourceIds :: "(context_scheme \<times> string) list"

definition empty_catalog_view :: "catalog_scope \<Rightarrow> catalog_view" where
  "empty_catalog_view scope =
     \<lparr>cv_scope = scope, cv_generation = [], cv_appliedRevision = ''0'',
      cv_observedHeadRevision = ''0'', cv_cursor = [], cv_entries = [], cv_childIds = [],
      cv_sourceIds = []\<rparr>"

text \<open>Keys in the order they were first set, each with its last value.\<close>

fun assoc_set :: "'k \<Rightarrow> 'v \<Rightarrow> ('k \<times> 'v) list \<Rightarrow> ('k \<times> 'v) list" where
  "assoc_set k v [] = [(k, v)]"
| "assoc_set k v ((j, w) # rest) = (if j = k then (k, v) # rest else (j, w) # assoc_set k v rest)"

definition child_groups :: "entry_map \<Rightarrow> (string \<times> string list) list" where
  "child_groups entries =
     foldl (\<lambda>groups e. case entry_parent e of
         None \<Rightarrow> groups
       | Some p \<Rightarrow> assoc_set p ((case map_of groups p of None \<Rightarrow> [] | Some ids \<Rightarrow> ids) @ [entry_id e]) groups)
       [] entries"

definition source_ids :: "entry_map \<Rightarrow> (context_scheme \<times> string) list" where
  "source_ids entries =
     foldl (\<lambda>m e. case e of SourceEntry s \<Rightarrow> assoc_set (cs_scheme s) (cs_entryId s) m | _ \<Rightarrow> m) [] entries"

definition compare_children ::
  "(string \<Rightarrow> string \<Rightarrow> int) \<Rightarrow> entry_map \<Rightarrow> bool \<Rightarrow> string \<Rightarrow> string \<Rightarrow> int" where
  "compare_children collate entries manual leftId rightId =
     (case (entries_get leftId entries, entries_get rightId entries) of
        (Some left, Some right) \<Rightarrow> (case (ranked left, ranked right) of
            (Some l, Some r) \<Rightarrow> compare_catalog_siblings collate manual l r
          | _ \<Rightarrow> 0)
      | _ \<Rightarrow> compare_text leftId rightId)"

text \<open>An empty id is a false condition in the source, so it finds no entry here.\<close>

definition entry_at :: "string \<Rightarrow> entry_map \<Rightarrow> catalog_entry option" where
  "entry_at k entries = (if k = [] then None else entries_get k entries)"

definition manual_group :: "entry_map \<Rightarrow> string list \<Rightarrow> bool" where
  "manual_group entries ids =
     (case ids of
        [] \<Rightarrow> is_manual_parent None
      | first # _ \<Rightarrow> is_manual_parent
          (Option.bind (Option.bind (entry_at first entries) entry_parent) (\<lambda>p. entry_at p entries)))"

definition index_catalog_view ::
  "(string \<Rightarrow> string \<Rightarrow> int) \<Rightarrow> catalog_view \<Rightarrow> catalog_view" where
  "index_catalog_view collate view =
     view\<lparr>cv_childIds := map (\<lambda>(p, ids).
            (p, sort_with (compare_children collate (cv_entries view) (manual_group (cv_entries view) ids)) ids))
          (child_groups (cv_entries view)),
          cv_sourceIds := source_ids (cv_entries view)\<rparr>"

record catalog_snapshot =
  csn_scope :: catalog_scope
  csn_generation :: string
  csn_headRevision :: string
  csn_cursor :: string
  csn_entries :: "catalog_entry list"

definition catalog_view_from_snapshot ::
  "(string \<Rightarrow> string \<Rightarrow> int) \<Rightarrow> catalog_snapshot \<Rightarrow> catalog_view" where
  "catalog_view_from_snapshot collate snapshot =
     index_catalog_view collate
       \<lparr>cv_scope = csn_scope snapshot, cv_generation = csn_generation snapshot,
        cv_appliedRevision = csn_headRevision snapshot,
        cv_observedHeadRevision = csn_headRevision snapshot, cv_cursor = csn_cursor snapshot,
        cv_entries = entries_of (csn_entries snapshot), cv_childIds = [], cv_sourceIds = []\<rparr>"

definition catalog_children :: "catalog_view \<Rightarrow> string \<Rightarrow> catalog_entry list" where
  "catalog_children view parentId =
     List.map_filter (\<lambda>k. entries_get k (cv_entries view))
       (case map_of (cv_childIds view) parentId of None \<Rightarrow> [] | Some ids \<Rightarrow> ids)"

definition catalog_files :: "catalog_view \<Rightarrow> catalog_file list" where
  "catalog_files view =
     List.map_filter (\<lambda>e. case e of FileEntry f \<Rightarrow> Some f | _ \<Rightarrow> None) (cv_entries view)"

text \<open>What the store keeps of an installed view, for one project.\<close>

record catalog_checkpoint =
  cp_scope :: catalog_scope
  cp_generation :: string
  cp_appliedRevision :: string
  cp_observedHeadRevision :: string
  cp_cursor :: string
  cp_projectId :: string
  cp_revision :: int
  cp_entries :: "catalog_entry list"

section \<open>Commits\<close>

datatype catalog_change_op =
    Upsert catalog_entry
  | DeleteEntryId string
  | InvalidateSubtree string

record catalog_change =
  cch_ordinal :: int
  cch_op :: catalog_change_op

record catalog_commit =
  cc_eventId :: string
  cc_commitId :: string
  cc_firstRevision :: string
  cc_lastRevision :: string
  cc_changes :: "catalog_change list"

record catalog_delta =
  cd_scope :: catalog_scope
  cd_commits :: "catalog_commit list"
  cd_nextCursor :: string
  cd_headRevision :: string
  cd_hasMore :: bool

datatype reset_reason = Expired | Gap | ScopeChanged

datatype catalog_changes = Delta catalog_delta | ResetRequired catalog_scope reset_reason

text \<open>
  \<^verbatim>\<open>descendants\<close>: passes over the entries, each adding the children of what is already collected,
  until a pass adds nothing.
\<close>

definition descend_pass :: "entry_map \<Rightarrow> string set \<Rightarrow> string set" where
  "descend_pass entries invalid =
     foldl (\<lambda>collected e. case entry_parent e of
         Some p \<Rightarrow> if p \<in> collected \<and> entry_id e \<notin> collected then insert (entry_id e) collected
                    else collected
       | None \<Rightarrow> collected) invalid entries"

lemma descend_pass_Cons:
  "descend_pass (e # es) invalid = descend_pass es (case entry_parent e of
     Some p \<Rightarrow> if p \<in> invalid then insert (entry_id e) invalid else invalid | None \<Rightarrow> invalid)"
  by (auto simp: descend_pass_def insert_absorb split: option.splits)

lemma descend_pass_grows: "invalid \<subseteq> descend_pass es invalid"
proof (induction es arbitrary: invalid)
  case (Cons e es)
  have "invalid \<subseteq> (case entry_parent e of
     Some p \<Rightarrow> if p \<in> invalid then insert (entry_id e) invalid else invalid | None \<Rightarrow> invalid)"
    by (auto split: option.splits)
  with Cons.IH show ?case unfolding descend_pass_Cons by blast
qed (simp add: descend_pass_def)

lemma descend_pass_ids: "descend_pass es invalid \<subseteq> invalid \<union> entry_id ` set es"
proof (induction es arbitrary: invalid)
  case (Cons e es)
  have "(case entry_parent e of Some p \<Rightarrow> if p \<in> invalid then insert (entry_id e) invalid else invalid
      | None \<Rightarrow> invalid) \<subseteq> insert (entry_id e) invalid" by (auto split: option.splits)
  with Cons.IH [of "case entry_parent e of Some p \<Rightarrow> if p \<in> invalid then insert (entry_id e) invalid
      else invalid | None \<Rightarrow> invalid"] show ?case unfolding descend_pass_Cons by auto
qed (simp add: descend_pass_def)

function descend :: "entry_map \<Rightarrow> string set \<Rightarrow> string set" where
  "descend entries invalid =
     (let next' = descend_pass entries invalid
      in if next' = invalid then invalid else descend entries next')"
  by auto
termination
proof (relation "measure (\<lambda>(es, invalid). card (entry_id ` set es - invalid))")
  fix entries :: entry_map and invalid x
  assume x: "x = descend_pass entries invalid" "x \<noteq> invalid"
  then obtain k where "k \<in> x" "k \<notin> invalid" using descend_pass_grows [of invalid entries] by blast
  moreover then have "k \<in> entry_id ` set entries" using descend_pass_ids [of entries invalid] x by blast
  ultimately have "entry_id ` set entries - x \<subset> entry_id ` set entries - invalid"
    using descend_pass_grows [of invalid entries] x by blast
  then have "card (entry_id ` set entries - x) < card (entry_id ` set entries - invalid)"
    by (intro psubset_card_mono) auto
  then show "((entries, x), entries, invalid) \<in> measure (\<lambda>(es, invalid). card (entry_id ` set es - invalid))"
    by simp
qed simp

declare descend.simps [simp del]

definition descendants :: "entry_map \<Rightarrow> string \<Rightarrow> string set" where
  "descendants entries rootId = descend entries {rootId}"

fun apply_change :: "entry_map \<Rightarrow> catalog_change_op \<Rightarrow> entry_map" where
  "apply_change entries (Upsert e) = entries_set e entries"
| "apply_change entries (DeleteEntryId k) = entries_delete k entries"
| "apply_change entries (InvalidateSubtree root) =
     (let gone = descendants entries root in filter (\<lambda>x. entry_id x \<notin> gone) entries)"

definition apply_commit :: "entry_map \<Rightarrow> catalog_commit \<Rightarrow> entry_map" where
  "apply_commit entries commit =
     foldl (\<lambda>es c. apply_change es (cch_op c)) entries (sort_key cch_ordinal (cc_changes commit))"

definition catalog_revision :: "string \<Rightarrow> int option" where
  "catalog_revision value' =
     (case big_int value' of None \<Rightarrow> None | Some v \<Rightarrow> if v \<ge> 0 then Some v else None)"

fun apply_commits :: "catalog_view \<Rightarrow> catalog_commit list \<Rightarrow> catalog_view option" where
  "apply_commits view [] = Some view"
| "apply_commits view (commit # rest) =
     (case (catalog_revision (cc_firstRevision commit), catalog_revision (cc_lastRevision commit),
            catalog_revision (cv_appliedRevision view)) of
        (Some first, Some last', Some applied) \<Rightarrow>
          if last' \<le> applied then apply_commits view rest
          else if first \<noteq> applied + 1 \<or> last' < first then None
          else apply_commits
                 (view\<lparr>cv_entries := apply_commit (cv_entries view) commit,
                       cv_appliedRevision := cc_lastRevision commit\<rparr>) rest
      | _ \<Rightarrow> None)"

text \<open>
  Scopes are compared as \<^verbatim>\<open>JSON.stringify\<close> spells them, the keys of both in the order the protocol
  writes them.
\<close>

definition apply_catalog_changes ::
  "(string \<Rightarrow> string \<Rightarrow> int) \<Rightarrow> catalog_view \<Rightarrow> catalog_changes \<Rightarrow> catalog_view option" where
  "apply_catalog_changes collate current changes =
     (case changes of
        ResetRequired _ _ \<Rightarrow> None
      | Delta d \<Rightarrow>
          if cd_scope d \<noteq> cv_scope current then None
          else (case apply_commits current (cd_commits d) of
              None \<Rightarrow> None
            | Some view \<Rightarrow>
                (case (catalog_revision (cd_headRevision d), catalog_revision (cv_appliedRevision view),
                       catalog_revision (cv_observedHeadRevision current)) of
                   (Some head, Some applied, Some observed) \<Rightarrow>
                     if head < applied \<or> head < observed \<or> (\<not> cd_hasMore d \<and> head \<noteq> applied) then None
                     else Some (index_catalog_view collate
                       (view\<lparr>cv_cursor := cd_nextCursor d, cv_observedHeadRevision := cd_headRevision d,
                             cv_childIds := [], cv_sourceIds := []\<rparr>))
                 | _ \<Rightarrow> None)))"

section \<open>Facts about keys\<close>

text \<open>Reading one character back: no spelling of a character is the start of another.\<close>

definition hex_value :: "char \<Rightarrow> nat" where
  "hex_value c = (let n = (of_char c :: nat) in if n < 58 then n - 48 else n - 87)"

definition json_head :: "string \<Rightarrow> char \<times> string" where
  "json_head s =
     (if hd s \<noteq> CHR 0x5C then (hd s, tl s)
      else let e = hd (tl s); r = tl (tl s)
        in if e = CHR ''b'' then (CHR 0x08, r)
           else if e = CHR ''t'' then (CHR 0x09, r)
           else if e = CHR ''n'' then (CHR 0x0A, r)
           else if e = CHR ''f'' then (CHR 0x0C, r)
           else if e = CHR ''r'' then (CHR 0x0D, r)
           else if e = CHR ''u''
             then (char_of (16 * hex_value (r ! 2) + hex_value (r ! 3)), drop 4 r)
           else (e, r))"

lemma hex_value_digit: "k < 16 \<Longrightarrow> hex_value (hex_digit k) = k"
  by (simp add: hex_value_def hex_digit_def Let_def)

lemma char_codes:
  "char_of (34 :: nat) = CHR 0x22" "char_of (92 :: nat) = CHR 0x5C" "char_of (8 :: nat) = CHR 0x08"
  "char_of (9 :: nat) = CHR 0x09" "char_of (10 :: nat) = CHR 0x0A" "char_of (12 :: nat) = CHR 0x0C"
  "char_of (13 :: nat) = CHR 0x0D"
  by code_simp+

lemma json_head_char: "json_head (json_char c @ r) = (c, r)"
proof -
  define n where "n = (of_char c :: nat)"
  have c: "char_of n = c" by (simp add: n_def)
  consider "n = 34 \<or> n = 92" | "n \<in> {8, 9, 10, 12, 13}"
    | "n < 32" "n \<notin> {8, 9, 10, 12, 13}" | "32 \<le> n" "n \<noteq> 34" "n \<noteq> 92" by fastforce
  then show ?thesis
  proof cases
    case 1
    then have "json_char c = [CHR 0x5C, c]" by (simp add: json_char_def n_def)
    moreover have "c = CHR 0x22 \<or> c = CHR 0x5C" using 1 c char_codes by auto
    ultimately show ?thesis by (auto simp: json_head_def)
  next
    case 2
    then have "c \<in> {CHR 0x08, CHR 0x09, CHR 0x0A, CHR 0x0C,
        CHR 0x0D}" using c char_codes by auto
    then show ?thesis by (auto simp: json_char_def json_head_def)
  next
    case 3
    then have "json_char c = [CHR 0x5C, CHR ''u'', CHR ''0'', CHR ''0'', hex_digit (n div 16),
        hex_digit (n mod 16)]" unfolding json_char_def n_def [symmetric] Let_def by simp
    then have "json_head (json_char c @ r) =
        (char_of (16 * hex_value (hex_digit (n div 16)) + hex_value (hex_digit (n mod 16))), r)"
      by (simp add: json_head_def)
    also have "\<dots> = (char_of (16 * (n div 16) + n mod 16), r)"
      using 3(1) by (simp add: hex_value_digit)
    finally show ?thesis by (simp only: mult_div_mod_eq c)
  next
    case 4
    then have "json_char c = [c]" unfolding json_char_def n_def [symmetric] Let_def by simp
    moreover have "c \<noteq> CHR 0x5C" using 4(3) by (auto simp: n_def)
    ultimately show ?thesis by (simp add: json_head_def)
  qed
qed

lemma json_char_not_quote: "json_char c \<noteq> [] \<and> hd (json_char c) \<noteq> CHR 0x22"
proof -
  have "(of_char c :: nat) \<noteq> 34 \<Longrightarrow> c \<noteq> CHR 0x22" by auto
  then show ?thesis by (auto simp: json_char_def Let_def)
qed

lemma json_body:
  "concat (map json_char s) @ CHR 0x22 # u = concat (map json_char t) @ CHR 0x22 # v
    \<Longrightarrow> s = t \<and> u = v"
proof (induction s arbitrary: t)
  case Nil
  show ?case
  proof (cases t)
    case (Cons d t')
    then have "hd (json_char d) = CHR 0x22"
      using Nil.prems json_char_not_quote [of d] by (cases "json_char d") auto
    then show ?thesis using json_char_not_quote [of d] by simp
  qed (use Nil in simp)
next
  case (Cons c s)
  show ?case
  proof (cases t)
    case Nil
    then have "hd (json_char c) = CHR 0x22"
      using Cons.prems json_char_not_quote [of c] by (cases "json_char c") auto
    then show ?thesis using json_char_not_quote [of c] by simp
  next
    case (Cons d t')
    with Cons.prems have "json_char c @ concat (map json_char s) @ CHR 0x22 # u =
        json_char d @ concat (map json_char t') @ CHR 0x22 # v" by (simp only: list.map concat.simps append_assoc)
    from arg_cong [OF this, of json_head] have "c = d \<and> concat (map json_char s) @ CHR 0x22 # u =
        concat (map json_char t') @ CHR 0x22 # v" by (simp only: json_head_char prod.inject)
    then show ?thesis using Cons.IH [of t'] \<open>t = d # t'\<close> by simp
  qed
qed

lemma json_string_append: "json_string s @ u = json_string t @ v \<Longrightarrow> s = t \<and> u = v"
  using json_body [of s u t v] by (simp add: json_string_def)

end
