(* ===== verification/Catalog_Replay.thy ===== *)
theory Catalog_Replay
  imports Catalog_View
begin

text \<open>
  What the catalog of \<^verbatim>\<open>catalog.ts\<close> guarantees: an invalidated subtree is everything below its root,
  replaying deltas keeps the view at a prefix of the server's log whatever is delivered again, and
  the children of a parent are its entries in display order.
\<close>

section \<open>Subtrees\<close>

definition child_edges :: "entry_map \<Rightarrow> (string \<times> string) set" where
  "child_edges entries = {(p, entry_id e) |p e. e \<in> set entries \<and> entry_parent e = Some p}"

lemma descend_pass_child:
  "e \<in> set es \<Longrightarrow> entry_parent e = Some p \<Longrightarrow> p \<in> invalid \<Longrightarrow> entry_id e \<in> descend_pass es invalid"
proof (induction es arbitrary: invalid)
  case (Cons x es)
  let ?step = "case entry_parent x of
     Some p \<Rightarrow> if p \<in> invalid then insert (entry_id x) invalid else invalid | None \<Rightarrow> invalid"
  show ?case
  proof (cases "e = x")
    case True
    with Cons.prems have "entry_id e \<in> ?step" by simp
    then show ?thesis using descend_pass_grows [of ?step es] unfolding descend_pass_Cons by blast
  next
    case False
    moreover have "p \<in> ?step" using Cons.prems(3) by (auto split: option.splits)
    ultimately show ?thesis using Cons.IH [of ?step] Cons.prems(1,2) unfolding descend_pass_Cons by simp
  qed
qed simp

lemma descend_pass_reaches:
  assumes "\<And>k. k \<in> invalid \<Longrightarrow> (root, k) \<in> (child_edges entries)\<^sup>*" and "set es \<subseteq> set entries"
  shows "k \<in> descend_pass es invalid \<Longrightarrow> (root, k) \<in> (child_edges entries)\<^sup>*"
  using assms
proof (induction es arbitrary: invalid)
  case (Cons x es)
  let ?step = "case entry_parent x of
     Some p \<Rightarrow> if p \<in> invalid then insert (entry_id x) invalid else invalid | None \<Rightarrow> invalid"
  have edge: "(p, entry_id x) \<in> child_edges entries" if "entry_parent x = Some p" for p
    using Cons.prems(3) that by (auto simp: child_edges_def)
  have "(root, j) \<in> (child_edges entries)\<^sup>*" if "j \<in> ?step" for j
    using that Cons.prems(2) edge by (auto split: option.splits if_splits intro: rtrancl.intros(2))
  then show ?case using Cons.IH [of ?step] Cons.prems(1,3) unfolding descend_pass_Cons by simp
qed (simp add: descend_pass_def)

lemma descend_closed:
  assumes "\<And>k. k \<in> invalid \<Longrightarrow> (root, k) \<in> (child_edges entries)\<^sup>*"
  shows "invalid \<subseteq> descend entries invalid \<and>
     (\<forall>k \<in> descend entries invalid. (root, k) \<in> (child_edges entries)\<^sup>*) \<and>
     (\<forall>p k. p \<in> descend entries invalid \<longrightarrow> (p, k) \<in> child_edges entries \<longrightarrow> k \<in> descend entries invalid)"
  using assms
proof (induction entries invalid rule: descend.induct)
  case (1 entries invalid)
  show ?case
  proof (cases "descend_pass entries invalid = invalid")
    case True
    then have "descend entries invalid = invalid" by (subst descend.simps) simp
    moreover have "k \<in> invalid" if "p \<in> invalid" "(p, k) \<in> child_edges entries" for p k
      using that descend_pass_child [of _ entries p invalid] True by (auto simp: child_edges_def)
    ultimately show ?thesis using 1(2) by auto
  next
    case False
    have "(root, k) \<in> (child_edges entries)\<^sup>*" if "k \<in> descend_pass entries invalid" for k
      using descend_pass_reaches [OF 1(2) subset_refl that] .
    from 1(1) [OF refl False this] have
      "descend_pass entries invalid \<subseteq> descend entries (descend_pass entries invalid) \<and>
       (\<forall>k \<in> descend entries (descend_pass entries invalid). (root, k) \<in> (child_edges entries)\<^sup>*) \<and>
       (\<forall>p k. p \<in> descend entries (descend_pass entries invalid) \<longrightarrow> (p, k) \<in> child_edges entries \<longrightarrow>
          k \<in> descend entries (descend_pass entries invalid))" .
    moreover have "descend entries invalid = descend entries (descend_pass entries invalid)"
      using False by (subst descend.simps) (simp add: Let_def)
    ultimately show ?thesis using descend_pass_grows [of invalid entries] by auto
  qed
qed

lemma descendants_reachable:
  "k \<in> descendants entries root \<longleftrightarrow> (root, k) \<in> (child_edges entries)\<^sup>*"
proof
  note d = descend_closed [of "{root}" root entries, folded descendants_def]
  show "(root, k) \<in> (child_edges entries)\<^sup>*" if "k \<in> descendants entries root" using d that by auto
  show "k \<in> descendants entries root" if "(root, k) \<in> (child_edges entries)\<^sup>*"
    using that by (induction rule: rtrancl_induct) (use d in auto)
qed

section \<open>Replaying the server's log\<close>

text \<open>A log of commits after revision \<open>k\<close>: each starts where the one before it ended.\<close>

fun catalog_log :: "int \<Rightarrow> catalog_commit list \<Rightarrow> bool" where
  "catalog_log k [] = True"
| "catalog_log k (c # cs) =
     (case (catalog_revision (cc_firstRevision c), catalog_revision (cc_lastRevision c)) of
        (Some first, Some last') \<Rightarrow> first = k + 1 \<and> first \<le> last' \<and> catalog_log last' cs
      | _ \<Rightarrow> False)"

text \<open>The revision after the first \<open>n\<close> commits.\<close>

fun log_revision :: "int \<Rightarrow> catalog_commit list \<Rightarrow> nat \<Rightarrow> int" where
  "log_revision k cs 0 = k"
| "log_revision k [] (Suc n) = k"
| "log_revision k (c # cs) (Suc n) =
     log_revision (case catalog_revision (cc_lastRevision c) of Some l \<Rightarrow> l | None \<Rightarrow> k) cs n"

definition at_prefix :: "int \<Rightarrow> entry_map \<Rightarrow> catalog_commit list \<Rightarrow> nat \<Rightarrow> catalog_view \<Rightarrow> bool" where
  "at_prefix k entries log n view \<longleftrightarrow>
     n \<le> length log \<and> catalog_revision (cv_appliedRevision view) = Some (log_revision k log n) \<and>
     cv_entries view = foldl apply_commit entries (take n log)"

lemma catalog_log_first:
  "catalog_log k log \<Longrightarrow> c \<in> set log \<Longrightarrow> \<exists>f. catalog_revision (cc_firstRevision c) = Some f \<and> k < f"
  by (induction k log rule: catalog_log.induct) (fastforce split: option.splits)+

lemma log_revision_grows: "catalog_log k log \<Longrightarrow> k \<le> log_revision k log n"
proof (induction k log arbitrary: n rule: catalog_log.induct)
  case (2 k c cs)
  then obtain l where l: "catalog_revision (cc_lastRevision c) = Some l" "k < l" "catalog_log l cs"
    by (auto split: option.splits)
  show ?case
  proof (cases n)
    case (Suc m)
    have "l \<le> log_revision l cs m" using 2 l(1,3) by (auto split: option.splits)
    with Suc l show ?thesis by simp
  qed simp
next
  case (1 k)
  then show ?case by (cases n) simp_all
qed

lemma next_of_log:
  "catalog_log k log \<Longrightarrow> c \<in> set log \<Longrightarrow> n \<le> length log \<Longrightarrow>
     catalog_revision (cc_firstRevision c) = Some (log_revision k log n + 1) \<Longrightarrow>
     n < length log \<and> log ! n = c"
proof (induction k log arbitrary: n rule: catalog_log.induct)
  case (2 k a cs)
  then obtain f l where fl: "catalog_revision (cc_firstRevision a) = Some f"
    "catalog_revision (cc_lastRevision a) = Some l" "f = k + 1" "f \<le> l" and log: "catalog_log l cs"
    by (auto split: option.splits)
  show ?case
  proof (cases n)
    case 0
    then have "c = a" using 2(3,5) catalog_log_first [OF log, of c] fl by auto
    with 0 show ?thesis by simp
  next
    case (Suc m)
    then have "c \<noteq> a" using 2(5) fl log_revision_grows [OF log, of m] by auto
    then have "m < length cs \<and> cs ! m = c"
      using 2(1) [OF refl fl(1,2), of m] 2(3-5) log fl Suc by simp
    with Suc show ?thesis by simp
  qed
qed simp

lemma log_revision_next:
  "n < length log \<Longrightarrow> catalog_log k log \<Longrightarrow>
     catalog_revision (cc_lastRevision (log ! n)) = Some (log_revision k log (Suc n))"
proof (induction k log arbitrary: n rule: catalog_log.induct)
  case (2 k a cs)
  then show ?case by (cases n) (fastforce split: option.splits)+
qed simp

lemma apply_commits_prefix:
  assumes log: "catalog_log k log"
  shows "at_prefix k entries log n view \<Longrightarrow> set commits \<subseteq> set log \<Longrightarrow>
     apply_commits view commits = Some v \<Longrightarrow>
     \<exists>m\<ge>n. at_prefix k entries log m v \<and> cv_scope v = cv_scope view \<and>
       cv_generation v = cv_generation view"
proof (induction commits arbitrary: view n)
  case (Cons c rest)
  from Cons.prems(3) obtain f l a where rev: "catalog_revision (cc_firstRevision c) = Some f"
    "catalog_revision (cc_lastRevision c) = Some l" "catalog_revision (cv_appliedRevision view) = Some a"
    by (auto split: option.splits)
  have a: "a = log_revision k log n" using Cons.prems(1) rev(3) by (simp add: at_prefix_def)
  have rest: "set rest \<subseteq> set log" and c: "c \<in> set log" using Cons.prems(2) by auto
  show ?case
  proof (cases "l \<le> a")
    case True
    then have "apply_commits view rest = Some v" using Cons.prems(3) rev by simp
    with Cons.IH [OF Cons.prems(1) rest] show ?thesis .
  next
    case False
    let ?next = "view\<lparr>cv_entries := apply_commit (cv_entries view) c,
                       cv_appliedRevision := cc_lastRevision c\<rparr>"
    from False Cons.prems(3) rev have f: "f = a + 1" and ok: "apply_commits ?next rest = Some v"
      by (auto split: if_splits)
    have n: "n < length log" "log ! n = c"
      using next_of_log [OF log c, of n] Cons.prems(1) rev(1) f a by (auto simp: at_prefix_def)
    then have "at_prefix k entries log (Suc n) ?next"
      using Cons.prems(1) log_revision_next [OF n(1) log] by (simp add: at_prefix_def take_Suc_conv_app_nth)
    from Cons.IH [OF this rest ok] show ?thesis by (auto intro: Suc_leD)
  qed
qed auto

text \<open>C11: A delta whose commits come from the server's log, in whatever order and however often they were
  delivered before, moves the view from one prefix of the log to a later or the same one and never
  anywhere else; the observed head never goes back, and a last page ends at the head it reports.\<close>

theorem catalog_follows_the_log:
  assumes log: "catalog_log k log" and view: "at_prefix k entries log n view"
    and commits: "set (cd_commits d) \<subseteq> set log"
    and ok: "apply_catalog_changes collate view (Delta d) = Some v"
  shows "\<exists>m\<ge>n. at_prefix k entries log m v \<and> cv_scope v = cv_scope view \<and>
     cv_generation v = cv_generation view \<and> cv_cursor v = cd_nextCursor d \<and>
     (\<exists>head. catalog_revision (cv_observedHeadRevision v) = Some head \<and> log_revision k log m \<le> head \<and>
        (\<forall>h. catalog_revision (cv_observedHeadRevision view) = Some h \<longrightarrow> h \<le> head) \<and>
        (cd_hasMore d \<or> head = log_revision k log m))"
proof -
  from ok obtain w where w: "apply_commits view (cd_commits d) = Some w"
    by (auto simp: apply_catalog_changes_def split: if_splits option.splits)
  from apply_commits_prefix [OF log view commits w] obtain m where
    m: "n \<le> m" "at_prefix k entries log m w" "cv_scope w = cv_scope view"
      "cv_generation w = cv_generation view" by blast
  then have "catalog_revision (cv_appliedRevision w) = Some (log_revision k log m)"
    by (simp add: at_prefix_def)
  with ok w have "v = index_catalog_view collate (w\<lparr>cv_cursor := cd_nextCursor d,
        cv_observedHeadRevision := cd_headRevision d, cv_childIds := [], cv_sourceIds := []\<rparr>) \<and>
      (\<exists>head h. catalog_revision (cd_headRevision d) = Some head \<and> log_revision k log m \<le> head \<and>
        catalog_revision (cv_observedHeadRevision view) = Some h \<and> h \<le> head \<and>
        (cd_hasMore d \<or> head = log_revision k log m))"
    by (auto simp: apply_catalog_changes_def split: if_splits option.splits)
  with m show ?thesis
    by (intro exI [of _ m]) (auto simp: index_catalog_view_def at_prefix_def)
qed

section \<open>Children\<close>

lemma map_of_assoc_set [simp]: "map_of (assoc_set k v m) = (map_of m)(k \<mapsto> v)"
  by (induction k v m rule: assoc_set.induct) auto

definition entries_under :: "string \<Rightarrow> entry_map \<Rightarrow> entry_map" where
  "entries_under p entries = filter (\<lambda>e. entry_parent e = Some p) entries"

lemma child_groups_step:
  "map_of (foldl (\<lambda>groups e. case entry_parent e of
       None \<Rightarrow> groups
     | Some q \<Rightarrow> assoc_set q ((case map_of groups q of None \<Rightarrow> [] | Some ids \<Rightarrow> ids) @ [entry_id e]) groups)
     groups es) p =
   (if entries_under p es = [] then map_of groups p
    else Some ((case map_of groups p of None \<Rightarrow> [] | Some ids \<Rightarrow> ids) @ map entry_id (entries_under p es)))"
proof (induction es arbitrary: groups)
  case (Cons e es)
  show ?case
  proof (cases "entry_parent e")
    case (Some q)
    then show ?thesis
      using Cons.IH [of "assoc_set q ((case map_of groups q of None \<Rightarrow> [] | Some ids \<Rightarrow> ids) @ [entry_id e]) groups"]
      by (cases "q = p") (simp_all add: entries_under_def)
  qed (use Cons.IH [of groups] in \<open>simp add: entries_under_def\<close>)
qed (simp add: entries_under_def)

lemma child_groups_of:
  "map_of (child_groups es) p =
     (if entries_under p es = [] then None else Some (map entry_id (entries_under p es)))"
  unfolding child_groups_def child_groups_step by simp

lemma entries_get_mem:
  assumes "distinct (map entry_id es)" and "e \<in> set es"
  shows "entries_get (entry_id e) es = Some e"
proof -
  obtain x where x: "entries_get (entry_id e) es = Some x"
    using assms(2) by (cases "entries_get (entry_id e) es") (auto simp: entries_get_def find_None_conv)
  then have "x \<in> set es \<and> entry_id x = entry_id e"
    unfolding entries_get_def using find_Some_mem by fastforce
  then have "x = e" using assms by (auto simp: distinct_map inj_on_def)
  with x show ?thesis by simp
qed

lemma sort_with_map: "sort_with cmp (map f xs) = map f (sort_with (\<lambda>x y. cmp (f x) (f y)) xs)"
proof -
  have "insert_with cmp (f x) (map f ys) = map f (insert_with (\<lambda>x y. cmp (f x) (f y)) x ys)" for x ys
    by (induction ys) auto
  then show ?thesis by (induction xs) (simp_all add: sort_with_def)
qed

lemma sort_with_cong:
  assumes "\<And>x y. x \<in> set xs \<Longrightarrow> y \<in> set xs \<Longrightarrow> f x y = g x y"
  shows "sort_with f xs = sort_with g xs"
proof -
  have ins: "insert_with f x ys = insert_with g x ys" if "\<And>y. y \<in> set ys \<Longrightarrow> f x y = g x y" for x ys
    using that by (induction ys) auto
  show ?thesis using assms
  proof (induction xs)
    case (Cons x xs)
    then have "sort_with f xs = sort_with g xs" by simp
    moreover have "insert_with f x (sort_with g xs) = insert_with g x (sort_with g xs)"
      by (rule ins) (simp add: Cons.prems)
    ultimately show ?case by (simp add: sort_with_def)
  qed (simp add: sort_with_def)
qed

definition child_rank :: "catalog_entry \<Rightarrow> ranked_sibling" where
  "child_rank e = the (ranked e)"

lemma child_ranked: "entry_parent e = Some p \<Longrightarrow> ranked e = Some (child_rank e) \<and> rs_entryId (child_rank e) = entry_id e"
  by (cases e) (auto simp: child_rank_def)

lemma entries_get_same:
  assumes "set es = set fs" and "distinct (map entry_id es)" and "distinct (map entry_id fs)"
  shows "entries_get p es = entries_get p fs"
proof (cases "entries_get p fs")
  case None
  then have "\<forall>x \<in> set es. entry_id x \<noteq> p" using assms(1) by (simp add: entries_get_def find_None_conv)
  then have "entries_get p es = None" unfolding entries_get_def by (simp only: find_None_conv simp_thms)
  with None show ?thesis by simp
next
  case (Some x)
  then have "x \<in> set es" "entry_id x = p"
    using assms(1) find_Some_mem [of "\<lambda>e. entry_id e = p" fs x] by (simp_all add: entries_get_def)
  from entries_get_mem [OF assms(2) this(1)] this(2) Some show ?thesis by simp
qed

text \<open>The children of a parent are its entries, sorted by their display rank.\<close>

abbreviation display_order ::
  "(string \<Rightarrow> string \<Rightarrow> int) \<Rightarrow> entry_map \<Rightarrow> string \<Rightarrow> catalog_entry \<Rightarrow> catalog_entry \<Rightarrow> int" where
  "display_order collate entries p x y \<equiv>
     compare_catalog_siblings collate (is_manual_parent (entries_get p entries)) (child_rank x) (child_rank y)"

lemma children_sorted:
  assumes ids: "distinct (map entry_id (cv_entries view))"
    and named: "[] \<notin> set (p # map entry_id (cv_entries view))"
  shows "catalog_children (index_catalog_view collate view) p =
     sort_with (display_order collate (cv_entries view) p) (entries_under p (cv_entries view))"
proof (cases "entries_under p (cv_entries view)")
  case Nil
  then show ?thesis
    by (simp add: catalog_children_def index_catalog_view_def map_of_map child_groups_of sort_with_def)
next
  case (Cons first rest)
  let ?es = "cv_entries view"
  let ?xs = "entries_under p ?es"
  let ?sorted = "sort_with (display_order collate ?es p) ?xs"
  have mem: "e \<in> set ?es" "entry_parent e = Some p" if "e \<in> set ?xs" for e
    using that by (simp_all add: entries_under_def)
  have get: "entries_get (entry_id e) ?es = Some e" if "e \<in> set ?es" for e
    using entries_get_mem [OF ids that] .
  have manual: "manual_group ?es (map entry_id ?xs) = is_manual_parent (entries_get p ?es)"
    using mem [of first] get [of first] named Cons by (force simp: manual_group_def entry_at_def)
  have "compare_children collate ?es (manual_group ?es (map entry_id ?xs)) (entry_id x) (entry_id y) =
      display_order collate ?es p x y" if xy: "x \<in> set ?xs" "y \<in> set ?xs" for x y
    unfolding compare_children_def manual
    using get [OF mem(1) [OF xy(1)]] get [OF mem(1) [OF xy(2)]] child_ranked [OF mem(2) [OF xy(1)]]
      child_ranked [OF mem(2) [OF xy(2)]] by simp
  then have "sort_with (compare_children collate ?es (manual_group ?es (map entry_id ?xs))) (map entry_id ?xs) =
      map entry_id ?sorted"
    unfolding sort_with_map by (intro arg_cong [where f = "map entry_id"] sort_with_cong) simp
  then have "catalog_children (index_catalog_view collate view) p =
      List.map_filter (\<lambda>k. entries_get k ?es) (map entry_id ?sorted)"
    using Cons by (simp add: catalog_children_def index_catalog_view_def map_of_map child_groups_of)
  moreover have "List.map_filter (\<lambda>k. entries_get k ?es) (map entry_id ys) = ys" if "set ys \<subseteq> set ?es" for ys
    using that by (induction ys) (simp_all add: map_filter_simps get)
  moreover have "set ?sorted \<subseteq> set ?es" using mem by auto
  ultimately show ?thesis by simp
qed

text \<open>C12: The children listed under a parent are its file and folder entries, each once, and in display
  order (no id is empty); two indexes of the same entries list them alike, however they arrived.\<close>

theorem children_in_display_order:
  assumes collate: "comparator collate" and ids: "distinct (map entry_id (cv_entries view))"
    and named: "[] \<notin> set (p # map entry_id (cv_entries view))"
  shows "set (catalog_children (index_catalog_view collate view) p) =
       {e \<in> set (cv_entries view). entry_parent e = Some p} \<and>
     distinct (catalog_children (index_catalog_view collate view) p) \<and>
     sorted_wrt (\<lambda>x y. display_order collate (cv_entries view) p x y \<le> 0)
       (catalog_children (index_catalog_view collate view) p) \<and>
     (\<forall>other. set (cv_entries other) = set (cv_entries view) \<longrightarrow> distinct (map entry_id (cv_entries other)) \<longrightarrow>
        catalog_children (index_catalog_view collate other) p =
        catalog_children (index_catalog_view collate view) p)"
proof -
  let ?order = "display_order collate (cv_entries view) p"
  let ?sort = "\<lambda>es. sort_with ?order (entries_under p es)"
  have cmp: "comparator ?order"
    by (rule comparator_on [OF catalog_siblings_comparator [OF collate]])
  have facts: "set (?sort es) = {e \<in> set es. entry_parent e = Some p}"
    "sorted_wrt (\<lambda>x y. ?order x y \<le> 0) (?sort es)"
    "distinct (map entry_id es) \<Longrightarrow> distinct (?sort es)" for es
    using comparator.sort_sorted [OF cmp] by (auto simp: entries_under_def distinct_map)
  have "catalog_children (index_catalog_view collate other) p = ?sort (cv_entries view)"
    if same: "set (cv_entries other) = set (cv_entries view)" and o: "distinct (map entry_id (cv_entries other))"
    for other
  proof -
    have "?sort (cv_entries other) = ?sort (cv_entries view)"
    proof (rule comparator.sorted_unique [OF cmp facts(2) facts(2) facts(3) [OF o] facts(3) [OF ids]])
      show "set (?sort (cv_entries other)) = set (?sort (cv_entries view))" using same facts(1) by simp
      fix x y assume "x \<in> set (?sort (cv_entries other))" "y \<in> set (?sort (cv_entries other))"
        and tie: "?order x y = 0"
      then have x: "x \<in> set (cv_entries view)" "entry_parent x = Some p" and y: "y \<in> set (cv_entries view)"
        "entry_parent y = Some p" using facts(1) same by auto
      have "entry_id x = entry_id y" using siblings_tie [OF tie] child_ranked [OF x(2)] child_ranked [OF y(2)] by simp
      with x(1) y(1) ids show "x = y" by (auto simp: distinct_map inj_on_def)
    qed
    then show ?thesis using children_sorted [OF o, of p collate] named same entries_get_same [OF same o ids] by simp
  qed
  then show ?thesis using children_sorted [OF ids named, of collate] facts ids by simp
qed

section \<open>Entry maps have one entry for each id\<close>

lemma entries_set_ids:
  "distinct (map entry_id m) \<Longrightarrow> distinct (map entry_id (entries_set e m))"
proof -
  have same: "map entry_id (map (\<lambda>x. if entry_id x = entry_id e then e else x) m) = map entry_id m" by simp
  assume "distinct (map entry_id m)"
  then show ?thesis
    by (cases "list_ex (\<lambda>x. entry_id x = entry_id e) m")
       (simp_all only: entries_set_def same if_True if_False map_append distinct_append, auto)
qed

lemma apply_change_ids:
  "distinct (map entry_id m) \<Longrightarrow> distinct (map entry_id (apply_change m c))"
  by (cases c) (simp_all add: entries_set_ids entries_delete_def distinct_map_filter Let_def)

lemma foldl_keeps: "P x \<Longrightarrow> (\<And>x y. P x \<Longrightarrow> P (f x y)) \<Longrightarrow> P (foldl f x ys)"
  by (induction ys arbitrary: x) auto

lemma apply_commit_ids:
  "distinct (map entry_id m) \<Longrightarrow> distinct (map entry_id (apply_commit m c))"
  unfolding apply_commit_def by (rule foldl_keeps [where P = "\<lambda>m. distinct (map entry_id m)"]) (auto intro: apply_change_ids)

lemma entries_of_ids: "distinct (map entry_id (entries_of es))"
  unfolding entries_of_def
  by (rule foldl_keeps [where P = "\<lambda>m. distinct (map entry_id m)"]) (auto intro: entries_set_ids)

section \<open>Properties\<close>

text \<open>C13: Invalidating a subtree removes the root and exactly the entries that hang below it, however deep
  and in whatever order they are stored; a cycle of parents does not stop it.\<close>

theorem invalidated_subtree_is_everything_below:
  "set (apply_change entries (InvalidateSubtree root)) =
     {e \<in> set entries. (root, entry_id e) \<notin> (child_edges entries)\<^sup>*}"
  by (simp add: descendants_reachable Let_def)

definition ex_catalog_file :: "string \<Rightarrow> string \<Rightarrow> string option \<Rightarrow> catalog_entry" where
  "ex_catalog_file k name rank = FileEntry \<lparr>cfi_observationVersion = ''1'', cfi_locationVersion = None,
     cfi_entryId = k, cfi_scope = ProjectScope ''p'', cfi_sourceId = ''s'', cfi_parentId = ''s'',
     cfi_name = name, cfi_aliases = [], cfi_path = [name], cfi_uri = ''manuscript://'' @ name,
     cfi_provisionalName = False, cfi_hasProperties = None, cfi_rank = Some rank, cfi_joinedFrom = None,
     cfi_upload = None, cfi_classification = \<lparr>class_extension = [], class_disposition =
       BinaryDisposition PdfFile None\<rparr>\<rparr>"

definition ex_catalog_view :: catalog_view where
  "ex_catalog_view = (empty_catalog_view (ProjectScope ''p''))
     \<lparr>cv_entries := [ex_catalog_file ''b'' ''two'' None, ex_catalog_file ''a'' ''one'' None]\<rparr>"

definition ex_catalog_commit :: "string \<Rightarrow> string \<Rightarrow> catalog_change_op \<Rightarrow> catalog_commit" where
  "ex_catalog_commit first last' c = \<lparr>cc_eventId = first, cc_commitId = last', cc_firstRevision = first,
     cc_lastRevision = last', cc_changes = [\<lparr>cch_ordinal = 0, cch_op = c\<rparr>]\<rparr>"

text \<open>Two commits, delivered with the first one twice.\<close>

abbreviation ex_catalog_log :: "catalog_commit list" where
  "ex_catalog_log \<equiv> [ex_catalog_commit ''1'' ''2'' (Upsert (ex_catalog_file ''c'' ''three'' None)),
     ex_catalog_commit ''3'' ''3'' (DeleteEntryId ''a'')]"

definition ex_catalog_delta :: catalog_delta where
  "ex_catalog_delta = \<lparr>cd_scope = ProjectScope ''p'', cd_commits = [hd ex_catalog_log, hd ex_catalog_log,
     last ex_catalog_log], cd_nextCursor = ''next'', cd_headRevision = ''3'', cd_hasMore = False\<rparr>"

theorem catalog_follows_the_log_witness:
  "\<exists>m. at_prefix 0 (cv_entries ex_catalog_view) ex_catalog_log m
       (the (apply_catalog_changes compare_text ex_catalog_view (Delta ex_catalog_delta))) \<and>
     cv_cursor (the (apply_catalog_changes compare_text ex_catalog_view (Delta ex_catalog_delta))) = ''next''"
proof -
  have "apply_catalog_changes compare_text ex_catalog_view (Delta ex_catalog_delta) \<noteq> None" by code_simp
  then have v: "apply_catalog_changes compare_text ex_catalog_view (Delta ex_catalog_delta) =
      Some (the (apply_catalog_changes compare_text ex_catalog_view (Delta ex_catalog_delta)))" by simp
  have log: "catalog_log 0 ex_catalog_log" "at_prefix 0 (cv_entries ex_catalog_view) ex_catalog_log 0 ex_catalog_view"
    "set (cd_commits ex_catalog_delta) \<subseteq> set ex_catalog_log" by code_simp+
  have next': "cd_nextCursor ex_catalog_delta = ''next''" by (simp add: ex_catalog_delta_def)
  show ?thesis using catalog_follows_the_log [OF log v] unfolding next' by blast
qed

theorem children_in_display_order_witness:
  "catalog_children (index_catalog_view compare_text ex_catalog_view) ''s'' =
     [ex_catalog_file ''a'' ''one'' None, ex_catalog_file ''b'' ''two'' None]"
proof -
  let ?a = "ex_catalog_file ''a'' ''one'' None" and ?b = "ex_catalog_file ''b'' ''two'' None"
  define l where "l = catalog_children (index_catalog_view compare_text ex_catalog_view) ''s''"
  have ids: "distinct (map entry_id (cv_entries ex_catalog_view))" and named:
    "[] \<notin> set (''s'' # map entry_id (cv_entries ex_catalog_view))" by code_simp+
  note facts = children_in_display_order [OF bytes.comparator_axioms ids, of "''s''", folded l_def, OF named]
  have "{e \<in> set (cv_entries ex_catalog_view). entry_parent e = Some ''s''} = {?a, ?b}"
    by (auto simp: ex_catalog_view_def ex_catalog_file_def)
  with facts have set: "set l = {?a, ?b}" and sorted:
    "sorted_wrt (\<lambda>x y. display_order compare_text (cv_entries ex_catalog_view) ''s'' x y \<le> 0) l" by auto
  have "\<not> display_order compare_text (cv_entries ex_catalog_view) ''s'' ?b ?a \<le> 0" by code_simp
  moreover have "length l = 2" unfolding l_def by code_simp
  then obtain x y where l: "l = [x, y]" by (auto simp: length_Suc_conv numeral_2_eq_2)
  ultimately show ?thesis using set sorted unfolding l_def [symmetric] l by (auto simp: doubleton_eq_iff)
qed

end
