(* ===== verification/Keyed_Table.thy ===== *)
theory Keyed_Table
  imports Replica_Prelude
begin

text \<open>
  The object stores of the metadata database: rows under a string key, listed in key order. The
  interface is what the transactions use of a store (get, put, delete, all rows) with the laws of
  IndexedDB; it is provided by lists sorted by key.
\<close>

section \<open>The interface\<close>

locale keyed_table =
  fixes key :: "'a \<Rightarrow> string"
    and valid :: "'t \<Rightarrow> bool"
    and get :: "string \<Rightarrow> 't \<Rightarrow> 'a option"
    and put :: "'a \<Rightarrow> 't \<Rightarrow> 't"
    and delete :: "string \<Rightarrow> 't \<Rightarrow> 't"
    and rows :: "'t \<Rightarrow> 'a list"
  assumes put_valid: "valid t \<Longrightarrow> valid (put x t)"
    and delete_valid: "valid t \<Longrightarrow> valid (delete k t)"
    and get_put: "valid t \<Longrightarrow> get k (put x t) = (if k = key x then Some x else get k t)"
    and get_delete: "valid t \<Longrightarrow> get k (delete j t) = (if k = j then None else get k t)"
    and rows_get: "valid t \<Longrightarrow> x \<in> set (rows t) \<longleftrightarrow> get (key x) t = Some x"
    and get_key: "valid t \<Longrightarrow> get k t = Some x \<Longrightarrow> key x = k"
begin

definition bulk_put :: "'a list \<Rightarrow> 't \<Rightarrow> 't" where
  "bulk_put xs t = foldl (\<lambda>t x. put x t) t xs"

lemma bulk_put_valid: "valid t \<Longrightarrow> valid (bulk_put xs t)"
  by (induction xs arbitrary: t) (simp_all add: bulk_put_def put_valid)

lemma bulk_put_Cons: "bulk_put (x # xs) t = bulk_put xs (put x t)"
  by (simp add: bulk_put_def)

text \<open>A bulk put of rows with distinct keys stores each of them and keeps every other row.\<close>

lemma get_bulk_put_other:
  "valid t \<Longrightarrow> k \<notin> key ` set xs \<Longrightarrow> get k (bulk_put xs t) = get k t"
proof (induction xs arbitrary: t)
  case (Cons x xs)
  then show ?case by (simp add: bulk_put_Cons put_valid get_put)
qed (simp add: bulk_put_def)

lemma get_bulk_put:
  "valid t \<Longrightarrow> distinct (map key xs) \<Longrightarrow> x \<in> set xs \<Longrightarrow> get (key x) (bulk_put xs t) = Some x"
proof (induction xs arbitrary: t)
  case (Cons y ys)
  show ?case
  proof (cases "x \<in> set ys")
    case True
    with Cons show ?thesis by (simp add: bulk_put_Cons put_valid)
  next
    case False
    with Cons.prems have "x = y" "key y \<notin> key ` set ys" by auto
    with Cons.prems show ?thesis by (simp add: bulk_put_Cons put_valid get_bulk_put_other get_put)
  qed
qed simp

lemma rows_put:
  assumes "valid t"
  shows "y \<in> set (rows (put x t)) \<longleftrightarrow> y = x \<or> y \<in> set (rows t) \<and> key y \<noteq> key x"
  using assms by (auto simp: rows_get put_valid get_put)

lemma rows_delete:
  assumes "valid t"
  shows "y \<in> set (rows (delete k t)) \<longleftrightarrow> y \<in> set (rows t) \<and> key y \<noteq> k"
  using assms by (auto simp: rows_get delete_valid get_delete)

lemma rows_bulk_put:
  assumes "valid t" and "distinct (map key xs)"
  shows "y \<in> set (rows (bulk_put xs t)) \<longleftrightarrow> y \<in> set xs \<or> y \<in> set (rows t) \<and> key y \<notin> key ` set xs"
proof (cases "key y \<in> key ` set xs")
  case True
  then obtain x where x: "x \<in> set xs" "key y = key x" by auto
  then have "get (key y) (bulk_put xs t) = Some x" using get_bulk_put [OF assms] by simp
  moreover have "y = x" if "y \<in> set xs" using x that assms(2) by (auto simp: distinct_map inj_on_def)
  ultimately show ?thesis using x True assms(1) by (auto simp: rows_get bulk_put_valid)
next
  case False
  then show ?thesis
    using assms(1) by (auto simp: rows_get bulk_put_valid get_bulk_put_other)
qed

text \<open>Without distinct keys the last row put under a key stays; every other key is left alone.\<close>

lemma rows_bulk_put_cases:
  "valid t \<Longrightarrow> y \<in> set (rows (bulk_put xs t)) \<Longrightarrow>
     y \<in> set xs \<or> y \<in> set (rows t) \<and> key y \<notin> key ` set xs"
proof (induction xs arbitrary: t)
  case (Cons x xs)
  have "y \<in> set xs \<or> y \<in> set (rows (put x t)) \<and> key y \<notin> key ` set xs"
    using Cons.IH [OF put_valid [OF Cons.prems(1)]] Cons.prems(2) by (simp add: bulk_put_Cons)
  then show ?case using rows_put [OF Cons.prems(1), of y x] by auto
qed (simp add: bulk_put_def)

lemma rows_bulk_put_keys:
  "valid t \<Longrightarrow> key ` set (rows (bulk_put xs t)) = key ` set xs \<union> key ` set (rows t)"
proof (induction xs arbitrary: t)
  case (Cons x xs)
  have "key ` set (rows (put x t)) = insert (key x) (key ` set (rows t))"
    using rows_put [OF Cons.prems, of _ x] by (auto simp: image_iff)
  then show ?case using Cons by (auto simp: bulk_put_Cons put_valid)
qed (simp add: bulk_put_def)

lemma rows_bulk_put_sub:
  "valid t \<Longrightarrow> y \<in> set (rows (bulk_put xs t)) \<Longrightarrow> y \<in> set xs \<or> y \<in> set (rows t)"
proof (induction xs arbitrary: t)
  case (Cons x xs)
  then show ?case using rows_put [OF Cons.prems(1), of y x] by (auto simp: bulk_put_Cons put_valid)
qed (simp add: bulk_put_def)

end

section \<open>Sorted lists\<close>

definition table_valid :: "('a \<Rightarrow> string) \<Rightarrow> 'a list \<Rightarrow> bool" where
  "table_valid key t \<longleftrightarrow> sorted_wrt (\<lambda>x y. key x < key y) t"

definition table_get :: "('a \<Rightarrow> string) \<Rightarrow> string \<Rightarrow> 'a list \<Rightarrow> 'a option" where
  "table_get key k t = find (\<lambda>x. key x = k) t"

fun table_put :: "('a \<Rightarrow> string) \<Rightarrow> 'a \<Rightarrow> 'a list \<Rightarrow> 'a list" where
  "table_put key x [] = [x]"
| "table_put key x (y # ys) =
     (if key x < key y then x # y # ys
      else if key x = key y then x # ys
      else y # table_put key x ys)"

definition table_delete :: "('a \<Rightarrow> string) \<Rightarrow> string \<Rightarrow> 'a list \<Rightarrow> 'a list" where
  "table_delete key k t = filter (\<lambda>x. key x \<noteq> k) t"

definition table_bulk_put :: "('a \<Rightarrow> string) \<Rightarrow> 'a list \<Rightarrow> 'a list \<Rightarrow> 'a list" where
  "table_bulk_put key xs t = foldl (\<lambda>t x. table_put key x t) t xs"

lemma table_put_set:
  "table_valid key t \<Longrightarrow> set (table_put key x t) = insert x {y \<in> set t. key y \<noteq> key x}"
  by (induction t) (auto simp: table_valid_def)

lemma table_put_valid: "table_valid key t \<Longrightarrow> table_valid key (table_put key x t)"
proof (induction t)
  case (Cons y ys)
  then have "table_valid key ys" by (simp add: table_valid_def)
  with Cons table_put_set [of key ys x] show ?case by (auto simp: table_valid_def)
qed (simp add: table_valid_def)

lemma table_valid_distinct: "table_valid key t \<Longrightarrow> distinct (map key t)"
  unfolding table_valid_def by (induction t) auto

lemma table_get_iff:
  assumes "table_valid key t"
  shows "table_get key k t = Some x \<longleftrightarrow> x \<in> set t \<and> key x = k"
proof
  show "x \<in> set t \<and> key x = k" if "table_get key k t = Some x"
    using find_Some_mem [OF that [unfolded table_get_def]] .
  assume x: "x \<in> set t \<and> key x = k"
  then have "table_get key k t \<noteq> None" by (auto simp: table_get_def find_None_conv)
  then obtain y where y: "table_get key k t = Some y" by blast
  then have "y \<in> set t \<and> key y = k" using find_Some_mem [of "\<lambda>x. key x = k" t y] by (simp add: table_get_def)
  with x table_valid_distinct [OF assms] have "y = x" by (auto simp: distinct_map inj_on_def)
  with y show "table_get key k t = Some x" by simp
qed

interpretation table: keyed_table key "table_valid key" "table_get key" "table_put key"
  "table_delete key" "\<lambda>t. t" for key
proof unfold_locales
  fix t x k j and y :: 'a
  show "table_valid key (table_put key x t)" if "table_valid key t" using that by (rule table_put_valid)
  show d: "table_valid key (table_delete key k t)" if "table_valid key t" for k
    using that by (auto simp: table_valid_def table_delete_def sorted_wrt_filter)
  show "table_get key k (table_put key x t) = (if k = key x then Some x else table_get key k t)"
    if v: "table_valid key t"
  proof -
    have "table_get key k (table_put key x t) = Some z \<longleftrightarrow>
        (if k = key x then Some x else table_get key k t) = Some z" for z
      using v by (auto simp: table_get_iff table_put_valid table_put_set)
    then show ?thesis by (metis not_None_eq)
  qed
  show "table_get key k (table_delete key j t) = (if k = j then None else table_get key k t)"
    if v: "table_valid key t"
  proof -
    have "table_get key k (table_delete key j t) = Some z \<longleftrightarrow>
        (if k = j then None else table_get key k t) = Some z" for z
      using v d [OF v] by (auto simp: table_get_iff table_delete_def)
    then show ?thesis by (metis not_None_eq)
  qed
  show "x \<in> set t \<longleftrightarrow> table_get key (key x) t = Some x" if "table_valid key t"
    using that by (simp add: table_get_iff)
  show "key x = k" if "table_valid key t" "table_get key k t = Some x"
    using that by (simp add: table_get_iff)
qed

lemma table_bulk_put_eq: "table_bulk_put key xs t = table.bulk_put key xs t"
  by (simp add: table_bulk_put_def table.bulk_put_def)

end
