(* ===== verification/Metadata_Store.thy ===== *)
theory Metadata_Store
  imports Keyed_Table Catalog_View Folder_Following Copy_Operations
begin

text \<open>
  The transactions of the metadata store (\<^verbatim>\<open>indexeddb-resource-metadata.ts\<close>): documents, their
  intents, folders, operations, catalog checkpoints and the placement high-water mark, each in an
  object store of its own. A transaction is a function on all of them: an error aborts it with
  nothing written, \<open>None\<close> is the answer \<^verbatim>\<open>stale\<close>, and \<open>Some\<close> the state committed.
\<close>

section \<open>The state\<close>

record metadata =
  md_resources :: "resource_descriptor list"
  md_intents :: "namespace_intent list"
  md_catalogs :: "catalog_checkpoint list"
  md_folders :: "folder_record list"
  md_operations :: "operation_record list"
  md_highWater :: "int option"

definition empty_metadata :: metadata where
  "empty_metadata = \<lparr>md_resources = [], md_intents = [], md_catalogs = [], md_folders = [],
     md_operations = [], md_highWater = None\<rparr>"

abbreviation checkpoint_key :: "catalog_checkpoint \<Rightarrow> string" where
  "checkpoint_key c \<equiv> catalog_projection_key (cp_projectId c) (cp_scope c)"

section \<open>Reads\<close>

text \<open>A record is a stored document with the intents of its handle in sequence order.\<close>

definition stored_record :: "metadata \<Rightarrow> resource_descriptor \<Rightarrow> resource_record" where
  "stored_record md res =
     \<lparr>rec_resource = res,
      rec_intents = sort_key int_sequence (filter (\<lambda>i. int_handle i = res_handle res) (md_intents md))\<rparr>"

definition stored_records :: "metadata \<Rightarrow> resource_record list" where
  "stored_records md = map (stored_record md) (md_resources md)"

definition read_resource :: "string \<Rightarrow> metadata \<Rightarrow> resource_record option" where
  "read_resource handle md =
     map_option (stored_record md) (table_get res_handle handle (md_resources md))"

definition read_folder :: "string \<Rightarrow> metadata \<Rightarrow> folder_record option" where
  "read_folder handle md = table_get fol_handle handle (md_folders md)"

definition read_folder_by_id :: "string \<Rightarrow> metadata \<Rightarrow> folder_record option" where
  "read_folder_by_id folderId md =
     (case find (\<lambda>f. fol_folderId f = folderId) (md_folders md) of
        Some f \<Rightarrow> Some f
      | None \<Rightarrow> find (\<lambda>f. folderId \<in> set (fol_aliases f)) (md_folders md))"

definition read_folders :: "string \<Rightarrow> metadata \<Rightarrow> folder_record list" where
  "read_folders projectId md =
     filter (\<lambda>f. fol_projectId f = None \<or> fol_projectId f = Some projectId) (md_folders md)"

definition read_operation :: "string \<Rightarrow> metadata \<Rightarrow> operation_record option" where
  "read_operation operationId md = table_get op_operationId operationId (md_operations md)"

definition read_catalog :: "string \<Rightarrow> catalog_scope \<Rightarrow> metadata \<Rightarrow> catalog_checkpoint option" where
  "read_catalog projectId scope md =
     table_get checkpoint_key (catalog_projection_key projectId scope) (md_catalogs md)"

record admission_view =
  av_records :: "resource_record list"
  av_folders :: "folder_record list"
  av_operations :: "operation_record list"
  av_catalogs :: "catalog_checkpoint list"
  av_highWater :: int

text \<open>
  The intents a placement admission reads: those in flight and the accepted ones a canonical refresh
  waits on. An intent found by two indexes is listed twice, as in the source.
\<close>

definition shaping_intents :: "metadata \<Rightarrow> namespace_intent list" where
  "shaping_intents md =
     filter (\<lambda>i. int_state i \<in> {Pending, Submitted, Received}) (md_intents md) @
     concat (map (\<lambda>res. case ob_canonicalRefresh (res_obligations res) of
         None \<Rightarrow> []
       | Some r \<Rightarrow> if cr_operationId r = [] then []
                   else filter (\<lambda>i. int_operationId i = Some (cr_operationId r)) (md_intents md))
       (md_resources md))"

definition read_placement_admission_view :: "string \<Rightarrow> string option \<Rightarrow> metadata \<Rightarrow> admission_view" where
  "read_placement_admission_view projectId subject md =
     (let shaping = shaping_intents md;
          handles = remdups (map int_handle shaping @ (case subject of None \<Rightarrow> [] | Some h \<Rightarrow> [h]))
      in \<lparr>av_records = map (\<lambda>res. \<lparr>rec_resource = res,
            rec_intents = sort_key int_sequence (filter (\<lambda>i. int_handle i = res_handle res) shaping)\<rparr>)
            (List.map_filter (\<lambda>h. table_get res_handle h (md_resources md)) handles),
          av_folders = md_folders md, av_operations = md_operations md,
          av_catalogs = filter (\<lambda>c. cp_projectId c = projectId) (md_catalogs md),
          av_highWater = (case md_highWater md of None \<Rightarrow> 0 | Some v \<Rightarrow> v)\<rparr>)"

section \<open>Checks inside a transaction\<close>

definition intent_order :: "namespace_intent \<Rightarrow> int" where
  "intent_order i = (case int_admission i of None \<Rightarrow> 0 | Some a \<Rightarrow> adm_order a)"

definition raise_high_water :: "namespace_intent list \<Rightarrow> metadata \<Rightarrow> metadata" where
  "raise_high_water intents md =
     (let highest = max_from_0 (map intent_order intents)
      in if highest = 0 then md
         else if highest > (case md_highWater md of None \<Rightarrow> 0 | Some v \<Rightarrow> v)
              then md\<lparr>md_highWater := Some highest\<rparr> else md)"

definition validate_resource ::
  "metadata \<Rightarrow> resource_record option \<Rightarrow> resource_record \<Rightarrow> unit result" where
  "validate_resource md previous next' =
     validate_resource_record_update previous next'
       (origin_operation \<lparr>og_intents = rec_intents next', og_copiedBy = res_copiedBy (rec_resource next')\<rparr>
         (\<lambda>k. read_operation k md))"

definition validate_folder :: "metadata \<Rightarrow> folder_record option \<Rightarrow> folder_record \<Rightarrow> unit result" where
  "validate_folder md previous next' =
     validate_folder_namespace_update previous next'
       (origin_operation (folder_origin next') (\<lambda>k. read_operation k md))"

text \<open>The intent ids of a write, none claimed by an earlier write or stored for another handle.\<close>

fun claim_intents :: "metadata \<Rightarrow> string set \<Rightarrow> namespace_intent list \<Rightarrow> string set result" where
  "claim_intents md claimed [] = Inr claimed"
| "claim_intents md claimed (i # rest) =
     throw_when (int_id i \<in> claimed \<or>
         (case table_get int_id (int_id i) (md_intents md) of None \<Rightarrow> False
          | Some e \<Rightarrow> int_handle e \<noteq> int_handle i))
       ''Namespace intent belongs to another resource''
       (claim_intents md (insert (int_id i) claimed) rest)"

fun writes_current ::
  "metadata \<Rightarrow> string set \<Rightarrow> string set \<Rightarrow> resource_write list \<Rightarrow> bool result" where
  "writes_current md keys claimed [] = Inr True"
| "writes_current md keys claimed (w # ws) =
     (let handle = res_handle (rec_resource (rw_next w)); current = table_get res_handle handle (md_resources md)
      in throw_when (handle \<in> keys) ''Duplicate resource write''
        (if map_option res_revision current \<noteq> rw_expectedRevision w then Inr False
         else and_then (validate_resource md (map_option (stored_record md) current) (rw_next w)) (\<lambda>_.
              and_then (claim_intents md claimed (rec_intents (rw_next w))) (\<lambda>claimed'.
                writes_current md (insert handle keys) claimed' ws))))"

definition is_current :: "metadata \<Rightarrow> resource_write list \<Rightarrow> bool result" where
  "is_current md writes =
     and_then (writes_current md {} {} writes) (\<lambda>current.
       Inr (current \<and> distinct (map res_documentId
         (table_bulk_put res_handle (map (\<lambda>w. rec_resource (rw_next w)) writes) (md_resources md)))))"

fun folder_writes_current :: "metadata \<Rightarrow> string set \<Rightarrow> folder_write list \<Rightarrow> bool result" where
  "folder_writes_current md handles [] = Inr True"
| "folder_writes_current md handles (w # ws) =
     (let handle = fol_handle (fw_next w); current = read_folder handle md
      in throw_when (handle \<in> handles) ''Duplicate folder write''
        (if map_option fol_revision current \<noteq> fw_expectedRevision w then Inr False
         else and_then (validate_folder md current (fw_next w)) (\<lambda>_.
                folder_writes_current md (insert handle handles) ws)))"

definition folders_are_current :: "metadata \<Rightarrow> folder_write list \<Rightarrow> bool result" where
  "folders_are_current md writes = folder_writes_current md {} writes"

section \<open>Writes inside a transaction\<close>

definition put_resource :: "metadata \<Rightarrow> resource_write \<Rightarrow> metadata" where
  "put_resource md w =
     raise_high_water (rec_intents (rw_next w))
       (md\<lparr>md_resources := table_put res_handle (rec_resource (rw_next w)) (md_resources md),
          md_intents := table_bulk_put int_id (rec_intents (rw_next w)) (md_intents md)\<rparr>)"

definition put_resources :: "resource_write list \<Rightarrow> metadata \<Rightarrow> metadata" where
  "put_resources writes md = foldl put_resource md writes"

definition put_folders :: "folder_record list \<Rightarrow> metadata \<Rightarrow> metadata" where
  "put_folders folders md = md\<lparr>md_folders := table_bulk_put fol_handle folders (md_folders md)\<rparr>"

definition put_folder :: "folder_record \<Rightarrow> metadata \<Rightarrow> metadata" where
  "put_folder folder md = md\<lparr>md_folders := table_put fol_handle folder (md_folders md)\<rparr>"

section \<open>Transactions\<close>

definition commit_resource :: "resource_write \<Rightarrow> metadata \<Rightarrow> metadata option result" where
  "commit_resource write md =
     and_then (is_current md [write]) (\<lambda>current.
       Inr (if current then Some (put_resources [write] md) else None))"

definition settle_descendants ::
  "folder_record option \<Rightarrow> folder_record \<Rightarrow> metadata \<Rightarrow> metadata result" where
  "settle_descendants previous next' md =
     (case folder_deletion_settlement previous next' of
        None \<Rightarrow> Inr md
      | Some receipt \<Rightarrow>
          and_then (plan_folder_deletion_resources receipt (stored_records md)) (\<lambda>descendants.
          and_then (for_each (\<lambda>w. validate_resource md
              (find (\<lambda>r. res_handle (rec_resource r) = res_handle (rec_resource (rw_next w))) (stored_records md))
              (rw_next w)) descendants) (\<lambda>_.
            Inr (md\<lparr>md_resources := table_bulk_put res_handle
              (map (\<lambda>w. rec_resource (rw_next w)) descendants) (md_resources md)\<rparr>))))"

definition follow_reminted_folder :: "string \<Rightarrow> folder_record \<Rightarrow> metadata \<Rightarrow> metadata result" where
  "follow_reminted_folder previousId reminted md =
     (let records = stored_records md;
          folders = filter (\<lambda>f. fol_handle f \<noteq> fol_handle reminted) (md_folders md);
          plan = plan_folder_remint_dependents previousId (fol_folderId reminted) records folders
      in and_then (for_each (\<lambda>w. validate_resource md
             (find (\<lambda>r. res_handle (rec_resource r) = res_handle (rec_resource (rw_next w))) records)
             (rw_next w)) (rd_resources plan)) (\<lambda>_.
         and_then (for_each (\<lambda>w. validate_folder md
             (find (\<lambda>f. fol_handle f = fol_handle (fw_next w)) folders) (fw_next w)) (rd_folders plan)) (\<lambda>_.
           Inr (put_folders (map fw_next (rd_folders plan)) (put_resources (rd_resources plan) md)))))"

definition commit_folder_write :: "folder_write \<Rightarrow> metadata \<Rightarrow> metadata option result" where
  "commit_folder_write write md =
     and_then (folders_are_current md [write]) (\<lambda>current.
       if \<not> current then Inr None
       else (let next' = fw_next write; previous = read_folder (fol_handle next') md
         in and_then (settle_descendants previous next' md) (\<lambda>settled.
            and_then (case previous of
                None \<Rightarrow> Inr settled
              | Some p \<Rightarrow> if fol_folderId p \<noteq> fol_folderId next'
                  then follow_reminted_folder (fol_folderId p) next' settled else Inr settled) (\<lambda>followed.
              Inr (Some (raise_high_water (fol_intents next') (put_folder next' followed)))))))"

fun place_roots :: "string \<Rightarrow> root_place list \<Rightarrow> metadata \<Rightarrow> metadata result" where
  "place_roots operationId [] md = Inr md"
| "place_roots operationId (place # rest) md =
     (if rp_kind place = FolderKind
      then (case read_folder (rp_handle place) md of
          None \<Rightarrow> place_roots operationId rest md
        | Some current \<Rightarrow>
            (let next' = place_folder_root current place operationId
             in and_then (validate_folder md (Some current) next') (\<lambda>_.
                  place_roots operationId rest (put_folder next' md))))
      else (case read_resource (rp_handle place) md of
          None \<Rightarrow> place_roots operationId rest md
        | Some current \<Rightarrow>
            (let next' = place_resource_root current place operationId
             in and_then (validate_resource md (Some current) next') (\<lambda>_.
                  place_roots operationId rest
                    (md\<lparr>md_resources := table_put res_handle (rec_resource next') (md_resources md)\<rparr>)))))"

definition drop_root :: "metadata \<Rightarrow> string \<Rightarrow> metadata" where
  "drop_root md handle =
     md\<lparr>md_resources := table_delete res_handle handle (md_resources md),
        md_intents := filter (\<lambda>i. int_handle i \<noteq> handle) (md_intents md),
        md_folders := table_delete fol_handle handle (md_folders md)\<rparr>"

definition create_roots :: "created_roots \<Rightarrow> metadata \<Rightarrow> metadata result" where
  "create_roots created md =
     (let resources = map (\<lambda>r. \<lparr>rw_expectedRevision = None, rw_next = r\<rparr>) (cr_resources created);
          folders = map (\<lambda>f. \<lparr>fw_expectedRevision = None, fw_next = f\<rparr>) (cr_folders created)
      in and_then (is_current md resources) (\<lambda>resourcesCurrent.
         and_then (if resourcesCurrent then folders_are_current md folders else Inr False) (\<lambda>current.
           throw_when (\<not> current) ''A Copy root's identity is already held''
             (Inr (put_folders (cr_folders created) (put_resources resources md))))))"

definition write_roots :: "string \<Rightarrow> operation_roots \<Rightarrow> metadata \<Rightarrow> metadata result" where
  "write_roots operationId roots md =
     and_then (case roots_created roots of None \<Rightarrow> Inr md | Some created \<Rightarrow> create_roots created md) (\<lambda>md1.
     and_then (place_roots operationId (case roots_placed roots of None \<Rightarrow> [] | Some ps \<Rightarrow> ps) md1) (\<lambda>md2.
       Inr (foldl drop_root md2 (case roots_dropped roots of None \<Rightarrow> [] | Some hs \<Rightarrow> hs))))"

definition commit_operation_write :: "operation_write \<Rightarrow> metadata \<Rightarrow> metadata option result" where
  "commit_operation_write write md =
     (let next' = ow_next write; current = read_operation (op_operationId next') md
      in if map_option op_revision current \<noteq> ow_expectedRevision write then Inr None
         else and_then (validate_operation_record_update current next') (\<lambda>_.
           let md1 = raise_high_water (op_intents next')
                 (md\<lparr>md_operations := table_put op_operationId next' (md_operations md)\<rparr>)
           in and_then (case ow_roots write of None \<Rightarrow> Inr md1
                | Some roots \<Rightarrow> write_roots (op_operationId next') roots md1) (\<lambda>md2. Inr (Some md2))))"

definition retire_operation :: "string \<Rightarrow> int \<Rightarrow> metadata \<Rightarrow> metadata option" where
  "retire_operation operationId revision md =
     (if map_option op_revision (read_operation operationId md) \<noteq> Some revision then None
      else Some (md\<lparr>md_operations := table_delete op_operationId operationId (md_operations md)\<rparr>))"

record catalog_command =
  ccm_expectedRevision :: "int option"
  ccm_next :: catalog_checkpoint
  ccm_resources :: "resource_write list"
  ccm_folders :: "folder_write list"

definition commit_catalog :: "catalog_command \<Rightarrow> metadata \<Rightarrow> metadata option result" where
  "commit_catalog input md =
     (let next' = ccm_next input
      in throw_when (\<not> catalog_scope_belongs_to_project (cp_projectId next') (cp_scope next'))
        ''Catalog scope belongs to another project''
        (if map_option cp_revision (read_catalog (cp_projectId next') (cp_scope next') md)
              \<noteq> ccm_expectedRevision input then Inr None
         else and_then (is_current md (ccm_resources input)) (\<lambda>resourcesCurrent.
              if \<not> resourcesCurrent then Inr None
              else and_then (folders_are_current md (ccm_folders input)) (\<lambda>foldersCurrent.
                if \<not> foldersCurrent then Inr None
                else throw_when (cp_revision next' \<noteq>
                    (case ccm_expectedRevision input of None \<Rightarrow> 0 | Some r \<Rightarrow> r) + 1) ''Invalid catalog revision''
                  (let md1 = put_folders (map fw_next (ccm_folders input)) (put_resources (ccm_resources input) md);
                       md2 = raise_high_water (concat (map (\<lambda>w. fol_intents (fw_next w)) (ccm_folders input))) md1
                   in Inr (Some (md2\<lparr>md_catalogs := table_put checkpoint_key next' (md_catalogs md2)\<rparr>)))))))"

end
