(* ===== verification/Store_Invariant.thy ===== *)
theory Store_Invariant
  imports Metadata_Store
begin

text \<open>
  What every transaction of the metadata store keeps: one row for each key, one document for each
  document id, journals that are well formed and belong to a stored record, and a high-water mark
  above every admission order in the store.
\<close>

section \<open>Well-formed stores\<close>

definition high_water :: "metadata \<Rightarrow> int" where
  "high_water md = (case md_highWater md of None \<Rightarrow> 0 | Some v \<Rightarrow> v)"

definition tables_valid :: "metadata \<Rightarrow> bool" where
  "tables_valid md \<longleftrightarrow>
     table_valid res_handle (md_resources md) \<and> table_valid int_id (md_intents md) \<and>
     table_valid checkpoint_key (md_catalogs md) \<and> table_valid fol_handle (md_folders md) \<and>
     table_valid op_operationId (md_operations md)"

text \<open>Every intent row belongs to a stored document, and the rows of one document form a journal.\<close>

definition intents_owned :: "metadata \<Rightarrow> bool" where
  "intents_owned md \<longleftrightarrow>
     (\<forall>i \<in> set (md_intents md). int_handle i \<in> res_handle ` set (md_resources md) \<and>
        intent_wf (int_handle i) i) \<and>
     (\<forall>i \<in> set (md_intents md). \<forall>j \<in> set (md_intents md).
        int_handle i = int_handle j \<and> int_sequence i = int_sequence j \<longrightarrow> i = j)"

definition journals_kept :: "metadata \<Rightarrow> bool" where
  "journals_kept md \<longleftrightarrow>
     (\<forall>f \<in> set (md_folders md). journal_wf (fol_handle f) (fol_intents f)) \<and>
     (\<forall>o' \<in> set (md_operations md). journal_wf (op_operationId o') (op_intents o'))"

definition orders_below :: "metadata \<Rightarrow> bool" where
  "orders_below md \<longleftrightarrow> 0 \<le> high_water md \<and>
     (\<forall>i \<in> set (md_intents md). intent_order i \<le> high_water md) \<and>
     (\<forall>f \<in> set (md_folders md). \<forall>i \<in> set (fol_intents f). intent_order i \<le> high_water md) \<and>
     (\<forall>o' \<in> set (md_operations md). \<forall>i \<in> set (op_intents o'). intent_order i \<le> high_water md)"

definition store_core :: "metadata \<Rightarrow> bool" where
  "store_core md \<longleftrightarrow> tables_valid md \<and> intents_owned md \<and> journals_kept md \<and> orders_below md"

definition one_id_each :: "metadata \<Rightarrow> bool" where
  "one_id_each md \<longleftrightarrow> distinct (map res_documentId (md_resources md))"

definition store_ok :: "metadata \<Rightarrow> bool" where
  "store_ok md \<longleftrightarrow> store_core md \<and> one_id_each md"

lemma store_tables:
  assumes "store_core md"
  shows "table_valid res_handle (md_resources md)" "table_valid int_id (md_intents md)"
    "table_valid fol_handle (md_folders md)" "table_valid op_operationId (md_operations md)"
    "table_valid checkpoint_key (md_catalogs md)"
  using assms by (simp_all add: store_core_def tables_valid_def)

lemma stored_record_intents [simp]:
  "set (rec_intents (stored_record md res)) = {i \<in> set (md_intents md). int_handle i = res_handle res}"
  by (auto simp: stored_record_def)

lemma stored_record_resource [simp]: "rec_resource (stored_record md res) = res"
  by (simp add: stored_record_def)

text \<open>Under the invariant a record read back has a well-formed journal, in sequence order.\<close>

lemma stored_journal_wf:
  assumes "store_core md"
  shows "journal_wf (res_handle res) (rec_intents (stored_record md res))"
proof -
  have "distinct (map int_id (md_intents md))"
    using table_valid_distinct [OF store_tables(2) [OF assms]] .
  then have ids: "inj_on int_id (set (md_intents md))" "distinct (md_intents md)"
    by (auto simp: distinct_map)
  then have d: "distinct (rec_intents (stored_record md res))"
    by (simp add: stored_record_def)
  have "inj_on int_sequence (set (rec_intents (stored_record md res)))"
    using assms by (auto simp: store_core_def intents_owned_def inj_on_def)
  moreover have "inj_on int_id (set (rec_intents (stored_record md res)))"
    using ids(1) by (rule inj_on_subset) auto
  ultimately show ?thesis
    using d assms by (auto simp: journal_wf_def distinct_map store_core_def intents_owned_def)
qed

section \<open>The high-water mark\<close>

lemma raise_fields [simp]:
  "md_resources (raise_high_water J md) = md_resources md" "md_intents (raise_high_water J md) = md_intents md"
  "md_folders (raise_high_water J md) = md_folders md" "md_operations (raise_high_water J md) = md_operations md"
  "md_catalogs (raise_high_water J md) = md_catalogs md"
  by (simp_all add: raise_high_water_def Let_def)

lemma raise_high_water_ge:
  "high_water md \<le> high_water (raise_high_water J md)"
  "i \<in> set J \<Longrightarrow> 0 \<le> high_water md \<Longrightarrow> intent_order i \<le> high_water (raise_high_water J md)"
proof -
  show "high_water md \<le> high_water (raise_high_water J md)"
    by (auto simp: high_water_def raise_high_water_def Let_def)
  assume "i \<in> set J" "0 \<le> high_water md"
  then have "intent_order i \<le> max_from_0 (map intent_order J)" by (intro max_from_0_ge) auto
  then show "intent_order i \<le> high_water (raise_high_water J md)"
    using \<open>0 \<le> high_water md\<close> by (auto simp: high_water_def raise_high_water_def Let_def)
qed

text \<open>An order in the new state is one of the old state's, or below the new mark.\<close>

lemma orders_grow:
  assumes old: "orders_below md" and ge: "high_water md \<le> high_water md'"
    and "\<And>i. i \<in> set (md_intents md') \<Longrightarrow> i \<in> set (md_intents md) \<or> intent_order i \<le> high_water md'"
    and "\<And>f i. f \<in> set (md_folders md') \<Longrightarrow> i \<in> set (fol_intents f) \<Longrightarrow>
       (\<exists>g \<in> set (md_folders md). \<exists>j \<in> set (fol_intents g). intent_order i = intent_order j) \<or>
       intent_order i \<le> high_water md'"
    and "\<And>o' i. o' \<in> set (md_operations md') \<Longrightarrow> i \<in> set (op_intents o') \<Longrightarrow>
       o' \<in> set (md_operations md) \<or> intent_order i \<le> high_water md'"
  shows "orders_below md'"
proof -
  have "intent_order i \<le> high_water md'" if "i \<in> set (md_intents md)" for i
    using old ge that by (auto simp: orders_below_def)
  moreover have "intent_order j \<le> high_water md'" if "g \<in> set (md_folders md)" "j \<in> set (fol_intents g)" for g j
    using old ge that by (force simp: orders_below_def)
  moreover have "intent_order i \<le> high_water md'" if "o' \<in> set (md_operations md)" "i \<in> set (op_intents o')" for o' i
    using old ge that by (force simp: orders_below_def)
  moreover have "0 \<le> high_water md'" using old ge by (simp add: orders_below_def)
  ultimately show ?thesis unfolding orders_below_def using assms(3-5) by metis
qed

lemma orders_raised: "orders_below md \<Longrightarrow> orders_below (raise_high_water J md)"
  by (rule orders_grow) (auto simp: raise_high_water_ge)

lemma raise_core: "store_core md \<Longrightarrow> store_core (raise_high_water J md)"
  using orders_raised [of md J]
  by (simp add: store_core_def tables_valid_def intents_owned_def journals_kept_def)

section \<open>Writing documents\<close>

text \<open>What validation gives for a write: a well-formed journal that covers the rows stored.\<close>

definition write_fits :: "metadata \<Rightarrow> resource_write \<Rightarrow> bool" where
  "write_fits md w \<longleftrightarrow>
     journal_wf (res_handle (rec_resource (rw_next w))) (rec_intents (rw_next w)) \<and>
     (\<forall>i \<in> set (md_intents md). int_handle i = res_handle (rec_resource (rw_next w)) \<longrightarrow>
        int_id i \<in> int_id ` set (rec_intents (rw_next w)))"

abbreviation write_handle :: "resource_write \<Rightarrow> string" where
  "write_handle w \<equiv> res_handle (rec_resource (rw_next w))"

lemma put_resource_rows:
  assumes "store_core md"
  shows "set (md_resources (put_resource md w)) =
      insert (rec_resource (rw_next w)) {r \<in> set (md_resources md). res_handle r \<noteq> write_handle w}"
    "i \<in> set (md_intents (put_resource md w)) \<Longrightarrow>
      i \<in> set (rec_intents (rw_next w)) \<or>
      i \<in> set (md_intents md) \<and> int_id i \<notin> int_id ` set (rec_intents (rw_next w))"
  using table.rows_put [OF store_tables(1) [OF assms], of _ "rec_resource (rw_next w)"]
    table.rows_bulk_put_cases [OF store_tables(2) [OF assms], of i "rec_intents (rw_next w)"]
  by (auto simp: put_resource_def table_bulk_put_eq)

lemma put_resource_core:
  assumes md: "store_core md" and w: "write_fits md w"
  shows "store_core (put_resource md w)"
proof -
  let ?J = "set (rec_intents (rw_next w))" and ?md = "put_resource md w"
  have J: "int_handle i = write_handle w" "intent_wf (write_handle w) i" if "i \<in> ?J" for i
    using w that by (auto simp: write_fits_def journal_wf_def intent_wf_def)
  have seqs: "inj_on int_sequence ?J" using w by (simp add: write_fits_def journal_wf_def distinct_map)
  have kept: "i \<in> ?J \<or> i \<in> set (md_intents md) \<and> int_handle i \<noteq> write_handle w"
    if "i \<in> set (md_intents ?md)" for i
    using put_resource_rows(2) [OF md that] w by (auto simp: write_fits_def)
  have rows: "set (md_resources ?md) =
      insert (rec_resource (rw_next w)) {r \<in> set (md_resources md). res_handle r \<noteq> write_handle w}"
    by (rule put_resource_rows(1) [OF md])
  have owned: "int_handle i \<in> res_handle ` set (md_resources ?md)" "intent_wf (int_handle i) i"
    if i: "i \<in> set (md_intents ?md)" for i
  proof -
    have "int_handle i \<in> res_handle ` set (md_resources md)" "intent_wf (int_handle i) i"
      if "i \<in> set (md_intents md)" using md that by (auto simp: store_core_def intents_owned_def)
    then show "int_handle i \<in> res_handle ` set (md_resources ?md)" "intent_wf (int_handle i) i"
      using kept [OF i] J [of i] unfolding rows by auto
  qed
  have same: "i = j" if "i \<in> set (md_intents ?md)" "j \<in> set (md_intents ?md)"
    "int_handle i = int_handle j" "int_sequence i = int_sequence j" for i j
  proof -
    have "i = j" if "i \<in> set (md_intents md)" "j \<in> set (md_intents md)"
      using md that \<open>int_handle i = int_handle j\<close> \<open>int_sequence i = int_sequence j\<close>
      by (auto simp: store_core_def intents_owned_def)
    then show ?thesis
      using kept [OF that(1)] kept [OF that(2)] J(1) [of i] J(1) [of j] seqs that(3,4) by (auto simp: inj_on_def)
  qed
  have "intents_owned ?md" unfolding intents_owned_def using owned same by blast
  moreover have "tables_valid ?md"
    using md by (simp add: store_core_def tables_valid_def put_resource_def table_bulk_put_eq
        table.put_valid table.bulk_put_valid)
  moreover have "journals_kept ?md"
    using md by (simp add: store_core_def journals_kept_def put_resource_def)
  moreover have "orders_below ?md"
  proof -
    have old: "orders_below md" using md by (simp add: store_core_def)
    let ?mid = "md\<lparr>md_resources := table_put res_handle (rec_resource (rw_next w)) (md_resources md),
          md_intents := table_bulk_put int_id (rec_intents (rw_next w)) (md_intents md)\<rparr>"
    have hw: "high_water ?mid = high_water md" by (simp add: high_water_def)
    have put: "?md = raise_high_water (rec_intents (rw_next w)) ?mid" by (simp add: put_resource_def)
    have ge: "high_water md \<le> high_water ?md" unfolding put using raise_high_water_ge(1) hw by metis
    have "i \<in> set (md_intents md) \<or> intent_order i \<le> high_water ?md" if "i \<in> set (md_intents ?md)" for i
    proof (cases "i \<in> ?J")
      case True
      then show ?thesis unfolding put
        using raise_high_water_ge(2) [of i "rec_intents (rw_next w)" ?mid] hw old
        by (simp add: orders_below_def)
    next
      case False
      with kept [OF that] show ?thesis by blast
    qed
    with old ge show ?thesis by - (rule orders_grow [of md], auto simp: put_resource_def)
  qed
  ultimately show ?thesis by (simp add: store_core_def)
qed

text \<open>Several writes to different documents: each still covers the rows of its own document.\<close>

lemma put_resource_fits:
  assumes "store_core md" and "write_fits md w" and "write_fits md v" and "write_handle v \<noteq> write_handle w"
  shows "write_fits (put_resource md w) v"
  using assms put_resource_rows(2) [OF assms(1), of _ w]
  by (fastforce simp: write_fits_def journal_wf_def intent_wf_def)

lemma put_resources_Cons: "put_resources (w # ws) md = put_resources ws (put_resource md w)"
  by (simp add: put_resources_def)

lemma put_resources_core:
  "store_core md \<Longrightarrow> (\<And>w. w \<in> set ws \<Longrightarrow> write_fits md w) \<Longrightarrow> distinct (map write_handle ws) \<Longrightarrow>
     store_core (put_resources ws md)"
proof (induction ws arbitrary: md)
  case (Cons w ws)
  have "store_core (put_resource md w)" using put_resource_core Cons.prems(1,2) by simp
  moreover have "write_fits (put_resource md w) v" if "v \<in> set ws" for v
  proof (rule put_resource_fits [OF Cons.prems(1)])
    show "write_fits md w" "write_fits md v" using Cons.prems(2) that by simp_all
    show "write_handle v \<noteq> write_handle w" using Cons.prems(3) imageI [OF that, of write_handle] by auto
  qed
  ultimately show ?case using Cons.IH Cons.prems(3) by (simp add: put_resources_Cons)
qed (simp add: put_resources_def)

lemma put_resources_fields [simp]:
  "md_resources (put_resources ws md) =
     table_bulk_put res_handle (map (\<lambda>w. rec_resource (rw_next w)) ws) (md_resources md)"
  "md_intents (put_resources ws md) =
     table_bulk_put int_id (concat (map (\<lambda>w. rec_intents (rw_next w)) ws)) (md_intents md)"
  "md_folders (put_resources ws md) = md_folders md" "md_operations (put_resources ws md) = md_operations md"
  "md_catalogs (put_resources ws md) = md_catalogs md"
  by (induction ws arbitrary: md; simp add: put_resources_def put_resource_def table_bulk_put_def)+

section \<open>What validation gives\<close>

lemma validated_journal:
  assumes "validate_resource md p n = Inr ()"
  shows "journal_wf (res_handle (rec_resource n)) (rec_intents n)"
    "p = Some q \<Longrightarrow> i \<in> set (rec_intents q) \<Longrightarrow> \<exists>j \<in> set (rec_intents n). intent_continues i j"
    "p = Some q \<Longrightarrow> res_handle (rec_resource n) = res_handle (rec_resource q)"
proof -
  have acc: "record_accepts p n" using assms by (auto simp: validate_resource_def record_accepts_def)
  show "journal_wf (res_handle (rec_resource n)) (rec_intents n)"
    using validated_wf [OF record_accepts_checks(7) [OF acc]] by (simp add: record_journal_input_def)
  show "\<exists>j \<in> set (rec_intents n). intent_continues i j" if "p = Some q" "i \<in> set (rec_intents q)"
    using accepted_update_continues document.accepts_journal acc that by blast
  show "res_handle (rec_resource n) = res_handle (rec_resource q)" if "p = Some q"
    using document.accepts_key acc that by blast
qed

lemma validated_folder_journal:
  assumes "validate_folder md p n = Inr ()"
  shows "journal_wf (fol_handle n) (fol_intents n)"
proof -
  have "folder_accepts p n" using assms by (auto simp: validate_folder_def folder_accepts_def)
  from validated_wf [OF folder_accepts_checks(4) [OF this]] show ?thesis
    by (simp add: folder_journal_input_def)
qed

lemma validated_operation_journal:
  assumes "validate_operation_record_update p n = Inr ()"
  shows "journal_wf (op_operationId n) (op_intents n)"
  using assms validated_wf [of "operation_journal_input p n"]
  by (simp add: validate_operation_record_update_def operation_journal_input_def)

lemma continues_id: "intent_continues i j \<Longrightarrow> int_id j = int_id i"
  by (simp add: intent_continues_def)

lemma validated_fits:
  assumes md: "store_core md"
    and v: "validate_resource md (map_option (stored_record md) (table_get res_handle (write_handle w) (md_resources md)))
      (rw_next w) = Inr ()"
  shows "write_fits md w"
proof -
  have "int_id i \<in> int_id ` set (rec_intents (rw_next w))"
    if i: "i \<in> set (md_intents md)" "int_handle i = write_handle w" for i
  proof (cases "table_get res_handle (write_handle w) (md_resources md)")
    case None
    then have "write_handle w \<notin> res_handle ` set (md_resources md)"
      by (auto simp: table_get_def find_None_conv)
    moreover have "int_handle i \<in> res_handle ` set (md_resources md)"
      using md i(1) by (simp add: store_core_def intents_owned_def)
    ultimately show ?thesis using i(2) by simp
  next
    case (Some res)
    then have "res_handle res = write_handle w" by (simp add: table_get_iff [OF store_tables(1) [OF md]])
    then have "i \<in> set (rec_intents (stored_record md res))" using i by simp
    with validated_journal(2) [OF v, of "stored_record md res" i] Some
    obtain j where "j \<in> set (rec_intents (rw_next w))" "intent_continues i j" by auto
    then show ?thesis using continues_id [of i j] by (metis imageI)
  qed
  with validated_journal(1) [OF v] show ?thesis by (simp add: write_fits_def)
qed

lemma current_writes_fit:
  assumes md: "store_core md"
  shows "writes_current md keys claimed ws = Inr True \<Longrightarrow>
     (\<forall>w \<in> set ws. write_fits md w \<and> write_handle w \<notin> keys) \<and> distinct (map write_handle ws)"
proof (induction ws arbitrary: keys claimed)
  case (Cons w ws)
  from Cons.prems obtain claimed' where
    w: "validate_resource md (map_option (stored_record md) (table_get res_handle (write_handle w) (md_resources md)))
      (rw_next w) = Inr ()" "write_handle w \<notin> keys"
    and rest: "writes_current md (insert (write_handle w) keys) claimed' ws = Inr True"
    by (auto simp: Let_def split: if_splits)
  from Cons.IH [OF rest] validated_fits [OF md w(1)] w(2) show ?case by auto
qed simp

text \<open>A batch of current writes keeps the store well formed, one document for each id included.\<close>

lemma current_put_ok:
  assumes md: "store_core md" and c: "is_current md ws = Inr True"
  shows "store_ok (put_resources ws md)"
proof -
  from c have w: "writes_current md {} {} ws = Inr True" and
    ids: "distinct (map res_documentId (table_bulk_put res_handle (map (\<lambda>w. rec_resource (rw_next w)) ws) (md_resources md)))"
    by (auto simp: is_current_def)
  from current_writes_fit [OF md w] have "store_core (put_resources ws md)"
    using put_resources_core [OF md] by blast
  with ids show ?thesis by (simp add: store_ok_def one_id_each_def)
qed

section \<open>Writing folders\<close>

lemma bulk_put_one: "table_bulk_put key [x] t = table_put key x t"
  by (simp add: table_bulk_put_def)

lemma put_folders_core:
  assumes md: "store_core md"
    and same: "md_resources md' = md_resources md" "md_intents md' = md_intents md"
      "md_operations md' = md_operations md" "md_catalogs md' = md_catalogs md"
    and put: "md_folders md' = table_bulk_put fol_handle fs (md_folders md)"
    and ge: "high_water md \<le> high_water md'"
    and fs: "\<And>f. f \<in> set fs \<Longrightarrow> journal_wf (fol_handle f) (fol_intents f)"
      "\<And>f i. f \<in> set fs \<Longrightarrow> i \<in> set (fol_intents f) \<Longrightarrow>
         (\<exists>g \<in> set (md_folders md). \<exists>j \<in> set (fol_intents g). intent_order i = intent_order j) \<or>
         intent_order i \<le> high_water md'"
  shows "store_core md'"
proof -
  have rows: "f \<in> set fs \<or> f \<in> set (md_folders md)" if "f \<in> set (md_folders md')" for f
    using table.rows_bulk_put_sub [OF store_tables(3) [OF md]] that unfolding put table_bulk_put_eq by blast
  have "tables_valid md'"
    using md by (simp add: store_core_def tables_valid_def same put table_bulk_put_eq table.bulk_put_valid)
  moreover have "intents_owned md'" using md by (simp add: store_core_def intents_owned_def same)
  moreover have "journals_kept md'"
    using md rows fs(1) by (auto simp: store_core_def journals_kept_def same)
  moreover have "orders_below md'"
  proof (rule orders_grow [OF _ ge])
    show "orders_below md" using md by (simp add: store_core_def)
    show "(\<exists>g \<in> set (md_folders md). \<exists>j \<in> set (fol_intents g). intent_order i = intent_order j) \<or>
       intent_order i \<le> high_water md'" if "f \<in> set (md_folders md')" "i \<in> set (fol_intents f)" for f i
      using rows [OF that(1)] fs(2) that(2) by blast
  qed (use same in auto)
  ultimately show ?thesis by (simp add: store_core_def)
qed

lemma current_folders:
  "folder_writes_current md handles ws = Inr True \<Longrightarrow> w \<in> set ws \<Longrightarrow>
     validate_folder md (read_folder (fol_handle (fw_next w)) md) (fw_next w) = Inr ()"
  by (induction ws arbitrary: handles) (auto simp: Let_def split: if_splits)

section \<open>Writing descriptors alone\<close>

text \<open>Replacing stored documents under the same handle and document id, their intents untouched.\<close>

lemma put_descriptors_ok:
  assumes md: "store_ok md"
    and xs: "\<And>x. x \<in> set xs \<Longrightarrow> \<exists>y \<in> set (md_resources md).
       res_handle y = res_handle x \<and> res_documentId y = res_documentId x"
  shows "store_ok (md\<lparr>md_resources := table_bulk_put res_handle xs (md_resources md)\<rparr>)"
proof -
  let ?t = "table_bulk_put res_handle xs (md_resources md)"
  have core: "store_core md" and ids: "distinct (map res_documentId (md_resources md))"
    using md by (simp_all add: store_ok_def one_id_each_def)
  note valid = store_tables(1) [OF core]
  have vt: "table_valid res_handle ?t" by (simp add: table_bulk_put_eq table.bulk_put_valid valid)
  have old: "\<exists>y \<in> set (md_resources md). res_handle y = res_handle z \<and> res_documentId y = res_documentId z"
    if "z \<in> set ?t" for z
    using table.rows_bulk_put_sub [OF valid that [unfolded table_bulk_put_eq]] xs by blast
  have "inj_on res_documentId (set ?t)"
  proof (rule inj_onI)
    fix z z' assume z: "z \<in> set ?t" "z' \<in> set ?t" and same: "res_documentId z = res_documentId z'"
    from old [OF z(1)] obtain y where y: "y \<in> set (md_resources md)" "res_handle y = res_handle z"
      "res_documentId y = res_documentId z" by blast
    from old [OF z(2)] obtain y' where y': "y' \<in> set (md_resources md)" "res_handle y' = res_handle z'"
      "res_documentId y' = res_documentId z'" by blast
    have "y = y'" using ids y(1,3) y'(1,3) same by (auto simp: distinct_map inj_on_def)
    then have "res_handle z = res_handle z'" using y y' by simp
    then show "z = z'" using table_valid_distinct [OF vt] z by (auto simp: distinct_map inj_on_def)
  qed
  moreover have "distinct ?t" using table_valid_distinct [OF vt] by (simp add: distinct_map)
  moreover have "res_handle ` set (md_resources md) \<subseteq> res_handle ` set ?t"
    unfolding table_bulk_put_eq table.rows_bulk_put_keys [OF valid] by blast
  then have "store_core (md\<lparr>md_resources := ?t\<rparr>)"
    using core vt unfolding store_core_def tables_valid_def intents_owned_def journals_kept_def
      orders_below_def high_water_def by auto
  ultimately show ?thesis by (simp add: store_ok_def one_id_each_def distinct_map)
qed

end
