(* ===== verification/Store_Transactions.thy ===== *)
theory Store_Transactions
  imports Store_Invariant
begin

text \<open>
  Every transaction of the metadata store keeps it well formed, a stored write reads back as written
  with no other document touched, and a folder's new id leaves no unsent placement behind.
\<close>

section \<open>Documents\<close>

lemma ok_core: "store_ok md \<Longrightarrow> store_core md"
  by (simp add: store_ok_def)

lemma commit_resource_ok:
  "store_ok md \<Longrightarrow> commit_resource w md = Inr (Some md') \<Longrightarrow> store_ok md'"
  using current_put_ok [of md "[w]"] by (auto simp: commit_resource_def store_ok_def split: if_splits)

section \<open>The documents of a deleted folder\<close>

lemma deletion_writes_over:
  "deletion_writes removed receipt rs = Inr ws \<Longrightarrow> w \<in> set ws \<Longrightarrow>
     \<exists>r \<in> set rs. write_handle w = res_handle (rec_resource r) \<and>
       res_documentId (rec_resource (rw_next w)) = res_documentId (rec_resource r)"
proof (induction rs arbitrary: ws)
  case (Cons r rs)
  show ?case
  proof (cases "deletion_reaches removed (rec_resource r)")
    case (Inr reached)
    show ?thesis
    proof (cases reached)
      case False
      with Cons Inr show ?thesis by auto
    next
      case True
      with Cons.prems Inr obtain res rest where
        res: "committed_resource_deletion (rec_resource r) (dv_availabilityGeneration removed)
          (rcpt_operationId receipt) (rcpt_observationVersion receipt) = Inr res"
        and rest: "deletion_writes removed receipt rs = Inr rest"
        and ws: "ws = resource_update r (res\<lparr>res_revision := res_revision (rec_resource r) + 1\<rparr>)
                (rec_intents r) # rest" by auto
      have "res_handle res = res_handle (rec_resource r)" "res_documentId res = res_documentId (rec_resource r)"
        using res by (auto simp: committed_resource_deletion_def split: if_splits)
      then show ?thesis using Cons.IH [OF rest] Cons.prems(2) by (auto simp: ws resource_update_def)
    qed
  qed (use Cons.prems in simp)
qed simp

lemma settle_descendants_ok:
  assumes md: "store_ok md" and s: "settle_descendants previous n md = Inr md'"
  shows "store_ok md' \<and> md_intents md' = md_intents md \<and> md_folders md' = md_folders md \<and>
     md_highWater md' = md_highWater md"
proof (cases "folder_deletion_settlement previous n")
  case None
  with assms show ?thesis by (simp add: settle_descendants_def)
next
  case (Some receipt)
  with s obtain ws where ws: "plan_folder_deletion_resources receipt (stored_records md) = Inr ws"
    and md': "md' = md\<lparr>md_resources := table_bulk_put res_handle (map (\<lambda>w. rec_resource (rw_next w)) ws)
      (md_resources md)\<rparr>"
    by (auto simp: settle_descendants_def)
  have "\<exists>y \<in> set (md_resources md). res_handle y = res_handle x \<and> res_documentId y = res_documentId x"
    if x: "x \<in> set (map (\<lambda>w. rec_resource (rw_next w)) ws)" for x
  proof -
    from x obtain w where w: "w \<in> set ws" "x = rec_resource (rw_next w)" by auto
    from ws w(1) obtain removed where "deletion_writes removed receipt (stored_records md) = Inr ws"
      by (auto simp: plan_folder_deletion_resources_def split: operation_answer.splits sum.splits)
    from deletion_writes_over [OF this w(1)] w(2) show ?thesis by (auto simp: stored_records_def)
  qed
  with put_descriptors_ok [OF md, of "map (\<lambda>w. rec_resource (rw_next w)) ws"] show ?thesis
    by (simp add: md')
qed

section \<open>Following a reminted folder\<close>

lemma find_stored:
  "find (\<lambda>r. res_handle (rec_resource r) = h) (stored_records md) =
     map_option (stored_record md) (table_get res_handle h (md_resources md))"
proof -
  have "find (\<lambda>r. res_handle (rec_resource r) = h) (map (stored_record md) t) =
      map_option (stored_record md) (find (\<lambda>x. res_handle x = h) t)" for t by (induction t) simp_all
  then show ?thesis by (simp add: stored_records_def table_get_def)
qed

lemma distinct_map_filter_keys:
  "distinct (map k xs) \<Longrightarrow> (\<And>x y. f x = Some y \<Longrightarrow> j y = k x) \<Longrightarrow> distinct (map j (List.map_filter f xs))"
proof (induction xs)
  case (Cons x xs)
  have "j y \<in> k ` set xs" if "y \<in> set (List.map_filter f xs)" for y
    using that Cons.prems(2) by (auto simp: map_filter_mem)
  with Cons show ?case by (cases "f x") (auto simp: map_filter_simps)
qed (simp add: map_filter_simps)

lemma follow_orders:
  assumes "follow from to J = Some J'" and "n \<in> set J'"
  shows "\<exists>i \<in> set J. intent_order n = intent_order i"
proof -
  from assms(2) consider (moved) i where "i \<in> set J" "n = follow_move from i"
    | (added) "n \<in> set (follow_additions from to J)"
    unfolding follow_shape(1) [OF assms(1)] by auto
  then show ?thesis
  proof cases
    case moved
    then show ?thesis by (intro bexI [of _ i]) (simp_all add: follow_move_def intent_order_def)
  next
    case added
    from follow_addition_from [OF this] obtain i k where "i \<in> set J" "follows_remint i from"
      "n = followed_intent i from to (Max (set (map int_sequence J)) + 1 + int k)" by blast
    then show ?thesis
      by (intro bexI [of _ i]) (auto simp: followed_intent_def intent_order_def renamed_admission_def
          split: option.splits)
  qed
qed

lemma follow_writes_fit:
  assumes md: "store_core md"
    and plan: "plan = plan_folder_remint_dependents from to (stored_records md) folders"
    and v: "for_each (\<lambda>w. validate_resource md
        (find (\<lambda>r. res_handle (rec_resource r) = res_handle (rec_resource (rw_next w))) (stored_records md))
        (rw_next w)) (rd_resources plan) = Inr ()"
  shows "\<forall>w \<in> set (rd_resources plan). write_fits md w" "distinct (map write_handle (rd_resources plan))"
    "w \<in> set (rd_resources plan) \<Longrightarrow> \<exists>y \<in> set (md_resources md). res_handle y = write_handle w \<and>
       res_documentId y = res_documentId (rec_resource (rw_next w))"
proof -
  show "\<forall>w \<in> set (rd_resources plan). write_fits md w"
    using v validated_fits [OF md] by (simp add: find_stored)
  have handles: "map (\<lambda>r. res_handle (rec_resource r)) (stored_records md) = map res_handle (md_resources md)"
    by (simp add: stored_records_def)
  show "distinct (map write_handle (rd_resources plan))"
    unfolding plan plan_folder_remint_dependents_def remint_dependents_plan.simps
    by (rule distinct_map_filter_keys [where k = "\<lambda>r. res_handle (rec_resource r)"])
       (use handles table_valid_distinct [OF store_tables(1) [OF md]] in
         \<open>auto simp: resource_update_def bumped_def\<close>)
  show "\<exists>y \<in> set (md_resources md). res_handle y = write_handle w \<and>
       res_documentId y = res_documentId (rec_resource (rw_next w))" if "w \<in> set (rd_resources plan)"
    using that unfolding plan followed_from_record
    by (auto simp: stored_records_def resource_update_def bumped_def)
qed

lemma follow_reminted_ok:
  assumes md: "store_ok md" and f: "follow_reminted_folder previousId n md = Inr md'"
  shows "store_ok md'"
proof -
  note core = ok_core [OF md]
  define folders where "folders = filter (\<lambda>f. fol_handle f \<noteq> fol_handle n) (md_folders md)"
  define plan where "plan = plan_folder_remint_dependents previousId (fol_folderId n) (stored_records md) folders"
  let ?mid = "put_resources (rd_resources plan) md"
  from f have vr: "for_each (\<lambda>w. validate_resource md
        (find (\<lambda>r. res_handle (rec_resource r) = res_handle (rec_resource (rw_next w))) (stored_records md))
        (rw_next w)) (rd_resources plan) = Inr ()"
    and vf: "for_each (\<lambda>w. validate_folder md
        (find (\<lambda>f. fol_handle f = fol_handle (fw_next w)) folders) (fw_next w)) (rd_folders plan) = Inr ()"
    and md': "md' = put_folders (map fw_next (rd_folders plan)) ?mid"
    by (auto simp: follow_reminted_folder_def Let_def plan_def folders_def)
  note fit = follow_writes_fit [OF core plan_def vr]
  have mid: "store_core ?mid" using put_resources_core [OF core] fit by blast
  have "store_core md'"
  proof (rule put_folders_core [OF mid])
    fix g assume "g \<in> set (map fw_next (rd_folders plan))"
    then obtain w where w: "w \<in> set (rd_folders plan)" "g = fw_next w" by auto
    then show "journal_wf (fol_handle g) (fol_intents g)" using vf validated_folder_journal by auto
    from w obtain h J where "h \<in> set folders" "follow previousId (fol_folderId n) (fol_intents h) = Some J"
      "fol_intents g = J" unfolding plan_def followed_from_record by (auto simp: folder_update_def)
    then show "(\<exists>g \<in> set (md_folders ?mid). \<exists>j \<in> set (fol_intents g). intent_order i = intent_order j) \<or>
       intent_order i \<le> high_water md'" if "i \<in> set (fol_intents g)" for i
      using follow_orders that by (fastforce simp: folders_def)
  qed (simp_all add: md' put_folders_def high_water_def)
  moreover have "one_id_each md'"
  proof -
    have "store_ok (md\<lparr>md_resources := table_bulk_put res_handle
        (map (\<lambda>w. rec_resource (rw_next w)) (rd_resources plan)) (md_resources md)\<rparr>)"
      using fit(3) by (intro put_descriptors_ok [OF md]) auto
    then show ?thesis by (simp add: store_ok_def one_id_each_def md' put_folders_def)
  qed
  ultimately show ?thesis by (simp add: store_ok_def)
qed

section \<open>Folders\<close>

lemma one_id_kept: "md_resources md' = md_resources md \<Longrightarrow> one_id_each md' = one_id_each md"
  by (simp add: one_id_each_def)

lemma commit_folder_write_ok:
  assumes md: "store_ok md" and c: "commit_folder_write w md = Inr (Some md')"
  shows "store_ok md'"
proof -
  let ?n = "fw_next w"
  from c obtain settled followed where cur: "folders_are_current md [w] = Inr True"
    and s: "settle_descendants (read_folder (fol_handle ?n) md) ?n md = Inr settled"
    and f: "(case read_folder (fol_handle ?n) md of None \<Rightarrow> Inr settled
         | Some p \<Rightarrow> if fol_folderId p \<noteq> fol_folderId ?n
             then follow_reminted_folder (fol_folderId p) ?n settled else Inr settled) = Inr followed"
    and md': "md' = raise_high_water (fol_intents ?n) (put_folder ?n followed)"
    by (auto simp: commit_folder_write_def Let_def split: if_splits)
  have ok: "store_ok followed"
    using settle_descendants_ok [OF md s] f follow_reminted_ok by (auto split: option.splits if_splits)
  note core = ok_core [OF ok]
  have j: "journal_wf (fol_handle ?n) (fol_intents ?n)"
    using current_folders [of md "{}" "[w]" w] cur validated_folder_journal by (auto simp: folders_are_current_def)
  have hw: "high_water (put_folder ?n followed) = high_water followed"
    by (simp add: high_water_def put_folder_def)
  have "store_core md'"
  proof (rule put_folders_core [OF core, of _ "[?n]"])
    show "high_water followed \<le> high_water md'" unfolding md' hw [symmetric] by (rule raise_high_water_ge)
    have "0 \<le> high_water followed" using core by (simp add: store_core_def orders_below_def)
    then show "(\<exists>g \<in> set (md_folders followed). \<exists>j \<in> set (fol_intents g). intent_order i = intent_order j) \<or>
       intent_order i \<le> high_water md'" if "g \<in> set [?n]" "i \<in> set (fol_intents g)" for g i
      using raise_high_water_ge(2) [of i "fol_intents ?n" "put_folder ?n followed"] that hw by (simp add: md')
  qed (use j in \<open>simp_all add: md' put_folder_def bulk_put_one\<close>)
  with ok show ?thesis using one_id_kept [of md' followed] by (simp add: store_ok_def md' put_folder_def)
qed

section \<open>Operations and their roots\<close>

lemma put_operation_ok:
  assumes md: "store_ok md" and v: "validate_operation_record_update p n = Inr ()"
  shows "store_ok (raise_high_water (op_intents n)
     (md\<lparr>md_operations := table_put op_operationId n (md_operations md)\<rparr>))"
proof -
  let ?mid = "md\<lparr>md_operations := table_put op_operationId n (md_operations md)\<rparr>"
  let ?md = "raise_high_water (op_intents n) ?mid"
  have core: "tables_valid md" "intents_owned md" "journals_kept md" "orders_below md"
    using md by (simp_all add: store_ok_def store_core_def)
  have rows: "o' = n \<or> o' \<in> set (md_operations md)" if "o' \<in> set (md_operations ?md)" for o'
    using table.rows_put [of op_operationId "md_operations md" o' n] core(1) that
    by (auto simp: tables_valid_def)
  have hw: "high_water ?mid = high_water md" by (simp add: high_water_def)
  have "orders_below ?md"
  proof (rule orders_grow [OF core(4)])
    show "high_water md \<le> high_water ?md" using raise_high_water_ge(1) [of ?mid] hw by simp
    show "o' \<in> set (md_operations md) \<or> intent_order i \<le> high_water ?md"
      if "o' \<in> set (md_operations ?md)" "i \<in> set (op_intents o')" for o' i
      using rows [OF that(1)] raise_high_water_ge(2) [of i "op_intents n" ?mid] that(2) core(4) hw
      by (auto simp: orders_below_def)
  qed auto
  moreover have "tables_valid ?md" using core(1) by (simp add: tables_valid_def table.put_valid)
  moreover have "intents_owned ?md" using core(2) by (simp add: intents_owned_def)
  moreover have "journals_kept ?md"
    using core(3) rows validated_operation_journal [OF v] by (auto simp: journals_kept_def)
  ultimately show ?thesis using md one_id_kept [of ?md md] by (simp add: store_ok_def store_core_def)
qed

text \<open>The folders a Copy creates have no commands yet, as \<^verbatim>\<open>newCopyRootRecord\<close> writes them.\<close>

definition roots_unsent :: "operation_write \<Rightarrow> bool" where
  "roots_unsent w \<longleftrightarrow> (case Option.bind (ow_roots w) roots_created of None \<Rightarrow> True
     | Some created \<Rightarrow> \<forall>f \<in> set (cr_folders created). fol_intents f = [])"

lemma create_roots_ok:
  assumes md: "store_ok md" and c: "create_roots created md = Inr md'"
    and unsent: "\<forall>f \<in> set (cr_folders created). fol_intents f = []"
  shows "store_ok md'"
proof -
  let ?ws = "map (\<lambda>r. \<lparr>rw_expectedRevision = None, rw_next = r\<rparr>) (cr_resources created)"
  let ?mid = "put_resources ?ws md"
  from c have "is_current md ?ws = Inr True" and md': "md' = put_folders (cr_folders created) ?mid"
    by (auto simp: create_roots_def Let_def split: if_splits)
  then have ok: "store_ok ?mid" using current_put_ok [OF ok_core [OF md]] by blast
  have "store_core md'"
    by (rule put_folders_core [OF ok_core [OF ok], of _ "cr_folders created"])
       (use unsent in \<open>simp_all add: md' put_folders_def high_water_def journal_wf_def\<close>)
  with ok show ?thesis using one_id_kept [of md' ?mid] by (simp add: store_ok_def md' put_folders_def)
qed

lemma put_folder_kept:
  assumes md: "store_ok md" and f: "f \<in> set (md_folders md)" and same: "fol_intents n = fol_intents f"
    and j: "journal_wf (fol_handle n) (fol_intents n)"
  shows "store_ok (put_folder n md)"
proof -
  have "store_core (put_folder n md)"
    by (rule put_folders_core [OF ok_core [OF md], of _ "[n]"])
       (use f same j in \<open>auto simp: put_folder_def bulk_put_one high_water_def\<close>)
  with md show ?thesis using one_id_kept [of "put_folder n md" md] by (simp add: store_ok_def put_folder_def)
qed

lemma place_roots_ok: "store_ok md \<Longrightarrow> place_roots k ps md = Inr md' \<Longrightarrow> store_ok md'"
proof (induction k ps md rule: place_roots.induct)
  case (2 k place rest md)
  show ?case
  proof (cases "rp_kind place = FolderKind")
    case folder: True
    show ?thesis
    proof (cases "read_folder (rp_handle place) md")
      case None
      with 2 folder show ?thesis by simp
    next
      case (Some f)
      let ?n = "place_folder_root f place k"
      from 2(6) folder Some have v: "validate_folder md (Some f) ?n = Inr ()"
        and rest: "place_roots k rest (put_folder ?n md) = Inr md'" by (auto simp: Let_def)
      have "f \<in> set (md_folders md)"
        using Some table_get_iff [OF store_tables(3) [OF ok_core [OF 2(5)]]] by (auto simp: read_folder_def)
      then have "store_ok (put_folder ?n md)"
        using put_folder_kept [OF 2(5)] validated_folder_journal [OF v] by (simp add: place_folder_root_def)
      with 2(2) [OF folder Some refl _ rest] show ?thesis by simp
    qed
  next
    case document: False
    show ?thesis
    proof (cases "read_resource (rp_handle place) md")
      case None
      with 2 document show ?thesis by simp
    next
      case (Some r)
      let ?n = "place_resource_root r place k"
      let ?md = "md\<lparr>md_resources := table_put res_handle (rec_resource ?n) (md_resources md)\<rparr>"
      from 2(6) document Some have v: "validate_resource md (Some r) ?n = Inr ()"
        and rest: "place_roots k rest ?md = Inr md'" by (auto simp: Let_def)
      from Some obtain res where res: "table_get res_handle (rp_handle place) (md_resources md) = Some res"
        "r = stored_record md res" by (auto simp: read_resource_def)
      then have "res \<in> set (md_resources md)" by (simp add: table_get_iff [OF store_tables(1) [OF ok_core [OF 2(5)]]])
      then have "store_ok ?md"
        using put_descriptors_ok [OF 2(5), of "[rec_resource ?n]"] res(2)
        by (auto simp: place_resource_root_def Let_def bulk_put_one)
      with 2(4) [OF document Some refl _ rest] show ?thesis by simp
    qed
  qed
qed simp

lemma drop_root_ok: "store_ok md \<Longrightarrow> store_ok (drop_root md h)"
proof -
  assume md: "store_ok md"
  note valid = store_tables [OF ok_core [OF md]]
  have rows: "set (md_resources (drop_root md h)) = {r \<in> set (md_resources md). res_handle r \<noteq> h}"
    "set (md_intents (drop_root md h)) = {i \<in> set (md_intents md). int_handle i \<noteq> h}"
    "set (md_folders (drop_root md h)) = {f \<in> set (md_folders md). fol_handle f \<noteq> h}"
    by (simp_all add: drop_root_def table_delete_def)
  have "tables_valid (drop_root md h)"
    using valid table.delete_valid by (simp add: tables_valid_def drop_root_def table_valid_def table_delete_def
        sorted_wrt_filter)
  moreover have "intents_owned (drop_root md h)"
    using md unfolding intents_owned_def rows store_ok_def store_core_def by auto
  moreover have "journals_kept (drop_root md h)"
    using md unfolding journals_kept_def rows store_ok_def store_core_def by (auto simp: drop_root_def)
  moreover have "orders_below (drop_root md h)"
    by (rule orders_grow [of md]) (use md rows in \<open>auto simp: store_ok_def store_core_def drop_root_def high_water_def\<close>)
  moreover have "one_id_each (drop_root md h)"
    using md by (simp add: store_ok_def one_id_each_def drop_root_def table_delete_def distinct_map_filter)
  ultimately show ?thesis by (simp add: store_ok_def store_core_def)
qed

lemma commit_operation_ok:
  assumes md: "store_ok md" and c: "commit_operation_write w md = Inr (Some md')" and u: "roots_unsent w"
  shows "store_ok md'"
proof -
  let ?md1 = "raise_high_water (op_intents (ow_next w))
     (md\<lparr>md_operations := table_put op_operationId (ow_next w) (md_operations md)\<rparr>)"
  from c have v: "validate_operation_record_update (read_operation (op_operationId (ow_next w)) md) (ow_next w) = Inr ()"
    and r: "(case ow_roots w of None \<Rightarrow> Inr ?md1 | Some roots \<Rightarrow>
        write_roots (op_operationId (ow_next w)) roots ?md1) = Inr md'"
    by (auto simp: commit_operation_write_def Let_def split: if_splits)
  have ok: "store_ok ?md1" by (rule put_operation_ok [OF md v])
  show ?thesis
  proof (cases "ow_roots w")
    case None
    with r ok show ?thesis by simp
  next
    case (Some roots)
    with r obtain md2 md3 where
      created: "(case roots_created roots of None \<Rightarrow> Inr ?md1 | Some created \<Rightarrow> create_roots created ?md1) = Inr md2"
      and placed: "place_roots (op_operationId (ow_next w))
        (case roots_placed roots of None \<Rightarrow> [] | Some ps \<Rightarrow> ps) md2 = Inr md3"
      and md': "md' = foldl drop_root md3 (case roots_dropped roots of None \<Rightarrow> [] | Some hs \<Rightarrow> hs)"
      by (auto simp: write_roots_def)
    have "store_ok md2" using created ok u Some create_roots_ok by (auto simp: roots_unsent_def split: option.splits)
    then have "store_ok md3" using place_roots_ok placed by blast
    moreover have "store_ok (foldl drop_root m hs)" if "store_ok m" for m hs
      using that by (induction hs arbitrary: m) (simp_all add: drop_root_ok)
    ultimately show ?thesis by (simp add: md')
  qed
qed

lemma retire_operation_ok: "store_ok md \<Longrightarrow> retire_operation k r md = Some md' \<Longrightarrow> store_ok md'"
proof -
  assume md: "store_ok md" and "retire_operation k r md = Some md'"
  then have md': "md' = md\<lparr>md_operations := table_delete op_operationId k (md_operations md)\<rparr>"
    by (auto simp: retire_operation_def split: if_splits)
  have "orders_below md'"
    by (rule orders_grow [of md]) (use md in \<open>auto simp: md' store_ok_def store_core_def table_delete_def high_water_def\<close>)
  then show ?thesis
    using md table.delete_valid [OF store_tables(4) [OF ok_core [OF md]]]
    by (auto simp: md' store_ok_def store_core_def tables_valid_def intents_owned_def journals_kept_def
        one_id_each_def table_delete_def)
qed

section \<open>Catalogs\<close>

lemma commit_catalog_ok:
  assumes md: "store_ok md" and c: "commit_catalog inp md = Inr (Some md')"
  shows "store_ok md'"
proof -
  let ?mid = "put_resources (ccm_resources inp) md"
  let ?md1 = "put_folders (map fw_next (ccm_folders inp)) ?mid"
  let ?J = "concat (map (\<lambda>w. fol_intents (fw_next w)) (ccm_folders inp))"
  let ?md2 = "raise_high_water ?J ?md1"
  from c have cur: "is_current md (ccm_resources inp) = Inr True" "folders_are_current md (ccm_folders inp) = Inr True"
    and md': "md' = ?md2\<lparr>md_catalogs := table_put checkpoint_key (ccm_next inp) (md_catalogs ?md2)\<rparr>"
    by (auto simp: commit_catalog_def Let_def split: if_splits)
  have ok: "store_ok ?mid" using current_put_ok [OF ok_core [OF md] cur(1)] .
  note core = ok_core [OF ok]
  have hw: "high_water ?md1 = high_water ?mid" by (simp add: high_water_def put_folders_def)
  have "store_core ?md2"
  proof (rule put_folders_core [OF core, of _ "map fw_next (ccm_folders inp)"])
    show "high_water ?mid \<le> high_water ?md2" using raise_high_water_ge(1) [of ?md1] hw by simp
    fix g assume "g \<in> set (map fw_next (ccm_folders inp))"
    then obtain w where w: "w \<in> set (ccm_folders inp)" "g = fw_next w" by auto
    then show "journal_wf (fol_handle g) (fol_intents g)"
      using current_folders cur(2) validated_folder_journal unfolding folders_are_current_def by blast
    have "0 \<le> high_water ?md1" using core hw by (simp add: store_core_def orders_below_def)
    then show "(\<exists>g \<in> set (md_folders ?mid). \<exists>j \<in> set (fol_intents g). intent_order i = intent_order j) \<or>
       intent_order i \<le> high_water ?md2" if "i \<in> set (fol_intents g)" for i
      using raise_high_water_ge(2) [of i ?J ?md1] w that by auto
  qed (simp_all add: put_folders_def)
  then have "store_core md'"
    by (auto simp: md' store_core_def tables_valid_def intents_owned_def journals_kept_def orders_below_def
        high_water_def table.put_valid)
  with ok show ?thesis using one_id_kept [of md' ?mid] by (simp add: store_ok_def md' put_folders_def)
qed

section \<open>All transactions\<close>

text \<open>
  A commit of an operation is taken with roots that hold no commands. The transaction itself does not
  check that; it holds of the roots \<^verbatim>\<open>newCopyRootRecord\<close> builds, the only ones the sources pass to it.
\<close>

inductive store_step :: "metadata \<Rightarrow> metadata \<Rightarrow> bool" where
  resource: "commit_resource w md = Inr (Some md') \<Longrightarrow> store_step md md'"
| folder: "commit_folder_write v md = Inr (Some md') \<Longrightarrow> store_step md md'"
| operation: "commit_operation_write ow md = Inr (Some md') \<Longrightarrow> roots_unsent ow \<Longrightarrow> store_step md md'"
| retire: "retire_operation k r md = Some md' \<Longrightarrow> store_step md md'"
| catalog: "commit_catalog inp md = Inr (Some md') \<Longrightarrow> store_step md md'"

inductive_cases store_stepE: "store_step md md'"

lemma store_step_ok: "store_step md md' \<Longrightarrow> store_ok md \<Longrightarrow> store_ok md'"
  by (elim store_stepE) (auto intro: commit_resource_ok commit_folder_write_ok commit_operation_ok
      retire_operation_ok commit_catalog_ok)

text \<open>The stores a browser can hold: the empty one and what transactions make of it.\<close>

inductive reachable_store :: "metadata \<Rightarrow> bool" where
  empty: "reachable_store empty_metadata"
| step: "reachable_store md \<Longrightarrow> store_step md md' \<Longrightarrow> reachable_store md'"

lemma empty_store_ok: "store_ok empty_metadata"
  by (simp add: store_ok_def store_core_def tables_valid_def table_valid_def intents_owned_def journals_kept_def
      orders_below_def high_water_def one_id_each_def empty_metadata_def)

lemma reachable_ok: "reachable_store md \<Longrightarrow> store_ok md"
  by (induction rule: reachable_store.induct) (auto intro: empty_store_ok store_step_ok)

end
