(* ===== verification/Store_Refinement.thy ===== *)
theory Store_Refinement
  imports Store_Transactions Document_Replay Resource_Creation
begin

text \<open>
  What the store promises the journals over it: a document's commit is the compare-and-set its replay
  loop assumes, a folder's new id leaves no unsent placement behind, and admitting a placement reads
  everything in flight and a fresh order.
\<close>

section \<open>Reading back\<close>

lemma sorted_journal_unique:
  assumes "journal_wf h xs" and "journal_wf h ys" and "set xs = set ys"
  shows "sort_key int_sequence xs = sort_key int_sequence ys"
proof (rule map_sorted_distinct_set_unique [where f = int_sequence])
  show "inj_on int_sequence (set (sort_key int_sequence xs) \<union> set (sort_key int_sequence ys))"
    using assms by (simp add: journal_wf_def distinct_map)
  have "distinct xs \<and> distinct ys" using assms by (simp add: journal_wf_def distinct_map)
  moreover have "inj_on int_sequence (set xs)" "inj_on int_sequence (set ys)"
    using assms by (simp_all add: journal_wf_def distinct_map)
  ultimately show "distinct (map int_sequence (sort_key int_sequence xs))"
    "distinct (map int_sequence (sort_key int_sequence ys))" by (simp_all add: distinct_map)
qed (use assms in simp_all)

lemma journal_wf_sorted: "journal_wf h (sort_key int_sequence xs) = journal_wf h xs"
proof -
  have "distinct (map k (sort_key int_sequence xs)) = distinct (map k xs)" for k :: "namespace_intent \<Rightarrow> 'a"
    by (simp add: distinct_map)
  then show ?thesis by (simp add: journal_wf_def distinct_map)
qed

lemma stored_intents_of:
  assumes md: "store_core md" and J: "journal_wf (res_handle res) J"
    and same: "{i \<in> set (md_intents md). int_handle i = res_handle res} = set J"
  shows "rec_intents (stored_record md res) = sort_key int_sequence J"
proof -
  have "journal_wf (res_handle res) (filter (\<lambda>i. int_handle i = res_handle res) (md_intents md))"
    using stored_journal_wf [OF md, of res] by (simp add: stored_record_def journal_wf_sorted)
  from sorted_journal_unique [OF this J] same show ?thesis by (simp add: stored_record_def)
qed

lemma stored_record_same:
  assumes "store_core md" and "store_core md'"
    and "{i \<in> set (md_intents md'). int_handle i = res_handle res} =
      {i \<in> set (md_intents md). int_handle i = res_handle res}"
  shows "stored_record md' res = stored_record md res"
proof -
  have J: "journal_wf (res_handle res) (rec_intents (stored_record md res))"
    by (rule stored_journal_wf [OF assms(1)])
  have "rec_intents (stored_record md' res) = sort_key int_sequence (rec_intents (stored_record md res))"
    by (rule stored_intents_of [OF assms(2) J]) (use assms(3) in simp)
  also have "\<dots> = rec_intents (stored_record md res)"
    by (simp add: stored_record_def sort_key_id_if_sorted)
  finally show ?thesis by (simp add: stored_record_def)
qed

section \<open>One document\<close>

definition reads_operations :: "metadata \<Rightarrow> resource_record replay_env \<Rightarrow> resource_record replay_env" where
  "reads_operations md env = env\<lparr>re_operation := \<lambda>r. origin_operation
     \<lparr>og_intents = rec_intents r, og_copiedBy = res_copiedBy (rec_resource r)\<rparr> (\<lambda>k. read_operation k md)\<rparr>"

lemma claim_outcome:
  "claim_intents md claimed J = Inr c \<Longrightarrow> i \<in> set J \<Longrightarrow> e \<in> set (md_intents md) \<Longrightarrow> int_id e = int_id i \<Longrightarrow>
     table_valid int_id (md_intents md) \<Longrightarrow> int_handle e = int_handle i"
proof (induction J arbitrary: claimed)
  case (Cons j J)
  then show ?case using table_get_iff [of int_id "md_intents md" "int_id i" e]
    by (cases "i = j") (auto split: option.splits)
qed simp

lemma claim_error:
  "claim_intents md claimed J = Inl e \<Longrightarrow> distinct (map int_id J) \<Longrightarrow> int_id ` set J \<inter> claimed = {} \<Longrightarrow>
     table_valid int_id (md_intents md) \<Longrightarrow>
     e = Error ''Namespace intent belongs to another resource'' \<and>
     (\<exists>i \<in> set J. \<exists>s \<in> set (md_intents md). int_id s = int_id i \<and> int_handle s \<noteq> int_handle i)"
proof (induction J arbitrary: claimed)
  case (Cons j J)
  show ?case
  proof (cases "case table_get int_id (int_id j) (md_intents md) of None \<Rightarrow> False | Some e \<Rightarrow> int_handle e \<noteq> int_handle j")
    case True
    with Cons.prems(1) have "e = Error ''Namespace intent belongs to another resource''"
      by (simp add: throw_when_def)
    moreover from True obtain s where "table_get int_id (int_id j) (md_intents md) = Some s" "int_handle s \<noteq> int_handle j"
      by (auto split: option.splits)
    ultimately show ?thesis using table_get_iff [OF Cons.prems(4), of "int_id j" s] by auto
  next
    case False
    moreover have "int_id j \<notin> claimed" using Cons.prems(3) by auto
    ultimately have "claim_intents md (insert (int_id j) claimed) J = Inl e" using Cons.prems(1) by simp
    from Cons.IH [OF this] Cons.prems(2-4) show ?thesis by auto
  qed
qed simp

lemma committed_resource_reads:
  assumes md: "store_ok md" and c: "commit_resource w md = Inr (Some md')"
  shows "read_resource (write_handle w) md' =
      Some ((rw_next w)\<lparr>rec_intents := sort_key int_sequence (rec_intents (rw_next w))\<rparr>)"
    "h \<noteq> write_handle w \<Longrightarrow> read_resource h md' = read_resource h md"
proof -
  let ?J = "rec_intents (rw_next w)" and ?h = "write_handle w"
  note core = ok_core [OF md] and core' = ok_core [OF commit_resource_ok [OF md c]]
  from c have cur: "is_current md [w] = Inr True" and md': "md' = put_resource md w"
    by (auto simp: commit_resource_def put_resources_def split: if_splits)
  then obtain claimed where claim: "claim_intents md {} ?J = Inr claimed"
    and w: "writes_current md {} {} [w] = Inr True"
    by (auto simp: is_current_def Let_def split: if_splits)
  from current_writes_fit [OF core w] have fit: "write_fits md w" by simp
  then have J: "journal_wf ?h ?J" and handles: "int_handle i = ?h" if "i \<in> set ?J" for i
    using that by (auto simp: write_fits_def journal_wf_def intent_wf_def)
  have Jwf: "journal_wf ?h ?J" using fit by (simp add: write_fits_def)
  have rows: "i \<in> set ?J \<or> i \<in> set (md_intents md) \<and> int_id i \<notin> int_id ` set ?J"
    if "i \<in> set (md_intents md')" for i
    using put_resource_rows(2) [OF core, of i w] that unfolding md' by blast
  have "distinct (map int_id ?J)" using Jwf by (simp add: journal_wf_def)
  then have put: "i \<in> set (md_intents md') \<longleftrightarrow> i \<in> set ?J \<or> i \<in> set (md_intents md) \<and> int_id i \<notin> int_id ` set ?J" for i
    using table.rows_bulk_put [OF store_tables(2) [OF core], of ?J i]
    by (simp add: md' put_resource_def table_bulk_put_eq)
  have own: "{i \<in> set (md_intents md'). int_handle i = ?h} = set ?J"
    using put handles fit by (auto simp: write_fits_def)
  have "read_resource ?h md' = Some (stored_record md' (rec_resource (rw_next w)))"
    using table.get_put [OF store_tables(1) [OF core]] by (simp add: read_resource_def md' put_resource_def)
  moreover have "rec_intents (stored_record md' (rec_resource (rw_next w))) = sort_key int_sequence ?J"
    by (rule stored_intents_of [OF core' Jwf own])
  ultimately show "read_resource ?h md' = Some ((rw_next w)\<lparr>rec_intents := sort_key int_sequence ?J\<rparr>)"
    by (simp add: stored_record_def)
  assume h: "h \<noteq> ?h"
  have get: "table_get res_handle h (md_resources md') = table_get res_handle h (md_resources md)"
    using table.get_put [OF store_tables(1) [OF core]] h by (simp add: md' put_resource_def)
  have others: "{i \<in> set (md_intents md'). int_handle i = h} = {i \<in> set (md_intents md). int_handle i = h}"
  proof -
    have "int_id i \<notin> int_id ` set ?J" if "i \<in> set (md_intents md)" "int_handle i = h" for i
      using claim_outcome [OF claim _ that(1) _ store_tables(2) [OF core]] handles h that(2) by (metis imageE)
    then show ?thesis using put handles h by auto
  qed
  show "read_resource h md' = read_resource h md"
  proof (cases "table_get res_handle h (md_resources md)")
    case (Some res)
    then have "res_handle res = h" by (simp add: table_get_iff [OF store_tables(1) [OF core]])
    with stored_record_same [OF core core', of res] others Some get show ?thesis by (simp add: read_resource_def)
  qed (simp add: read_resource_def get)
qed

lemma document_cas:
  "commit_document (reads_operations md env) (read_resource (write_handle w) md) w =
     (let cur = table_get res_handle (write_handle w) (md_resources md)
      in if map_option res_revision cur \<noteq> rw_expectedRevision w then Inr None
         else and_then (validate_resource md (map_option (stored_record md) cur) (rw_next w))
           (\<lambda>_. Inr (Some (rw_next w))))"
  by (simp add: commit_document_def reads_operations_def read_resource_def validate_resource_def
      option.map_comp comp_def Let_def)

lemma commit_resource_throws:
  assumes md: "store_ok md" and c: "commit_resource w md = Inl e"
  shows "commit_document (reads_operations md env) (read_resource (write_handle w) md) w = Inl e \<or>
     (\<exists>i \<in> set (rec_intents (rw_next w)). \<exists>s \<in> set (md_intents md).
        int_id s = int_id i \<and> int_handle s \<noteq> write_handle w)"
proof -
  let ?cur = "table_get res_handle (write_handle w) (md_resources md)"
  let ?v = "validate_resource md (map_option (stored_record md) ?cur) (rw_next w)"
  from c consider (invalid) "?v = Inl e" "map_option res_revision ?cur = rw_expectedRevision w"
    | (claimed) "?v = Inr ()" "claim_intents md {} (rec_intents (rw_next w)) = Inl e"
    by (cases ?v; cases "claim_intents md {} (rec_intents (rw_next w))")
       (auto simp: commit_resource_def is_current_def Let_def split: if_splits)
  then show ?thesis
  proof cases
    case invalid
    then show ?thesis by (simp add: document_cas Let_def)
  next
    case claimed
    from validated_journal(1) [OF claimed(1)] have J: "journal_wf (write_handle w) (rec_intents (rw_next w))" .
    then have "distinct (map int_id (rec_intents (rw_next w)))" by (simp add: journal_wf_def)
    with claim_error [OF claimed(2) _ _ store_tables(2) [OF ok_core [OF md]]] J show ?thesis
      by (force simp: journal_wf_def intent_wf_def)
  qed
qed

lemma commit_resource_stale:
  assumes md: "store_ok md" and c: "commit_resource w md = Inr None"
  shows "commit_document (reads_operations md env) (read_resource (write_handle w) md) w = Inr None \<or>
     (\<exists>r \<in> set (md_resources md). res_handle r \<noteq> write_handle w \<and>
        res_documentId r = res_documentId (rec_resource (rw_next w)))"
proof (cases "map_option res_revision (table_get res_handle (write_handle w) (md_resources md)) = rw_expectedRevision w")
  case True
  let ?t = "table_put res_handle (rec_resource (rw_next w)) (md_resources md)"
  note valid = store_tables(1) [OF ok_core [OF md]]
  from c True have dup: "\<not> distinct (map res_documentId ?t)"
    by (auto simp: commit_resource_def is_current_def Let_def table_bulk_put_def split: if_splits)
  moreover have "distinct ?t"
    using table_valid_distinct [OF table_put_valid [OF valid]] by (auto simp: distinct_map)
  ultimately have "\<not> inj_on res_documentId
      (insert (rec_resource (rw_next w)) {r \<in> set (md_resources md). res_handle r \<noteq> write_handle w})"
    by (simp add: distinct_map table_put_set [OF valid])
  moreover have "inj_on res_documentId (set (md_resources md))"
    using md by (simp add: store_ok_def one_id_each_def distinct_map)
  ultimately show ?thesis by (auto simp: inj_on_def)
qed (simp add: document_cas Let_def)

text \<open>C8: The store's commit of a document is the compare-and-set over that one record which its replay
  loop assumes: when it commits, the record reads back as written with its intents in sequence order,
  no other document, folder, operation or catalog changes; when it refuses, the loop's commit refuses
  alike, or another document holds the id or an intent of it.\<close>

theorem store_commit_refines_document_commit:
  assumes md: "store_ok md"
  shows "case commit_resource w md of
     Inr (Some md') \<Rightarrow>
       commit_document (reads_operations md env) (read_resource (write_handle w) md) w = Inr (Some (rw_next w)) \<and>
       read_resource (write_handle w) md' =
         Some ((rw_next w)\<lparr>rec_intents := sort_key int_sequence (rec_intents (rw_next w))\<rparr>) \<and>
       (\<forall>h. h \<noteq> write_handle w \<longrightarrow> read_resource h md' = read_resource h md) \<and>
       md_folders md' = md_folders md \<and> md_operations md' = md_operations md \<and> md_catalogs md' = md_catalogs md
   | Inr None \<Rightarrow>
       commit_document (reads_operations md env) (read_resource (write_handle w) md) w = Inr None \<or>
       (\<exists>r \<in> set (md_resources md). res_handle r \<noteq> write_handle w \<and>
          res_documentId r = res_documentId (rec_resource (rw_next w)))
   | Inl e \<Rightarrow>
       commit_document (reads_operations md env) (read_resource (write_handle w) md) w = Inl e \<or>
       (\<exists>i \<in> set (rec_intents (rw_next w)). \<exists>s \<in> set (md_intents md).
          int_id s = int_id i \<and> int_handle s \<noteq> write_handle w)"
proof (cases "commit_resource w md")
  case (Inl e)
  then show ?thesis using commit_resource_throws [OF md Inl] by simp
next
  case (Inr r)
  show ?thesis
  proof (cases r)
    case None
    with Inr commit_resource_stale [OF md, of w] show ?thesis by simp
  next
    case (Some md')
    with Inr have c: "commit_resource w md = Inr (Some md')" by simp
    then have "commit_document (reads_operations md env) (read_resource (write_handle w) md) w = Inr (Some (rw_next w))"
      by (auto simp: document_cas commit_resource_def is_current_def Let_def split: if_splits)
    moreover have "md_folders md' = md_folders md" "md_operations md' = md_operations md"
      "md_catalogs md' = md_catalogs md"
      using c by (auto simp: commit_resource_def split: if_splits)
    ultimately show ?thesis using committed_resource_reads [OF md c] by (simp add: c)
  qed
qed

section \<open>A folder's new id\<close>

lemma followed_rows:
  assumes md: "store_core md" and new: "from \<noteq> to"
    and plan: "plan = plan_folder_remint_dependents from to (stored_records md) folders"
    and i: "i \<in> set (md_intents (put_resources (rd_resources plan) md))"
  shows "\<not> follows_remint i from"
proof -
  let ?J = "concat (map (\<lambda>w. rec_intents (rw_next w)) (rd_resources plan))"
  consider (written) "i \<in> set ?J" | (kept) "i \<in> set (md_intents md)" "int_id i \<notin> int_id ` set ?J"
    using table.rows_bulk_put_cases [OF store_tables(2) [OF md], of i ?J] i by (auto simp: table_bulk_put_eq)
  then show ?thesis
  proof cases
    case written
    then obtain r :: resource_record and J where "follow from to (rec_intents r) = Some J" "i \<in> set J"
      unfolding plan by (auto simp: followed_from_record resource_update_def)
    with follow_leaves_none new show ?thesis by blast
  next
    case kept
    from md kept(1) obtain res where res: "res \<in> set (md_resources md)" "int_handle i = res_handle res"
      by (auto simp: store_core_def intents_owned_def)
    let ?r = "stored_record md res"
    have r: "?r \<in> set (stored_records md)" "i \<in> set (rec_intents ?r)"
      using res kept(1) by (simp_all add: stored_records_def)
    show ?thesis
    proof (cases "follow from to (rec_intents ?r)")
      case None
      with follow_none r(2) show ?thesis by blast
    next
      case (Some J)
      have "follow_move from i \<in> set J" using r(2) unfolding follow_shape(1) [OF Some] by simp
      moreover have "set J \<subseteq> set ?J" using r(1) Some unfolding plan by (force simp: followed_from_record resource_update_def)
      moreover have "int_id (follow_move from i) = int_id i" by (simp add: follow_move_def)
      ultimately show ?thesis using kept(2) by (metis imageI subsetD)
    qed
  qed
qed

lemma followed_folder_rows:
  assumes md: "table_valid fol_handle (md_folders md)" and new: "from \<noteq> to"
    and plan: "plan = plan_folder_remint_dependents from to records
      (filter (\<lambda>f. fol_handle f \<noteq> h) (md_folders md))"
    and f: "f \<in> set (table_bulk_put fol_handle (map fw_next (rd_folders plan)) (md_folders md))"
    and other: "fol_handle f \<noteq> h" "fol_folderId f \<noteq> to" and i: "i \<in> set (fol_intents f)"
  shows "\<not> follows_remint i from"
proof -
  let ?fs = "map fw_next (rd_folders plan)"
  consider (written) "f \<in> set ?fs" | (kept) "f \<in> set (md_folders md)" "fol_handle f \<notin> fol_handle ` set ?fs"
    using table.rows_bulk_put_cases [OF md, of f ?fs] f by (auto simp: table_bulk_put_eq)
  then show ?thesis
  proof cases
    case written
    then obtain g :: folder_record and J where "follow from to (fol_intents g) = Some J" "fol_intents f = J"
      unfolding plan by (auto simp: followed_from_record folder_update_def)
    with follow_leaves_none new i show ?thesis by blast
  next
    case kept
    show ?thesis
    proof (cases "follow from to (fol_intents f)")
      case None
      with follow_none i show ?thesis by blast
    next
      case (Some J)
      have "folder_update (Some f) (f\<lparr>fol_revision := fol_revision f + 1, fol_intents := J\<rparr>) \<in> set (rd_folders plan)"
        using kept(1) other Some unfolding plan by (auto simp: followed_from_record)
      from imageI [OF this, of "\<lambda>v. fol_handle (fw_next v)"] have "fol_handle f \<in> fol_handle ` set ?fs"
        by (simp add: folder_update_def image_image)
      with kept(2) show ?thesis by simp
    qed
  qed
qed

text \<open>C9: When a folder's new id commits, the stored record carries it and no unsent placement in the store
  still names the old one: not of a document, not of a folder under another handle and id.\<close>

theorem committed_remint_leaves_no_placement_behind:
  assumes md: "store_ok md" and c: "commit_folder_write w md = Inr (Some md')"
    and p: "read_folder (fol_handle (fw_next w)) md = Some p"
    and new: "fol_folderId p \<noteq> fol_folderId (fw_next w)"
  shows "read_folder (fol_handle (fw_next w)) md' = Some (fw_next w) \<and>
     (\<forall>i \<in> set (md_intents md'). \<not> follows_remint i (fol_folderId p)) \<and>
     (\<forall>f \<in> set (md_folders md'). fol_handle f \<noteq> fol_handle (fw_next w) \<longrightarrow>
        fol_folderId f \<noteq> fol_folderId (fw_next w) \<longrightarrow>
        (\<forall>i \<in> set (fol_intents f). \<not> follows_remint i (fol_folderId p)))"
proof -
  let ?n = "fw_next w"
  from c p new obtain settled followed where s: "settle_descendants (Some p) ?n md = Inr settled"
    and f: "follow_reminted_folder (fol_folderId p) ?n settled = Inr followed"
    and md': "md' = raise_high_water (fol_intents ?n) (put_folder ?n followed)"
    by (auto simp: commit_folder_write_def Let_def split: if_splits)
  have ok: "store_ok settled" using settle_descendants_ok [OF md s] by blast
  have fok: "store_ok followed" by (rule follow_reminted_ok [OF ok f])
  define plan where "plan = plan_folder_remint_dependents (fol_folderId p) (fol_folderId ?n) (stored_records settled)
    (filter (\<lambda>f. fol_handle f \<noteq> fol_handle ?n) (md_folders settled))"
  from f have followed: "followed = put_folders (map fw_next (rd_folders plan)) (put_resources (rd_resources plan) settled)"
    by (auto simp: follow_reminted_folder_def Let_def plan_def)
  note valid = store_tables(3) [OF ok_core [OF fok]]
  have "read_folder (fol_handle ?n) md' = Some ?n"
    using table.get_put [OF valid] by (simp add: read_folder_def md' put_folder_def)
  moreover have "\<not> follows_remint i (fol_folderId p)" if "i \<in> set (md_intents md')" for i
    by (rule followed_rows [OF ok_core [OF ok] new plan_def]) (use that in \<open>simp add: md' put_folder_def followed put_folders_def\<close>)
  moreover have "\<not> follows_remint i (fol_folderId p)"
    if g: "g \<in> set (md_folders md')" "fol_handle g \<noteq> fol_handle ?n" "fol_folderId g \<noteq> fol_folderId ?n"
      "i \<in> set (fol_intents g)" for g i
  proof (rule followed_folder_rows [OF store_tables(3) [OF ok_core [OF ok]] new plan_def _ g(2-4)])
    have "g \<in> set (md_folders followed)"
      using g(1,2) table_put_set [OF valid, of ?n] by (auto simp: md' put_folder_def)
    then show "g \<in> set (table_bulk_put fol_handle (map fw_next (rd_folders plan)) (md_folders settled))"
      by (simp add: followed put_folders_def)
  qed
  ultimately show ?thesis by blast
qed

section \<open>Admitting a placement\<close>

definition store_snapshot :: "metadata \<Rightarrow> replica_snapshot" where
  "store_snapshot md = \<lparr>sn_records = stored_records md, sn_folders = md_folders md, sn_operations = md_operations md\<rparr>"

definition view_snapshot :: "admission_view \<Rightarrow> replica_snapshot" where
  "view_snapshot v = \<lparr>sn_records = av_records v, sn_folders = av_folders v, sn_operations = av_operations v\<rparr>"

definition unresolved_ops :: "replica_snapshot \<Rightarrow> placement_op set" where
  "unresolved_ops s = {op \<in> set (placement_ops s). placement_unresolved (int_state (po_intent op))}"

lemma unresolved_journal_ops:
  "{op \<in> set (journal_ops kind h subject J refreshing). placement_unresolved (int_state (po_intent op))} =
     {\<lparr>po_kind = kind, po_handle = h, po_subject = subject, po_intent = i, po_admission = a\<rparr> |i a.
        i \<in> set J \<and> int_admission i = Some a \<and> placement_unresolved (int_state i)}"
  by (auto simp: journal_ops_def map_filter_mem shapes_list_def split: option.splits if_splits)

lemma unresolved_ops_parts:
  "unresolved_ops s =
     (\<Union>r \<in> set (sn_records s). {\<lparr>po_kind = ResourceJournal, po_handle = res_handle (rec_resource r),
        po_subject = res_documentId (rec_resource r), po_intent = i, po_admission = a\<rparr> |i a.
        i \<in> set (rec_intents r) \<and> int_admission i = Some a \<and> placement_unresolved (int_state i)}) \<union>
     (\<Union>f \<in> set (sn_folders s). {\<lparr>po_kind = FolderJournal, po_handle = fol_handle f,
        po_subject = fol_folderId f, po_intent = i, po_admission = a\<rparr> |i a.
        i \<in> set (fol_intents f) \<and> int_admission i = Some a \<and> placement_unresolved (int_state i)}) \<union>
     (\<Union>p \<in> set (sn_operations s). {\<lparr>po_kind = OperationJournal, po_handle = op_operationId p,
        po_subject = op_operationId p, po_intent = i, po_admission = a\<rparr> |i a.
        i \<in> set (op_intents p) \<and> int_admission i = Some a \<and> placement_unresolved (int_state i)})"
proof -
  let ?P = "\<lambda>op. placement_unresolved (int_state (po_intent op))"
  have "unresolved_ops s =
     (\<Union>r \<in> set (sn_records s). {op \<in> set (journal_ops ResourceJournal (res_handle (rec_resource r))
        (res_documentId (rec_resource r)) (rec_intents r)
        (map_option cr_operationId (ob_canonicalRefresh (res_obligations (rec_resource r))))). ?P op}) \<union>
     (\<Union>f \<in> set (sn_folders s). {op \<in> set (journal_ops FolderJournal (fol_handle f) (fol_folderId f)
        (fol_intents f) (map_option fr_operationId (fol_canonicalRefresh f))). ?P op}) \<union>
     (\<Union>p \<in> set (sn_operations s). {op \<in> set (journal_ops OperationJournal (op_operationId p)
        (op_operationId p) (op_intents p) (if op_operationId p \<in>
           set (refresh_barrier_operation_ids (sn_records s) (sn_folders s))
         then Some (op_operationId p) else None)). ?P op})"
    unfolding unresolved_ops_def placement_ops_def by (auto split del: if_split)
  then show ?thesis by (simp only: unresolved_journal_ops)
qed

lemma journal_op_intent:
  "op \<in> set (journal_ops kind h subject J refreshing) \<Longrightarrow>
     int_admission (po_intent op) = Some (po_admission op) \<and> po_intent op \<in> set J"
  by (auto simp: journal_ops_def map_filter_mem split: option.splits if_splits)

lemma stored_op_intent:
  assumes "op \<in> set (placement_ops (store_snapshot md))"
  shows "int_admission (po_intent op) = Some (po_admission op)"
    "po_intent op \<in> set (md_intents md) \<or> (\<exists>f \<in> set (md_folders md). po_intent op \<in> set (fol_intents f)) \<or>
     (\<exists>p \<in> set (md_operations md). po_intent op \<in> set (op_intents p))"
  using assms
  by (auto simp: placement_ops_def store_snapshot_def stored_records_def split del: if_split
      dest!: journal_op_intent)

lemma shaping_stored: "set (shaping_intents md) \<subseteq> set (md_intents md)"
  by (auto simp: shaping_intents_def split: option.splits if_splits)

lemma shaping_unresolved: "i \<in> set (md_intents md) \<Longrightarrow> placement_unresolved (int_state i) \<Longrightarrow> i \<in> set (shaping_intents md)"
  by (auto simp: shaping_intents_def placement_unresolved_def)

lemma view_records:
  assumes md: "store_core md"
  shows "r \<in> set (av_records (read_placement_admission_view projectId subject md)) \<longleftrightarrow>
     (\<exists>res \<in> set (md_resources md).
        (res_handle res \<in> int_handle ` set (shaping_intents md) \<or> subject = Some (res_handle res)) \<and>
        r = \<lparr>rec_resource = res, rec_intents = sort_key int_sequence
              (filter (\<lambda>i. int_handle i = res_handle res) (shaping_intents md))\<rparr>)"
  by (cases subject)
     (auto simp: read_placement_admission_view_def Let_def map_filter_mem
        table_get_iff [OF store_tables(1) [OF md]])

text \<open>Every admission the store holds: of documents, folders and operations, settled work included.\<close>

definition stored_admissions :: "metadata \<Rightarrow> placement_admission set" where
  "stored_admissions md =
     {b. \<exists>i. int_admission i = Some b \<and>
        (i \<in> set (md_intents md) \<or> (\<exists>f \<in> set (md_folders md). i \<in> set (fol_intents f)) \<or>
         (\<exists>p \<in> set (md_operations md). i \<in> set (op_intents p)))}"

lemma stored_admissions_below:
  "store_core md \<Longrightarrow> b \<in> stored_admissions md \<Longrightarrow> adm_order b \<le> high_water md"
  by (force simp: stored_admissions_def store_core_def orders_below_def intent_order_def)

text \<open>C10: What admitting a placement reads is enough: the unresolved placements of the view are exactly those
  of the whole store, though the view loads no settled history, and the order the admission is given is
  above every admission order in the store, of settled and of open work alike.\<close>

theorem admission_view_is_complete:
  assumes md: "store_ok md"
  shows "unresolved_ops (view_snapshot (read_placement_admission_view projectId subject md)) =
       unresolved_ops (store_snapshot md) \<and>
     (\<forall>parentOf spec a. capture_placement_admission
          (view_snapshot (read_placement_admission_view projectId subject md))
          (av_highWater (read_placement_admission_view projectId subject md)) parentOf spec = Some a \<longrightarrow>
        (\<forall>b \<in> stored_admissions md. adm_order b < adm_order a))"
proof -
  let ?v = "read_placement_admission_view projectId subject md"
  note core = ok_core [OF md]
  let ?ops = "\<lambda>r. {\<lparr>po_kind = ResourceJournal, po_handle = res_handle (rec_resource r),
        po_subject = res_documentId (rec_resource r), po_intent = i, po_admission = a\<rparr> |i a.
        i \<in> set (rec_intents r) \<and> int_admission i = Some a \<and> placement_unresolved (int_state i)}"
  have "(\<Union>r \<in> set (av_records ?v). ?ops r) = (\<Union>r \<in> set (stored_records md). ?ops r)"
  proof (intro equalityI subsetI)
    fix op assume "op \<in> (\<Union>r \<in> set (av_records ?v). ?ops r)"
    then show "op \<in> (\<Union>r \<in> set (stored_records md). ?ops r)"
      using shaping_stored [of md] by (fastforce simp: view_records [OF core] stored_records_def)
  next
    fix op assume "op \<in> (\<Union>r \<in> set (stored_records md). ?ops r)"
    then obtain res i a where res: "res \<in> set (md_resources md)" and i: "i \<in> set (md_intents md)"
      "int_handle i = res_handle res" "int_admission i = Some a" "placement_unresolved (int_state i)"
      and op: "op = \<lparr>po_kind = ResourceJournal, po_handle = res_handle res, po_subject = res_documentId res,
        po_intent = i, po_admission = a\<rparr>" by (auto simp: stored_records_def)
    have s: "i \<in> set (shaping_intents md)" by (rule shaping_unresolved [OF i(1,4)])
    let ?r = "\<lparr>rec_resource = res, rec_intents = sort_key int_sequence
              (filter (\<lambda>i. int_handle i = res_handle res) (shaping_intents md))\<rparr>"
    have "?r \<in> set (av_records ?v)" unfolding view_records [OF core] using res s i(2) by force
    moreover have "op \<in> ?ops ?r" using s i by (simp add: op)
    ultimately show "op \<in> (\<Union>r \<in> set (av_records ?v). ?ops r)" by blast
  qed
  then have "unresolved_ops (view_snapshot ?v) = unresolved_ops (store_snapshot md)"
    unfolding unresolved_ops_parts
    by (simp add: view_snapshot_def store_snapshot_def read_placement_admission_view_def Let_def)
  moreover have "adm_order b < adm_order a"
    if a: "capture_placement_admission (view_snapshot ?v) (av_highWater ?v) parentOf spec = Some a"
      and b: "b \<in> stored_admissions md" for parentOf spec a b
  proof -
    have "adm_order a = high_water md + 1"
      using a by (auto simp: capture_placement_admission_def Let_def read_placement_admission_view_def high_water_def)
    with stored_admissions_below [OF core b] show ?thesis by simp
  qed
  ultimately show ?thesis by blast
qed


section \<open>Every store a browser can hold\<close>

lemma scope_key_not_user: "catalog_scope_key scope \<noteq> ''user''"
  by (cases scope) auto

lemma projection_key_inj:
  assumes "catalog_projection_key p s = catalog_projection_key q t"
  shows "p = q \<and> same_catalog_projection_scope s t"
proof -
  let ?k = "\<lambda>s. if is_user_scope s then ''user'' else catalog_scope_key s"
  have eq: "json_string p @ '','' @ json_string (?k s) @ '']'' = json_string q @ '','' @ json_string (?k t) @ '']''"
    using assms by (simp add: catalog_projection_key_def)
  from json_string_append [OF eq] have "p = q" and rest: "json_string (?k s) @ '']'' = json_string (?k t) @ '']''"
    by auto
  from json_string_append [OF rest] have "?k s = ?k t" by simp
  with \<open>p = q\<close> show ?thesis
    using scope_key_not_user [of s] scope_key_not_user [of t] scope_key_not_user [of s, THEN not_sym]
    by (auto simp: same_catalog_projection_scope_def split: if_splits)
qed

text \<open>C7: Every store that transactions make of the empty one, the folders a Copy creates coming without
  commands, is well formed: one row for each key, one
  document for each document id, admission orders below the high-water mark, every intent owned. A
  document reads back under its handle with a well-formed journal in sequence order, and a catalog only
  under its own project and scope.\<close>

theorem reachable_store_is_well_formed:
  assumes "reachable_store md"
  shows "store_ok md \<and>
     (\<forall>h r. read_resource h md = Some r \<longrightarrow> res_handle (rec_resource r) = h \<and>
        journal_wf h (rec_intents r) \<and> sorted (map int_sequence (rec_intents r))) \<and>
     (\<forall>projectId scope c. read_catalog projectId scope md = Some c \<longrightarrow>
        cp_projectId c = projectId \<and> same_catalog_projection_scope (cp_scope c) scope)"
proof (intro conjI allI impI)
  show ok: "store_ok md" by (rule reachable_ok [OF assms])
  note core = ok_core [OF ok]
  fix h r assume "read_resource h md = Some r"
  then obtain res where res: "table_get res_handle h (md_resources md) = Some res" "r = stored_record md res"
    by (auto simp: read_resource_def)
  then have "res_handle res = h" by (simp add: table_get_iff [OF store_tables(1) [OF core]])
  then show "res_handle (rec_resource r) = h" "journal_wf h (rec_intents r)"
    using stored_journal_wf [OF core, of res] res(2) by simp_all
  show "sorted (map int_sequence (rec_intents r))" using res(2) by (simp add: stored_record_def)
next
  fix projectId scope c assume "read_catalog projectId scope md = Some c"
  then have key: "checkpoint_key c = catalog_projection_key projectId scope"
    using table_get_iff [OF store_tables(5) [OF ok_core [OF reachable_ok [OF assms]]]]
    by (simp add: read_catalog_def)
  from projection_key_inj [OF key] show "cp_projectId c = projectId" "same_catalog_projection_scope (cp_scope c) scope"
    by auto
qed

section \<open>Examples\<close>

definition ex_store :: metadata where
  "ex_store = the (projr (commit_resource (reserve_resource_document ex_reserve) empty_metadata))"

lemma ex_store_committed: "commit_resource (reserve_resource_document ex_reserve) empty_metadata = Inr (Some ex_store)"
  unfolding ex_store_def by code_simp

theorem reachable_store_is_well_formed_witness:
  "store_ok ex_store \<and> (\<exists>r. read_resource ''h'' ex_store = Some r \<and> journal_wf ''h'' (rec_intents r) \<and>
     rec_intents r \<noteq> [])"
proof -
  have r: "reachable_store ex_store"
    by (rule reachable_store.step [OF reachable_store.empty store_step.resource [OF ex_store_committed]])
  have "read_resource ''h'' ex_store \<noteq> None" "rec_intents (the (read_resource ''h'' ex_store)) \<noteq> []" by code_simp+
  with reachable_store_is_well_formed [OF r] show ?thesis by auto
qed

theorem store_commit_refines_document_commit_witness:
  "commit_document (reads_operations empty_metadata ex_env) None (reserve_resource_document ex_reserve) =
     Inr (Some (rw_next (reserve_resource_document ex_reserve))) \<and>
   map_option (map int_id o rec_intents) (read_resource ''h'' ex_store) = Some [''i1'']"
proof -
  have h: "write_handle (reserve_resource_document ex_reserve) = ''h''"
    "read_resource ''h'' empty_metadata = None"
    "map int_id (sort_key int_sequence (rec_intents (rw_next (reserve_resource_document ex_reserve)))) = [''i1'']"
    by code_simp+
  from store_commit_refines_document_commit [OF empty_store_ok, where w = "reserve_resource_document ex_reserve" and env = ex_env]
  show ?thesis unfolding ex_store_committed h by (simp add: h)
qed

text \<open>A document with an unsent placement into a folder whose id is spent.\<close>

definition ex_waiting_store :: metadata where
  "ex_waiting_store = \<lparr>md_resources = [rec_resource ex_child], md_intents = rec_intents ex_child, md_catalogs = [],
     md_folders = [ex_spent_folder], md_operations = [], md_highWater = None\<rparr>"

lemma ex_waiting_store_ok: "store_ok ex_waiting_store"
  by code_simp

definition ex_remint :: folder_write where
  "ex_remint = the (projr (remint_folder ex_spent_folder ''f2'' ''r'' [''i2'' \<mapsto> ''q'']))"

theorem committed_remint_leaves_no_placement_behind_witness:
  "(\<exists>i \<in> set (md_intents ex_waiting_store). follows_remint i ''f1'') \<and>
   (\<exists>md'. commit_folder_write ex_remint ex_waiting_store = Inr (Some md') \<and>
      (\<forall>i \<in> set (md_intents md'). \<not> follows_remint i ''f1''))"
proof -
  define md' where "md' = the (projr (commit_folder_write ex_remint ex_waiting_store))"
  have c: "commit_folder_write ex_remint ex_waiting_store = Inr (Some md')" unfolding md'_def by code_simp
  have p: "read_folder (fol_handle (fw_next ex_remint)) ex_waiting_store = Some ex_spent_folder"
    "fol_folderId ex_spent_folder = ''f1''" "fol_folderId ex_spent_folder \<noteq> fol_folderId (fw_next ex_remint)"
    by code_simp+
  have "\<exists>i \<in> set (md_intents ex_waiting_store). follows_remint i ''f1''" by code_simp
  with committed_remint_leaves_no_placement_behind [OF ex_waiting_store_ok c p(1,3)] c p(2) show ?thesis by auto
qed

theorem admission_view_is_complete_witness:
  "unresolved_ops (view_snapshot (read_placement_admission_view ''p'' None ex_waiting_store)) =
     unresolved_ops (store_snapshot ex_waiting_store)"
  using admission_view_is_complete [OF ex_waiting_store_ok] by blast

end
