(* ===== verification/Placement_Graph.thy ===== *)
theory Placement_Graph
  imports Catalog_Replay Folder_Namespace
begin

text \<open>
  Where every folder of a project stands (\<^verbatim>\<open>folder-placement.ts\<close>): each folder has one edge to its
  parent, the pending placement of its journal or else the canonical edge; cycles among the edges
  are broken, and the remaining edges give every folder a location and a hidden flag.

  In the source an edge is canonical when it is the same object as the canonical one. A pending
  edge is the destination of an intent, never that object, so the model keeps the pending edges in
  a map of their own and an edge is canonical when its folder has no pending one.
\<close>

section \<open>Nodes and edges\<close>

record placement_node =
  node_id :: string
  node_canonical :: resource_location
  node_parent :: "parent_ref option"
  node_ancestryOnly :: bool

definition absolute_edge :: "resource_location \<Rightarrow> resource_destination" where
  "absolute_edge location =
     \<lparr>dest_parent = RootParent (loc_scheme location) (owner_of location), dest_createFolders = None,
      dest_name = (if starts_with [slash] (loc_path location) then tl (loc_path location)
                   else loc_path location),
      dest_position = None\<rparr>"

text \<open>\<^verbatim>\<open>new Map(xs.map((x) => [key(x), x]))\<close>: the last value of each key, in the order of first use.\<close>

definition map_from :: "('a \<Rightarrow> 'k) \<Rightarrow> 'a list \<Rightarrow> ('k \<times> 'a) list" where
  "map_from key xs = fold (\<lambda>x. assoc_set (key x) x) xs []"

type_synonym node_map = "(string \<times> placement_node) list"
type_synonym folder_map = "(string \<times> folder_record) list"
type_synonym edge_map = "string \<Rightarrow> resource_destination option"

definition records_by_id :: "string \<Rightarrow> folder_record list \<Rightarrow> folder_map" where
  "records_by_id projectId records =
     map_from fol_folderId
       (filter (\<lambda>r. fol_projectId r = None \<or> fol_projectId r = Some projectId) records)"

definition known_folder :: "node_map \<Rightarrow> string \<Rightarrow> bool" where
  "known_folder byId k \<longleftrightarrow> map_of byId k \<noteq> None"

definition canonical_location :: "folder_map \<Rightarrow> placement_node \<Rightarrow> resource_location" where
  "canonical_location recordsById node =
     (case map_of recordsById (node_id node) of
        Some r \<Rightarrow> (case (fol_canonicalParent r, fol_canonical r) of
            (Some _, Some l) \<Rightarrow> l | _ \<Rightarrow> node_canonical node)
      | None \<Rightarrow> node_canonical node)"

definition canonical_parent_of :: "folder_map \<Rightarrow> placement_node \<Rightarrow> parent_ref option" where
  "canonical_parent_of recordsById node =
     (case Option.bind (map_of recordsById (node_id node)) fol_canonicalParent of
        Some p \<Rightarrow> Some p | None \<Rightarrow> node_parent node)"

text \<open>The edge a parent and a location give: the parent when it is a known folder, else the location.\<close>

definition edge_under :: "node_map \<Rightarrow> parent_ref option \<Rightarrow> resource_location \<Rightarrow> resource_destination" where
  "edge_under byId parent location =
     (case parent of
        Some (FolderParent f) \<Rightarrow>
          if known_folder byId f
          then \<lparr>dest_parent = FolderParent f, dest_createFolders = None,
                dest_name = loc_name location, dest_position = None\<rparr>
          else absolute_edge location
      | _ \<Rightarrow> absolute_edge location)"

definition canonical_edge :: "node_map \<Rightarrow> folder_map \<Rightarrow> placement_node \<Rightarrow> resource_destination" where
  "canonical_edge byId recordsById node =
     edge_under byId (canonical_parent_of recordsById node) (canonical_location recordsById node)"

definition desired_edge :: "folder_map \<Rightarrow> string \<Rightarrow> resource_destination option" where
  "desired_edge recordsById k =
     (case map_of recordsById k of
        None \<Rightarrow> None
      | Some r \<Rightarrow> (case owning_location_intent (fol_projectId r) (fol_intents r)
                       (fol_canonicalRefresh r \<noteq> None) of
            Some i \<Rightarrow> (case int_desired i of SetFolderLocation _ d \<Rightarrow> Some d | _ \<Rightarrow> None)
          | None \<Rightarrow> None))"

text \<open>A folder nothing can be placed in: not listed, known as ancestry only, or deleted.\<close>

definition unusable_parent :: "node_map \<Rightarrow> folder_map \<Rightarrow> string \<Rightarrow> bool" where
  "unusable_parent byId recordsById f \<longleftrightarrow>
     \<not> known_folder byId f \<or>
     (case map_of byId f of Some n \<Rightarrow> node_ancestryOnly n | None \<Rightarrow> False) \<or>
     (case map_of recordsById f of Some r \<Rightarrow> fol_terminal r \<noteq> None | None \<Rightarrow> False)"

definition pending_edge ::
  "node_map \<Rightarrow> folder_map \<Rightarrow> (resource_location \<Rightarrow> bool) \<Rightarrow> string \<Rightarrow> resource_destination option" where
  "pending_edge byId recordsById destinationInstalled k =
     (case desired_edge recordsById k of
        None \<Rightarrow> None
      | Some edge \<Rightarrow> (case dest_parent edge of
            FolderParent f \<Rightarrow> if unusable_parent byId recordsById f then None else Some edge
          | RootParent s w \<Rightarrow>
              if destinationInstalled \<lparr>loc_scheme = s, loc_path = [], loc_name = [], loc_owner = w\<rparr>
              then Some edge else None))"

section \<open>Breaking cycles\<close>

record edge_state =
  es_canonical :: edge_map
  es_pending :: edge_map

definition edge_of :: "edge_state \<Rightarrow> string \<Rightarrow> resource_destination option" where
  "edge_of st k = (case es_pending st k of Some e \<Rightarrow> Some e | None \<Rightarrow> es_canonical st k)"

fun folder_id_of :: "parent_ref \<Rightarrow> string option" where
  "folder_id_of (FolderParent f) = Some f"
| "folder_id_of (RootParent _ _) = None"

definition parent_folder :: "edge_state \<Rightarrow> string \<Rightarrow> string option" where
  "parent_folder st k = Option.bind (edge_of st k) (\<lambda>e. folder_id_of (dest_parent e))"

text \<open>
  A cycle loses its pending edges; a cycle of canonical edges alone is rooted at the locations the
  server gave. Its members are folders of the project, so each has a canonical location.
\<close>

definition break_cycle ::
  "(string \<Rightarrow> resource_location option) \<Rightarrow> string list \<Rightarrow> edge_state \<Rightarrow> edge_state" where
  "break_cycle canonicalLocations members st =
     (let canonicalCycle = list_all (\<lambda>m. es_pending st m = None) members
      in fold (\<lambda>m s. s\<lparr>es_canonical := (if canonicalCycle
                     then (es_canonical s)(m := map_option absolute_edge (canonicalLocations m))
                     else es_canonical s),
                  es_pending := (es_pending s)(m := None)\<rparr>) members st)"

text \<open>
  One walk towards the root. The chain holds the folders of the walk, and the position of each is
  the source's \<^verbatim>\<open>active\<close> map; an empty id is a false condition in the source and ends the walk.
\<close>

partial_function (option) walk_up ::
  "(string \<Rightarrow> resource_location option) \<Rightarrow> string list \<Rightarrow> edge_state \<Rightarrow> string list \<Rightarrow> string option
     \<Rightarrow> (edge_state \<times> string list) option" where
  "walk_up locs finished st chain next =
     (case next of
        None \<Rightarrow> Some (st, chain)
      | Some n \<Rightarrow>
          if n = [] \<or> n \<in> set finished then Some (st, chain)
          else if n \<in> set chain
          then walk_up locs finished (break_cycle locs (dropWhile (\<lambda>m. m \<noteq> n) chain) st)
                 (takeWhile (\<lambda>m. m \<noteq> n) chain) next
          else walk_up locs finished st (chain @ [n]) (parent_folder st n))"

declare walk_up.simps [simp del, code]

fun break_cycles ::
  "(string \<Rightarrow> resource_location option) \<Rightarrow> string list \<Rightarrow> string list \<Rightarrow> edge_state \<Rightarrow> edge_state option" where
  "break_cycles locs [] finished st = Some st"
| "break_cycles locs (k # ks) finished st =
     Option.bind (walk_up locs finished st [] (Some k))
       (\<lambda>(st', chain). break_cycles locs ks (finished @ chain) st')"

section \<open>Locations\<close>

record placement =
  pl_location :: "resource_location option"
  pl_hidden :: bool

type_synonym placements = "(string \<times> placement) list"

definition missing_edge :: js_error where
  "missing_edge = TypeError ''Cannot read properties of undefined (reading 'parent')''"

definition is_resolved :: "placements \<Rightarrow> string \<Rightarrow> bool" where
  "is_resolved resolved k \<longleftrightarrow> map_of resolved k \<noteq> None"

definition has_edge :: "edge_state \<Rightarrow> string \<Rightarrow> bool" where
  "has_edge st k \<longleftrightarrow> edge_of st k \<noteq> None"

partial_function (option) ancestors_up ::
  "edge_state \<Rightarrow> placements \<Rightarrow> string option \<Rightarrow> string list \<Rightarrow> string list result option" where
  "ancestors_up st resolved next chain =
     (case next of
        None \<Rightarrow> Some (Inr chain)
      | Some n \<Rightarrow>
          if n = [] \<or> is_resolved resolved n then Some (Inr chain)
          else if has_edge st n then ancestors_up st resolved (parent_folder st n) (chain @ [n])
          else Some (Inl missing_edge))"

declare ancestors_up.simps [simp del, code]

definition resolved_location :: "placements \<Rightarrow> string \<Rightarrow> resource_location option" where
  "resolved_location resolved k = Option.bind (map_of resolved k) pl_location"

definition resolved_hidden :: "placements \<Rightarrow> parent_ref \<Rightarrow> bool" where
  "resolved_hidden resolved parent =
     (case Option.bind (folder_id_of parent) (map_of resolved) of
        Some p \<Rightarrow> pl_hidden p | None \<Rightarrow> False)"

definition place_folder ::
  "folder_map \<Rightarrow> (string \<Rightarrow> resource_location option) \<Rightarrow> edge_state \<Rightarrow> string \<Rightarrow> placements
     \<Rightarrow> placements result" where
  "place_folder recordsById locs st member resolved =
     (case edge_of st member of
        None \<Rightarrow> Inl missing_edge
      | Some edge \<Rightarrow>
          and_then (if resolved_hidden resolved (dest_parent edge) then Inr True
                    else (case map_of recordsById member of
                        None \<Rightarrow> Inr False | Some r \<Rightarrow> folder_owns_deletion r))
            (\<lambda>hidden. Inr (assoc_set member
               \<lparr>pl_location = (if es_pending st member = None \<and> folder_id_of (dest_parent edge) = None
                               then locs member
                               else destination_location edge (resolved_location resolved)),
                pl_hidden = hidden\<rparr> resolved)))"

fun place_folders ::
  "folder_map \<Rightarrow> (string \<Rightarrow> resource_location option) \<Rightarrow> edge_state \<Rightarrow> string list \<Rightarrow> placements
     \<Rightarrow> placements result" where
  "place_folders recordsById locs st [] resolved = Inr resolved"
| "place_folders recordsById locs st (m # ms) resolved =
     and_then (place_folder recordsById locs st m resolved) (place_folders recordsById locs st ms)"

fun resolve_all ::
  "folder_map \<Rightarrow> (string \<Rightarrow> resource_location option) \<Rightarrow> edge_state \<Rightarrow> string list \<Rightarrow> placements
     \<Rightarrow> placements result option" where
  "resolve_all recordsById locs st [] resolved = Some (Inr resolved)"
| "resolve_all recordsById locs st (k # ks) resolved =
     (case ancestors_up st resolved (Some k) [] of
        None \<Rightarrow> None
      | Some (Inl e) \<Rightarrow> Some (Inl e)
      | Some (Inr chain) \<Rightarrow>
          (case place_folders recordsById locs st (rev chain) resolved of
             Inl e \<Rightarrow> Some (Inl e)
           | Inr resolved' \<Rightarrow> resolve_all recordsById locs st ks resolved'))"

section \<open>The graph\<close>

record placement_graph =
  pg_byId :: node_map
  pg_recordsById :: folder_map
  pg_edges :: edge_state
  pg_resolved :: placements

definition node_locations :: "node_map \<Rightarrow> folder_map \<Rightarrow> string \<Rightarrow> resource_location option" where
  "node_locations byId recordsById k = map_option (canonical_location recordsById) (map_of byId k)"

definition initial_edges ::
  "node_map \<Rightarrow> folder_map \<Rightarrow> (resource_location \<Rightarrow> bool) \<Rightarrow> edge_state" where
  "initial_edges byId recordsById destinationInstalled =
     \<lparr>es_canonical = (\<lambda>k. map_option (canonical_edge byId recordsById) (map_of byId k)),
      es_pending = (\<lambda>k. if known_folder byId k
                         then pending_edge byId recordsById destinationInstalled k else None)\<rparr>"

definition folder_placement_graph ::
  "string \<Rightarrow> placement_node list \<Rightarrow> folder_record list \<Rightarrow> (resource_location \<Rightarrow> bool)
     \<Rightarrow> placement_graph result option" where
  "folder_placement_graph projectId nodes records destinationInstalled =
     (let recordsById = records_by_id projectId records;
          byId = map_from node_id nodes;
          locs = node_locations byId recordsById
      in case break_cycles locs (map fst byId) [] (initial_edges byId recordsById destinationInstalled) of
           None \<Rightarrow> None
         | Some st \<Rightarrow>
             map_option (\<lambda>r. and_then r (\<lambda>resolved. Inr \<lparr>pg_byId = byId, pg_recordsById = recordsById,
                 pg_edges = st, pg_resolved = resolved\<rparr>))
               (resolve_all recordsById locs st (map fst byId) []))"

definition parent_for_folder :: "placement_graph \<Rightarrow> string \<Rightarrow> parent_ref option" where
  "parent_for_folder g k = map_option dest_parent (edge_of (pg_edges g) k)"

definition graph_location :: "placement_graph \<Rightarrow> string \<Rightarrow> resource_location option" where
  "graph_location g k = resolved_location (pg_resolved g) k"

definition graph_hidden :: "placement_graph \<Rightarrow> string \<Rightarrow> bool" where
  "graph_hidden g k = (case map_of (pg_resolved g) k of Some p \<Rightarrow> pl_hidden p | None \<Rightarrow> False)"

text \<open>
  Placing a document: its pending destination unless the folder it names cannot hold it, else its
  canonical edge. A destination is never the fallback edge itself.
\<close>

definition graph_place ::
  "placement_graph \<Rightarrow> resource_location \<Rightarrow> resource_destination option \<Rightarrow> parent_ref option
     \<Rightarrow> resource_location \<times> bool" where
  "graph_place g location destination canonicalParent =
     (let fallback = edge_under (pg_byId g) canonicalParent location;
          unusable = (\<lambda>e. case dest_parent e of
              FolderParent f \<Rightarrow> unusable_parent (pg_byId g) (pg_recordsById g) f | _ \<Rightarrow> False);
          pending = (case destination of
              Some d \<Rightarrow> if unusable d then None else Some d | None \<Rightarrow> None);
          edge = (case pending of Some d \<Rightarrow> d | None \<Rightarrow> fallback)
      in (if pending = None \<and> folder_id_of (dest_parent edge) = None then location
          else (case destination_location edge (resolved_location (pg_resolved g)) of
              Some l \<Rightarrow> l | None \<Rightarrow> location),
          resolved_hidden (pg_resolved g) (dest_parent edge)))"

end
