(* ===== verification/Placement_Paths.thy ===== *)
theory Placement_Paths
  imports Placement_Graph Folder_Validator
begin

text \<open>
  What the placement graph of \<^verbatim>\<open>folder-placement.ts\<close> computes: breaking cycles and placing folders
  both end for every input, a folder whose pending edges lead to a root keeps every one of them,
  and the locations are the solution of the edges' equations.
\<close>

section \<open>Walking along the edges\<close>

text \<open>A folder is grounded when the walk from it reaches a root.\<close>

inductive grounded :: "edge_state \<Rightarrow> string \<Rightarrow> bool" for st where
  root: "parent_folder st k = None \<Longrightarrow> grounded st k"
| empty: "parent_folder st k = Some [] \<Longrightarrow> grounded st k"
| step: "parent_folder st k = Some f \<Longrightarrow> grounded st f \<Longrightarrow> grounded st k"

fun links :: "edge_state \<Rightarrow> string list \<Rightarrow> string option \<Rightarrow> bool" where
  "links st [] next = True"
| "links st (m # ms) next \<longleftrightarrow>
     parent_folder st m = (case ms of [] \<Rightarrow> next | k # _ \<Rightarrow> Some k) \<and> links st ms next"

lemma links_append:
  "links st (xs @ ys) next \<longleftrightarrow>
     links st xs (case ys of [] \<Rightarrow> next | y # _ \<Rightarrow> Some y) \<and> links st ys next"
proof (induction xs)
  case (Cons x xs)
  then show ?case by (cases xs; cases ys) auto
qed (simp split: list.split)

lemma links_last: "links st (chain @ [n]) (parent_folder st n) \<longleftrightarrow> links st chain (Some n)"
  by (simp add: links_append)

lemma links_cong:
  "links st xs next \<Longrightarrow> (\<And>k. k \<in> set xs \<Longrightarrow> parent_folder st' k = parent_folder st k) \<Longrightarrow>
     links st' xs next"
  by (induction xs) auto

lemma links_folder: "links st xs (Some n) \<Longrightarrow> k \<in> set xs \<Longrightarrow> \<exists>f. parent_folder st k = Some f"
proof (induction xs)
  case (Cons x xs)
  then show ?case by (cases xs) auto
qed simp

lemma links_grounded:
  "links st xs next \<Longrightarrow> (case next of None \<Rightarrow> True | Some n \<Rightarrow> n = [] \<or> grounded st n) \<Longrightarrow>
     k \<in> set xs \<Longrightarrow> grounded st k"
proof (induction xs arbitrary: k)
  case (Cons m ms)
  have rest: "grounded st j" if "j \<in> set ms" for j
    using Cons that by auto
  have "grounded st m"
  proof (cases ms)
    case Nil
    then show ?thesis using Cons.prems(1,2) by (cases "next") (auto intro: grounded.intros)
  next
    case (Cons j js)
    then have "parent_folder st m = Some j" using Cons.prems(1) by simp
    then show ?thesis using rest Cons by (auto intro: grounded.step)
  qed
  then show ?case using rest Cons.prems(3) by auto
qed simp

text \<open>No folder of a cycle is grounded.\<close>

lemma cycle_successor:
  assumes "links st xs (Some (hd xs))" and "k \<in> set xs"
  shows "\<exists>f \<in> set xs. parent_folder st k = Some f"
proof -
  from assms(2) obtain ys zs where xs: "xs = ys @ k # zs" by (auto simp: in_set_conv_decomp)
  from assms(1) have "parent_folder st k = (case zs of [] \<Rightarrow> Some (hd xs) | j # _ \<Rightarrow> Some j)"
    unfolding xs by (simp add: links_append)
  then show ?thesis
    by (cases zs; cases ys) (auto simp: xs)
qed

lemma cycle_not_grounded:
  assumes "grounded st k" and "links st xs (Some (hd xs))" and "[] \<notin> set xs"
  shows "k \<notin> set xs"
  using assms(1)
proof (induction rule: grounded.induct)
  case (root k)
  then show ?case using cycle_successor [OF assms(2)] by fastforce
next
  case (empty k)
  then show ?case using cycle_successor [OF assms(2)] assms(3) by fastforce
next
  case (step k f)
  then show ?case using cycle_successor [OF assms(2)] by fastforce
qed

section \<open>Breaking one cycle\<close>

definition canonical_cycle :: "edge_state \<Rightarrow> string list \<Rightarrow> bool" where
  "canonical_cycle st members \<longleftrightarrow> (\<forall>m \<in> set members. es_pending st m = None)"

lemma break_cycle_pending [simp]:
  "es_pending (break_cycle locs members st) k = (if k \<in> set members then None else es_pending st k)"
proof -
  have "es_pending (fold (\<lambda>m s. s\<lparr>es_canonical := (if c
                     then (es_canonical s)(m := map_option absolute_edge (locs m))
                     else es_canonical s),
                  es_pending := (es_pending s)(m := None)\<rparr>) ms s) k =
        (if k \<in> set ms then None else es_pending s k)" for c ms and s :: edge_state
    by (induction ms arbitrary: s) auto
  then show ?thesis by (simp add: break_cycle_def Let_def)
qed

lemma break_cycle_canonical [simp]:
  "es_canonical (break_cycle locs members st) k =
     (if canonical_cycle st members \<and> k \<in> set members then map_option absolute_edge (locs k)
      else es_canonical st k)"
proof -
  have "es_canonical (fold (\<lambda>m s. s\<lparr>es_canonical := (if c
                     then (es_canonical s)(m := map_option absolute_edge (locs m))
                     else es_canonical s),
                  es_pending := (es_pending s)(m := None)\<rparr>) ms s) k =
        (if c \<and> k \<in> set ms then map_option absolute_edge (locs k) else es_canonical s k)"
    for c ms and s :: edge_state
    by (induction ms arbitrary: s) auto
  then show ?thesis by (simp add: break_cycle_def Let_def canonical_cycle_def)
qed

lemma edge_of_break_outside [simp]:
  "k \<notin> set members \<Longrightarrow> edge_of (break_cycle locs members st) k = edge_of st k"
  by (simp add: edge_of_def split: option.split)

lemma parent_break_outside [simp]:
  "k \<notin> set members \<Longrightarrow> parent_folder (break_cycle locs members st) k = parent_folder st k"
  by (simp add: parent_folder_def)

lemma absolute_edge_root [simp]: "folder_id_of (dest_parent (absolute_edge l)) = None"
  by (simp add: absolute_edge_def)

text \<open>The edges of a project: every folder has a canonical edge, and parents are folders of it.\<close>

definition edges_within :: "string set \<Rightarrow> (string \<Rightarrow> resource_location option) \<Rightarrow> edge_state \<Rightarrow> bool" where
  "edges_within K locs st \<longleftrightarrow>
     finite K \<and> dom locs = K \<and> dom (es_canonical st) = K \<and> dom (es_pending st) \<subseteq> K \<and>
     (\<forall>k e f. es_canonical st k = Some e \<longrightarrow> folder_id_of (dest_parent e) = Some f \<longrightarrow> f \<in> K) \<and>
     (\<forall>k e f. es_pending st k = Some e \<longrightarrow> folder_id_of (dest_parent e) = Some f \<longrightarrow> f \<in> K)"

lemma edges_within_break:
  assumes "edges_within K locs st" and "set members \<subseteq> K"
  shows "edges_within K locs (break_cycle locs members st)"
proof -
  let ?st = "break_cycle locs members st"
  have "dom (es_canonical ?st) = K"
    using assms by (auto simp: edges_within_def dom_def split: if_splits) 
  moreover have "dom (es_pending ?st) \<subseteq> K"
    using assms by (auto simp: edges_within_def dom_def split: if_splits)
  moreover have "f \<in> K" if "es_canonical ?st k = Some e" "folder_id_of (dest_parent e) = Some f" for k e f
    using that assms by (auto simp: edges_within_def split: if_splits)
  moreover have "f \<in> K" if "es_pending ?st k = Some e" "folder_id_of (dest_parent e) = Some f" for k e f
    using that assms by (auto simp: edges_within_def split: if_splits)
  ultimately show ?thesis using assms(1) unfolding edges_within_def by blast
qed

lemma edges_within_finite: "edges_within K locs st \<Longrightarrow> finite K"
  and edges_within_locs: "edges_within K locs st \<Longrightarrow> dom locs = K"
  and edges_within_canonical: "edges_within K locs st \<Longrightarrow> es_canonical st k = Some e \<Longrightarrow>
    folder_id_of (dest_parent e) = Some f \<Longrightarrow> f \<in> K"
  and edges_within_pending: "edges_within K locs st \<Longrightarrow> es_pending st k = Some e \<Longrightarrow>
    folder_id_of (dest_parent e) = Some f \<Longrightarrow> f \<in> K"
  and edges_within_doms: "edges_within K locs st \<Longrightarrow>
    dom (es_canonical st) = K \<and> dom (es_pending st) \<subseteq> K"
  unfolding edges_within_def by blast+

lemma edges_within_parent:
  assumes "edges_within K locs st" and "parent_folder st k = Some f" shows "f \<in> K"
  using assms(2) edges_within_canonical [OF assms(1)] edges_within_pending [OF assms(1)]
  by (simp add: parent_folder_def edge_of_def bind_eq_Some_conv split: option.splits) blast+

lemma edges_within_edge: "edges_within K locs st \<Longrightarrow> k \<in> K \<Longrightarrow> \<exists>e. edge_of st k = Some e"
  by (auto simp: edges_within_def edge_of_def dom_def split: option.splits)

text \<open>Each cycle removes a pending edge or roots a canonical one.\<close>

definition canonical_folders :: "edge_state \<Rightarrow> string set" where
  "canonical_folders st =
     {k. \<exists>e. es_canonical st k = Some e \<and> folder_id_of (dest_parent e) \<noteq> None}"

definition edges_left :: "edge_state \<Rightarrow> nat" where
  "edges_left st = card (dom (es_pending st)) + card (canonical_folders st)"

lemma break_cycle_decreases:
  assumes within: "edges_within K locs st" and sub: "set members \<subseteq> K" and mem: "n \<in> set members"
    and parent: "parent_folder st n = Some f"
  shows "edges_left (break_cycle locs members st) < edges_left st"
proof -
  let ?st = "break_cycle locs members st"
  have fin: "finite (dom (es_pending st))" "finite (canonical_folders st)"
    using edges_within_doms [OF within] edges_within_finite [OF within]
    by (auto simp: canonical_folders_def dom_def intro: finite_subset [of _ K])
  have pend: "dom (es_pending ?st) = dom (es_pending st) - set members"
    by (auto split: if_splits)
  show ?thesis
  proof (cases "canonical_cycle st members")
    case True
    have "dom (es_pending ?st) = dom (es_pending st)"
      using True by (auto simp: canonical_cycle_def split: if_splits)
    moreover have "canonical_folders ?st \<subset> canonical_folders st"
    proof (rule psubsetI)
      show "canonical_folders ?st \<subseteq> canonical_folders st"
        by (auto simp: canonical_folders_def split: if_splits)
      have "n \<in> canonical_folders st"
        using True parent mem
        by (auto simp: canonical_folders_def canonical_cycle_def parent_folder_def edge_of_def bind_eq_Some_conv)
      moreover have "n \<notin> canonical_folders ?st"
        using True mem by (auto simp: canonical_folders_def)
      ultimately show "canonical_folders ?st \<noteq> canonical_folders st" by blast
    qed
    ultimately show ?thesis
      unfolding edges_left_def using psubset_card_mono [OF fin(2)] by simp
  next
    case False
    then obtain m where "m \<in> set members" "m \<in> dom (es_pending st)"
      by (auto simp: canonical_cycle_def)
    then have "dom (es_pending ?st) \<subset> dom (es_pending st)" unfolding pend by auto
    moreover have "canonical_folders ?st = canonical_folders st"
      using False by (simp add: canonical_folders_def)
    ultimately show ?thesis
      unfolding edges_left_def using psubset_card_mono [OF fin(1)] by simp
  qed
qed

section \<open>One walk\<close>

text \<open>
  What one walk keeps of the edges: a folder grounded before it has the edges it had, and every
  other folder loses at most its pending edge or is rooted.
\<close>

definition same_edges :: "edge_state \<Rightarrow> edge_state \<Rightarrow> string \<Rightarrow> bool" where
  "same_edges st st' k \<longleftrightarrow> edge_of st' k = edge_of st k \<and> es_pending st' k = es_pending st k"

definition keeps_grounded :: "edge_state \<Rightarrow> edge_state \<Rightarrow> bool" where
  "keeps_grounded st st' \<longleftrightarrow> (\<forall>k. grounded st k \<longrightarrow> same_edges st st' k)"

definition only_falls_back ::
  "(string \<Rightarrow> resource_location option) \<Rightarrow> edge_state \<Rightarrow> edge_state \<Rightarrow> bool" where
  "only_falls_back locs st st' \<longleftrightarrow>
     (\<forall>k. (es_pending st' k = None \<or> es_pending st' k = es_pending st k) \<and>
          (es_canonical st' k = es_canonical st k \<or>
           es_canonical st' k = map_option absolute_edge (locs k)))"

lemma same_edges_parent: "same_edges st st' k \<Longrightarrow> parent_folder st' k = parent_folder st k"
  by (simp add: same_edges_def parent_folder_def)

lemma same_edges_trans: "same_edges st st' k \<Longrightarrow> same_edges st' st'' k \<Longrightarrow> same_edges st st'' k"
  by (simp add: same_edges_def)

lemma keeps_grounded_refl [simp]: "keeps_grounded st st"
  by (simp add: keeps_grounded_def same_edges_def)

lemma kept_parent: "keeps_grounded st st' \<Longrightarrow> grounded st k \<Longrightarrow> parent_folder st' k = parent_folder st k"
  by (simp add: keeps_grounded_def same_edges_parent)

lemma grounded_kept:
  assumes "keeps_grounded st st'" and "grounded st k"
  shows "grounded st' k"
  using assms(2)
proof (induction rule: grounded.induct)
  case (root k)
  then show ?case using kept_parent [OF assms(1) grounded.root [OF root]] by (simp add: grounded.root)
next
  case (empty k)
  then show ?case using kept_parent [OF assms(1) grounded.empty [OF empty]] by (simp add: grounded.empty)
next
  case (step k f)
  then show ?case
    using kept_parent [OF assms(1) grounded.step [OF step(1,2)]] by (auto intro: grounded.step)
qed

lemma keeps_grounded_trans: "keeps_grounded st st' \<Longrightarrow> keeps_grounded st' st'' \<Longrightarrow> keeps_grounded st st''"
  using grounded_kept same_edges_trans unfolding keeps_grounded_def by blast

lemma only_falls_back_refl [simp]: "only_falls_back locs st st"
  by (simp add: only_falls_back_def)

lemma only_falls_back_trans:
  "only_falls_back locs st st' \<Longrightarrow> only_falls_back locs st' st'' \<Longrightarrow> only_falls_back locs st st''"
  unfolding only_falls_back_def by metis

lemma fallback_edges:
  assumes "only_falls_back locs st st'"
  shows "edge_of st' k \<in> {edge_of st k, es_canonical st k, map_option absolute_edge (locs k)}"
proof -
  have "es_pending st' k = None \<or> es_pending st' k = es_pending st k"
    "es_canonical st' k = es_canonical st k \<or> es_canonical st' k = map_option absolute_edge (locs k)"
    using assms unfolding only_falls_back_def by blast+
  then show ?thesis by (cases "es_pending st k"; cases "es_pending st' k") (auto simp: edge_of_def)
qed

lemma break_cycle_falls_back [simp]: "only_falls_back locs st (break_cycle locs members st)"
  by (simp add: only_falls_back_def)

lemma break_cycle_keeps:
  assumes "links st members (Some (hd members))" and "[] \<notin> set members"
  shows "keeps_grounded st (break_cycle locs members st)"
  using cycle_not_grounded [OF _ assms] by (simp add: keeps_grounded_def same_edges_def)

text \<open>Finished folders lead to a root through finished folders.\<close>

definition finished_ok :: "edge_state \<Rightarrow> string set \<Rightarrow> bool" where
  "finished_ok st F \<longleftrightarrow>
     (\<forall>k \<in> F. grounded st k \<and> (\<forall>f. parent_folder st k = Some f \<longrightarrow> f = [] \<or> f \<in> F))"

lemma finished_kept: "finished_ok st F \<Longrightarrow> keeps_grounded st st' \<Longrightarrow> finished_ok st' F"
  using grounded_kept same_edges_parent unfolding finished_ok_def keeps_grounded_def by metis

lemma finished_chain:
  assumes "finished_ok st F" and "links st chain next"
    and "case next of None \<Rightarrow> True | Some n \<Rightarrow> n = [] \<or> n \<in> F"
  shows "finished_ok st (F \<union> set chain)"
proof -
  have g: "grounded st k" if "k \<in> set chain" for k
    using links_grounded [OF assms(2) _ that] assms(1,3)
    by (cases "next") (auto simp: finished_ok_def)
  have p: "f = [] \<or> f \<in> F \<union> set chain" if "k \<in> set chain" "parent_folder st k = Some f" for k f
    using assms(2,3) that
  proof (induction chain)
    case (Cons m ms)
    then show ?case by (cases ms) (auto split: option.splits)
  qed simp
  show ?thesis using g p assms(1) by (auto simp: finished_ok_def)
qed

definition walking ::
  "string set \<Rightarrow> (string \<Rightarrow> resource_location option) \<Rightarrow> string set \<Rightarrow> edge_state \<Rightarrow> string list
     \<Rightarrow> string option \<Rightarrow> bool" where
  "walking K locs F st chain next \<longleftrightarrow>
     edges_within K locs st \<and> finished_ok st F \<and> links st chain next \<and> distinct chain \<and>
     set chain \<subseteq> K \<and> [] \<notin> set chain \<and> set chain \<inter> F = {} \<and> (\<forall>n. next = Some n \<longrightarrow> n \<in> K)"

definition walk_start :: "string list \<Rightarrow> string option \<Rightarrow> string option" where
  "walk_start chain next = (case chain of [] \<Rightarrow> next | c # _ \<Rightarrow> Some c)"

lemma cycle_split:
  assumes "n \<in> set chain"
  shows "chain = takeWhile (\<lambda>m. m \<noteq> n) chain @ dropWhile (\<lambda>m. m \<noteq> n) chain"
    and "hd (dropWhile (\<lambda>m. m \<noteq> n) chain) = n" and "n \<in> set (dropWhile (\<lambda>m. m \<noteq> n) chain)"
    and "dropWhile (\<lambda>m. m \<noteq> n) chain \<noteq> []"
  using assms by (induction chain) auto

text \<open>The step that meets a folder of its own chain.\<close>

lemma walking_break:
  assumes w: "walking K locs F st chain (Some n)" and mem: "n \<in> set chain"
  defines "members \<equiv> dropWhile (\<lambda>m. m \<noteq> n) chain" and "before \<equiv> takeWhile (\<lambda>m. m \<noteq> n) chain"
  defines "st' \<equiv> break_cycle locs members st"
  shows "walking K locs F st' before (Some n)" and "edges_left st' < edges_left st"
    and "keeps_grounded st st'" and "only_falls_back locs st st'"
    and "walk_start before (Some n) = walk_start chain (Some n)"
proof -
  have split: "chain = before @ members" "hd members = n" "n \<in> set members" "members \<noteq> []"
    using cycle_split [OF mem] by (simp_all add: members_def before_def)
  have within: "edges_within K locs st" and fin: "finished_ok st F" and links: "links st chain (Some n)"
    and dist: "distinct chain" and sub: "set chain \<subseteq> K" and ne: "[] \<notin> set chain"
    and dis: "set chain \<inter> F = {}" and nK: "n \<in> K"
    using w by (auto simp: walking_def)
  have lm: "links st members (Some (hd members))" and lb: "links st before (Some n)"
    using links split(2,4) unfolding split(1) by (auto simp: links_append split: list.splits)
  show kg: "keeps_grounded st st'"
    unfolding st'_def by (rule break_cycle_keeps [OF lm]) (use ne split(1) in auto)
  show "only_falls_back locs st st'" by (simp add: st'_def)
  have disj: "set before \<inter> set members = {}" using dist split(1) by simp
  have "links st' before (Some n)"
    by (rule links_cong [OF lb], unfold st'_def, rule parent_break_outside) (use disj in auto)
  moreover have "edges_within K locs st'"
    unfolding st'_def by (rule edges_within_break [OF within]) (use sub split(1) in auto)
  moreover have "finished_ok st' F" by (rule finished_kept [OF fin kg])
  moreover have "distinct before" "set before \<subseteq> K" "[] \<notin> set before" "set before \<inter> F = {}"
    using dist sub ne dis split(1) by auto
  ultimately show "walking K locs F st' before (Some n)" using nK by (simp add: walking_def)
  obtain f where "parent_folder st n = Some f" using links_folder [OF lm split(3)] by blast
  moreover have "set members \<subseteq> K" using sub split(1) by auto
  ultimately show "edges_left st' < edges_left st"
    unfolding st'_def using break_cycle_decreases [OF within _ split(3)] by blast
  show "walk_start before (Some n) = walk_start chain (Some n)"
    using split(2,4) by (cases before; cases members) (auto simp: walk_start_def split(1))
qed

lemma walking_push:
  assumes w: "walking K locs F st chain (Some n)" and "n \<noteq> []" "n \<notin> F" "n \<notin> set chain"
  shows "walking K locs F st (chain @ [n]) (parent_folder st n)"
    and "walk_start (chain @ [n]) (parent_folder st n) = walk_start chain (Some n)"
  using assms edges_within_parent [of K locs st n]
  by (auto simp: walking_def links_last walk_start_def split: list.splits)

text \<open>Every walk ends, in a state where its folders are finished too.\<close>

lemma walk_ends:
  assumes "walking K locs (set finished) st chain next"
  shows "\<exists>st' chain'. walk_up locs finished st chain next = Some (st', chain') \<and>
           edges_within K locs st' \<and> finished_ok st' (set (finished @ chain')) \<and>
           keeps_grounded st st' \<and> only_falls_back locs st st' \<and>
           (\<forall>k. walk_start chain next = Some k \<longrightarrow> k = [] \<or> k \<in> set (finished @ chain'))"
  using assms
proof (induction "edges_left st * Suc (card K) + card (K - set chain)" arbitrary: st chain "next"
    rule: less_induct)
  case less
  note w = less.prems
  have finK: "finite K" using w edges_within_finite by (auto simp: walking_def)
  show ?case
  proof (cases "case next of None \<Rightarrow> True | Some n \<Rightarrow> n = [] \<or> n \<in> set finished")
    case True
    then have "walk_up locs finished st chain next = Some (st, chain)"
      by (subst walk_up.simps) (auto split: option.splits)
    moreover have "finished_ok st (set finished \<union> set chain)"
      by (rule finished_chain [OF _ _ True]) (use w in \<open>auto simp: walking_def\<close>)
    moreover have "k = [] \<or> k \<in> set (finished @ chain)" if "walk_start chain next = Some k" for k
      using that True by (auto simp: walk_start_def split: list.splits)
    ultimately show ?thesis using w by (auto simp: walking_def)
  next
    case False
    then obtain n where n: "next = Some n" "n \<noteq> []" "n \<notin> set finished" by (auto split: option.splits)
    have wn: "walking K locs (set finished) st chain (Some n)" using w n by simp
    show ?thesis
    proof (cases "n \<in> set chain")
      case True
      let ?st = "break_cycle locs (dropWhile (\<lambda>m. m \<noteq> n) chain) st"
      let ?before = "takeWhile (\<lambda>m. m \<noteq> n) chain"
      note b = walking_break [OF wn True]
      have e: "walk_up locs finished st chain next = walk_up locs finished ?st ?before (Some n)"
        unfolding n(1) using n(2,3) True by (subst walk_up.simps) simp
      have "card (K - set ?before) \<le> card K" using finK by (simp add: card_mono)
      moreover have "edges_left ?st * Suc (card K) + Suc (card K) \<le> edges_left st * Suc (card K)"
        using b(2) mult_le_mono1 [of "Suc (edges_left ?st)" "edges_left st" "Suc (card K)"] by simp
      ultimately have "edges_left ?st * Suc (card K) + card (K - set ?before)
          < edges_left st * Suc (card K) + card (K - set chain)" by linarith
      from less.hyps [OF this b(1)] show ?thesis
        unfolding e unfolding b(5) n(1) using keeps_grounded_trans [OF b(3)] only_falls_back_trans [OF b(4)]
        by blast
    next
      case False
      note p = walking_push [OF wn n(2,3) False]
      have e: "walk_up locs finished st chain (Some n) =
          walk_up locs finished st (chain @ [n]) (parent_folder st n)"
        using n(2,3) False by (subst walk_up.simps) simp
      have "n \<in> K" using wn by (simp add: walking_def)
      then have "card (K - set (chain @ [n])) < card (K - set chain)"
        using finK False by (intro psubset_card_mono) auto
      then have "edges_left st * Suc (card K) + card (K - set (chain @ [n]))
          < edges_left st * Suc (card K) + card (K - set chain)" by simp
      from less.hyps [OF this p(1)] show ?thesis unfolding n(1) e p(2) .
    qed
  qed
qed

lemma breaking_ends:
  assumes "edges_within K locs st" and "finished_ok st (set finished)" and "set ks \<subseteq> K"
  shows "\<exists>st' F. break_cycles locs ks finished st = Some st' \<and> edges_within K locs st' \<and>
           finished_ok st' F \<and> set finished \<union> (set ks - {[]}) \<subseteq> F \<and>
           keeps_grounded st st' \<and> only_falls_back locs st st'"
  using assms
proof (induction ks arbitrary: finished st)
  case (Cons k ks)
  have "walking K locs (set finished) st [] (Some k)"
    using Cons.prems by (simp add: walking_def)
  from walk_ends [OF this] obtain st1 chain where w: "walk_up locs finished st [] (Some k) = Some (st1, chain)"
    and w1: "edges_within K locs st1" "finished_ok st1 (set (finished @ chain))"
    and w2: "keeps_grounded st st1" "only_falls_back locs st st1"
    and w3: "k = [] \<or> k \<in> set (finished @ chain)"
    by (auto simp: walk_start_def)
  from Cons.IH [OF w1] Cons.prems(3) obtain st' F where r: "break_cycles locs ks (finished @ chain) st1 = Some st'"
    and r1: "edges_within K locs st'" "finished_ok st' F" "set (finished @ chain) \<union> (set ks - {[]}) \<subseteq> F"
    and r2: "keeps_grounded st1 st'" "only_falls_back locs st1 st'" by auto
  have "set finished \<union> (set (k # ks) - {[]}) \<subseteq> F" using r1(3) w3 by auto
  then show ?case
    using r1 keeps_grounded_trans [OF w2(1) r2(1)] only_falls_back_trans [OF w2(2) r2(2)]
    by (auto simp: w r)
qed (auto simp: finished_ok_def)

section \<open>Locations along the edges\<close>

lemma destination_location_cong:
  "(\<And>f. dest_parent d = FolderParent f \<Longrightarrow> l f = l' f) \<Longrightarrow>
     destination_location d l = destination_location d l'"
  by (cases "dest_parent d") (simp_all add: destination_location_def destination_parent_location_def)

lemma destination_location_Some:
  "(\<And>f. dest_parent d = FolderParent f \<Longrightarrow> l f \<noteq> None) \<Longrightarrow> destination_location d l \<noteq> None"
  by (cases "dest_parent d") (auto simp: destination_location_def destination_parent_location_def)

text \<open>What a folder's edge says of its place, given the places of the others.\<close>

definition edge_location ::
  "(string \<Rightarrow> resource_location option) \<Rightarrow> edge_state \<Rightarrow> placements \<Rightarrow> string \<Rightarrow> resource_destination
     \<Rightarrow> resource_location option" where
  "edge_location locs st resolved k edge =
     (if es_pending st k = None \<and> folder_id_of (dest_parent edge) = None then locs k
      else destination_location edge (resolved_location resolved))"

definition edge_hidden ::
  "folder_map \<Rightarrow> placements \<Rightarrow> string \<Rightarrow> resource_destination \<Rightarrow> bool result" where
  "edge_hidden recordsById resolved k edge =
     (if resolved_hidden resolved (dest_parent edge) then Inr True
      else (case map_of recordsById k of None \<Rightarrow> Inr False | Some r \<Rightarrow> folder_owns_deletion r))"

lemma place_folder_edges:
  "edge_of st m = Some edge \<Longrightarrow> place_folder recordsById locs st m resolved =
     and_then (edge_hidden recordsById resolved m edge) (\<lambda>hidden.
       Inr (assoc_set m \<lparr>pl_location = edge_location locs st resolved m edge, pl_hidden = hidden\<rparr> resolved))"
  by (simp add: place_folder_def edge_location_def edge_hidden_def)

definition solved_at ::
  "folder_map \<Rightarrow> (string \<Rightarrow> resource_location option) \<Rightarrow> edge_state \<Rightarrow> placements \<Rightarrow> string \<Rightarrow> placement
     \<Rightarrow> bool" where
  "solved_at recordsById locs st resolved k p \<longleftrightarrow>
     (\<exists>edge. edge_of st k = Some edge \<and>
        pl_location p = edge_location locs st resolved k edge \<and>
        edge_hidden recordsById resolved k edge = Inr (pl_hidden p) \<and>
        (\<forall>f. folder_id_of (dest_parent edge) = Some f \<longrightarrow> f = [] \<or> is_resolved resolved f))"

definition solved ::
  "string set \<Rightarrow> folder_map \<Rightarrow> (string \<Rightarrow> resource_location option) \<Rightarrow> edge_state \<Rightarrow> placements \<Rightarrow> bool" where
  "solved K recordsById locs st resolved \<longleftrightarrow>
     (\<forall>k p. map_of resolved k = Some p \<longrightarrow>
        k \<in> K \<and> k \<noteq> [] \<and> solved_at recordsById locs st resolved k p \<and>
        ([] \<notin> K \<longrightarrow> pl_location p \<noteq> None))"

lemma folder_id_of_iff [simp]: "folder_id_of p = Some f \<longleftrightarrow> p = FolderParent f"
  by (cases p) auto

lemma solved_empty_unresolved: "solved K recs locs st R \<Longrightarrow> map_of R [] = None"
  by (cases "map_of R []") (auto simp: solved_def)

text \<open>Placing one more folder leaves the places of the others right.\<close>

lemma solved_at_extend:
  assumes "solved_at recs locs st R k p" and "map_of R m = None" and "m \<noteq> []" and "map_of R [] = None"
  shows "solved_at recs locs st (assoc_set m q R) k p"
proof -
  let ?R = "assoc_set m q R"
  obtain edge where e: "edge_of st k = Some edge" "pl_location p = edge_location locs st R k edge"
      "edge_hidden recs R k edge = Inr (pl_hidden p)"
    and par: "\<And>f. dest_parent edge = FolderParent f \<Longrightarrow> f = [] \<or> is_resolved R f"
    using assms(1) by (auto simp: solved_at_def)
  have same: "map_of ?R f = map_of R f" if "dest_parent edge = FolderParent f" for f
    using par [OF that] assms(2,3) by (auto simp: is_resolved_def)
  have "destination_location edge (resolved_location ?R) = destination_location edge (resolved_location R)"
    by (rule destination_location_cong) (simp only: resolved_location_def same)
  then have "edge_location locs st ?R k edge = edge_location locs st R k edge"
    by (simp only: edge_location_def)
  moreover have "resolved_hidden ?R (dest_parent edge) = resolved_hidden R (dest_parent edge)"
    using same by (cases "dest_parent edge") (simp_all add: resolved_hidden_def del: map_of_assoc_set)
  ultimately show ?thesis
    using e par by (auto simp: solved_at_def edge_hidden_def is_resolved_def)
qed

lemma solved_place:
  assumes "solved K recs locs st R" and within: "edges_within K locs st" and m: "m \<in> K" "m \<noteq> []"
    and new: "map_of R m = None" and edge: "edge_of st m = Some edge"
    and par: "\<And>f. dest_parent edge = FolderParent f \<Longrightarrow> f = [] \<or> is_resolved R f"
    and hidden: "edge_hidden recs R m edge = Inr h"
  shows "solved K recs locs st
     (assoc_set m \<lparr>pl_location = edge_location locs st R m edge, pl_hidden = h\<rparr> R)"
proof -
  let ?p = "\<lparr>pl_location = edge_location locs st R m edge, pl_hidden = h\<rparr>"
  have empty: "map_of R [] = None" by (rule solved_empty_unresolved [OF assms(1)])
  have old: "k \<in> K \<and> k \<noteq> [] \<and> solved_at recs locs st (assoc_set m ?p R) k p \<and>
      ([] \<notin> K \<longrightarrow> pl_location p \<noteq> None)" if "map_of R k = Some p" for k p
    using assms(1) that solved_at_extend [OF _ new m(2) empty] by (auto simp: solved_def)
  have "solved_at recs locs st R m ?p"
    using edge par hidden by (auto simp: solved_at_def)
  then have at: "solved_at recs locs st (assoc_set m ?p R) m ?p"
    by (rule solved_at_extend [OF _ new m(2) empty])
  have "edge_location locs st R m edge \<noteq> None" if "[] \<notin> K"
  proof -
    have "resolved_location R f \<noteq> None" if fp: "dest_parent edge = FolderParent f" for f
    proof -
      have "parent_folder st m = Some f" using edge fp by (simp add: parent_folder_def)
      then have "f \<noteq> []" using edges_within_parent [OF within] \<open>[] \<notin> K\<close> by auto
      then obtain q where "map_of R f = Some q" using par [OF fp] by (auto simp: is_resolved_def)
      then show ?thesis using assms(1) \<open>[] \<notin> K\<close> by (auto simp: solved_def resolved_location_def)
    qed
    then have "destination_location edge (resolved_location R) \<noteq> None"
      by (rule destination_location_Some)
    moreover have "locs m \<noteq> None" using edges_within_locs [OF within] m(1) by (auto simp: dom_def)
    ultimately show ?thesis by (simp add: edge_location_def)
  qed
  then show ?thesis using old at m by (auto simp: solved_def split: if_splits)
qed

section \<open>The ancestors of a folder\<close>

lemma grounded_links_distinct:
  assumes "links st xs next" and "\<And>x. x \<in> set xs \<Longrightarrow> grounded st x" and "[] \<notin> set xs"
  shows "distinct xs"
  using assms
proof (induction xs)
  case (Cons x xs)
  have "x \<notin> set xs"
  proof
    assume "x \<in> set xs"
    then obtain ys zs where xs: "xs = ys @ x # zs" by (auto simp: in_set_conv_decomp)
    have "links st (x # ys) (Some x)"
      using Cons.prems(1) links_append [of st "x # ys" "x # zs" "next"] unfolding xs by simp
    with cycle_not_grounded [of st x "x # ys"] Cons.prems(2,3) xs show False by auto
  qed
  with Cons show ?case by simp
qed simp

definition stops_at :: "placements \<Rightarrow> string option \<Rightarrow> bool" where
  "stops_at R next \<longleftrightarrow> (case next of None \<Rightarrow> True | Some f \<Rightarrow> f = [] \<or> is_resolved R f)"

definition unplaced_chain :: "string set \<Rightarrow> edge_state \<Rightarrow> placements \<Rightarrow> string list \<Rightarrow> bool" where
  "unplaced_chain K st R xs \<longleftrightarrow>
     (\<exists>stop. links st xs stop \<and> stops_at R stop) \<and>
     (\<forall>x \<in> set xs. x \<in> K \<and> x \<noteq> [] \<and> grounded st x \<and> \<not> is_resolved R x)"

lemma ancestors_up_stop: "stops_at R next \<Longrightarrow> ancestors_up st R next chain = Some (Inr chain)"
  by (subst ancestors_up.simps) (auto simp: stops_at_def split: option.splits)

lemma ancestors_up_step:
  "\<not> stops_at R (Some n) \<Longrightarrow> edge_of st n \<noteq> None \<Longrightarrow>
     ancestors_up st R (Some n) chain = ancestors_up st R (parent_folder st n) (chain @ [n])"
  by (subst ancestors_up.simps) (simp add: stops_at_def has_edge_def)

lemma unplaced_push:
  assumes "\<not> stops_at R (Some n)" and "n \<in> K" "grounded st n" and "unplaced_chain K st R xs"
    and "parent_folder st n = (case xs of [] \<Rightarrow> stop | x # _ \<Rightarrow> Some x)"
    and "xs = [] \<Longrightarrow> stops_at R stop"
  shows "unplaced_chain K st R (n # xs)"
proof -
  obtain stop' where s: "links st xs stop'" "stops_at R stop'"
    using assms(4) by (auto simp: unplaced_chain_def)
  have "links st (n # xs) (if xs = [] then stop else stop')"
    using s(1) assms(5) by (auto split: list.splits)
  moreover have "stops_at R (if xs = [] then stop else stop')" using s(2) assms(6) by auto
  ultimately show ?thesis
    using assms(1-4) unfolding unplaced_chain_def by (auto simp: stops_at_def)
qed

lemma ancestors_found:
  assumes "grounded st n" and within: "edges_within K locs st" and "n \<in> K"
  shows "\<exists>xs. (\<forall>chain. ancestors_up st R (Some n) chain = Some (Inr (chain @ xs))) \<and>
    unplaced_chain K st R xs \<and> (stops_at R (Some n) \<longrightarrow> xs = []) \<and>
    (\<not> stops_at R (Some n) \<longrightarrow> (\<exists>ys. xs = n # ys))"
  using assms(1,3)
proof (induction rule: grounded.induct)
  have none: "unplaced_chain K st R []" by (auto simp: unplaced_chain_def stops_at_def intro: exI [of _ None])
  have edge: "edge_of st k \<noteq> None" if "k \<in> K" for k using edges_within_edge [OF within that] by simp
  {
    case (root k)
    show ?case
    proof (cases "stops_at R (Some k)")
      case True
      then show ?thesis using none ancestors_up_stop by (intro exI [of _ "[]"]) simp
    next
      case False
      have "unplaced_chain K st R [k]"
        by (rule unplaced_push [OF False root.prems _ none]) (auto simp: root stops_at_def intro: grounded.root)
      then show ?thesis
        using ancestors_up_step [OF False edge [OF root.prems]] ancestors_up_stop [of R None] False
        by (intro exI [of _ "[k]"]) (simp add: root stops_at_def)
    qed
  next
    case (empty k)
    show ?case
    proof (cases "stops_at R (Some k)")
      case True
      then show ?thesis using none ancestors_up_stop by (intro exI [of _ "[]"]) simp
    next
      case False
      have "unplaced_chain K st R [k]"
        by (rule unplaced_push [OF False empty.prems _ none])
          (auto simp: empty stops_at_def intro: grounded.empty)
      then show ?thesis
        using ancestors_up_step [OF False edge [OF empty.prems]] ancestors_up_stop [of R "Some []"] False
        by (intro exI [of _ "[k]"]) (simp add: empty stops_at_def)
    qed
  next
    case (step k f)
    show ?case
    proof (cases "stops_at R (Some k)")
      case True
      then show ?thesis using none ancestors_up_stop by (intro exI [of _ "[]"]) simp
    next
      case False
      have "f \<in> K" by (rule edges_within_parent [OF within step(1)])
      from step.IH [OF this] obtain xs where
        up: "\<And>chain. ancestors_up st R (Some f) chain = Some (Inr (chain @ xs))"
        and c: "unplaced_chain K st R xs" and stop: "stops_at R (Some f) \<Longrightarrow> xs = []"
        and go: "\<not> stops_at R (Some f) \<Longrightarrow> \<exists>ys. xs = f # ys" by blast
      have "unplaced_chain K st R (k # xs)"
        using stop go
        by (intro unplaced_push [OF False step.prems _ c, of "Some f"])
          (auto simp: step split: list.splits intro: grounded.step)
      then show ?thesis
        using ancestors_up_step [OF False edge [OF step.prems]] up False
        by (intro exI [of _ "k # xs"]) (simp add: step)
    qed
  }
qed

section \<open>Placing every folder\<close>

definition deletion_checks_pass :: "folder_map \<Rightarrow> bool" where
  "deletion_checks_pass recordsById \<longleftrightarrow>
     (\<forall>k r. map_of recordsById k = Some r \<longrightarrow> (\<exists>b. folder_owns_deletion r = Inr b))"

lemma place_folders_append:
  "place_folders recs locs st (xs @ ys) R =
     and_then (place_folders recs locs st xs R) (place_folders recs locs st ys)"
proof (induction xs arbitrary: R)
  case (Cons x xs)
  then show ?case by (cases "place_folder recs locs st x R") simp_all
qed simp

lemma links_parent_resolved:
  assumes "links st (x # xs) stop" and "stops_at R stop" and "edge_of st x = Some edge"
    and "\<And>y. y \<in> set xs \<Longrightarrow> is_resolved R' y" and "\<And>y. is_resolved R y \<Longrightarrow> is_resolved R' y"
    and "dest_parent edge = FolderParent f"
  shows "f = [] \<or> is_resolved R' f"
  using assms by (cases xs) (auto simp: parent_folder_def stops_at_def split: option.splits)

lemma chain_placed:
  assumes "solved K recs locs st R" and within: "edges_within K locs st"
    and "links st xs stop" and "stops_at R stop"
    and "\<And>x. x \<in> set xs \<Longrightarrow> x \<in> K \<and> x \<noteq> [] \<and> \<not> is_resolved R x" and "distinct xs"
  shows "(\<exists>e. place_folders recs locs st (rev xs) R = Inl e) \<and> \<not> deletion_checks_pass recs \<or>
    (\<exists>R'. place_folders recs locs st (rev xs) R = Inr R' \<and> solved K recs locs st R' \<and>
       dom (map_of R') = dom (map_of R) \<union> set xs)"
  using assms(3-6)
proof (induction xs)
  case Nil
  then show ?case using assms(1) by simp
next
  case (Cons x xs)
  have links: "links st xs stop" using Cons.prems(1) by simp
  consider (bad) e where "place_folders recs locs st (rev xs) R = Inl e" "\<not> deletion_checks_pass recs"
    | (good) R' where "place_folders recs locs st (rev xs) R = Inr R'" "solved K recs locs st R'"
        "dom (map_of R') = dom (map_of R) \<union> set xs"
    using Cons.IH [OF links Cons.prems(2)] Cons.prems(3,4) by auto
  then show ?case
  proof cases
    case bad
    then show ?thesis by (simp add: place_folders_append)
  next
    case good
    have x: "x \<in> K" "x \<noteq> []" "map_of R x = None" using Cons.prems(3) [of x] by (simp_all add: is_resolved_def)
    obtain edge where edge: "edge_of st x = Some edge" using edges_within_edge [OF within x(1)] by blast
    have dom: "is_resolved R' y \<longleftrightarrow> is_resolved R y \<or> y \<in> set xs" for y
      using good(3) by (simp add: is_resolved_def set_eq_iff dom_def)
    have new: "map_of R' x = None"
      using dom [of x] x(3) Cons.prems(4) by (simp add: is_resolved_def)
    have par: "f = [] \<or> is_resolved R' f" if "dest_parent edge = FolderParent f" for f
      by (rule links_parent_resolved [OF Cons.prems(1,2) edge _ _ that]) (simp_all add: dom)
    have run: "place_folders recs locs st (rev (x # xs)) R = place_folder recs locs st x R'"
      by (cases "place_folder recs locs st x R'") (simp_all add: place_folders_append good(1))
    show ?thesis
    proof (cases "edge_hidden recs R' x edge")
      case (Inl e)
      then have "\<not> deletion_checks_pass recs"
        by (force simp: edge_hidden_def deletion_checks_pass_def split: if_splits option.splits)
      then show ?thesis unfolding run using place_folder_edges [OF edge, of recs locs R'] Inl by simp
    next
      case (Inr h)
      note s = solved_place [OF good(2) within x(1,2) new edge par Inr]
      show ?thesis
        unfolding run using place_folder_edges [OF edge, of recs locs R'] Inr s good(3) by auto
    qed
  qed
qed

lemma all_placed:
  assumes "solved K recs locs st R" and within: "edges_within K locs st" and "set ks \<subseteq> K"
    and "\<And>k. k \<in> set ks \<Longrightarrow> k \<noteq> [] \<Longrightarrow> grounded st k"
  shows "(\<exists>e. resolve_all recs locs st ks R = Some (Inl e)) \<and> \<not> deletion_checks_pass recs \<or>
    (\<exists>R'. resolve_all recs locs st ks R = Some (Inr R') \<and> solved K recs locs st R' \<and>
       dom (map_of R') \<supseteq> dom (map_of R) \<union> (set ks - {[]}))"
  using assms(1,3,4)
proof (induction ks arbitrary: R)
  case (Cons k ks)
  obtain xs where up: "ancestors_up st R (Some k) [] = Some (Inr xs)"
    and c: "unplaced_chain K st R xs" and mem: "k = [] \<or> is_resolved R k \<or> k \<in> set xs"
  proof (cases "k = []")
    case True
    have "ancestors_up st R (Some k) [] = Some (Inr [])"
      by (rule ancestors_up_stop) (simp add: stops_at_def True)
    moreover have "unplaced_chain K st R []" by (auto simp: unplaced_chain_def stops_at_def intro: exI [of _ None])
    ultimately show ?thesis using that True by blast
  next
    case False
    then have "grounded st k" "k \<in> K" using Cons.prems by auto
    from ancestors_found [OF this(1) within this(2), of R] obtain xs
      where "ancestors_up st R (Some k) [] = Some (Inr xs)" "unplaced_chain K st R xs"
        "\<not> stops_at R (Some k) \<longrightarrow> (\<exists>ys. xs = k # ys)" by auto
    then show ?thesis using that by (auto simp: stops_at_def)
  qed
  obtain stop where links: "links st xs stop" "stops_at R stop"
    and all: "\<And>x. x \<in> set xs \<Longrightarrow> x \<in> K \<and> x \<noteq> [] \<and> grounded st x \<and> \<not> is_resolved R x"
    using c by (auto simp: unplaced_chain_def)
  have "distinct xs" by (rule grounded_links_distinct [OF links(1)]) (use all in auto)
  note placed = chain_placed [OF Cons.prems(1) within links _ this]
  consider (bad) e where "place_folders recs locs st (rev xs) R = Inl e" "\<not> deletion_checks_pass recs"
    | (good) R' where "place_folders recs locs st (rev xs) R = Inr R'" "solved K recs locs st R'"
        "dom (map_of R') = dom (map_of R) \<union> set xs"
    using placed all by blast
  then show ?case
  proof cases
    case bad
    then show ?thesis by (simp add: up)
  next
    case good
    have "set (k # ks) - {[]} \<subseteq> set xs \<union> dom (map_of R) \<union> (set ks - {[]})"
      using mem by (auto simp: is_resolved_def)
    then have sub: "dom (map_of R) \<union> (set (k # ks) - {[]}) \<subseteq> dom (map_of R') \<union> (set ks - {[]})"
      unfolding good(3) by blast
    have run: "resolve_all recs locs st (k # ks) R = resolve_all recs locs st ks R'"
      by (simp add: up good(1))
    have "set ks \<subseteq> K" "\<And>j. j \<in> set ks \<Longrightarrow> j \<noteq> [] \<Longrightarrow> grounded st j"
      using Cons.prems(2,3) by simp_all
    from Cons.IH [OF good(2) this] show ?thesis unfolding run using sub by (meson order_trans)
  qed
qed simp

section \<open>The graph of a project\<close>

lemma map_of_map_from: "map_of (map_from key xs) k = find (\<lambda>x. key x = k) (rev xs)"
proof (induction xs rule: rev_induct)
  case (snoc x xs)
  then show ?case by (simp add: map_from_def)
qed (simp add: map_from_def)

lemma dom_map_from: "dom (map_of (map_from key xs)) = key ` set xs"
proof -
  have "k \<in> dom (map_of (map_from key xs)) \<longleftrightarrow> k \<in> key ` set xs" for k
    unfolding domIff map_of_map_from find_None_conv by auto
  then show ?thesis by blast
qed

lemma keys_map_from: "set (map fst (map_from key xs)) = key ` set xs"
  by (metis dom_map_from dom_map_of_conv_image_fst list.set_map)

lemma edge_under_known:
  "folder_id_of (dest_parent (edge_under byId p l)) = Some f \<Longrightarrow> known_folder byId f"
  by (auto simp: edge_under_def absolute_edge_def split: option.splits parent_ref.splits if_splits)

lemma pending_edge_known:
  "pending_edge byId recs installed k = Some e \<Longrightarrow> folder_id_of (dest_parent e) = Some f \<Longrightarrow>
     known_folder byId f"
  by (auto simp: pending_edge_def unusable_parent_def split: option.splits parent_ref.splits if_splits)

lemma initial_edges_within:
  "edges_within (dom (map_of byId)) (node_locations byId recs) (initial_edges byId recs installed)"
  unfolding edges_within_def
proof (intro conjI allI impI)
  fix k e f
  assume "es_canonical (initial_edges byId recs installed) k = Some e" "folder_id_of (dest_parent e) = Some f"
  then show "f \<in> dom (map_of byId)"
    using edge_under_known by (fastforce simp: initial_edges_def canonical_edge_def known_folder_def)
next
  fix k e f
  assume "es_pending (initial_edges byId recs installed) k = Some e" "folder_id_of (dest_parent e) = Some f"
  then show "f \<in> dom (map_of byId)"
    using pending_edge_known [of byId recs installed k e f]
    by (auto simp: initial_edges_def known_folder_def split: if_splits)
next
  show "finite (dom (map_of byId))" by (rule finite_dom_map_of)
qed (auto simp: initial_edges_def node_locations_def known_folder_def dom_def split: if_splits)

lemma graph_runs:
  fixes nodes :: "placement_node list"
  defines "byId \<equiv> map_from node_id nodes"
  shows "\<exists>st. break_cycles (node_locations byId (records_by_id projectId records)) (map fst byId) []
        (initial_edges byId (records_by_id projectId records) installed) = Some st \<and>
      edges_within (dom (map_of byId)) (node_locations byId (records_by_id projectId records)) st \<and>
      keeps_grounded (initial_edges byId (records_by_id projectId records) installed) st \<and>
      only_falls_back (node_locations byId (records_by_id projectId records))
        (initial_edges byId (records_by_id projectId records) installed) st \<and>
      (\<forall>k \<in> dom (map_of byId). k \<noteq> [] \<longrightarrow> grounded st k)"
proof -
  have keys: "set (map fst byId) = dom (map_of byId)" by (simp add: dom_map_of_conv_image_fst)
  have "finished_ok (initial_edges byId (records_by_id projectId records) installed) (set [])"
    by (simp add: finished_ok_def)
  from breaking_ends [OF initial_edges_within this, of "map fst byId"] keys
  show ?thesis by (fastforce simp: finished_ok_def)
qed

lemma nothing_solved: "solved K recs locs st []"
  by (simp add: solved_def)

lemma graph_resolves:
  fixes nodes :: "placement_node list" and records :: "folder_record list" and projectId :: string
  defines "byId \<equiv> map_from node_id nodes" and "recs \<equiv> records_by_id projectId records"
  shows "\<exists>st. break_cycles (node_locations byId recs) (map fst byId) [] (initial_edges byId recs installed) = Some st
    \<and> edges_within (dom (map_of byId)) (node_locations byId recs) st \<and>
    ((\<exists>e. folder_placement_graph projectId nodes records installed = Some (Inl e)) \<and>
       \<not> deletion_checks_pass recs \<or>
     (\<exists>R. folder_placement_graph projectId nodes records installed =
         Some (Inr \<lparr>pg_byId = byId, pg_recordsById = recs, pg_edges = st, pg_resolved = R\<rparr>) \<and>
       solved (dom (map_of byId)) recs (node_locations byId recs) st R \<and>
       dom (map_of byId) - {[]} \<subseteq> dom (map_of R)))"
proof -
  obtain st where st: "break_cycles (node_locations byId recs) (map fst byId) []
        (initial_edges byId recs installed) = Some st"
    and within: "edges_within (dom (map_of byId)) (node_locations byId recs) st"
    and g: "\<And>k. k \<in> dom (map_of byId) \<Longrightarrow> k \<noteq> [] \<Longrightarrow> grounded st k"
    using graph_runs [of nodes projectId records installed] by (auto simp: byId_def recs_def)
  have keys: "set (map fst byId) = dom (map_of byId)" by (simp add: dom_map_of_conv_image_fst)
  from all_placed [OF nothing_solved within, of "map fst byId" recs] keys g
  consider e where "resolve_all recs (node_locations byId recs) st (map fst byId) [] = Some (Inl e)"
      "\<not> deletion_checks_pass recs"
    | R where "resolve_all recs (node_locations byId recs) st (map fst byId) [] = Some (Inr R)"
      "solved (dom (map_of byId)) recs (node_locations byId recs) st R"
      "dom (map_of byId) - {[]} \<subseteq> dom (map_of R)"
    by auto
  then show ?thesis
    using st within by cases (auto simp: folder_placement_graph_def Let_def byId_def recs_def)
qed

section \<open>Properties\<close>

text \<open>C14: Computing where the folders of a project stand always ends, whatever the parents, the
  pending placements and the cycles among them: the walks that break cycles and the walks that
  resolve locations both return.\<close>

theorem placement_graph_ends:
  "\<exists>r. folder_placement_graph projectId nodes records destinationInstalled = Some r"
  using graph_resolves [of nodes projectId records destinationInstalled] by blast

text \<open>The place of a folder agrees with its edge and with the place of its parent.\<close>

definition stands_on_its_edge :: "placement_graph \<Rightarrow> string \<Rightarrow> bool" where
  "stands_on_its_edge g k \<longleftrightarrow>
     (\<exists>edge l. edge_of (pg_edges g) k = Some edge \<and> graph_location g k = Some l \<and>
        (\<forall>f. dest_parent edge = FolderParent f \<longrightarrow>
           known_folder (pg_byId g) f \<and> graph_location g f \<noteq> None) \<and>
        Some l = (if es_pending (pg_edges g) k = None \<and> folder_id_of (dest_parent edge) = None
                  then node_locations (pg_byId g) (pg_recordsById g) k
                  else destination_location edge (graph_location g)) \<and>
        (graph_hidden g k \<longleftrightarrow>
           (\<exists>f. dest_parent edge = FolderParent f \<and> graph_hidden g f) \<or>
           (\<exists>r. map_of (pg_recordsById g) k = Some r \<and> folder_owns_deletion r = Inr True)))"

lemma resolved_hidden_folder:
  "pg_resolved g = R \<Longrightarrow> resolved_hidden R parent \<longleftrightarrow>
     (\<exists>f. parent = FolderParent f \<and> graph_hidden g f)"
  by (cases parent) (auto simp: resolved_hidden_def graph_hidden_def)

lemma graph_location_resolved: "graph_location g = resolved_location (pg_resolved g)"
  by (simp add: graph_location_def fun_eq_iff)

lemma solved_stands:
  assumes "solved (dom (map_of (pg_byId g))) (pg_recordsById g)
      (node_locations (pg_byId g) (pg_recordsById g)) (pg_edges g) (pg_resolved g)"
    and within: "edges_within (dom (map_of (pg_byId g))) locs (pg_edges g)"
    and ne: "[] \<notin> dom (map_of (pg_byId g))" and p: "map_of (pg_resolved g) k = Some p"
  shows "stands_on_its_edge g k"
proof -
  let ?R = "pg_resolved g"
  have at: "solved_at (pg_recordsById g) (node_locations (pg_byId g) (pg_recordsById g)) (pg_edges g) ?R k p"
    and some: "pl_location p \<noteq> None"
    using assms(1) p ne unfolding solved_def by blast+
  from at obtain edge where e: "edge_of (pg_edges g) k = Some edge"
    and l: "pl_location p = edge_location (node_locations (pg_byId g) (pg_recordsById g)) (pg_edges g) ?R k edge"
    and h: "edge_hidden (pg_recordsById g) ?R k edge = Inr (pl_hidden p)"
    and f: "\<And>f. dest_parent edge = FolderParent f \<Longrightarrow> f = [] \<or> is_resolved ?R f"
    unfolding solved_at_def by auto
  have loc: "graph_location g k = pl_location p"
    using p by (simp add: graph_location_def resolved_location_def)
  have par: "known_folder (pg_byId g) f \<and> graph_location g f \<noteq> None" if fp: "dest_parent edge = FolderParent f" for f
  proof -
    have "parent_folder (pg_edges g) k = Some f" using e fp by (simp add: parent_folder_def)
    then have fK: "f \<in> dom (map_of (pg_byId g))" by (rule edges_within_parent [OF within])
    then have "f \<noteq> []" using ne by auto
    then obtain q where q: "map_of ?R f = Some q" using f [OF fp] by (auto simp: is_resolved_def)
    then have "pl_location q \<noteq> None" using assms(1) ne unfolding solved_def by blast
    then show ?thesis using fK q by (auto simp: known_folder_def graph_location_def resolved_location_def)
  qed
  have "graph_hidden g k \<longleftrightarrow> resolved_hidden ?R (dest_parent edge) \<or>
      (\<exists>r. map_of (pg_recordsById g) k = Some r \<and> folder_owns_deletion r = Inr True)"
    using h p by (auto simp: edge_hidden_def graph_hidden_def split: if_splits option.splits)
  then have hidden: "graph_hidden g k \<longleftrightarrow> (\<exists>f. dest_parent edge = FolderParent f \<and> graph_hidden g f) \<or>
      (\<exists>r. map_of (pg_recordsById g) k = Some r \<and> folder_owns_deletion r = Inr True)"
    unfolding resolved_hidden_folder [OF refl] .
  obtain l' where l': "pl_location p = Some l'" using some by blast
  have "Some l' = (if es_pending (pg_edges g) k = None \<and> folder_id_of (dest_parent edge) = None
                  then node_locations (pg_byId g) (pg_recordsById g) k
                  else destination_location edge (graph_location g))"
    using l unfolding l' edge_location_def graph_location_resolved .
  then show ?thesis
    unfolding stands_on_its_edge_def using e loc [unfolded l'] par hidden by blast
qed

text \<open>C15: When the deletion checks of the folders' records pass, every folder of a project gets a
  location, and the answers are the solution of the edges: a folder under another stands at its
  edge's name below that folder's location, a folder at a root stands where its destination or the
  server put it, and a folder is hidden exactly when its own deletion or a hidden parent hides it.\<close>

theorem folders_stand_on_their_edges:
  assumes "\<And>n. n \<in> set nodes \<Longrightarrow> node_id n \<noteq> []"
    and "\<And>r. r \<in> set records \<Longrightarrow> \<exists>b. folder_owns_deletion r = Inr b"
  shows "\<exists>g. folder_placement_graph projectId nodes records destinationInstalled = Some (Inr g) \<and>
           (\<forall>n \<in> set nodes. stands_on_its_edge g (node_id n))"
proof -
  let ?byId = "map_from node_id nodes" and ?recs = "records_by_id projectId records"
  have "\<exists>b. folder_owns_deletion r = Inr b" if "map_of ?recs k = Some r" for k r
    using that assms(2) by (auto simp: records_by_id_def map_of_map_from dest!: find_Some_mem)
  then have "deletion_checks_pass ?recs" by (auto simp: deletion_checks_pass_def)
  with graph_resolves [of nodes projectId records destinationInstalled] obtain st R where
    w: "edges_within (dom (map_of ?byId)) (node_locations ?byId ?recs) st"
    and g: "folder_placement_graph projectId nodes records destinationInstalled =
        Some (Inr \<lparr>pg_byId = ?byId, pg_recordsById = ?recs, pg_edges = st, pg_resolved = R\<rparr>)"
    and s: "solved (dom (map_of ?byId)) ?recs (node_locations ?byId ?recs) st R"
    and d: "dom (map_of ?byId) - {[]} \<subseteq> dom (map_of R)" by blast
  let ?g = "\<lparr>pg_byId = ?byId, pg_recordsById = ?recs, pg_edges = st, pg_resolved = R\<rparr>"
  have ne: "[] \<notin> dom (map_of ?byId)" using assms(1) unfolding dom_map_from by force
  have "stands_on_its_edge ?g (node_id n)" if "n \<in> set nodes" for n
  proof -
    have "node_id n \<in> dom (map_of R)" using d that assms(1) by (auto simp: dom_map_from)
    then obtain p where "map_of R (node_id n) = Some p" by auto
    then show ?thesis using solved_stands [of ?g "node_locations ?byId ?recs" "node_id n" p] s w ne by simp
  qed
  then show ?thesis using g by blast
qed

lemma edges_after_breaking:
  assumes "folder_placement_graph projectId nodes records destinationInstalled = Some (Inr g)"
  shows "grounded (initial_edges (pg_byId g) (pg_recordsById g) destinationInstalled) k \<Longrightarrow>
           edge_of (pg_edges g) k =
             edge_of (initial_edges (pg_byId g) (pg_recordsById g) destinationInstalled) k"
    and "edge_of (pg_edges g) k \<in>
           {edge_of (initial_edges (pg_byId g) (pg_recordsById g) destinationInstalled) k,
            map_option (canonical_edge (pg_byId g) (pg_recordsById g)) (map_of (pg_byId g) k),
            map_option absolute_edge (node_locations (pg_byId g) (pg_recordsById g) k)}"
    and "known_folder (pg_byId g) k \<Longrightarrow> k \<noteq> [] \<Longrightarrow> grounded (pg_edges g) k"
proof -
  let ?byId = "map_from node_id nodes" and ?recs = "records_by_id projectId records"
  obtain st where b: "break_cycles (node_locations ?byId ?recs) (map fst ?byId) []
        (initial_edges ?byId ?recs destinationInstalled) = Some st"
    and kg: "keeps_grounded (initial_edges ?byId ?recs destinationInstalled) st"
    and fb: "only_falls_back (node_locations ?byId ?recs) (initial_edges ?byId ?recs destinationInstalled) st"
    and gr: "\<And>k. k \<in> dom (map_of ?byId) \<Longrightarrow> k \<noteq> [] \<Longrightarrow> grounded st k"
    using graph_runs [of nodes projectId records destinationInstalled] by blast
  have g: "pg_byId g = ?byId" "pg_recordsById g = ?recs" "pg_edges g = st"
    using assms by (auto simp: folder_placement_graph_def Let_def b)
  show "edge_of (pg_edges g) k =
      edge_of (initial_edges (pg_byId g) (pg_recordsById g) destinationInstalled) k"
    if "grounded (initial_edges (pg_byId g) (pg_recordsById g) destinationInstalled) k"
    using kg that unfolding g by (simp add: keeps_grounded_def same_edges_def)
  show "grounded (pg_edges g) k" if "known_folder (pg_byId g) k" "k \<noteq> []"
    using gr that unfolding g by (auto simp: known_folder_def)
  show "edge_of (pg_edges g) k \<in>
           {edge_of (initial_edges (pg_byId g) (pg_recordsById g) destinationInstalled) k,
            map_option (canonical_edge (pg_byId g) (pg_recordsById g)) (map_of (pg_byId g) k),
            map_option absolute_edge (node_locations (pg_byId g) (pg_recordsById g) k)}"
    using fallback_edges [OF fb, of k] unfolding g by (simp add: initial_edges_def)
qed

text \<open>C16: Breaking cycles costs no folder more than it must: a folder whose edges lead to a root keeps
  its pending placement, every other folder falls back at most to its canonical edge or to the
  place the server gave, and no cycle is left among the folders of the project.\<close>

theorem placements_off_cycles_survive:
  assumes "folder_placement_graph projectId nodes records destinationInstalled = Some (Inr g)"
  shows "(grounded (initial_edges (pg_byId g) (pg_recordsById g) destinationInstalled) k \<longrightarrow>
           edge_of (pg_edges g) k =
             edge_of (initial_edges (pg_byId g) (pg_recordsById g) destinationInstalled) k) \<and>
         edge_of (pg_edges g) k \<in>
           {edge_of (initial_edges (pg_byId g) (pg_recordsById g) destinationInstalled) k,
            map_option (canonical_edge (pg_byId g) (pg_recordsById g)) (map_of (pg_byId g) k),
            map_option absolute_edge (node_locations (pg_byId g) (pg_recordsById g) k)} \<and>
         (known_folder (pg_byId g) k \<and> k \<noteq> [] \<longrightarrow> grounded (pg_edges g) k)"
  using edges_after_breaking [OF assms] by blast

section \<open>Examples\<close>

text \<open>Two folders moved into each other, and a third moved into the first.\<close>

definition ex_node :: "string \<Rightarrow> placement_node" where
  "ex_node k = \<lparr>node_id = k, node_canonical = \<lparr>loc_scheme = Unfiled, loc_path = slash # k,
     loc_name = k, loc_owner = NoOwner\<rparr>, node_parent = None, node_ancestryOnly = False\<rparr>"

definition ex_moved :: "string \<Rightarrow> string \<Rightarrow> folder_record" where
  "ex_moved k parent = ex_folder\<lparr>fol_folderId := k, fol_handle := k, fol_intents :=
     [ex_intent 1 Pending (SetFolderLocation k \<lparr>dest_parent = FolderParent parent,
        dest_createFolders = None, dest_name = k, dest_position = None\<rparr>) []]\<rparr>"

definition ex_nodes :: "placement_node list" where
  "ex_nodes = [ex_node ''f1'', ex_node ''f2'', ex_node ''f3'', ex_node ''f4'']"

definition ex_moves :: "folder_record list" where
  "ex_moves = [ex_moved ''f1'' ''f2'', ex_moved ''f2'' ''f1'', ex_moved ''f3'' ''f4'']"

theorem folders_stand_on_their_edges_witness:
  "\<exists>g. folder_placement_graph ''p'' ex_nodes ex_moves (\<lambda>_. True) = Some (Inr g) \<and>
     stands_on_its_edge g ''f1'' \<and> stands_on_its_edge g ''f3''"
proof -
  have "node_id n \<noteq> []" if "n \<in> set ex_nodes" for n
    using that by (auto simp: ex_nodes_def ex_node_def)
  moreover have "\<exists>b. folder_owns_deletion r = Inr b" if "r \<in> set ex_moves" for r
  proof -
    have "list_all (\<lambda>r. folder_owns_deletion r = Inr False) ex_moves" by code_simp
    then show ?thesis using that by (auto simp: list_all_set)
  qed
  ultimately obtain g where "folder_placement_graph ''p'' ex_nodes ex_moves (\<lambda>_. True) = Some (Inr g)"
    and "\<forall>n \<in> set ex_nodes. stands_on_its_edge g (node_id n)"
    using folders_stand_on_their_edges [of ex_nodes ex_moves "''p''" "\<lambda>_. True"] by blast
  then show ?thesis by (auto simp: ex_nodes_def ex_node_def)
qed

theorem placements_off_cycles_survive_witness:
  "\<exists>g. folder_placement_graph ''p'' ex_nodes ex_moves (\<lambda>_. True) = Some (Inr g) \<and>
     parent_for_folder g ''f3'' = Some (FolderParent ''f4'') \<and>
     parent_for_folder g ''f1'' = Some (RootParent Unfiled NoOwner) \<and> grounded (pg_edges g) ''f1''"
proof -
  have run: "map_option (map_sum id (\<lambda>g. (map fst (pg_byId g), parent_for_folder g ''f1'',
        map_option dest_parent (edge_of (initial_edges (pg_byId g) (pg_recordsById g) (\<lambda>_. True)) ''f3''),
        parent_folder (initial_edges (pg_byId g) (pg_recordsById g) (\<lambda>_. True)) ''f3'',
        parent_folder (initial_edges (pg_byId g) (pg_recordsById g) (\<lambda>_. True)) ''f4'')))
      (folder_placement_graph ''p'' ex_nodes ex_moves (\<lambda>_. True)) =
    Some (Inr ([''f1'', ''f2'', ''f3'', ''f4''], Some (RootParent Unfiled NoOwner),
      Some (FolderParent ''f4''), Some ''f4'', None))"
    by code_simp
  then obtain g where g: "folder_placement_graph ''p'' ex_nodes ex_moves (\<lambda>_. True) = Some (Inr g)"
    by (cases "folder_placement_graph ''p'' ex_nodes ex_moves (\<lambda>_. True)")
      (auto simp: map_sum_def split: sum.splits)
  let ?st = "initial_edges (pg_byId g) (pg_recordsById g) (\<lambda>_. True)"
  have keys: "map fst (pg_byId g) = [''f1'', ''f2'', ''f3'', ''f4'']"
    and p1: "parent_for_folder g ''f1'' = Some (RootParent Unfiled NoOwner)"
    and p3: "map_option dest_parent (edge_of ?st ''f3'') = Some (FolderParent ''f4'')"
    and e3: "parent_folder ?st ''f3'' = Some ''f4''" and e4: "parent_folder ?st ''f4'' = None"
    using run by (simp_all add: g)
  have "grounded ?st ''f3''" by (rule grounded.step [OF e3 grounded.root [OF e4]])
  then have "parent_for_folder g ''f3'' = Some (FolderParent ''f4'')"
    using placements_off_cycles_survive [OF g, of "''f3''"] p3 by (simp add: parent_for_folder_def)
  moreover have "''f1'' \<in> set (map fst (pg_byId g))" unfolding keys by simp
  then have "known_folder (pg_byId g) ''f1''"
    by (simp add: known_folder_def map_of_eq_None_iff)
  then have "grounded (pg_edges g) ''f1''"
    using placements_off_cycles_survive [OF g, of "''f1''"] by simp
  ultimately show ?thesis using g p1 by blast
qed

end
