(* ===== verification/Context_Address.thy ===== *)
theory Context_Address
  imports Resource_Authority
begin

text \<open>
  The spelling of context addresses (\<^verbatim>\<open>handles.ts\<close>, \<^verbatim>\<open>context-entry-validation.ts\<close>,
  \<^verbatim>\<open>context-uri.ts\<close> of the contracts package and \<^verbatim>\<open>resourceContextUri\<close>): handles, entry names,
  the parser of URIs with an owner's authority, and the one serializer.

  A refusal of the parser is a constructor for each message of the source, with the scheme, token or
  suggested address the message quotes; the wording around them is not modelled.
\<close>

section \<open>Handles\<close>

datatype handle_kind = ChatHandle | SubagentHandle | WorkHandle

fun handle_letter :: "handle_kind \<Rightarrow> char" where
  "handle_letter ChatHandle = CHR ''c''"
| "handle_letter SubagentHandle = CHR ''p''"
| "handle_letter WorkHandle = CHR ''w''"

definition is_lower :: "char \<Rightarrow> bool" where
  "is_lower c \<longleftrightarrow> (let n = (of_char c :: nat) in 97 \<le> n \<and> n \<le> 122)"

definition is_upper :: "char \<Rightarrow> bool" where
  "is_upper c \<longleftrightarrow> (let n = (of_char c :: nat) in 65 \<le> n \<and> n \<le> 90)"

text \<open>\<^verbatim>\<open>[1-9][0-9]*\<close>, \<^verbatim>\<open>HANDLE_PATTERN\<close>, \<^verbatim>\<open>ANY_CASE_HANDLE_PATTERN\<close> and \<^verbatim>\<open>LEADING_ZERO_PATTERN\<close>.\<close>

fun handle_number :: "string \<Rightarrow> bool" where
  "handle_number [] = False"
| "handle_number (d # ds) \<longleftrightarrow> d \<noteq> CHR ''0'' \<and> list_all is_digit (d # ds)"

fun handle_pattern :: "string \<Rightarrow> bool" where
  "handle_pattern [] = False"
| "handle_pattern (c # ds) \<longleftrightarrow> is_lower c \<and> handle_number ds"

fun any_case_handle_pattern :: "string \<Rightarrow> bool" where
  "any_case_handle_pattern [] = False"
| "any_case_handle_pattern (c # ds) \<longleftrightarrow> (is_lower c \<or> is_upper c) \<and> handle_number ds"

fun leading_zero_pattern :: "string \<Rightarrow> bool" where
  "leading_zero_pattern (c # d # ds) \<longleftrightarrow>
     (is_lower c \<or> is_upper c) \<and> d = CHR ''0'' \<and> list_all is_digit ds"
| "leading_zero_pattern _ = False"

text \<open>The number of a handle, exact where the source's \<^verbatim>\<open>Number\<close> is (below 2 to the 53).\<close>

record parsed_handle =
  ph_kind :: handle_kind
  ph_n :: int
  ph_handle :: string

definition format_handle :: "handle_kind \<Rightarrow> nat \<Rightarrow> string" where
  "format_handle kind n = handle_letter kind # show_nat n"

definition format_thread_ref :: "bool \<Rightarrow> nat \<Rightarrow> string" where
  "format_thread_ref subagent n = format_handle (if subagent then SubagentHandle else ChatHandle) n"

definition parse_handle :: "string \<Rightarrow> parsed_handle option" where
  "parse_handle raw =
     (if handle_pattern raw
      then map_option (\<lambda>k. \<lparr>ph_kind = k, ph_n = (case radix_digits 10 0 (tl raw) of Some k \<Rightarrow> k | None \<Rightarrow> 0), ph_handle = raw\<rparr>)
        (find (\<lambda>k. handle_letter k = hd raw) [ChatHandle, SubagentHandle, WorkHandle])
      else None)"

definition decode_work_handle :: "string \<Rightarrow> string option" where
  "decode_work_handle value =
     (case parse_handle value of
        Some p \<Rightarrow> if ph_kind p = WorkHandle then Some value else None
      | None \<Rightarrow> None)"

definition parse_thread_ref :: "string \<Rightarrow> (bool \<times> int) option" where
  "parse_thread_ref ref =
     (case parse_handle ref of
        Some p \<Rightarrow> if ph_kind p = WorkHandle then None else Some (ph_kind p = SubagentHandle, ph_n p)
      | None \<Rightarrow> None)"

datatype handle_token =
    HandleToken parsed_handle
  | UnknownLetter string
  | UppercaseToken string string
  | LeadingZero string
  | NameToken string

definition classify_handle_token :: "string \<Rightarrow> handle_token" where
  "classify_handle_token token =
     (case parse_handle token of
        Some h \<Rightarrow> HandleToken h
      | None \<Rightarrow>
          if handle_pattern token then UnknownLetter token
          else if any_case_handle_pattern token then UppercaseToken token (to_lower token)
          else if leading_zero_pattern token then LeadingZero token
          else NameToken token)"

section \<open>Entry names\<close>

datatype entry_refusal =
    NameEmpty
  | ReservedQualifier string
  | NameReserved string
  | InvalidCharacter string char
  | EmptySegment
  | UnknownRoot "string option"
  | TrailingSeparator

definition invalid_name_character :: "char \<Rightarrow> bool" where
  "invalid_name_character c \<longleftrightarrow> (of_char c :: nat) < 32 \<or>
     c \<in> {slash, CHR 0x5C, CHR '':'', CHR ''*'', CHR ''?'', CHR 0x22, CHR ''<'', CHR ''>'', CHR ''|''}"

definition validate_context_entry_name :: "string \<Rightarrow> entry_refusal + string" where
  "validate_context_entry_name raw =
     (let value = trim raw in
      if value = [] then Inl NameEmpty
      else if starts_with ''@'' value \<or> starts_with ''~'' value then Inl (ReservedQualifier value)
      else if value = ''.'' \<or> value = ''..'' then Inl (NameReserved value)
      else case find invalid_name_character value of
             Some c \<Rightarrow> Inl (InvalidCharacter value c)
           | None \<Rightarrow> Inr value)"

fun validate_names :: "string list \<Rightarrow> entry_refusal + string list" where
  "validate_names [] = Inr []"
| "validate_names (s # ss) =
     (case validate_context_entry_name s of
        Inl e \<Rightarrow> Inl e
      | Inr v \<Rightarrow> (case validate_names ss of Inl e \<Rightarrow> Inl e | Inr vs \<Rightarrow> Inr (v # vs)))"

definition validate_context_entry_path ::
  "bool \<Rightarrow> string list option \<Rightarrow> string \<Rightarrow> entry_refusal + string" where
  "validate_context_entry_path allowRoot knownRoots raw =
     (if raw = [] \<and> allowRoot then Inr []
      else if raw \<noteq> [] \<and> last raw = slash then Inl TrailingSeparator
      else if list_ex (\<lambda>s. trim s = []) (path_split raw) then Inl EmptySegment
      else case validate_names (path_split raw) of
             Inl e \<Rightarrow> Inl e
           | Inr normalized \<Rightarrow>
               (case knownRoots of
                  Some roots \<Rightarrow> if hd (normalized @ [[]]) \<notin> set roots
                                then Inl (UnknownRoot (at_index normalized 0))
                                else Inr (path_join normalized)
                | None \<Rightarrow> Inr (path_join normalized)))"

section \<open>The serializer\<close>

definition chat_handle :: "string \<Rightarrow> string result" where
  "chat_handle ref =
     (case parse_handle ref of
        Some p \<Rightarrow> if ph_kind p = ChatHandle then Inr ref else Inl (RangeError ''Invalid chat handle'')
      | None \<Rightarrow> Inl (RangeError ''Invalid chat handle''))"

fun owner_qualifier :: "parsed_authority \<Rightarrow> string option result" where
  "owner_qualifier ContextualAuthority = Inr None"
| "owner_qualifier OwnersAuthority = Inr (Some ''@'')"
| "owner_qualifier (LineageAuthority ref) = and_then (chat_handle ref) (\<lambda>h. Inr (Some (CHR ''@'' # h)))"
| "owner_qualifier (ChatAuthority ref) = and_then (chat_handle ref) (\<lambda>h. Inr (Some (CHR ''@'' # h)))"
| "owner_qualifier (WorkAuthority handle) =
     (case decode_work_handle handle of
        None \<Rightarrow> Inl (RangeError ''Invalid Work handle'')
      | Some h \<Rightarrow> Inr (Some (CHR ''@'' # h)))"

definition scheme_head :: "context_scheme \<Rightarrow> string" where
  "scheme_head scheme = scheme_text scheme @ ''://''"

definition format_parsed_context_uri ::
  "context_scheme \<Rightarrow> string \<Rightarrow> parsed_authority \<Rightarrow> string result" where
  "format_parsed_context_uri scheme path authority =
     and_then (owner_qualifier authority) (\<lambda>qualifier. Inr (case qualifier of
         None \<Rightarrow> scheme_head scheme @ path
       | Some q \<Rightarrow>
           if authority = OwnersAuthority then scheme_head scheme @ q
           else scheme_head scheme @ q @ slash # path))"

definition owner_segment :: "parsed_authority \<Rightarrow> string option result" where
  "owner_segment authority =
     and_then (owner_qualifier authority) (\<lambda>q. Inr (map_option (\<lambda>q. q @ [slash]) q))"

text \<open>The segments of a path that name something: not empty and not \<^verbatim>\<open>.\<close>.\<close>

definition uri_segments :: "string \<Rightarrow> string list" where
  "uri_segments path = filter (\<lambda>w. w \<noteq> [] \<and> w \<noteq> ''.'') (path_split path)"

datatype canonical_authority =
    ContextualCanon | OwnersCanon | LineageCanon string | ChatCanon string
  | WorkCanon string "string option"

fun to_parsed_authority :: "canonical_authority \<Rightarrow> parsed_authority result" where
  "to_parsed_authority ContextualCanon = Inr ContextualAuthority"
| "to_parsed_authority OwnersCanon = Inr OwnersAuthority"
| "to_parsed_authority (LineageCanon ref) = Inr (LineageAuthority ref)"
| "to_parsed_authority (ChatCanon ref) = Inr (ChatAuthority ref)"
| "to_parsed_authority (WorkCanon _ handle) =
     (case Option.bind handle decode_work_handle of
        None \<Rightarrow> Inl (RangeError ''Invalid Work handle'')
      | Some h \<Rightarrow> Inr (WorkAuthority h))"

definition range_error_when :: "bool \<Rightarrow> string \<Rightarrow> 'a result \<Rightarrow> 'a result" where
  "range_error_when bad msg k = (if bad then Inl (RangeError msg) else k)"

definition canonical_context_uri ::
  "context_scheme \<Rightarrow> string \<Rightarrow> canonical_authority \<Rightarrow> string result" where
  "canonical_context_uri scheme path authority =
     range_error_when (is_project_scoped_scheme scheme \<and> authority \<noteq> ContextualCanon)
       (''Scheme '' @ [CHR 0x22] @ scheme_text scheme @ [CHR 0x22] @ '' does not support authority qualifiers'')
     (range_error_when (''..'' \<in> set (uri_segments path))
       (''Path traversal ('' @ [CHR 0x22] @ ''..'' @ [CHR 0x22] @ '' ) is not allowed'')
     (range_error_when (list_ex (starts_with ''@'') (uri_segments path))
       (''Path segments beginning with '' @ [CHR 0x22] @ ''@'' @ [CHR 0x22] @ '' are reserved'')
     (range_error_when (scheme \<noteq> Scratch \<and> (case authority of LineageCanon _ \<Rightarrow> True | _ \<Rightarrow> False))
       ''Only Scratch supports a first-chat qualifier''
     (range_error_when (scheme \<noteq> Uploads \<and> (case authority of ChatCanon _ \<Rightarrow> True | _ \<Rightarrow> False))
       ''Only uploads support a chat qualifier''
     (range_error_when (scheme = Uploads \<and> (case authority of WorkCanon _ _ \<Rightarrow> True | _ \<Rightarrow> False))
       ''Uploads belong to a chat, not a Work''
     (range_error_when (case authority of WorkCanon _ h \<Rightarrow> h = None \<or> h = Some [] | _ \<Rightarrow> False)
       ''No Work has no address''
     (and_then (to_parsed_authority authority)
       (format_parsed_context_uri scheme (path_join (uri_segments path))))))))))"

section \<open>The parser\<close>

datatype owner_slip =
    NameSlip context_scheme string
  | SubagentSlip context_scheme string
  | UppercaseSlip context_scheme string
  | NoHandleSlip context_scheme

datatype uri_refusal =
    EmptyUri
  | UnknownScheme string
  | MalformedUri
  | TraversalRefused
  | ReservedSegment
  | BranchName "string option"
  | QualifierChain context_scheme
  | NoQualifiers context_scheme
  | RetiredEmptyOwner context_scheme
  | HandleFollowsSigil string
  | SubagentNotAnOwner owner_slip
  | UploadsBelongToChat
  | UppercaseHandle "string option" owner_slip
  | LeadingZeroHandle string
  | UnknownWork owner_slip
  | NoHandle owner_slip

record parsed_uri =
  pu_scheme :: context_scheme
  pu_authority :: parsed_authority
  pu_path :: string
  pu_normalized :: string

type_synonym uri_answer = "uri_refusal + parsed_uri"

definition owner_authority :: "context_scheme \<Rightarrow> string \<Rightarrow> parsed_authority option" where
  "owner_authority scheme handle =
     (case parse_handle handle of
        None \<Rightarrow> None
      | Some p \<Rightarrow>
          if ph_kind p = ChatHandle
          then Some (if scheme = Uploads then ChatAuthority handle else LineageAuthority handle)
          else case decode_work_handle handle of
                 Some h \<Rightarrow> if scheme = Scratch then Some (WorkAuthority h) else None
               | None \<Rightarrow> None)"

definition parse_bare_sigil ::
  "context_scheme \<Rightarrow> string list \<Rightarrow> (uri_refusal + parsed_authority \<times> string) result" where
  "parse_bare_sigil scheme segments =
     (case segments of
        [] \<Rightarrow> Inr (Inr (OwnersAuthority, []))
      | first # _ \<Rightarrow>
          (case (case classify_handle_token first of
                   HandleToken h \<Rightarrow> owner_authority scheme (ph_handle h) | _ \<Rightarrow> None) of
             Some authority \<Rightarrow> and_then (format_parsed_context_uri scheme [] authority)
               (\<lambda>u. Inr (Inl (HandleFollowsSigil u)))
           | None \<Rightarrow> Inr (Inl (NoHandle (NoHandleSlip scheme)))))"

definition parse_owner_token ::
  "context_scheme \<Rightarrow> string \<Rightarrow> string list \<Rightarrow> (uri_refusal + parsed_authority \<times> string) result" where
  "parse_owner_token scheme token segments =
     (case classify_handle_token token of
        HandleToken h \<Rightarrow>
          (case owner_authority scheme (ph_handle h) of
             Some authority \<Rightarrow> Inr (Inr (authority, path_join segments))
           | None \<Rightarrow> Inr (Inl (
               if ph_kind h = SubagentHandle then SubagentNotAnOwner (SubagentSlip scheme token)
               else if scheme = Uploads \<and> ph_kind h = WorkHandle then UploadsBelongToChat
               else NoHandle (NoHandleSlip scheme))))
      | UppercaseToken _ lower \<Rightarrow>
          (case owner_authority scheme lower of
             Some authority \<Rightarrow> and_then (format_parsed_context_uri scheme [] authority)
               (\<lambda>u. Inr (Inl (UppercaseHandle (Some u) (UppercaseSlip scheme token))))
           | None \<Rightarrow> Inr (Inl (UppercaseHandle None (UppercaseSlip scheme token))))
      | LeadingZero _ \<Rightarrow> Inr (Inl (LeadingZeroHandle token))
      | NameToken _ \<Rightarrow>
          Inr (Inl (if scheme = Scratch then UnknownWork (NameSlip scheme token)
                    else NoHandle (NoHandleSlip scheme)))
      | UnknownLetter _ \<Rightarrow> Inr (Inl (NoHandle (NoHandleSlip scheme))))"

definition parse_authority_prefix ::
  "context_scheme \<Rightarrow> string \<Rightarrow> (uri_refusal + parsed_authority \<times> string) result" where
  "parse_authority_prefix scheme rawPath =
     (let qualifiers = takeWhile (starts_with ''@'') (uri_segments rawPath);
          segments = dropWhile (starts_with ''@'') (uri_segments rawPath)
      in if rawPath = [] \<or> qualifiers = [] then Inr (Inr (ContextualAuthority, rawPath))
         else if length qualifiers > 1 then Inr (Inl (QualifierChain scheme))
         else if \<not> is_owned_context_scheme scheme then Inr (Inl (NoQualifiers scheme))
         else let token = tl (hd qualifiers) in
           if token = []
           then if segments = [] \<and> starts_with ''@/'' (drop_leading slash rawPath)
                then Inr (Inl (RetiredEmptyOwner scheme))
                else parse_bare_sigil scheme segments
           else parse_owner_token scheme token segments)"

text \<open>The address \<^verbatim>\<open>branchNameRefusal\<close> suggests instead of one with a name starting with a tilde.\<close>

definition branch_name_refusal ::
  "context_scheme \<Rightarrow> parsed_authority \<Rightarrow> string list \<Rightarrow> nat \<Rightarrow> uri_refusal result" where
  "branch_name_refusal scheme authority segments i =
     (if Suc i < length segments
      then and_then (format_parsed_context_uri scheme
             (path_join (take i segments @ drop (Suc i) segments)) authority) (\<lambda>u. Inr (BranchName (Some u)))
      else case validate_context_entry_name (tl (segments ! i)) of
             Inl _ \<Rightarrow> Inr (BranchName None)
           | Inr name \<Rightarrow> and_then (format_parsed_context_uri scheme
               (path_join (take i segments @ [name])) ContextualAuthority) (\<lambda>u. Inr (BranchName (Some u))))"

definition context_schemes :: "context_scheme list" where
  "context_schemes = [Manuscript, Kb, UserArea, Unfiled, Scratch, Uploads]"

definition scheme_char :: "char \<Rightarrow> bool" where
  "scheme_char c \<longleftrightarrow> is_lower c \<or> is_digit c \<or> c \<in> {CHR ''+'', CHR ''.'', CHR ''-''}"

text \<open>
  \<^verbatim>\<open>/^([a-z][a-z0-9+.-]*):\/{2}(.*)$/\<close> and \<^verbatim>\<open>/^[a-z][a-z0-9+.-]*:/\<close>: the characters of a scheme do
  not include the colon, so the longest prefix is the only one; a dot matches no line terminator.
\<close>

fun scheme_prefix :: "string \<Rightarrow> (string \<times> string) option" where
  "scheme_prefix [] = None"
| "scheme_prefix (c # cs) =
     (if is_lower c \<and> starts_with '':'' (dropWhile scheme_char cs)
      then Some (c # takeWhile scheme_char cs, tl (dropWhile scheme_char cs)) else None)"

definition scheme_match :: "string \<Rightarrow> (string \<times> string) option" where
  "scheme_match s =
     (case scheme_prefix s of
        Some (scheme, rest) \<Rightarrow>
          if starts_with ''//'' rest \<and> CHR 0x0A \<notin> set rest \<and> CHR 0x0D \<notin> set rest
          then Some (scheme, drop 2 rest) else None
      | None \<Rightarrow> None)"

definition parse_path_under ::
  "context_scheme \<Rightarrow> string \<Rightarrow> uri_answer result" where
  "parse_path_under scheme rawPath =
     and_then (parse_authority_prefix scheme rawPath) (\<lambda>a. case a of
       Inl refusal \<Rightarrow> Inr (Inl refusal)
     | Inr (authority, rest) \<Rightarrow>
         (let segments = uri_segments (drop_trailing slash (drop_leading slash rest)) in
          if ''..'' \<in> set segments then Inr (Inl TraversalRefused)
          else if list_ex (starts_with ''@'') segments then Inr (Inl ReservedSegment)
          else let i = length (takeWhile (\<lambda>s. \<not> starts_with ''~'' s) segments) in
            if i < length segments
            then and_then (branch_name_refusal scheme authority segments i) (\<lambda>r. Inr (Inl r))
            else and_then (format_parsed_context_uri scheme (path_join segments) authority)
              (\<lambda>normalized. Inr (Inr \<lparr>pu_scheme = scheme, pu_authority = authority,
                 pu_path = path_join segments, pu_normalized = normalized\<rparr>))))"

definition parse_context_uri_with ::
  "context_scheme list \<Rightarrow> context_scheme \<Rightarrow> string \<Rightarrow> uri_answer result" where
  "parse_context_uri_with schemes bareDefault raw =
     (let trimmed = trim raw in
      if trimmed = [] then Inr (Inl EmptyUri)
      else case scheme_match trimmed of
             Some (name, rawPath) \<Rightarrow>
               (case find (\<lambda>s. scheme_text s = name) schemes of
                  None \<Rightarrow> Inr (Inl (UnknownScheme name))
                | Some scheme \<Rightarrow> parse_path_under scheme rawPath)
           | None \<Rightarrow>
               if scheme_prefix trimmed \<noteq> None then Inr (Inl MalformedUri)
               else parse_path_under bareDefault trimmed)"

definition parse_context_uri :: "string \<Rightarrow> uri_answer result" where
  "parse_context_uri raw = parse_context_uri_with context_schemes Manuscript raw"

definition is_context_uri_scheme :: "string \<Rightarrow> bool" where
  "is_context_uri_scheme value \<longleftrightarrow> value \<in> set (map scheme_text context_schemes)"

section \<open>Addresses of holders and documents\<close>

text \<open>The owner a holder's authority supplies for Scratch and for uploads.\<close>

fun holder_authorities :: "parsed_authority \<Rightarrow> context_scheme \<Rightarrow> parsed_authority option" where
  "holder_authorities (WorkAuthority h) s = (if s = Scratch then Some (WorkAuthority h) else None)"
| "holder_authorities (LineageAuthority r) s = (if s = Scratch then Some (LineageAuthority r) else None)"
| "holder_authorities (ChatAuthority r) s = (if s = Uploads then Some (ChatAuthority r) else None)"
| "holder_authorities _ s = None"

definition qualify_context_uri_by_holder :: "string \<Rightarrow> string option \<Rightarrow> string result" where
  "qualify_context_uri_by_holder uri holderUri =
     and_then (parse_context_uri uri) (\<lambda>target.
     and_then (case holderUri of
         None \<Rightarrow> Inr None | Some [] \<Rightarrow> Inr None
       | Some h \<Rightarrow> and_then (parse_context_uri h) (\<lambda>a. Inr (Some a))) (\<lambda>holder.
     case (target, holder) of
       (Inr t, Some (Inr h)) \<Rightarrow>
         if pu_authority t \<noteq> ContextualAuthority \<or> is_project_scoped_scheme (pu_scheme t) then Inr uri
         else (case holder_authorities (pu_authority h) (pu_scheme t) of
             Some authority \<Rightarrow> format_parsed_context_uri (pu_scheme t) (pu_path t) authority
           | None \<Rightarrow> Inr uri)
     | _ \<Rightarrow> Inr uri))"

definition split_document_href_suffix :: "string \<Rightarrow> string \<times> string" where
  "split_document_href_suffix value =
     (takeWhile (\<lambda>c. c \<noteq> CHR ''?'' \<and> c \<noteq> CHR ''#'') value,
      dropWhile (\<lambda>c. c \<noteq> CHR ''?'' \<and> c \<noteq> CHR ''#'') value)"

text \<open>\<^verbatim>\<open>value.indexOf("://")\<close>: what follows the first occurrence.\<close>

fun after_scheme :: "string \<Rightarrow> string option" where
  "after_scheme [] = None"
| "after_scheme (c # cs) =
     (if starts_with ''://'' (c # cs) then Some (drop 2 cs) else after_scheme cs)"

definition document_title_from_uri :: "string option \<Rightarrow> string option" where
  "document_title_from_uri uri =
     (case uri of
        None \<Rightarrow> None
      | Some u \<Rightarrow>
          if u = [] then None
          else map_option canonical_leaf
            (at_last (nonempty_strings (path_split (case after_scheme u of Some p \<Rightarrow> p | None \<Rightarrow> u)))))"

text \<open>\<^verbatim>\<open>resourceContextUri\<close>; \<^verbatim>\<open>null\<close> for an authority that names no valid Work.\<close>

definition resource_context_uri ::
  "context_scheme \<Rightarrow> string \<Rightarrow> context_authority \<Rightarrow> string option result" where
  "resource_context_uri scheme path authority =
     (let bare = drop_leading slash path;
          spelled = (\<lambda>a. and_then (format_parsed_context_uri scheme bare a) (\<lambda>u. Inr (Some u)))
      in case authority of
           WorkUri handle \<Rightarrow> (case decode_work_handle handle of
               Some h \<Rightarrow> spelled (WorkAuthority h) | None \<Rightarrow> Inr None)
         | ChatUri None \<Rightarrow> spelled ContextualAuthority
         | ChatUri (Some ref) \<Rightarrow> spelled (ChatAuthority ref)
         | ContextualUri \<Rightarrow> spelled ContextualAuthority
         | LineageUri ref \<Rightarrow> spelled (LineageAuthority ref))"

end
