(* ===== verification/Catalog_Installation.thy ===== *)
theory Catalog_Installation
  imports Catalog_Replay Context_Address Resource_Namespace Folder_Namespace
begin

text \<open>
  Installing a server catalog view into the durable records (\<^verbatim>\<open>catalog-installation.ts\<close>,
  \<^verbatim>\<open>folder-catalog-installation.ts\<close>): where an entry stands, what an observation writes over the
  record it names, and the writes of one installation. A view proves nothing about what it does not
  list: no write of an installation deletes.
\<close>

section \<open>Where an entry stands\<close>

text \<open>What files and folders of a catalog share.\<close>

record catalog_child =
  chd_entryId :: string
  chd_scope :: catalog_scope
  chd_sourceId :: string
  chd_parentId :: string
  chd_name :: string
  chd_path :: "string list"
  chd_uri :: string

definition file_child :: "catalog_file \<Rightarrow> catalog_child" where
  "file_child f = \<lparr>chd_entryId = cfi_entryId f, chd_scope = cfi_scope f, chd_sourceId = cfi_sourceId f,
     chd_parentId = cfi_parentId f, chd_name = cfi_name f, chd_path = cfi_path f, chd_uri = cfi_uri f\<rparr>"

definition folder_child :: "catalog_folder \<Rightarrow> catalog_child" where
  "folder_child f = \<lparr>chd_entryId = cfo_entryId f, chd_scope = cfo_scope f, chd_sourceId = cfo_sourceId f,
     chd_parentId = cfo_parentId f, chd_name = cfo_name f, chd_path = cfo_path f, chd_uri = cfo_uri f\<rparr>"

definition catalog_path :: "string \<Rightarrow> string" where
  "catalog_path path = slash # path"

definition location_at :: "parsed_uri \<Rightarrow> string \<Rightarrow> resource_owner \<Rightarrow> resource_location" where
  "location_at parsed name owner =
     \<lparr>loc_scheme = pu_scheme parsed, loc_path = catalog_path (pu_path parsed), loc_name = name,
      loc_owner = owner\<rparr>"

definition location_in_scope :: "catalog_scope \<Rightarrow> parsed_uri \<Rightarrow> string \<Rightarrow> resource_location result" where
  "location_in_scope scope parsed name =
     (let authority = pu_authority parsed; scheme = pu_scheme parsed; at = location_at parsed name
      in case scope of
           ProjectScope _ \<Rightarrow>
             throw_when (authority \<noteq> ContextualAuthority \<or> is_owned_context_scheme scheme)
               ''Catalog file URI has invalid project authority'' (Inr (at NoOwner))
         | UserScope _ \<Rightarrow>
             throw_when (scheme \<noteq> UserArea \<or> authority \<noteq> ContextualAuthority)
               ''Catalog file URI has invalid User authority'' (Inr (at NoOwner))
         | LineageScope _ thread \<Rightarrow>
             (case authority of
                LineageAuthority ref \<Rightarrow> throw_when (scheme \<noteq> Scratch)
                  ''Catalog file URI has invalid chat authority''
                  (Inr (at (resource_lineage_owner thread ref)))
              | _ \<Rightarrow> Inl (Error ''Catalog file URI has invalid chat authority''))
         | ChatScope _ chat \<Rightarrow>
             (case authority of
                ChatAuthority ref \<Rightarrow> throw_when (scheme \<noteq> Uploads)
                  ''Catalog file URI has invalid chat uploads authority''
                  (Inr (at (resource_chat_owner chat (Some ref))))
              | ContextualAuthority \<Rightarrow> throw_when (scheme \<noteq> Uploads)
                  ''Catalog file URI has invalid chat uploads authority''
                  (Inr (at (resource_chat_owner chat None)))
              | _ \<Rightarrow> Inl (Error ''Catalog file URI has invalid chat uploads authority''))
         | WorkScope _ workId \<Rightarrow>
             (case authority of
                WorkAuthority h \<Rightarrow> throw_when (scheme \<noteq> Scratch)
                  ''Catalog file URI has invalid Work authority''
                  (Inr (at (WorkOwner workId (Some h))))
              | _ \<Rightarrow> Inl (Error ''Catalog file URI has invalid Work authority'')))"

definition catalog_entry_location :: "catalog_view \<Rightarrow> catalog_child \<Rightarrow> resource_location result" where
  "catalog_entry_location view entry =
     throw_when (\<not> same_catalog_scope (chd_scope entry) (cv_scope view)) ''Catalog file scope mismatch''
     (case entries_get (chd_sourceId entry) (cv_entries view) of
        Some (SourceEntry source) \<Rightarrow>
          throw_when (\<not> same_catalog_scope (cs_scope source) (cv_scope view))
            ''Catalog file source is unavailable''
          (and_then (parse_context_uri (chd_uri entry)) (\<lambda>answer. case answer of
             Inl _ \<Rightarrow> Inl (Error ''Catalog file URI is inconsistent with its source or path'')
           | Inr parsed \<Rightarrow>
               throw_when (pu_normalized parsed \<noteq> chd_uri entry \<or> pu_scheme parsed \<noteq> cs_scheme source \<or>
                   pu_path parsed \<noteq> path_join (chd_path entry) \<or> at_last (chd_path entry) \<noteq> Some (chd_name entry))
                 ''Catalog file URI is inconsistent with its source or path''
                 (location_in_scope (cv_scope view) parsed (chd_name entry))))
      | _ \<Rightarrow> Inl (Error ''Catalog file source is unavailable''))"

definition catalog_entry_parent :: "catalog_child \<Rightarrow> resource_location \<Rightarrow> parent_ref" where
  "catalog_entry_parent entry location =
     (if chd_parentId entry = chd_sourceId entry then RootParent (loc_scheme location) (owner_of location)
      else FolderParent (chd_parentId entry))"

definition same_resource_location :: "resource_location option \<Rightarrow> resource_location option \<Rightarrow> bool" where
  "same_resource_location left right =
     (case (left, right) of
        (Some l, Some r) \<Rightarrow> loc_scheme l = loc_scheme r \<and> loc_path l = loc_path r \<and>
          loc_name l = loc_name r \<and> same_owner (loc_owner l) (loc_owner r)
      | (None, None) \<Rightarrow> True
      | _ \<Rightarrow> False)"

section \<open>Observing a document\<close>

text \<open>The state captured before the request, by handle; an absent map proves nothing.\<close>

record observed_resource =
  or_revision :: int
  or_canonical :: "resource_location option"
  or_canonicalParent :: "parent_ref option"
  or_canonicalRank :: "string option option"
  or_classification :: file_classification

record observed_folder =
  of_revision :: int
  of_canonical :: "resource_location option"
  of_refreshOperationId :: "string option"

record observation_fence =
  fence_folders :: "(string \<times> observed_folder) list"
  fence_resources :: "(string \<times> observed_resource) list"

text \<open>What the catalog says of one document: the input of \<^verbatim>\<open>observedResourceWrite\<close> besides the record.\<close>

record file_observation =
  fob_location :: resource_location
  fob_classification :: file_classification
  fob_parent :: parent_ref
  fob_rank :: "string option option"
  fob_locationVersion :: "string option"
  fob_observationVersion :: string

text \<open>The canonical state a newer observation gives a document.\<close>

definition placed_by :: "file_observation \<Rightarrow> resource_descriptor \<Rightarrow> resource_descriptor" where
  "placed_by obs res = res\<lparr>
     res_classification := fob_classification obs, res_canonical := Some (fob_location obs),
     res_canonicalParent := Some (fob_parent obs), res_canonicalRank := fob_rank obs,
     res_canonicalLocationVersion := fob_locationVersion obs,
     res_observationVersion := Some (fob_observationVersion obs)\<rparr>"

definition revived_resource_write ::
  "observation_fence \<Rightarrow> file_observation \<Rightarrow> resource_record \<Rightarrow> resource_write option result" where
  "revived_resource_write fence obs record =
     (let current = rec_resource record
      in case res_lifecycle current of
           Terminal t \<Rightarrow>
             if ob_cleanup (res_obligations current) \<noteq> None then Inr None
             else if map_option or_revision (map_of (fence_resources fence) (res_handle current)) \<noteq>
                     Some (res_revision current) then Inr None
             else (case term_deletionVersion t of
                 None \<Rightarrow> Inr None
               | Some deletionVersion \<Rightarrow>
                   and_then (newer_canonical_observation (fob_observationVersion obs) (Some deletionVersion))
                   (\<lambda>isNewer. if \<not> isNewer then Inr None
                     else Inr (Some (resource_update record
                       ((placed_by obs (bumped current))\<lparr>
                          res_content := Unacquired, res_serverHold := HeldHold,
                          res_lifecycle := Acknowledged None,
                          res_revivedFrom := Some \<lparr>rf_generation = term_generation t,
                            rf_transitionId = term_transitionId t\<rparr>,
                          res_obligations := no_obligations\<rparr>)
                       (rec_intents record)))))
         | _ \<Rightarrow> Inr None)"

definition fence_violated :: "observed_resource \<Rightarrow> resource_descriptor \<Rightarrow> bool" where
  "fence_violated observed current \<longleftrightarrow>
     or_revision observed \<noteq> res_revision current \<and>
     (\<not> same_resource_location (or_canonical observed) (res_canonical current) \<or>
      \<not> same_destination_parent (map_option bare_parent (or_canonicalParent observed))
          (map_option bare_parent (res_canonicalParent current)) \<or>
      or_canonicalRank observed \<noteq> res_canonicalRank current \<or>
      or_classification observed \<noteq> res_classification current)"

text \<open>The canonical refresh the observation completes or advances.\<close>

definition refreshed_by :: "file_observation \<Rightarrow> resource_record \<Rightarrow> resource_write option result" where
  "refreshed_by obs record =
     (case ob_canonicalRefresh (res_obligations (rec_resource record)) of
        None \<Rightarrow> Inr None
      | Some refresh \<Rightarrow> install_canonical_refresh record (cr_operationId refresh)
          \<lparr>av_location = fob_location obs, av_parent = fob_parent obs,
           av_observationVersion = fob_observationVersion obs,
           av_locationVersion = fob_locationVersion obs, av_rank = fob_rank obs,
           av_orderPolicy = None\<rparr>)"

definition newer_resource_write ::
  "file_observation \<Rightarrow> resource_record \<Rightarrow> resource_write option \<Rightarrow> resource_write" where
  "newer_resource_write obs record refreshed =
     (let current = rec_resource record;
          base = (case refreshed of Some w \<Rightarrow> rec_resource (rw_next w) | None \<Rightarrow> current);
          intents = (case refreshed of Some w \<Rightarrow> rec_intents (rw_next w) | None \<Rightarrow> rec_intents record)
      in resource_update record ((placed_by obs base)\<lparr>res_revision := res_revision current + 1\<rparr>) intents)"

definition observed_resource_write ::
  "observation_fence \<Rightarrow> file_observation \<Rightarrow> resource_record \<Rightarrow> resource_write option result" where
  "observed_resource_write fence obs record =
     (let current = rec_resource record
      in case res_lifecycle current of
           Terminal _ \<Rightarrow> revived_resource_write fence obs record
         | LocalLife \<Rightarrow> Inr None
         | Acknowledged _ \<Rightarrow>
             and_then (newer_canonical_observation (fob_observationVersion obs) (res_observationVersion current))
             (\<lambda>isNewer. case map_of (fence_resources fence) (res_handle current) of
                 None \<Rightarrow> Inr None
               | Some observed \<Rightarrow>
                   if fence_violated observed current then Inr None
                   else and_then (refreshed_by obs record) (\<lambda>refreshed.
                     Inr (if isNewer then Some (newer_resource_write obs record refreshed) else refreshed))))"

section \<open>Documents a view discovers or joins\<close>

definition catalog_resource_handle :: "string \<Rightarrow> string" where
  "catalog_resource_handle documentId = ''catalog:'' @ documentId"

definition file_observed :: "catalog_file \<Rightarrow> resource_location \<Rightarrow> file_observation" where
  "file_observed entry location =
     \<lparr>fob_location = location, fob_classification = cfi_classification entry,
      fob_parent = catalog_entry_parent (file_child entry) location, fob_rank = cfi_rank entry,
      fob_locationVersion = cfi_locationVersion entry,
      fob_observationVersion = cfi_observationVersion entry\<rparr>"

definition discovered_resource :: "catalog_file \<Rightarrow> resource_location \<Rightarrow> resource_write" where
  "discovered_resource entry location =
     \<lparr>rw_expectedRevision = None, rw_next = \<lparr>rec_resource =
        \<lparr>res_handle = catalog_resource_handle (cfi_entryId entry), res_revision = 1,
         res_documentId = cfi_entryId entry, res_identityRevision = 1, res_content = Unacquired,
         res_classification = cfi_classification entry, res_materialization = None,
         res_serverHold = HeldHold, res_copiedBy = None, res_canonical = Some location,
         res_canonicalParent = Some (catalog_entry_parent (file_child entry) location),
         res_canonicalRank = cfi_rank entry, res_canonicalLocationVersion = cfi_locationVersion entry,
         res_observationVersion = Some (cfi_observationVersion entry),
         res_lifecycle = Acknowledged None, res_aliases = [], res_revivedFrom = None,
         res_obligations = no_obligations\<rparr>,
        rec_intents = []\<rparr>\<rparr>"

definition joined_target :: "catalog_file \<Rightarrow> resource_location \<Rightarrow> join_target" where
  "joined_target entry location =
     \<lparr>jt_documentId = cfi_entryId entry, jt_location = Some location,
      jt_parent = Some (catalog_entry_parent (file_child entry) location), jt_rank = cfi_rank entry,
      jt_locationVersion = cfi_locationVersion entry, jt_classification = Some (cfi_classification entry),
      jt_observationVersion = Some (cfi_observationVersion entry)\<rparr>"

fun joined_reservation ::
  "resource_record list \<Rightarrow> (string \<times> resource_record) list \<Rightarrow> join_target \<Rightarrow> int \<Rightarrow> string list
     \<Rightarrow> resource_write option" where
  "joined_reservation records current target now [] = None"
| "joined_reservation records current target now (k # ks) =
     (case map_of current k of
        None \<Rightarrow> joined_reservation records current target now ks
      | Some reservation \<Rightarrow>
          if reservation \<notin> set records then joined_reservation records current target now ks
          else (case join_reservation reservation target now of
              Some w \<Rightarrow> Some w
            | None \<Rightarrow> joined_reservation records current target now ks))"

section \<open>One installation\<close>

record install_state =
  ins_current :: "(string \<times> resource_record) list"
  ins_handles :: "(string \<times> resource_record) list"
  ins_writes :: "resource_write list"

text \<open>The documents by current id and by handle; two records may share neither.\<close>

fun index_records_from ::
  "resource_record list \<Rightarrow> (string \<times> resource_record) list \<Rightarrow> (string \<times> resource_record) list
     \<Rightarrow> ((string \<times> resource_record) list \<times> (string \<times> resource_record) list) result" where
  "index_records_from [] current handles = Inr (current, handles)"
| "index_records_from (r # rs) current handles =
     throw_when (map_of handles (res_handle (rec_resource r)) \<noteq> None) ''Duplicate resource handle''
     (throw_when (map_of current (res_documentId (rec_resource r)) \<noteq> None)
       ''Duplicate current document identity''
     (index_records_from rs (assoc_set (res_documentId (rec_resource r)) r current)
       (assoc_set (res_handle (rec_resource r)) r handles)))"

definition index_records ::
  "resource_record list
     \<Rightarrow> ((string \<times> resource_record) list \<times> (string \<times> resource_record) list) result" where
  "index_records records = index_records_from records [] []"

definition wrote :: "string \<Rightarrow> resource_write \<Rightarrow> install_state \<Rightarrow> install_state" where
  "wrote k w st = st\<lparr>ins_current := assoc_set k (rw_next w) (ins_current st),
     ins_writes := ins_writes st @ [w]\<rparr>"

definition install_file ::
  "resource_record list \<Rightarrow> catalog_view \<Rightarrow> observation_fence \<Rightarrow> int \<Rightarrow> catalog_file \<Rightarrow> install_state
     \<Rightarrow> install_state result" where
  "install_file records view fence now entry st =
     and_then (catalog_entry_location view (file_child entry)) (\<lambda>location.
       case map_of (ins_current st) (cfi_entryId entry) of
         Some current \<Rightarrow>
           and_then (observed_resource_write fence (file_observed entry location) current) (\<lambda>write.
             Inr (case write of None \<Rightarrow> st | Some w \<Rightarrow> st\<lparr>ins_writes := ins_writes st @ [w]\<rparr>))
       | None \<Rightarrow>
           (case joined_reservation records (ins_current st) (joined_target entry location) now
                   (case cfi_joinedFrom entry of None \<Rightarrow> [] | Some ids \<Rightarrow> ids) of
              Some w \<Rightarrow> Inr (wrote (cfi_entryId entry) w st)
            | None \<Rightarrow>
                (let handle = catalog_resource_handle (cfi_entryId entry);
                     w = discovered_resource entry location
                 in throw_when (map_of (ins_handles st) handle \<noteq> None)
                      ''Catalog resource handle collision''
                      (Inr ((wrote (cfi_entryId entry) w st)
                        \<lparr>ins_handles := assoc_set handle (rw_next w) (ins_handles st)\<rparr>)))))"

fun install_files ::
  "resource_record list \<Rightarrow> catalog_view \<Rightarrow> observation_fence \<Rightarrow> int \<Rightarrow> catalog_file list \<Rightarrow> install_state
     \<Rightarrow> install_state result" where
  "install_files records view fence now [] st = Inr st"
| "install_files records view fence now (f # fs) st =
     and_then (install_file records view fence now f st) (install_files records view fence now fs)"

definition checkpoint_of ::
  "(string \<Rightarrow> string \<Rightarrow> int) \<Rightarrow> string \<Rightarrow> catalog_view \<Rightarrow> catalog_checkpoint option \<Rightarrow> catalog_checkpoint" where
  "checkpoint_of collate projectId view previous =
     \<lparr>cp_scope = cv_scope view, cp_generation = cv_generation view,
      cp_appliedRevision = cv_appliedRevision view,
      cp_observedHeadRevision = cv_observedHeadRevision view, cp_cursor = cv_cursor view,
      cp_projectId = projectId,
      cp_revision = (case previous of None \<Rightarrow> 0 | Some p \<Rightarrow> cp_revision p) + 1,
      cp_entries = sort_with (\<lambda>l r. collate (entry_id l) (entry_id r)) (cv_entries view)\<rparr>"

definition plan_catalog_installation ::
  "(string \<Rightarrow> string \<Rightarrow> int) \<Rightarrow> string \<Rightarrow> resource_record list \<Rightarrow> catalog_view \<Rightarrow> catalog_checkpoint option
     \<Rightarrow> observation_fence \<Rightarrow> int \<Rightarrow> (catalog_checkpoint \<times> resource_write list) result" where
  "plan_catalog_installation collate projectId records view previous fence now =
     throw_when (\<not> catalog_scope_belongs_to_project projectId (cv_scope view))
       ''Catalog scope belongs to another project''
     (throw_when (case previous of None \<Rightarrow> False
          | Some p \<Rightarrow> cp_projectId p \<noteq> projectId \<or> \<not> same_catalog_scope (cp_scope p) (cv_scope view))
       ''Catalog checkpoint identity mismatch''
     (and_then (index_records records) (\<lambda>(current, handles).
      and_then (install_files records view fence now (catalog_files view)
          \<lparr>ins_current = current, ins_handles = handles, ins_writes = []\<rparr>)
        (\<lambda>st. Inr (checkpoint_of collate projectId view previous, ins_writes st)))))"

definition catalog_view_from_checkpoint ::
  "(string \<Rightarrow> string \<Rightarrow> int) \<Rightarrow> catalog_checkpoint \<Rightarrow> catalog_view" where
  "catalog_view_from_checkpoint collate checkpoint =
     index_catalog_view collate
       \<lparr>cv_scope = cp_scope checkpoint, cv_generation = cp_generation checkpoint,
        cv_appliedRevision = cp_appliedRevision checkpoint,
        cv_observedHeadRevision = cp_observedHeadRevision checkpoint, cv_cursor = cp_cursor checkpoint,
        cv_entries = entries_of (cp_entries checkpoint), cv_childIds = [], cv_sourceIds = []\<rparr>"

section \<open>Folders\<close>

record folder_observation =
  fo_location :: resource_location
  fo_parent :: parent_ref
  fo_observationVersion :: string

fun installed_folder_observation ::
  "(string \<Rightarrow> string \<Rightarrow> int) \<Rightarrow> catalog_checkpoint list \<Rightarrow> string \<Rightarrow> string
     \<Rightarrow> folder_observation option result" where
  "installed_folder_observation collate [] projectId folderId = Inr None"
| "installed_folder_observation collate (c # cs) projectId folderId =
     (if cp_projectId c \<noteq> projectId then installed_folder_observation collate cs projectId folderId
      else (let view = catalog_view_from_checkpoint collate c
        in case entries_get folderId (cv_entries view) of
             Some (FolderEntry f) \<Rightarrow>
               and_then (catalog_entry_location view (folder_child f)) (\<lambda>location.
                 Inr (Some \<lparr>fo_location = location,
                   fo_parent = catalog_entry_parent (folder_child f) location,
                   fo_observationVersion = cfo_observationVersion f\<rparr>))
           | _ \<Rightarrow> installed_folder_observation collate cs projectId folderId))"

definition folder_observation_fence :: "folder_record list \<Rightarrow> (string \<times> observed_folder) list" where
  "folder_observation_fence folders =
     fold (\<lambda>r. assoc_set (fol_handle r) \<lparr>of_revision = fol_revision r, of_canonical = fol_canonical r,
       of_refreshOperationId = map_option fr_operationId (fol_canonicalRefresh r)\<rparr>) folders []"

definition discovered_folder :: "string \<Rightarrow> catalog_folder \<Rightarrow> resource_location \<Rightarrow> folder_write" where
  "discovered_folder projectId entry location =
     \<lparr>fw_expectedRevision = None, fw_next =
        \<lparr>fol_projectId = (if loc_scheme location = UserArea then None else Some projectId),
         fol_handle = ''catalog-folder:'' @ cfo_entryId entry, fol_folderId = cfo_entryId entry,
         fol_aliases = [], fol_revision = 1, fol_serverHold = HeldHold, fol_copiedBy = None,
         fol_canonical = Some location,
         fol_canonicalParent = Some (catalog_entry_parent (folder_child entry) location),
         fol_canonicalRank = cfo_rank entry, fol_canonicalLocationVersion = cfo_locationVersion entry,
         fol_canonicalOrderPolicy = cfo_orderPolicy entry,
         fol_observationVersion = Some (cfo_observationVersion entry), fol_canonicalRefresh = None,
         fol_localDeletion = None, fol_terminal = None, fol_intents = []\<rparr>\<rparr>"

fun discover_folders ::
  "string \<Rightarrow> catalog_view \<Rightarrow> string set \<Rightarrow> catalog_entry list \<Rightarrow> folder_write list result" where
  "discover_folders projectId view known [] = Inr []"
| "discover_folders projectId view known (FolderEntry f # es) =
     (if cfo_navigationOnly f \<or> cfo_entryId f \<in> known then discover_folders projectId view known es
      else and_then (catalog_entry_location view (folder_child f)) (\<lambda>location.
           and_then (discover_folders projectId view known es) (\<lambda>ws.
             Inr (discovered_folder projectId f location # ws))))"
| "discover_folders projectId view known (_ # es) = discover_folders projectId view known es"

definition folder_available :: "catalog_folder \<Rightarrow> resource_location \<Rightarrow> available_identity" where
  "folder_available entry location =
     \<lparr>av_location = location, av_parent = catalog_entry_parent (folder_child entry) location,
      av_observationVersion = cfo_observationVersion entry,
      av_locationVersion = cfo_locationVersion entry, av_rank = cfo_rank entry,
      av_orderPolicy = cfo_orderPolicy entry\<rparr>"

definition newer_folder_write ::
  "catalog_folder \<Rightarrow> resource_location \<Rightarrow> folder_record \<Rightarrow> folder_write" where
  "newer_folder_write entry location record =
     folder_update (Some record)
       (record\<lparr>fol_terminal := None, fol_revision := fol_revision record + 1,
          fol_canonical := Some location, fol_observationVersion := Some (cfo_observationVersion entry),
          fol_canonicalParent := Some (catalog_entry_parent (folder_child entry) location),
          fol_canonicalRank := cfo_rank entry,
          fol_canonicalLocationVersion := cfo_locationVersion entry,
          fol_canonicalOrderPolicy := cfo_orderPolicy entry\<rparr>)"

definition observed_folder_write ::
  "string \<Rightarrow> catalog_view \<Rightarrow> observation_fence \<Rightarrow> folder_record \<Rightarrow> folder_write option result" where
  "observed_folder_write projectId view fence record =
     (if fol_projectId record \<noteq> None \<and> fol_projectId record \<noteq> Some projectId then Inr None
      else if fol_canonical record = None then Inr None
      else case (entries_get (fol_folderId record) (cv_entries view),
                 map_of (fence_folders fence) (fol_handle record)) of
          (Some (FolderEntry entry), Some observed) \<Rightarrow>
            if of_revision observed \<noteq> fol_revision record then Inr None
            else and_then (catalog_entry_location view (folder_child entry)) (\<lambda>location.
              case fol_canonicalRefresh record of
                Some barrier \<Rightarrow>
                  if of_refreshOperationId observed \<noteq> Some (fr_operationId barrier) then Inr None
                  else install_folder_canonical_refresh record (fr_operationId barrier)
                         (folder_available entry location)
              | None \<Rightarrow>
                  and_then (newer_canonical_observation (cfo_observationVersion entry)
                      (fol_observationVersion record)) (\<lambda>isNewer.
                    if \<not> isNewer \<or> \<not> same_resource_location (of_canonical observed) (fol_canonical record)
                    then Inr None
                    else Inr (Some (newer_folder_write entry location record))))
        | _ \<Rightarrow> Inr None)"

fun observe_folders ::
  "string \<Rightarrow> catalog_view \<Rightarrow> observation_fence \<Rightarrow> folder_record list \<Rightarrow> folder_write list result" where
  "observe_folders projectId view fence [] = Inr []"
| "observe_folders projectId view fence (r # rs) =
     and_then (observed_folder_write projectId view fence r) (\<lambda>w.
     and_then (observe_folders projectId view fence rs) (\<lambda>ws.
       Inr ((case w of None \<Rightarrow> [] | Some x \<Rightarrow> [x]) @ ws)))"

definition plan_folder_catalog_installation ::
  "string \<Rightarrow> folder_record list \<Rightarrow> catalog_view \<Rightarrow> observation_fence \<Rightarrow> folder_write list result" where
  "plan_folder_catalog_installation projectId folders view fence =
     and_then (discover_folders projectId view (fol_folderId ` set folders) (cv_entries view)) (\<lambda>ws.
     and_then (observe_folders projectId view fence folders) (\<lambda>vs. Inr (ws @ vs)))"

end
