(* ===== verification/Address_Roundtrip.thy ===== *)
theory Address_Roundtrip
  imports Context_Address
begin

text \<open>
  Spelling and parsing context addresses are inverse (\<^verbatim>\<open>context-uri.ts\<close>): the parser never throws,
  what it accepts is well formed and spelled by the serializer, and every well-formed address the
  serializer spells reads back, unless its path ends in white space or holds a line break.
\<close>

section \<open>Segments\<close>

lemma uri_segments_Nil [simp]: "uri_segments [] = []"
  by (simp add: uri_segments_def path_split_def)

lemma uri_segments_slash [simp]: "uri_segments (slash # s) = uri_segments s"
  by (simp add: uri_segments_def path_split_def)

lemma split_on_last: "split_on d (s @ [d]) = split_on d s @ [[]]"
  by (induction s) (auto split: list.splits)

lemma uri_segments_last [simp]: "uri_segments (s @ [slash]) = uri_segments s"
  by (simp add: uri_segments_def path_split_def split_on_last)

lemma uri_segments_drop_leading [simp]: "uri_segments (drop_leading slash s) = uri_segments s"
  by (induction s) auto

lemma uri_segments_drop_trailing [simp]: "uri_segments (drop_trailing slash s) = uri_segments s"
proof (induction s rule: rev_induct)
  case (snoc c s)
  then show ?case by (cases "c = slash") (simp_all add: drop_trailing_def)
qed (simp add: drop_trailing_def)

definition segment_ok :: "string \<Rightarrow> bool" where
  "segment_ok w \<longleftrightarrow> w \<noteq> [] \<and> slash \<notin> set w \<and> w \<noteq> ''.'' \<and> w \<noteq> ''..'' \<and>
     \<not> starts_with ''@'' w \<and> \<not> starts_with ''~'' w"

lemma uri_segments_join:
  assumes "\<And>w. w \<in> set ws \<Longrightarrow> w \<noteq> [] \<and> slash \<notin> set w \<and> w \<noteq> ''.''"
  shows "uri_segments (path_join ws) = ws"
proof (cases "ws = []")
  case False
  then have "path_split (path_join ws) = ws"
    using assms by (simp add: path_split_def path_join_def split_join)
  then show ?thesis using assms by (simp add: uri_segments_def filter_id_conv)
qed (simp add: path_join_def)

lemma uri_segments_mem: "w \<in> set (uri_segments s) \<Longrightarrow> w \<noteq> [] \<and> slash \<notin> set w \<and> w \<noteq> ''.''"
  by (auto simp: uri_segments_def path_split_def dest: split_on_no_sep)

lemma uri_segments_first:
  assumes "q \<noteq> []" and "slash \<notin> set q" and "q \<noteq> ''.''"
  shows "uri_segments (q @ slash # s) = q # uri_segments s"
  using assms by (simp add: uri_segments_def path_split_def split_append)

lemma uri_segments_single:
  assumes "q \<noteq> []" and "slash \<notin> set q" and "q \<noteq> ''.''"
  shows "uri_segments q = [q]"
  using assms by (simp add: uri_segments_def path_split_def split_single)

section \<open>Schemes and white space\<close>

lemma trim_unchanged:
  assumes "s = [] \<or> \<not> is_white (hd s) \<and> \<not> is_white (last s)"
  shows "trim s = s"
proof (cases "s = []")
  case False
  then have "dropWhile is_white s = s" using assms by (cases s) auto
  moreover have "dropWhile is_white (rev s) = rev s"
    using assms False by (cases s rule: rev_cases) auto
  ultimately show ?thesis by (simp add: trim_def)
qed (simp add: trim_def)

lemma scheme_head_match:
  assumes "CHR 0x0A \<notin> set rest" and "CHR 0x0D \<notin> set rest"
  shows "scheme_match (scheme_head s @ rest) = Some (scheme_text s, rest)"
  using assms
  by (cases s) (simp_all add: scheme_match_def scheme_head_def is_lower_def scheme_char_def is_digit_def
      starts_with_def)

lemma find_scheme [simp]: "find (\<lambda>t. scheme_text t = scheme_text s) context_schemes = Some s"
  by (cases s) (simp_all add: context_schemes_def)

lemma scheme_head_trim:
  assumes "rest = [] \<or> \<not> is_white (last rest)"
  shows "trim (scheme_head s @ rest) = scheme_head s @ rest"
  using assms by (intro trim_unchanged) (cases s; auto simp: scheme_head_def is_white_def)

lemma scheme_head_nonempty [simp]: "scheme_head s \<noteq> []"
  by (simp add: scheme_head_def)

lemma parse_spelled:
  assumes "CHR 0x0A \<notin> set rest" and "CHR 0x0D \<notin> set rest" and "rest = [] \<or> \<not> is_white (last rest)"
  shows "parse_context_uri (scheme_head s @ rest) = parse_path_under s rest"
  using assms by (simp add: parse_context_uri_def parse_context_uri_with_def scheme_head_trim scheme_head_match)

section \<open>Handles\<close>

lemma parse_handle_Some:
  assumes "parse_handle h = Some p"
  shows "ph_handle p = h" and "hd h = handle_letter (ph_kind p)" and "handle_pattern h"
  using assms
  by (auto simp: parse_handle_def split: if_splits)

lemma handle_chars:
  assumes "handle_pattern h"
  shows "h \<noteq> []" and "slash \<notin> set h" and "CHR 0x0A \<notin> set h" and "CHR 0x0D \<notin> set h" and "h \<noteq> ''.''"
    and "\<not> starts_with ''@'' h"
proof -
  obtain c ds where h: "h = c # ds" "is_lower c" "handle_number ds"
    using assms by (cases h) auto
  have d: "is_digit x" if "x \<in> set ds" for x using h(3) that by (cases ds) auto
  show "h \<noteq> []" using h(1) by simp
  show "slash \<notin> set h" "CHR 0x0A \<notin> set h" "CHR 0x0D \<notin> set h"
    using h(1,2) d by (auto simp: is_lower_def is_digit_def dest!: d)
  show "h \<noteq> ''.''" "\<not> starts_with ''@'' h"
    using h(1,2) by (auto simp: is_lower_def starts_with_def)
qed

text \<open>A minted handle parses back to its kind and number.\<close>

lemma radix_digits_append:
  "radix_digits r acc (xs @ ys) = Option.bind (radix_digits r acc xs) (\<lambda>v. radix_digits r v ys)"
  by (induction xs arbitrary: acc) (auto split: option.splits)

lemma digit_char: "d < 10 \<Longrightarrow> radix_digit 10 (char_of (48 + d)) = Some (int d)"
  by (simp add: radix_digit_def)

lemma show_nat_digits: "radix_digits 10 0 (show_nat n) = Some (int n)"
proof (induction n rule: show_nat.induct)
  case (1 n)
  show ?case
  proof (cases "n < 10")
    case True
    then show ?thesis by (subst show_nat.simps) (simp add: digit_char)
  next
    case False
    then have "radix_digits 10 0 (show_nat (n div 10)) = Some (int (n div 10))" by (rule 1)
    moreover have "10 * int (n div 10) + int (n mod 10) = int n" by presburger
    ultimately show ?thesis
      using False by (subst show_nat.simps) (simp add: radix_digits_append digit_char del: of_nat_div of_nat_mod)
  qed
qed

lemma show_nat_number: "0 < n \<Longrightarrow> handle_number (show_nat n)"
proof (induction n rule: show_nat.induct)
  case (1 n)
  have digit: "is_digit (char_of (48 + d))" if "d < 10" for d :: nat
  proof -
    have "list_all (\<lambda>d. is_digit (char_of (48 + d))) [0..<10]" by code_simp
    then show ?thesis using that by simp
  qed
  show ?case
  proof (cases "n < 10")
    case True
    have "char_of (48 + n) \<noteq> CHR ''0''"
    proof
      assume "char_of (48 + n) = CHR ''0''"
      then have "(of_char (char_of (48 + n) :: char) :: nat) = of_char CHR ''0''" by simp
      then show False using True 1(2) by simp
    qed
    then show ?thesis using True digit by (subst show_nat.simps) simp
  next
    case False
    then have "handle_number (show_nat (n div 10))" using 1 by simp
    moreover have "is_digit (char_of (48 + n mod 10))" by (rule digit) simp
    ultimately show ?thesis
      using False by (subst show_nat.simps) (cases "show_nat (n div 10)"; simp)
  qed
qed

lemma minted_handle_parses:
  assumes "0 < n"
  shows "parse_handle (format_handle kind n) =
     Some \<lparr>ph_kind = kind, ph_n = int n, ph_handle = format_handle kind n\<rparr>"
proof -
  have "handle_pattern (format_handle kind n)"
    using show_nat_number [OF assms] by (cases kind) (simp_all add: format_handle_def is_lower_def)
  moreover have "find (\<lambda>k. handle_letter k = handle_letter kind) [ChatHandle, SubagentHandle, WorkHandle] = Some kind"
    by (cases kind) simp_all
  ultimately show ?thesis by (simp add: parse_handle_def format_handle_def show_nat_digits)
qed

definition authority_fits :: "context_scheme \<Rightarrow> parsed_authority \<Rightarrow> bool" where
  "authority_fits s a \<longleftrightarrow>
     (case a of
        ContextualAuthority \<Rightarrow> True
      | OwnersAuthority \<Rightarrow> is_owned_context_scheme s
      | LineageAuthority r \<Rightarrow> s = Scratch \<and> map_option ph_kind (parse_handle r) = Some ChatHandle
      | ChatAuthority r \<Rightarrow> s = Uploads \<and> map_option ph_kind (parse_handle r) = Some ChatHandle
      | WorkAuthority h \<Rightarrow> s = Scratch \<and> map_option ph_kind (parse_handle h) = Some WorkHandle)"

fun authority_handle :: "parsed_authority \<Rightarrow> string option" where
  "authority_handle (LineageAuthority r) = Some r"
| "authority_handle (ChatAuthority r) = Some r"
| "authority_handle (WorkAuthority h) = Some h"
| "authority_handle _ = None"

lemma qualifier_spelled:
  assumes "authority_fits s a"
  shows "owner_qualifier a = Inr (case a of ContextualAuthority \<Rightarrow> None | OwnersAuthority \<Rightarrow> Some ''@''
     | _ \<Rightarrow> map_option ((#) (CHR ''@'')) (authority_handle a))"
  using assms
  by (cases a) (auto simp: authority_fits_def chat_handle_def decode_work_handle_def)

lemma fits_named:
  assumes "authority_fits s a" and "authority_handle a = Some h"
  shows "\<exists>p. parse_handle h = Some p \<and> owner_authority s (ph_handle p) = Some a"
    and "is_owned_context_scheme s"
  using assms
  by (cases a; auto simp: authority_fits_def owner_authority_def decode_work_handle_def
      is_owned_context_scheme_def parse_handle_Some)+

lemma owner_authority_fits:
  "owner_authority s h = Some a \<Longrightarrow> is_owned_context_scheme s \<Longrightarrow>
     authority_fits s a \<and> authority_handle a = Some h"
  by (auto simp: owner_authority_def decode_work_handle_def authority_fits_def is_owned_context_scheme_def
      split: option.splits if_splits)

section \<open>Parsing what the serializer spells\<close>

definition address_rest :: "parsed_authority \<Rightarrow> string \<Rightarrow> string" where
  "address_rest a path =
     (case authority_handle a of
        Some h \<Rightarrow> CHR ''@'' # h @ slash # path
      | None \<Rightarrow> if a = OwnersAuthority then ''@'' else path)"

lemma format_spelled:
  assumes "authority_fits s a"
  shows "format_parsed_context_uri s path a = Inr (scheme_head s @ address_rest a path)"
  using qualifier_spelled [OF assms]
  by (cases a) (auto simp: format_parsed_context_uri_def address_rest_def)

text \<open>A well-formed address: the scheme takes the owner, and the path is made of ordinary names.\<close>

definition address_ok :: "context_scheme \<Rightarrow> parsed_authority \<Rightarrow> string \<Rightarrow> bool" where
  "address_ok s a path \<longleftrightarrow>
     authority_fits s a \<and> list_all segment_ok (uri_segments path) \<and>
     path = path_join (uri_segments path) \<and> (a = OwnersAuthority \<longrightarrow> path = [])"

text \<open>A path the surrounding trimming and the line-based pattern of the parser leave alone.\<close>

definition path_on_one_line :: "string \<Rightarrow> bool" where
  "path_on_one_line path \<longleftrightarrow>
     CHR 0x0A \<notin> set path \<and> CHR 0x0D \<notin> set path \<and> (path = [] \<or> \<not> is_white (last path))"

lemma segment_not_owner: "segment_ok w \<Longrightarrow> \<not> starts_with ''@'' w"
  by (simp add: segment_ok_def)

lemma no_qualifiers:
  "list_all segment_ok ws \<Longrightarrow> takeWhile (starts_with ''@'') ws = [] \<and> dropWhile (starts_with ''@'') ws = ws"
  by (cases ws) (auto simp: segment_not_owner)

lemma prefix_named:
  assumes "authority_fits s a" and h: "authority_handle a = Some h" and ok: "list_all segment_ok (uri_segments path)"
  shows "parse_authority_prefix s (CHR ''@'' # h @ slash # path) =
     Inr (Inr (a, path_join (uri_segments path)))"
proof -
  obtain p where p: "parse_handle h = Some p" "owner_authority s (ph_handle p) = Some a"
    using fits_named [OF assms(1) h] by blast
  note hc = handle_chars [OF parse_handle_Some(3) [OF p(1)]]
  have "uri_segments ((CHR ''@'' # h) @ slash # path) = (CHR ''@'' # h) # uri_segments path"
    by (rule uri_segments_first) (use hc in auto)
  then have segs: "uri_segments (CHR ''@'' # h @ slash # path) = (CHR ''@'' # h) # uri_segments path" by simp
  have "parse_owner_token s h (uri_segments path) = Inr (Inr (a, path_join (uri_segments path)))"
    using p by (simp add: parse_owner_token_def classify_handle_token_def)
  then show ?thesis
    using no_qualifiers [OF ok] hc(1) fits_named(2) [OF assms(1) h]
    by (simp add: parse_authority_prefix_def segs starts_with_def)
qed

lemma prefix_owners:
  assumes "is_owned_context_scheme s"
  shows "parse_authority_prefix s ''@'' = Inr (Inr (OwnersAuthority, []))"
proof -
  have "uri_segments ''@'' = [''@'']" by (rule uri_segments_single) auto
  then show ?thesis
    using assms by (simp add: parse_authority_prefix_def parse_bare_sigil_def starts_with_def)
qed

lemma prefix_contextual:
  assumes "list_all segment_ok (uri_segments path)"
  shows "parse_authority_prefix s path = Inr (Inr (ContextualAuthority, path))"
  using no_qualifiers [OF assms] by (simp add: parse_authority_prefix_def)

lemma prefix_spelled:
  assumes "address_ok s a path"
  shows "\<exists>rest. parse_authority_prefix s (address_rest a path) = Inr (Inr (a, rest)) \<and>
           uri_segments rest = uri_segments path"
proof -
  have ok: "list_all segment_ok (uri_segments path)" and fits: "authority_fits s a"
    and path: "path_join (uri_segments path) = path"
    using assms by (auto simp: address_ok_def)
  show ?thesis
  proof (cases "authority_handle a")
    case (Some h)
    then show ?thesis
      using prefix_named [OF fits Some ok] by (auto simp: address_rest_def path)
  next
    case None
    then consider "a = ContextualAuthority" | "a = OwnersAuthority" "path = []" "is_owned_context_scheme s"
      using assms by (cases a) (auto simp: address_ok_def authority_fits_def)
    then show ?thesis
      by cases (auto simp: address_rest_def prefix_contextual [OF ok] prefix_owners)
  qed
qed

lemma no_branch_segment:
  "list_all segment_ok ws \<Longrightarrow> takeWhile (\<lambda>s. \<not> starts_with ''~'' s) ws = ws"
  by (induction ws) (auto simp: segment_ok_def)

lemma parse_path_spelled:
  assumes "address_ok s a path"
  shows "parse_path_under s (address_rest a path) =
     Inr (Inr \<lparr>pu_scheme = s, pu_authority = a, pu_path = path,
       pu_normalized = scheme_head s @ address_rest a path\<rparr>)"
proof -
  obtain rest where r: "parse_authority_prefix s (address_rest a path) = Inr (Inr (a, rest))"
    "uri_segments rest = uri_segments path" using prefix_spelled [OF assms] by blast
  have ok: "list_all segment_ok (uri_segments path)" and path: "path_join (uri_segments path) = path"
    and fits: "authority_fits s a"
    using assms by (auto simp: address_ok_def)
  have "''..'' \<notin> set (uri_segments path)" "\<not> list_ex (starts_with ''@'') (uri_segments path)"
    using ok by (auto simp: segment_ok_def)
  then show ?thesis
    unfolding parse_path_under_def r(1)
    by (simp add: r(2) no_branch_segment [OF ok] path format_spelled [OF fits] del: list_ex_set)
qed

lemma last_append_if: "last (xs @ ys) = (if ys = [] then last xs else last ys)"
  by simp

lemma spelled_one_line:
  assumes "address_ok s a path" and "path_on_one_line path"
  defines "rest \<equiv> address_rest a path"
  shows "CHR 0x0A \<notin> set rest" and "CHR 0x0D \<notin> set rest" and "rest = [] \<or> \<not> is_white (last rest)"
proof -
  have fits: "authority_fits s a" using assms(1) by (simp add: address_ok_def)
  show "CHR 0x0A \<notin> set rest" "CHR 0x0D \<notin> set rest" "rest = [] \<or> \<not> is_white (last rest)"
  proof (atomize (full), cases "authority_handle a")
    case (Some h)
    obtain p where "parse_handle h = Some p" using fits_named [OF fits Some] by blast
    note hc = handle_chars [OF parse_handle_Some(3) [OF this]]
    show "CHR 0x0A \<notin> set rest \<and> CHR 0x0D \<notin> set rest \<and> (rest = [] \<or> \<not> is_white (last rest))"
      using hc assms(2) by (auto simp: rest_def address_rest_def Some path_on_one_line_def is_white_def)
  next
    case None
    then show "CHR 0x0A \<notin> set rest \<and> CHR 0x0D \<notin> set rest \<and> (rest = [] \<or> \<not> is_white (last rest))"
      using assms(2) by (auto simp: rest_def address_rest_def path_on_one_line_def is_white_def)
  qed
qed

lemma spelled_parses:
  assumes "address_ok s a path" and "path_on_one_line path"
  shows "format_parsed_context_uri s path a = Inr (scheme_head s @ address_rest a path)"
    and "parse_context_uri (scheme_head s @ address_rest a path) =
      Inr (Inr \<lparr>pu_scheme = s, pu_authority = a, pu_path = path,
        pu_normalized = scheme_head s @ address_rest a path\<rparr>)"
  using format_spelled [of s a path] parse_spelled [OF spelled_one_line [OF assms]]
    parse_path_spelled [OF assms(1)] assms(1)
  by (simp_all add: address_ok_def)

section \<open>What the parser accepts\<close>

definition sound_prefix :: "context_scheme \<Rightarrow> (uri_refusal + parsed_authority \<times> string) result \<Rightarrow> bool" where
  "sound_prefix s r \<longleftrightarrow> (\<exists>a. r = Inr a \<and>
     (\<forall>authority rest. a = Inr (authority, rest) \<longrightarrow>
        authority_fits s authority \<and> (authority = OwnersAuthority \<longrightarrow> rest = [])))"

lemma sound_refusal [simp]: "sound_prefix s (Inr (Inl e))"
  by (simp add: sound_prefix_def)

lemma sound_bare_sigil:
  assumes "is_owned_context_scheme s"
  shows "sound_prefix s (parse_bare_sigil s segs)"
  using assms owner_authority_fits [of s] format_spelled [of s]
  by (auto simp: parse_bare_sigil_def sound_prefix_def authority_fits_def
      split: list.splits option.splits handle_token.splits)

lemma sound_owner_token:
  assumes "is_owned_context_scheme s"
  shows "sound_prefix s (parse_owner_token s token segs)"
proof -
  have named: "authority_fits s a \<and> a \<noteq> OwnersAuthority" if "owner_authority s h = Some a" for h a
    using owner_authority_fits [OF that assms] by (cases a) auto
  show ?thesis
    using named format_spelled [of s]
    by (auto simp: parse_owner_token_def sound_prefix_def split: option.splits handle_token.splits) 
qed

lemma sound_authority_prefix: "sound_prefix s (parse_authority_prefix s raw)"
proof -
  have "sound_prefix s (Inr (Inr (ContextualAuthority, raw)))"
    by (simp add: sound_prefix_def authority_fits_def)
  then show ?thesis
    using sound_bare_sigil sound_owner_token by (simp add: parse_authority_prefix_def Let_def)
qed

definition sound_answer :: "uri_answer result \<Rightarrow> bool" where
  "sound_answer r \<longleftrightarrow> (\<exists>a. r = Inr a \<and>
     (\<forall>u. a = Inr u \<longrightarrow> address_ok (pu_scheme u) (pu_authority u) (pu_path u) \<and>
        pu_normalized u = scheme_head (pu_scheme u) @ address_rest (pu_authority u) (pu_path u)))"

lemma sound_branch_refusal:
  assumes "authority_fits s a"
  shows "\<exists>r. branch_name_refusal s a segs i = Inr r"
  using format_spelled [OF assms] format_spelled [of s ContextualAuthority]
  by (auto simp: branch_name_refusal_def authority_fits_def split: sum.splits)

lemma all_kept: "\<not> length (takeWhile P ws) < length ws \<Longrightarrow> \<forall>w \<in> set ws. P w"
  by (induction ws) (auto split: if_splits)

lemma sound_parse_path: "sound_answer (parse_path_under s raw)"
proof -
  obtain p where p: "parse_authority_prefix s raw = Inr p"
    and sound: "\<And>authority rest. p = Inr (authority, rest) \<Longrightarrow>
        authority_fits s authority \<and> (authority = OwnersAuthority \<longrightarrow> rest = [])"
    using sound_authority_prefix [of s raw] by (auto simp: sound_prefix_def)
  show ?thesis
  proof (cases p)
    case (Inl e)
    then show ?thesis by (simp add: parse_path_under_def p sound_answer_def)
  next
    case (Inr q)
    obtain authority rest where q: "q = (authority, rest)" by (cases q)
    have fits: "authority_fits s authority" and owners: "authority = OwnersAuthority \<Longrightarrow> rest = []"
      using sound Inr q by auto
    let ?segs = "uri_segments rest"
    show ?thesis
    proof (cases "''..'' \<in> set ?segs \<or> list_ex (starts_with ''@'') ?segs \<or>
        length (takeWhile (\<lambda>s. \<not> starts_with ''~'' s) ?segs) < length ?segs")
      case True
      then show ?thesis
        using sound_branch_refusal [OF fits, of ?segs "length (takeWhile (\<lambda>s. \<not> starts_with ''~'' s) ?segs)"]
        by (auto simp: parse_path_under_def p Inr q sound_answer_def Let_def)
    next
      case False
      then have ok: "list_all segment_ok ?segs"
        using all_kept [of "\<lambda>s. \<not> starts_with ''~'' s" ?segs] uri_segments_mem [of _ rest]
        by (auto simp: segment_ok_def)
      have join: "uri_segments (path_join ?segs) = ?segs"
        by (rule uri_segments_join) (rule uri_segments_mem)
      have addr: "address_ok s authority (path_join ?segs)"
        unfolding address_ok_def join using ok fits owners by (auto simp: path_join_def)
      have "parse_path_under s raw = Inr (Inr \<lparr>pu_scheme = s, pu_authority = authority,
          pu_path = path_join ?segs, pu_normalized = scheme_head s @ address_rest authority (path_join ?segs)\<rparr>)"
        using False format_spelled [OF fits] by (simp add: parse_path_under_def p Inr q Let_def)
      then show ?thesis using addr by (simp add: sound_answer_def)
    qed
  qed
qed

lemma sound_parse: "sound_answer (parse_context_uri_with schemes bareDefault raw)"
proof -
  have "sound_answer (Inr (Inl e))" for e by (simp add: sound_answer_def)
  then show ?thesis
    using sound_parse_path
    by (auto simp: parse_context_uri_with_def Let_def split: option.splits)
qed

section \<open>Properties\<close>

text \<open>C33: Every well-formed address is spelled by the serializer and reads back as itself: the scheme,
  the owner and the path come back, and the spelling is already the normalized one. The path must
  be on one line and not end in white space.\<close>

theorem spelled_address_reads_back:
  assumes "address_ok scheme authority path" and "path_on_one_line path"
  shows "\<exists>uri. format_parsed_context_uri scheme path authority = Inr uri \<and>
           parse_context_uri uri = Inr (Inr \<lparr>pu_scheme = scheme, pu_authority = authority,
             pu_path = path, pu_normalized = uri\<rparr>)"
  using spelled_parses [OF assms] by blast

text \<open>C32: Parsing a context URI never throws, whatever the text and whichever schemes are known. An
  accepted address has an owner its scheme takes and a path of ordinary names, and its normalized form
  is what the serializer spells. Where the path is on one line and does not end in white space, that
  form is accepted again as the same address.\<close>

theorem accepted_address_is_well_formed:
  "\<exists>answer. parse_context_uri_with schemes bareDefault raw = Inr answer \<and>
     (\<forall>u. answer = Inr u \<longrightarrow>
        address_ok (pu_scheme u) (pu_authority u) (pu_path u) \<and>
        format_parsed_context_uri (pu_scheme u) (pu_path u) (pu_authority u) = Inr (pu_normalized u) \<and>
        (path_on_one_line (pu_path u) \<longrightarrow> parse_context_uri (pu_normalized u) = Inr (Inr u)))"
proof -
  obtain a where a: "parse_context_uri_with schemes bareDefault raw = Inr a"
    and ok: "\<And>u. a = Inr u \<Longrightarrow> address_ok (pu_scheme u) (pu_authority u) (pu_path u) \<and>
        pu_normalized u = scheme_head (pu_scheme u) @ address_rest (pu_authority u) (pu_path u)"
    using sound_parse [of schemes bareDefault raw] by (auto simp: sound_answer_def)
  have "format_parsed_context_uri (pu_scheme u) (pu_path u) (pu_authority u) = Inr (pu_normalized u) \<and>
      (path_on_one_line (pu_path u) \<longrightarrow> parse_context_uri (pu_normalized u) = Inr (Inr u))"
    if "a = Inr u" for u
    using ok [OF that] spelled_parses(2) [of "pu_scheme u" "pu_authority u" "pu_path u"]
      format_spelled [of "pu_scheme u" "pu_authority u" "pu_path u"]
    by (cases u) (simp add: address_ok_def)
  then show ?thesis using a ok by blast
qed

text \<open>
  Without that condition the normalized form is not stable: a name before the last slash may end in
  a blank, which normalizing leaves at the end and the next parse trims off.
\<close>

theorem normalized_address_can_change:
  "parse_context_uri ''kb://a /'' =
     Inr (Inr \<lparr>pu_scheme = Kb, pu_authority = ContextualAuthority, pu_path = ''a '', pu_normalized = ''kb://a ''\<rparr>) \<and>
   parse_context_uri ''kb://a '' =
     Inr (Inr \<lparr>pu_scheme = Kb, pu_authority = ContextualAuthority, pu_path = ''a'', pu_normalized = ''kb://a''\<rparr>)"
  by code_simp

theorem spelled_address_reads_back_witness:
  "\<exists>uri. format_parsed_context_uri Scratch ''notes/ch 1'' (WorkAuthority ''w3'') = Inr uri \<and>
     parse_context_uri uri = Inr (Inr \<lparr>pu_scheme = Scratch, pu_authority = WorkAuthority ''w3'',
       pu_path = ''notes/ch 1'', pu_normalized = uri\<rparr>)"
  by (rule spelled_address_reads_back; code_simp)

theorem accepted_address_is_well_formed_witness:
  "parse_context_uri_with context_schemes Manuscript ''scratch://@c19/./ideas//x/'' =
     Inr (Inr \<lparr>pu_scheme = Scratch, pu_authority = LineageAuthority ''c19'', pu_path = ''ideas/x'',
       pu_normalized = ''scratch://@c19/ideas/x''\<rparr>) \<and>
   parse_context_uri ''scratch://@c19/ideas/x'' =
     Inr (Inr \<lparr>pu_scheme = Scratch, pu_authority = LineageAuthority ''c19'', pu_path = ''ideas/x'',
       pu_normalized = ''scratch://@c19/ideas/x''\<rparr>)"
proof -
  have a: "parse_context_uri_with context_schemes Manuscript ''scratch://@c19/./ideas//x/'' =
     Inr (Inr \<lparr>pu_scheme = Scratch, pu_authority = LineageAuthority ''c19'', pu_path = ''ideas/x'',
       pu_normalized = ''scratch://@c19/ideas/x''\<rparr>)" by code_simp
  have "path_on_one_line ''ideas/x''" by code_simp
  then show ?thesis
    using a accepted_address_is_well_formed [of context_schemes Manuscript "''scratch://@c19/./ideas//x/''"]
    by simp
qed

end
