(* ===== verification/Catalog_Installed.thy ===== *)
theory Catalog_Installed
  imports Catalog_Installation Address_Roundtrip Resource_State Folder_Planning
begin

text \<open>
  What one catalog installation writes (\<^verbatim>\<open>catalog-installation.ts\<close>,
  \<^verbatim>\<open>folder-catalog-installation.ts\<close>): every write over a record in order passes the store's
  validators, nothing is deleted, and no record goes back to an older observation.
\<close>

section \<open>Locations have an owner the scheme takes\<close>

definition scope_named :: "catalog_scope \<Rightarrow> bool" where
  "scope_named scope \<longleftrightarrow>
     (case scope of WorkScope _ w \<Rightarrow> w \<noteq> [] | LineageScope _ t \<Rightarrow> t \<noteq> [] | ChatScope _ c \<Rightarrow> c \<noteq> []
      | _ \<Rightarrow> True)"

lemma handle_refs_nonempty: "authority_handle a = Some h \<Longrightarrow> authority_fits s a \<Longrightarrow> h \<noteq> []"
  using fits_named(1) parse_handle_Some(3) handle_chars(1) by blast

lemma scoped_location_owned:
  assumes "location_in_scope scope parsed name = Inr l" and "scope_named scope"
    and fits: "authority_fits (pu_scheme parsed) (pu_authority parsed)"
  shows "\<exists>a. resource_context_authority (loc_scheme l) (loc_owner l) = Inr a"
  using assms handle_refs_nonempty [OF _ fits]
  by (cases scope; cases "pu_authority parsed")
     (auto simp: location_in_scope_def location_at_def scope_named_def resource_context_authority_def
        is_owned_context_scheme_def resource_lineage_owner_def resource_chat_owner_def Let_def
        split: if_splits option.splits)

lemma entry_location_owned:
  assumes "catalog_entry_location view entry = Inr l" and "scope_named (cv_scope view)"
  shows "\<exists>a. resource_context_authority (loc_scheme l) (loc_owner l) = Inr a"
proof -
  obtain parsed where p: "parse_context_uri (chd_uri entry) = Inr (Inr parsed)"
    and l: "location_in_scope (cv_scope view) parsed (chd_name entry) = Inr l"
  proof (cases "parse_context_uri (chd_uri entry)")
    case (Inr answer)
    then show ?thesis
      using assms(1) that
      by (cases answer) (auto simp: catalog_entry_location_def split: option.split_asm catalog_entry.split_asm)
  qed (use assms(1) in \<open>auto simp: catalog_entry_location_def split: option.split_asm catalog_entry.split_asm\<close>)
  have "authority_fits (pu_scheme parsed) (pu_authority parsed)"
    using sound_parse [of context_schemes Manuscript "chd_uri entry"] p
    by (auto simp: sound_answer_def address_ok_def parse_context_uri_def)
  then show ?thesis by (rule scoped_location_owned [OF l assms(2)])
qed

section \<open>Writes over a document\<close>

lemma unchanged_journal_accepted:
  assumes o: "in_order r operation" and s: "same_identity r n" and i: "rec_intents n = rec_intents r"
    and rev: "res_revision (rec_resource n) = res_revision (rec_resource r) + 1"
    and copied: "res_copiedBy (rec_resource n) = res_copiedBy (rec_resource r)"
    and refresh: "ob_canonicalRefresh (res_obligations (rec_resource n)) \<in>
      {None, ob_canonicalRefresh (res_obligations (rec_resource r))}"
    and c: "check_hold (Some r) n = Inr ()" "check_terminal (Some r) n = Inr ()"
      "check_reservation (Some r) n = Inr ()" "check_eligibility (Some r) n = Inr ()"
      "check_adoption (Some r) n = Inr ()" "check_obligations_kept (Some r) n = Inr ()"
  shows "validate_resource_record_update (Some r) n operation = Inr ()"
proof -
  have "check_record_identity (Some r) n = Inr ()"
    using in_order_checks(7) [OF o] i rev s
    by (auto simp: check_record_identity_def same_identity_def Let_def)
  moreover have "check_refresh_witness n operation = Inr ()"
    using in_order_checks(6) [OF o] i copied refresh
    by (auto simp: check_refresh_witness_def split: option.splits)
  moreover note journal_kept_accepted [OF in_order_rests [OF o] s i]
  ultimately show ?thesis using c by (simp add: validate_resource_record_update_def)
qed

text \<open>An observation of a document the server holds: its place, its classification and its barrier.\<close>

definition observes :: "resource_descriptor \<Rightarrow> resource_descriptor \<Rightarrow> bool" where
  "observes old res \<longleftrightarrow>
     res_handle res = res_handle old \<and> res_revision res = res_revision old + 1 \<and>
     res_documentId res = res_documentId old \<and> res_identityRevision res = res_identityRevision old \<and>
     res_content res = res_content old \<and> res_serverHold res = res_serverHold old \<and>
     res_copiedBy res = res_copiedBy old \<and> res_lifecycle res = res_lifecycle old \<and>
     res_aliases res = res_aliases old \<and>
     (res_canonical res = None \<longrightarrow> res_canonical old = None) \<and>
     (res_obligations res = res_obligations old \<or>
      res_obligations res = (res_obligations old)\<lparr>ob_canonicalRefresh := None\<rparr>)"

lemma observes_accepted:
  assumes o: "in_order r operation" and ack: "is_acknowledged (res_lifecycle (rec_resource r))"
    and obs: "observes (rec_resource r) res"
  shows "validate_resource_record_update (Some r) \<lparr>rec_resource = res, rec_intents = rec_intents r\<rparr>
      operation = Inr ()"
proof -
  let ?n = "\<lparr>rec_resource = res, rec_intents = rec_intents r\<rparr>"
  note f = in_order_facts [OF o]
  have held: "res_serverHold (rec_resource r) = HeldHold" using f(1) ack by blast
  have life: "res_lifecycle (rec_resource r) \<noteq> LocalLife" "\<not> is_terminal (res_lifecycle (rec_resource r))"
    using ack by (cases "res_lifecycle (rec_resource r)"; simp)+
  have unreserved: "\<not> content_reserved (res_content (rec_resource r))" using f(3) life(1) by blast
  have ob: "ob_createEligibility (res_obligations res) = ob_createEligibility (res_obligations (rec_resource r))"
    "ob_sessionAdoption (res_obligations res) = ob_sessionAdoption (res_obligations (rec_resource r))"
    "ob_canonicalRefresh (res_obligations res) \<in> {None, ob_canonicalRefresh (res_obligations (rec_resource r))}"
    using obs by (auto simp: observes_def)
  show ?thesis
  proof (rule unchanged_journal_accepted [OF o])
    show "check_hold (Some r) ?n = Inr ()"
      using obs held by (simp add: observes_def check_hold_def)
    show "check_terminal (Some r) ?n = Inr ()" by (rule not_terminal_check [OF life(2)])
    show "check_reservation (Some r) ?n = Inr ()"
      using obs unreserved by (simp add: observes_def check_reservation_def)
    show "check_eligibility (Some r) ?n = Inr ()"
      using obs ob life(1) f(4,6) by (auto simp: observes_def check_eligibility_def executable_create_def Let_def split: option.splits)
    show "check_adoption (Some r) ?n = Inr ()"
      using obs ob in_order_checks(5) [OF o]
      by (auto simp: observes_def check_adoption_def restored_def bumped_def Let_def split: option.splits)
    show "check_obligations_kept (Some r) ?n = Inr ()"
      using obs ob life(1) by (auto simp: observes_def check_obligations_kept_def)
  qed (use obs ob in \<open>auto simp: observes_def same_identity_def\<close>)
qed

section \<open>Observing, reviving, discovering\<close>

text \<open>The canonical state stays, or comes from a strictly newer observation.\<close>

definition not_older :: "resource_descriptor \<Rightarrow> resource_descriptor \<Rightarrow> bool" where
  "not_older old res \<longleftrightarrow>
     res_canonical res = res_canonical old \<and> res_observationVersion res = res_observationVersion old \<or>
     (\<exists>v. res_observationVersion res = Some v \<and>
        newer_canonical_observation v (res_observationVersion old) = Inr True)"

lemma refresh_observes:
  assumes "install_canonical_refresh r k av = Inr (Some w)"
  shows "\<exists>res. w = resource_update r res (rec_intents r) \<and> observes (rec_resource r) res \<and>
           not_older (rec_resource r) res"
proof -
  obtain obligation where b: "ob_canonicalRefresh (res_obligations (rec_resource r)) = Some obligation"
    using assms by (auto simp: install_canonical_refresh_def Let_def split: option.splits)
  then obtain obs where o: "canonical_refresh_observation (av_observationVersion av)
      (res_observationVersion (rec_resource r)) (cr_observationVersion obligation) = Inr obs"
    using assms by (cases "canonical_refresh_observation (av_observationVersion av)
      (res_observationVersion (rec_resource r)) (cr_observationVersion obligation)")
      (auto simp: install_canonical_refresh_def Let_def split: if_splits)
  have n: "newer obs \<Longrightarrow> newer_canonical_observation (av_observationVersion av)
      (res_observationVersion (rec_resource r)) = Inr True"
    using o by (auto simp: canonical_refresh_observation_def split: if_splits option.splits)
  show ?thesis
    using assms b o n
    by (auto simp: install_canonical_refresh_def Let_def bumped_def observes_def not_older_def split: if_splits)
qed

lemma observed_write_shape:
  assumes w: "observed_resource_write fence obs r = Inr (Some w)"
    and ack: "is_acknowledged (res_lifecycle (rec_resource r))"
  shows "\<exists>res. w = resource_update r res (rec_intents r) \<and> observes (rec_resource r) res \<and>
           not_older (rec_resource r) res"
proof -
  obtain g where life: "res_lifecycle (rec_resource r) = Acknowledged g"
    using ack by (cases "res_lifecycle (rec_resource r)") auto
  obtain isNewer where n: "newer_canonical_observation (fob_observationVersion obs)
        (res_observationVersion (rec_resource r)) = Inr isNewer"
    using w by (auto simp: observed_resource_write_def life Let_def)
  obtain observed where f: "map_of (fence_resources fence) (res_handle (rec_resource r)) = Some observed"
    and ok: "\<not> fence_violated observed (rec_resource r)"
    using w n by (auto simp: observed_resource_write_def life Let_def split: option.split_asm if_splits)
  obtain refreshed where rf: "refreshed_by obs r = Inr refreshed"
    and out: "(if isNewer then Some (newer_resource_write obs r refreshed) else refreshed) = Some w"
    using w n f ok by (auto simp: observed_resource_write_def life Let_def split del: if_split)
  have shape: "\<exists>res. x = resource_update r res (rec_intents r) \<and> observes (rec_resource r) res \<and>
      not_older (rec_resource r) res" if "refreshed = Some x" for x
    using refresh_observes rf that by (auto simp: refreshed_by_def split: option.splits)
  show ?thesis
  proof (cases isNewer)
    case False
    then show ?thesis using shape out by simp
  next
    case True
    then show ?thesis
      using out n shape
      by (cases refreshed)
        (auto simp: newer_resource_write_def placed_by_def observes_def not_older_def resource_update_def Let_def)
  qed
qed

lemma revived_write:
  assumes o: "in_order r operation" and w: "revived_resource_write fence obs r = Inr (Some w)"
  shows "\<exists>res t d. w = resource_update r res (rec_intents r) \<and> res_lifecycle res = Acknowledged None \<and>
     res_lifecycle (rec_resource r) = Terminal t \<and> term_deletionVersion t = Some d \<and>
     res_observationVersion res = Some (fob_observationVersion obs) \<and>
     newer_canonical_observation (fob_observationVersion obs) (Some d) = Inr True \<and>
     validate_resource_record_update (Some r) \<lparr>rec_resource = res, rec_intents = rec_intents r\<rparr> operation = Inr ()"
proof -
  obtain t d where life: "res_lifecycle (rec_resource r) = Terminal t"
    and d: "term_deletionVersion t = Some d" and clean: "ob_cleanup (res_obligations (rec_resource r)) = None"
    and n: "newer_canonical_observation (fob_observationVersion obs) (Some d) = Inr True"
    and out: "w = resource_update r ((placed_by obs (bumped (rec_resource r)))\<lparr>
                          res_content := Unacquired, res_serverHold := HeldHold,
                          res_lifecycle := Acknowledged None,
                          res_revivedFrom := Some \<lparr>rf_generation = term_generation t,
                            rf_transitionId = term_transitionId t\<rparr>,
                          res_obligations := no_obligations\<rparr>) (rec_intents r)"
    (is "w = resource_update r ?res _")
    using w by (auto simp: revived_resource_write_def Let_def
        split: resource_lifecycle.split_asm option.split_asm if_splits)
  let ?n = "\<lparr>rec_resource = ?res, rec_intents = rec_intents r\<rparr>"
  have unreserved: "\<not> content_reserved (res_content (rec_resource r))"
    using in_order_facts(3) [OF o] life by auto
  have "validate_resource_record_update (Some r) ?n operation = Inr ()"
  proof (rule unchanged_journal_accepted [OF o])
    show "check_hold (Some r) ?n = Inr ()"
      by (simp add: check_hold_def placed_by_def bumped_def)
    show "check_terminal (Some r) ?n = Inr ()"
      using n clean by (simp add: check_terminal_def life restored_from_def d placed_by_def bumped_def)
    show "check_reservation (Some r) ?n = Inr ()"
      using unreserved by (simp add: check_reservation_def content_reserved_def)
    show "check_eligibility (Some r) ?n = Inr ()"
      by (auto simp: check_eligibility_def executable_create_def no_obligations_def Let_def split: option.split)
    show "check_adoption (Some r) ?n = Inr ()" by (simp add: check_adoption_def no_obligations_def)
    show "check_obligations_kept (Some r) ?n = Inr ()"
      by (simp add: check_obligations_kept_def no_obligations_def)
  qed (simp_all add: same_identity_def placed_by_def bumped_def no_obligations_def)
  then show ?thesis
    using life d n out by (intro exI [of _ ?res] exI [of _ t] exI [of _ d]) (simp add: placed_by_def)
qed

lemma discovered_accepted:
  "validate_resource_record_update None (rw_next (discovered_resource entry location)) operation = Inr ()"
  by (simp add: discovered_resource_def validate_resource_record_update_def check_record_identity_def
      check_hold_def check_terminal_def check_reservation_def content_reserved_def check_eligibility_def
      executable_create_def check_adoption_def check_refresh_witness_def check_obligations_kept_def
      no_obligations_def record_journal_input_def validate_namespace_journal_def previous_intents_def Let_def)

section \<open>The writes of one installation\<close>

text \<open>Every write is a join of a reservation, the discovery of a document, or an observation of a record.\<close>

inductive installs ::
  "resource_record list \<Rightarrow> observation_fence \<Rightarrow> int \<Rightarrow> resource_write \<Rightarrow> bool"
  for records fence now where
  joins: "r \<in> set records \<Longrightarrow> join_reservation r target now = Some w \<Longrightarrow> installs records fence now w"
| discovers: "installs records fence now (discovered_resource entry location)"
| observed: "r \<in> set records \<Longrightarrow> res_documentId (rec_resource r) = cfi_entryId entry \<Longrightarrow>
    observed_resource_write fence (file_observed entry location) r = Inr (Some w) \<Longrightarrow>
    installs records fence now w"

lemma joined_reservation_from:
  "joined_reservation records current target now ks = Some w \<Longrightarrow>
     \<exists>r \<in> set records. join_reservation r target now = Some w"
  by (induction ks) (auto split: option.splits if_splits)

lemma joined_identity:
  assumes "join_reservation r target now = Some w"
  shows "res_documentId (rec_resource (rw_next w)) = jt_documentId target"
    and "\<not> is_terminal (res_lifecycle (rec_resource (rw_next w)))"
  using assms
  by (auto simp: join_reservation_def joined_resource_def resource_update_def Let_def split: option.splits if_splits)

text \<open>
  The index holds the records read under their current id, and what this installation wrote under
  the id of an entry already passed.
\<close>

definition index_ok :: "resource_record list \<Rightarrow> string set \<Rightarrow> install_state \<Rightarrow> bool" where
  "index_ok records passed st \<longleftrightarrow>
     (\<forall>k r. map_of (ins_current st) k = Some r \<longrightarrow>
        res_documentId (rec_resource r) = k \<and>
        (r \<in> set records \<or> k \<in> passed \<and> r \<in> rw_next ` set (ins_writes st)))"

lemma index_okD:
  "index_ok records passed st \<Longrightarrow> map_of (ins_current st) k = Some r \<Longrightarrow>
     res_documentId (rec_resource r) = k \<and>
     (r \<in> set records \<or> k \<in> passed \<and> r \<in> rw_next ` set (ins_writes st))"
  unfolding index_ok_def by blast

lemma index_ok_more:
  assumes "index_ok records passed st" and "ins_current st' = ins_current st"
    and "set (ins_writes st) \<subseteq> set (ins_writes st')"
  shows "index_ok records (insert k passed) st'"
  using assms(3) index_okD [OF assms(1)] unfolding index_ok_def assms(2) by blast

lemma index_ok_wrote:
  assumes "index_ok records passed st" and "ins_current st' = assoc_set k (rw_next w) (ins_current st)"
    and "ins_writes st' = ins_writes st @ [w]" and "res_documentId (rec_resource (rw_next w)) = k"
  shows "index_ok records (insert k passed) st'"
  unfolding index_ok_def assms(2,3) using index_okD [OF assms(1)] assms(4) by (auto split: if_splits)

lemma install_file_writes:
  assumes run: "install_file records view fence now entry st = Inr st'"
    and ok: "index_ok records passed st" and new: "cfi_entryId entry \<notin> passed"
    and writes: "\<forall>w \<in> set (ins_writes st). installs records fence now w"
  shows "index_ok records (insert (cfi_entryId entry) passed) st' \<and>
     (\<forall>w \<in> set (ins_writes st'). installs records fence now w) \<and>
     insert (cfi_entryId entry) (dom (map_of (ins_current st))) \<subseteq> dom (map_of (ins_current st'))"
proof -
  obtain location where l: "catalog_entry_location view (file_child entry) = Inr location"
    using run by (auto simp: install_file_def)
  show ?thesis
  proof (cases "map_of (ins_current st) (cfi_entryId entry)")
    case (Some current)
    then have r: "current \<in> set records" "res_documentId (rec_resource current) = cfi_entryId entry"
      using index_okD [OF ok Some] new by blast+
    obtain answer where w: "observed_resource_write fence (file_observed entry location) current = Inr answer"
      and st': "st' = (case answer of None \<Rightarrow> st | Some w \<Rightarrow> st\<lparr>ins_writes := ins_writes st @ [w]\<rparr>)"
      using run by (auto simp: install_file_def l Some)
    have "index_ok records (insert (cfi_entryId entry) passed) st'"
      by (rule index_ok_more [OF ok]) (auto simp: st' split: option.split)
    then show ?thesis
      using writes Some installs.observed [OF r] w by (cases answer) (auto simp: st')
  next
    case None
    show ?thesis
    proof (cases "joined_reservation records (ins_current st) (joined_target entry location) now
        (case cfi_joinedFrom entry of None \<Rightarrow> [] | Some ids \<Rightarrow> ids)")
      case (Some w)
      then obtain r where r: "r \<in> set records" "join_reservation r (joined_target entry location) now = Some w"
        using joined_reservation_from by blast
      have "res_documentId (rec_resource (rw_next w)) = cfi_entryId entry"
        using joined_identity(1) [OF r(2)] by (simp add: joined_target_def)
      then have "index_ok records (insert (cfi_entryId entry) passed) (wrote (cfi_entryId entry) w st)"
        by (intro index_ok_wrote [OF ok]) (simp_all add: wrote_def)
      then show ?thesis
        using run writes installs.joins [OF r] by (auto simp: install_file_def l None Some wrote_def)
    next
      case no_join: None
      let ?w = "discovered_resource entry location"
      have "index_ok records (insert (cfi_entryId entry) passed) st'"
        using run by (intro index_ok_wrote [OF ok, of _ _ ?w])
          (auto simp: install_file_def l None no_join wrote_def Let_def discovered_resource_def)
      then show ?thesis
        using run writes installs.discovers by (auto simp: install_file_def l None no_join wrote_def Let_def)
    qed
  qed
qed

lemma install_files_writes:
  assumes "install_files records view fence now entries st = Inr st'"
    and "index_ok records passed st" and "distinct (map cfi_entryId entries)"
    and "cfi_entryId ` set entries \<inter> passed = {}"
    and "\<forall>w \<in> set (ins_writes st). installs records fence now w"
  shows "(\<exists>passed'. index_ok records passed' st') \<and> (\<forall>w \<in> set (ins_writes st'). installs records fence now w) \<and>
     cfi_entryId ` set entries \<union> dom (map_of (ins_current st)) \<subseteq> dom (map_of (ins_current st'))"
  using assms
proof (induction entries arbitrary: st passed)
  case (Cons e es)
  obtain st1 where s1: "install_file records view fence now e st = Inr st1"
    and rest: "install_files records view fence now es st1 = Inr st'" using Cons.prems(1) by auto
  have "cfi_entryId e \<notin> passed" using Cons.prems(4) by auto
  note f = install_file_writes [OF s1 Cons.prems(2) this Cons.prems(5)]
  have "cfi_entryId ` set es \<inter> insert (cfi_entryId e) passed = {}" using Cons.prems(3,4) by auto
  moreover have "distinct (map cfi_entryId es)" using Cons.prems(3) by simp
  ultimately have ih: "(\<exists>passed'. index_ok records passed' st') \<and>
      (\<forall>w \<in> set (ins_writes st'). installs records fence now w) \<and>
      cfi_entryId ` set es \<union> dom (map_of (ins_current st1)) \<subseteq> dom (map_of (ins_current st'))"
    using Cons.IH [OF rest conjunct1 [OF f] _ _ conjunct1 [OF conjunct2 [OF f]]] by simp
  have "cfi_entryId ` set (e # es) \<union> dom (map_of (ins_current st)) \<subseteq>
      cfi_entryId ` set es \<union> dom (map_of (ins_current st1))"
    using conjunct2 [OF conjunct2 [OF f]] by auto
  with ih show ?case by (meson order_trans)
qed auto

lemma index_from:
  "index_records_from rs current handles = Inr (current', handles') \<Longrightarrow>
     map_of current' k = Some r \<Longrightarrow>
     map_of current k = Some r \<or> r \<in> set rs \<and> res_documentId (rec_resource r) = k"
proof (induction rs arbitrary: current handles)
  case (Cons a rs)
  have run: "index_records_from rs (assoc_set (res_documentId (rec_resource a)) a current)
      (assoc_set (res_handle (rec_resource a)) a handles) = Inr (current', handles')"
    using Cons.prems(1) by simp
  from Cons.IH [OF run Cons.prems(2)] show ?case by (auto split: if_splits)
qed simp

lemma index_records_ok:
  assumes "index_records records = Inr (current, handles)"
  shows "index_ok records {} \<lparr>ins_current = current, ins_handles = handles, ins_writes = []\<rparr>"
  using index_from [OF assms [unfolded index_records_def]] by (auto simp: index_ok_def)

lemma installation_writes:
  assumes "plan_catalog_installation collate projectId records view previous fence now = Inr (checkpoint, writes)"
    and "distinct (map cfi_entryId (catalog_files view))"
  shows "w \<in> set writes \<Longrightarrow> installs records fence now w"
    and "f \<in> set (catalog_files view) \<Longrightarrow>
      \<exists>r \<in> set records \<union> rw_next ` set writes. res_documentId (rec_resource r) = cfi_entryId f"
proof -
  obtain current handles st where i: "index_records records = Inr (current, handles)"
    and run: "install_files records view fence now (catalog_files view)
        \<lparr>ins_current = current, ins_handles = handles, ins_writes = []\<rparr> = Inr st" and ws: "writes = ins_writes st"
    using assms(1) by (auto simp: plan_catalog_installation_def)
  note all = install_files_writes [OF run index_records_ok [OF i] assms(2)]
  show "installs records fence now w" if "w \<in> set writes"
    using all that by (simp add: ws)
  show "\<exists>r \<in> set records \<union> rw_next ` set writes. res_documentId (rec_resource r) = cfi_entryId f"
    if "f \<in> set (catalog_files view)"
  proof -
    have "cfi_entryId f \<in> dom (map_of (ins_current st))" using all that by auto
    then obtain r passed where "map_of (ins_current st) (cfi_entryId f) = Some r" "index_ok records passed st"
      using all by auto
    from index_okD [OF this(2,1)] show ?thesis by (auto simp: ws)
  qed
qed

section \<open>Properties of documents\<close>

text \<open>C34: Every write an installation plans over documents in order is one the store accepts: a
  discovered document is a valid new record, an observed or restored one is an update over the
  revision read that passes the whole record validator; the only other writes are joins of a
  reservation.\<close>

theorem installation_passes_the_validator:
  assumes "plan_catalog_installation collate projectId records view previous fence now = Inr (checkpoint, writes)"
    and "distinct (map cfi_entryId (catalog_files view))"
    and "\<And>r. r \<in> set records \<Longrightarrow> in_order r (operation r)"
    and "w \<in> set writes"
  shows "(\<exists>r \<in> set records. \<exists>target. join_reservation r target now = Some w) \<or>
     rw_expectedRevision w = None \<and> validate_resource_record_update None (rw_next w) None = Inr () \<or>
     (\<exists>r \<in> set records. rw_expectedRevision w = Some (res_revision (rec_resource r)) \<and>
        validate_resource_record_update (Some r) (rw_next w) (operation r) = Inr ())"
  using installation_writes(1) [OF assms(1,2,4)]
proof cases
  case (observed r entry location)
  note o = assms(3) [OF observed(1)]
  show ?thesis
  proof (cases "res_lifecycle (rec_resource r)")
    case LocalLife
    then show ?thesis using observed(3) by (simp add: observed_resource_write_def)
  next
    case (Acknowledged g)
    then have ack: "is_acknowledged (res_lifecycle (rec_resource r))" by simp
    from observed_write_shape [OF observed(3) ack] observes_accepted [OF o ack] show ?thesis
      using observed(1) by (auto simp: resource_update_def)
  next
    case (Terminal t)
    then have "revived_resource_write fence (file_observed entry location) r = Inr (Some w)"
      using observed(3) by (simp add: observed_resource_write_def)
    from revived_write [OF o this] show ?thesis
      using observed(1) by (auto simp: resource_update_def)
  qed
qed (use discovered_accepted in \<open>auto simp: discovered_resource_def\<close>)

text \<open>What a write makes of the record it replaces, if any.\<close>

definition keeps_forward :: "resource_record list \<Rightarrow> resource_write \<Rightarrow> bool" where
  "keeps_forward records w \<longleftrightarrow>
     (\<exists>r \<in> set records. w = resource_update r (rec_resource (rw_next w)) (rec_intents r) \<and>
        (case res_lifecycle (rec_resource r) of
           Terminal t \<Rightarrow> \<exists>d v. term_deletionVersion t = Some d \<and>
             res_observationVersion (rec_resource (rw_next w)) = Some v \<and>
             newer_canonical_observation v (Some d) = Inr True
         | _ \<Rightarrow> not_older (rec_resource r) (rec_resource (rw_next w))))"

text \<open>C35: Installing a catalog over records in order, from a view that lists each entry id once, loses
  nothing. No write of an installation deletes a document; a write
  over a known document that is not a join leaves its commands alone and moves its canonical state
  only for a strictly newer observation, a deleted one only for one newer than its deletion; and
  every file the view lists has a record afterwards.\<close>

theorem installation_loses_nothing:
  assumes "plan_catalog_installation collate projectId records view previous fence now = Inr (checkpoint, writes)"
    and "distinct (map cfi_entryId (catalog_files view))"
    and "\<And>r. r \<in> set records \<Longrightarrow> in_order r (operation r)"
  shows "(\<forall>w \<in> set writes. \<not> is_terminal (res_lifecycle (rec_resource (rw_next w))) \<and>
       ((\<exists>r \<in> set records. \<exists>target. join_reservation r target now = Some w) \<or>
        rw_expectedRevision w = None \<or> keeps_forward records w)) \<and>
     (\<forall>f \<in> set (catalog_files view). \<exists>r \<in> set records \<union> rw_next ` set writes.
        res_documentId (rec_resource r) = cfi_entryId f)"
proof -
  have "\<not> is_terminal (res_lifecycle (rec_resource (rw_next w))) \<and>
       ((\<exists>r \<in> set records. \<exists>target. join_reservation r target now = Some w) \<or>
        rw_expectedRevision w = None \<or> keeps_forward records w)" if "w \<in> set writes" for w
    using installation_writes(1) [OF assms(1,2) that]
  proof cases
    case (joins r target)
    then show ?thesis using joined_identity(2) by blast
  next
    case (discovers entry location)
    then show ?thesis by (simp add: discovered_resource_def)
  next
    case (observed r entry location)
    note o = assms(3) [OF observed(1)]
    show ?thesis
    proof (cases "res_lifecycle (rec_resource r)")
      case LocalLife
      then show ?thesis using observed(3) by (simp add: observed_resource_write_def)
    next
      case (Acknowledged g)
      then obtain res where res: "w = resource_update r res (rec_intents r)" "observes (rec_resource r) res"
        "not_older (rec_resource r) res" using observed_write_shape [OF observed(3)] by auto
      then have "keeps_forward records w"
        using observed(1) Acknowledged by (auto simp: keeps_forward_def resource_update_def)
      then show ?thesis using res Acknowledged by (simp add: resource_update_def observes_def)
    next
      case (Terminal t)
      then have "revived_resource_write fence (file_observed entry location) r = Inr (Some w)"
        using observed(3) by (simp add: observed_resource_write_def)
      from revived_write [OF o this] Terminal obtain res d where res: "w = resource_update r res (rec_intents r)"
        "res_lifecycle res = Acknowledged None" "term_deletionVersion t = Some d"
        "res_observationVersion res = Some (fob_observationVersion (file_observed entry location))"
        "newer_canonical_observation (fob_observationVersion (file_observed entry location)) (Some d) = Inr True"
        by auto
      then have "keeps_forward records w"
        using observed(1) Terminal by (auto simp: keeps_forward_def resource_update_def)
      then show ?thesis using res by (simp add: resource_update_def)
    qed
  qed
  then show ?thesis using installation_writes(2) [OF assms(1,2)] by blast
qed

section \<open>Properties of folders\<close>

lemma discovered_folder_accepted:
  assumes "catalog_entry_location view (folder_child f) = Inr location" and "scope_named (cv_scope view)"
  shows "validate_folder_namespace_update None (fw_next (discovered_folder projectId f location)) operation = Inr ()"
  using entry_location_owned [OF assms]
  by (auto simp: discovered_folder_def validate_folder_namespace_update_def check_folder_identity_def
      check_folder_commands_def check_folder_terminal_def check_local_deletion_def check_folder_hold_def
      check_folder_place_def check_canonical_authority_def folder_journal_input_def
      validate_namespace_journal_def previous_intents_def)

lemma newer_folder_accepted:
  assumes rests: "folder_rests op r" and canonical: "fol_canonical r \<noteq> None"
    and "catalog_entry_location view (folder_child f) = Inr location" and "scope_named (cv_scope view)"
    and newer: "newer_canonical_observation (cfo_observationVersion f) (fol_observationVersion r) = Inr True"
  shows "validate_folder_namespace_update (Some r) (fw_next (newer_folder_write f location r)) op = Inr ()"
proof -
  let ?n = "fw_next (newer_folder_write f location r)"
  obtain auth where auth: "resource_context_authority (loc_scheme location) (loc_owner location) = Inr auth"
    using entry_location_owned [OF assms(3,4)] by blast
  have ok: "folder_holds_ok r" "folder_place_ok op r" using rests by (simp_all add: folder_rests_iff)
  have held: "fol_serverHold r = HeldHold" using ok(1) canonical by (simp add: folder_holds_ok_def)
  have "folder_place_ok op ?n"
    using ok(2) canonical auth
    by (auto simp: newer_folder_write_def folder_update_def folder_place_ok_def check_canonical_authority_def
        split: option.splits)
  then have place: "check_folder_place (Some r) ?n op = Inr ()"
    using canonical by (auto simp: check_folder_place_iff newer_folder_write_def folder_update_def)
  have same: "same_folder r ?n" by (simp add: newer_folder_write_def folder_update_def same_folder_def)
  have i: "fol_intents ?n = fol_intents r" by (simp add: newer_folder_write_def folder_update_def)
  have j: "validate_namespace_journal (folder_journal_input (Some r) ?n) = Inr ()"
    using same i by (intro same_intents_accepted [OF rests]) (auto simp: same_folder_def)
  have "check_folder_terminal (Some r) ?n = Inr ()"
    using newer by (simp add: check_folder_terminal_def newer_folder_write_def folder_update_def)
  moreover have "folder_holds_ok ?n" "fol_serverHold ?n = HeldHold"
    using held by (simp_all add: folder_holds_ok_def newer_folder_write_def folder_update_def)
  moreover have "intents_from r ?n" by (rule intents_from_map [where f = "\<lambda>i. i"]) (simp_all add: i)
  ultimately show ?thesis using folder_step_accepted [OF rests same _ j _ _ _ place] by simp
qed

lemma discovered_folders_from:
  "discover_folders projectId view known es = Inr ws \<Longrightarrow> w \<in> set ws \<Longrightarrow>
     \<exists>f location. FolderEntry f \<in> set es \<and> \<not> cfo_navigationOnly f \<and> cfo_entryId f \<notin> known \<and>
       catalog_entry_location view (folder_child f) = Inr location \<and> w = discovered_folder projectId f location"
proof (induction projectId view known es arbitrary: ws rule: discover_folders.induct)
  case (2 projectId view known f es)
  then show ?case by (auto split: if_splits) blast+
qed (auto)

lemma observed_folders_from:
  "observe_folders projectId view fence rs = Inr ws \<Longrightarrow> w \<in> set ws \<Longrightarrow>
     \<exists>r \<in> set rs. observed_folder_write projectId view fence r = Inr (Some w)"
proof (induction rs arbitrary: ws)
  case (Cons r rs)
  then obtain v vs where v: "observed_folder_write projectId view fence r = Inr v"
    "observe_folders projectId view fence rs = Inr vs" "ws = (case v of None \<Rightarrow> [] | Some x \<Rightarrow> [x]) @ vs" by auto
  with Cons show ?case by (cases v) auto
qed simp

lemma observed_folder_write_cases:
  assumes w: "observed_folder_write projectId view fence r = Inr (Some w)"
  shows "fol_canonical r \<noteq> None \<and> ((\<exists>k av. install_folder_canonical_refresh r k av = Inr (Some w)) \<or>
     (\<exists>f location. catalog_entry_location view (folder_child f) = Inr location \<and>
        newer_canonical_observation (cfo_observationVersion f) (fol_observationVersion r) = Inr True \<and>
        w = newer_folder_write f location r))"
proof -
  obtain f observed where f: "entries_get (fol_folderId r) (cv_entries view) = Some (FolderEntry f)"
    and obs: "map_of (fence_folders fence) (fol_handle r) = Some observed"
    and c: "fol_canonical r \<noteq> None"
    and rest: "and_then (catalog_entry_location view (folder_child f)) (\<lambda>location.
              case fol_canonicalRefresh r of
                Some barrier \<Rightarrow>
                  if of_refreshOperationId observed \<noteq> Some (fr_operationId barrier) then Inr None
                  else install_folder_canonical_refresh r (fr_operationId barrier)
                         (folder_available f location)
              | None \<Rightarrow>
                  and_then (newer_canonical_observation (cfo_observationVersion f)
                      (fol_observationVersion r)) (\<lambda>isNewer.
                    if \<not> isNewer \<or> \<not> same_resource_location (of_canonical observed) (fol_canonical r)
                    then Inr None
                    else Inr (Some (newer_folder_write f location r)))) = Inr (Some w)"
    using w unfolding observed_folder_write_def
    by (auto split: if_split_asm option.split_asm catalog_entry.split_asm simp del: and_then_Inr_iff)
  from rest obtain location where l: "catalog_entry_location view (folder_child f) = Inr location" by auto
  show ?thesis
  proof (cases "fol_canonicalRefresh r")
    case None
    then show ?thesis using rest l c by (auto split: if_split_asm)
  next
    case (Some barrier)
    then show ?thesis using rest l c by (auto split: if_split_asm)
  qed
qed

text \<open>Every folder write an installation plans is one the store accepts: a folder the view shows
  for the first time is a valid new record, and an observation of a known folder in order is an
  update over the revision read that passes the whole folder validator and leaves its commands
  alone.\<close>

theorem folder_installation_passes_the_validator:
  assumes "plan_folder_catalog_installation projectId folders view fence = Inr writes"
    and "scope_named (cv_scope view)"
    and "\<And>r. r \<in> set folders \<Longrightarrow> folder_rests (operation r) r"
    and "w \<in> set writes"
  shows "fw_expectedRevision w = None \<and> fol_folderId (fw_next w) \<notin> fol_folderId ` set folders \<and>
       validate_folder_namespace_update None (fw_next w) None = Inr () \<or>
     (\<exists>r \<in> set folders. fw_expectedRevision w = Some (fol_revision r) \<and> fol_intents (fw_next w) = fol_intents r \<and>
        validate_folder_namespace_update (Some r) (fw_next w) (operation r) = Inr ())"
proof -
  obtain ws vs where d: "discover_folders projectId view (fol_folderId ` set folders) (cv_entries view) = Inr ws"
    and v: "observe_folders projectId view fence folders = Inr vs" and "writes = ws @ vs"
    using assms(1) by (auto simp: plan_folder_catalog_installation_def)
  then consider "w \<in> set ws" | "w \<in> set vs" using assms(4) by auto
  then show ?thesis
  proof cases
    case 1
    then show ?thesis
      using discovered_folders_from [OF d 1] discovered_folder_accepted [OF _ assms(2)]
      by (auto simp: discovered_folder_def)
  next
    case 2
    then obtain r where r: "r \<in> set folders" "observed_folder_write projectId view fence r = Inr (Some w)"
      using observed_folders_from [OF v] by blast
    note rests = assms(3) [OF r(1)]
    from observed_folder_write_cases [OF r(2)] show ?thesis
    proof (elim conjE disjE exE)
      fix k av
      assume w: "install_folder_canonical_refresh r k av = Inr (Some w)"
      have "fw_expectedRevision w = Some (fol_revision r)"
        using w by (auto simp: install_folder_canonical_refresh_def folder_update_def Let_def
            split: option.split_asm if_split_asm)
      moreover have "fol_intents (fw_next w) = fol_intents r"
        using w by (rule observed_folder_write) simp
      ultimately show ?thesis using observed_accepted [OF rests w] r(1) by blast
    next
      fix f location
      assume "fol_canonical r \<noteq> None" "catalog_entry_location view (folder_child f) = Inr location"
        "newer_canonical_observation (cfo_observationVersion f) (fol_observationVersion r) = Inr True"
        "w = newer_folder_write f location r"
      then show ?thesis
        using newer_folder_accepted [OF rests _ _ assms(2)] r(1)
        by (auto simp: newer_folder_write_def folder_update_def)
    qed
  qed
qed


section \<open>A concrete installation\<close>

definition ex_source :: catalog_entry where
  "ex_source = SourceEntry \<lparr>cs_entryId = ''s'', cs_scope = ProjectScope ''p'', cs_scheme = Manuscript,
     cs_name = ''Manuscript'', cs_uri = ''manuscript://'', cs_orderPolicy = None\<rparr>"

definition ex_listed_file :: "string \<Rightarrow> string \<Rightarrow> string \<Rightarrow> catalog_file" where
  "ex_listed_file k name v = \<lparr>cfi_observationVersion = v, cfi_locationVersion = None,
     cfi_entryId = k, cfi_scope = ProjectScope ''p'', cfi_sourceId = ''s'', cfi_parentId = ''s'',
     cfi_name = name, cfi_aliases = [], cfi_path = [name], cfi_uri = ''manuscript://'' @ name,
     cfi_provisionalName = False, cfi_hasProperties = None, cfi_rank = Some None, cfi_joinedFrom = None,
     cfi_upload = None, cfi_classification = \<lparr>class_extension = [], class_disposition =
       EditableFile Markdown DocumentSchema\<rparr>\<rparr>"

definition ex_listed_folder :: catalog_folder where
  "ex_listed_folder = \<lparr>cfo_observationVersion = ''2'', cfo_locationVersion = None, cfo_entryId = ''f2'',
     cfo_scope = ProjectScope ''p'', cfo_sourceId = ''s'', cfo_parentId = ''s'', cfo_name = ''c'',
     cfo_path = [''c''], cfo_uri = ''manuscript://c'', cfo_hasChildren = False, cfo_rank = None,
     cfo_orderPolicy = None, cfo_navigationOnly = False\<rparr>"

definition ex_listing :: catalog_view where
  "ex_listing = (empty_catalog_view (ProjectScope ''p''))\<lparr>cv_entries :=
     [ex_source, FileEntry (ex_listed_file ''d1'' ''a'' ''5''), FileEntry (ex_listed_file ''d2'' ''b'' ''2''),
      FolderEntry ex_listed_folder]\<rparr>"

definition ex_fence :: observation_fence where
  "ex_fence = \<lparr>fence_folders = folder_observation_fence [ex_folder], fence_resources =
     [(''h'', \<lparr>or_revision = 1, or_canonical = None, or_canonicalParent = None, or_canonicalRank = None,
       or_classification = res_classification ex_resource\<rparr>)]\<rparr>"

definition ex_installation :: "catalog_checkpoint \<times> resource_write list" where
  "ex_installation = (case plan_catalog_installation compare_text ''p'' [ex_acknowledged] ex_listing None
     ex_fence 0 of Inr x \<Rightarrow> x | Inl _ \<Rightarrow> undefined)"

lemma ex_installed:
  "plan_catalog_installation compare_text ''p'' [ex_acknowledged] ex_listing None ex_fence 0 =
     Inr (fst ex_installation, snd ex_installation)"
  "length (snd ex_installation) = 2"
  "distinct (map cfi_entryId (catalog_files ex_listing))"
  unfolding ex_installation_def by code_simp+

theorem installation_passes_the_validator_witness:
  "snd ex_installation ! 0 \<in> set (snd ex_installation) \<and>
   (\<exists>r target. r = ex_acknowledged \<and> join_reservation r target 0 = Some (snd ex_installation ! 0) \<or>
      rw_expectedRevision (snd ex_installation ! 0) = None \<or>
      r = ex_acknowledged \<and>
      validate_resource_record_update (Some r) (rw_next (snd ex_installation ! 0)) None = Inr ())"
proof -
  have m: "snd ex_installation ! 0 \<in> set (snd ex_installation)" using ex_installed(2) by (intro nth_mem) simp
  have o: "\<And>r. r \<in> set [ex_acknowledged] \<Longrightarrow> in_order r None" using ex_acknowledged_in_order by simp
  from installation_passes_the_validator [OF ex_installed(1,3) o m] m show ?thesis by auto
qed

theorem installation_loses_nothing_witness:
  "\<exists>r \<in> insert ex_acknowledged (rw_next ` set (snd ex_installation)).
     res_documentId (rec_resource r) = ''d2''"
proof -
  have o: "\<And>r. r \<in> set [ex_acknowledged] \<Longrightarrow> in_order r None" using ex_acknowledged_in_order by simp
  have m: "ex_listed_file ''d2'' ''b'' ''2'' \<in> set (catalog_files ex_listing)" by code_simp
  note conjunct2 [OF installation_loses_nothing [OF ex_installed(1,3) o]]
  from bspec [OF this m] show ?thesis by (simp add: ex_listed_file_def)
qed

definition ex_folder_installation :: "folder_write list" where
  "ex_folder_installation = (case plan_folder_catalog_installation ''p'' [ex_folder] ex_listing ex_fence of
     Inr ws \<Rightarrow> ws | Inl _ \<Rightarrow> undefined)"

theorem folder_installation_passes_the_validator_witness:
  "\<exists>w. plan_folder_catalog_installation ''p'' [ex_folder] ex_listing ex_fence = Inr [w] \<and>
     validate_folder_namespace_update None (fw_next w) None = Inr ()"
proof -
  have p: "plan_folder_catalog_installation ''p'' [ex_folder] ex_listing ex_fence =
      Inr [hd ex_folder_installation]" "fw_expectedRevision (hd ex_folder_installation) = None"
    unfolding ex_folder_installation_def by code_simp+
  have o: "\<And>r. r \<in> set [ex_folder] \<Longrightarrow> folder_rests None r"
    by (simp add: folder_rests_def folder_validator_simps ex_folder_def)
  have s: "scope_named (cv_scope ex_listing)" by code_simp
  from folder_installation_passes_the_validator [OF p(1) s o, of "hd ex_folder_installation"] p
  show ?thesis by auto
qed

end
