(* ===== verification/Optimistic_Order.thy ===== *)
theory Optimistic_Order
  imports Catalog_Replay Placement_Journal
begin

text \<open>
  The order siblings are shown in while placements are unresolved
  (\<^verbatim>\<open>optimistic-sibling-order.ts\<close>): every unresolved placement, in admission order, is folded over
  the canonical sibling lists, and the rows of the lists it changed get ranks of their own, which
  never leave the projection.
\<close>

section \<open>Lists by index\<close>

definition index_of :: "'a \<Rightarrow> 'a list \<Rightarrow> nat option" where
  "index_of x xs = (if x \<in> set xs then Some (length (takeWhile (\<lambda>y. y \<noteq> x) xs)) else None)"

definition remove_at :: "nat \<Rightarrow> 'a list \<Rightarrow> 'a list" where
  "remove_at i xs = take i xs @ drop (Suc i) xs"

definition insert_before :: "nat \<Rightarrow> 'a \<Rightarrow> 'a list \<Rightarrow> 'a list" where
  "insert_before i x xs = take i xs @ x # drop i xs"

text \<open>Where \<open>position\<close> says, or back where the entry was when its anchor is gone.\<close>

definition insert_at_position ::
  "string list \<Rightarrow> string \<Rightarrow> sibling_position \<Rightarrow> nat option \<Rightarrow> string list" where
  "insert_at_position siblings entryId position previousIndex =
     (let fallback = insert_before (case previousIndex of Some i \<Rightarrow> min i (length siblings)
          | None \<Rightarrow> length siblings) entryId siblings
      in case position of
           AtEnd \<Rightarrow> siblings @ [entryId]
         | AtStart \<Rightarrow> entryId # siblings
         | BeforeSibling a \<Rightarrow> (case index_of a siblings of
               Some anchor \<Rightarrow> insert_before anchor entryId siblings | None \<Rightarrow> fallback)
         | AfterSibling a \<Rightarrow> (case index_of a siblings of
               Some anchor \<Rightarrow> insert_before (anchor + 1) entryId siblings | None \<Rightarrow> fallback))"

section \<open>The fold\<close>

record sibling_fold =
  sf_seq :: "(string \<times> string list) list"
  sf_parents :: "(string \<times> string) list"
  sf_manual :: "string list"
  sf_affected :: "string list"

definition seq_at :: "sibling_fold \<Rightarrow> string \<Rightarrow> string list" where
  "seq_at st p = (case map_of (sf_seq st) p of None \<Rightarrow> [] | Some ids \<Rightarrow> ids)"

fun op_destination :: "placement_op \<Rightarrow> resource_destination option" where
  "op_destination op =
     (case int_desired (po_intent op) of
        SetLocation _ d \<Rightarrow> Some d | SetFolderLocation _ d \<Rightarrow> Some d | _ \<Rightarrow> None)"

definition location_ops ::
  "string \<Rightarrow> entry_map \<Rightarrow> resource_record list \<Rightarrow> folder_record list \<Rightarrow> placement_op list" where
  "location_ops projectId entries records folders =
     filter (\<lambda>op. int_projectId (po_intent op) = projectId \<and>
         entries_get (po_subject op) entries \<noteq> None \<and> op_destination op \<noteq> None)
       (placement_ops \<lparr>sn_records = records, sn_folders = folders, sn_operations = []\<rparr>)"

text \<open>The source that stands for a root, and the folder a parent names.\<close>

definition destination_id :: "string \<Rightarrow> catalog_entry list \<Rightarrow> parent_ref \<Rightarrow> string option" where
  "destination_id projectId projected parent =
     (case parent of
        FolderParent f \<Rightarrow> Some f
      | RootParent scheme owner \<Rightarrow>
          map_option entry_id (find (\<lambda>e. case e of
              SourceEntry s \<Rightarrow> cs_scheme s = scheme \<and>
                owner_listed_in_scope owner scheme (cs_scope s) projectId
            | _ \<Rightarrow> False) projected))"

definition compare_ids ::
  "(string \<Rightarrow> string \<Rightarrow> int) \<Rightarrow> entry_map \<Rightarrow> bool \<Rightarrow> string \<Rightarrow> string \<Rightarrow> int" where
  "compare_ids collate entries manual leftId rightId =
     (case (Option.bind (entries_get leftId entries) ranked, Option.bind (entries_get rightId entries) ranked) of
        (Some l, Some r) \<Rightarrow> compare_catalog_siblings collate manual l r
      | _ \<Rightarrow> 0)"

definition by_name :: "(string \<Rightarrow> string \<Rightarrow> int) \<Rightarrow> entry_map \<Rightarrow> string \<Rightarrow> string \<Rightarrow> int" where
  "by_name collate entries leftId rightId =
     (case (Option.bind (entries_get leftId entries) ranked, Option.bind (entries_get rightId entries) ranked) of
        (Some l, Some r) \<Rightarrow> compare_default_siblings collate (default_of l) (default_of r)
      | _ \<Rightarrow> 0)"

text \<open>Where each row stood before any unresolved placement touched it.\<close>

definition baseline_row :: "entry_map \<Rightarrow> string set \<Rightarrow> catalog_entry \<Rightarrow> sibling_fold \<Rightarrow> sibling_fold" where
  "baseline_row canonical touched e st =
     (case entry_parent e of
        None \<Rightarrow> st
      | Some _ \<Rightarrow>
          (case Option.bind (if entry_id e \<in> touched then entries_get (entry_id e) canonical else Some e)
                  entry_parent of
             None \<Rightarrow> st
           | Some p \<Rightarrow> st\<lparr>sf_parents := assoc_set (entry_id e) p (sf_parents st),
               sf_seq := assoc_set p (seq_at st p @ [entry_id e]) (sf_seq st)\<rparr>))"

definition sibling_baseline ::
  "(string \<Rightarrow> string \<Rightarrow> int) \<Rightarrow> entry_map \<Rightarrow> entry_map \<Rightarrow> string set \<Rightarrow> sibling_fold" where
  "sibling_baseline collate entries canonical touched =
     (let st = fold (baseline_row canonical touched) entries
            \<lparr>sf_seq = [], sf_parents = [], sf_manual = [], sf_affected = []\<rparr>;
          manual = filter (\<lambda>p. is_manual_parent (entries_get p entries)) (map fst (sf_seq st))
      in st\<lparr>sf_manual := manual,
            sf_seq := map (\<lambda>(p, ids). (p, sort_with (compare_ids collate entries (p \<in> set manual)) ids))
              (sf_seq st)\<rparr>)"

text \<open>An empty parent id is a false condition in the source.\<close>

definition truthy :: "string option \<Rightarrow> string option" where
  "truthy from = (case from of Some p \<Rightarrow> if p = [] then None else Some p | None \<Rightarrow> None)"

definition add_to :: "'a \<Rightarrow> 'a list \<Rightarrow> 'a list" where
  "add_to x xs = (if x \<in> set xs then xs else xs @ [x])"

definition take_from :: "string option \<Rightarrow> string \<Rightarrow> sibling_fold \<Rightarrow> sibling_fold" where
  "take_from from entryId st =
     (case truthy from of
        None \<Rightarrow> st
      | Some p \<Rightarrow> st\<lparr>sf_seq := (case map_of (sf_seq st) p of
            None \<Rightarrow> sf_seq st
          | Some ids \<Rightarrow> (case index_of entryId ids of
                None \<Rightarrow> sf_seq st | Some i \<Rightarrow> assoc_set p (remove_at i ids) (sf_seq st))),
          sf_affected := add_to p (sf_affected st)\<rparr>)"

definition put_into ::
  "(string \<Rightarrow> string \<Rightarrow> int) \<Rightarrow> entry_map \<Rightarrow> string \<Rightarrow> string \<Rightarrow> sibling_position option \<Rightarrow> nat option
     \<Rightarrow> sibling_fold \<Rightarrow> sibling_fold" where
  "put_into collate entries target entryId position previousIndex st =
     (let manual = (if position = None then sf_manual st else add_to target (sf_manual st));
          siblings = (case position of
              Some pos \<Rightarrow> insert_at_position (seq_at st target) entryId pos previousIndex
            | None \<Rightarrow> (let l = seq_at st target @ [entryId]
                in if target \<in> set manual then l else sort_with (by_name collate entries) l))
      in st\<lparr>sf_manual := manual, sf_seq := assoc_set target siblings (sf_seq st),
            sf_parents := assoc_set entryId target (sf_parents st),
            sf_affected := add_to target (sf_affected st)\<rparr>)"

definition op_target ::
  "string \<Rightarrow> catalog_entry list \<Rightarrow> (string \<times> string) list \<Rightarrow> placement_op \<Rightarrow> resource_destination
     \<Rightarrow> string \<Rightarrow> string" where
  "op_target projectId projected lastOp op destination subjectParent =
     (if map_of lastOp (po_subject op) = Some (int_id (po_intent op)) then subjectParent
      else (case destination_id projectId projected (dest_parent destination) of
          Some t \<Rightarrow> t | None \<Rightarrow> subjectParent))"

definition fold_op ::
  "(string \<Rightarrow> string \<Rightarrow> int) \<Rightarrow> string \<Rightarrow> catalog_entry list \<Rightarrow> entry_map \<Rightarrow> (string \<times> string) list
     \<Rightarrow> placement_op \<Rightarrow> sibling_fold \<Rightarrow> sibling_fold" where
  "fold_op collate projectId projected entries lastOp op st =
     (case (Option.bind (entries_get (po_subject op) entries) entry_parent, op_destination op) of
        (Some subjectParent, Some destination) \<Rightarrow>
          (let target = op_target projectId projected lastOp op destination subjectParent;
               from = map_of (sf_parents st) (po_subject op);
               position = dest_position destination;
               previousIndex = (case truthy from of None \<Rightarrow> None
                 | Some p \<Rightarrow> Option.bind (map_of (sf_seq st) p) (index_of (po_subject op)))
           in if position = None \<and> from = Some target then st
              else put_into collate entries target (po_subject op) position
                     (if from = Some target then previousIndex else None)
                     (take_from from (po_subject op) st))
      | _ \<Rightarrow> st)"

definition last_ops :: "placement_op list \<Rightarrow> (string \<times> string) list" where
  "last_ops ops = fold (\<lambda>op. assoc_set (po_subject op) (int_id (po_intent op))) ops []"

definition folded_order ::
  "(string \<Rightarrow> string \<Rightarrow> int) \<Rightarrow> string \<Rightarrow> catalog_entry list \<Rightarrow> catalog_entry list \<Rightarrow> placement_op list
     \<Rightarrow> sibling_fold" where
  "folded_order collate projectId canonical projected ops =
     fold (fold_op collate projectId projected (entries_of projected) (last_ops ops)) ops
       (sibling_baseline collate (entries_of projected) (entries_of canonical) (set (map po_subject ops)))"

section \<open>The rows\<close>

fun manually_ordered :: "catalog_entry \<Rightarrow> catalog_entry" where
  "manually_ordered (SourceEntry e) = SourceEntry (e\<lparr>cs_orderPolicy := Some ManualOrder\<rparr>)"
| "manually_ordered (FolderEntry e) = FolderEntry (e\<lparr>cfo_orderPolicy := Some ManualOrder\<rparr>)"
| "manually_ordered e = e"

fun with_rank :: "string \<Rightarrow> catalog_entry \<Rightarrow> catalog_entry" where
  "with_rank r (FolderEntry e) = FolderEntry (e\<lparr>cfo_rank := Some (Some r)\<rparr>)"
| "with_rank r (FileEntry e) = FileEntry (e\<lparr>cfi_rank := Some (Some r)\<rparr>)"
| "with_rank r e = e"

definition local_rank :: "nat \<Rightarrow> string" where
  "local_rank index =
     ''local:'' @ replicate (12 - length (show_nat index)) (CHR ''0'') @ show_nat index"

definition set_entry :: "string \<Rightarrow> (catalog_entry \<Rightarrow> catalog_entry) \<Rightarrow> entry_map \<Rightarrow> entry_map" where
  "set_entry k f entries =
     (case entries_get k entries of None \<Rightarrow> entries | Some e \<Rightarrow> entries_set (f e) entries)"

fun rank_from :: "nat \<Rightarrow> string list \<Rightarrow> entry_map \<Rightarrow> entry_map" where
  "rank_from i [] entries = entries"
| "rank_from i (k # ks) entries = rank_from (Suc i) ks (set_entry k (with_rank (local_rank i)) entries)"

definition show_order :: "sibling_fold \<Rightarrow> string \<Rightarrow> entry_map \<Rightarrow> entry_map" where
  "show_order st parentId entries =
     (if parentId \<in> set (sf_manual st)
      then rank_from 0 (seq_at st parentId) (set_entry parentId manually_ordered entries)
      else entries)"

definition project_optimistic_sibling_order ::
  "(string \<Rightarrow> string \<Rightarrow> int) \<Rightarrow> string \<Rightarrow> catalog_entry list \<Rightarrow> catalog_entry list
     \<Rightarrow> resource_record list \<Rightarrow> folder_record list \<Rightarrow> catalog_entry list" where
  "project_optimistic_sibling_order collate projectId canonical projected records folders =
     (let ops = location_ops projectId (entries_of projected) records folders;
          st = folded_order collate projectId canonical projected ops
      in if ops = [] then projected
         else fold (show_order st) (sf_affected st) (entries_of projected))"

end
