(* ===== verification/Digit_Strings.thy ===== *)
theory Digit_Strings
  imports Document_Filename
begin

text \<open>
  Decimal digits as numbers: strings of digits of one length are ordered as the numbers they spell, and
  \<^verbatim>\<open>String(n)\<close> spells its number in as many digits as it needs. Padded ranks and sequence
  cursors are compared this way.
\<close>

section \<open>Digits\<close>

definition digits_value :: "string \<Rightarrow> nat" where
  "digits_value = foldl (\<lambda>n c. 10 * n + (of_char c - 48)) 0"

lemma digits_value_Cons: "digits_value (c # cs) = (of_char c - 48) * 10 ^ length cs + digits_value cs"
proof -
  have "foldl (\<lambda>n c. 10 * n + (of_char c - 48)) a cs = a * 10 ^ length cs + digits_value cs" for a :: nat
  proof (induction cs arbitrary: a)
    case (Cons d ds)
    let ?d = "of_char d - 48 :: nat"
    have "digits_value (d # ds) = ?d * 10 ^ length ds + digits_value ds"
      using Cons.IH [of ?d] by (simp add: digits_value_def)
    moreover have "(10 * a + ?d) * 10 ^ length ds = a * (10 * 10 ^ length ds) + ?d * 10 ^ length ds"
      by (simp add: add_mult_distrib)
    ultimately show ?case using Cons.IH [of "10 * a + ?d"] by simp
  qed (simp add: digits_value_def)
  from this [of "of_char c - 48"] show ?thesis by (simp add: digits_value_def)
qed

lemma digit_bounds: "is_digit c \<Longrightarrow> 48 \<le> (of_char c :: nat) \<and> (of_char c :: nat) < 58"
  by (auto simp: is_digit_def)

lemma digits_value_bound: "list_all is_digit cs \<Longrightarrow> digits_value cs < 10 ^ length cs"
proof (induction cs)
  case (Cons c cs)
  have "of_char c - 48 \<le> (9 :: nat)" using digit_bounds [of c] Cons.prems by (simp add: le_diff_conv)
  then have "(of_char c - 48 :: nat) * 10 ^ length cs \<le> 9 * 10 ^ length cs" by (rule mult_right_mono) simp
  moreover have "digits_value cs < 10 ^ length cs" using Cons by simp
  ultimately show ?case unfolding digits_value_Cons length_Cons power_Suc by linarith
qed (simp add: digits_value_def)

lemma digits_less:
  assumes "length xs = length ys" and "list_all is_digit xs" and "list_all is_digit ys"
    and "digits_value xs < digits_value ys"
  shows "xs < ys"
  using assms
proof (induction xs ys rule: list_induct2)
  case (Cons x xs y ys)
  let ?x = "of_char x - 48 :: nat" and ?y = "of_char y - 48 :: nat"
  have v: "?x * 10 ^ length ys + digits_value xs < ?y * 10 ^ length ys + digits_value ys"
    using Cons.prems(3) Cons.hyps by (simp add: digits_value_Cons)
  have le: "?x \<le> ?y"
  proof (rule ccontr)
    assume "\<not> ?x \<le> ?y"
    then have "(?y + 1) * 10 ^ length ys \<le> ?x * 10 ^ length ys" by (intro mult_right_mono) simp_all
    then show False using v digits_value_bound [of ys] Cons.prems(2) by (simp add: algebra_simps)
  qed
  show ?case
  proof (cases "x = y")
    case True
    then show ?thesis using Cons v by simp
  next
    case False
    then have "(of_char x :: nat) \<noteq> of_char y" by simp
    then have "(of_char x :: nat) < of_char y"
      using le digit_bounds [of x] digit_bounds [of y] Cons.prems(1,2) by (auto simp del: of_char_eq_iff)
    then show ?thesis by (simp add: less_char_def)
  qed
qed (simp add: digits_value_def)

lemma show_nat_all_digits: "list_all is_digit (show_nat n)"
proof (induction n rule: show_nat.induct)
  case (1 n)
  have "list_all (\<lambda>m. is_digit (char_of (48 + m :: nat))) [0..<10]" by code_simp
  then have d: "is_digit (char_of (48 + m :: nat))" if "m < 10" for m
    using that by (simp add: list_all_iff)
  show ?case
  proof (cases "n < 10")
    case True
    then show ?thesis using d [of n] by (subst show_nat.simps) simp
  next
    case False
    then show ?thesis using 1 d [of "n mod 10"] by (subst show_nat.simps) simp
  qed
qed

lemma show_nat_length: "n < 10 ^ k \<Longrightarrow> 0 < k \<Longrightarrow> length (show_nat n) \<le> k"
proof (induction k arbitrary: n)
  case (Suc k)
  show ?case
  proof (cases "n < 10")
    case True
    then show ?thesis by (subst show_nat.simps) simp
  next
    case False
    then have "0 < k" using Suc.prems(1) by (cases k) auto
    moreover have "n div 10 < 10 ^ k" using Suc.prems(1) by (simp add: less_mult_imp_div_less mult.commute)
    ultimately have "length (show_nat (n div 10)) \<le> k" by (rule Suc.IH [rotated])
    then show ?thesis using False by (subst show_nat.simps) simp
  qed
qed simp

end
