(* ===== verification/Sibling_Display.thy ===== *)
theory Sibling_Display
  imports Optimistic_Order Digit_Strings
begin

text \<open>
  What the optimistic sibling order of \<^verbatim>\<open>optimistic-sibling-order.ts\<close> shows: the rows stay the same
  rows, every child is in the folded list of its own parent and in no other, the tree displays exactly
  the folded list, and the newest placement stands where it says.
\<close>

section \<open>Lists by index\<close>

lemma index_of_None [simp]: "index_of x xs = None \<longleftrightarrow> x \<notin> set xs"
  by (simp add: index_of_def)

lemma index_of_Some: "index_of x xs = Some i \<Longrightarrow> i < length xs \<and> xs ! i = x \<and> x \<notin> set (take i xs)"
proof -
  assume "index_of x xs = Some i"
  then have x: "x \<in> set xs" and i: "i = length (takeWhile (\<lambda>y. y \<noteq> x) xs)"
    by (auto simp: index_of_def split: if_splits)
  have l: "i < length xs" using x i by (induction xs arbitrary: i) auto
  moreover have "xs ! i = x" using nth_length_takeWhile [of "\<lambda>y. y \<noteq> x" xs] l i by simp
  moreover have "x \<notin> set (take i xs)" using i by (metis set_takeWhileD takeWhile_eq_take)
  ultimately show ?thesis by blast
qed

lemma index_of_nth: "distinct xs \<Longrightarrow> i < length xs \<Longrightarrow> index_of (xs ! i) xs = Some i"
proof -
  assume d: "distinct xs" and i: "i < length xs"
  then obtain j where j: "index_of (xs ! i) xs = Some j" by (cases "index_of (xs ! i) xs") auto
  from index_of_Some [OF this] d i have "j = i" using nth_eq_iff_index_eq [of xs j i] by simp
  with j show ?thesis by simp
qed

lemma index_of_Cons:
  "index_of x (y # ys) = (if x = y then Some 0 else map_option Suc (index_of x ys))"
  by (auto simp: index_of_def)

lemma split_at_index:
  assumes "index_of x xs = Some i"
  shows "xs = take i xs @ x # drop (Suc i) xs"
  using index_of_Some [OF assms] by (metis id_take_nth_drop)

lemma remove_index:
  assumes "distinct xs" and "index_of x xs = Some i"
  shows "remove_at i xs = filter (\<lambda>y. y \<noteq> x) xs"
proof -
  note split_at_index [OF assms(2)]
  then obtain us vs where xs: "xs = us @ x # vs" "us = take i xs" "vs = drop (Suc i) xs" by metis
  have "x \<notin> set us" "x \<notin> set vs" using assms(1) xs(1) by auto
  then have "filter (\<lambda>y. y \<noteq> x) us = us" "filter (\<lambda>y. y \<noteq> x) vs = vs"
    by (simp_all add: filter_id_conv) blast+
  then have "filter (\<lambda>y. y \<noteq> x) xs = us @ vs" by (subst xs(1)) simp
  then show ?thesis using xs(2,3) by (simp add: remove_at_def)
qed

lemma set_insert_before [simp]: "set (insert_before i x xs) = insert x (set xs)"
  unfolding insert_before_def by (metis Un_insert_right append_take_drop_id list.simps(15) set_append)

lemma distinct_insert_before [simp]: "distinct (insert_before i x xs) \<longleftrightarrow> x \<notin> set xs \<and> distinct xs"
proof -
  have "distinct (us @ x # vs) \<longleftrightarrow> x \<notin> set (us @ vs) \<and> distinct (us @ vs)" for us vs by auto
  from this [of "take i xs" "drop i xs"] show ?thesis by (simp add: insert_before_def)
qed

lemma insert_at_position_set [simp]: "set (insert_at_position xs x pos prev) = insert x (set xs)"
  by (cases pos) (auto simp: insert_at_position_def Let_def split: option.split)

lemma insert_at_position_distinct:
  "distinct xs \<Longrightarrow> x \<notin> set xs \<Longrightarrow> distinct (insert_at_position xs x pos prev)"
  by (cases pos) (simp_all add: insert_at_position_def Let_def split: option.split)

section \<open>Entry maps\<close>

lemma entries_of_distinct: "distinct (map entry_id es) \<Longrightarrow> entries_of es = es"
proof -
  have "distinct (map entry_id (acc @ es)) \<Longrightarrow> foldl (\<lambda>m e. entries_set e m) acc es = acc @ es" for acc
  proof (induction es arbitrary: acc)
    case (Cons e es)
    have "\<not> list_ex (\<lambda>x. entry_id x = entry_id e) acc"
    proof -
      have "entry_id e \<notin> entry_id ` set acc" using Cons.prems by simp
      then have "entry_id x \<noteq> entry_id e" if "x \<in> set acc" for x
        using imageI [OF that, of entry_id] by metis
      then show ?thesis by (simp add: list_ex_iff)
    qed
    then have "entries_set e acc = acc @ [e]" by (simp add: entries_set_def)
    with Cons.IH [of "acc @ [e]"] Cons.prems show ?case by simp
  qed simp
  from this [of "[]"] show "distinct (map entry_id es) \<Longrightarrow> entries_of es = es"
    by (simp add: entries_of_def)
qed

lemma entries_set_mem: "e \<in> set (entries_set x m) \<Longrightarrow> e = x \<or> e \<in> set m"
  by (auto simp: entries_set_def split: if_splits)

lemma entries_of_mem: "e \<in> set (entries_of es) \<Longrightarrow> e \<in> set es"
proof -
  have "e \<in> set (foldl (\<lambda>m x. entries_set x m) acc es) \<Longrightarrow> e \<in> set acc \<union> set es" for acc
    by (induction es arbitrary: acc) (auto dest: entries_set_mem)
  from this [of "[]"] show "e \<in> set (entries_of es) \<Longrightarrow> e \<in> set es" by (simp add: entries_of_def)
qed

lemma entries_get_Some: "entries_get k es = Some e \<Longrightarrow> e \<in> set es \<and> entry_id e = k"
  unfolding entries_get_def using find_Some_mem by fastforce

lemma set_entry_map:
  assumes "distinct (map entry_id es)" and "\<And>e. entry_id (f e) = entry_id e"
  shows "set_entry k f es = map (\<lambda>e. if entry_id e = k then f e else e) es"
proof (cases "entries_get k es")
  case None
  then have "\<forall>e \<in> set es. entry_id e \<noteq> k" by (simp add: entries_get_def find_None_conv)
  then have "map (\<lambda>e. if entry_id e = k then f e else e) es = es" by (simp add: map_idI)
  with None show ?thesis by (simp add: set_entry_def)
next
  case (Some e)
  note e = entries_get_Some [OF Some]
  have "x = e" if "x \<in> set es" "entry_id x = k" for x
    using that e assms(1) by (auto simp: distinct_map inj_on_def)
  then have "map (\<lambda>x. if entry_id x = k then f e else x) es = map (\<lambda>x. if entry_id x = k then f x else x) es"
    by simp
  moreover have "list_ex (\<lambda>x. entry_id x = entry_id (f e)) es"
    using e assms(2) by (auto simp: list_ex_iff)
  ultimately show ?thesis using Some e assms(2) by (simp add: set_entry_def entries_set_def)
qed

lemma if_same_id [simp]:
  "entry_id (if b then manually_ordered e else e) = entry_id e"
  "entry_id (if b then with_rank r e else e) = entry_id e"
  by (cases e; simp)+

lemma row_parts [simp]:
  "entry_id (with_rank r e) = entry_id e" "entry_parent (with_rank r e) = entry_parent e"
  "entry_id (manually_ordered e) = entry_id e" "entry_parent (manually_ordered e) = entry_parent e"
  "is_manual_parent (Some (with_rank r e)) = is_manual_parent (Some e)"
  by (cases e; simp)+

definition ranked_in :: "nat \<Rightarrow> string list \<Rightarrow> catalog_entry \<Rightarrow> catalog_entry" where
  "ranked_in i ks e = (case index_of (entry_id e) ks of None \<Rightarrow> e | Some j \<Rightarrow> with_rank (local_rank (i + j)) e)"

lemma ranked_in_parts [simp]:
  "entry_id (ranked_in i ks e) = entry_id e" "entry_parent (ranked_in i ks e) = entry_parent e"
  "is_manual_parent (Some (ranked_in i ks e)) = is_manual_parent (Some e)"
  by (simp_all add: ranked_in_def split: option.split)

lemma rank_from_map:
  "distinct (map entry_id es) \<Longrightarrow> distinct ks \<Longrightarrow> rank_from i ks es = map (ranked_in i ks) es"
proof (induction ks arbitrary: i es)
  case Nil
  show ?case by (simp add: ranked_in_def index_of_def)
next
  case (Cons k ks)
  let ?es = "map (\<lambda>e. if entry_id e = k then with_rank (local_rank i) e else e) es"
  have d: "distinct (map entry_id ?es)" using Cons.prems(1) by (simp add: o_def cong: if_cong)
  have "rank_from i (k # ks) es = map (ranked_in (Suc i) ks) ?es"
    using Cons.IH [OF d] Cons.prems by (simp add: set_entry_map)
  also have "\<dots> = map (ranked_in i (k # ks)) es"
  proof (unfold map_map, rule map_cong [OF refl])
    fix e
    show "(ranked_in (Suc i) ks \<circ> (\<lambda>e. if entry_id e = k then with_rank (local_rank i) e else e)) e =
        ranked_in i (k # ks) e"
    proof (cases "entry_id e = k")
      case True
      moreover have "index_of k ks = None" using Cons.prems(2) by (simp add: index_of_def)
      ultimately show ?thesis by (simp add: ranked_in_def index_of_Cons del: index_of_None)
    next
      case False
      then show ?thesis
        by (cases "index_of (entry_id e) ks") (simp_all add: ranked_in_def index_of_Cons del: index_of_None)
    qed
  qed
  finally show ?case .
qed

definition show_one :: "sibling_fold \<Rightarrow> string \<Rightarrow> catalog_entry \<Rightarrow> catalog_entry" where
  "show_one st p e =
     (if p \<in> set (sf_manual st)
      then ranked_in 0 (seq_at st p) (if entry_id e = p then manually_ordered e else e) else e)"

lemma show_one_parts [simp]:
  "entry_id (show_one st p e) = entry_id e" "entry_parent (show_one st p e) = entry_parent e"
  by (simp_all add: show_one_def)

lemma show_order_map:
  assumes "distinct (map entry_id es)" and "distinct (seq_at st p)"
  shows "show_order st p es = map (show_one st p) es"
proof (cases "p \<in> set (sf_manual st)")
  case True
  let ?es = "map (\<lambda>e. if entry_id e = p then manually_ordered e else e) es"
  have d: "distinct (map entry_id ?es)" using assms(1) by (simp add: o_def cong: if_cong)
  show ?thesis
    using rank_from_map [OF d assms(2), of 0] True assms(1)
    by (simp add: show_order_def set_entry_map show_one_def o_def)
qed (simp add: show_order_def show_one_def map_idI)

abbreviation shown :: "sibling_fold \<Rightarrow> string list \<Rightarrow> catalog_entry \<Rightarrow> catalog_entry" where
  "shown st ps \<equiv> fold (show_one st) ps"

lemma fold_show_order:
  "distinct (map entry_id es) \<Longrightarrow> (\<And>p. distinct (seq_at st p)) \<Longrightarrow>
     fold (show_order st) ps es = map (shown st ps) es"
proof (induction ps arbitrary: es)
  case (Cons p ps)
  have "distinct (map entry_id (map (show_one st p) es))" using Cons.prems(1) by (simp add: o_def)
  then show ?case using Cons by (simp add: show_order_map o_def)
qed simp

lemma shown_parts [simp]:
  "entry_id (shown st ps e) = entry_id e" "entry_parent (shown st ps e) = entry_parent e"
  by (induction ps arbitrary: e) simp_all


section \<open>Every child is in the list of its own parent\<close>

definition placed_ok :: "sibling_fold \<Rightarrow> bool" where
  "placed_ok st \<longleftrightarrow>
     (\<forall>k p. k \<in> set (seq_at st p) \<longleftrightarrow> map_of (sf_parents st) k = Some p) \<and>
     (\<forall>p. distinct (seq_at st p)) \<and> (\<forall>k. map_of (sf_parents st) k \<noteq> Some [])"

lemma placed_okD:
  assumes "placed_ok st"
  shows "k \<in> set (seq_at st p) \<longleftrightarrow> map_of (sf_parents st) k = Some p" "distinct (seq_at st p)"
    "map_of (sf_parents st) k \<noteq> Some []"
  using assms by (auto simp: placed_ok_def)

lemma seq_at_simps [simp]:
  "seq_at (st\<lparr>sf_seq := assoc_set p ids (sf_seq st)\<rparr>) q = (if q = p then ids else seq_at st q)"
  "seq_at (st\<lparr>sf_parents := x\<rparr>) q = seq_at st q" "seq_at (st\<lparr>sf_manual := y\<rparr>) q = seq_at st q"
  "seq_at (st\<lparr>sf_affected := y\<rparr>) q = seq_at st q"
  by (simp_all add: seq_at_def)

lemma take_from_seq:
  assumes ok: "placed_ok st" and f: "from = map_of (sf_parents st) k"
  shows "seq_at (take_from from k st) q = filter (\<lambda>y. y \<noteq> k) (seq_at st q)"
proof (cases "from")
  case None
  then have "k \<notin> set (seq_at st q)" using placed_okD(1) [OF ok] f by simp
  then have "filter (\<lambda>y. y \<noteq> k) (seq_at st q) = seq_at st q" by (simp add: filter_id_conv) blast
  with None show ?thesis by (simp add: take_from_def truthy_def)
next
  case (Some p)
  have p: "p \<noteq> []" using placed_okD(3) [OF ok] f Some by metis
  have k: "k \<in> set (seq_at st p)" using placed_okD(1) [OF ok] f Some by metis
  then obtain ids where ids: "map_of (sf_seq st) p = Some ids" "seq_at st p = ids"
    by (cases "map_of (sf_seq st) p") (auto simp: seq_at_def)
  obtain i where i: "index_of k ids = Some i" using k ids by (cases "index_of k ids") auto
  have "seq_at (take_from from k st) q = (if q = p then remove_at i ids else seq_at st q)"
    using Some p ids i by (simp add: take_from_def truthy_def seq_at_def)
  moreover have "remove_at i ids = filter (\<lambda>y. y \<noteq> k) ids"
    by (rule remove_index [OF _ i]) (use placed_okD(2) [OF ok, of p] ids in simp)
  moreover have "filter (\<lambda>y. y \<noteq> k) (seq_at st q) = seq_at st q" if "q \<noteq> p"
  proof -
    have "map_of (sf_parents st) k = Some p" using f Some by simp
    then have "k \<notin> set (seq_at st q)" using placed_okD(1) [OF ok, of k q] that by simp
    then show ?thesis by (simp add: filter_id_conv) blast
  qed
  ultimately show ?thesis using ids by auto
qed

lemma take_from_parts [simp]:
  "sf_parents (take_from from k st) = sf_parents st" "sf_manual (take_from from k st) = sf_manual st"
  by (simp_all add: take_from_def split: option.split)

text \<open>The list a placement leaves under its target.\<close>

definition arrived ::
  "(string \<Rightarrow> string \<Rightarrow> int) \<Rightarrow> entry_map \<Rightarrow> string list \<Rightarrow> string \<Rightarrow> string \<Rightarrow> sibling_position option
     \<Rightarrow> nat option \<Rightarrow> string list \<Rightarrow> string list" where
  "arrived collate entries manual target k position prev ids =
     (case position of
        Some pos \<Rightarrow> insert_at_position ids k pos prev
      | None \<Rightarrow> if target \<in> set manual then ids @ [k] else sort_with (by_name collate entries) (ids @ [k]))"

lemma put_into_parts [simp]:
  "sf_parents (put_into collate entries target k position prev st) = assoc_set k target (sf_parents st)"
  "set (sf_affected (put_into collate entries target k position prev st)) = insert target (set (sf_affected st))"
  "seq_at (put_into collate entries target k position prev st) q =
     (if q = target then arrived collate entries (sf_manual st) target k position prev (seq_at st target)
      else seq_at st q)"
  by (auto simp: put_into_def add_to_def Let_def arrived_def seq_at_def split: option.split)

lemma arrived_members [simp]:
  "set (arrived collate entries manual target k position prev ids) = insert k (set ids)"
  by (simp add: arrived_def split: option.split)

lemma arrived_distinct:
  "distinct ids \<Longrightarrow> k \<notin> set ids \<Longrightarrow> distinct (arrived collate entries manual target k position prev ids)"
  by (simp add: arrived_def insert_at_position_distinct split: option.split)

lemma moved_ok:
  assumes ok: "placed_ok st" and f: "from = map_of (sf_parents st) k" and t: "target \<noteq> []"
  shows "placed_ok (put_into collate entries target k position prev (take_from from k st))"
proof -
  note seq = take_from_seq [OF ok f]
  show ?thesis
    unfolding placed_ok_def
    using placed_okD [OF ok] t arrived_distinct [of "filter (\<lambda>y. y \<noteq> k) (seq_at st target)" k]
    by (auto simp: seq)
qed

section \<open>The ids the fold is given\<close>

text \<open>No id of a row, of a parent or of a destination is empty.\<close>

definition ids_named :: "catalog_entry list \<Rightarrow> catalog_entry list \<Rightarrow> placement_op list \<Rightarrow> bool" where
  "ids_named canonical projected ops \<longleftrightarrow>
     [] \<notin> set (map entry_id projected) \<and>
     (\<forall>e \<in> set canonical \<union> set projected. entry_parent e \<noteq> Some []) \<and>
     (\<forall>op \<in> set ops. \<forall>d. op_destination op = Some d \<longrightarrow> dest_parent d \<noteq> FolderParent [])"

lemma target_named:
  assumes n: "ids_named canonical projected ops" and "op \<in> set ops" and d: "op_destination op = Some d"
    and s: "subjectParent \<noteq> []"
  shows "op_target projectId projected lastOp op d subjectParent \<noteq> []"
proof -
  have "t \<noteq> []" if t: "destination_id projectId projected (dest_parent d) = Some t" for t
  proof (cases "dest_parent d")
    case (FolderParent f)
    then show ?thesis using t n assms(2) d by (auto simp: destination_id_def ids_named_def)
  next
    case (RootParent scheme w)
    then obtain e where e: "find (\<lambda>e. case e of SourceEntry s \<Rightarrow> cs_scheme s = scheme \<and>
        owner_listed_in_scope w scheme (cs_scope s) projectId | _ \<Rightarrow> False) projected = Some e" "entry_id e = t"
      using t by (auto simp: destination_id_def)
    from find_Some_mem [OF e(1)] have "e \<in> set projected" by blast
    then show ?thesis using n e(2) by (force simp: ids_named_def)
  qed
  then show ?thesis using s by (simp add: op_target_def split: option.split)
qed

lemma fold_op_cases:
  obtains "fold_op collate projectId projected entries lastOp op st = st"
      and "\<And>p d. Option.bind (entries_get (po_subject op) entries) entry_parent = Some p \<Longrightarrow>
        op_destination op = Some d \<Longrightarrow> dest_position d = None \<and>
        map_of (sf_parents st) (po_subject op) = Some (op_target projectId projected lastOp op d p)"
  | p d prev where "Option.bind (entries_get (po_subject op) entries) entry_parent = Some p"
      and "op_destination op = Some d"
      and "fold_op collate projectId projected entries lastOp op st =
        put_into collate entries (op_target projectId projected lastOp op d p) (po_subject op)
          (dest_position d) prev (take_from (map_of (sf_parents st) (po_subject op)) (po_subject op) st)"
proof (cases "Option.bind (entries_get (po_subject op) entries) entry_parent")
  case None
  then show thesis using that(1) by (simp add: fold_op_def)
next
  case s: (Some p)
  show thesis
  proof (cases "op_destination op")
    case None
    then show thesis using that(1) s by (simp add: fold_op_def)
  next
    case (Some d)
    show thesis
    proof (cases "dest_position d = None \<and>
        map_of (sf_parents st) (po_subject op) = Some (op_target projectId projected lastOp op d p)")
      case True
      show thesis
      proof (rule that(1))
        show "fold_op collate projectId projected entries lastOp op st = st"
          using s Some True by (simp add: fold_op_def Let_def del: op_destination.simps)
        show "dest_position d' = None \<and> map_of (sf_parents st) (po_subject op) =
            Some (op_target projectId projected lastOp op d' p')"
          if "Option.bind (entries_get (po_subject op) entries) entry_parent = Some p'"
            "op_destination op = Some d'" for p' d'
          using that s Some True by simp
      qed
    next
      case False
      then show thesis
        using that(2) [OF s Some] s Some by (simp only: fold_op_def Let_def option.case prod.case if_False)
    qed
  qed
qed

section \<open>The baseline\<close>

definition base_parent :: "entry_map \<Rightarrow> string set \<Rightarrow> catalog_entry \<Rightarrow> string option" where
  "base_parent canonical touched e =
     (case entry_parent e of
        None \<Rightarrow> None
      | Some _ \<Rightarrow> Option.bind (if entry_id e \<in> touched then entries_get (entry_id e) canonical else Some e)
          entry_parent)"

lemma baseline_row_parent:
  "baseline_row canonical touched e st =
     (case base_parent canonical touched e of
        None \<Rightarrow> st
      | Some p \<Rightarrow> st\<lparr>sf_parents := assoc_set (entry_id e) p (sf_parents st),
          sf_seq := assoc_set p (seq_at st p @ [entry_id e]) (sf_seq st)\<rparr>)"
  by (simp add: baseline_row_def base_parent_def split: option.split)

lemma baseline_seq [simp]:
  "seq_at (st\<lparr>sf_parents := x, sf_seq := assoc_set p ids (sf_seq st)\<rparr>) q = (if q = p then ids else seq_at st q)"
  by (simp add: seq_at_def)

lemma baseline_rows:
  assumes "distinct (map entry_id es)" and "placed_ok st"
    and "\<forall>e \<in> set es. map_of (sf_parents st) (entry_id e) = None"
    and "\<forall>e \<in> set es. base_parent canonical touched e \<noteq> Some []"
  shows "placed_ok (fold (baseline_row canonical touched) es st) \<and>
    (\<forall>e \<in> set es. map_of (sf_parents (fold (baseline_row canonical touched) es st)) (entry_id e) =
       base_parent canonical touched e) \<and>
    (\<forall>k. k \<notin> entry_id ` set es \<longrightarrow>
       map_of (sf_parents (fold (baseline_row canonical touched) es st)) k = map_of (sf_parents st) k) \<and>
    sf_affected (fold (baseline_row canonical touched) es st) = sf_affected st"
  using assms
proof (induction es arbitrary: st)
  case (Cons e es)
  let ?st = "baseline_row canonical touched e st"
  have keys: "map_of (sf_parents ?st) k = (if k = entry_id e then base_parent canonical touched e
      else map_of (sf_parents st) k)" for k
    using Cons.prems(3) by (simp add: baseline_row_parent split: option.split)
  have "placed_ok ?st"
  proof (cases "base_parent canonical touched e")
    case None
    then show ?thesis using Cons.prems(2) by (simp add: baseline_row_parent)
  next
    case (Some p)
    have "entry_id e \<notin> set (seq_at st q)" for q
      using placed_okD(1) [OF Cons.prems(2), of "entry_id e" q] Cons.prems(3) by simp
    then show ?thesis
      using placed_okD [OF Cons.prems(2)] Cons.prems(4) Some
      by (auto simp: baseline_row_parent placed_ok_def)
  qed
  moreover have "entry_id x \<noteq> entry_id e" if "x \<in> set es" for x
    using Cons.prems(1) imageI [OF that, of entry_id] by auto
  then have "\<forall>x \<in> set es. map_of (sf_parents ?st) (entry_id x) = None"
    using Cons.prems(3) keys by simp
  moreover have "sf_affected ?st = sf_affected st" by (simp add: baseline_row_parent split: option.split)
  ultimately show ?case
    using Cons.IH [of ?st] Cons.prems(1,4) keys by simp
qed simp

lemma map_of_keyed: "map_of (map (\<lambda>(p, ids). (p, f p ids)) m) q = map_option (f q) (map_of m q)"
  by (induction m) auto

lemma sibling_baseline_ok:
  assumes d: "distinct (map entry_id entries)"
    and named: "\<forall>e \<in> set entries. base_parent canonical touched e \<noteq> Some []"
  shows "placed_ok (sibling_baseline collate entries canonical touched)"
    and "e \<in> set entries \<Longrightarrow> map_of (sf_parents (sibling_baseline collate entries canonical touched)) (entry_id e) =
       base_parent canonical touched e"
    and "k \<notin> entry_id ` set entries \<Longrightarrow>
       map_of (sf_parents (sibling_baseline collate entries canonical touched)) k = None"
    and "sf_affected (sibling_baseline collate entries canonical touched) = []"
proof -
  let ?empty = "\<lparr>sf_seq = [], sf_parents = [], sf_manual = [], sf_affected = []\<rparr>"
  let ?rows = "fold (baseline_row canonical touched) entries ?empty"
  let ?base = "sibling_baseline collate entries canonical touched"
  have e: "placed_ok ?empty" by (simp add: placed_ok_def seq_at_def)
  note rows = baseline_rows [OF d e _ named]
  have same: "sf_parents ?base = sf_parents ?rows" "sf_affected ?base = sf_affected ?rows"
    by (simp_all add: sibling_baseline_def Let_def)
  have seq: "set (seq_at ?base p) = set (seq_at ?rows p) \<and> distinct (seq_at ?base p) = distinct (seq_at ?rows p)" for p
    by (simp add: sibling_baseline_def Let_def seq_at_def map_of_keyed split: option.split)
  show "placed_ok ?base"
    using rows same seq unfolding placed_ok_def by simp
  show "e \<in> set entries \<Longrightarrow> map_of (sf_parents ?base) (entry_id e) = base_parent canonical touched e"
    and "k \<notin> entry_id ` set entries \<Longrightarrow> map_of (sf_parents ?base) k = None"
    and "sf_affected ?base = []"
    using rows same by simp_all
qed

section \<open>The whole fold\<close>

lemma last_ops_last:
  assumes "po_subject op \<notin> po_subject ` set ys"
  shows "map_of (last_ops (xs @ op # ys)) (po_subject op) = Some (int_id (po_intent op))"
proof -
  have "map_of (fold (\<lambda>op. assoc_set (po_subject op) (int_id (po_intent op))) ys m) k = map_of m k"
    if "k \<notin> po_subject ` set ys" for k m
    using that by (induction ys arbitrary: m) auto
  then show ?thesis using assms by (simp add: last_ops_def)
qed

definition fold_upto ::
  "(string \<Rightarrow> string \<Rightarrow> int) \<Rightarrow> string \<Rightarrow> catalog_entry list \<Rightarrow> catalog_entry list \<Rightarrow> placement_op list
     \<Rightarrow> placement_op list \<Rightarrow> sibling_fold" where
  "fold_upto collate projectId canonical projected ops xs =
     fold (fold_op collate projectId projected projected (last_ops ops)) xs
       (sibling_baseline collate projected (entries_of canonical) (set (map po_subject ops)))"

lemma folded_upto: "distinct (map entry_id projected) \<Longrightarrow>
    folded_order collate projectId canonical projected ops = fold_upto collate projectId canonical projected ops ops"
  by (simp add: folded_order_def fold_upto_def entries_of_distinct)

text \<open>Rows whose placements are all folded stand under their own parent.\<close>

definition at_home :: "catalog_entry list \<Rightarrow> placement_op list \<Rightarrow> sibling_fold \<Rightarrow> bool" where
  "at_home projected rest st \<longleftrightarrow>
     placed_ok st \<and>
     (\<forall>e \<in> set projected. \<forall>p. entry_parent e = Some p \<longrightarrow> entry_id e \<notin> po_subject ` set rest \<longrightarrow>
        map_of (sf_parents st) (entry_id e) = Some p) \<and>
     (\<forall>k. map_of (sf_parents st) k \<noteq> None \<longrightarrow>
        (\<exists>e \<in> set projected. entry_id e = k \<and> entry_parent e \<noteq> None))"

lemma fold_at_home:
  assumes d: "distinct (map entry_id projected)" and n: "ids_named canonical projected ops"
    and located: "\<forall>op \<in> set ops. op_destination op \<noteq> None"
  shows "ops = xs @ rest \<Longrightarrow> at_home projected rest (fold_upto collate projectId canonical projected ops xs)"
proof (induction xs arbitrary: rest rule: rev_induct)
  case Nil
  let ?touched = "set (map po_subject ops)"
  have "base_parent (entries_of canonical) ?touched e \<noteq> Some []" if "e \<in> set projected" for e
  proof -
    have "entry_parent x \<noteq> Some []" if "entries_get k (entries_of canonical) = Some x" for k x
      using entries_get_Some [OF that] entries_of_mem n by (auto simp: ids_named_def)
    then show ?thesis
      using n that by (auto simp: base_parent_def ids_named_def Option.bind_eq_Some_conv split: option.splits)
  qed
  then have "\<forall>e \<in> set projected. base_parent (entries_of canonical) ?touched e \<noteq> Some []" by blast
  note base = sibling_baseline_ok [OF d this]
  show ?case
    unfolding at_home_def fold_upto_def fold.simps id_apply
  proof (intro conjI ballI allI impI)
    fix e p assume e: "e \<in> set projected" "entry_parent e = Some p" "entry_id e \<notin> po_subject ` set rest"
    then show "map_of (sf_parents (sibling_baseline collate projected (entries_of canonical) ?touched)) (entry_id e) = Some p"
      using Nil base(2) [OF e(1)] by (simp add: base_parent_def)
  next
    fix k assume k: "map_of (sf_parents (sibling_baseline collate projected (entries_of canonical) ?touched)) k \<noteq> None"
    then have "k \<in> entry_id ` set projected" using base(3) by metis
    then obtain e where e: "e \<in> set projected" "entry_id e = k" by blast
    then have "entry_parent e \<noteq> None"
      using k base(2) [OF e(1)] by (auto simp: base_parent_def split: option.splits)
    then show "\<exists>e \<in> set projected. entry_id e = k \<and> entry_parent e \<noteq> None" using e by blast
  qed (rule base(1))
next
  case (snoc op xs)
  let ?st = "fold_upto collate projectId canonical projected ops xs"
  let ?last = "last_ops ops"
  have step: "fold_upto collate projectId canonical projected ops (xs @ [op]) =
      fold_op collate projectId projected projected ?last op ?st"
    by (simp add: fold_upto_def)
  have ops: "ops = xs @ op # rest" using snoc.prems by simp
  note ih = snoc.IH [OF ops, unfolded at_home_def]
  have ok: "placed_ok ?st" using ih by blast
  have target: "op_target projectId projected ?last op d p = p"
    if "po_subject op \<notin> po_subject ` set rest" for d p
    using last_ops_last [OF that, of xs] ops by (simp add: op_target_def)
  have subject: "\<exists>p. Option.bind (entries_get (po_subject op) projected) entry_parent = Some p \<and> entry_parent e = Some p"
    if "e \<in> set projected" "entry_id e = po_subject op" "entry_parent e = Some q" for e q
    using entries_get_mem [OF d that(1)] that by simp
  show ?case
    unfolding step
  proof (cases rule: fold_op_cases [of collate projectId projected projected ?last op ?st])
    case 1
    obtain d where d': "op_destination op = Some d" using located ops by auto
    have "map_of (sf_parents ?st) (entry_id e) = Some p"
      if e: "e \<in> set projected" "entry_parent e = Some p" "entry_id e \<notin> po_subject ` set rest" for e p
    proof (cases "entry_id e = po_subject op")
      case True
      have "po_subject op \<notin> po_subject ` set rest" using e(3) True by simp
      then show ?thesis
        using 1(2) [OF _ d'] subject [OF e(1) True e(2)] e(2) True target by auto
    qed (use ih e in auto)
    then show "at_home projected rest (fold_op collate projectId projected projected ?last op ?st)"
      unfolding 1(1) at_home_def using ih by blast
  next
    case (2 p d prev)
    let ?to = "op_target projectId projected ?last op d p"
    let ?next = "put_into collate projected ?to (po_subject op) (dest_position d) prev
        (take_from (map_of (sf_parents ?st) (po_subject op)) (po_subject op) ?st)"
    obtain x where x: "x \<in> set projected" "entry_id x = po_subject op" "entry_parent x = Some p"
      using 2(1) entries_get_Some by (fastforce simp: Option.bind_eq_Some_conv)
    have "p \<noteq> []" using n x by (auto simp: ids_named_def)
    then have "?to \<noteq> []" using target_named [OF n _ 2(2)] ops by simp
    note ok' = moved_ok [OF ok refl this]
    have "map_of (sf_parents ?next) (entry_id e) = Some q"
      if e: "e \<in> set projected" "entry_parent e = Some q" "entry_id e \<notin> po_subject ` set rest" for e q
    proof (cases "entry_id e = po_subject op")
      case True
      have "po_subject op \<notin> po_subject ` set rest" using e(3) True by simp
      moreover have "e = x" using d e(1) x True by (auto simp: distinct_map inj_on_def)
      ultimately show ?thesis using x e(2) target True by simp
    qed (use ih e in auto)
    moreover have "\<exists>e \<in> set projected. entry_id e = k \<and> entry_parent e \<noteq> None"
      if "map_of (sf_parents ?next) k \<noteq> None" for k
      using that ih x by (cases "k = po_subject op") auto
    ultimately show "at_home projected rest (fold_op collate projectId projected projected ?last op ?st)"
      unfolding 2(3) at_home_def using ok' by blast
  qed
qed

section \<open>Ranks of the projection\<close>

lemma local_rank_less: "i < j \<Longrightarrow> j < 10 ^ 12 \<Longrightarrow> local_rank i < local_rank j"
proof -
  assume ij: "i < j" "j < 10 ^ 12"
  let ?pad = "\<lambda>n. replicate (12 - length (show_nat n)) (CHR ''0'') @ show_nat n"
  have len: "length (?pad n) = 12" if "n < 10 ^ 12" for n using show_nat_length [OF that] by simp
  have dig: "list_all is_digit (?pad n)" for n
  proof -
    have "is_digit (CHR ''0'')" by (simp add: is_digit_def)
    then show ?thesis using show_nat_all_digits [of n] by (auto simp: list_all_iff)
  qed
  have val: "digits_value (?pad n) = n" for n
  proof -
    have "digits_value (replicate k (CHR ''0'') @ cs) = digits_value cs" for k cs
      by (induction k) (simp_all add: digits_value_Cons)
    then show ?thesis using show_nat_value [of n] by (simp add: digits_value_def)
  qed
  have "?pad i < ?pad j"
    using digits_less [OF _ dig dig, of i j] len [of i] len [of j] val ij by simp
  then show ?thesis by (simp add: local_rank_def)
qed

section \<open>The rows shown\<close>

fun holds_children :: "catalog_entry \<Rightarrow> bool" where
  "holds_children (SourceEntry _) = True"
| "holds_children (FolderEntry _) = True"
| "holds_children _ = False"

text \<open>What the projection never changes of a row.\<close>

fun unordered :: "catalog_entry \<Rightarrow> catalog_entry" where
  "unordered (SourceEntry e) = SourceEntry (e\<lparr>cs_orderPolicy := None\<rparr>)"
| "unordered (FolderEntry e) = FolderEntry (e\<lparr>cfo_orderPolicy := None, cfo_rank := None\<rparr>)"
| "unordered (FileEntry e) = FileEntry (e\<lparr>cfi_rank := None\<rparr>)"
| "unordered e = e"

lemma unordered_parts [simp]:
  "unordered (with_rank r e) = unordered e" "unordered (manually_ordered e) = unordered e"
  by (cases e; simp)+

lemma shown_unordered: "unordered (shown st ps e) = unordered e"
  by (induction ps arbitrary: e) (auto simp: show_one_def ranked_in_def split: option.split)

lemma unordered_holds: "unordered e = unordered e' \<Longrightarrow> holds_children e = holds_children e'"
  by (cases e; cases e') auto

lemma rank_parts [simp]:
  "entry_parent e = Some p \<Longrightarrow> child_rank (with_rank r e) = (child_rank e)\<lparr>rs_rank := Some (Some r)\<rparr>"
  "child_rank (manually_ordered e) = child_rank e"
  by (cases e; simp add: child_rank_def)+

lemma manual_parts [simp]:
  "is_manual_parent (Some (manually_ordered e)) = holds_children e"
  by (cases e) auto

lemma manual_holds: "is_manual_parent (Some e) \<Longrightarrow> holds_children e"
  by (cases e) auto

lemma shown_manual:
  "is_manual_parent (Some (shown st ps e)) \<longleftrightarrow>
     is_manual_parent (Some e) \<or> holds_children e \<and> entry_id e \<in> set ps \<inter> set (sf_manual st)"
proof (induction ps arbitrary: e)
  case (Cons p ps)
  have "unordered (show_one st p e) = unordered e" using shown_unordered [of st "[p]" e] by simp
  then have "holds_children (show_one st p e) = holds_children e" by (rule unordered_holds)
  moreover have "is_manual_parent (Some (show_one st p e)) \<longleftrightarrow>
      is_manual_parent (Some e) \<or> holds_children e \<and> entry_id e = p \<and> p \<in> set (sf_manual st)"
    by (auto simp: show_one_def dest: manual_holds)
  ultimately show ?case using Cons.IH [of "show_one st p e"] by auto
qed simp

lemma show_one_rank:
  assumes "entry_parent e = Some q"
  shows "child_rank (show_one st p e) =
     (if p \<in> set (sf_manual st)
      then (case index_of (entry_id e) (seq_at st p) of
              None \<Rightarrow> child_rank e | Some i \<Rightarrow> (child_rank e)\<lparr>rs_rank := Some (Some (local_rank i))\<rparr>)
      else child_rank e)"
proof -
  let ?e = "if entry_id e = p then manually_ordered e else e"
  have "child_rank (ranked_in 0 ks x) = (case index_of (entry_id x) ks of
      None \<Rightarrow> child_rank x | Some i \<Rightarrow> (child_rank x)\<lparr>rs_rank := Some (Some (local_rank i))\<rparr>)"
    if "entry_parent x = Some q" for x ks
    using that by (cases "index_of (entry_id x) ks") (simp_all add: ranked_in_def del: index_of_None)
  from this [of ?e "seq_at st p"] show ?thesis
    using assms by (auto simp: show_one_def simp del: index_of_None split: option.split)
qed

lemma shown_rank:
  assumes "entry_parent e = Some q" and home: "\<And>p. entry_id e \<in> set (seq_at st p) \<longleftrightarrow> p = q"
  shows "child_rank (shown st ps e) =
     (if q \<in> set ps \<inter> set (sf_manual st)
      then (child_rank e)\<lparr>rs_rank := Some (Some (local_rank (the (index_of (entry_id e) (seq_at st q)))))\<rparr>
      else child_rank e)"
  using assms(1)
proof (induction ps rule: rev_induct)
  case (snoc p ps)
  let ?e = "shown st ps e"
  have parts: "entry_id ?e = entry_id e" "entry_parent ?e = Some q" using snoc.prems by simp_all
  note one = show_one_rank [OF parts(2), of st p, unfolded parts(1)]
  show ?case
  proof (cases "p = q")
    case True
    obtain i where "index_of (entry_id e) (seq_at st q) = Some i"
      using home [of q] by (cases "index_of (entry_id e) (seq_at st q)") auto
    then show ?thesis using snoc.IH [OF snoc.prems] one True by simp
  next
    case False
    then have "index_of (entry_id e) (seq_at st p) = None" using home [of p] by simp
    then show ?thesis using snoc.IH [OF snoc.prems] one False by (simp del: index_of_None)
  qed
qed simp

text \<open>A child is in the list of its own parent only.\<close>

lemma home_list:
  assumes "at_home projected [] st" and "distinct (map entry_id projected)" and "e \<in> set projected"
    and "entry_parent e = Some q"
  shows "entry_id e \<in> set (seq_at st p) \<longleftrightarrow> p = q"
proof -
  have "placed_ok st" and m: "map_of (sf_parents st) (entry_id e) = Some q" using assms by (auto simp: at_home_def)
  from placed_okD(1) [OF this(1), of "entry_id e" p] m show ?thesis by auto
qed

lemma home_members:
  assumes h: "at_home projected [] st" and d: "distinct (map entry_id projected)"
  shows "set (seq_at st p) = entry_id ` set (entries_under p projected)"
proof -
  have "\<exists>e \<in> set projected. entry_id e = k \<and> entry_parent e = Some p" if "k \<in> set (seq_at st p)" for k
  proof -
    have m: "map_of (sf_parents st) k = Some p" using h that by (auto simp: at_home_def placed_ok_def)
    then have "\<exists>e \<in> set projected. entry_id e = k \<and> entry_parent e \<noteq> None"
      using h by (simp add: at_home_def)
    then obtain e q where e: "e \<in> set projected" "entry_id e = k" "entry_parent e = Some q" by blast
    from h have "\<forall>e \<in> set projected. \<forall>p. entry_parent e = Some p \<longrightarrow>
        map_of (sf_parents st) (entry_id e) = Some p" by (simp add: at_home_def)
    then have "map_of (sf_parents st) (entry_id e) = Some q" using e(1,3) by blast
    with m e show ?thesis by (intro bexI [of _ e]) simp_all
  qed
  moreover have "entry_id e \<in> set (seq_at st p)" if "e \<in> set projected" "entry_parent e = Some p" for e
    using home_list [OF h d that] by simp
  ultimately show ?thesis by (auto simp: entries_under_def)
qed

lemma entries_get_map:
  assumes "\<And>e. entry_id (f e) = entry_id e"
  shows "entries_get k (map f es) = map_option f (entries_get k es)"
  using assms by (induction es) (auto simp: entries_get_def)

lemma entries_under_map:
  assumes "\<And>e. entry_parent (f e) = entry_parent e"
  shows "entries_under p (map f es) = map f (entries_under p es)"
  using assms by (simp add: entries_under_def filter_map o_def)

section \<open>What the tree displays\<close>

lemma displayed_list:
  assumes collate: "comparator collate" and d: "distinct (map entry_id projected)"
    and named: "[] \<notin> set (map entry_id projected)" and few: "length projected \<le> 10 ^ 12"
    and h: "at_home projected [] st" and entries: "cv_entries view = map (shown st ps) projected"
    and p: "p \<in> set ps \<inter> set (sf_manual st)" and holder: "entries_get p projected = Some e" "holds_children e"
  shows "map entry_id (catalog_children (index_catalog_view collate view) p) = seq_at st p"
proof -
  let ?out = "map (shown st ps) projected"
  let ?order = "display_order collate ?out p"
  let ?row = "\<lambda>k. the (entries_get k ?out)"
  have ids: "distinct (map entry_id ?out)" using d by (simp add: o_def)
  have cmp: "comparator ?order" by (rule comparator_on [OF catalog_siblings_comparator [OF collate]])
  have e: "e \<in> set projected" "entry_id e = p" using entries_get_Some [OF holder(1)] by auto
  have manual: "is_manual_parent (entries_get p ?out)"
    using holder p e by (simp add: entries_get_map shown_manual)
  have named': "[] \<notin> set (p # map entry_id (cv_entries view))"
    using named e by (force simp: entries o_def)
  have kids: "catalog_children (index_catalog_view collate view) p = sort_with ?order (entries_under p ?out)"
    using children_sorted [of view p collate] ids named' by (simp add: entries)
  have seq: "distinct (seq_at st p)" using h by (simp add: at_home_def placed_ok_def)
  have row: "?row (entry_id x) = shown st ps x \<and> entry_parent x = Some p"
    if "x \<in> set (entries_under p projected)" for x
    using that entries_get_mem [OF d, of x] by (simp add: entries_get_map entries_under_def)
  have rank: "child_rank (shown st ps x) =
      (child_rank x)\<lparr>rs_rank := Some (Some (local_rank (the (index_of (entry_id x) (seq_at st p)))))\<rparr>"
    if "x \<in> set (entries_under p projected)" for x
    using shown_rank [OF _ home_list [OF h d]] that p by (simp add: entries_under_def)
  have members: "set (seq_at st p) = entry_id ` set (entries_under p projected)" by (rule home_members [OF h d])
  have "length (seq_at st p) = card (entry_id ` set (entries_under p projected))"
    using distinct_card [OF seq] members by simp
  also have "\<dots> \<le> length projected"
    using card_image_le [of "set (entries_under p projected)" entry_id]
      card_length [of "entries_under p projected"] length_filter_le [of _ projected]
    by (force simp: entries_under_def intro: le_trans)
  finally have short: "length (seq_at st p) \<le> 10 ^ 12" using few by simp
  have less: "?order (?row (seq_at st p ! i)) (?row (seq_at st p ! j)) \<le> 0"
    if ij: "i < j" "j < length (seq_at st p)" for i j
  proof -
    have "seq_at st p ! i \<in> entry_id ` set (entries_under p projected)"
      "seq_at st p ! j \<in> entry_id ` set (entries_under p projected)"
      using members ij nth_mem [of i "seq_at st p"] nth_mem [of j "seq_at st p"] by auto
    then obtain x y where x: "x \<in> set (entries_under p projected)" "entry_id x = seq_at st p ! i"
      and y: "y \<in> set (entries_under p projected)" "entry_id y = seq_at st p ! j" by force
    have "index_of (entry_id x) (seq_at st p) = Some i" "index_of (entry_id y) (seq_at st p) = Some j"
      using index_of_nth [OF seq] x y ij by simp_all
    moreover have "local_rank i < local_rank j" "local_rank i \<noteq> local_rank j"
      using local_rank_less [of i j] ij short by auto
    ultimately show ?thesis
      using row [OF x(1)] row [OF y(1)] rank [OF x(1)] rank [OF y(1)] x(2) y(2) manual
      by (simp add: compare_catalog_siblings_def rank_text_def)
  qed
  have row_id: "entry_id (?row k) = k" if k: "k \<in> set (seq_at st p)" for k
  proof -
    obtain x where "x \<in> set (entries_under p projected)" "k = entry_id x" using k members by auto
    then show ?thesis using row [of x] by simp
  qed
  have "sort_with ?order (entries_under p ?out) = map ?row (seq_at st p)"
  proof (rule comparator.sorted_unique [OF cmp comparator.sort_sorted [OF cmp]])
    show "sorted_wrt (\<lambda>x y. ?order x y \<le> 0) (map ?row (seq_at st p))"
      unfolding sorted_wrt_iff_nth_less using less by simp
    show "distinct (sort_with ?order (entries_under p ?out))"
      using conjunct1 [OF iffD1 [OF distinct_map ids]] by (simp add: entries_under_def)
    show "set (sort_with ?order (entries_under p ?out)) = set (map ?row (seq_at st p))"
      using members row by (force simp: entries_under_map image_image)
    show "distinct (map ?row (seq_at st p))"
    proof -
      have "inj_on ?row (set (seq_at st p))"
        by (rule inj_on_inverseI [where g = entry_id]) (rule row_id)
      then show ?thesis using seq by (simp add: distinct_map)
    qed
    fix x y assume xy: "x \<in> set (sort_with ?order (entries_under p ?out))"
      "y \<in> set (sort_with ?order (entries_under p ?out))" and tie: "?order x y = 0"
    then have mem: "x \<in> set ?out" "entry_parent x = Some p" "y \<in> set ?out" "entry_parent y = Some p"
      by (simp_all add: entries_under_def)
    have "entry_id x = entry_id y"
      using siblings_tie [OF tie] child_ranked [OF mem(2)] child_ranked [OF mem(4)] by simp
    then show "x = y" by (rule inj_onD [OF conjunct2 [OF iffD1 [OF distinct_map ids]] _ mem(1,3)])
  qed
  then have "map entry_id (catalog_children (index_catalog_view collate view) p) =
      map (\<lambda>k. entry_id (?row k)) (seq_at st p)" by (simp add: kids o_def)
  also have "\<dots> = map id (seq_at st p)" by (rule map_cong) (simp_all add: row_id)
  finally show ?thesis by simp
qed

lemma undisplaced_list:
  assumes d: "distinct (map entry_id projected)" and named: "[] \<notin> set (map entry_id projected)"
    and h: "at_home projected [] st" and entries: "cv_entries view = map (shown st ps) projected"
    and before: "cv_entries before = projected" and e: "entries_get p projected = Some e"
    and p: "\<not> (holds_children e \<and> p \<in> set ps \<inter> set (sf_manual st))"
  shows "map entry_id (catalog_children (index_catalog_view collate view) p) =
     map entry_id (catalog_children (index_catalog_view collate before) p)"
proof -
  let ?out = "map (shown st ps) projected"
  have ids: "distinct (map entry_id ?out)" using d by (simp add: o_def)
  have e': "e \<in> set projected" "entry_id e = p" using entries_get_Some [OF e] by auto
  have named': "[] \<notin> set (p # map entry_id projected)" using named e' by force
  have manual: "is_manual_parent (entries_get p ?out) = is_manual_parent (entries_get p projected)"
    using e p e' by (auto simp: entries_get_map shown_manual)
  have same: "display_order collate ?out p (shown st ps x) (shown st ps y) = display_order collate projected p x y"
    if x: "x \<in> set (entries_under p projected)" and y: "y \<in> set (entries_under p projected)" for x y
  proof -
    have parts: "x \<in> set projected" "entry_parent x = Some p" "y \<in> set projected" "entry_parent y = Some p"
      using x y by (simp_all add: entries_under_def)
    note rx = shown_rank [OF parts(2) home_list [OF h d parts(1,2)], of ps]
      and ry = shown_rank [OF parts(4) home_list [OF h d parts(3,4)], of ps]
    show ?thesis
    proof (cases "holds_children e")
      case True
      then have "p \<notin> set ps \<inter> set (sf_manual st)" using p by blast
      then show ?thesis unfolding rx ry manual by (simp only: if_False)
    next
      case False
      then have "\<not> is_manual_parent (entries_get p projected)" using e manual_holds by auto
      then show ?thesis
        using rx ry manual by (simp add: compare_catalog_siblings_def default_of_def)
    qed
  qed
  have "catalog_children (index_catalog_view collate view) p =
      sort_with (display_order collate ?out p) (entries_under p ?out)"
    using children_sorted [of view p collate] ids named' entries by (simp add: o_def)
  also have "\<dots> = map (shown st ps) (sort_with (\<lambda>x y. display_order collate ?out p (shown st ps x) (shown st ps y))
      (entries_under p projected))"
    by (simp add: entries_under_map sort_with_map)
  also have "sort_with (\<lambda>x y. display_order collate ?out p (shown st ps x) (shown st ps y)) (entries_under p projected) =
      sort_with (display_order collate projected p) (entries_under p projected)"
    by (rule sort_with_cong) (rule same)
  also have "\<dots> = catalog_children (index_catalog_view collate before) p"
    using children_sorted [of before p collate] d named' before by simp
  finally show ?thesis by (simp add: o_def)
qed

lemma located: "op \<in> set (location_ops projectId entries records folders) \<Longrightarrow> op_destination op \<noteq> None"
  by (simp add: location_ops_def)

lemma projected_rows:
  assumes d: "distinct (map entry_id projected)" and n: "ids_named canonical projected ops"
    and ops: "ops = location_ops projectId (entries_of projected) records folders"
    and st: "st = folded_order collate projectId canonical projected ops"
  shows "at_home projected [] st"
    and "project_optimistic_sibling_order collate projectId canonical projected records folders =
       map (shown st (sf_affected st)) projected"
proof -
  have l: "\<forall>op \<in> set ops. op_destination op \<noteq> None" using located ops by blast
  show home: "at_home projected [] st"
    using fold_at_home [OF d n l, of ops "[]"] st folded_upto [OF d] by simp
  then have seq: "distinct (seq_at st p)" for p by (simp add: at_home_def placed_ok_def)
  show "project_optimistic_sibling_order collate projectId canonical projected records folders =
       map (shown st (sf_affected st)) projected"
  proof (cases "ops = []")
    case True
    have "\<forall>e \<in> set projected. base_parent (entries_of canonical) {} e \<noteq> Some []"
      using n by (auto simp: base_parent_def ids_named_def split: option.split)
    from sibling_baseline_ok(4) [OF d this] have "sf_affected st = []"
      using True st folded_upto [OF d] by (simp add: fold_upto_def)
    then show ?thesis using True ops by (simp add: project_optimistic_sibling_order_def Let_def)
  next
    case False
    then show ?thesis
      using fold_show_order [OF d seq, of "sf_affected st"] ops st entries_of_distinct [OF d]
      by (simp add: project_optimistic_sibling_order_def Let_def)
  qed
qed

text \<open>C17: While placements are unresolved the tree shows the server's rows in the writer's order: the
  projection changes nothing of a row but its rank and its order policy, every child is in the folded
  list of its own parent, and the children displayed under a manually ordered parent a placement
  touched are exactly its folded list; every other parent displays what it did before.\<close>

theorem optimistic_order_is_displayed:
  assumes "comparator collate" and "distinct (map entry_id projected)" and "length projected \<le> 10 ^ 12"
    and "ops = location_ops projectId (entries_of projected) records folders"
    and "ids_named canonical projected ops"
    and "st = folded_order collate projectId canonical projected ops"
    and "cv_entries view = project_optimistic_sibling_order collate projectId canonical projected records folders"
    and "cv_entries before = projected" and "entries_get p projected = Some e"
  shows "map unordered (cv_entries view) = map unordered projected \<and>
     set (seq_at st p) = entry_id ` {x \<in> set projected. entry_parent x = Some p} \<and>
     map entry_id (catalog_children (index_catalog_view collate view) p) =
       (if holds_children e \<and> p \<in> set (sf_affected st) \<inter> set (sf_manual st) then seq_at st p
        else map entry_id (catalog_children (index_catalog_view collate before) p))"
proof -
  note rows = projected_rows [OF assms(2,5,4,6)]
  have named: "[] \<notin> set (map entry_id projected)" using assms(5) by (simp add: ids_named_def)
  have entries: "cv_entries view = map (shown st (sf_affected st)) projected" using assms(7) rows(2) by simp
  have "map unordered (cv_entries view) = map unordered projected"
    by (simp add: entries shown_unordered o_def)
  moreover have "set (seq_at st p) = entry_id ` {x \<in> set projected. entry_parent x = Some p}"
    using home_members [OF rows(1) assms(2), of p] by (simp add: entries_under_def)
  moreover note displayed_list [OF assms(1,2) named assms(3) rows(1) entries _ assms(9)]
    undisplaced_list [OF assms(2) named rows(1) entries assms(8,9)]
  ultimately show ?thesis by auto
qed

lemma insert_before_at:
  assumes "index_of a xs = Some i"
  shows "insert_before i k xs = take i xs @ [k, a] @ drop (Suc i) xs"
    "insert_before (Suc i) k xs = take i xs @ [a, k] @ drop (Suc i) xs"
proof -
  note i = index_of_Some [OF assms]
  have "drop i xs = a # drop (Suc i) xs" using i Cons_nth_drop_Suc by metis
  then show "insert_before i k xs = take i xs @ [k, a] @ drop (Suc i) xs" by (simp add: insert_before_def)
  have "take (Suc i) xs = take i xs @ [a]" using i take_Suc_conv_app_nth by metis
  then show "insert_before (Suc i) k xs = take i xs @ [a, k] @ drop (Suc i) xs" by (simp add: insert_before_def)
qed

text \<open>Where a position says an entry stands in a list.\<close>

fun stands :: "sibling_position \<Rightarrow> string \<Rightarrow> string list \<Rightarrow> bool" where
  "stands AtStart k ids = (\<exists>rest. ids = k # rest)"
| "stands AtEnd k ids = (\<exists>rest. ids = rest @ [k])"
| "stands (BeforeSibling a) k ids = (a \<in> set ids - {k} \<longrightarrow> (\<exists>us vs. ids = us @ [k, a] @ vs))"
| "stands (AfterSibling a) k ids = (a \<in> set ids - {k} \<longrightarrow> (\<exists>us vs. ids = us @ [a, k] @ vs))"

lemma inserted_stands: "k \<notin> set ids \<Longrightarrow> stands pos k (insert_at_position ids k pos prev)"
proof (cases pos)
  case (BeforeSibling a)
  then show ?thesis
    by (cases "index_of a ids")
      (auto simp: insert_at_position_def Let_def insert_before_at simp del: append_Cons split: option.splits)
next
  case (AfterSibling a)
  then show ?thesis
    by (cases "index_of a ids")
      (auto simp: insert_at_position_def Let_def insert_before_at simp del: append_Cons split: option.splits)
qed (auto simp: insert_at_position_def Let_def)

text \<open>C18: The writer's newest placement is honoured at once: when it gives a position, the entry is
  displayed there among the children of its parent, directly before or after the sibling it names
  when that sibling is displayed there too.\<close>

theorem newest_placement_stands_where_it_says:
  assumes "comparator collate" and "distinct (map entry_id projected)" and "length projected \<le> 10 ^ 12"
    and "location_ops projectId (entries_of projected) records folders = earlier @ [op]"
    and "ids_named canonical projected (earlier @ [op])"
    and "op_destination op = Some d" and "dest_position d = Some pos"
    and "entries_get (po_subject op) projected = Some x" and "entry_parent x = Some p"
    and "entries_get p projected = Some e" and "holds_children e"
    and "cv_entries view = project_optimistic_sibling_order collate projectId canonical projected records folders"
  shows "stands pos (po_subject op) (map entry_id (catalog_children (index_catalog_view collate view) p))"
proof -
  let ?ops = "earlier @ [op]" and ?k = "po_subject op"
  define before where "before = fold_upto collate projectId canonical projected ?ops earlier"
  define st where "st = folded_order collate projectId canonical projected ?ops"
  have subject: "Option.bind (entries_get ?k projected) entry_parent = Some p" using assms(8,9) by simp
  have t: "op_target projectId projected (last_ops ?ops) op d p = p"
    using last_ops_last [of op "[]" earlier] by (simp add: op_target_def)
  have "\<forall>op \<in> set ?ops. op_destination op \<noteq> None" using located assms(4) by metis
  from fold_at_home [OF assms(2,5) this, of earlier "[op]"]
  have ok: "placed_ok before" by (simp add: at_home_def before_def)
  have "st = fold_op collate projectId projected projected (last_ops ?ops) op before"
    using folded_upto [OF assms(2)] by (simp add: st_def before_def fold_upto_def)
  then obtain prev where st: "st = put_into collate projected p ?k (Some pos) prev
      (take_from (map_of (sf_parents before) ?k) ?k before)"
    using fold_op_cases [of collate projectId projected projected "last_ops ?ops" op before]
      subject assms(6,7) t by (metis option.distinct(1) option.inject)
  note rows = projected_rows [OF assms(2,5) assms(4) [symmetric] st_def]
  have named: "[] \<notin> set (map entry_id projected)" using assms(5) by (simp add: ids_named_def)
  have entries: "cv_entries view = map (shown st (sf_affected st)) projected" using assms(12) rows(2) by simp
  have seq: "seq_at st p = insert_at_position (filter (\<lambda>y. y \<noteq> ?k) (seq_at before p)) ?k pos prev"
    by (simp add: st arrived_def take_from_seq [OF ok refl])
  have "p \<in> set (sf_affected st) \<inter> set (sf_manual st)"
    by (auto simp: st put_into_def add_to_def Let_def)
  then have "map entry_id (catalog_children (index_catalog_view collate view) p) = seq_at st p"
    by (intro displayed_list [OF assms(1,2) named assms(3) rows(1) entries _ assms(10,11)])
  then show ?thesis using inserted_stands seq by simp
qed

section \<open>A concrete order\<close>

abbreviation ex_row :: "string \<Rightarrow> string \<Rightarrow> catalog_entry" where
  "ex_row k name \<equiv> ex_catalog_file k name None"

definition ex_row_source :: catalog_entry where
  "ex_row_source = SourceEntry \<lparr>cs_entryId = ''s'', cs_scope = ProjectScope ''p'', cs_scheme = Unfiled,
     cs_name = ''Unfiled'', cs_uri = ''unfiled://'', cs_orderPolicy = None\<rparr>"

definition ex_rows :: "catalog_entry list" where
  "ex_rows = [ex_row_source, ex_row ''d1'' ''a'', ex_row ''d2'' ''b'', ex_row ''d3'' ''c'']"

text \<open>Document \<open>d1\<close> is to stand right after \<open>d2\<close>.\<close>

definition ex_moved :: resource_record where
  "ex_moved = \<lparr>rec_resource = ex_resource, rec_intents =
     [(ex_intent 1 Pending (SetLocation ''a'' ((ex_destination ''a'')\<lparr>dest_position := Some (AfterSibling ''d2'')\<rparr>)) [])
       \<lparr>int_admission := Some \<lparr>adm_order = 1, adm_scope = [], adm_predecessors = []\<rparr>\<rparr>]\<rparr>"

definition ex_shown :: catalog_view where
  "ex_shown = (empty_catalog_view (ProjectScope ''p''))\<lparr>cv_entries :=
     project_optimistic_sibling_order compare_text ''p'' ex_rows ex_rows [ex_moved] []\<rparr>"

lemma ex_order_given:
  "distinct (map entry_id ex_rows)" "length ex_rows \<le> 10 ^ 12"
  "ids_named ex_rows ex_rows (location_ops ''p'' (entries_of ex_rows) [ex_moved] [])"
  "cv_entries ex_shown = project_optimistic_sibling_order compare_text ''p'' ex_rows ex_rows [ex_moved] []"
  "entries_get ''s'' ex_rows = Some ex_row_source"
proof -
  show "length ex_rows \<le> 10 ^ 12" by (simp add: ex_rows_def)
  have ops: "location_ops ''p'' (entries_of ex_rows) [ex_moved] [] =
      [hd (location_ops ''p'' (entries_of ex_rows) [ex_moved] [])]"
    "op_destination (hd (location_ops ''p'' (entries_of ex_rows) [ex_moved] [])) =
      Some ((ex_destination ''a'')\<lparr>dest_position := Some (AfterSibling ''d2'')\<rparr>)" by code_simp+
  have rows: "[] \<notin> set (map entry_id ex_rows)" "\<forall>e \<in> set ex_rows. entry_parent e \<noteq> Some []" by code_simp+
  show "ids_named ex_rows ex_rows (location_ops ''p'' (entries_of ex_rows) [ex_moved] [])"
    unfolding ids_named_def using rows ops(2)
    by (subst ops(1)) (simp add: ex_destination_def del: op_destination.simps)
qed (code_simp | simp add: ex_shown_def)+

theorem optimistic_order_is_displayed_witness:
  "map entry_id (catalog_children (index_catalog_view compare_text ex_shown) ''s'') = [''d2'', ''d1'', ''d3'']"
proof -
  let ?st = "folded_order compare_text ''p'' ex_rows ex_rows (location_ops ''p'' (entries_of ex_rows) [ex_moved] [])"
  have "seq_at ?st ''s'' = [''d2'', ''d1'', ''d3'']" "''s'' \<in> set (sf_affected ?st) \<inter> set (sf_manual ?st)"
    by code_simp+
  then show ?thesis
    using optimistic_order_is_displayed [OF bytes.comparator_axioms ex_order_given(1,2) refl ex_order_given(3) refl
        ex_order_given(4) _ ex_order_given(5), of "empty_catalog_view (ProjectScope ''p'')\<lparr>cv_entries := ex_rows\<rparr>"]
    by (simp add: ex_row_source_def)
qed

theorem newest_placement_stands_where_it_says_witness:
  "\<exists>us vs. map entry_id (catalog_children (index_catalog_view compare_text ex_shown) ''s'') =
     us @ [''d2'', ''d1''] @ vs"
proof -
  let ?op = "hd (location_ops ''p'' (entries_of ex_rows) [ex_moved] [])"
  have ops: "location_ops ''p'' (entries_of ex_rows) [ex_moved] [] = [] @ [?op]"
    and op: "op_destination ?op = Some ((ex_destination ''a'')\<lparr>dest_position := Some (AfterSibling ''d2'')\<rparr>)"
      "entries_get (po_subject ?op) ex_rows = Some (ex_row ''d1'' ''a'')" "po_subject ?op = ''d1''"
      "entry_parent (ex_row ''d1'' ''a'') = Some ''s''" "holds_children ex_row_source"
    by code_simp+
  have n: "ids_named ex_rows ex_rows ([] @ [?op])"
    by (rule ops [THEN subst [where P = "ids_named ex_rows ex_rows"], OF ex_order_given(3)])
  have "''d2'' \<in> set (map entry_id (catalog_children (index_catalog_view compare_text ex_shown) ''s''))"
    by code_simp
  then show ?thesis
    using newest_placement_stands_where_it_says [OF bytes.comparator_axioms ex_order_given(1,2) ops
        n op(1) _ op(2,4) ex_order_given(5) op(5) ex_order_given(4),
        of "AfterSibling ''d2''"] op(3) by simp
qed

end
