(* ===== verification/Event_Seq.thy ===== *)
theory Event_Seq
  imports Sibling_Order Digit_Strings
begin

text \<open>
  Event sequence cursors (\<^verbatim>\<open>protocol/event-seq.ts\<close> of the contracts package): decimal strings
  compared by length and then by code units, whether or not they are well formed.
\<close>

definition parse_seq :: "string \<Rightarrow> string option" where
  "parse_seq s = (if canonical_decimal s then Some s else None)"

definition compare_seq :: "string \<Rightarrow> string \<Rightarrow> int" where
  "compare_seq a b =
     (case (parse_seq a, parse_seq b) of
        (Some x, Some y) \<Rightarrow>
          if x = y then 0
          else if length x \<noteq> length y then (if length x > length y then 1 else - 1)
          else (if x > y then 1 else - 1)
      | _ \<Rightarrow>
          if a = b then 0
          else if length a \<noteq> length b then (if length a > length b then 1 else - 1)
          else (if a > b then 1 else - 1))"

definition head_seq :: "string \<Rightarrow> string" where
  "head_seq nextSeq =
     (case parse_seq nextSeq of
        None \<Rightarrow> ''0''
      | Some n \<Rightarrow> if n = ''0'' then ''0''
          else (case radix_value 10 n of None \<Rightarrow> ''0'' | Some v \<Rightarrow> show_nat (nat (v - 1))))"

section \<open>Cursors are ordered\<close>

lemma compare_seq_shortlex:
  "compare_seq a b =
     (if a = b then 0 else if length a \<noteq> length b then (if length a > length b then 1 else - 1)
      else (if a > b then 1 else - 1))"
  by (simp add: compare_seq_def parse_seq_def)

interpretation seqs: comparator compare_seq
proof
  fix x y z
  show "sgn (compare_seq y x) = - sgn (compare_seq x y)" by (auto simp: compare_seq_shortlex)
  assume "compare_seq x y \<le> 0" "compare_seq y z \<le> 0"
  then show "compare_seq x z \<le> 0" by (auto simp: compare_seq_shortlex split: if_splits)
qed

lemma compare_seq_zero [simp]: "compare_seq a b = 0 \<longleftrightarrow> a = b"
  by (auto simp: compare_seq_shortlex)

lemma compare_seq_swap: "0 < compare_seq a b \<longleftrightarrow> compare_seq b a < 0"
  by (rule seqs.less_swap)

lemma compare_seq_cases:
  obtains "a = b" | "compare_seq a b < 0" | "0 < compare_seq a b"
  by (meson compare_seq_zero linorder_neqE_linordered_idom)

lemma compare_seq_flip: "compare_seq a b \<le> 0 \<longleftrightarrow> 0 \<le> compare_seq b a"
  using seqs.less_swap [of a b] by linarith

lemma seq_trans: "0 \<le> compare_seq a b \<Longrightarrow> 0 \<le> compare_seq b c \<Longrightarrow> 0 \<le> compare_seq a c"
  using seqs.trans_le [of c b a] compare_seq_flip by blast

lemma seq_total: "0 \<le> compare_seq a b \<or> 0 \<le> compare_seq b a"
  using seqs.total [of a b] compare_seq_flip by blast

lemma seq_antisym: "0 \<le> compare_seq a b \<Longrightarrow> 0 \<le> compare_seq b a \<Longrightarrow> a = b"
  using seqs.le_both [of a b] compare_seq_flip [of a b] compare_seq_flip [of b a] by simp

section \<open>Cursors are numbers\<close>

definition seq_number :: "string \<Rightarrow> nat" where
  "seq_number s = digits_value s"

lemma radix_digits_value:
  "list_all is_digit s \<Longrightarrow> 0 \<le> acc \<Longrightarrow>
     radix_digits 10 acc s = Some (acc * 10 ^ length s + int (digits_value s))"
proof (induction s arbitrary: acc)
  case (Cons c s)
  have "\<forall>c \<in> set ''0123456789''. radix_digit 10 c = Some (int (of_char c - 48))" by code_simp
  then have c: "radix_digit 10 c = Some (int (of_char c - 48))" 
    using Cons.prems(1) unfolding is_digit_def list.pred_inject(2) by blast
  define d where "d = (of_char c - 48 :: nat)"
  show ?case
    using Cons.IH [of "10 * acc + int d"] Cons.prems c
    unfolding digits_value_Cons d_def [symmetric] by (simp add: algebra_simps)
qed (simp add: digits_value_def)

lemma leading_digit:
  assumes "canonical_decimal s" and "s \<noteq> ''0''"
  shows "10 ^ (length s - 1) \<le> seq_number s"
proof -
  obtain c cs where s: "s = c # cs" "is_digit c" "c \<noteq> CHR ''0''"
    using assms by (cases s) (auto simp: canonical_decimal_def)
  have "\<forall>c \<in> set ''0123456789''. c = CHR ''0'' \<or> 1 \<le> (of_char c - 48 :: nat)" by code_simp
  then have "1 \<le> (of_char c - 48 :: nat)" using s by (auto simp: is_digit_def)
  then have "1 * 10 ^ length cs \<le> (of_char c - 48 :: nat) * 10 ^ length cs" by (rule mult_right_mono) simp
  then have "10 ^ length cs \<le> (of_char c - 48 :: nat) * 10 ^ length cs + digits_value cs" by linarith
  then show ?thesis by (simp only: s(1) seq_number_def digits_value_Cons length_Cons diff_Suc_1)
qed

lemma seq_digits: "canonical_decimal s \<Longrightarrow> list_all is_digit s \<and> s \<noteq> []"
  using canonical_decimal_digits by blast

lemma shorter_less:
  assumes "canonical_decimal a" and "canonical_decimal b" and "length a < length b"
  shows "seq_number a < seq_number b"
proof -
  have "b \<noteq> ''0''" using assms(3) seq_digits [OF assms(1)] by auto
  then have "10 ^ (length b - 1) \<le> seq_number b" by (rule leading_digit [OF assms(2)])
  moreover have "seq_number a < 10 ^ length a"
    using digits_value_bound seq_digits [OF assms(1)] by (simp add: seq_number_def)
  moreover have "(10 :: nat) ^ length a \<le> 10 ^ (length b - 1)" using assms(3) by (intro power_increasing) auto
  ultimately show ?thesis by linarith
qed

lemma seq_number_inj:
  assumes "length a = length b" and "list_all is_digit a" and "list_all is_digit b"
    and "seq_number a = seq_number b"
  shows "a = b"
  using assms
proof (induction a b rule: list_induct2)
  case (Cons x xs y ys)
  let ?x = "of_char x - 48 :: nat" and ?y = "of_char y - 48 :: nat"
  have v: "?x * 10 ^ length ys + digits_value xs = ?y * 10 ^ length ys + digits_value ys"
    using Cons.prems(3) Cons.hyps by (simp add: seq_number_def digits_value_Cons)
  have b: "digits_value xs < 10 ^ length ys" "digits_value ys < 10 ^ length ys"
    using digits_value_bound [of xs] digits_value_bound [of ys] Cons.prems Cons.hyps by simp_all
  have "?x = (?x * 10 ^ length ys + digits_value xs) div 10 ^ length ys" using b by simp
  also have "\<dots> = ?y" using v b by simp
  finally have xy: "?x = ?y" .
  moreover have "48 \<le> (of_char x :: nat)" "48 \<le> (of_char y :: nat)"
    using digit_bounds Cons.prems(1,2) by simp_all
  ultimately have "(of_char x :: nat) = of_char y" by linarith
  moreover have "xs = ys" using Cons.IH Cons.prems v xy by (simp add: seq_number_def)
  ultimately show ?case by simp
qed simp

lemma compare_seq_number:
  assumes "canonical_decimal a" and "canonical_decimal b"
  shows "sgn (compare_seq a b) = sgn (int (seq_number a) - int (seq_number b))"
proof (cases "length a = length b")
  case True
  consider "seq_number a < seq_number b" | "seq_number b < seq_number a" | "seq_number a = seq_number b" by linarith
  then show ?thesis
  proof cases
    case 1
    then have "a < b"
      using digits_less [OF True] seq_digits assms by (simp add: seq_number_def)
    then show ?thesis using 1 True by (auto simp: compare_seq_shortlex)
  next
    case 2
    then have "b < a"
      using digits_less [OF True [symmetric]] seq_digits assms by (simp add: seq_number_def)
    then show ?thesis using 2 True by (auto simp: compare_seq_shortlex)
  next
    case 3
    then show ?thesis using seq_number_inj [OF True] seq_digits assms by simp
  qed
next
  case False
  then show ?thesis
    using shorter_less [OF assms] shorter_less [OF assms(2,1)]
    by (cases "length a < length b") (auto simp: compare_seq_shortlex)
qed

lemma show_nat_canonical: "canonical_decimal (show_nat n)"
proof (induction n rule: show_nat.induct)
  case (1 n)
  show ?case
  proof (cases "n < 10")
    case True
    have "\<forall>m \<in> set [0..<10]. canonical_decimal (show_nat m)" by code_simp
    then show ?thesis using True by simp
  next
    case False
    have "hd (show_nat n) = hd (show_nat (n div 10))" "show_nat n \<noteq> []" "show_nat (n div 10) \<noteq> ''0''"
    proof -
      have ne: "show_nat (n div 10) \<noteq> []" using 1 [OF False] by (auto simp: canonical_decimal_def)
      then show "hd (show_nat n) = hd (show_nat (n div 10))" "show_nat n \<noteq> []"
        using False by (subst show_nat.simps; simp)+
      have "show_nat 0 = ''0''" by code_simp
      moreover have "n div 10 \<noteq> 0" using False by auto
      ultimately show "show_nat (n div 10) \<noteq> ''0''" using show_nat_inj by metis
    qed
    then show ?thesis
      using 1 [OF False] show_nat_all_digits [of n] by (auto simp: canonical_decimal_def)
  qed
qed

lemma head_seq_number:
  assumes "canonical_decimal b" and "b \<noteq> ''0''"
  shows "canonical_decimal (head_seq b)" and "seq_number (head_seq b) = seq_number b - 1"
proof -
  have "radix_value 10 b = Some (int (seq_number b))"
    using radix_digits_value [of b 0] seq_digits [OF assms(1)] by (simp add: radix_value_def seq_number_def)
  moreover have "nat (int (seq_number b) - 1) = seq_number b - 1" by linarith
  ultimately have h: "head_seq b = show_nat (seq_number b - 1)"
    using assms by (simp add: head_seq_def parse_seq_def)
  show "canonical_decimal (head_seq b)" by (simp add: h show_nat_canonical)
  show "seq_number (head_seq b) = seq_number b - 1"
    using show_nat_value by (simp add: h seq_number_def digits_value_def)
qed

text \<open>Comparing two well-formed cursors compares the numbers they spell, however long, and the
  head of a snapshot's next cursor covers exactly the cursors below it.\<close>

theorem seqs_compare_as_numbers:
  assumes "canonical_decimal a" and "canonical_decimal b"
  shows "sgn (compare_seq a b) = sgn (int (seq_number a) - int (seq_number b)) \<and>
     (b \<noteq> ''0'' \<longrightarrow> (compare_seq a (head_seq b) \<le> 0 \<longleftrightarrow> compare_seq a b < 0))"
proof -
  have "compare_seq a (head_seq b) \<le> 0 \<longleftrightarrow> compare_seq a b < 0" if b: "b \<noteq> ''0''"
  proof -
    have "0 < seq_number b"
      using leading_digit [OF assms(2) b] by (rule less_le_trans [rotated]) simp
    moreover have "0 < compare_seq a (head_seq b) \<longleftrightarrow> 0 < int (seq_number a) - int (seq_number (head_seq b))"
      using compare_seq_number [OF assms(1) head_seq_number(1) [OF assms(2) b]] by (metis sgn_greater)
    moreover have "compare_seq a b < 0 \<longleftrightarrow> int (seq_number a) - int (seq_number b) < 0"
      using compare_seq_number [OF assms] by (metis sgn_less)
    ultimately show ?thesis using head_seq_number(2) [OF assms(2) b] by linarith
  qed
  then show ?thesis using compare_seq_number [OF assms] by blast
qed

theorem seqs_compare_as_numbers_witness:
  "sgn (compare_seq ''9'' ''10'') = sgn (int (seq_number ''9'') - int (seq_number ''10'')) \<and>
     compare_seq ''9'' (head_seq ''10'') \<le> 0"
proof -
  have c: "canonical_decimal ''9''" "canonical_decimal ''10''" "compare_seq ''9'' ''10'' < 0" by code_simp+
  from seqs_compare_as_numbers [OF c(1,2)] c(3) show ?thesis by simp
qed

end
