(* ===== verification/Run_State.thy ===== *)
theory Run_State
  imports Event_Seq
begin

text \<open>
  The run state of a chat on a client (\<^verbatim>\<open>packages/thread-client/src/run-state\<close>): the newest record any
  carrier delivered and this device's intents it does not cover (\<^verbatim>\<open>run-state-view.ts\<close>), and the
  selectors over both (\<^verbatim>\<open>fold-messages.ts\<close>, \<^verbatim>\<open>fold-switches.ts\<close>, \<^verbatim>\<open>durable-controls.ts\<close>).
\<close>

section \<open>Records\<close>

datatype write_mode = DraftMode | DirectMode

datatype control_body = CompactControl "string option" | WriteModeControl write_mode

datatype message_provenance =
    FromWriter string
  | FromAgent string
  | FromChild string string string string string
  | FromSystem string

datatype message_intent = MessageItem | NoticeItem | ControlItem

datatype delivery_state = AwaitingRun | WaitingDelivery

record inbox_item =
  it_id :: string
  it_seq :: int
  it_intent :: message_intent
  it_control :: "control_body option"
  it_provenance :: message_provenance
  it_delivery :: delivery_state
  it_summary :: string
  it_enqueuedAt :: string

record open_execution =
  oe_executionId :: string
  oe_currentTurnId :: "string option"

record run_state =
  run_version :: string
  run_items :: "inbox_item list"
  run_sentThrough :: int
  run_execution :: "open_execution option"
  run_mode :: write_mode
  run_creditsExhausted :: bool

section \<open>Intents\<close>

datatype intent_kind = MessageKind | HandBackKind | SwitchKind | WithdrawKind

record occurrence =
  oc_requestId :: string
  oc_attempt :: int

text \<open>What a failed command carries besides its attempt is read by no rule here.\<close>

record command_failure =
  cf_occurrence :: occurrence
  cf_failureKind :: string
  cf_submissionId :: "string option"

record switch_intent =
  sw_order :: int
  sw_mode :: write_mode
  sw_awaitingServer :: bool
  sw_failure :: "command_failure option"

datatype intent_body =
    MessageBody
  | HandBackBody "string list" bool
  | SwitchBody switch_intent
  | WithdrawBody int bool occurrence

record run_intent =
  ri_id :: string
  ri_answer :: "string option"
  ri_body :: intent_body

fun body_kind :: "intent_body \<Rightarrow> intent_kind" where
  "body_kind MessageBody = MessageKind"
| "body_kind (HandBackBody _ _) = HandBackKind"
| "body_kind (SwitchBody _) = SwitchKind"
| "body_kind (WithdrawBody _ _ _) = WithdrawKind"

definition intent_key :: "run_intent \<Rightarrow> intent_kind \<times> string" where
  "intent_key i = (body_kind (ri_body i), ri_id i)"

record run_view =
  vw_record :: "run_state option"
  vw_intents :: "run_intent list"
  vw_answers :: "intent_kind \<times> string \<Rightarrow> string option"

definition initial_run_view :: run_view where
  "initial_run_view = \<lparr>vw_record = None, vw_intents = [], vw_answers = (\<lambda>_. None)\<rparr>"

definition covered :: "run_state option \<Rightarrow> string option \<Rightarrow> bool" where
  "covered record answer =
     (case (answer, record) of
        (Some a, Some r) \<Rightarrow> compare_seq (run_version r) a \<ge> 0
      | _ \<Rightarrow> False)"

definition later :: "string option \<Rightarrow> string option \<Rightarrow> string option" where
  "later a b =
     (case (a, b) of
        (None, _) \<Rightarrow> b
      | (_, None) \<Rightarrow> a
      | (Some x, Some y) \<Rightarrow> if compare_seq x y \<ge> 0 then a else b)"

definition with_answer ::
  "(intent_kind \<times> string \<Rightarrow> string option) \<Rightarrow> intent_kind \<times> string \<Rightarrow> string
     \<Rightarrow> (intent_kind \<times> string \<Rightarrow> string option)" where
  "with_answer answers k version =
     (case answers k of
        Some held \<Rightarrow> if compare_seq held version \<ge> 0 then answers else answers(k := Some version)
      | None \<Rightarrow> answers(k := Some version))"

text \<open>Covered intents leave; a switch keeps its answer, because the journal can add it again.\<close>

definition retire :: "run_view \<Rightarrow> run_view" where
  "retire view =
     (let gone = filter (\<lambda>i. covered (vw_record view) (ri_answer i)) (vw_intents view)
      in if gone = [] then view
         else view\<lparr>
           vw_intents := filter (\<lambda>i. i \<notin> set gone) (vw_intents view),
           vw_answers := fold (\<lambda>i answers. if body_kind (ri_body i) \<noteq> SwitchKind
             then answers(intent_key i := None) else answers) gone (vw_answers view)\<rparr>)"

definition receive_record :: "run_state \<Rightarrow> run_view \<Rightarrow> run_view" where
  "receive_record record view =
     (case vw_record view of
        Some current \<Rightarrow>
          if compare_seq (run_version record) (run_version current) \<le> 0 then view
          else retire (view\<lparr>vw_record := Some record\<rparr>)
      | None \<Rightarrow> retire (view\<lparr>vw_record := Some record\<rparr>))"

definition intent_of :: "intent_kind \<times> string \<Rightarrow> run_view \<Rightarrow> run_intent option" where
  "intent_of k view = find (\<lambda>i. intent_key i = k) (vw_intents view)"

text \<open>The found intent is replaced or removed where it stands: a key is held at most once.\<close>

fun replace_first :: "('a \<Rightarrow> bool) \<Rightarrow> 'a \<Rightarrow> 'a list \<Rightarrow> 'a list" where
  "replace_first P y [] = []"
| "replace_first P y (x # xs) = (if P x then y # xs else x # replace_first P y xs)"

fun remove_first :: "('a \<Rightarrow> bool) \<Rightarrow> 'a list \<Rightarrow> 'a list" where
  "remove_first P [] = []"
| "remove_first P (x # xs) = (if P x then xs else x # remove_first P xs)"

definition add_intent :: "run_intent \<Rightarrow> run_view \<Rightarrow> run_view" where
  "add_intent i view =
     (let k = intent_key i;
          existing = intent_of k view;
          answer = later (later (ri_answer i) (Option.bind existing ri_answer)) (vw_answers view k);
          answers = (case answer of
              Some a \<Rightarrow> if fst k = SwitchKind then with_answer (vw_answers view) k a else vw_answers view
            | None \<Rightarrow> vw_answers view);
          held = (\<lambda>x. intent_key x = k)
      in if covered (vw_record view) answer
         then view\<lparr>vw_intents := remove_first held (vw_intents view), vw_answers := answers\<rparr>
         else view\<lparr>vw_answers := answers, vw_intents :=
           (if existing \<noteq> None then replace_first held (i\<lparr>ri_answer := answer\<rparr>) (vw_intents view)
            else vw_intents view @ [i\<lparr>ri_answer := answer\<rparr>])\<rparr>)"

definition answer_intent :: "intent_kind \<times> string \<Rightarrow> string \<Rightarrow> run_view \<Rightarrow> run_view" where
  "answer_intent k version view =
     retire (view\<lparr>
       vw_answers := with_answer (vw_answers view) k version,
       vw_intents := (case intent_of k view of
           Some i \<Rightarrow> replace_first (\<lambda>x. intent_key x = k)
             (i\<lparr>ri_answer := later (ri_answer i) (Some version)\<rparr>) (vw_intents view)
         | None \<Rightarrow> vw_intents view)\<rparr>)"

definition drop_intent :: "intent_kind \<times> string \<Rightarrow> run_view \<Rightarrow> run_view" where
  "drop_intent k view =
     view\<lparr>vw_intents := filter (\<lambda>i. intent_key i \<noteq> k) (vw_intents view),
       vw_answers := (vw_answers view)(k := None)\<rparr>"

definition fail_intent :: "string \<Rightarrow> run_view \<Rightarrow> run_view" where
  "fail_intent requestId view =
     (case intent_of (HandBackKind, requestId) view of
        Some i \<Rightarrow> (case ri_body i of
            HandBackBody candidates failed \<Rightarrow>
              if failed then view
              else view\<lparr>vw_intents := replace_first (\<lambda>x. intent_key x = (HandBackKind, requestId))
                (i\<lparr>ri_body := HandBackBody candidates True\<rparr>) (vw_intents view)\<rparr>
          | _ \<Rightarrow> view)
      | None \<Rightarrow> view)"

section \<open>The message folds\<close>

fun is_from_writer :: "message_provenance \<Rightarrow> bool" where
  "is_from_writer (FromWriter _) = True"
| "is_from_writer _ = False"

definition is_writer_message :: "inbox_item \<Rightarrow> bool" where
  "is_writer_message item \<longleftrightarrow> it_intent item = MessageItem \<and> is_from_writer (it_provenance item)"

definition writer_messages :: "run_state \<Rightarrow> inbox_item list" where
  "writer_messages record = filter is_writer_message (run_items record)"

definition unheld_writer_messages :: "run_state \<Rightarrow> (string \<Rightarrow> bool) \<Rightarrow> inbox_item list" where
  "unheld_writer_messages record holds = filter (\<lambda>i. \<not> holds (it_id i)) (writer_messages record)"

definition hidden_writer_turns :: "run_view \<Rightarrow> string set" where
  "hidden_writer_turns view =
     set (concat (map (\<lambda>i. case ri_body i of HandBackBody candidates failed \<Rightarrow>
         if failed then [] else candidates | _ \<Rightarrow> []) (vw_intents view)))"

definition writer_items :: "run_view \<Rightarrow> inbox_item list" where
  "writer_items view =
     (case vw_record view of
        None \<Rightarrow> []
      | Some r \<Rightarrow> filter (\<lambda>i. it_id i \<notin> hidden_writer_turns view) (writer_messages r))"

definition message_intent_ids :: "run_view \<Rightarrow> string list" where
  "message_intent_ids view =
     map ri_id (filter (\<lambda>i. body_kind (ri_body i) = MessageKind) (vw_intents view))"

definition executing :: "run_view \<Rightarrow> open_execution option" where
  "executing view = Option.bind (vw_record view) run_execution"

definition is_busy :: "run_view \<Rightarrow> bool" where
  "is_busy view \<longleftrightarrow> executing view \<noteq> None \<or> writer_items view \<noteq> [] \<or>
     list_ex (\<lambda>i. body_kind (ri_body i) = MessageKind \<and> ri_id i \<notin> hidden_writer_turns view) (vw_intents view)"

definition is_awaiting_execution :: "run_view \<Rightarrow> bool" where
  "is_awaiting_execution view \<longleftrightarrow> is_busy view \<and> executing view = None"

definition is_usage_blocked :: "run_view \<Rightarrow> bool" where
  "is_usage_blocked view = (case vw_record view of None \<Rightarrow> False | Some r \<Rightarrow> run_creditsExhausted r)"

definition is_owed :: "run_view \<Rightarrow> string \<Rightarrow> bool" where
  "is_owed view userTurnId \<longleftrightarrow>
     (case vw_record view of None \<Rightarrow> False | Some r \<Rightarrow> list_ex (\<lambda>i. it_id i = userTurnId) (run_items r)) \<or>
     list_ex (\<lambda>i. body_kind (ri_body i) = MessageKind \<and> ri_id i = userTurnId) (vw_intents view)"

definition usage_blocked_messages :: "run_view \<Rightarrow> inbox_item list" where
  "usage_blocked_messages view = (if is_usage_blocked view then writer_items view else [])"

definition is_blocked_for_usage :: "run_view \<Rightarrow> string \<Rightarrow> bool" where
  "is_blocked_for_usage view userTurnId =
     list_ex (\<lambda>i. it_id i = userTurnId) (usage_blocked_messages view)"

definition delivery_waiting_writer_messages :: "run_view \<Rightarrow> inbox_item list" where
  "delivery_waiting_writer_messages view =
     filter (\<lambda>i. is_usage_blocked view \<or> it_delivery i = WaitingDelivery) (writer_items view)"

text \<open>An ask is read for whether it is open.\<close>

definition waiting_writer_messages :: "run_view \<Rightarrow> bool list \<Rightarrow> inbox_item list" where
  "waiting_writer_messages view openAsks =
     (if True \<in> set openAsks then writer_items view else delivery_waiting_writer_messages view)"

record stop_request =
  sr_requestId :: string
  sr_seenThrough :: int
  sr_seenExecutionId :: "string option"
  sr_mine :: "string list"

definition stop_request_of :: "run_view \<Rightarrow> string \<Rightarrow> stop_request" where
  "stop_request_of view requestId =
     \<lparr>sr_requestId = requestId,
      sr_seenThrough = (case vw_record view of None \<Rightarrow> 0 | Some r \<Rightarrow> run_sentThrough r),
      sr_seenExecutionId = map_option oe_executionId (executing view),
      sr_mine = message_intent_ids view\<rparr>"

record send_now_request =
  sn_seenThrough :: int
  sn_seenExecutionId :: string
  sn_waiting :: "string list"

definition send_now_request_of :: "run_view \<Rightarrow> bool list \<Rightarrow> send_now_request option" where
  "send_now_request_of view openAsks =
     (case (vw_record view, map_option oe_executionId (executing view)) of
        (Some r, Some e) \<Rightarrow>
          (let waiting = map it_id (waiting_writer_messages view openAsks)
           in if e = [] \<or> waiting = [] then None
              else Some \<lparr>sn_seenThrough = run_sentThrough r, sn_seenExecutionId = e, sn_waiting = waiting\<rparr>)
      | _ \<Rightarrow> None)"

definition hand_back_candidates :: "run_view \<Rightarrow> int \<Rightarrow> string list \<Rightarrow> string list" where
  "hand_back_candidates view seenThrough mine =
     rev (remdups (rev (map it_id (filter (\<lambda>i. it_seq i \<le> seenThrough) (delivery_waiting_writer_messages view))
       @ mine)))"

datatype stop_status = StopIdle | StopPending | Stopping | StopFailed

record failed_stop =
  fs_targetExecutionId :: "string option"
  fs_candidates :: int

definition failed_stop_is_moot :: "run_view \<Rightarrow> failed_stop \<Rightarrow> bool" where
  "failed_stop_is_moot view stop \<longleftrightarrow>
     \<not> fs_candidates stop > 0 \<and>
     (fs_targetExecutionId stop = None \<or>
      map_option oe_executionId (executing view) \<noteq> fs_targetExecutionId stop)"

definition stop_status_of :: "run_view \<Rightarrow> bool \<Rightarrow> string option \<Rightarrow> failed_stop list \<Rightarrow> stop_status" where
  "stop_status_of view pending cancelledExecutionId failedStops =
     (if pending then StopPending
      else if list_ex (\<lambda>s. \<not> failed_stop_is_moot view s) failedStops then StopFailed
      else if cancelledExecutionId \<noteq> None \<and>
        map_option oe_executionId (executing view) = cancelledExecutionId then Stopping
      else StopIdle)"

section \<open>The switch fold\<close>

record durable_control =
  dc_id :: string
  dc_control :: control_body
  dc_awaitsRun :: bool

definition durable_controls :: "inbox_item list \<Rightarrow> durable_control list" where
  "durable_controls items =
     List.map_filter (\<lambda>item. case it_control item of
         Some c \<Rightarrow> if it_intent item = ControlItem
           then Some \<lparr>dc_id = it_id item, dc_control = c, dc_awaitsRun = it_delivery item = AwaitingRun\<rparr>
           else None
       | None \<Rightarrow> None) items"

datatype row_status = RowSending | RowQueued | RowFailed command_failure | RowWithdrawFailed command_failure

record switch_row =
  row_id :: string
  row_mode :: write_mode
  row_awaitingServer :: bool
  row_awaitsRun :: bool
  row_status :: row_status

text \<open>The switch a chat is heading to: one the server holds, or one only this device does.\<close>

datatype queued_switch =
    ServerSwitch string write_mode bool
  | LocalSwitch string switch_intent

fun queued_mode :: "queued_switch \<Rightarrow> write_mode" where
  "queued_mode (ServerSwitch _ m _) = m"
| "queued_mode (LocalSwitch _ s) = sw_mode s"

text \<open>Withdrawals by control, the last of each id.\<close>

definition withdrawal_of :: "run_view \<Rightarrow> string \<Rightarrow> (bool \<times> occurrence) option" where
  "withdrawal_of view k =
     map_of (rev (List.map_filter (\<lambda>i. case ri_body i of
         WithdrawBody _ failed occurrence \<Rightarrow> Some (ri_id i, (failed, occurrence)) | _ \<Rightarrow> None)
       (vw_intents view))) k"

definition withdrawing :: "run_view \<Rightarrow> string \<Rightarrow> bool" where
  "withdrawing view k = (case withdrawal_of view k of None \<Rightarrow> False | Some (failed, _) \<Rightarrow> \<not> failed)"

fun server_switch :: "run_view \<Rightarrow> durable_control list \<Rightarrow> queued_switch option" where
  "server_switch view [] = None"
| "server_switch view (c # cs) =
     (case dc_control c of
        WriteModeControl m \<Rightarrow>
          if withdrawing view (dc_id c) then server_switch view cs
          else Some (ServerSwitch (dc_id c) m (dc_awaitsRun c))
      | CompactControl _ \<Rightarrow> server_switch view cs)"

definition by_order :: "string \<times> switch_intent \<Rightarrow> string \<times> switch_intent \<Rightarrow> int" where
  "by_order a b =
     (if sw_order (snd a) - sw_order (snd b) \<noteq> 0 then sw_order (snd a) - sw_order (snd b)
      else compare_text (fst a) (fst b))"

definition switch_intents :: "run_view \<Rightarrow> (string \<times> switch_intent) list" where
  "switch_intents view =
     sort_with by_order (List.map_filter (\<lambda>i. case ri_body i of SwitchBody s \<Rightarrow> Some (ri_id i, s) | _ \<Rightarrow> None)
       (vw_intents view))"

definition fold_switch ::
  "run_view \<Rightarrow> write_mode \<Rightarrow> string \<times> switch_intent \<Rightarrow> switch_row list \<times> queued_switch option
     \<Rightarrow> switch_row list \<times> queued_switch option" where
  "fold_switch view applied entry state =
     (case (entry, state) of ((k, s), (failedRows, queued)) \<Rightarrow>
        if withdrawing view k then state
        else (case sw_failure s of
            Some f \<Rightarrow> (failedRows @ [\<lparr>row_id = k, row_mode = sw_mode s, row_awaitingServer = sw_awaitingServer s,
              row_awaitsRun = False, row_status = RowFailed f\<rparr>], queued)
          | None \<Rightarrow>
              if sw_mode s = (case queued of Some q \<Rightarrow> queued_mode q | None \<Rightarrow> applied) then state
              else (failedRows, (case queued of Some _ \<Rightarrow> None | None \<Rightarrow> Some (LocalSwitch k s)))))"

definition queued_row :: "run_view \<Rightarrow> queued_switch \<Rightarrow> switch_row" where
  "queued_row view q =
     (case q of
        ServerSwitch k m awaits \<Rightarrow>
          \<lparr>row_id = k, row_mode = m, row_awaitingServer = False, row_awaitsRun = awaits, row_status =
             (case withdrawal_of view k of
                Some (True, occurrence) \<Rightarrow>
                  RowWithdrawFailed \<lparr>cf_occurrence = occurrence, cf_failureKind = ''lost'', cf_submissionId = None\<rparr>
              | _ \<Rightarrow> RowQueued)\<rparr>
      | LocalSwitch k s \<Rightarrow>
          \<lparr>row_id = k, row_mode = sw_mode s, row_awaitingServer = sw_awaitingServer s, row_awaitsRun = False,
           row_status = RowSending\<rparr>)"

definition switch_state :: "run_view \<Rightarrow> (write_mode \<times> switch_row list) option" where
  "switch_state view =
     map_option (\<lambda>record.
       case fold (fold_switch view (run_mode record)) (switch_intents view)
              ([], server_switch view (durable_controls (run_items record))) of
         (failedRows, queued) \<Rightarrow>
           ((case queued of Some q \<Rightarrow> queued_mode q | None \<Rightarrow> run_mode record),
            failedRows @ (case queued of Some q \<Rightarrow> [queued_row view q] | None \<Rightarrow> [])))
       (vw_record view)"

end
