(* ===== verification/Run_State_Slice.thy ===== *)
theory Run_State_Slice
  imports Run_State
begin

text \<open>
  The run-state slice of a chat (\<^verbatim>\<open>run-state-slice.ts\<close>): the one reducer every fact about the chat's
  run state goes through, and the news it announces of queued and applied write-mode switches.

  The source tells a record that was taken from one that was not by object identity; a record is taken
  only when its version is newer, so comparing the records is the same.
\<close>

section \<open>Actions\<close>

text \<open>A switch of the journal: its place, whether it was posted or refused, and the stamped answer.\<close>

record journal_switch =
  js_id :: string
  js_mode :: write_mode
  js_seq :: int
  js_posted :: bool
  js_refused :: bool
  js_answer :: "run_state option"
  js_failure :: "command_failure option"

definition is_write_mode_control :: "inbox_item \<Rightarrow> bool" where
  "is_write_mode_control item \<longleftrightarrow> it_intent item = ControlItem \<and>
     (case it_control item of Some (WriteModeControl _) \<Rightarrow> True | _ \<Rightarrow> False)"

definition queued_switch_key :: "run_state \<Rightarrow> string" where
  "queued_switch_key record =
     (case map it_id (filter is_write_mode_control (run_items record)) of
        [] \<Rightarrow> []
      | k # ks \<Rightarrow> k @ concat (map (\<lambda>x. CHR '','' # x) ks))"

definition switch_display :: "run_view \<Rightarrow> write_mode \<Rightarrow> write_mode \<times> switch_row list" where
  "switch_display view base =
     (case switch_state view of
        Some s \<Rightarrow> s
      | None \<Rightarrow> (case switch_state (view\<lparr>vw_record := Some \<lparr>run_version = ''0'', run_items = [],
            run_sentThrough = 0, run_execution = None, run_mode = base, run_creditsExhausted = False\<rparr>\<rparr>) of
          Some s \<Rightarrow> s | None \<Rightarrow> (base, [])))"

record queued_news =
  qn_n :: nat
  qn_id :: string
  qn_mode :: write_mode
  qn_waiting :: bool

record applied_news =
  an_n :: nat
  an_turnId :: string
  an_controlId :: string
  an_mode :: write_mode

record run_slice =
  sl_view :: run_view
  sl_heard :: "string set"
  sl_news :: "queued_news list"
  sl_seed :: "string option"
  sl_appliedHeard :: "string set"
  sl_applied :: "applied_news list"
  sl_spokenQueued :: nat
  sl_spokenApplied :: nat
  sl_history :: "string option"

definition initial_run_slice :: run_slice where
  "initial_run_slice = \<lparr>sl_view = initial_run_view, sl_heard = {}, sl_news = [], sl_seed = None,
     sl_appliedHeard = {}, sl_applied = [], sl_spokenQueued = 0, sl_spokenApplied = 0, sl_history = None\<rparr>"

datatype run_action =
    SnapshotRecord run_state
  | HistoryRecord run_state
  | LiveRecord run_state
  | SwitchedFrame string string string write_mode
  | AddIntentAction run_intent
  | AnswerAction "intent_kind \<times> string" string
  | DropAction "intent_kind \<times> string"
  | FailHandBack string
  | JournalSwitches "journal_switch list"
  | SpokenNews nat nat
  | WithdrawAction string string bool
  | WithdrawnAction string run_state
  | DropWithdraw string

section \<open>The view\<close>

definition journal_intent :: "journal_switch \<Rightarrow> run_intent" where
  "journal_intent entry =
     \<lparr>ri_id = js_id entry, ri_answer = map_option run_version (js_answer entry),
      ri_body = SwitchBody \<lparr>sw_order = js_seq entry, sw_mode = js_mode entry,
        sw_awaitingServer = (js_answer entry = None \<and> js_posted entry \<and> \<not> js_refused entry),
        sw_failure = (if js_answer entry = None then js_failure entry else None)\<rparr>\<rparr>"

text \<open>A stamp is a fact for its intent; without a record it never makes one, nor a row.\<close>

definition journal_entry :: "journal_switch \<Rightarrow> run_view \<Rightarrow> run_view" where
  "journal_entry entry view =
     (case js_answer entry of
        None \<Rightarrow> add_intent (journal_intent entry) view
      | Some stamp \<Rightarrow>
          if vw_record view \<noteq> None
          then add_intent (journal_intent entry) (receive_record stamp view)
          else if intent_of (SwitchKind, js_id entry) view = None
          then answer_intent (SwitchKind, js_id entry) (run_version stamp) view
          else add_intent (journal_intent entry) view)"

definition read_journal :: "journal_switch list \<Rightarrow> run_view \<Rightarrow> run_view" where
  "read_journal switches view =
     (let next = fold journal_entry switches view
      in fold (\<lambda>i v. if body_kind (ri_body i) = SwitchKind \<and> ri_id i \<notin> set (map js_id switches)
           then drop_intent (intent_key i) v else v) (vw_intents next) next)"

definition withdraw_intent :: "run_view \<Rightarrow> string \<Rightarrow> string \<Rightarrow> bool \<Rightarrow> run_intent" where
  "withdraw_intent view k requestId failed =
     (let before = (case map_option ri_body (intent_of (WithdrawKind, k) view) of
           Some (WithdrawBody _ _ occurrence) \<Rightarrow> occurrence
         | _ \<Rightarrow> \<lparr>oc_requestId = requestId, oc_attempt = 0\<rparr>)
      in \<lparr>ri_id = k, ri_answer = None, ri_body = WithdrawBody 0 failed
           (if failed then before else \<lparr>oc_requestId = requestId, oc_attempt = oc_attempt before + 1\<rparr>)\<rparr>)"

fun reduce_view :: "run_action \<Rightarrow> run_view \<Rightarrow> run_view" where
  "reduce_view (AddIntentAction i) view = add_intent i view"
| "reduce_view (AnswerAction k version) view = answer_intent k version view"
| "reduce_view (DropAction k) view = drop_intent k view"
| "reduce_view (FailHandBack k) view = fail_intent k view"
| "reduce_view (SnapshotRecord r) view = receive_record r view"
| "reduce_view (HistoryRecord r) view = receive_record r view"
| "reduce_view (LiveRecord r) view = receive_record r view"
| "reduce_view (SwitchedFrame seq controlId turnId mode) view = answer_intent (SwitchKind, controlId) seq view"
| "reduce_view (JournalSwitches switches) view = read_journal switches view"
| "reduce_view (WithdrawAction k requestId failed) view = add_intent (withdraw_intent view k requestId failed) view"
| "reduce_view (WithdrawnAction k r) view =
     answer_intent (WithdrawKind, k) (run_version r) (receive_record r view)"
| "reduce_view (DropWithdraw k) view = drop_intent (WithdrawKind, k) view"
| "reduce_view (SpokenNews q a) view = view"

section \<open>News\<close>

definition applied_by :: "string \<Rightarrow> string \<Rightarrow> string \<Rightarrow> write_mode \<Rightarrow> run_slice \<Rightarrow> run_slice" where
  "applied_by seq controlId turnId mode st =
     (case sl_seed st of
        None \<Rightarrow> st
      | Some seed \<Rightarrow>
          if compare_seq seq seed \<le> 0 \<or> turnId \<in> sl_appliedHeard st then st
          else st\<lparr>sl_appliedHeard := insert turnId (sl_appliedHeard st),
            sl_applied := sl_applied st @ [\<lparr>an_n = length (sl_applied st) + 1, an_turnId = turnId,
              an_controlId = controlId, an_mode = mode\<rparr>]\<rparr>)"

fun is_live :: "run_action \<Rightarrow> bool" where
  "is_live (JournalSwitches _) = True"
| "is_live (LiveRecord _) = True"
| "is_live _ = False"

definition hear_item ::
  "bool \<Rightarrow> inbox_item \<Rightarrow> string set \<times> queued_news list \<Rightarrow> string set \<times> queued_news list" where
  "hear_item live item state =
     (case (state, it_control item) of
        ((heard, news), Some (WriteModeControl m)) \<Rightarrow>
          if it_intent item \<noteq> ControlItem \<or> it_id item \<in> heard then (heard, news)
          else (insert (it_id item) heard,
                if live then news @ [\<lparr>qn_n = length news + 1, qn_id = it_id item, qn_mode = m,
                    qn_waiting = it_delivery item = WaitingDelivery\<rparr>]
                else news)
      | _ \<Rightarrow> state)"

definition reduce_slice :: "run_action \<Rightarrow> run_slice \<Rightarrow> run_slice" where
  "reduce_slice action st =
     (case action of
        SpokenNews queued applied \<Rightarrow>
          st\<lparr>sl_spokenQueued := max (sl_spokenQueued st) queued,
             sl_spokenApplied := max (sl_spokenApplied st) applied\<rparr>
      | _ \<Rightarrow>
          (let view = reduce_view action (sl_view st);
               seeded = (if sl_seed st = None
                 then st\<lparr>sl_seed := map_option run_version (vw_record view)\<rparr> else st);
               withApplied = (case action of
                   SwitchedFrame seq controlId turnId mode \<Rightarrow> applied_by seq controlId turnId mode seeded
                 | _ \<Rightarrow> seeded)
           in case vw_record view of
                None \<Rightarrow> withApplied\<lparr>sl_view := view\<rparr>
              | Some record \<Rightarrow>
                  if Some record = vw_record (sl_view st) then withApplied\<lparr>sl_view := view\<rparr>
                  else (let live = (vw_record (sl_view st) \<noteq> None \<and> is_live action);
                            (heard, news) = fold (hear_item live) (run_items record)
                              (sl_heard withApplied, sl_news withApplied)
                        in withApplied\<lparr>sl_view := view, sl_heard := heard, sl_news := news\<rparr>)))"

definition reduce_run_state :: "run_action \<Rightarrow> run_slice \<Rightarrow> run_slice" where
  "reduce_run_state action st =
     (let next = reduce_slice action st
      in case action of
           HistoryRecord r \<Rightarrow>
             (case sl_history next of
                Some h \<Rightarrow> if compare_seq (run_version r) h \<le> 0 then next
                  else next\<lparr>sl_history := Some (run_version r)\<rparr>
              | None \<Rightarrow> next\<lparr>sl_history := Some (run_version r)\<rparr>)
         | _ \<Rightarrow> next)"

end
