(* ===== verification/Run_State_Facts.thy ===== *)
theory Run_State_Facts
  imports Run_State_Slice
begin

text \<open>
  What the run state of a chat guarantees (\<^verbatim>\<open>run-state-view.ts\<close>, \<^verbatim>\<open>run-state-slice.ts\<close>): the
  invariants of every view, that an intent settles the same way in whatever order the server's facts
  about it arrive, and that every queued switch is announced once.
\<close>

section \<open>Answers\<close>

definition not_before :: "string option \<Rightarrow> string option \<Rightarrow> bool" where
  "not_before b a \<longleftrightarrow> (case a of None \<Rightarrow> True | Some x \<Rightarrow> (case b of None \<Rightarrow> False | Some y \<Rightarrow> compare_seq y x \<ge> 0))"

lemma not_before_refl [simp]: "not_before a a"
  by (simp add: not_before_def split: option.split)

lemma not_before_None [simp]: "not_before a None"
  by (simp add: not_before_def)

lemma not_before_trans: "not_before c b \<Longrightarrow> not_before b a \<Longrightarrow> not_before c a"
  by (auto simp: not_before_def intro: seq_trans split: option.splits)

lemma later_bounds [simp]: "not_before (later a b) a" "not_before (later a b) b"
  using seq_total by (auto simp: later_def not_before_def split: option.splits)

lemma not_before_later: "not_before c a \<Longrightarrow> not_before c b \<Longrightarrow> not_before c (later a b)"
  by (auto simp: later_def not_before_def split: option.splits)

lemma seq_less_trans: "compare_seq a b < 0 \<Longrightarrow> compare_seq b c < 0 \<Longrightarrow> compare_seq a c < 0"
  by (smt (verit) compare_seq_flip compare_seq_zero seq_antisym seq_trans)

lemma later_mono: "not_before b a \<Longrightarrow> not_before (later b c) (later a c)"
  by (intro not_before_later not_before_trans [OF later_bounds(1)] later_bounds)

lemma covered_mono: "covered r b \<Longrightarrow> not_before b a \<Longrightarrow> a \<noteq> None \<Longrightarrow> covered r a"
  by (auto simp: covered_def not_before_def intro: seq_trans split: option.splits)

lemma with_answer_other [simp]: "j \<noteq> k \<Longrightarrow> with_answer answers k version j = answers j"
  by (simp add: with_answer_def split: option.split)

lemma with_answer_same: "with_answer answers k version k = later (answers k) (Some version)"
  by (simp add: with_answer_def later_def split: option.split)

section \<open>Views\<close>

definition view_ok :: "run_view \<Rightarrow> bool" where
  "view_ok v \<longleftrightarrow>
     distinct (map intent_key (vw_intents v)) \<and>
     (\<forall>i \<in> set (vw_intents v). \<not> covered (vw_record v) (ri_answer i) \<and>
        not_before (ri_answer i) (vw_answers v (intent_key i)))"

text \<open>A view between the change of a record or an answer and the retirement that follows.\<close>

definition view_fits :: "run_view \<Rightarrow> bool" where
  "view_fits v \<longleftrightarrow>
     distinct (map intent_key (vw_intents v)) \<and>
     (\<forall>i \<in> set (vw_intents v). not_before (ri_answer i) (vw_answers v (intent_key i)))"

lemma view_okD: "view_ok v \<Longrightarrow> view_fits v"
  by (simp add: view_ok_def view_fits_def)

lemma intent_of_mem: "intent_of k v = Some i \<Longrightarrow> i \<in> set (vw_intents v) \<and> intent_key i = k"
  unfolding intent_of_def using find_Some_mem by fastforce

lemma intent_of_None: "intent_of k v = None \<longleftrightarrow> (\<forall>i \<in> set (vw_intents v). intent_key i \<noteq> k)"
  by (simp add: intent_of_def find_None_conv)

lemma intent_of_unique:
  assumes "distinct (map intent_key (vw_intents v))" and "i \<in> set (vw_intents v)"
  shows "intent_of (intent_key i) v = Some i"
proof -
  obtain j where j: "intent_of (intent_key i) v = Some j"
    using assms(2) intent_of_None [of "intent_key i" v] by (cases "intent_of (intent_key i) v") auto
  from intent_of_mem [OF this] assms have "j = i" by (auto simp: distinct_map inj_on_def)
  with j show ?thesis by simp
qed

lemma head_key:
  assumes "distinct (map f (x # xs))" and "y \<in> set xs"
  shows "f y \<noteq> f x"
proof
  assume e: "f y = f x"
  have "f x \<in> f ` set xs" using imageI [OF assms(2), of f] unfolding e .
  with assms(1) show False by simp
qed

lemma same_key: "distinct (map f xs) \<Longrightarrow> x \<in> set xs \<Longrightarrow> y \<in> set xs \<Longrightarrow> f x = f y \<Longrightarrow> x = y"
  by (metis distinct_map inj_onD)

lemma keyed_filter:
  "distinct (map f xs) \<Longrightarrow> find (\<lambda>x. f x = k) (filter P xs) =
     (case find (\<lambda>x. f x = k) xs of Some x \<Rightarrow> if P x then Some x else None | None \<Rightarrow> None)"
proof (induction xs)
  case (Cons x xs)
  have "find (\<lambda>y. f y = k) (filter P xs) = None" if "f x = k"
    using head_key [OF Cons.prems] that by (force simp: find_None_conv)
  with Cons show ?case by auto
qed simp

lemma retire_intents: "vw_intents (retire v) = filter (\<lambda>i. \<not> covered (vw_record v) (ri_answer i)) (vw_intents v)"
proof -
  have "filter (\<lambda>i. i \<notin> set (filter P xs)) xs = filter (\<lambda>i. \<not> P i) xs" for P :: "run_intent \<Rightarrow> bool" and xs
    by (rule filter_cong) auto
  moreover have "filter (\<lambda>i. \<not> P i) xs = xs" if "filter P xs = []" for P :: "run_intent \<Rightarrow> bool" and xs
    using that by (simp add: filter_empty_conv filter_id_conv)
  ultimately show ?thesis by (simp add: retire_def Let_def)
qed

lemma retire_record [simp]: "vw_record (retire v) = vw_record v"
  by (simp add: retire_def Let_def)

lemma forgotten_answers:
  "fold (\<lambda>i answers. if body_kind (ri_body i) \<noteq> SwitchKind then answers(intent_key i := None) else answers) gone m k =
     (if k \<in> intent_key ` set (filter (\<lambda>i. body_kind (ri_body i) \<noteq> SwitchKind) gone) then None else m k)"
  by (induction gone arbitrary: m) auto

lemma retire_answers:
  "vw_answers (retire v) k =
     (if k \<in> intent_key ` set (filter (\<lambda>i. body_kind (ri_body i) \<noteq> SwitchKind \<and> covered (vw_record v) (ri_answer i))
          (vw_intents v))
      then None else vw_answers v k)"
proof (cases "filter (\<lambda>i. covered (vw_record v) (ri_answer i)) (vw_intents v) = []")
  case True
  then show ?thesis by (auto simp: retire_def Let_def filter_empty_conv)
next
  case False
  then show ?thesis by (auto simp: retire_def Let_def forgotten_answers)
qed

lemma retire_ok: "view_fits v \<Longrightarrow> view_ok (retire v)"
  by (auto simp: view_fits_def view_ok_def retire_intents retire_answers distinct_map_filter)

lemma replace_first_keys:
  "(\<And>x. P x \<longleftrightarrow> f x = k) \<Longrightarrow> f y = k \<Longrightarrow> map f (replace_first P y xs) = map f xs"
  by (induction xs) auto

lemma replace_first_keyed:
  assumes "distinct (map f xs)" and "\<And>x. P x \<longleftrightarrow> f x = k"
  shows "replace_first P y xs = map (\<lambda>x. if f x = k then y else x) xs"
  using assms
proof (induction xs)
  case (Cons x xs)
  have "map (\<lambda>x. if f x = k then y else x) xs = xs" if "f x = k"
    using head_key [OF Cons.prems(1)] that by (intro map_idI) metis
  with Cons show ?case by auto
qed simp

lemma remove_first_keyed:
  assumes "distinct (map f xs)" and "\<And>x. P x \<longleftrightarrow> f x = k"
  shows "remove_first P xs = filter (\<lambda>x. f x \<noteq> k) xs"
  using assms
proof (induction xs)
  case (Cons x xs)
  have "filter (\<lambda>x. f x \<noteq> k) xs = xs" if "f x = k"
    using head_key [OF Cons.prems(1)] that by (metis (mono_tags, lifting) filter_True)
  with Cons show ?case by auto
qed simp

lemma find_replaced:
  assumes "f y = k" and "find (\<lambda>x. f x = k) xs \<noteq> None"
  shows "find (\<lambda>x. f x = j) (map (\<lambda>x. if f x = k then y else x) xs) =
     (if j = k then Some y else find (\<lambda>x. f x = j) xs)"
proof (cases "j = k")
  case True
  then show ?thesis using assms by (induction xs) auto
next
  case False
  then show ?thesis using assms(1) by (simp, induction xs) auto
qed

lemma find_added:
  "find P (xs @ [y]) = (case find P xs of Some x \<Rightarrow> Some x | None \<Rightarrow> if P y then Some y else None)"
  by (induction xs) auto

lemma find_map_same:
  "(\<And>x. P (f x) \<longleftrightarrow> P x) \<Longrightarrow> find P (map f xs) = (case find P xs of Some x \<Rightarrow> Some (f x) | None \<Rightarrow> None)"
  by (induction xs) auto

section \<open>What each change does to one key\<close>

lemma intent_of_retire:
  assumes "view_fits v"
  shows "intent_of k (retire v) =
     (case intent_of k v of Some i \<Rightarrow> if covered (vw_record v) (ri_answer i) then None else Some i | None \<Rightarrow> None)"
  using keyed_filter [of intent_key "vw_intents v" k] assms
  by (auto simp: intent_of_def retire_intents view_fits_def split: option.split)

lemma answers_retire:
  assumes "view_fits v"
  shows "vw_answers (retire v) k =
     (case intent_of k v of
        Some i \<Rightarrow> if fst k \<noteq> SwitchKind \<and> covered (vw_record v) (ri_answer i) then None else vw_answers v k
      | None \<Rightarrow> vw_answers v k)"
proof (cases "intent_of k v")
  case None
  then show ?thesis using intent_of_None [of k v] by (auto simp: retire_answers)
next
  case (Some i)
  note i = intent_of_mem [OF Some]
  have "j = i" if "j \<in> set (vw_intents v)" "intent_key j = k" for j
    using that i assms same_key [of intent_key "vw_intents v" j i] by (simp add: view_fits_def)
  then have "k \<in> intent_key ` set (filter P (vw_intents v)) \<longleftrightarrow> P i" for P using i by (auto simp: image_iff)
  moreover have "fst k = body_kind (ri_body i)" using i by (auto simp: intent_key_def)
  ultimately show ?thesis using Some by (simp add: retire_answers)
qed

lemma receive_takes:
  "vw_record (receive_record r v) =
     (case vw_record v of
        Some c \<Rightarrow> if compare_seq (run_version r) (run_version c) \<le> 0 then Some c else Some r
      | None \<Rightarrow> Some r)"
  by (simp add: receive_record_def split: option.split)

lemma receive_ok: "view_ok v \<Longrightarrow> view_ok (receive_record r v)"
  using retire_ok [of "v\<lparr>vw_record := Some r\<rparr>"] view_okD [of v]
  by (auto simp: receive_record_def view_fits_def split: option.split)

lemma receive_intent:
  assumes "view_ok v"
  shows "intent_of k (receive_record r v) =
       (case intent_of k v of
          Some i \<Rightarrow> if covered (vw_record (receive_record r v)) (ri_answer i) then None else Some i
        | None \<Rightarrow> None)"
    and "vw_answers (receive_record r v) k =
       (case intent_of k v of
          Some i \<Rightarrow> if fst k \<noteq> SwitchKind \<and> covered (vw_record (receive_record r v)) (ri_answer i) then None
            else vw_answers v k
        | None \<Rightarrow> vw_answers v k)"
proof -
  let ?v = "v\<lparr>vw_record := Some r\<rparr>"
  have f: "view_fits ?v" using view_okD [OF assms] by (simp add: view_fits_def)
  have same: "intent_of k ?v = intent_of k v" by (simp add: intent_of_def)
  have keep: "\<not> covered (vw_record v) (ri_answer i)" if "intent_of k v = Some i" for i
    using intent_of_mem [OF that] assms by (auto simp: view_ok_def)
  show "intent_of k (receive_record r v) =
       (case intent_of k v of
          Some i \<Rightarrow> if covered (vw_record (receive_record r v)) (ri_answer i) then None else Some i
        | None \<Rightarrow> None)"
    using intent_of_retire [OF f, of k] same keep
    by (auto simp: receive_record_def split: option.splits)
  show "vw_answers (receive_record r v) k =
       (case intent_of k v of
          Some i \<Rightarrow> if fst k \<noteq> SwitchKind \<and> covered (vw_record (receive_record r v)) (ri_answer i) then None
            else vw_answers v k
        | None \<Rightarrow> vw_answers v k)"
    using answers_retire [OF f, of k] same keep
    by (auto simp: receive_record_def split: option.splits)
qed

lemma set_answer_key [simp]: "intent_key (i\<lparr>ri_answer := a\<rparr>) = intent_key i"
  by (simp add: intent_key_def)

definition best_answer :: "run_intent \<Rightarrow> run_view \<Rightarrow> string option" where
  "best_answer i v =
     later (later (ri_answer i) (Option.bind (intent_of (intent_key i) v) ri_answer)) (vw_answers v (intent_key i))"

lemma add_effect:
  assumes ok: "view_ok v" and k: "k = intent_key i"
  shows "vw_record (add_intent i v) = vw_record v"
    and "intent_of j (add_intent i v) =
       (if j = k then if covered (vw_record v) (best_answer i v) then None
          else Some (i\<lparr>ri_answer := best_answer i v\<rparr>)
        else intent_of j v)"
    and "vw_answers (add_intent i v) j =
       (if j = k \<and> fst k = SwitchKind then later (vw_answers v k) (best_answer i v) else vw_answers v j)"
    and "view_ok (add_intent i v)"
proof -
  note d = conjunct1 [OF ok [unfolded view_ok_def]]
  let ?best = "best_answer i v" and ?held = "\<lambda>x. intent_key x = k"
  let ?answers = "case ?best of Some a \<Rightarrow> if fst k = SwitchKind then with_answer (vw_answers v) k a else vw_answers v
      | None \<Rightarrow> vw_answers v"
  have add: "add_intent i v =
      (if covered (vw_record v) ?best
       then v\<lparr>vw_intents := filter (\<lambda>x. intent_key x \<noteq> k) (vw_intents v), vw_answers := ?answers\<rparr>
       else v\<lparr>vw_answers := ?answers, vw_intents :=
         (if intent_of k v \<noteq> None
          then map (\<lambda>x. if intent_key x = k then i\<lparr>ri_answer := ?best\<rparr> else x) (vw_intents v)
          else vw_intents v @ [i\<lparr>ri_answer := ?best\<rparr>])\<rparr>)"
  proof -
    have best: "later (later (ri_answer i) (Option.bind (intent_of k v) ri_answer)) (vw_answers v k) = ?best"
      by (simp add: best_answer_def k)
    have r: "remove_first ?held (vw_intents v) = filter (\<lambda>x. intent_key x \<noteq> k) (vw_intents v)"
      by (rule remove_first_keyed [OF d]) simp
    have p: "replace_first ?held y (vw_intents v) = map (\<lambda>x. if intent_key x = k then y else x) (vw_intents v)" for y
      by (rule replace_first_keyed [OF d]) simp
    show ?thesis unfolding add_intent_def Let_def k [symmetric] best r p by (rule refl)
  qed
  show same: "vw_record (add_intent i v) = vw_record v" by (simp add: add)
  show answers: "vw_answers (add_intent i v) j =
       (if j = k \<and> fst k = SwitchKind then later (vw_answers v k) ?best else vw_answers v j)" for j
    by (auto simp: add with_answer_same later_def split: option.split)
  have held: "intent_of k v = None \<longleftrightarrow> find (\<lambda>x. intent_key x = k) (vw_intents v) = None" by (simp add: intent_of_def)
  show "intent_of j (add_intent i v) =
       (if j = k then if covered (vw_record v) ?best then None else Some (i\<lparr>ri_answer := ?best\<rparr>)
        else intent_of j v)" for j
  proof (cases "covered (vw_record v) ?best")
    case True
    then show ?thesis
      using keyed_filter [OF d, of j "\<lambda>x. intent_key x \<noteq> k"] find_Some_mem [of "\<lambda>x. intent_key x = j" "vw_intents v"]
      by (auto simp: add intent_of_def split: option.split)
  next
    case False
    show ?thesis
    proof (cases "intent_of k v = None")
      case True
      show ?thesis using False True held k by (auto simp: add intent_of_def find_added split: option.split)
    next
      case h: False
      then show ?thesis
        using False find_replaced [of intent_key "i\<lparr>ri_answer := ?best\<rparr>" k "vw_intents v" j] held k
        by (simp add: add intent_of_def)
    qed
  qed
  show "view_ok (add_intent i v)"
  proof -
    have best: "not_before ?best (vw_answers v k)" by (simp add: best_answer_def k)
    have old: "\<not> covered (vw_record v) (ri_answer x) \<and>
        not_before (ri_answer x) (vw_answers (add_intent i v) (intent_key x))"
      if "x \<in> set (vw_intents v)" "intent_key x \<noteq> k" for x
      using that ok by (simp add: answers view_ok_def)
    have new: "not_before ?best (vw_answers (add_intent i v) k)"
      using best not_before_later [OF best not_before_refl] by (simp add: answers)
    show ?thesis
      unfolding view_ok_def
    proof (intro conjI ballI)
      show "distinct (map intent_key (vw_intents (add_intent i v)))"
      proof (cases "intent_of k v = None")
        case True
        then have "k \<notin> intent_key ` set (vw_intents v)" by (auto simp: intent_of_None)
        then show ?thesis using d k True by (simp add: add distinct_map_filter)
      next
        case False
        have "map intent_key (map (\<lambda>x. if intent_key x = k then i\<lparr>ri_answer := ?best\<rparr> else x) (vw_intents v)) =
            map intent_key (vw_intents v)" using k by simp
        then show ?thesis using d False by (simp add: add distinct_map_filter del: map_map)
      qed
      fix x assume x: "x \<in> set (vw_intents (add_intent i v))"
      then have "x \<in> set (vw_intents v) \<and> intent_key x \<noteq> k \<or>
          x = i\<lparr>ri_answer := ?best\<rparr> \<and> \<not> covered (vw_record v) ?best"
        by (auto simp: add intent_of_None split: if_splits)
      then show "\<not> covered (vw_record (add_intent i v)) (ri_answer x)"
        and "not_before (ri_answer x) (vw_answers (add_intent i v) (intent_key x))"
        unfolding same using old new k ok by (auto simp: view_ok_def)
    qed
  qed
qed

lemma answer_effect:
  fixes k :: "intent_kind \<times> string" and version :: string
  assumes ok: "view_ok v"
  defines "w \<equiv> answer_intent k version v"
  shows "vw_record w = vw_record v"
    and "view_ok w"
    and "intent_of j w =
       (case intent_of j v of
          None \<Rightarrow> None
        | Some i \<Rightarrow>
            if j \<noteq> k then Some i
            else if covered (vw_record v) (later (ri_answer i) (Some version)) then None
            else Some (i\<lparr>ri_answer := later (ri_answer i) (Some version)\<rparr>))"
    and "vw_answers w j =
       (if j \<noteq> k then vw_answers v j
        else case intent_of k v of
          Some i \<Rightarrow> if fst k \<noteq> SwitchKind \<and> covered (vw_record v) (later (ri_answer i) (Some version)) then None
            else later (vw_answers v k) (Some version)
        | None \<Rightarrow> later (vw_answers v k) (Some version))"
proof -
  note d = conjunct1 [OF ok [unfolded view_ok_def]]
  let ?next = "\<lambda>i. i\<lparr>ri_answer := later (ri_answer i) (Some version)\<rparr>"
  define u where "u = v\<lparr>vw_answers := with_answer (vw_answers v) k version,
      vw_intents := map (\<lambda>x. if intent_key x = k then ?next x else x) (vw_intents v)\<rparr>"
  have intents: "(case intent_of k v of
           Some i \<Rightarrow> replace_first (\<lambda>x. intent_key x = k) (?next i) (vw_intents v)
         | None \<Rightarrow> vw_intents v) = map (\<lambda>x. if intent_key x = k then ?next x else x) (vw_intents v)"
  proof (cases "intent_of k v")
    case None
    then show ?thesis using intent_of_None [of k v] by (simp add: map_idI)
  next
    case (Some i)
    note i = intent_of_mem [OF Some]
    have "x = i" if "x \<in> set (vw_intents v)" "intent_key x = k" for x
      using same_key [OF d that(1)] i that(2) by simp
    moreover have "replace_first (\<lambda>x. intent_key x = k) (?next i) (vw_intents v) =
        map (\<lambda>x. if intent_key x = k then ?next i else x) (vw_intents v)"
      by (rule replace_first_keyed [OF d]) simp
    ultimately show ?thesis using Some by simp
  qed
  have w: "w = retire u" by (simp only: w_def answer_intent_def u_def intents)
  have keys: "map intent_key (vw_intents u) = map intent_key (vw_intents v)" by (simp add: u_def)
  have fits: "view_fits u"
    unfolding view_fits_def keys
  proof (intro conjI ballI d)
    fix x assume "x \<in> set (vw_intents u)"
    then obtain y where y: "y \<in> set (vw_intents v)" "x = (if intent_key y = k then ?next y else y)"
      by (auto simp: u_def)
    then have "not_before (ri_answer y) (vw_answers v (intent_key y))" using ok by (simp add: view_ok_def)
    then show "not_before (ri_answer x) (vw_answers u (intent_key x))"
      using y(2) by (auto simp: u_def with_answer_same later_mono)
  qed
  have found: "intent_of j u = (case intent_of j v of None \<Rightarrow> None | Some i \<Rightarrow> Some (if j = k then ?next i else i))" for j
  proof -
    have "intent_of j u = (case intent_of j v of Some x \<Rightarrow> Some (if intent_key x = k then ?next x else x) | None \<Rightarrow> None)"
    proof -
      have "vw_intents u = map (\<lambda>x. if intent_key x = k then ?next x else x) (vw_intents v)" by (simp add: u_def)
      then show ?thesis unfolding intent_of_def by (simp only: find_map_same set_answer_key if_distrib [of intent_key] if_cancel)
    qed
    then show ?thesis using intent_of_mem [of j v] by (auto split: option.splits)
  qed
  have kept: "\<not> covered (vw_record v) (ri_answer i)" if "intent_of j v = Some i" for j i
    using intent_of_mem [OF that] ok by (auto simp: view_ok_def)
  show "vw_record w = vw_record v" by (simp add: w u_def)
  show "view_ok w" by (simp add: w retire_ok [OF fits])
  show "intent_of j w =
       (case intent_of j v of
          None \<Rightarrow> None
        | Some i \<Rightarrow>
            if j \<noteq> k then Some i
            else if covered (vw_record v) (later (ri_answer i) (Some version)) then None
            else Some (i\<lparr>ri_answer := later (ri_answer i) (Some version)\<rparr>))"
    using intent_of_retire [OF fits, of j] found [of j] kept [of j]
    by (auto simp: w u_def split: option.splits)
  show "vw_answers w j =
       (if j \<noteq> k then vw_answers v j
        else case intent_of k v of
          Some i \<Rightarrow> if fst k \<noteq> SwitchKind \<and> covered (vw_record v) (later (ri_answer i) (Some version)) then None
            else later (vw_answers v k) (Some version)
        | None \<Rightarrow> later (vw_answers v k) (Some version))"
    using answers_retire [OF fits, of j] found [of j] kept [of j]
    by (auto simp: w u_def with_answer_same split: option.splits)
qed

lemma drop_ok: "view_ok v \<Longrightarrow> view_ok (drop_intent k v)"
  by (auto simp: view_ok_def drop_intent_def distinct_map_filter)

lemma drop_effect:
  assumes "view_ok v"
  shows "intent_of j (drop_intent k v) = (if j = k then None else intent_of j v)"
    and "vw_answers (drop_intent k v) j = (if j = k then None else vw_answers v j)"
    and "vw_record (drop_intent k v) = vw_record v"
proof -
  have d: "distinct (map intent_key (vw_intents v))" using assms by (simp add: view_ok_def)
  show "intent_of j (drop_intent k v) = (if j = k then None else intent_of j v)"
    using keyed_filter [OF d, of j "\<lambda>x. intent_key x \<noteq> k"] intent_of_mem [of j v]
    by (auto simp: drop_intent_def intent_of_def split: option.splits)
qed (simp_all add: drop_intent_def)

lemma fail_cases:
  obtains "fail_intent k v = v"
  | i candidates where "intent_of (HandBackKind, k) v = Some i" "ri_body i = HandBackBody candidates False"
      "fail_intent k v = v\<lparr>vw_intents := replace_first (\<lambda>x. intent_key x = (HandBackKind, k))
         (i\<lparr>ri_body := HandBackBody candidates True\<rparr>) (vw_intents v)\<rparr>"
proof (cases "\<exists>i candidates. intent_of (HandBackKind, k) v = Some i \<and> ri_body i = HandBackBody candidates False")
  case True
  then show ?thesis by (elim exE conjE) (rule that(2), assumption+, simp add: fail_intent_def)
next
  case False
  then have "fail_intent k v = v" by (auto simp: fail_intent_def split: option.split intent_body.split)
  then show ?thesis by (rule that(1))
qed

lemma fail_ok:
  assumes "view_ok v"
  shows "view_ok (fail_intent k v)"
proof (cases rule: fail_cases [of k v])
  case (2 i candidates)
  have d: "distinct (map intent_key (vw_intents v))" using assms by (simp add: view_ok_def)
  let ?i = "i\<lparr>ri_body := HandBackBody candidates True\<rparr>"
  note i = intent_of_mem [OF 2(1)]
  have key: "intent_key ?i = (HandBackKind, k)" using i 2(2) by (simp add: intent_key_def)
  have r: "replace_first (\<lambda>x. intent_key x = (HandBackKind, k)) ?i (vw_intents v) =
      map (\<lambda>x. if intent_key x = (HandBackKind, k) then ?i else x) (vw_intents v)"
    by (rule replace_first_keyed [OF d]) simp
  have "map intent_key (map (\<lambda>x. if intent_key x = (HandBackKind, k) then ?i else x) (vw_intents v)) =
      map intent_key (vw_intents v)" using key by simp
  then show ?thesis
    using assms i key unfolding view_ok_def 2(3) r by (auto simp del: map_map)
qed (use assms in simp)

lemma fail_record [simp]: "vw_record (fail_intent k v) = vw_record v"
  by (cases rule: fail_cases [of k v]) simp_all

section \<open>Every action keeps the view\<close>

definition newer_record :: "run_view \<Rightarrow> run_view \<Rightarrow> bool" where
  "newer_record v w \<longleftrightarrow> vw_record w = vw_record v \<or>
     (case (vw_record v, vw_record w) of
        (None, Some _) \<Rightarrow> True
      | (Some a, Some b) \<Rightarrow> 0 < compare_seq (run_version b) (run_version a)
      | _ \<Rightarrow> False)"

lemma newer_record_refl [simp]: "newer_record v v"
  by (simp add: newer_record_def)

lemma newer_record_trans: "newer_record u v \<Longrightarrow> newer_record v w \<Longrightarrow> newer_record u w"
  by (auto simp: newer_record_def split: option.splits) (metis seq_less_trans compare_seq_swap)+

lemma newer_receive [simp]: "newer_record v (receive_record r v)"
  by (auto simp: newer_record_def receive_takes split: option.split)

lemma journal_entry_keeps:
  assumes "view_ok v"
  shows "view_ok (journal_entry e v) \<and> newer_record v (journal_entry e v)"
proof -
  have add: "view_ok (add_intent i w)" "vw_record (add_intent i w) = vw_record w" if "view_ok w" for i w
    using add_effect [OF that refl] by blast+
  show ?thesis
    using assms receive_ok [OF assms] answer_effect(1,2) [OF assms]
    by (auto simp: journal_entry_def add newer_record_def receive_takes split: option.split)
qed

lemma read_journal_keeps:
  assumes "view_ok v"
  shows "view_ok (read_journal js v) \<and> newer_record v (read_journal js v)"
proof -
  have a: "view_ok (fold journal_entry es w) \<and> newer_record w (fold journal_entry es w)" if "view_ok w" for es w
    using that
  proof (induction es arbitrary: w)
    case (Cons e es)
    from journal_entry_keeps [OF Cons.prems, of e] Cons.IH [of "journal_entry e w"]
    show ?case by (auto intro: newer_record_trans)
  qed simp
  have b: "view_ok (fold (\<lambda>i v. if P i then drop_intent (intent_key i) v else v) is w) \<and>
      newer_record w (fold (\<lambda>i v. if P i then drop_intent (intent_key i) v else v) is w)"
    if "view_ok w" for P "is" w
    using that
  proof (induction "is" arbitrary: w)
    case (Cons i "is")
    have "view_ok (if P i then drop_intent (intent_key i) w else w)" using Cons.prems drop_ok by simp
    from Cons.IH [OF this] show ?case by (simp add: newer_record_def drop_intent_def split: if_splits)
  qed simp
  show ?thesis
  proof -
    let ?next = "fold journal_entry js v"
    have n: "view_ok ?next" "newer_record v ?next" using a [OF assms] by simp_all
    have r: "read_journal js v = fold (\<lambda>i v. if body_kind (ri_body i) = SwitchKind \<and> ri_id i \<notin> set (map js_id js)
        then drop_intent (intent_key i) v else v) (vw_intents ?next) ?next"
      by (simp only: read_journal_def Let_def)
    show ?thesis unfolding r
      by (intro conjI conjunct1 [OF b [OF n(1)]] newer_record_trans [OF n(2) conjunct2 [OF b [OF n(1)]]])
  qed
qed

lemma reduce_view_keeps:
  assumes "view_ok v"
  shows "view_ok (reduce_view a v) \<and> newer_record v (reduce_view a v)"
proof -
  have add: "view_ok (add_intent i v) \<and> newer_record v (add_intent i v)" for i
    using add_effect(1,4) [OF assms refl] by (simp add: newer_record_def)
  have answer: "view_ok (answer_intent k s w) \<and> newer_record v (answer_intent k s w)"
    if "view_ok w" "newer_record v w" for k s w
    using answer_effect(1,2) [OF that(1)] that(2) by (simp add: newer_record_def)
  have drop: "view_ok (drop_intent k v) \<and> newer_record v (drop_intent k v)" for k
    using drop_ok [OF assms] by (simp add: newer_record_def drop_intent_def)
  have fail: "view_ok (fail_intent k v) \<and> newer_record v (fail_intent k v)" for k
    using fail_ok [OF assms] by (simp add: newer_record_def)
  show ?thesis
    using add answer [OF assms] answer [OF receive_ok [OF assms]] drop fail read_journal_keeps [OF assms]
      receive_ok [OF assms] assms
    by (cases a) simp_all
qed

end
