(* ===== verification/Run_State_Settling.thy ===== *)
theory Run_State_Settling
  imports Run_State_Facts
begin

text \<open>
  Intents settle the same way in whatever order the server's facts arrive
  (\<^verbatim>\<open>run-state-view.ts\<close>): the records, the stamps and the intent itself race to the device, and the
  view they leave depends on which of them there were alone.
\<close>

section \<open>Facts about one key\<close>

fun action_record :: "run_action \<Rightarrow> run_state option" where
  "action_record (SnapshotRecord r) = Some r"
| "action_record (HistoryRecord r) = Some r"
| "action_record (LiveRecord r) = Some r"
| "action_record _ = None"

fun action_answer :: "run_action \<Rightarrow> ((intent_kind \<times> string) \<times> string) option" where
  "action_answer (AnswerAction k version) = Some (k, version)"
| "action_answer (SwitchedFrame seq controlId turnId mode) = Some ((SwitchKind, controlId), seq)"
| "action_answer _ = None"

text \<open>The actions that only report: a record, a stamp (always the same one for the key), the intent itself.\<close>

fun reports :: "run_intent \<Rightarrow> string \<Rightarrow> run_action \<Rightarrow> bool" where
  "reports i x (SnapshotRecord r) = True"
| "reports i x (HistoryRecord r) = True"
| "reports i x (LiveRecord r) = True"
| "reports i x (SpokenNews q a) = True"
| "reports i x (AddIntentAction j) = (intent_key j = intent_key i \<longrightarrow> j = i)"
| "reports i x (AnswerAction k version) = (k = intent_key i \<longrightarrow> version = x)"
| "reports i x (SwitchedFrame seq controlId turnId mode) = ((SwitchKind, controlId) = intent_key i \<longrightarrow> seq = x)"
| "reports i x _ = False"

definition stamped :: "run_intent \<Rightarrow> string \<Rightarrow> run_action set \<Rightarrow> bool" where
  "stamped i x facts \<longleftrightarrow> ri_answer i = Some x \<or> (\<exists>a \<in> facts. action_answer a = Some (intent_key i, x))"

definition seen_past :: "string \<Rightarrow> run_action set \<Rightarrow> bool" where
  "seen_past x facts \<longleftrightarrow>
     (\<exists>a \<in> facts. case action_record a of Some r \<Rightarrow> 0 \<le> compare_seq (run_version r) x | None \<Rightarrow> False)"

definition settled_intent :: "run_intent \<Rightarrow> string \<Rightarrow> run_action set \<Rightarrow> run_intent option" where
  "settled_intent i x facts =
     (if AddIntentAction i \<notin> facts \<or> stamped i x facts \<and> seen_past x facts then None
      else Some (i\<lparr>ri_answer := if stamped i x facts then Some x else None\<rparr>))"

text \<open>What the view holds for the key after some of the facts.\<close>

definition settling :: "run_intent \<Rightarrow> string \<Rightarrow> run_action set \<Rightarrow> run_view \<Rightarrow> bool" where
  "settling i x facts v \<longleftrightarrow>
     view_ok v \<and> (covered (vw_record v) (Some x) \<longleftrightarrow> seen_past x facts) \<and>
     intent_of (intent_key i) v = settled_intent i x facts \<and>
     vw_answers v (intent_key i) \<in> {None, Some x} \<and>
     (AddIntentAction i \<notin> facts \<longrightarrow>
        (vw_answers v (intent_key i) = Some x \<longleftrightarrow> (\<exists>a \<in> facts. action_answer a = Some (intent_key i, x)))) \<and>
     (AddIntentAction i \<in> facts \<longrightarrow> fst (intent_key i) = SwitchKind \<longrightarrow>
        (vw_answers v (intent_key i) = Some x \<longleftrightarrow> stamped i x facts))"

lemma later_cases [simp]:
  "later None b = b" "later a None = a" "later (Some x) (Some x) = Some x"
  by (simp_all add: later_def split: option.split)

lemma covered_None [simp]: "covered r None = False" "covered None a = False"
  by (simp_all add: covered_def split: option.split)

lemma settling_initial: "settling i x {} initial_run_view"
  by (simp add: settling_def initial_run_view_def view_ok_def seen_past_def settled_intent_def intent_of_def)

lemma seen_past_insert:
  "seen_past x (insert a facts) \<longleftrightarrow>
     (case action_record a of Some r \<Rightarrow> 0 \<le> compare_seq (run_version r) x | None \<Rightarrow> False) \<or> seen_past x facts"
  by (auto simp: seen_past_def)

lemma stamped_insert:
  "stamped i x (insert a facts) \<longleftrightarrow> action_answer a = Some (intent_key i, x) \<or> stamped i x facts"
  by (auto simp: stamped_def)

lemma stampedI: "a \<in> facts \<Longrightarrow> action_answer a = Some (intent_key i, x) \<Longrightarrow> stamped i x facts"
  by (auto simp: stamped_def)

lemma receive_covers:
  "covered (vw_record (receive_record r v)) (Some x) \<longleftrightarrow>
     0 \<le> compare_seq (run_version r) x \<or> covered (vw_record v) (Some x)"
proof (cases "vw_record v")
  case (Some c)
  consider "compare_seq (run_version r) (run_version c) \<le> 0" | "0 \<le> compare_seq (run_version r) (run_version c)"
    "\<not> compare_seq (run_version r) (run_version c) \<le> 0" by linarith
  then show ?thesis
  proof cases
    case 1
    have "0 \<le> compare_seq (run_version c) x" if "0 \<le> compare_seq (run_version r) x"
      using seq_trans [OF _ that, of "run_version c"] 1 compare_seq_flip by blast
    then show ?thesis using 1 Some by (auto simp: covered_def receive_takes)
  next
    case 2
    have "0 \<le> compare_seq (run_version r) x" if "0 \<le> compare_seq (run_version c) x"
      using seq_trans [OF 2(1) that] .
    then show ?thesis using 2 Some by (auto simp: covered_def receive_takes)
  qed
qed (simp add: covered_def receive_takes)

lemma settling_record:
  assumes s: "settling i x facts v" and r: "action_record a = Some r"
  shows "settling i x (insert a facts) (receive_record r v)"
proof -
  let ?k = "intent_key i"
  have ok: "view_ok v" using s by (simp add: settling_def)
  have a: "action_answer a = None" "a \<noteq> AddIntentAction i" using r by (cases a; auto)+
  have add: "AddIntentAction i \<in> insert a facts \<longleftrightarrow> AddIntentAction i \<in> facts" using a(2) by auto
  note effect = receive_intent [OF ok, where r = r and k = ?k] receive_covers [of r v x]
  show ?thesis
    using s effect receive_ok [OF ok, of r]
    unfolding settling_def settled_intent_def add stamped_insert seen_past_insert r a(1)
    by (auto simp: a split: if_splits)
qed

lemma settling_answer:
  assumes s: "settling i x facts v" and a: "action_answer a = Some (k, version)" and
    x: "k = intent_key i \<Longrightarrow> version = x"
  shows "settling i x (insert a facts) (answer_intent k version v)"
proof -
  have ok: "view_ok v" using s by (simp add: settling_def)
  have r: "action_record a = None" "a \<noteq> AddIntentAction i" using a by (cases a; auto)+
  have add: "AddIntentAction i \<in> insert a facts \<longleftrightarrow> AddIntentAction i \<in> facts" using r(2) by auto
  note effect = answer_effect [OF ok, where k = k and version = version]
  show ?thesis
  proof (cases "k = intent_key i")
    case False
    then show ?thesis
      using s effect
      unfolding settling_def settled_intent_def add stamped_insert seen_past_insert r(1)
      by (auto simp: a split: option.splits)
  next
    case True
    then have x: "version = x" by (rule x)
    show ?thesis
      using s effect
      unfolding settling_def settled_intent_def add stamped_insert seen_past_insert r(1)
      by (auto simp: a True x split: option.splits if_splits)
  qed
qed

lemma settling_add:
  assumes s: "settling i x facts v" and j: "intent_key j = intent_key i \<Longrightarrow> j = i"
    and i: "ri_answer i \<in> {None, Some x}"
    and once: "j = i \<Longrightarrow> fst (intent_key i) \<noteq> SwitchKind \<Longrightarrow> AddIntentAction i \<notin> facts"
  shows "settling i x (insert (AddIntentAction j) facts) (add_intent j v)"
proof -
  have ok: "view_ok v" using s by (simp add: settling_def)
  note effect = add_effect [OF ok refl, where i = j]
  show ?thesis
  proof (cases "j = i")
    case False
    then show ?thesis
      using s effect j
      unfolding settling_def settled_intent_def stamped_insert seen_past_insert
      by auto
  next
    case True
    have best: "best_answer i v = (if stamped i x facts then Some x else None)"
      using s i once [OF True]
      by (auto simp: best_answer_def settling_def settled_intent_def stamped_def split: if_splits)
    show ?thesis
      using s effect best i
      unfolding settling_def settled_intent_def stamped_insert seen_past_insert
      by (auto simp: True split: if_splits dest: stampedI)
  qed
qed

definition adds_once :: "run_intent \<Rightarrow> run_action list \<Rightarrow> bool" where
  "adds_once i facts \<longleftrightarrow> fst (intent_key i) = SwitchKind \<or> length (filter (\<lambda>a. a = AddIntentAction i) facts) \<le> 1"

lemma settling_facts:
  assumes "list_all (reports i x) facts" and "adds_once i facts" and "ri_answer i \<in> {None, Some x}"
  shows "settling i x (set facts) (fold reduce_view facts initial_run_view)"
  using assms(1,2)
proof (induction facts rule: rev_induct)
  case Nil
  then show ?case by (simp add: settling_initial)
next
  case (snoc a facts)
  let ?v = "fold reduce_view facts initial_run_view"
  have "adds_once i facts" using snoc.prems(2) by (auto simp: adds_once_def split: if_splits)
  then have s: "settling i x (set facts) ?v" using snoc by simp
  have r: "reports i x a" using snoc.prems(1) by simp
  have once: "AddIntentAction i \<notin> set facts" if "a = AddIntentAction i" "fst (intent_key i) \<noteq> SwitchKind"
    using snoc.prems(2) that by (auto simp: adds_once_def filter_empty_conv)
  have "settling i x (insert a (set facts)) (reduce_view a ?v)"
  proof (cases a)
    case (AddIntentAction j)
    then show ?thesis using settling_add [OF s _ assms(3), of j] r once by auto
  next
    case (AnswerAction k version)
    then show ?thesis using settling_answer [OF s, of a k version] r by simp
  next
    case (SwitchedFrame seq controlId turnId mode)
    then show ?thesis using settling_answer [OF s, of a "(SwitchKind, controlId)" seq] r by simp
  next
    case (SpokenNews q p)
    have "settled_intent i x (insert a (set facts)) = settled_intent i x (set facts)"
      by (simp add: SpokenNews settled_intent_def stamped_insert seen_past_insert)
    then show ?thesis using s by (auto simp: SpokenNews settling_def seen_past_insert stamped_insert)
  qed (use r settling_record [OF s, of a] in auto)
  then show ?case by simp
qed

text \<open>C37: An intent settles the same way in whatever order its facts arrive: after the intent, any records and its
  one stamp have reached the view, it is gone exactly when it was stamped and some record is as new as the stamp,
  and otherwise it stands with the stamp it was given; which it is depends on the set of facts alone.\<close>

theorem intents_settle_in_any_order:
  assumes "list_all (reports i x) facts" and "adds_once i facts" and "ri_answer i \<in> {None, Some x}"
  shows "intent_of (intent_key i) (fold reduce_view facts initial_run_view) = settled_intent i x (set facts)"
  using settling_facts [OF assms] by (simp add: settling_def)

theorem intents_settle_in_any_order_witness:
  "intent_of (MessageKind, ''m'') (fold reduce_view
     [AnswerAction (MessageKind, ''m'') ''9'',
      SnapshotRecord \<lparr>run_version = ''10'', run_items = [], run_sentThrough = 0, run_execution = None,
        run_mode = DraftMode, run_creditsExhausted = False\<rparr>,
      AddIntentAction \<lparr>ri_id = ''m'', ri_answer = None, ri_body = MessageBody\<rparr>] initial_run_view) = None"
proof -
  let ?r = "\<lparr>run_version = ''10'', run_items = [], run_sentThrough = 0, run_execution = None,
    run_mode = DraftMode, run_creditsExhausted = False\<rparr>"
  let ?i = "\<lparr>ri_id = ''m'', ri_answer = None, ri_body = MessageBody\<rparr>"
  let ?facts = "[AnswerAction (MessageKind, ''m'') ''9'', SnapshotRecord ?r, AddIntentAction ?i]"
  have c: "compare_seq ''10'' ''9'' = 1" "intent_key ?i = (MessageKind, ''m'')" by code_simp+
  have "list_all (reports ?i ''9'') ?facts" "adds_once ?i ?facts" by (simp_all add: c adds_once_def)
  from intents_settle_in_any_order [OF this]
  have "intent_of (intent_key ?i) (fold reduce_view ?facts initial_run_view) = settled_intent ?i ''9'' (set ?facts)" by simp
  moreover have "settled_intent ?i ''9'' (set ?facts) = None"
    by (simp add: settled_intent_def stamped_def seen_past_def c)
  ultimately show ?thesis unfolding c by (rule trans)
qed

end
