(* ===== verification/Run_Slice_News.thy ===== *)
theory Run_Slice_News
  imports Run_State_Facts
begin

text \<open>
  What a chat announces of its write-mode switches (\<^verbatim>\<open>run-state-slice.ts\<close>): the invariant every
  reachable slice keeps, and which actions announce what.
\<close>

section \<open>Heard and announced\<close>

definition control_ids :: "inbox_item list \<Rightarrow> string set" where
  "control_ids items = set (map it_id (filter is_write_mode_control items))"

definition news_ok :: "string set \<Rightarrow> queued_news list \<Rightarrow> bool" where
  "news_ok heard news \<longleftrightarrow> map qn_n news = [1..<length news + 1] \<and> distinct (map qn_id news) \<and>
     set (map qn_id news) \<subseteq> heard"

text \<open>A notice says the switch that waits in the record, its mode and whether it waits for delivery.\<close>

definition news_of_item :: "queued_news \<Rightarrow> inbox_item \<Rightarrow> bool" where
  "news_of_item n item \<longleftrightarrow> it_intent item = ControlItem \<and> it_control item = Some (WriteModeControl (qn_mode n)) \<and>
     it_id item = qn_id n \<and> (qn_waiting n \<longleftrightarrow> it_delivery item = WaitingDelivery)"

lemma is_write_mode_control_iff:
  "is_write_mode_control item \<longleftrightarrow> it_intent item = ControlItem \<and> (\<exists>m. it_control item = Some (WriteModeControl m))"
  by (auto simp: is_write_mode_control_def split: option.split control_body.split)

lemma hear_item_cases:
  obtains (skip) "\<not> is_write_mode_control item \<or> it_id item \<in> heard" "hear_item live item (heard, news) = (heard, news)"
  | (hear) n where "is_write_mode_control item" "it_id item \<notin> heard" "qn_n n = length news + 1" "news_of_item n item"
      "hear_item live item (heard, news) = (insert (it_id item) heard, if live then news @ [n] else news)"
proof (cases "is_write_mode_control item \<and> it_id item \<notin> heard")
  case True
  then obtain m where m: "it_intent item = ControlItem" "it_control item = Some (WriteModeControl m)" "it_id item \<notin> heard"
    by (auto simp: is_write_mode_control_iff)
  show ?thesis
    by (rule hear [of "\<lparr>qn_n = length news + 1, qn_id = it_id item, qn_mode = m,
        qn_waiting = it_delivery item = WaitingDelivery\<rparr>"])
      (use True m in \<open>simp_all add: hear_item_def news_of_item_def\<close>)
next
  case False
  then have "hear_item live item (heard, news) = (heard, news)"
    by (auto simp: hear_item_def is_write_mode_control_iff split: option.split control_body.split)
  then show ?thesis using skip False by blast
qed

lemma hear_items:
  assumes "news_ok heard news"
  obtains added where
    "fold (hear_item live) items (heard, news) = (heard \<union> control_ids items, news @ added)"
    "news_ok (heard \<union> control_ids items) (news @ added)"
    "set (map qn_id added) = (if live then control_ids items - heard else {})"
    "\<forall>n \<in> set added. \<exists>item \<in> set items. news_of_item n item"
  using assms
proof (induction items arbitrary: heard news thesis)
  case Nil
  then show ?case by (simp add: control_ids_def)
next
  case (Cons item items)
  show ?case
  proof (cases rule: hear_item_cases [of item heard live news])
    case skip
    have c: "heard \<union> control_ids (item # items) = heard \<union> control_ids items"
      "control_ids (item # items) - heard = control_ids items - heard"
      using skip(1) by (auto simp: control_ids_def)
    show ?thesis
      by (rule Cons.IH [OF _ Cons.prems(2)], rule Cons.prems(1)) (auto simp: skip(2) c)
  next
    case (hear n)
    let ?heard = "insert (it_id item) heard" and ?news = "if live then news @ [n] else news"
    have n: "qn_id n = it_id item" using hear(4) by (simp add: news_of_item_def)
    have ok: "news_ok ?heard ?news"
      using Cons.prems(2) hear(2,3) n by (auto simp: news_ok_def)
    have c: "?heard \<union> control_ids items = heard \<union> control_ids (item # items)"
      "insert (it_id item) (control_ids items - ?heard) = control_ids (item # items) - heard"
      using hear(1,2) by (auto simp: control_ids_def)
    obtain added where a:
      "fold (hear_item live) items (?heard, ?news) = (?heard \<union> control_ids items, ?news @ added)"
      "news_ok (?heard \<union> control_ids items) (?news @ added)"
      "set (map qn_id added) = (if live then control_ids items - ?heard else {})"
      "\<forall>n \<in> set added. \<exists>item \<in> set items. news_of_item n item"
      using Cons.IH [OF _ ok] by blast
    let ?added = "(if live then [n] else []) @ added"
    have "?news @ added = news @ ?added" by simp
    with a(1,2) hear(5) have f: "fold (hear_item live) (item # items) (heard, news) =
        (heard \<union> control_ids (item # items), news @ ?added)"
      "news_ok (heard \<union> control_ids (item # items)) (news @ ?added)" unfolding c(1) by simp_all
    have ids: "set (map qn_id ?added) = (if live then control_ids (item # items) - heard else {})"
      using a(3) n unfolding c(2) [symmetric] by auto
    have "\<forall>n \<in> set ?added. \<exists>item' \<in> set (item # items). news_of_item n item'"
      using a(4) hear(4) by auto
    then show ?thesis using Cons.prems(1) [OF f ids] by blast
  qed
qed

section \<open>Slices\<close>

definition applied_ok :: "string set \<Rightarrow> applied_news list \<Rightarrow> bool" where
  "applied_ok heard news \<longleftrightarrow> map an_n news = [1..<length news + 1] \<and> distinct (map an_turnId news) \<and>
     set (map an_turnId news) = heard"

definition seed_ok :: "run_slice \<Rightarrow> bool" where
  "seed_ok st \<longleftrightarrow>
     (case (sl_seed st, vw_record (sl_view st)) of
        (None, None) \<Rightarrow> True
      | (Some s, Some r) \<Rightarrow> 0 \<le> compare_seq (run_version r) s
      | _ \<Rightarrow> False)"

definition slice_ok :: "run_slice \<Rightarrow> bool" where
  "slice_ok st \<longleftrightarrow> view_ok (sl_view st) \<and> seed_ok st \<and> news_ok (sl_heard st) (sl_news st) \<and>
     applied_ok (sl_appliedHeard st) (sl_applied st) \<and>
     (\<forall>r. vw_record (sl_view st) = Some r \<longrightarrow> control_ids (run_items r) \<subseteq> sl_heard st)"

definition is_spoken :: "run_action \<Rightarrow> bool" where
  "is_spoken a \<longleftrightarrow> (case a of SpokenNews _ _ \<Rightarrow> True | _ \<Rightarrow> False)"

definition seeded :: "run_view \<Rightarrow> run_slice \<Rightarrow> run_slice" where
  "seeded view st = (if sl_seed st = None then st\<lparr>sl_seed := map_option run_version (vw_record view)\<rparr> else st)"

definition with_applied :: "run_action \<Rightarrow> run_slice \<Rightarrow> run_slice" where
  "with_applied a st =
     (case a of SwitchedFrame seq controlId turnId mode \<Rightarrow> applied_by seq controlId turnId mode st | _ \<Rightarrow> st)"

lemma reduce_slice_steps:
  assumes "\<not> is_spoken a"
  shows "reduce_slice a st =
     (let next = with_applied a (seeded (reduce_view a (sl_view st)) st)
      in case vw_record (reduce_view a (sl_view st)) of
           None \<Rightarrow> next\<lparr>sl_view := reduce_view a (sl_view st)\<rparr>
         | Some r \<Rightarrow>
             if Some r = vw_record (sl_view st) then next\<lparr>sl_view := reduce_view a (sl_view st)\<rparr>
             else (case fold (hear_item (vw_record (sl_view st) \<noteq> None \<and> is_live a)) (run_items r)
                      (sl_heard next, sl_news next) of
                 (heard, news) \<Rightarrow> next\<lparr>sl_view := reduce_view a (sl_view st), sl_heard := heard, sl_news := news\<rparr>))"
  using assms unfolding reduce_slice_def with_applied_def seeded_def is_spoken_def Let_def
  by (cases a) (simp_all only: run_action.case simp_thms prod.case)

lemma with_applied_same [simp]:
  "sl_view (with_applied a st) = sl_view st" "sl_heard (with_applied a st) = sl_heard st"
  "sl_news (with_applied a st) = sl_news st" "sl_seed (with_applied a st) = sl_seed st"
  by (auto simp: with_applied_def applied_by_def split: run_action.split option.split)

lemma seeded_same [simp]:
  "sl_view (seeded v st) = sl_view st" "sl_heard (seeded v st) = sl_heard st" "sl_news (seeded v st) = sl_news st"
  "sl_appliedHeard (seeded v st) = sl_appliedHeard st" "sl_applied (seeded v st) = sl_applied st"
  by (simp_all add: seeded_def)

lemma with_applied_ok:
  "applied_ok (sl_appliedHeard st) (sl_applied st) \<Longrightarrow>
     applied_ok (sl_appliedHeard (with_applied a st)) (sl_applied (with_applied a st))"
  by (auto simp: with_applied_def applied_by_def applied_ok_def split: run_action.split option.split)

lemma seeded_ok:
  assumes "view_ok v" and "seed_ok st" and "newer_record (sl_view st) v"
  shows "seed_ok (with_applied a (seeded v st)\<lparr>sl_view := v\<rparr>)"
proof (cases "sl_seed st")
  case None
  then show ?thesis by (simp add: seed_ok_def seeded_def split: option.split)
next
  case (Some s)
  then obtain r where r: "vw_record (sl_view st) = Some r" "0 \<le> compare_seq (run_version r) s"
    using assms(2) by (auto simp: seed_ok_def split: option.splits)
  then obtain q where "vw_record v = Some q" "0 \<le> compare_seq (run_version q) (run_version r)"
    using assms(3) by (cases "vw_record v") (auto simp: newer_record_def)
  with Some r(2) show ?thesis by (auto simp: seed_ok_def seeded_def intro: seq_trans)
qed

lemma spoken_slice: "is_spoken a \<Longrightarrow> slice_ok st \<Longrightarrow> slice_ok (reduce_slice a st) \<and>
    sl_news (reduce_slice a st) = sl_news st \<and> sl_view (reduce_slice a st) = sl_view st"
  by (auto simp: is_spoken_def reduce_slice_def slice_ok_def seed_ok_def split: run_action.splits option.splits)

definition announces :: "run_action \<Rightarrow> run_slice \<Rightarrow> queued_news list \<Rightarrow> run_slice \<Rightarrow> bool" where
  "announces a st added next \<longleftrightarrow>
     sl_news next = sl_news st @ added \<and>
     (\<forall>n \<in> set added. \<exists>r item. vw_record (sl_view next) = Some r \<and> item \<in> set (run_items r) \<and> news_of_item n item) \<and>
     (case vw_record (sl_view next) of
        None \<Rightarrow> added = []
      | Some r \<Rightarrow> set (map qn_id added) =
          (if is_live a \<and> vw_record (sl_view st) \<noteq> None then control_ids (run_items r) - sl_heard st else {}))"

lemma reduce_slice_keeps:
  assumes ok: "slice_ok st"
  shows "slice_ok (reduce_slice a st) \<and> newer_record (sl_view st) (sl_view (reduce_slice a st)) \<and>
     (\<exists>added. announces a st added (reduce_slice a st))"
proof (cases "is_spoken a")
  case True
  then have "\<not> is_live a" by (cases a) (simp_all add: is_spoken_def)
  then have "announces a st [] (reduce_slice a st)"
    using spoken_slice [OF True ok] by (auto simp: announces_def split: option.split)
  then show ?thesis using spoken_slice [OF True ok] by auto
next
  case False
  let ?v = "reduce_view a (sl_view st)"
  let ?next = "with_applied a (seeded ?v st)"
  have v: "view_ok ?v" "newer_record (sl_view st) ?v"
    using reduce_view_keeps [of "sl_view st" a] ok by (simp_all add: slice_ok_def)
  have seed: "seed_ok (?next\<lparr>sl_view := ?v\<rparr>)" using seeded_ok [OF v(1) _ v(2)] ok by (simp add: slice_ok_def)
  have applied: "applied_ok (sl_appliedHeard ?next) (sl_applied ?next)"
    using with_applied_ok [of "seeded ?v st" a] ok by (simp add: slice_ok_def)
  have news: "news_ok (sl_heard st) (sl_news st)" using ok by (simp add: slice_ok_def)
  show ?thesis
  proof (cases "vw_record ?v = None \<or> vw_record ?v = vw_record (sl_view st)")
    case True
    then have r: "reduce_slice a st = ?next\<lparr>sl_view := ?v\<rparr>"
      by (auto simp: reduce_slice_steps [OF False] Let_def split: option.split)
    have heard: "control_ids (run_items q) \<subseteq> sl_heard st" if "vw_record ?v = Some q" for q
      using that True ok by (auto simp: slice_ok_def)
    then have "announces a st [] (reduce_slice a st)"
      by (auto simp: r announces_def split: option.split)
    then show ?thesis using v seed applied news heard by (auto simp: r slice_ok_def)
  next
    case change: False
    then obtain q where q: "vw_record ?v = Some q" "Some q \<noteq> vw_record (sl_view st)" by auto
    let ?live = "vw_record (sl_view st) \<noteq> None \<and> is_live a"
    obtain added where a:
      "fold (hear_item ?live) (run_items q) (sl_heard st, sl_news st) =
         (sl_heard st \<union> control_ids (run_items q), sl_news st @ added)"
      "news_ok (sl_heard st \<union> control_ids (run_items q)) (sl_news st @ added)"
      "set (map qn_id added) = (if ?live then control_ids (run_items q) - sl_heard st else {})"
      "\<forall>n \<in> set added. \<exists>item \<in> set (run_items q). news_of_item n item"
      by (rule hear_items [OF news])
    have r: "reduce_slice a st = ?next\<lparr>sl_view := ?v, sl_heard := sl_heard st \<union> control_ids (run_items q),
        sl_news := sl_news st @ added\<rparr>"
      using q a(1) by (simp add: reduce_slice_steps [OF False] Let_def)
    have "announces a st added (reduce_slice a st)"
      using a(3,4) q(1) by (auto simp: r announces_def)
    moreover have "seed_ok (reduce_slice a st)" using seed by (simp add: r seed_ok_def)
    ultimately show ?thesis using v applied a(2) q(1) by (auto simp: r slice_ok_def)
  qed
qed

lemma history_same:
  "sl_view (reduce_run_state a st) = sl_view (reduce_slice a st)"
  "sl_news (reduce_run_state a st) = sl_news (reduce_slice a st)"
  "slice_ok (reduce_run_state a st) = slice_ok (reduce_slice a st)"
  by (auto simp: reduce_run_state_def Let_def slice_ok_def seed_ok_def split: run_action.split option.split)

lemma slice_view: "sl_view (reduce_run_state a st) = reduce_view a (sl_view st)"
proof (cases "is_spoken a")
  case True
  then show ?thesis by (cases a) (simp_all add: is_spoken_def history_same reduce_slice_def)
next
  case False
  then show ?thesis by (simp add: history_same reduce_slice_steps Let_def split: option.split prod.split)
qed

lemma initial_slice_ok: "slice_ok initial_run_slice"
  by (simp add: slice_ok_def initial_run_slice_def initial_run_view_def view_ok_def seed_ok_def news_ok_def applied_ok_def)

lemma reduce_run_state_keeps:
  "slice_ok st \<Longrightarrow> slice_ok (fold reduce_run_state actions st) \<and>
     newer_record (sl_view st) (sl_view (fold reduce_run_state actions st))"
proof (induction actions arbitrary: st)
  case (Cons a actions)
  have "slice_ok (reduce_run_state a st)" "newer_record (sl_view st) (sl_view (reduce_run_state a st))"
    using reduce_slice_keeps [OF Cons.prems, of a] by (simp_all add: history_same)
  with Cons.IH [of "reduce_run_state a st"] show ?case by (auto intro: newer_record_trans)
qed simp

text \<open>C38: Whatever reaches a chat in whatever order, its slice stays well formed: an intent is held once and never while the
  record covers its answer, the news are numbered from one and no switch is announced twice, every
  switch of the record has been heard, and the record never goes back to an older version.\<close>

theorem run_slice_stays_well_formed:
  "slice_ok (fold reduce_run_state actions initial_run_slice) \<and>
     newer_record (sl_view (fold reduce_run_state actions initial_run_slice))
       (sl_view (fold reduce_run_state (actions @ later_actions) initial_run_slice))"
  using reduce_run_state_keeps [OF initial_slice_ok, of actions]
    reduce_run_state_keeps [of "fold reduce_run_state actions initial_run_slice" later_actions] by simp

text \<open>C39: A queued switch is announced when it is first heard in a live record after the first record, and then
  once: the news a step adds are the record's switches not heard before, with the mode and the wait the
  record gives them, and no other action announces any.\<close>

theorem switches_announced_once:
  assumes "slice_ok st"
  shows "\<exists>added. announces a st added (reduce_run_state a st) \<and>
     distinct (map qn_id (sl_news st @ added)) \<and> map qn_n added = [length (sl_news st) + 1..<length (sl_news st) + length added + 1]"
proof -
  obtain added where a: "announces a st added (reduce_slice a st)" "slice_ok (reduce_slice a st)"
    using reduce_slice_keeps [OF assms, of a] by blast
  then have "news_ok (sl_heard (reduce_slice a st)) (sl_news st @ added)" by (simp add: announces_def slice_ok_def)
  then have n: "map qn_n (sl_news st @ added) = [1..<length (sl_news st @ added) + 1]"
    "distinct (map qn_id (sl_news st @ added))" by (simp_all add: news_ok_def)
  have "map qn_n added = drop (length (sl_news st)) (map qn_n (sl_news st @ added))" by simp
  also have "\<dots> = [length (sl_news st) + 1..<length (sl_news st) + length added + 1]"
    unfolding n(1) by (simp del: upt_Suc)
  finally show ?thesis using a(1) n(2) by (intro exI [of _ added]) (simp add: announces_def history_same)
qed

definition queueing_record :: run_state where
  "queueing_record = \<lparr>run_version = ''3'', run_items = [\<lparr>it_id = ''s'', it_seq = 1, it_intent = ControlItem,
      it_control = Some (WriteModeControl DirectMode), it_provenance = FromWriter ''u'', it_delivery = AwaitingRun,
      it_summary = [], it_enqueuedAt = []\<rparr>], run_sentThrough = 0,
      run_execution = None, run_mode = DraftMode, run_creditsExhausted = False\<rparr>"

definition empty_record :: run_state where
  "empty_record = \<lparr>run_version = ''2'', run_items = [], run_sentThrough = 0,
      run_execution = None, run_mode = DraftMode, run_creditsExhausted = False\<rparr>"

theorem switches_announced_once_witness:
  "\<exists>added. announces (LiveRecord queueing_record) (reduce_run_state (SnapshotRecord empty_record) initial_run_slice) added
       (reduce_run_state (LiveRecord queueing_record)
         (reduce_run_state (SnapshotRecord empty_record) initial_run_slice)) \<and>
     set (map qn_id added) = {''s''}"
proof -
  let ?st = "reduce_run_state (SnapshotRecord empty_record) initial_run_slice"
  let ?next = "reduce_run_state (LiveRecord queueing_record) ?st"
  have ok: "slice_ok ?st" using reduce_run_state_keeps [OF initial_slice_ok, of "[SnapshotRecord empty_record]"] by simp
  obtain added where a: "announces (LiveRecord queueing_record) ?st added ?next"
    using switches_announced_once [OF ok] by blast
  have c: "compare_seq ''3'' ''2'' = 1" by code_simp
  have v: "sl_view ?st = initial_run_view\<lparr>vw_record := Some empty_record\<rparr>"
    by (simp add: history_same reduce_slice_steps is_spoken_def with_applied_def seeded_def initial_run_slice_def
        receive_record_def initial_run_view_def retire_def empty_record_def)
  have "sl_heard ?st = {}"
    by (simp add: reduce_run_state_def reduce_slice_def initial_run_slice_def
        receive_record_def initial_run_view_def retire_def empty_record_def Let_def)
  moreover have "vw_record (sl_view ?next) = Some queueing_record"
    unfolding slice_view [of _ ?st] v
    by (simp add: receive_takes c queueing_record_def empty_record_def)
  moreover have "control_ids (run_items queueing_record) = {''s''}"
    by (simp add: control_ids_def queueing_record_def is_write_mode_control_def)
  moreover have "vw_record (sl_view ?st) \<noteq> None" by (simp add: v)
  ultimately have "set (map qn_id added) = {''s''}" using a by (simp add: announces_def)
  with a show ?thesis by blast
qed

end
