(* ===== verification/Chat_Turn.thy ===== *)
theory Chat_Turn
  imports Run_State_Facts Complex_Main
begin

text \<open>
  The turns of a chat (\<^verbatim>\<open>threads/turn.ts\<close>, \<^verbatim>\<open>threads/status.ts\<close> and \<^verbatim>\<open>threads/block-content-record.ts\<close> of
  the contracts package) and the JSON values their blocks hold. A field that may be missing and may be
  null keeps the two apart, because turns are compared with strict equality.
\<close>

section \<open>JSON\<close>

text \<open>Numbers are the rationals doubles denote; an object lists its entries in insertion order. A missing
  property reads as undefined, which only values built on the client can hold.\<close>

datatype json =
    JUndefined
  | JNull
  | JBool bool
  | JNumber rat
  | JString string
  | JArray "json list"
  | JObject "(string \<times> json) list"

fun json_record :: "json \<Rightarrow> (string \<times> json) list option" where
  "json_record (JObject entries) = Some entries"
| "json_record _ = None"

fun json_text :: "json \<Rightarrow> string option" where
  "json_text (JString s) = Some s"
| "json_text _ = None"

definition json_field :: "(string \<times> json) list \<Rightarrow> string \<Rightarrow> json" where
  "json_field entries key = (case map_of entries key of Some v \<Rightarrow> v | None \<Rightarrow> JUndefined)"

section \<open>Turns\<close>

datatype 'a field = Absent | Null | Has 'a

fun field_or :: "'a \<Rightarrow> 'a field \<Rightarrow> 'a" where
  "field_or d (Has a) = a"
| "field_or d _ = d"

datatype turn_role = UserRole | AssistantRole | SystemRole | CompactionRole

datatype turn_origin = WriterOrigin | AssistantOrigin | SystemOrigin

text \<open>The reducer casts the names of opaque events to block types.\<close>

datatype block_type =
    TextBlock | ImageBlock | FileBlock | ReasoningBlock | ThinkingBlock
  | ToolUseBlock | ToolResultBlock | CustomBlock | OpaqueBlock string

datatype block_status = CompleteBlock | PartialBlock

datatype execution_side = ServerSide | ClientSide | HostedSide

datatype finish_reason = EndTurn | ToolUseReason | MaxTokens | StopSequence | ErrorReason

datatype turn_status =
    PendingTurn | StreamingTurn | AwaitingAnswer | CompleteTurn | CancelledTurn | ErrorTurn

fun is_terminal_turn_status :: "turn_status \<Rightarrow> bool" where
  "is_terminal_turn_status AwaitingAnswer = True"
| "is_terminal_turn_status CompleteTurn = True"
| "is_terminal_turn_status CancelledTurn = True"
| "is_terminal_turn_status ErrorTurn = True"
| "is_terminal_turn_status _ = False"

record chat_block =
  bl_id :: string
  bl_turnId :: string
  bl_responseId :: "string option"
  bl_type :: block_type
  bl_sequence :: int
  bl_textContent :: "string field"
  bl_content :: json
  bl_modelText :: "string option"
  bl_compact :: "string option"
  bl_provider :: "string field"
  bl_providerData :: "json field"
  bl_executionSide :: "execution_side field"
  bl_status :: "block_status option"
  bl_collapsedContent :: "string field"
  bl_createdAt :: string

record turn_delivery =
  td_byTurnId :: "string option"

text \<open>Usage, requests and responses are opaque to every rule here: they are compared and replaced whole.\<close>

record chat_turn =
  tn_id :: string
  tn_threadId :: string
  tn_position :: int
  tn_prevTurnId :: "string field"
  tn_parentTurnId :: "string field"
  tn_role :: turn_role
  tn_origin :: turn_origin
  tn_writeMode :: "write_mode option"
  tn_status :: turn_status
  tn_executionId :: "string option"
  tn_reservedForUserTurnIds :: "string list"
  tn_delivery :: "turn_delivery option"
  tn_forgottenBy :: "string option"
  tn_promptBakeId :: "string option"
  tn_compactionModel :: "string field"
  tn_finishReason :: "finish_reason option"
  tn_model :: "string field"
  tn_provider :: "string field"
  tn_inputTokens :: int
  tn_outputTokens :: int
  tn_reasoningTokens :: "int field"
  tn_cacheReadTokens :: "int field"
  tn_cacheWriteTokens :: "int field"
  tn_totalCostUsd :: string
  tn_totalMillicredits :: "string option"
  tn_responseCount :: int
  tn_usage :: json
  tn_error :: "string option"
  tn_requestParams :: "json field"
  tn_responseMetadata :: "json field"
  tn_metadata :: "json field"
  tn_createdAt :: string
  tn_completedAt :: "string option"
  tn_blocks :: "chat_block list"
  tn_siblingIds :: "string list"
  tn_responses :: "json list"

definition block_content_record :: "chat_block \<Rightarrow> (string \<times> json) list" where
  "block_content_record block = (case json_record (bl_content block) of Some entries \<Rightarrow> entries | None \<Rightarrow> [])"

definition retry_target_of :: "chat_turn \<Rightarrow> string option" where
  "retry_target_of turn =
     (case tn_metadata turn of
        Has metadata \<Rightarrow>
          (case json_record metadata of
             Some entries \<Rightarrow> json_text (json_field entries ''retryOf'')
           | None \<Rightarrow> None)
      | _ \<Rightarrow> None)"

section \<open>Comparing turns\<close>

lemma json_item_size: "x \<in> set xs \<Longrightarrow> size x < size (JArray xs)"
  by (induction xs) auto

lemma json_entry_size: "(k, x) \<in> set xs \<Longrightarrow> size x < size (JObject xs)"
  by (induction xs) auto

function same_json :: "json \<Rightarrow> json \<Rightarrow> bool" where
  "same_json (JArray xs) (JArray ys) = (length xs = length ys \<and> list_all (\<lambda>(x, y). same_json x y) (zip xs ys))"
| "same_json (JObject xs) (JObject ys) =
     (length xs = length ys \<and>
      list_all (\<lambda>(k, x). case map_of ys k of None \<Rightarrow> False | Some y \<Rightarrow> same_json x y) xs)"
| "same_json (JArray xs) (JObject ys) = False"
| "same_json (JObject xs) (JArray ys) = False"
| "same_json (JArray xs) JUndefined = False"
| "same_json (JArray xs) JNull = False"
| "same_json (JArray xs) (JBool b) = False"
| "same_json (JArray xs) (JNumber n) = False"
| "same_json (JArray xs) (JString s) = False"
| "same_json (JObject xs) JUndefined = False"
| "same_json (JObject xs) JNull = False"
| "same_json (JObject xs) (JBool b) = False"
| "same_json (JObject xs) (JNumber n) = False"
| "same_json (JObject xs) (JString s) = False"
| "same_json JUndefined y = (y = JUndefined)"
| "same_json JNull y = (y = JNull)"
| "same_json (JBool b) y = (y = JBool b)"
| "same_json (JNumber n) y = (y = JNumber n)"
| "same_json (JString s) y = (y = JString s)"
  by pat_completeness auto
termination
  by (relation "measure (\<lambda>(x, y). size x)")
    (auto dest!: set_zip_leftD dest: json_item_size json_entry_size)

definition same_field :: "json field \<Rightarrow> json field \<Rightarrow> bool" where
  "same_field a b =
     (case (a, b) of (Has x, Has y) \<Rightarrow> same_json x y | _ \<Rightarrow> a = b)"

definition same_block :: "chat_block \<Rightarrow> chat_block \<Rightarrow> bool" where
  "same_block a b \<longleftrightarrow>
     bl_id a = bl_id b \<and> bl_turnId a = bl_turnId b \<and> bl_responseId a = bl_responseId b \<and>
     bl_type a = bl_type b \<and> bl_sequence a = bl_sequence b \<and> bl_textContent a = bl_textContent b \<and>
     same_json (bl_content a) (bl_content b) \<and> bl_modelText a = bl_modelText b \<and>
     bl_compact a = bl_compact b \<and> bl_provider a = bl_provider b \<and>
     same_field (bl_providerData a) (bl_providerData b) \<and> bl_executionSide a = bl_executionSide b \<and>
     bl_status a = bl_status b \<and> bl_collapsedContent a = bl_collapsedContent b \<and>
     bl_createdAt a = bl_createdAt b"

text \<open>The arrays of blocks are compared by reference in the source; reconciliation hands the local array
  back exactly when every block of it stands, so equal arrays stand for the same one.\<close>

definition same_turn :: "chat_turn \<Rightarrow> chat_turn \<Rightarrow> bool" where
  "same_turn a b \<longleftrightarrow>
     tn_id a = tn_id b \<and> tn_threadId a = tn_threadId b \<and> tn_position a = tn_position b \<and>
     tn_prevTurnId a = tn_prevTurnId b \<and> tn_parentTurnId a = tn_parentTurnId b \<and> tn_role a = tn_role b \<and>
     tn_origin a = tn_origin b \<and> tn_writeMode a = tn_writeMode b \<and> tn_status a = tn_status b \<and>
     tn_executionId a = tn_executionId b \<and> tn_reservedForUserTurnIds a = tn_reservedForUserTurnIds b \<and>
     tn_delivery a = tn_delivery b \<and> tn_forgottenBy a = tn_forgottenBy b \<and>
     tn_promptBakeId a = tn_promptBakeId b \<and> tn_compactionModel a = tn_compactionModel b \<and>
     tn_finishReason a = tn_finishReason b \<and> tn_model a = tn_model b \<and> tn_provider a = tn_provider b \<and>
     tn_inputTokens a = tn_inputTokens b \<and> tn_outputTokens a = tn_outputTokens b \<and>
     tn_reasoningTokens a = tn_reasoningTokens b \<and> tn_cacheReadTokens a = tn_cacheReadTokens b \<and>
     tn_cacheWriteTokens a = tn_cacheWriteTokens b \<and> tn_totalCostUsd a = tn_totalCostUsd b \<and>
     tn_totalMillicredits a = tn_totalMillicredits b \<and> tn_responseCount a = tn_responseCount b \<and>
     same_json (tn_usage a) (tn_usage b) \<and> tn_error a = tn_error b \<and>
     same_field (tn_requestParams a) (tn_requestParams b) \<and>
     same_field (tn_responseMetadata a) (tn_responseMetadata b) \<and>
     same_field (tn_metadata a) (tn_metadata b) \<and> tn_createdAt a = tn_createdAt b \<and>
     tn_completedAt a = tn_completedAt b \<and> tn_blocks a = tn_blocks b \<and> tn_siblingIds a = tn_siblingIds b \<and>
     list_all2 same_json (tn_responses a) (tn_responses b)"

end
