(* ===== verification/Turn_Operations.thy ===== *)
theory Turn_Operations
  imports Chat_Turn "HOL-Library.AList"
begin

text \<open>
  The operations on the turns of a chat (\<^verbatim>\<open>turn-ops.ts\<close> and \<^verbatim>\<open>state-helpers.ts\<close> of
  \<^verbatim>\<open>packages/thread-client/src/turns\<close>): what the stream of a run adds and changes, and the fences that keep an
  older snapshot from undoing it.
\<close>

section \<open>Helpers\<close>

definition to_block_content :: "json \<Rightarrow> json" where
  "to_block_content v = (case v of JObject entries \<Rightarrow> v | _ \<Rightarrow> JObject [(''value'', v)])"

definition next_block_sequence :: "chat_block list \<Rightarrow> int" where
  "next_block_sequence blocks = foldl (\<lambda>m b. max m (bl_sequence b)) (- 1) blocks + 1"

section \<open>The assistant turn\<close>

text \<open>An absent write mode is undefined, a given one may be null.\<close>

record ensure_options =
  eo_createdAt :: "string option"
  eo_prevTurnId :: "string field"
  eo_writeMode :: "write_mode option option"

definition no_ensure_options :: ensure_options where
  "no_ensure_options = \<lparr>eo_createdAt = None, eo_prevTurnId = Absent, eo_writeMode = None\<rparr>"

definition blank_turn :: "string \<Rightarrow> string \<Rightarrow> turn_role \<Rightarrow> turn_origin \<Rightarrow> turn_status \<Rightarrow> string \<Rightarrow> chat_turn" where
  "blank_turn threadId turnId role origin status createdAt =
     \<lparr>tn_id = turnId, tn_threadId = threadId, tn_position = 0, tn_prevTurnId = Null, tn_parentTurnId = Absent,
      tn_role = role, tn_origin = origin, tn_writeMode = None, tn_status = status, tn_executionId = None,
      tn_reservedForUserTurnIds = [], tn_delivery = None, tn_forgottenBy = None, tn_promptBakeId = None,
      tn_compactionModel = Absent, tn_finishReason = None, tn_model = Absent, tn_provider = Absent,
      tn_inputTokens = 0, tn_outputTokens = 0, tn_reasoningTokens = Null, tn_cacheReadTokens = Null,
      tn_cacheWriteTokens = Null, tn_totalCostUsd = ''0'', tn_totalMillicredits = None, tn_responseCount = 0,
      tn_usage = JNull, tn_error = None, tn_requestParams = Absent, tn_responseMetadata = Absent,
      tn_metadata = Absent, tn_createdAt = createdAt, tn_completedAt = None, tn_blocks = [], tn_siblingIds = [],
      tn_responses = []\<rparr>"

definition create_assistant_turn ::
  "string \<Rightarrow> string \<Rightarrow> string \<Rightarrow> chat_turn list \<Rightarrow> ensure_options \<Rightarrow> chat_turn" where
  "create_assistant_turn threadId turnId createdAt existing opts =
     (blank_turn threadId turnId AssistantRole AssistantOrigin StreamingTurn
        (case eo_createdAt opts of Some c \<Rightarrow> c | None \<Rightarrow> createdAt))
     \<lparr>tn_prevTurnId := (case eo_prevTurnId opts of
          Absent \<Rightarrow> (if existing = [] then Null else Has (tn_id (last existing)))
        | p \<Rightarrow> p),
      tn_writeMode := (case eo_writeMode opts of Some m \<Rightarrow> m | None \<Rightarrow> None)\<rparr>"

datatype ensure_result =
    EnsureRejected
  | EnsureExisting "chat_turn list"
  | EnsureCreated "chat_turn list" chat_turn

definition turn_by_id :: "string \<Rightarrow> chat_turn list \<Rightarrow> chat_turn option" where
  "turn_by_id turnId turns = find (\<lambda>t. tn_id t = turnId) turns"

definition ensure_assistant_turn_in ::
  "chat_turn list \<Rightarrow> string \<Rightarrow> string \<Rightarrow> string \<Rightarrow> ensure_options \<Rightarrow> ensure_result" where
  "ensure_assistant_turn_in existing threadId turnId createdAt opts =
     (case turn_by_id turnId existing of
        Some t \<Rightarrow>
          if tn_role t \<noteq> AssistantRole then EnsureRejected
          else EnsureExisting
            (case eo_writeMode opts of
               Some m \<Rightarrow> if tn_writeMode t \<noteq> m
                 then map (\<lambda>t. if tn_id t = turnId then t\<lparr>tn_writeMode := m\<rparr> else t) existing else existing
             | None \<Rightarrow> existing)
      | None \<Rightarrow>
          (let turn = create_assistant_turn threadId turnId createdAt existing opts
           in EnsureCreated (existing @ [turn]) turn))"

section \<open>Dividers\<close>

record switch_facts =
  sf_turnId :: string
  sf_controlId :: string
  sf_mode :: write_mode
  sf_prevTurnId :: "string option"
  sf_position :: int

text \<open>Held dividers in frame order.\<close>

type_synonym held_dividers = "(string \<times> chat_turn \<times> string) list"

definition placed_after_anchor :: "chat_turn list \<Rightarrow> chat_turn \<Rightarrow> chat_turn list option" where
  "placed_after_anchor turns turn =
     (case tn_prevTurnId turn of
        Null \<Rightarrow> Some (turn # turns)
      | Absent \<Rightarrow> None
      | Has anchor \<Rightarrow>
          if list_ex (\<lambda>t. tn_id t = anchor) turns
          then (let before = takeWhile (\<lambda>t. tn_id t \<noteq> anchor) turns; rest = dropWhile (\<lambda>t. tn_id t \<noteq> anchor) turns
                in Some (before @ hd rest # turn # tl rest))
          else None)"

definition write_mode_text :: "write_mode \<Rightarrow> string" where
  "write_mode_text m = (case m of DraftMode \<Rightarrow> ''draft'' | DirectMode \<Rightarrow> ''direct'')"

definition switch_turn :: "string \<Rightarrow> switch_facts \<Rightarrow> string \<Rightarrow> chat_turn" where
  "switch_turn threadId facts createdAt =
     (blank_turn threadId (sf_turnId facts) SystemRole SystemOrigin CompleteTurn createdAt)
     \<lparr>tn_position := sf_position facts,
      tn_prevTurnId := (case sf_prevTurnId facts of None \<Rightarrow> Null | Some p \<Rightarrow> Has p),
      tn_writeMode := Some (sf_mode facts), tn_completedAt := Some createdAt,
      tn_metadata := Has (JObject [(''kind'', JString ''write_mode_switch''),
        (''mode'', JString (write_mode_text (sf_mode facts))), (''controlMessageId'', JString (sf_controlId facts))])\<rparr>"

definition ensure_switch_turn_in ::
  "chat_turn list \<times> held_dividers \<Rightarrow> string \<Rightarrow> switch_facts \<Rightarrow> string \<Rightarrow> string \<Rightarrow> chat_turn list \<times> held_dividers" where
  "ensure_switch_turn_in state threadId facts seq createdAt =
     (case state of (existing, dividers) \<Rightarrow>
        if list_ex (\<lambda>t. tn_id t = sf_turnId facts) existing then state
        else case map_of dividers (sf_turnId facts) of
          Some (turn, _) \<Rightarrow>
            (case placed_after_anchor existing turn of Some turns \<Rightarrow> (turns, dividers) | None \<Rightarrow> state)
        | None \<Rightarrow>
            (let turn = switch_turn threadId facts createdAt
             in ((case placed_after_anchor existing turn of Some turns \<Rightarrow> turns | None \<Rightarrow> existing),
                 AList.update (sf_turnId facts) (turn, seq) dividers)))"

definition dividers_awaiting_anchor_in :: "chat_turn list \<Rightarrow> held_dividers \<Rightarrow> (string \<times> string) list" where
  "dividers_awaiting_anchor_in turns dividers =
     (let present = set (map tn_id turns)
      in List.map_filter (\<lambda>(turnId, turn, seq).
           if turnId \<in> present then None
           else case tn_prevTurnId turn of
             Has anchor \<Rightarrow> if anchor \<notin> present then Some (turnId, seq) else None
           | _ \<Rightarrow> None) dividers)"

section \<open>Blocks and status\<close>

definition by_sequence :: "chat_block \<Rightarrow> chat_block \<Rightarrow> int" where
  "by_sequence a b = bl_sequence a - bl_sequence b"

text \<open>The first turn with the id is changed; null when there is none or the block is the same.\<close>

fun update_first :: "('a \<Rightarrow> bool) \<Rightarrow> ('a \<Rightarrow> 'a) \<Rightarrow> 'a list \<Rightarrow> 'a list" where
  "update_first P f [] = []"
| "update_first P f (x # xs) = (if P x then f x # xs else x # update_first P f xs)"

definition upsert_block_in :: "chat_turn list \<Rightarrow> string \<Rightarrow> chat_block \<Rightarrow> chat_turn list option" where
  "upsert_block_in turns turnId block =
     (case turn_by_id turnId turns of
        None \<Rightarrow> None
      | Some turn \<Rightarrow>
          (let normalized = block\<lparr>bl_turnId := turnId\<rparr>;
               current = find (\<lambda>b. bl_sequence b = bl_sequence block) (tn_blocks turn)
           in if (case current of Some c \<Rightarrow> same_block c normalized | None \<Rightarrow> False) then None
              else Some (update_first (\<lambda>t. tn_id t = turnId)
                (\<lambda>t. t\<lparr>tn_blocks := sort_with by_sequence
                   (filter (\<lambda>b. bl_sequence b \<noteq> bl_sequence block) (tn_blocks turn) @ [normalized])\<rparr>) turns)))"

text \<open>A status patch; an undefined field is left alone.\<close>

record status_patch =
  sp_completedAt :: "string option option"
  sp_usage :: "json option"
  sp_error :: "string option option"
  sp_finishReason :: "finish_reason option option"
  sp_inputTokens :: "int option"
  sp_outputTokens :: "int option"
  sp_reasoningTokens :: "int option option"
  sp_cacheReadTokens :: "int option option"
  sp_cacheWriteTokens :: "int option option"
  sp_totalCostUsd :: "string option"
  sp_totalMillicredits :: "string option"
  sp_responseCount :: "int option"

definition no_patch :: status_patch where
  "no_patch = \<lparr>sp_completedAt = None, sp_usage = None, sp_error = None, sp_finishReason = None,
     sp_inputTokens = None, sp_outputTokens = None, sp_reasoningTokens = None, sp_cacheReadTokens = None,
     sp_cacheWriteTokens = None, sp_totalCostUsd = None, sp_totalMillicredits = None, sp_responseCount = None\<rparr>"

definition patched :: "'a option \<Rightarrow> 'a \<Rightarrow> 'a" where
  "patched new old = (case new of Some a \<Rightarrow> a | None \<Rightarrow> old)"

definition patched_field :: "'a option option \<Rightarrow> 'a field \<Rightarrow> 'a field" where
  "patched_field new old = (case new of None \<Rightarrow> old | Some None \<Rightarrow> Null | Some (Some a) \<Rightarrow> Has a)"

definition patch_turn :: "turn_status \<Rightarrow> status_patch \<Rightarrow> chat_turn \<Rightarrow> chat_turn" where
  "patch_turn status p t = t\<lparr>
     tn_completedAt := patched (sp_completedAt p) (tn_completedAt t),
     tn_usage := patched (sp_usage p) (tn_usage t),
     tn_error := patched (sp_error p) (tn_error t),
     tn_finishReason := patched (sp_finishReason p) (tn_finishReason t),
     tn_inputTokens := patched (sp_inputTokens p) (tn_inputTokens t),
     tn_outputTokens := patched (sp_outputTokens p) (tn_outputTokens t),
     tn_reasoningTokens := patched_field (sp_reasoningTokens p) (tn_reasoningTokens t),
     tn_cacheReadTokens := patched_field (sp_cacheReadTokens p) (tn_cacheReadTokens t),
     tn_cacheWriteTokens := patched_field (sp_cacheWriteTokens p) (tn_cacheWriteTokens t),
     tn_totalCostUsd := patched (sp_totalCostUsd p) (tn_totalCostUsd t),
     tn_totalMillicredits := (case sp_totalMillicredits p of Some m \<Rightarrow> Some m | None \<Rightarrow> tn_totalMillicredits t),
     tn_responseCount := patched (sp_responseCount p) (tn_responseCount t),
     tn_status := status\<rparr>"

definition patch_turn_status_in ::
  "chat_turn list \<Rightarrow> string \<Rightarrow> turn_status \<Rightarrow> status_patch \<Rightarrow> chat_turn list option" where
  "patch_turn_status_in turns turnId status patch =
     (if list_ex (\<lambda>t. tn_id t = turnId) turns
      then Some (update_first (\<lambda>t. tn_id t = turnId) (patch_turn status patch) turns)
      else None)"

section \<open>Turns that left\<close>

type_synonym tombstones = "string \<rightharpoonup> string"

definition remove_turns_in ::
  "chat_turn list \<times> tombstones \<Rightarrow> string list \<Rightarrow> string \<Rightarrow> chat_turn list \<times> tombstones" where
  "remove_turns_in state ids seq =
     (case state of (turns, stones) \<Rightarrow>
        (filter (\<lambda>t. tn_id t \<notin> set ids) turns,
         fold (\<lambda>i m. case stones i of
             Some held \<Rightarrow> if compare_seq held seq \<ge> 0 then m else m(i \<mapsto> seq)
           | None \<Rightarrow> m(i \<mapsto> seq)) (remdups ids) stones))"

type_synonym forgotten_stamps = "string \<rightharpoonup> string"

definition remember_forgotten :: "string list \<Rightarrow> string \<Rightarrow> forgotten_stamps \<Rightarrow> forgotten_stamps" where
  "remember_forgotten ids byTurnId stamps =
     fold (\<lambda>i m. if stamps i \<noteq> None then m else m(i \<mapsto> byTurnId)) ids stamps"

definition mark_forgotten_in ::
  "chat_turn list \<times> forgotten_stamps \<Rightarrow> string list \<Rightarrow> string \<Rightarrow> chat_turn list \<times> forgotten_stamps" where
  "mark_forgotten_in state ids byTurnId =
     (case state of (turns, stamps) \<Rightarrow>
        (let remembered = remember_forgotten ids byTurnId stamps
         in (map (\<lambda>t. case remembered (tn_id t) of
                 Some by \<Rightarrow> if tn_id t \<in> set ids \<and> tn_forgottenBy t = None then t\<lparr>tn_forgottenBy := Some by\<rparr> else t
               | None \<Rightarrow> t) turns,
             remembered)))"

section \<open>Snapshots\<close>

text \<open>A removal or a divider the snapshot does not cover stands.\<close>

definition uncovered :: "string \<Rightarrow> string \<Rightarrow> bool" where
  "uncovered nextSeq seq \<longleftrightarrow> compare_seq seq nextSeq \<ge> 0"

definition live_tombstones :: "tombstones \<Rightarrow> string \<Rightarrow> tombstones" where
  "live_tombstones stones nextSeq =
     (\<lambda>i. case stones i of Some seq \<Rightarrow> if uncovered nextSeq seq then Some seq else None | None \<Rightarrow> None)"

definition live_dividers :: "held_dividers \<Rightarrow> string \<Rightarrow> held_dividers" where
  "live_dividers dividers nextSeq = filter (\<lambda>(_, _, seq). uncovered nextSeq seq) dividers"

definition stamped_turns :: "forgotten_stamps \<Rightarrow> chat_turn list \<Rightarrow> chat_turn list" where
  "stamped_turns stamps turns =
     map (\<lambda>t. if tn_forgottenBy t = None then t\<lparr>tn_forgottenBy := stamps (tn_id t)\<rparr> else t) turns"

definition place_dividers :: "string set \<Rightarrow> held_dividers \<Rightarrow> chat_turn list \<Rightarrow> chat_turn list" where
  "place_dividers present dividers turns =
     fold (\<lambda>(k, turn, _) ts. if k \<in> present then ts
         else case placed_after_anchor ts turn of Some ts' \<Rightarrow> ts' | None \<Rightarrow> ts) dividers turns"

definition apply_snapshot_to ::
  "tombstones \<Rightarrow> held_dividers \<Rightarrow> forgotten_stamps \<Rightarrow> chat_turn list \<Rightarrow> string
     \<Rightarrow> chat_turn list \<times> tombstones \<times> held_dividers" where
  "apply_snapshot_to stones dividers stamps serverTurns nextSeq =
     (let live = live_tombstones stones nextSeq;
          held = live_dividers dividers nextSeq;
          kept = filter (\<lambda>t. live (tn_id t) = None) (stamped_turns stamps serverTurns)
      in (place_dividers (set (map tn_id kept)) held kept, live, held))"

end
