(* ===== verification/Turn_Reconcile.thy ===== *)
theory Turn_Reconcile
  imports Turn_Operations
begin

text \<open>
  Reconciling the turns a client holds with a server snapshot
  (\<^verbatim>\<open>reconcile-snapshot-turns.ts\<close>, \<^verbatim>\<open>optimistic-turn-id.ts\<close>): the server's turns in the server's order, with
  the local turns it cannot know threaded between them.
\<close>

section \<open>Reconciliation\<close>

definition optimistic_turn_id_prefix :: string where
  "optimistic_turn_id_prefix = ''turn_local_''"

definition is_optimistic_turn_id :: "string \<Rightarrow> bool" where
  "is_optimistic_turn_id turnId \<longleftrightarrow> take (length optimistic_turn_id_prefix) turnId = optimistic_turn_id_prefix"

fun unique_by_id_from :: "string set \<Rightarrow> chat_turn list \<Rightarrow> chat_turn list" where
  "unique_by_id_from seen [] = []"
| "unique_by_id_from seen (t # ts) =
     (if tn_id t \<in> seen then unique_by_id_from seen ts else t # unique_by_id_from (insert (tn_id t) seen) ts)"

definition unique_by_id :: "chat_turn list \<Rightarrow> chat_turn list" where
  "unique_by_id turns = unique_by_id_from {} turns"

definition max_sequence :: "chat_block list \<Rightarrow> int" where
  "max_sequence blocks = foldl (\<lambda>m b. max m (bl_sequence b)) (- 1) blocks"

definition local_tail :: "chat_block list \<Rightarrow> chat_block list \<Rightarrow> chat_block list" where
  "local_tail local server =
     filter (\<lambda>b. bl_sequence b \<notin> set (map bl_sequence server) \<and> bl_sequence b > max_sequence server) local"

definition merged_blocks :: "chat_block list \<Rightarrow> chat_block list \<Rightarrow> chat_block list" where
  "merged_blocks local server =
     sort_with by_sequence (map snd
       (fold (\<lambda>b m. AList.update (bl_sequence b) b m) (local_tail local server @ server) []))"

definition block_at :: "chat_block list \<Rightarrow> int \<Rightarrow> chat_block option" where
  "block_at blocks s = map_of (rev (map (\<lambda>b. (bl_sequence b, b)) blocks)) s"

definition kept_block :: "chat_block list \<Rightarrow> chat_block \<Rightarrow> chat_block" where
  "kept_block local block =
     (case block_at local (bl_sequence block) of
        Some l \<Rightarrow> if same_block l block then l else block
      | None \<Rightarrow> block)"

definition reconcile_blocks :: "chat_block list \<Rightarrow> chat_block list \<Rightarrow> turn_status \<Rightarrow> chat_block list" where
  "reconcile_blocks local server serverStatus =
     map (kept_block local) (if is_terminal_turn_status serverStatus then server else merged_blocks local server)"

definition reconcile_turn_with :: "chat_turn list \<Rightarrow> chat_turn \<Rightarrow> chat_turn" where
  "reconcile_turn_with localTurns serverTurn =
     (case turn_by_id (tn_id serverTurn) localTurns of
        None \<Rightarrow> serverTurn
      | Some localTurn \<Rightarrow>
          (let next = serverTurn\<lparr>
             tn_forgottenBy := (case tn_forgottenBy localTurn of Some by \<Rightarrow> Some by | None \<Rightarrow> tn_forgottenBy serverTurn),
             tn_blocks := reconcile_blocks (tn_blocks localTurn) (tn_blocks serverTurn) (tn_status serverTurn)\<rparr>
           in if same_turn localTurn next then localTurn else next))"

text \<open>A local turn goes after the nearest earlier local turn that is placed, else before the nearest later one.\<close>

fun insert_after_id :: "string \<Rightarrow> chat_turn \<Rightarrow> chat_turn list \<Rightarrow> chat_turn list" where
  "insert_after_id k t [] = [t]"
| "insert_after_id k t (x # xs) = (if tn_id x = k then x # t # xs else x # insert_after_id k t xs)"

fun insert_before_id :: "string \<Rightarrow> chat_turn \<Rightarrow> chat_turn list \<Rightarrow> chat_turn list" where
  "insert_before_id k t [] = [t]"
| "insert_before_id k t (x # xs) = (if tn_id x = k then t # x # xs else x # insert_before_id k t xs)"

definition insert_local_only_turn ::
  "chat_turn list \<Rightarrow> nat \<Rightarrow> chat_turn \<Rightarrow> chat_turn list \<Rightarrow> chat_turn list" where
  "insert_local_only_turn localTurns i t reconciled =
     (let placed = (\<lambda>x. tn_id x \<in> set (map tn_id reconciled))
      in case find placed (rev (take i localTurns)) of
           Some before \<Rightarrow> insert_after_id (tn_id before) t reconciled
         | None \<Rightarrow> (case find placed (drop (Suc i) localTurns) of
             Some after \<Rightarrow> insert_before_id (tn_id after) t reconciled
           | None \<Rightarrow> reconciled @ [t]))"

definition add_local_turn ::
  "chat_turn list \<Rightarrow> string option \<Rightarrow> nat \<times> chat_turn \<Rightarrow> chat_turn list \<Rightarrow> chat_turn list" where
  "add_local_turn localTurns running entry reconciled =
     (case entry of (i, t) \<Rightarrow>
        if tn_id t \<in> set (map tn_id reconciled) then reconciled
        else if \<not> is_optimistic_turn_id (tn_id t) \<and> Some (tn_id t) \<noteq> running then reconciled
        else insert_local_only_turn localTurns i t reconciled)"

definition reconcile_snapshot_turns ::
  "chat_turn list \<Rightarrow> chat_turn list \<Rightarrow> string option \<Rightarrow> chat_turn list" where
  "reconcile_snapshot_turns local server running =
     (let localTurns = unique_by_id local
      in fold (add_local_turn localTurns running) (enumerate 0 localTurns)
           (map (reconcile_turn_with localTurns) (unique_by_id server)))"

section \<open>What reconciliation keeps\<close>

lemma unique_from_ids:
  "set (map tn_id (unique_by_id_from seen ts)) = set (map tn_id ts) - seen"
  "distinct (map tn_id (unique_by_id_from seen ts))"
proof (induction ts arbitrary: seen)
  case (Cons t ts)
  {
    case 1
    show ?case using Cons.IH(1) by auto
  next
    case 2
    show ?case using Cons.IH by (auto simp del: set_map simp: set_map [symmetric])
  }
qed simp_all

lemma unique_ids [simp]: "set (map tn_id (unique_by_id ts)) = set (map tn_id ts)"
  "distinct (map tn_id (unique_by_id ts))"
  using unique_from_ids [of "{}" ts] by (simp_all add: unique_by_id_def)

lemma unique_from_id:
  "distinct (map tn_id ts) \<Longrightarrow> set (map tn_id ts) \<inter> seen = {} \<Longrightarrow> unique_by_id_from seen ts = ts"
  by (induction ts arbitrary: seen) auto

lemma unique_id [simp]: "distinct (map tn_id ts) \<Longrightarrow> unique_by_id ts = ts"
  by (simp add: unique_by_id_def unique_from_id)

lemma turn_by_id_mem: "turn_by_id k ts = Some t \<Longrightarrow> t \<in> set ts \<and> tn_id t = k"
  unfolding turn_by_id_def using find_Some_mem by fastforce

lemma turn_by_id_None: "turn_by_id k ts = None \<longleftrightarrow> k \<notin> set (map tn_id ts)"
  by (auto simp: turn_by_id_def find_None_conv)

lemma turn_by_id_unique:
  "distinct (map tn_id ts) \<Longrightarrow> t \<in> set ts \<Longrightarrow> turn_by_id (tn_id t) ts = Some t"
proof -
  assume d: "distinct (map tn_id ts)" and t: "t \<in> set ts"
  then obtain u where u: "turn_by_id (tn_id t) ts = Some u"
    using turn_by_id_None [of "tn_id t" ts] by (cases "turn_by_id (tn_id t) ts") auto
  from turn_by_id_mem [OF this] have "u = t" using same_key [OF d _ t] by blast
  with u show ?thesis by simp
qed

lemma reconcile_turn_id [simp]: "tn_id (reconcile_turn_with ls s) = tn_id s"
proof (cases "turn_by_id (tn_id s) ls")
  case None
  then show ?thesis by (simp add: reconcile_turn_with_def)
next
  case (Some l)
  then show ?thesis using turn_by_id_mem [OF Some] by (simp add: reconcile_turn_with_def Let_def)
qed

lemma insert_after_set: "set (insert_after_id k t xs) = insert t (set xs)"
  by (induction xs) auto

lemma insert_before_set: "set (insert_before_id k t xs) = insert t (set xs)"
  by (induction xs) auto

lemma insert_after_distinct:
  "distinct (map tn_id xs) \<Longrightarrow> tn_id t \<notin> set (map tn_id xs) \<Longrightarrow> distinct (map tn_id (insert_after_id k t xs))"
  by (induction xs) (auto simp: insert_after_set)

lemma insert_before_distinct:
  "distinct (map tn_id xs) \<Longrightarrow> tn_id t \<notin> set (map tn_id xs) \<Longrightarrow> distinct (map tn_id (insert_before_id k t xs))"
  by (induction xs) (auto simp: insert_before_set)

lemma insert_after_filter: "\<not> P t \<Longrightarrow> filter P (insert_after_id k t xs) = filter P xs"
  by (induction xs) auto

lemma insert_before_filter: "\<not> P t \<Longrightarrow> filter P (insert_before_id k t xs) = filter P xs"
  by (induction xs) auto

lemma insert_local_only:
  "set (insert_local_only_turn ls i t xs) = insert t (set xs)"
  "distinct (map tn_id xs) \<Longrightarrow> tn_id t \<notin> set (map tn_id xs) \<Longrightarrow>
     distinct (map tn_id (insert_local_only_turn ls i t xs))"
  "\<not> P t \<Longrightarrow> filter P (insert_local_only_turn ls i t xs) = filter P xs"
  by (simp_all add: insert_local_only_turn_def Let_def insert_after_set insert_before_set insert_after_distinct
      insert_before_distinct insert_after_filter insert_before_filter split: option.split)

definition survives :: "string option \<Rightarrow> chat_turn \<Rightarrow> bool" where
  "survives running t \<longleftrightarrow> is_optimistic_turn_id (tn_id t) \<or> Some (tn_id t) = running"

lemma add_local_turns:
  fixes running :: "string option" and ls :: "chat_turn list"
  assumes "distinct (map tn_id spine)" and "distinct (map tn_id (map snd entries))"
  defines "result \<equiv> fold (add_local_turn ls running) entries spine"
  shows "distinct (map tn_id result)"
    and "set result = set spine \<union> {t \<in> snd ` set entries. tn_id t \<notin> set (map tn_id spine) \<and> survives running t}"
    and "filter (\<lambda>t. tn_id t \<in> set (map tn_id spine)) result = spine"
proof -
  have "distinct (map tn_id result) \<and>
     set result = set spine \<union> {t \<in> snd ` set entries. tn_id t \<notin> set (map tn_id spine) \<and> survives running t} \<and>
     filter (\<lambda>t. tn_id t \<in> set (map tn_id spine)) result = spine"
    using assms(1,2) unfolding result_def
  proof (induction entries rule: rev_induct)
    case Nil
    then show ?case by (simp add: filter_id_conv)
  next
    case (snoc e entries)
    obtain i t where e: "e = (i, t)" by (cases e)
    let ?r = "fold (add_local_turn ls running) entries spine"
    have IH: "distinct (map tn_id ?r)"
      "set ?r = set spine \<union> {t \<in> snd ` set entries. tn_id t \<notin> set (map tn_id spine) \<and> survives running t}"
      "filter (\<lambda>t. tn_id t \<in> set (map tn_id spine)) ?r = spine"
      using snoc by auto
    have fresh: "tn_id t \<in> set (map tn_id ?r) \<longleftrightarrow> tn_id t \<in> set (map tn_id spine)"
    proof
      assume "tn_id t \<in> set (map tn_id ?r)"
      then obtain u where u: "u \<in> set ?r" "tn_id u = tn_id t" by auto
      moreover have "tn_id u \<noteq> tn_id t" if "u \<in> snd ` set entries" for u
        using snoc.prems(2) that e by (auto simp: image_iff)
      ultimately show "tn_id t \<in> set (map tn_id spine)" using IH(2) by (metis (no_types, lifting) Un_iff imageI list.set_map mem_Collect_eq)
    qed (use IH(2) in auto)
    show ?case
    proof (cases "tn_id t \<in> set (map tn_id spine) \<or> \<not> survives running t")
      case True
      then have "add_local_turn ls running e ?r = ?r"
        using fresh by (auto simp: e add_local_turn_def survives_def)
      then show ?thesis using IH True e by auto
    next
      case False
      then have a: "add_local_turn ls running e ?r = insert_local_only_turn ls i t ?r"
        using fresh by (auto simp: e add_local_turn_def survives_def)
      show ?thesis
        using IH False fresh insert_local_only(2) [OF IH(1), of t ls i]
          insert_local_only(3) [of "\<lambda>t. tn_id t \<in> set (map tn_id spine)" t ls i ?r]
        by (auto simp: a [unfolded e] insert_local_only(1) e)
    qed
  qed
  then show "distinct (map tn_id result)"
    and "set result = set spine \<union> {t \<in> snd ` set entries. tn_id t \<notin> set (map tn_id spine) \<and> survives running t}"
    and "filter (\<lambda>t. tn_id t \<in> set (map tn_id spine)) result = spine" by blast+
qed

section \<open>What a reconciled turn holds\<close>

interpretation sequences: comparator by_sequence
  by unfold_locales (auto simp: by_sequence_def sgn_if)

lemma sort_strictly:
  assumes "distinct (map bl_sequence bs)"
  shows "sorted_wrt (<) (map bl_sequence (sort_with by_sequence bs))"
proof -
  let ?sorted = "map bl_sequence (sort_with by_sequence bs)"
  have "card (set ?sorted) = length ?sorted"
    using distinct_card [OF assms] by (simp only: list.set_map set_sort_with length_map length_sort_with)
  then have "distinct ?sorted" by (rule card_distinct)
  moreover have "sorted_wrt (\<le>) ?sorted"
    using sequences.sort_sorted [of bs] by (simp add: sorted_wrt_map by_sequence_def)
  ultimately show ?thesis by (simp add: strict_sorted_iff)
qed

lemma kept_block_cases: "kept_block local b = b \<or> same_block (kept_block local b) b"
  by (auto simp: kept_block_def split: option.split)

lemma same_block_sequence: "same_block a b \<Longrightarrow> bl_sequence a = bl_sequence b"
  by (simp add: same_block_def)

lemma kept_block_sequence [simp]: "bl_sequence (kept_block local b) = bl_sequence b"
  using kept_block_cases [of local b] same_block_sequence by auto

lemma updated_keys:
  "(\<And>k b. (k, b) \<in> set m \<Longrightarrow> bl_sequence b = k) \<Longrightarrow> distinct (map fst m) \<Longrightarrow>
     distinct (map fst (fold (\<lambda>b m. AList.update (bl_sequence b) b m) bs m)) \<and>
     set (map fst (fold (\<lambda>b m. AList.update (bl_sequence b) b m) bs m)) = set (map bl_sequence bs) \<union> set (map fst m) \<and>
     (\<forall>(k, b) \<in> set (fold (\<lambda>b m. AList.update (bl_sequence b) b m) bs m). bl_sequence b = k)"
proof (induction bs arbitrary: m)
  case (Cons b bs)
  let ?m = "AList.update (bl_sequence b) b m"
  have "set ?m \<subseteq> insert (bl_sequence b, b) (set m)" by (induction m) auto
  then have "bl_sequence c = k" if "(k, c) \<in> set ?m" for k c using that Cons.prems(1) by auto
  moreover have "distinct (map fst ?m)" using Cons.prems(2) by (rule distinct_update)
  moreover have "set (map fst ?m) = insert (bl_sequence b) (set (map fst m))"
    using dom_update [of "bl_sequence b" b m] by (auto simp: update_keys insert_absorb)
  ultimately show ?case using Cons.IH [of ?m] by auto
qed auto

lemma merged_sequences:
  "sorted_wrt (<) (map bl_sequence (merged_blocks local server))"
  "set (map bl_sequence (merged_blocks local server)) =
     set (map bl_sequence server) \<union> {q \<in> set (map bl_sequence local). max_sequence server < q}"
proof -
  let ?m = "fold (\<lambda>b m. AList.update (bl_sequence b) b m) (local_tail local server @ server) []"
  have m: "distinct (map fst ?m)" "set (map fst ?m) = set (map bl_sequence (local_tail local server @ server))"
    "\<forall>(k, b) \<in> set ?m. bl_sequence b = k"
    using updated_keys [of "[]" "local_tail local server @ server"] by auto
  have fst: "map bl_sequence (map snd ?m) = map fst ?m" using m(3) by auto
  have keys: "set (map bl_sequence (merged_blocks local server)) = set (map fst ?m)"
    unfolding merged_blocks_def fst [symmetric] by (simp only: list.set_map set_sort_with)
  show "sorted_wrt (<) (map bl_sequence (merged_blocks local server))"
    unfolding merged_blocks_def by (rule sort_strictly) (simp only: fst m(1))
  have member: "bl_sequence b \<le> max_sequence server" if "b \<in> set server" for b
  proof -
    have "m \<le> foldl (\<lambda>m b. max m (bl_sequence b)) m bs \<and> (\<forall>b \<in> set bs. bl_sequence b \<le> foldl (\<lambda>m b. max m (bl_sequence b)) m bs)" for m bs
    proof (induction bs arbitrary: m)
      case (Cons b bs)
      show ?case using Cons.IH [of "max m (bl_sequence b)"] by auto
    qed simp
    then show ?thesis using that by (auto simp: max_sequence_def)
  qed
  have "set (map fst ?m) = set (map bl_sequence server) \<union> {q \<in> set (map bl_sequence local). max_sequence server < q}"
    unfolding m(2) using member by (fastforce simp: local_tail_def)
  with keys show "set (map bl_sequence (merged_blocks local server)) =
     set (map bl_sequence server) \<union> {q \<in> set (map bl_sequence local). max_sequence server < q}" by simp
qed

text \<open>What the snapshot's turn \<^term>\<open>s\<close> becomes beside the local turns: it keeps a stamp the client held, a
  finished turn takes the server's blocks, and a running one also keeps the local blocks past them.\<close>

definition follows_snapshot :: "chat_turn list \<Rightarrow> chat_turn \<Rightarrow> chat_turn \<Rightarrow> bool" where
  "follows_snapshot local s u \<longleftrightarrow>
     (case turn_by_id (tn_id s) local of
        None \<Rightarrow> u = s
      | Some l \<Rightarrow>
          tn_id u = tn_id s \<and> tn_status u = tn_status s \<and>
          tn_forgottenBy u = (case tn_forgottenBy l of Some by \<Rightarrow> Some by | None \<Rightarrow> tn_forgottenBy s) \<and>
          (if is_terminal_turn_status (tn_status s)
           then list_all2 (\<lambda>x b. x = b \<or> same_block x b) (tn_blocks u) (tn_blocks s)
           else sorted_wrt (<) (map bl_sequence (tn_blocks u)) \<and>
             set (map bl_sequence (tn_blocks u)) = set (map bl_sequence (tn_blocks s)) \<union>
               {q \<in> set (map bl_sequence (tn_blocks l)). max_sequence (tn_blocks s) < q}))"

lemma unique_turn_by_id: "turn_by_id k (unique_by_id ts) = turn_by_id k ts"
proof -
  have "k \<notin> seen \<Longrightarrow> turn_by_id k (unique_by_id_from seen ts) = turn_by_id k ts" for seen
    by (induction ts arbitrary: seen) (auto simp: turn_by_id_def)
  then show ?thesis by (simp add: unique_by_id_def)
qed

lemma reconcile_turn_follows: "follows_snapshot local s (reconcile_turn_with (unique_by_id local) s)"
proof (cases "turn_by_id (tn_id s) local")
  case None
  then show ?thesis by (simp add: follows_snapshot_def reconcile_turn_with_def unique_turn_by_id)
next
  case (Some l)
  let ?blocks = "reconcile_blocks (tn_blocks l) (tn_blocks s) (tn_status s)"
  let ?by = "case tn_forgottenBy l of Some by \<Rightarrow> Some by | None \<Rightarrow> tn_forgottenBy s"
  let ?next = "s\<lparr>tn_forgottenBy := ?by, tn_blocks := ?blocks\<rparr>"
  let ?u = "reconcile_turn_with (unique_by_id local) s"
  have u: "?u = (if same_turn l ?next then l else ?next)"
    using Some by (simp add: reconcile_turn_with_def unique_turn_by_id Let_def)
  have f: "tn_status ?u = tn_status s" "tn_forgottenBy ?u = ?by" "tn_blocks ?u = ?blocks"
    by (auto simp: u same_turn_def)
  have "list_all2 (\<lambda>x b. x = b \<or> same_block x b) ?blocks (tn_blocks s)"
    if "is_terminal_turn_status (tn_status s)"
    using that kept_block_cases by (auto simp: reconcile_blocks_def list_all2_map1 intro!: list.rel_refl_strong)
  moreover have "map bl_sequence ?blocks = map bl_sequence (merged_blocks (tn_blocks l) (tn_blocks s))"
    if "\<not> is_terminal_turn_status (tn_status s)"
    using that by (simp add: reconcile_blocks_def)
  ultimately show ?thesis
    using Some merged_sequences [of "tn_blocks l" "tn_blocks s"]
    by (auto simp: follows_snapshot_def f simp del: set_map)
qed

definition named_in :: "chat_turn list \<Rightarrow> chat_turn \<Rightarrow> bool" where
  "named_in turns t \<longleftrightarrow> tn_id t \<in> set (map tn_id turns)"

lemma follows_snapshot_id: "follows_snapshot local s u \<Longrightarrow> tn_id u = tn_id s"
  by (auto simp: follows_snapshot_def split: option.splits)

lemma reconciled_parts:
  "distinct (map tn_id (reconcile_snapshot_turns local server running))"
  "filter (named_in server) (reconcile_snapshot_turns local server running) =
     map (reconcile_turn_with (unique_by_id local)) (unique_by_id server)"
  "set (filter (\<lambda>t. \<not> named_in server t) (reconcile_snapshot_turns local server running)) =
     set (filter (\<lambda>t. \<not> named_in server t \<and> survives running t) (unique_by_id local))"
proof -
  let ?ls = "unique_by_id local" and ?spine = "map (reconcile_turn_with (unique_by_id local)) (unique_by_id server)"
  have ids: "map tn_id ?spine = map tn_id (unique_by_id server)" by simp
  then have sids: "set (map tn_id ?spine) = set (map tn_id server)" by (simp only: unique_ids)
  have d: "distinct (map tn_id ?spine)" unfolding ids by simp
  have e: "map snd (enumerate 0 ?ls) = ?ls" by simp
  note r = add_local_turns [OF d, of "enumerate 0 ?ls" ?ls running]
  show "distinct (map tn_id (reconcile_snapshot_turns local server running))"
    using r(1) by (simp add: reconcile_snapshot_turns_def Let_def e)
  have r2: "set (reconcile_snapshot_turns local server running) =
      set ?spine \<union> {t \<in> set ?ls. tn_id t \<notin> set (map tn_id server) \<and> survives running t}"
    using r(2) unfolding e reconcile_snapshot_turns_def Let_def sids by (simp flip: set_map)
  show "filter (named_in server) (reconcile_snapshot_turns local server running) = ?spine"
    using r(3) unfolding e reconcile_snapshot_turns_def Let_def sids named_in_def by simp
  show "set (filter (\<lambda>t. \<not> named_in server t) (reconcile_snapshot_turns local server running)) =
       set (filter (\<lambda>t. \<not> named_in server t \<and> survives running t) ?ls)"
    using r2 sids by (auto simp: named_in_def)
qed

lemmas reconciled_distinct = reconciled_parts(1) and reconciled_local = reconciled_parts(3)

lemma reconciled_spine:
  "list_all2 (follows_snapshot local) (unique_by_id server)
     (filter (named_in server) (reconcile_snapshot_turns local server running))"
  by (simp add: reconciled_parts(2) list_all2_map2 reconcile_turn_follows list.rel_refl_strong)

text \<open>A snapshot is the spine of the turns a chat shows: the server's turns come out once each in the
  server's order, each following the snapshot, and beside them exactly the local turns the server cannot know
  yet, optimistic ones and the running one.\<close>

theorem snapshot_is_the_spine:
  "distinct (map tn_id (reconcile_snapshot_turns local server running)) \<and>
     list_all2 (follows_snapshot local) (unique_by_id server)
       (filter (named_in server) (reconcile_snapshot_turns local server running)) \<and>
     set (filter (\<lambda>t. \<not> named_in server t) (reconcile_snapshot_turns local server running)) =
       set (filter (\<lambda>t. \<not> named_in server t \<and> survives running t) (unique_by_id local))"
  using reconciled_distinct reconciled_spine reconciled_local by blast

end
