(* ===== verification/Chat_Asks.thy ===== *)
theory Chat_Asks
  imports Chat_Turn
begin

text \<open>
  A chat's asks and this device's answers to them (\<^verbatim>\<open>asks.ts\<close> of \<^verbatim>\<open>packages/thread-client/src/asks\<close>; the
  records of \<^verbatim>\<open>threads/asks.ts\<close> of the contracts package).
\<close>

section \<open>Asks\<close>

record ask_option =
  ao_label :: string
  ao_description :: "string option"

record ask_question =
  aq_question :: string
  aq_options :: "ask_option list"
  aq_recommended :: "string option"

record permission_work =
  pw_handle :: "string option"
  pw_name :: string

datatype work_change = ArchiveWork | UnarchiveWork | SwitchWork

text \<open>An absent goal or status is left alone, a null one is cleared.\<close>

datatype permission_change =
    CreateWork string "string option option"
  | SetWorkMode write_mode
  | UpdateWork permission_work "string option" "string option option" "string option option"
  | ChangeWork work_change permission_work

datatype ask_content =
    QuestionAsk "ask_question list"
  | PermissionAsk "string option" permission_change

datatype question_answer = OptionAnswer string | TextAnswer string | SkippedAnswer

datatype resolved_answer = GivenAnswer question_answer | TimeoutAnswer "string option" | UnsentAnswer string

datatype ask_answer = Answers "question_answer list" | Allow | AllowAlways | Deny

datatype ask_resolution =
    AnswerResolution ask_answer
  | TimeoutResolution "resolved_answer list"
  | CancelledResolution

datatype ask_status = PendingAsk | OpenAsk | AnsweredAsk | ExpiredAsk | CancelledAsk

record thread_ask =
  ta_id :: string
  ta_threadId :: string
  ta_turnId :: string
  ta_toolCallId :: string
  ta_deadlineAt :: "string option"
  ta_draftAnswers :: "question_answer option list field"
  ta_createdAt :: string
  ta_content :: ask_content
  ta_status :: ask_status
  ta_resolution :: "ask_resolution option"
  ta_resolvedAt :: "string option"

datatype attempt_state = SendingAnswer | FailedAnswer | SettlingAnswer | UnsettledAnswer

record ask_attempt =
  at_askId :: string
  at_submissionId :: string
  at_answer :: ask_answer
  at_state :: attempt_state

record chat_asks =
  ca_byId :: "string \<rightharpoonup> thread_ask"
  ca_byTurn :: "string \<rightharpoonup> string"
  ca_attempts :: "string \<rightharpoonup> ask_attempt"

definition empty_chat_asks :: chat_asks where
  "empty_chat_asks = \<lparr>ca_byId = Map.empty, ca_byTurn = Map.empty, ca_attempts = Map.empty\<rparr>"

fun status_rank :: "ask_status \<Rightarrow> nat" where
  "status_rank PendingAsk = 0"
| "status_rank OpenAsk = 1"
| "status_rank AnsweredAsk = 2"
| "status_rank ExpiredAsk = 2"
| "status_rank CancelledAsk = 2"

definition is_resolved :: "thread_ask \<Rightarrow> bool" where
  "is_resolved ask \<longleftrightarrow> status_rank (ta_status ask) = 2"

section \<open>What the server says\<close>

definition receive_ask :: "thread_ask \<Rightarrow> chat_asks \<Rightarrow> chat_asks" where
  "receive_ask ask asks =
     (if (case ca_byId asks (ta_id ask) of
            Some held \<Rightarrow> status_rank (ta_status held) > status_rank (ta_status ask) \<or> is_resolved held
          | None \<Rightarrow> False) then asks
      else
        (let byId = (ca_byId asks)(ta_id ask \<mapsto> ask);
             newestAsk = Option.bind (ca_byTurn asks (ta_turnId ask)) byId;
             newer = (case newestAsk of
                 None \<Rightarrow> True
               | Some n \<Rightarrow> ta_id n = ta_id ask \<or> ta_createdAt ask > ta_createdAt n)
         in \<lparr>ca_byId = byId,
             ca_byTurn = (if newer then (ca_byTurn asks)(ta_turnId ask \<mapsto> ta_id ask) else ca_byTurn asks),
             ca_attempts = (if is_resolved ask then (ca_attempts asks)(ta_id ask := None) else ca_attempts asks)\<rparr>))"

definition receive_asks :: "thread_ask list \<Rightarrow> chat_asks \<Rightarrow> chat_asks" where
  "receive_asks incoming asks = fold receive_ask incoming asks"

section \<open>This device's answers\<close>

text \<open>A fresh submission id is drawn only for a different answer.\<close>

definition begin_ask_answer :: "chat_asks \<Rightarrow> string \<Rightarrow> ask_answer \<Rightarrow> string \<Rightarrow> chat_asks \<times> ask_attempt" where
  "begin_ask_answer asks askId answer newSubmissionId =
     (let submissionId = (case ca_attempts asks askId of
            Some held \<Rightarrow> if at_answer held = answer then at_submissionId held else newSubmissionId
          | None \<Rightarrow> newSubmissionId);
          attempt = \<lparr>at_askId = askId, at_submissionId = submissionId, at_answer = answer, at_state = SendingAnswer\<rparr>
      in (asks\<lparr>ca_attempts := (ca_attempts asks)(askId \<mapsto> attempt)\<rparr>, attempt))"

definition fail_ask_answer :: "chat_asks \<Rightarrow> string \<Rightarrow> string \<Rightarrow> chat_asks" where
  "fail_ask_answer asks askId submissionId =
     (case ca_attempts asks askId of
        None \<Rightarrow> asks
      | Some held \<Rightarrow>
          if at_submissionId held \<noteq> submissionId \<or> at_state held = FailedAnswer then asks
          else asks\<lparr>ca_attempts := (ca_attempts asks)(askId \<mapsto> held\<lparr>at_state := FailedAnswer\<rparr>)\<rparr>)"

definition clear_ask_answer :: "chat_asks \<Rightarrow> string \<Rightarrow> string \<Rightarrow> chat_asks" where
  "clear_ask_answer asks askId submissionId =
     (if map_option at_submissionId (ca_attempts asks askId) \<noteq> Some submissionId then asks
      else asks\<lparr>ca_attempts := (ca_attempts asks)(askId := None)\<rparr>)"

text \<open>Settling or unsettled.\<close>

definition mark_ask_answer :: "chat_asks \<Rightarrow> string \<Rightarrow> attempt_state \<Rightarrow> chat_asks" where
  "mark_ask_answer asks askId state =
     (case ca_attempts asks askId of
        None \<Rightarrow> asks
      | Some held \<Rightarrow>
          if at_state held = state then asks
          else asks\<lparr>ca_attempts := (ca_attempts asks)(askId \<mapsto> held\<lparr>at_state := state\<rparr>)\<rparr>)"

section \<open>Projections\<close>

fun asking_turn_status :: "ask_status \<Rightarrow> (turn_status \<times> turn_status list) option" where
  "asking_turn_status PendingAsk = None"
| "asking_turn_status OpenAsk = None"
| "asking_turn_status AnsweredAsk = Some (CompleteTurn, [AwaitingAnswer])"
| "asking_turn_status ExpiredAsk = Some (CompleteTurn, [AwaitingAnswer])"
| "asking_turn_status CancelledAsk = Some (CancelledTurn, [AwaitingAnswer])"

definition nearest_assistant_turn_id :: "chat_turn list \<Rightarrow> string option" where
  "nearest_assistant_turn_id turns = map_option tn_id (find (\<lambda>t. tn_role t = AssistantRole) (rev turns))"

definition ask_of_turn :: "chat_asks \<Rightarrow> string \<Rightarrow> thread_ask option" where
  "ask_of_turn asks turnId = Option.bind (ca_byTurn asks turnId) (ca_byId asks)"

definition open_ask :: "chat_asks \<Rightarrow> chat_turn list \<Rightarrow> (thread_ask \<times> ask_attempt option) option" where
  "open_ask asks turns =
     (case Option.bind (nearest_assistant_turn_id turns) (ask_of_turn asks) of
        None \<Rightarrow> None
      | Some ask \<Rightarrow>
          if ta_status ask \<noteq> OpenAsk then None
          else (case ca_attempts asks (ta_id ask) of
              None \<Rightarrow> Some (ask, None)
            | Some attempt \<Rightarrow>
                if at_state attempt = SendingAnswer \<or> at_state attempt = SettlingAnswer then None
                else Some (ask, Some attempt)))"

definition ask_receipt :: "chat_asks \<Rightarrow> string \<Rightarrow> (thread_ask \<times> ask_resolution \<times> bool) option" where
  "ask_receipt asks turnId =
     (case ask_of_turn asks turnId of
        None \<Rightarrow> None
      | Some ask \<Rightarrow>
          (case ta_resolution ask of
             Some resolution \<Rightarrow> Some (ask, resolution, False)
           | None \<Rightarrow>
               (case ca_attempts asks (ta_id ask) of
                  Some attempt \<Rightarrow>
                    if at_state attempt = SendingAnswer then Some (ask, AnswerResolution (at_answer attempt), True)
                    else None
                | None \<Rightarrow> None)))"

section \<open>Asks only move forward\<close>

definition ask_forward :: "thread_ask option \<Rightarrow> thread_ask option \<Rightarrow> bool" where
  "ask_forward held now \<longleftrightarrow>
     (case held of
        None \<Rightarrow> True
      | Some h \<Rightarrow> (case now of
          None \<Rightarrow> False
        | Some n \<Rightarrow> if is_resolved h then n = h else status_rank (ta_status h) \<le> status_rank (ta_status n)))"

lemma ask_forward_refl [simp]: "ask_forward a a"
  by (simp add: ask_forward_def split: option.split)

lemma ask_forward_trans: "ask_forward a b \<Longrightarrow> ask_forward b c \<Longrightarrow> ask_forward a c"
  by (auto simp: ask_forward_def is_resolved_def split: option.splits if_splits)

lemma receive_ask_forward: "ask_forward (ca_byId asks k) (ca_byId (receive_ask ask asks) k)"
  by (auto simp: receive_ask_def ask_forward_def Let_def is_resolved_def split: option.split)

lemma receive_asks_forward: "ask_forward (ca_byId asks k) (ca_byId (receive_asks incoming asks) k)"
  unfolding receive_asks_def
proof (induction incoming arbitrary: asks)
  case (Cons a incoming)
  from ask_forward_trans [OF receive_ask_forward Cons.IH] show ?case by simp
qed simp

definition told_ranks :: "thread_ask list \<Rightarrow> string \<Rightarrow> nat list" where
  "told_ranks incoming k = map (\<lambda>a. status_rank (ta_status a)) (filter (\<lambda>a. ta_id a = k) incoming)"

definition best_rank :: "thread_ask list \<Rightarrow> string \<Rightarrow> nat option" where
  "best_rank incoming k =
     (if told_ranks incoming k = [] then None else Some (Max (set (told_ranks incoming k))))"

definition one_resolution :: "thread_ask list \<Rightarrow> bool" where
  "one_resolution incoming \<longleftrightarrow>
     (\<forall>a \<in> set incoming. \<forall>b \<in> set incoming. ta_id a = ta_id b \<and> is_resolved a \<and> is_resolved b \<longrightarrow> a = b)"

lemma status_rank_bound: "status_rank s \<le> 2"
  by (cases s) simp_all

lemma best_rank_snoc:
  "best_rank (as @ [a]) k =
     (if ta_id a = k then Some (case best_rank as k of None \<Rightarrow> status_rank (ta_status a)
        | Some m \<Rightarrow> max m (status_rank (ta_status a)))
      else best_rank as k)"
proof -
  have r: "told_ranks (as @ [a]) k = told_ranks as k @ (if ta_id a = k then [status_rank (ta_status a)] else [])"
    by (simp add: told_ranks_def)
  show ?thesis
  proof (cases "told_ranks as k = []")
    case False
    then have "Max (insert x (set (told_ranks as k))) = max (Max (set (told_ranks as k))) x" for x
      by (simp add: max.commute)
    then show ?thesis using False by (simp add: best_rank_def r)
  qed (simp add: best_rank_def r)
qed

text \<open>What the chat holds of an ask after some of them: none, or one of them with the greatest status.\<close>

lemma receive_asks_held:
  assumes "one_resolution incoming"
  shows "(case ca_byId (receive_asks incoming empty_chat_asks) k of
      None \<Rightarrow> best_rank incoming k = None
    | Some h \<Rightarrow> h \<in> set incoming \<and> ta_id h = k \<and> best_rank incoming k = Some (status_rank (ta_status h)))"
  using assms
proof (induction incoming rule: rev_induct)
  case Nil
  then show ?case by (simp add: receive_asks_def empty_chat_asks_def best_rank_def told_ranks_def)
next
  case (snoc a as)
  have "one_resolution as" using snoc.prems by (simp add: one_resolution_def)
  note IH = snoc.IH [OF this]
  let ?asks = "receive_asks as empty_chat_asks"
  have step: "receive_asks (as @ [a]) empty_chat_asks = receive_ask a ?asks" by (simp add: receive_asks_def)
  show ?case
  proof (cases "ta_id a = k")
    case False
    then have "ca_byId (receive_ask a ?asks) k = ca_byId ?asks k" by (simp add: receive_ask_def Let_def)
    then show ?thesis using IH False by (auto simp: step best_rank_snoc split: option.split)
  next
    case True
    show ?thesis
    proof (cases "ca_byId ?asks k")
      case None
      then show ?thesis using IH True by (simp add: step best_rank_snoc receive_ask_def Let_def)
    next
      case (Some h)
      show ?thesis
      proof (cases "status_rank (ta_status h) > status_rank (ta_status a) \<or> is_resolved h")
        case c: True
        have "status_rank (ta_status a) \<le> status_rank (ta_status h)"
          using c status_rank_bound [of "ta_status a"] by (auto simp: is_resolved_def)
        then show ?thesis using IH True Some c by (auto simp: step best_rank_snoc receive_ask_def max_absorb1)
      next
        case c: False
        then show ?thesis using IH True Some by (simp add: step best_rank_snoc receive_ask_def Let_def max_absorb2)
      qed
    qed
  qed
qed

text \<open>A chat's asks only move forward, in whatever order frames, reads and replies arrive: no list of asks moves a held one
  back or changes a resolved one, and when the server resolves each ask one way, the chat holds of
  each exactly the greatest status it was told, and the resolution itself once it was told that.\<close>

theorem asks_only_move_forward:
  "ask_forward (ca_byId asks k) (ca_byId (receive_asks incoming asks) k) \<and>
   (one_resolution told \<longrightarrow>
      map_option (\<lambda>h. status_rank (ta_status h)) (ca_byId (receive_asks told empty_chat_asks) k) = best_rank told k \<and>
      list_all (\<lambda>a. is_resolved a \<longrightarrow> ca_byId (receive_asks told empty_chat_asks) (ta_id a) = Some a) told)"
proof -
  have "ca_byId (receive_asks told empty_chat_asks) (ta_id a) = Some a"
    if o: "one_resolution told" and a: "a \<in> set told" "is_resolved a" for a
  proof -
    have m: "2 \<in> set (told_ranks told (ta_id a))" using a by (force simp: told_ranks_def is_resolved_def)
    then have b: "best_rank told (ta_id a) = Some (Max (set (told_ranks told (ta_id a))))"
      by (auto simp: best_rank_def)
    have "Max (set (told_ranks told (ta_id a))) \<ge> 2" using m by simp
    with b receive_asks_held [OF o, of "ta_id a"] obtain h where h:
      "ca_byId (receive_asks told empty_chat_asks) (ta_id a) = Some h" "h \<in> set told" "ta_id h = ta_id a"
      "2 \<le> status_rank (ta_status h)" by (auto split: option.splits)
    then have "is_resolved h" using status_rank_bound [of "ta_status h"] by (simp add: is_resolved_def)
    then have "h = a" using o h(2,3) a unfolding one_resolution_def by blast
    with h(1) show ?thesis by simp
  qed
  moreover have "map_option (\<lambda>h. status_rank (ta_status h)) (ca_byId (receive_asks told empty_chat_asks) k) = best_rank told k"
    if "one_resolution told"
    using receive_asks_held [OF that, of k] by (auto split: option.splits)
  ultimately show ?thesis using receive_asks_forward by (simp add: list_all_iff)
qed

definition sample_ask :: "ask_status \<Rightarrow> ask_resolution option \<Rightarrow> thread_ask" where
  "sample_ask status resolution =
     \<lparr>ta_id = ''a'', ta_threadId = ''t'', ta_turnId = ''r'', ta_toolCallId = ''c'', ta_deadlineAt = None,
      ta_draftAnswers = Absent, ta_createdAt = ''2025'',
      ta_content = PermissionAsk None (CreateWork ''w'' None), ta_status = status, ta_resolution = resolution,
      ta_resolvedAt = map_option (\<lambda>_. ''2026'') resolution\<rparr>"

theorem asks_only_move_forward_witness:
  "map_option ta_status (ca_byId (receive_asks
     [sample_ask PendingAsk None, sample_ask AnsweredAsk (Some (AnswerResolution Allow)), sample_ask OpenAsk None]
     empty_chat_asks) ''a'') = Some AnsweredAsk"
proof -
  let ?told = "[sample_ask PendingAsk None, sample_ask AnsweredAsk (Some (AnswerResolution Allow)), sample_ask OpenAsk None]"
  have "one_resolution ?told" by (simp add: one_resolution_def sample_ask_def is_resolved_def)
  then have "list_all (\<lambda>a. is_resolved a \<longrightarrow> ca_byId (receive_asks ?told empty_chat_asks) (ta_id a) = Some a) ?told"
    using asks_only_move_forward [of empty_chat_asks "''a''" "[]" ?told] by blast
  then show ?thesis by (simp add: sample_ask_def is_resolved_def)
qed

end
