(* ===== verification/Synced_Thread.thy ===== *)
theory Synced_Thread
  imports Turn_Reconcile Chat_Asks Run_Slice_News
begin

text \<open>
  The value a host holds per chat and the transitions that change it (\<^verbatim>\<open>synced-thread.ts\<close> of
  \<^verbatim>\<open>packages/thread-client/src/sync\<close>): applied reads, the durable cursor, admitted and removed turns, and
  the writes of the one turn store the stream's reducer goes through.
\<close>

section \<open>The value\<close>

record synced_thread =
  sy_unavailable :: "json option"
  sy_turns :: "chat_turn list"
  sy_tombstones :: tombstones
  sy_dividers :: held_dividers
  sy_forgotten :: forgotten_stamps
  sy_floor :: "string option"
  sy_durableCursor :: "string option"
  sy_deliveryCursor :: "string option"
  sy_eventsApplied :: nat
  sy_runState :: run_slice
  sy_asks :: chat_asks

definition empty_synced_thread :: synced_thread where
  "empty_synced_thread =
     \<lparr>sy_unavailable = None, sy_turns = [], sy_tombstones = Map.empty, sy_dividers = [], sy_forgotten = Map.empty,
      sy_floor = None, sy_durableCursor = None, sy_deliveryCursor = None, sy_eventsApplied = 0,
      sy_runState = initial_run_slice, sy_asks = empty_chat_asks\<rparr>"

record read_facts =
  rf_turns :: "chat_turn list"
  rf_asks :: "thread_ask list"
  rf_nextSeq :: string
  rf_runningTurnId :: "string option"
  rf_runState :: run_state

section \<open>Reads and cursors\<close>

definition accepts_snapshot :: "synced_thread \<Rightarrow> string \<Rightarrow> bool" where
  "accepts_snapshot s nextSeq \<longleftrightarrow>
     parse_seq nextSeq \<noteq> None \<and>
     (case sy_floor s of None \<Rightarrow> True | Some fl \<Rightarrow> compare_seq nextSeq fl \<ge> 0)"

definition raise_delivery_cursor :: "synced_thread \<Rightarrow> string \<Rightarrow> synced_thread" where
  "raise_delivery_cursor s seq =
     (if parse_seq seq = None then s
      else if (case sy_deliveryCursor s of None \<Rightarrow> False | Some c \<Rightarrow> compare_seq seq c \<le> 0) then s
      else s\<lparr>sy_deliveryCursor := Some seq\<rparr>)"

text \<open>The sequence number is read with \<^verbatim>\<open>BigInt\<close> only after it parsed.\<close>

definition covered_seq :: "string \<Rightarrow> string" where
  "covered_seq nextSeq = show_nat (seq_number nextSeq - 1)"

definition durable_cursor_after :: "string option \<Rightarrow> string \<Rightarrow> string option" where
  "durable_cursor_after cursor nextSeq =
     (if seq_number nextSeq > 0 \<and>
         (case cursor of None \<Rightarrow> True | Some c \<Rightarrow> compare_seq (covered_seq nextSeq) c > 0)
      then Some (covered_seq nextSeq) else cursor)"

definition apply_read :: "synced_thread \<Rightarrow> read_facts \<Rightarrow> synced_thread option" where
  "apply_read s read =
     (if \<not> accepts_snapshot s (rf_nextSeq read) then None
      else (case apply_snapshot_to (sy_tombstones s) (sy_dividers s) (sy_forgotten s) (rf_turns read) (rf_nextSeq read) of
        (turns, live, held) \<Rightarrow>
          Some (s\<lparr>
            sy_turns := reconcile_snapshot_turns (sy_turns s) turns (rf_runningTurnId read),
            sy_tombstones := (if list_ex (\<lambda>t. is_optimistic_turn_id (tn_id t)) (sy_turns s) then sy_tombstones s else live),
            sy_dividers := held,
            sy_floor := Some (rf_nextSeq read),
            sy_durableCursor := durable_cursor_after (sy_durableCursor s) (rf_nextSeq read),
            sy_runState := reduce_run_state (HistoryRecord (rf_runState read)) (sy_runState s),
            sy_asks := receive_asks (rf_asks read) (sy_asks s)\<rparr>)))"

definition missing_facts :: "synced_thread \<Rightarrow> bool" where
  "missing_facts s \<longleftrightarrow>
     dividers_awaiting_anchor_in (sy_turns s) (sy_dividers s) \<noteq> [] \<or>
     (case vw_record (sl_view (sy_runState s)) of
        None \<Rightarrow> False
      | Some record \<Rightarrow> unheld_writer_messages record (\<lambda>k. list_ex (\<lambda>t. tn_id t = k) (sy_turns s)) \<noteq> [])"

definition accept_durable_block_seq :: "synced_thread \<Rightarrow> string \<Rightarrow> synced_thread option" where
  "accept_durable_block_seq s seq =
     (if parse_seq seq = None then None
      else if (case sy_durableCursor s of None \<Rightarrow> False | Some c \<Rightarrow> compare_seq seq c \<le> 0) then None
      else (let nextFloor = show_nat (seq_number seq + 1)
            in Some (s\<lparr>sy_durableCursor := Some seq,
              sy_floor := (case sy_floor s of
                  Some fl \<Rightarrow> if fl \<noteq> [] \<and> compare_seq fl nextFloor > 0 then Some fl else Some nextFloor
                | None \<Rightarrow> Some nextFloor)\<rparr>)))"

definition update_asks :: "(chat_asks \<Rightarrow> chat_asks) \<Rightarrow> synced_thread \<Rightarrow> synced_thread" where
  "update_asks change s = s\<lparr>sy_asks := change (sy_asks s)\<rparr>"

definition receive_run_state :: "run_action \<Rightarrow> synced_thread \<Rightarrow> synced_thread" where
  "receive_run_state action s = s\<lparr>sy_runState := reduce_run_state action (sy_runState s)\<rparr>"

section \<open>The writer's turns\<close>

definition append_local_user_turn :: "chat_turn \<Rightarrow> synced_thread \<Rightarrow> synced_thread" where
  "append_local_user_turn turn s = s\<lparr>sy_turns := sy_turns s @ [turn]\<rparr>"

definition show_big :: "int \<Rightarrow> string" where
  "show_big v = (if v < 0 then CHR ''-'' # show_nat (nat (- v)) else show_nat (nat v))"

definition raised_floor :: "string option \<Rightarrow> string \<Rightarrow> string option result" where
  "raised_floor fl given =
     (case fl of
        None \<Rightarrow> and_then (BigInt given) (\<lambda>v. Inr (Some (show_big v)))
      | Some f \<Rightarrow> and_then (BigInt given) (\<lambda>v. and_then (BigInt f) (\<lambda>h.
          Inr (if v > h then Some (show_big v) else fl))))"

definition settled_row :: "string \<Rightarrow> string \<Rightarrow> string \<Rightarrow> chat_turn \<Rightarrow> chat_turn" where
  "settled_row optimisticTurnId serverTurnId completedAt t =
     (if tn_id t = optimisticTurnId
      then t\<lparr>tn_id := serverTurnId, tn_status := CompleteTurn,
        tn_completedAt := Some (case tn_completedAt t of Some c \<Rightarrow> c | None \<Rightarrow> completedAt),
        tn_blocks := map (\<lambda>b. b\<lparr>bl_turnId := serverTurnId\<rparr>) (tn_blocks t)\<rparr>
      else if tn_prevTurnId t = Has optimisticTurnId then t\<lparr>tn_prevTurnId := Has serverTurnId\<rparr>
      else t)"

definition acknowledge_admission ::
  "synced_thread \<Rightarrow> string \<Rightarrow> string \<Rightarrow> string \<Rightarrow> string \<Rightarrow> synced_thread result" where
  "acknowledge_admission s optimisticTurnId serverTurnId snapshotFloorNextSeq completedAt =
     and_then (raised_floor (sy_floor s) snapshotFloorNextSeq) (\<lambda>fl.
       (let raised = s\<lparr>sy_floor := fl\<rparr>
        in if optimisticTurnId = serverTurnId \<or> \<not> is_optimistic_turn_id optimisticTurnId then Inr raised
           else (case turn_by_id optimisticTurnId (sy_turns raised) of
               None \<Rightarrow> Inr raised
             | Some t \<Rightarrow>
                 if tn_role t \<noteq> UserRole then Inr raised
                 else (let hasServerTurn = sy_tombstones raised serverTurnId \<noteq> None \<or>
                             list_ex (\<lambda>t. tn_id t = serverTurnId) (sy_turns raised)
                       in Inr (raised\<lparr>sy_turns := map (settled_row optimisticTurnId serverTurnId completedAt)
                         (filter (\<lambda>t. \<not> (hasServerTurn \<and> tn_id t = optimisticTurnId)) (sy_turns raised))\<rparr>)))))"

definition remove_local_user_turn :: "string \<Rightarrow> synced_thread \<Rightarrow> synced_thread" where
  "remove_local_user_turn turnId s = s\<lparr>sy_turns := filter (\<lambda>t. tn_id t \<noteq> turnId) (sy_turns s)\<rparr>"

definition remove_turns :: "string list \<Rightarrow> string \<Rightarrow> synced_thread \<Rightarrow> synced_thread" where
  "remove_turns ids seq s =
     (case remove_turns_in (sy_turns s, sy_tombstones s) ids seq of
        (turns, stones) \<Rightarrow> s\<lparr>sy_turns := turns, sy_tombstones := stones\<rparr>)"

definition mark_forgotten :: "string list \<Rightarrow> string \<Rightarrow> synced_thread \<Rightarrow> synced_thread" where
  "mark_forgotten ids byTurnId s =
     (case mark_forgotten_in (sy_turns s, sy_forgotten s) ids byTurnId of
        (turns, stamps) \<Rightarrow> s\<lparr>sy_turns := turns, sy_forgotten := stamps\<rparr>)"

definition prune_streaming_tail :: "synced_thread \<Rightarrow> synced_thread" where
  "prune_streaming_tail s =
     s\<lparr>sy_turns := filter (\<lambda>t. \<not> (tn_role t = AssistantRole \<and> tn_status t = StreamingTurn)) (sy_turns s)\<rparr>"

section \<open>The turn store\<close>

text \<open>One chat's cell. The host's callbacks run after each write and change nothing here.\<close>

definition ensure_assistant_turn :: "string \<Rightarrow> string \<Rightarrow> string \<Rightarrow> ensure_options \<Rightarrow> synced_thread \<Rightarrow> synced_thread" where
  "ensure_assistant_turn threadId turnId now opts s =
     (case ensure_assistant_turn_in (sy_turns s) threadId turnId now opts of
        EnsureRejected \<Rightarrow> s
      | EnsureExisting turns \<Rightarrow> s\<lparr>sy_turns := turns\<rparr>
      | EnsureCreated turns _ \<Rightarrow> s\<lparr>sy_turns := turns\<rparr>)"

definition ensure_switch_turn :: "string \<Rightarrow> switch_facts \<Rightarrow> string \<Rightarrow> string \<Rightarrow> synced_thread \<Rightarrow> synced_thread" where
  "ensure_switch_turn threadId facts seq now s =
     (case ensure_switch_turn_in (sy_turns s, sy_dividers s) threadId facts seq now of
        (turns, dividers) \<Rightarrow> s\<lparr>sy_turns := turns, sy_dividers := dividers\<rparr>)"

definition upsert_assistant_block :: "string \<Rightarrow> chat_block \<Rightarrow> synced_thread \<Rightarrow> synced_thread" where
  "upsert_assistant_block turnId block s =
     (case upsert_block_in (sy_turns s) turnId block of Some turns \<Rightarrow> s\<lparr>sy_turns := turns\<rparr> | None \<Rightarrow> s)"

definition patch_turn_status :: "string \<Rightarrow> turn_status \<Rightarrow> status_patch \<Rightarrow> synced_thread \<Rightarrow> synced_thread" where
  "patch_turn_status turnId status patch s =
     (case patch_turn_status_in (sy_turns s) turnId status patch of Some turns \<Rightarrow> s\<lparr>sy_turns := turns\<rparr> | None \<Rightarrow> s)"

definition bump_events_applied :: "synced_thread \<Rightarrow> synced_thread" where
  "bump_events_applied s = s\<lparr>sy_eventsApplied := sy_eventsApplied s + 1\<rparr>"

section \<open>Steps\<close>

text \<open>A turn a read or the writer brings has one block per sequence, in order.\<close>

definition blocks_ok :: "chat_turn \<Rightarrow> bool" where
  "blocks_ok t \<longleftrightarrow> sorted_wrt (<) (map bl_sequence (tn_blocks t))"

definition asks_change :: "(chat_asks \<Rightarrow> chat_asks) \<Rightarrow> bool" where
  "asks_change f \<longleftrightarrow>
     (\<exists>incoming. f = receive_asks incoming) \<or>
     (\<exists>k answer fresh. f = (\<lambda>asks. fst (begin_ask_answer asks k answer fresh))) \<or>
     (\<exists>k submission. f = (\<lambda>asks. fail_ask_answer asks k submission)) \<or>
     (\<exists>k submission. f = (\<lambda>asks. clear_ask_answer asks k submission)) \<or>
     (\<exists>k state. f = (\<lambda>asks. mark_ask_answer asks k state))"

text \<open>The transitions the host and the stream make of the value; the rows the writer appends are new.\<close>

inductive synced_step :: "synced_thread \<Rightarrow> synced_thread \<Rightarrow> bool" where
  read: "list_all blocks_ok (rf_turns read) \<Longrightarrow> apply_read s read = Some s' \<Longrightarrow> synced_step s s'"
| delivered: "synced_step s (raise_delivery_cursor s seq)"
| durable: "accept_durable_block_seq s seq = Some s' \<Longrightarrow> synced_step s s'"
| asks: "asks_change change \<Longrightarrow> synced_step s (update_asks change s)"
| run_state: "synced_step s (receive_run_state action s)"
| appended: "turn_by_id (tn_id t) (sy_turns s) = None \<Longrightarrow> blocks_ok t \<Longrightarrow> synced_step s (append_local_user_turn t s)"
| acknowledged: "parse_seq given \<noteq> None \<Longrightarrow> acknowledge_admission s k k' given completedAt = Inr s' \<Longrightarrow> synced_step s s'"
| unsent: "synced_step s (remove_local_user_turn k s)"
| removed: "synced_step s (remove_turns ids seq s)"
| forgotten: "synced_step s (mark_forgotten ids by s)"
| pruned: "synced_step s (prune_streaming_tail s)"
| ensured: "synced_step s (ensure_assistant_turn threadId k now opts s)"
| switched: "synced_step s (ensure_switch_turn threadId facts seq now s)"
| upserted: "synced_step s (upsert_assistant_block k block s)"
| patched: "synced_step s (patch_turn_status k status patch s)"
| bumped: "synced_step s (bump_events_applied s)"

end
