(* ===== verification/Synced_Steps.thy ===== *)
theory Synced_Steps
  imports Synced_Thread
begin

text \<open>
  What every transition of a synced thread keeps (\<^verbatim>\<open>synced-thread.ts\<close>): one turn per id with one block
  per sequence, cursors that only rise, forgetting that is written once, and asks and run state that
  only move forward.
\<close>

section \<open>Turn lists\<close>

definition turns_ok :: "chat_turn list \<Rightarrow> bool" where
  "turns_ok ts \<longleftrightarrow> distinct (map tn_id ts) \<and> list_all blocks_ok ts"

definition keeps_stamps :: "chat_turn list \<Rightarrow> chat_turn list \<Rightarrow> bool" where
  "keeps_stamps old new \<longleftrightarrow>
     (\<forall>t \<in> set old. \<forall>u \<in> set new. tn_id u = tn_id t \<and> tn_forgottenBy t \<noteq> None \<longrightarrow> tn_forgottenBy u = tn_forgottenBy t)"

lemma keeps_stamps_subset:
  "turns_ok ts \<Longrightarrow> set us \<subseteq> set ts \<Longrightarrow> keeps_stamps ts us"
  unfolding keeps_stamps_def turns_ok_def by (metis same_key subsetD)

lemma keeps_stamps_same: "turns_ok ts \<Longrightarrow> keeps_stamps ts ts"
  by (rule keeps_stamps_subset) auto

lemma turns_ok_filter: "turns_ok ts \<Longrightarrow> turns_ok (filter P ts)"
  by (auto simp: turns_ok_def distinct_map_filter list_all_iff)

lemma update_first_map:
  assumes "distinct (map f xs)" and "\<And>x. P x \<longleftrightarrow> f x = k"
  shows "update_first P g xs = map (\<lambda>x. if f x = k then g x else x) xs"
  using assms
proof (induction xs)
  case (Cons x xs)
  have "map (\<lambda>x. if f x = k then g x else x) xs = xs" if "f x = k"
    using head_key [OF Cons.prems(1)] that by (intro map_idI) metis
  with Cons show ?case by auto
qed simp

text \<open>A change of turns in place.\<close>

lemma mapped_turns:
  assumes "turns_ok ts" and "\<And>t. t \<in> set ts \<Longrightarrow> tn_id (f t) = tn_id t"
    and "\<And>t. t \<in> set ts \<Longrightarrow> blocks_ok t \<Longrightarrow> blocks_ok (f t)"
    and "\<And>t. t \<in> set ts \<Longrightarrow> tn_forgottenBy t \<noteq> None \<Longrightarrow> tn_forgottenBy (f t) = tn_forgottenBy t"
  shows "turns_ok (map f ts)" and "keeps_stamps ts (map f ts)"
proof -
  have "map tn_id (map f ts) = map tn_id ts" using assms(2) by simp
  then show "turns_ok (map f ts)" using assms(1,3) by (auto simp: turns_ok_def list_all_iff simp del: map_map)
  have "tn_forgottenBy (f u) = tn_forgottenBy t"
    if "t \<in> set ts" "u \<in> set ts" "tn_id (f u) = tn_id t" "tn_forgottenBy t \<noteq> None" for t u
  proof -
    have "tn_id u = tn_id t" using assms(2) that by simp
    then have "u = t" using assms(1) that(1,2) same_key [of tn_id ts u t] by (simp add: turns_ok_def)
    then show ?thesis using assms(4) that by simp
  qed
  then show "keeps_stamps ts (map f ts)" by (auto simp: keeps_stamps_def)
qed

text \<open>A new turn among them.\<close>

lemma added_turn:
  assumes "turns_ok ts" and "set us = insert t (set ts)" and "distinct (map tn_id us)" and "tn_id t \<notin> set (map tn_id ts)"
    and "blocks_ok t"
  shows "turns_ok us" and "keeps_stamps ts us"
proof -
  show "turns_ok us" using assms by (auto simp: turns_ok_def list_all_iff)
  have "tn_forgottenBy v = tn_forgottenBy u"
    if "u \<in> set ts" "v \<in> set us" "tn_id v = tn_id u" for u v
  proof -
    have "u \<in> set us" using that(1) assms(2) by simp
    then have "v = u" using same_key [OF assms(3)] that(2,3) by blast
    then show ?thesis by simp
  qed
  then show "keeps_stamps ts us" by (simp add: keeps_stamps_def)
qed

lemma placed_after:
  assumes "placed_after_anchor ts t = Some us"
  shows "set us = insert t (set ts)"
    and "distinct (map tn_id ts) \<Longrightarrow> tn_id t \<notin> set (map tn_id ts) \<Longrightarrow> distinct (map tn_id us)"
proof -
  consider "us = t # ts"
    | anchor x where "dropWhile (\<lambda>t. tn_id t \<noteq> anchor) ts = x # tl (dropWhile (\<lambda>t. tn_id t \<noteq> anchor) ts)"
      "us = takeWhile (\<lambda>t. tn_id t \<noteq> anchor) ts @ x # t # tl (dropWhile (\<lambda>t. tn_id t \<noteq> anchor) ts)"
  proof (cases "tn_prevTurnId t")
    case (Has anchor)
    then have "dropWhile (\<lambda>t. tn_id t \<noteq> anchor) ts \<noteq> []"
      using assms by (auto simp: placed_after_anchor_def list_ex_iff split: if_splits)
    then show ?thesis
      using that(2) [of anchor "hd (dropWhile (\<lambda>t. tn_id t \<noteq> anchor) ts)"] assms Has
      by (auto simp: placed_after_anchor_def Let_def split: if_splits)
  qed (use assms in \<open>auto simp: placed_after_anchor_def\<close>)
  then have "set us = insert t (set ts) \<and>
      (distinct (map tn_id ts) \<longrightarrow> tn_id t \<notin> set (map tn_id ts) \<longrightarrow> distinct (map tn_id us))"
  proof cases
    case 2
    define xs where "xs = takeWhile (\<lambda>t. tn_id t \<noteq> anchor) ts"
    define ys where "ys = tl (dropWhile (\<lambda>t. tn_id t \<noteq> anchor) ts)"
    have "ts = xs @ x # ys" using takeWhile_dropWhile_id [of "\<lambda>t. tn_id t \<noteq> anchor" ts] 2(1) by (simp add: xs_def ys_def)
    moreover have "us = xs @ x # t # ys" using 2(2) by (simp add: xs_def ys_def)
    ultimately show ?thesis by auto
  qed auto
  then show "set us = insert t (set ts)"
    and "distinct (map tn_id ts) \<Longrightarrow> tn_id t \<notin> set (map tn_id ts) \<Longrightarrow> distinct (map tn_id us)" by blast+
qed

section \<open>What one change does to the turns\<close>

definition keeps_turns :: "chat_turn list \<Rightarrow> chat_turn list \<Rightarrow> bool" where
  "keeps_turns ts us \<longleftrightarrow> turns_ok us \<and> keeps_stamps ts us"

lemma keeps_turns_filter: "turns_ok ts \<Longrightarrow> keeps_turns ts (filter P ts)"
  by (simp add: keeps_turns_def turns_ok_filter keeps_stamps_subset)

lemma keeps_turns_refl: "turns_ok ts \<Longrightarrow> keeps_turns ts ts"
  by (simp add: keeps_turns_def keeps_stamps_subset)

lemma keeps_turns_mapped:
  assumes "turns_ok ts"
    and "\<And>t. t \<in> set ts \<Longrightarrow> tn_id (f t) = tn_id t \<and> (blocks_ok t \<longrightarrow> blocks_ok (f t)) \<and>
      (tn_forgottenBy t \<noteq> None \<longrightarrow> tn_forgottenBy (f t) = tn_forgottenBy t)"
  shows "keeps_turns ts (map f ts)"
  using mapped_turns [OF assms(1), of f] assms(2) by (simp add: keeps_turns_def)

lemma keeps_turns_appended:
  assumes "turns_ok ts" and "turn_by_id (tn_id t) ts = None" and "blocks_ok t"
  shows "keeps_turns ts (ts @ [t])"
  using added_turn [OF assms(1), of "ts @ [t]" t] assms
  by (auto simp: keeps_turns_def turns_ok_def turn_by_id_None)

lemma blank_turn_ok [simp]: "blocks_ok (blank_turn a b c d e f)" "tn_id (blank_turn a b c d e f) = b"
  by (simp_all add: blank_turn_def blocks_ok_def)

lemma created_turn_ok [simp]: "blocks_ok (create_assistant_turn a b c d e)" "tn_id (create_assistant_turn a b c d e) = b"
  by (simp_all add: create_assistant_turn_def blank_turn_def blocks_ok_def)

lemma switch_turn_ok [simp]: "blocks_ok (switch_turn a f c)" "tn_id (switch_turn a f c) = sf_turnId f"
  by (simp_all add: switch_turn_def blank_turn_def blocks_ok_def)

lemma keeps_turns_ensured:
  assumes "turns_ok ts"
  shows "(case ensure_assistant_turn_in ts a k now opts of
      EnsureRejected \<Rightarrow> True | EnsureExisting us \<Rightarrow> keeps_turns ts us | EnsureCreated us _ \<Rightarrow> keeps_turns ts us)"
proof -
  have "keeps_turns ts (map (\<lambda>t. if tn_id t = k then t\<lparr>tn_writeMode := m\<rparr> else t) ts)" for m
    using mapped_turns [OF assms, of "\<lambda>t. if tn_id t = k then t\<lparr>tn_writeMode := m\<rparr> else t"]
    by (simp add: keeps_turns_def blocks_ok_def)
  moreover have "keeps_turns ts (ts @ [create_assistant_turn a k now ts opts])" if "turn_by_id k ts = None"
    using keeps_turns_appended [OF assms, of "create_assistant_turn a k now ts opts"] that by simp
  ultimately show ?thesis
    using keeps_turns_refl [OF assms]
    by (auto simp: ensure_assistant_turn_in_def Let_def split: option.split)
qed

lemma upserted_blocks_ok:
  assumes "blocks_ok t" and "bl_sequence b = q"
  shows "sorted_wrt (<) (map bl_sequence (sort_with by_sequence (filter (\<lambda>b. bl_sequence b \<noteq> q) (tn_blocks t) @ [b])))"
proof (rule sort_strictly)
  have "distinct (map bl_sequence (tn_blocks t))" using assms(1) by (simp add: blocks_ok_def strict_sorted_iff)
  then show "distinct (map bl_sequence (filter (\<lambda>b. bl_sequence b \<noteq> q) (tn_blocks t) @ [b]))"
    using assms(2) by (auto simp: distinct_map_filter)
qed

lemma keeps_turns_upserted:
  assumes "turns_ok ts" and "upsert_block_in ts k b = Some us"
  shows "keeps_turns ts us"
proof -
  obtain turn where turn: "turn_by_id k ts = Some turn" using assms(2) by (auto simp: upsert_block_in_def split: option.splits)
  let ?blocks = "sort_with by_sequence (filter (\<lambda>c. bl_sequence c \<noteq> bl_sequence b) (tn_blocks turn) @ [b\<lparr>bl_turnId := k\<rparr>])"
  let ?f = "\<lambda>t. if tn_id t = k then t\<lparr>tn_blocks := ?blocks\<rparr> else t"
  have d: "distinct (map tn_id ts)" using assms(1) by (simp add: turns_ok_def)
  have "us = update_first (\<lambda>t. tn_id t = k) (\<lambda>t. t\<lparr>tn_blocks := ?blocks\<rparr>) ts"
    using assms(2) turn by (auto simp: upsert_block_in_def Let_def split: if_splits)
  also have "\<dots> = map ?f ts" by (rule update_first_map [OF d]) simp
  finally have us: "us = map ?f ts" .
  have "blocks_ok turn" using assms(1) turn_by_id_mem [OF turn] by (simp add: turns_ok_def list_all_iff)
  then have "sorted_wrt (<) (map bl_sequence ?blocks)" by (rule upserted_blocks_ok) simp
  then show ?thesis unfolding us by (intro keeps_turns_mapped [OF assms(1)]) (simp add: blocks_ok_def)
qed

lemma keeps_turns_patched:
  assumes "turns_ok ts" and "patch_turn_status_in ts k status patch = Some us"
  shows "keeps_turns ts us"
proof -
  have d: "distinct (map tn_id ts)" using assms(1) by (simp add: turns_ok_def)
  have "us = update_first (\<lambda>t. tn_id t = k) (patch_turn status patch) ts"
    using assms(2) by (auto simp: patch_turn_status_in_def split: if_splits)
  also have "\<dots> = map (\<lambda>t. if tn_id t = k then patch_turn status patch t else t) ts" by (rule update_first_map [OF d]) simp
  finally show ?thesis
    using mapped_turns [OF assms(1), of "\<lambda>t. if tn_id t = k then patch_turn status patch t else t"]
    by (simp add: keeps_turns_def patch_turn_def blocks_ok_def)
qed

lemma keeps_turns_forgotten:
  assumes "turns_ok ts"
  shows "keeps_turns ts (fst (mark_forgotten_in (ts, stamps) ids by))"
  unfolding mark_forgotten_in_def Let_def prod.case fst_conv
  by (rule keeps_turns_mapped [OF assms]) (auto simp: blocks_ok_def split: option.split)

section \<open>Dividers\<close>

definition dividers_ok :: "held_dividers \<Rightarrow> bool" where
  "dividers_ok ds \<longleftrightarrow> distinct (map fst ds) \<and> list_all (\<lambda>(k, t, seq). tn_id t = k \<and> blocks_ok t) ds"

lemma dividers_ok_filter: "dividers_ok ds \<Longrightarrow> dividers_ok (filter P ds)"
  by (auto simp: dividers_ok_def distinct_map_filter list_all_iff)

lemma keeps_turns_placed:
  assumes "turns_ok ts" and "placed_after_anchor ts t = Some us" and "tn_id t \<notin> set (map tn_id ts)" and "blocks_ok t"
  shows "keeps_turns ts us"
  using added_turn [OF assms(1) placed_after(1) [OF assms(2)] placed_after(2) [OF assms(2)] assms(3,4)] assms
  by (simp add: keeps_turns_def turns_ok_def)

lemma divider_of: "dividers_ok ds \<Longrightarrow> map_of ds k = Some (t, seq) \<Longrightarrow> tn_id t = k \<and> blocks_ok t"
  by (auto simp: dividers_ok_def list_all_iff dest!: map_of_SomeD)

lemma keeps_turns_switched:
  assumes ts: "turns_ok ts" and ds: "dividers_ok ds" and e: "ensure_switch_turn_in (ts, ds) a facts seq now = (us, es)"
  shows "keeps_turns ts us \<and> dividers_ok es"
proof (cases "list_ex (\<lambda>t. tn_id t = sf_turnId facts) ts")
  case True
  then show ?thesis using assms keeps_turns_refl by (simp add: ensure_switch_turn_in_def)
next
  case False
  then have fresh: "sf_turnId facts \<notin> set (map tn_id ts)" by (auto simp: list_ex_iff)
  show ?thesis
  proof (cases "map_of ds (sf_turnId facts)")
    case None
    let ?t = "switch_turn a facts now"
    have "dividers_ok (AList.update (sf_turnId facts) (?t, seq) ds)"
    proof -
      have n: "sf_turnId facts \<notin> fst ` set ds" using None by (simp add: map_of_eq_None_iff)
      then have "AList.update (sf_turnId facts) (?t, seq) ds = ds @ [(sf_turnId facts, ?t, seq)]"
        by (induction ds) auto
      then show ?thesis using ds n by (auto simp: dividers_ok_def)
    qed
    moreover have "keeps_turns ts us"
      using e False None keeps_turns_refl [OF ts] keeps_turns_placed [OF ts _, of ?t] fresh
      by (auto simp: ensure_switch_turn_in_def Let_def split: option.splits)
    moreover have "es = AList.update (sf_turnId facts) (?t, seq) ds"
      using e False None by (simp add: ensure_switch_turn_in_def Let_def)
    ultimately show ?thesis by simp
  next
    case (Some d)
    obtain t q where d: "d = (t, q)" by (cases d)
    from divider_of [OF ds, of "sf_turnId facts" t q] Some d have t: "tn_id t = sf_turnId facts" "blocks_ok t" by auto
    show ?thesis
      using e False Some d ds keeps_turns_refl [OF ts] keeps_turns_placed [OF ts _, of t] fresh t
      by (auto simp: ensure_switch_turn_in_def split: option.splits)
  qed
qed

definition divider_turns :: "held_dividers \<Rightarrow> chat_turn set" where
  "divider_turns ds = (\<lambda>(k, t, seq). t) ` set ds"

lemma placed_dividers:
  assumes "dividers_ok ds"
  shows "set ts \<subseteq> set (place_dividers present ds ts) \<and>
     set (place_dividers present ds ts) \<subseteq> set ts \<union> divider_turns ds"
  using assms
proof (induction ds arbitrary: ts)
  case (Cons d ds)
  obtain k t q where d: "d = (k, t, q)" by (cases d)
  have ds: "dividers_ok ds" using Cons.prems by (auto simp: dividers_ok_def)
  define us where "us = (if k \<in> present then ts else case placed_after_anchor ts t of Some us \<Rightarrow> us | None \<Rightarrow> ts)"
  have step: "place_dividers present (d # ds) ts = place_dividers present ds us"
    by (simp add: place_dividers_def d us_def)
  have "set ts \<subseteq> set us \<and> set us \<subseteq> insert t (set ts)"
    using placed_after(1) [of ts t] by (auto simp: us_def split: option.split)
  with Cons.IH [OF ds, of us] show ?case unfolding step by (auto simp: d divider_turns_def)
qed (simp add: place_dividers_def divider_turns_def)

lemma placed_from:
  assumes "dividers_ok ds" and "t \<in> set (place_dividers present ds ts)"
  shows "t \<in> set ts \<or> blocks_ok t \<and> tn_id t \<in> set (map fst ds)"
proof -
  have "blocks_ok t \<and> tn_id t \<in> set (map fst ds)" if "t \<in> divider_turns ds"
    using that assms(1) by (auto simp: divider_turns_def dividers_ok_def list_all_iff rev_image_eqI)
  then show ?thesis using placed_dividers [OF assms(1), of ts present] assms(2) by blast
qed

lemma placed_blocks_ok:
  assumes "dividers_ok ds" and "list_all blocks_ok ts"
  shows "list_all blocks_ok (place_dividers present ds ts)"
  using placed_from [OF assms(1)] assms(2) unfolding list_all_iff by blast

lemma placed_ids:
  assumes "dividers_ok ds" and "k \<notin> set (map tn_id ts)" and "k \<notin> set (map fst ds)"
  shows "k \<notin> set (map tn_id (place_dividers present ds ts))"
proof
  assume "k \<in> set (map tn_id (place_dividers present ds ts))"
  then obtain t where t: "t \<in> set (place_dividers present ds ts)" "tn_id t = k" by auto
  have "t \<in> set ts \<Longrightarrow> k \<in> set (map tn_id ts)" using t(2) by auto
  with placed_from [OF assms(1) t(1)] t(2) assms(2,3) show False by blast
qed

section \<open>Reads and admissions\<close>

lemma stamped_turns_ok: "list_all blocks_ok ts \<Longrightarrow> list_all blocks_ok (stamped_turns stamps ts)"
  by (auto simp: stamped_turns_def list_all_iff blocks_ok_def)

lemma stamped_turns_ids [simp]: "map tn_id (stamped_turns stamps ts) = map tn_id ts"
  by (simp add: stamped_turns_def)

lemma follows_snapshot_blocks:
  assumes "follows_snapshot local s u" and "blocks_ok s"
  shows "blocks_ok u"
proof (cases "turn_by_id (tn_id s) local")
  case None
  then show ?thesis using assms by (simp add: follows_snapshot_def)
next
  case (Some l)
  have "map bl_sequence xs = map bl_sequence ys" if "list_all2 (\<lambda>x b. x = b \<or> same_block x b) xs ys" for xs ys
    using that by induction (auto dest: same_block_sequence)
  then show ?thesis
    using assms Some by (auto simp: follows_snapshot_def blocks_ok_def split: if_splits)
qed

text \<open>A server's list may name a turn twice; the spine takes the first.\<close>

lemma unique_from_subset: "set (unique_by_id_from seen ts) \<subseteq> set ts"
  by (induction ts arbitrary: seen) auto

lemma unique_subset: "set (unique_by_id ts) \<subseteq> set ts"
  by (simp add: unique_by_id_def unique_from_subset)

lemma list_all2_right: "list_all2 P xs ys \<Longrightarrow> y \<in> set ys \<Longrightarrow> \<exists>x \<in> set xs. P x y"
  by (induction rule: list_all2_induct) auto

lemma reconciled_from:
  assumes "u \<in> set (reconcile_snapshot_turns local server running)"
  shows "(\<exists>s \<in> set (unique_by_id server). follows_snapshot local s u \<and> tn_id u = tn_id s) \<or>
     u \<in> set local \<and> tn_id u \<notin> set (map tn_id server) \<and> survives running u"
proof (cases "named_in server u")
  case True
  then have "u \<in> set (filter (named_in server) (reconcile_snapshot_turns local server running))" using assms by simp
  moreover have "list_all2 (\<lambda>s u. follows_snapshot local s u \<and> tn_id u = tn_id s) (unique_by_id server)
      (filter (named_in server) (reconcile_snapshot_turns local server running))"
    by (rule list_all2_mono [OF reconciled_spine]) (auto simp: follows_snapshot_id)
  ultimately show ?thesis using list_all2_right by fast
next
  case False
  then have "u \<in> set (filter (\<lambda>t. \<not> named_in server t) (reconcile_snapshot_turns local server running))" using assms by simp
  then show ?thesis
    unfolding reconciled_local using unique_subset [of local] by (auto simp: named_in_def)
qed

lemma keeps_turns_reconciled:
  assumes "turns_ok local" and "list_all blocks_ok server"
  shows "keeps_turns local (reconcile_snapshot_turns local server running)"
  unfolding keeps_turns_def turns_ok_def
proof (intro conjI)
  let ?r = "reconcile_snapshot_turns local server running"
  have d: "distinct (map tn_id local)" using assms(1) by (simp add: turns_ok_def)
  show "distinct (map tn_id ?r)" by (rule reconciled_distinct)
  have "blocks_ok u" if "u \<in> set ?r" for u
    using reconciled_from [OF that] assms unique_subset [of server] follows_snapshot_blocks
    by (auto simp: turns_ok_def list_all_iff)
  then show "list_all blocks_ok ?r" by (simp add: list_all_iff)
  have "tn_forgottenBy u = tn_forgottenBy t"
    if t: "t \<in> set local" "tn_forgottenBy t \<noteq> None" and u: "u \<in> set ?r" "tn_id u = tn_id t" for t u
  proof -
    from reconciled_from [OF u(1)] show ?thesis
    proof
      assume "\<exists>s \<in> set (unique_by_id server). follows_snapshot local s u \<and> tn_id u = tn_id s"
      then obtain s where s: "follows_snapshot local s u" "tn_id u = tn_id s" by blast
      have "turn_by_id (tn_id s) local = Some t"
        using turn_by_id_unique [OF d t(1)] s(2) u(2) by simp
      with s(1) t(2) show ?thesis by (auto simp: follows_snapshot_def)
    next
      assume "u \<in> set local \<and> tn_id u \<notin> set (map tn_id server) \<and> survives running u"
      then have "u = t" using same_key [OF d, of u t] t(1) u(2) by blast
      then show ?thesis by simp
    qed
  qed
  then show "keeps_stamps local ?r" by (auto simp: keeps_stamps_def)
qed

lemma settled_turns:
  assumes ts: "turns_ok ts" and k: "k' \<noteq> k"
    and us: "us = map (settled_row k k' now) (filter (\<lambda>t. \<not> (has \<and> tn_id t = k)) ts)"
    and has: "k' \<in> set (map tn_id ts) \<Longrightarrow> has"
  shows "keeps_turns ts us"
proof -
  have d: "distinct (map tn_id ts)" using ts by (simp add: turns_ok_def)
  let ?ks = "filter (\<lambda>t. \<not> (has \<and> tn_id t = k)) ts"
  have ids: "tn_id (settled_row k k' now t) = (if tn_id t = k then k' else tn_id t)" for t
    by (simp add: settled_row_def)
  have stamp: "tn_forgottenBy (settled_row k k' now t) = tn_forgottenBy t" for t by (simp add: settled_row_def)
  have ks: "turns_ok ?ks" using ts by (rule turns_ok_filter)
  have inj: "inj_on (\<lambda>i. if i = k then k' else i) (set (map tn_id ?ks))"
    using has by (auto simp: inj_on_def split: if_splits)
  have "map tn_id us = map (\<lambda>i. if i = k then k' else i) (map tn_id ?ks)" by (simp add: us ids)
  then have "distinct (map tn_id us)" using ks inj by (simp add: turns_ok_def distinct_map del: map_map)
  moreover have "blocks_ok (settled_row k k' now t)" if "blocks_ok t" for t
    using that by (simp add: settled_row_def blocks_ok_def comp_def)
  then have "list_all blocks_ok us" using ks by (auto simp: us turns_ok_def list_all_iff)
  moreover have "tn_forgottenBy (settled_row k k' now u) = tn_forgottenBy t"
    if "t \<in> set ts" "u \<in> set ?ks" "tn_id (settled_row k k' now u) = tn_id t" for t u
  proof -
    have "tn_id u = tn_id t"
      using that has k by (auto simp: ids split: if_splits)
    moreover have "u \<in> set ts" using that(2) by simp
    ultimately have "u = t" using same_key [OF d] that(1) by blast
    then show ?thesis by (simp add: stamp)
  qed
  then have "keeps_stamps ts us" by (auto simp: keeps_stamps_def us)
  ultimately show ?thesis by (simp add: keeps_turns_def turns_ok_def)
qed

section \<open>Cursors\<close>

lemma raised_delivery: "not_before (sy_deliveryCursor (raise_delivery_cursor s seq)) (sy_deliveryCursor s)"
  by (auto simp: raise_delivery_cursor_def not_before_def split: option.split)

lemma raised_delivery_rest [simp]:
  "sy_turns (raise_delivery_cursor s seq) = sy_turns s" "sy_dividers (raise_delivery_cursor s seq) = sy_dividers s"
  "sy_runState (raise_delivery_cursor s seq) = sy_runState s" "sy_floor (raise_delivery_cursor s seq) = sy_floor s"
  "sy_durableCursor (raise_delivery_cursor s seq) = sy_durableCursor s" "sy_asks (raise_delivery_cursor s seq) = sy_asks s"
  "sy_forgotten (raise_delivery_cursor s seq) = sy_forgotten s"
  by (simp_all add: raise_delivery_cursor_def)

lemma raised_durable: "not_before (durable_cursor_after cursor nextSeq) cursor"
  by (auto simp: durable_cursor_after_def not_before_def split: option.split)

lemma accepted_durable:
  assumes "accept_durable_block_seq s seq = Some s'"
  shows "not_before (sy_durableCursor s') (sy_durableCursor s)" and "not_before (sy_floor s') (sy_floor s)"
    and "\<forall>f. sy_floor s = Some f \<longrightarrow> canonical_decimal f \<Longrightarrow> \<forall>f. sy_floor s' = Some f \<longrightarrow> canonical_decimal f"
    and "sy_turns s' = sy_turns s" "sy_dividers s' = sy_dividers s" "sy_runState s' = sy_runState s"
    "sy_forgotten s' = sy_forgotten s" "sy_deliveryCursor s' = sy_deliveryCursor s" "sy_asks s' = sy_asks s"
    "sy_tombstones s' = sy_tombstones s"
proof -
  have s': "s' = s\<lparr>sy_durableCursor := Some seq, sy_floor := sy_floor s'\<rparr>"
    using assms by (auto simp: accept_durable_block_seq_def Let_def split: if_splits)
  have fl: "sy_floor s' = (case sy_floor s of
      Some f \<Rightarrow> if f \<noteq> [] \<and> compare_seq f (show_nat (Suc (seq_number seq))) > 0 then Some f
        else Some (show_nat (Suc (seq_number seq)))
    | None \<Rightarrow> Some (show_nat (Suc (seq_number seq))))"
    using assms by (auto simp: accept_durable_block_seq_def Let_def split: if_splits)
  show "not_before (sy_durableCursor s') (sy_durableCursor s)"
    using assms by (subst s') (auto simp: accept_durable_block_seq_def not_before_def split: option.splits if_splits)
  have "0 \<le> compare_seq (show_nat n) []" for n using compare_seq_shortlex by auto
  then show "not_before (sy_floor s') (sy_floor s)"
    unfolding fl using compare_seq_flip by (auto simp: not_before_def not_less split: option.split)
  show "\<forall>f. sy_floor s = Some f \<longrightarrow> canonical_decimal f \<Longrightarrow> \<forall>f. sy_floor s' = Some f \<longrightarrow> canonical_decimal f"
    unfolding fl using show_nat_canonical by (auto split: option.split)
  show "sy_turns s' = sy_turns s" "sy_dividers s' = sy_dividers s" "sy_runState s' = sy_runState s"
    "sy_forgotten s' = sy_forgotten s" "sy_deliveryCursor s' = sy_deliveryCursor s" "sy_asks s' = sy_asks s"
    "sy_tombstones s' = sy_tombstones s"
    by (subst s'; simp)+
qed

lemma canonical_big_int: "canonical_decimal x \<Longrightarrow> BigInt x = Inr (int (seq_number x))"
proof -
  assume c: "canonical_decimal x"
  have "radix_value 10 x = Some (int (seq_number x))"
    using radix_digits_value [of x 0] seq_digits [OF c] by (simp add: radix_value_def seq_number_def)
  moreover have "big_int x = radix_value 10 x" using big_int_canonical [OF c] by simp
  ultimately show ?thesis by (simp add: BigInt_def)
qed

lemma show_big_number: "seq_number (show_big (int n)) = n" "canonical_decimal (show_big (int n))"
  using show_nat_value [of n] show_nat_canonical by (simp_all add: show_big_def seq_number_def digits_value_def)

lemma raised_floor_ok:
  assumes "raised_floor fl given = Inr fl'" and "parse_seq given \<noteq> None" and "\<forall>f. fl = Some f \<longrightarrow> canonical_decimal f"
  shows "not_before fl' fl" and "\<forall>f. fl' = Some f \<longrightarrow> canonical_decimal f"
proof -
  have g: "BigInt given = Inr (int (seq_number given))"
    using assms(2) canonical_big_int by (simp add: parse_seq_def split: if_splits)
  have "not_before fl' fl \<and> (\<forall>f. fl' = Some f \<longrightarrow> canonical_decimal f)"
  proof (cases fl)
    case None
    then show ?thesis using assms(1) g show_big_number by (auto simp: raised_floor_def)
  next
    case (Some f)
    have f: "canonical_decimal f" using assms(3) Some by simp
    have "0 \<le> compare_seq (show_big (int n)) f" if "seq_number f < n" for n
    proof -
      have "sgn (compare_seq (show_big (int n)) f) = 1"
        using compare_seq_number [OF show_big_number(2) [of n] f] that by (simp add: show_big_number(1))
      then show ?thesis by (metis less_imp_le sgn_1_pos)
    qed
    then show ?thesis
      using assms(1) g canonical_big_int [OF f] f Some show_big_number(2)
      by (auto simp: raised_floor_def not_before_def split: if_splits)
  qed
  then show "not_before fl' fl" and "\<forall>f. fl' = Some f \<longrightarrow> canonical_decimal f" by blast+
qed

section \<open>Every transition\<close>

definition synced_ok :: "synced_thread \<Rightarrow> bool" where
  "synced_ok s \<longleftrightarrow> turns_ok (sy_turns s) \<and> dividers_ok (sy_dividers s) \<and> slice_ok (sy_runState s) \<and>
     (\<forall>f. sy_floor s = Some f \<longrightarrow> canonical_decimal f)"

definition cursors_rise :: "synced_thread \<Rightarrow> synced_thread \<Rightarrow> bool" where
  "cursors_rise s s' \<longleftrightarrow>
     not_before (sy_floor s') (sy_floor s) \<and> not_before (sy_durableCursor s') (sy_durableCursor s) \<and>
     not_before (sy_deliveryCursor s') (sy_deliveryCursor s)"

definition moves_forward :: "synced_thread \<Rightarrow> synced_thread \<Rightarrow> bool" where
  "moves_forward s s' \<longleftrightarrow>
     cursors_rise s s' \<and> sy_forgotten s \<subseteq>\<^sub>m sy_forgotten s' \<and>
     newer_record (sl_view (sy_runState s)) (sl_view (sy_runState s')) \<and>
     (\<forall>k. ask_forward (ca_byId (sy_asks s) k) (ca_byId (sy_asks s') k))"

lemma moves_forward_refl [simp]: "moves_forward s s"
  by (simp add: moves_forward_def cursors_rise_def)

lemma moves_forward_trans: "moves_forward s t \<Longrightarrow> moves_forward t u \<Longrightarrow> moves_forward s u"
  unfolding moves_forward_def cursors_rise_def
  by (meson not_before_trans map_le_trans newer_record_trans ask_forward_trans)

lemma remembered_more: "stamps \<subseteq>\<^sub>m remember_forgotten ids by stamps"
proof -
  have "fold (\<lambda>i m. if stamps i \<noteq> None then m else m(i \<mapsto> by)) ids m k = Some v"
    if "m k = Some v" "stamps k = Some v" for m k v
    using that
  proof (induction ids arbitrary: m)
    case (Cons a ids)
    then show ?case by (cases "a = k") auto
  qed simp
  then show ?thesis by (auto simp: map_le_def remember_forgotten_def)
qed

lemma asks_change_forward: "asks_change f \<Longrightarrow> ask_forward (ca_byId asks k) (ca_byId (f asks) k)"
  by (auto simp: asks_change_def begin_ask_answer_def fail_ask_answer_def clear_ask_answer_def mark_ask_answer_def Let_def
      receive_asks_forward split: option.split)

lemma apply_snapshot_parts:
  "apply_snapshot_to stones ds stamps ts n = (us, live, held) \<longleftrightarrow>
     us = (let kept = filter (\<lambda>t. live_tombstones stones n (tn_id t) = None) (stamped_turns stamps ts)
       in place_dividers (set (map tn_id kept)) (live_dividers ds n) kept) \<and>
     live = live_tombstones stones n \<and> held = live_dividers ds n"
  unfolding apply_snapshot_to_def Let_def prod.inject by (rule iffI; elim conjE; intro conjI; rule sym; assumption)

text \<open>A change of the turns and what stands beside them, alone.\<close>

definition good_step :: "synced_thread \<Rightarrow> synced_thread \<Rightarrow> bool" where
  "good_step s s' \<longleftrightarrow> synced_ok s' \<and> moves_forward s s' \<and> keeps_stamps (sy_turns s) (sy_turns s')"

lemma good_turns:
  assumes "synced_ok s" and "keeps_turns (sy_turns s) us"
  shows "good_step s (s\<lparr>sy_turns := us\<rparr>)"
  using assms by (simp add: good_step_def synced_ok_def keeps_turns_def moves_forward_def cursors_rise_def)

lemma good_read:
  assumes ok: "synced_ok s" and read: "apply_read s rd = Some s'" and blocks: "list_all blocks_ok (rf_turns rd)"
  shows "good_step s s'"
proof -
  have acc: "accepts_snapshot s (rf_nextSeq rd)" using read by (simp add: apply_read_def split: if_splits)
  obtain ts live held where app: "apply_snapshot_to (sy_tombstones s) (sy_dividers s) (sy_forgotten s) (rf_turns rd)
      (rf_nextSeq rd) = (ts, live, held)" by (cases "apply_snapshot_to (sy_tombstones s) (sy_dividers s)
      (sy_forgotten s) (rf_turns rd) (rf_nextSeq rd)") auto
  define us where "us = reconcile_snapshot_turns (sy_turns s) ts (rf_runningTurnId rd)"
  have s': "sy_turns s' = us" "sy_dividers s' = held" "sy_floor s' = Some (rf_nextSeq rd)"
    "sy_durableCursor s' = durable_cursor_after (sy_durableCursor s) (rf_nextSeq rd)"
    "sy_runState s' = reduce_run_state (HistoryRecord (rf_runState rd)) (sy_runState s)"
    "sy_asks s' = receive_asks (rf_asks rd) (sy_asks s)" "sy_forgotten s' = sy_forgotten s"
    "sy_deliveryCursor s' = sy_deliveryCursor s"
    using read acc by (auto simp: apply_read_def app us_def)
  have "list_all blocks_ok ts"
  proof -
    let ?live = "live_tombstones (sy_tombstones s) (rf_nextSeq rd)"
    let ?kept = "filter (\<lambda>t. ?live (tn_id t) = None) (stamped_turns (sy_forgotten s) (rf_turns rd))"
    have "ts = place_dividers (set (map tn_id ?kept)) (live_dividers (sy_dividers s) (rf_nextSeq rd)) ?kept"
      using app by (simp only: apply_snapshot_parts Let_def)
    moreover have "dividers_ok (live_dividers (sy_dividers s) (rf_nextSeq rd))"
      using ok dividers_ok_filter by (simp add: live_dividers_def synced_ok_def)
    moreover have "list_all blocks_ok ?kept" using stamped_turns_ok [OF blocks] by (auto simp: list_all_iff)
    ultimately show ?thesis using placed_blocks_ok by blast
  qed
  then have turns: "keeps_turns (sy_turns s) us"
    unfolding us_def using ok by (intro keeps_turns_reconciled) (simp_all add: synced_ok_def)
  have "dividers_ok held"
    using app ok dividers_ok_filter by (auto simp: apply_snapshot_to_def Let_def live_dividers_def synced_ok_def)
  moreover have "slice_ok (sy_runState s')" "newer_record (sl_view (sy_runState s)) (sl_view (sy_runState s'))"
    using reduce_run_state_keeps [of "sy_runState s" "[HistoryRecord (rf_runState rd)]"] ok by (simp_all add: s' synced_ok_def)
  moreover have "not_before (sy_floor s') (sy_floor s)" "canonical_decimal (rf_nextSeq rd)"
    using acc by (auto simp: accepts_snapshot_def s' not_before_def parse_seq_def split: option.splits if_splits)
  ultimately show ?thesis
    using turns raised_durable receive_asks_forward
    by (simp add: good_step_def synced_ok_def keeps_turns_def moves_forward_def cursors_rise_def s')
qed

lemma good_acknowledged:
  assumes ok: "synced_ok s" and ack: "acknowledge_admission s k k' given now = Inr s'" and given: "parse_seq given \<noteq> None"
  shows "good_step s s'"
proof -
  obtain fl where fl: "raised_floor (sy_floor s) given = Inr fl"
    using ack by (cases "raised_floor (sy_floor s) given") (auto simp: acknowledge_admission_def)
  have raised: "good_step s (s\<lparr>sy_floor := fl\<rparr>)"
  proof -
    have "\<forall>f. sy_floor s = Some f \<longrightarrow> canonical_decimal f" using ok by (simp add: synced_ok_def)
    note f = raised_floor_ok [OF fl given this]
    show ?thesis using f ok keeps_stamps_same
      by (simp add: good_step_def synced_ok_def moves_forward_def cursors_rise_def)
  qed
  define has where "has = (sy_tombstones s k' \<noteq> None \<or> list_ex (\<lambda>t. tn_id t = k') (sy_turns s))"
  let ?us = "map (settled_row k k' now) (filter (\<lambda>t. \<not> (has \<and> tn_id t = k)) (sy_turns s))"
  have "s' = s\<lparr>sy_floor := fl\<rparr> \<or> k' \<noteq> k \<and> s' = (s\<lparr>sy_floor := fl\<rparr>)\<lparr>sy_turns := ?us\<rparr>"
  proof (cases "k = k' \<or> \<not> is_optimistic_turn_id k")
    case True
    then show ?thesis using ack fl by (auto simp: acknowledge_admission_def Let_def)
  next
    case False
    then have "acknowledge_admission s k k' given now =
        (case turn_by_id k (sy_turns s) of
           None \<Rightarrow> Inr (s\<lparr>sy_floor := fl\<rparr>)
         | Some t \<Rightarrow> if tn_role t \<noteq> UserRole then Inr (s\<lparr>sy_floor := fl\<rparr>)
             else Inr ((s\<lparr>sy_floor := fl\<rparr>)\<lparr>sy_turns := ?us\<rparr>))"
      unfolding acknowledge_admission_def fl and_then.simps Let_def has_def by (simp split: option.split)
    then show ?thesis using ack False by (auto split: option.splits if_splits)
  qed
  then show ?thesis
  proof
    assume r: "k' \<noteq> k \<and> s' = (s\<lparr>sy_floor := fl\<rparr>)\<lparr>sy_turns := ?us\<rparr>"
    have "keeps_turns (sy_turns s) ?us"
      using ok r by (intro settled_turns [OF _ _ refl]) (auto simp: synced_ok_def list_ex_iff has_def)
    then show ?thesis using good_turns [of "s\<lparr>sy_floor := fl\<rparr>" ?us] raised r
      by (simp add: good_step_def moves_forward_def cursors_rise_def)
  qed (use raised in simp)
qed

lemma synced_step_keeps:
  assumes "synced_step s s'" and ok: "synced_ok s"
  shows "good_step s s'"
  using assms(1)
proof cases
  case (read rd)
  then show ?thesis using good_read [OF ok] by blast
next
  case (delivered seq)
  then show ?thesis
    using ok raised_delivery [of s seq] keeps_stamps_same
    by (simp add: good_step_def synced_ok_def moves_forward_def cursors_rise_def raised_delivery_rest)
next
  case (durable seq)
  note d = accepted_durable [OF this]
  have "\<forall>f. sy_floor s = Some f \<longrightarrow> canonical_decimal f" using ok by (simp add: synced_ok_def)
  note f = d(3) [OF this]
  show ?thesis
    unfolding good_step_def synced_ok_def moves_forward_def cursors_rise_def d(4-10)
    using ok keeps_stamps_same d(1,2) f by (auto simp: synced_ok_def)
next
  case (asks change)
  then show ?thesis
    using ok asks_change_forward keeps_stamps_same
    by (simp add: good_step_def synced_ok_def moves_forward_def cursors_rise_def update_asks_def)
next
  case (run_state action)
  then show ?thesis
    using ok reduce_run_state_keeps [of "sy_runState s" "[action]"] keeps_stamps_same
    by (simp add: good_step_def synced_ok_def moves_forward_def cursors_rise_def receive_run_state_def)
next
  case (appended t)
  then show ?thesis
    using good_turns [OF ok keeps_turns_appended] ok by (simp add: append_local_user_turn_def synced_ok_def)
next
  case (acknowledged given k k' now)
  then show ?thesis using good_acknowledged [OF ok] by blast
next
  case (unsent k)
  then show ?thesis using good_turns [OF ok keeps_turns_filter] ok by (simp add: remove_local_user_turn_def synced_ok_def)
next
  case (removed ids seq)
  then show ?thesis
    using good_turns [OF ok keeps_turns_filter [of _ "\<lambda>t. tn_id t \<notin> set ids"]] ok
    by (simp add: remove_turns_def remove_turns_in_def good_step_def synced_ok_def moves_forward_def cursors_rise_def)
next
  case (forgotten ids byTurn)
  obtain us stamps where m: "mark_forgotten_in (sy_turns s, sy_forgotten s) ids byTurn = (us, stamps)"
    by (cases "mark_forgotten_in (sy_turns s, sy_forgotten s) ids byTurn")
  have "keeps_turns (sy_turns s) us"
    using keeps_turns_forgotten [of "sy_turns s" "sy_forgotten s" ids byTurn] ok m by (simp add: synced_ok_def)
  moreover have "stamps = remember_forgotten ids byTurn (sy_forgotten s)"
    using m by (auto simp: mark_forgotten_in_def Let_def)
  ultimately show ?thesis
    using ok remembered_more forgotten
    by (simp add: mark_forgotten_def m good_step_def synced_ok_def moves_forward_def cursors_rise_def keeps_turns_def)
next
  case pruned
  then show ?thesis using good_turns [OF ok keeps_turns_filter] ok by (simp add: prune_streaming_tail_def synced_ok_def)
next
  case (ensured a k now opts)
  then show ?thesis
    using good_turns [OF ok] keeps_turns_ensured [of "sy_turns s" a k now opts] ok keeps_turns_refl [of "sy_turns s"] good_turns [OF ok, of "sy_turns s"]
    by (auto simp: ensure_assistant_turn_def synced_ok_def split: ensure_result.splits)
next
  case (switched a facts seq now)
  obtain us es where e: "ensure_switch_turn_in (sy_turns s, sy_dividers s) a facts seq now = (us, es)"
    by (cases "ensure_switch_turn_in (sy_turns s, sy_dividers s) a facts seq now")
  from keeps_turns_switched [OF _ _ e] ok have "keeps_turns (sy_turns s) us" "dividers_ok es" by (auto simp: synced_ok_def)
  then show ?thesis
    using ok switched
    by (simp add: ensure_switch_turn_def e good_step_def synced_ok_def moves_forward_def cursors_rise_def keeps_turns_def)
next
  case (upserted k b)
  then show ?thesis
    using good_turns [OF ok] keeps_turns_upserted [of "sy_turns s" k b] ok good_turns [OF ok, of "sy_turns s"] keeps_turns_refl [of "sy_turns s"]
    by (auto simp: upsert_assistant_block_def synced_ok_def split: option.split)
next
  case (patched k status patch)
  then show ?thesis
    using good_turns [OF ok] keeps_turns_patched [of "sy_turns s" k status patch] ok good_turns [OF ok, of "sy_turns s"] keeps_turns_refl [of "sy_turns s"]
    by (auto simp: patch_turn_status_def synced_ok_def split: option.split)
next
  case bumped
  then show ?thesis
    using ok keeps_stamps_same
    by (simp add: bump_events_applied_def good_step_def synced_ok_def moves_forward_def cursors_rise_def)
qed

lemma steps_keep:
  assumes "synced_step\<^sup>*\<^sup>* s s'" and "synced_ok s"
  shows "synced_ok s' \<and> moves_forward s s'"
  using assms
proof (induction rule: rtranclp_induct)
  case (step t u)
  then show ?case using synced_step_keeps [of t u] moves_forward_trans by (auto simp: good_step_def)
qed simp

lemma empty_synced_ok: "synced_ok empty_synced_thread"
  using initial_slice_ok
  by (simp add: synced_ok_def empty_synced_thread_def turns_ok_def dividers_ok_def)

section \<open>Turns that left\<close>

definition gone :: "string \<Rightarrow> string \<Rightarrow> synced_thread \<Rightarrow> bool" where
  "gone k seq s \<longleftrightarrow>
     k \<notin> set (map tn_id (sy_turns s)) \<and> k \<notin> set (map fst (sy_dividers s)) \<and>
     (case sy_tombstones s k of Some held \<Rightarrow> 0 \<le> compare_seq held seq | None \<Rightarrow> False)"

definition apply_reads :: "read_facts list \<Rightarrow> synced_thread \<Rightarrow> synced_thread" where
  "apply_reads reads s = fold (\<lambda>read s. case apply_read s read of Some s' \<Rightarrow> s' | None \<Rightarrow> s) reads s"

lemma gone_read:
  assumes g: "gone k seq s" and ok: "dividers_ok (sy_dividers s)" and read: "apply_read s rd = Some s'"
    and old: "0 \<le> compare_seq seq (rf_nextSeq rd)"
  shows "gone k seq s' \<and> dividers_ok (sy_dividers s')"
proof -
  obtain held where held: "sy_tombstones s k = Some held" "0 \<le> compare_seq held seq"
    using g by (auto simp: gone_def split: option.splits)
  have live: "live_tombstones (sy_tombstones s) (rf_nextSeq rd) k = Some held"
    using held seq_trans [OF held(2) old] by (simp add: live_tombstones_def uncovered_def)
  obtain ts stones ds where app: "apply_snapshot_to (sy_tombstones s) (sy_dividers s) (sy_forgotten s) (rf_turns rd)
      (rf_nextSeq rd) = (ts, stones, ds)" by (metis prod_cases3)
  note parts = app [unfolded apply_snapshot_parts]
  have ds: "dividers_ok ds" using parts ok dividers_ok_filter by (simp add: live_dividers_def)
  have ks: "k \<notin> set (map fst ds)" using parts g by (auto simp: live_dividers_def gone_def)
  have kt: "k \<notin> set (map tn_id ts)"
  proof -
    let ?kept = "filter (\<lambda>t. live_tombstones (sy_tombstones s) (rf_nextSeq rd) (tn_id t) = None)
      (stamped_turns (sy_forgotten s) (rf_turns rd))"
    have "k \<notin> set (map tn_id ?kept)" using live by auto
    from placed_ids [OF ds this ks] show ?thesis using parts by (simp only: Let_def not_False_eq_True)
  qed
  have s': "sy_turns s' = reconcile_snapshot_turns (sy_turns s) ts (rf_runningTurnId rd)" "sy_dividers s' = ds"
    "sy_tombstones s' = (if list_ex (\<lambda>t. is_optimistic_turn_id (tn_id t)) (sy_turns s) then sy_tombstones s else stones)"
    using read app by (auto simp: apply_read_def split: if_splits)
  have "k \<notin> set (map tn_id (sy_turns s'))"
  proof
    assume "k \<in> set (map tn_id (sy_turns s'))"
    then obtain u where u: "u \<in> set (reconcile_snapshot_turns (sy_turns s) ts (rf_runningTurnId rd))" "tn_id u = k"
      by (auto simp: s')
    from reconciled_from [OF u(1)] show False
      using unique_subset [of ts] kt g u(2) by (auto simp: gone_def)
  qed
  then show ?thesis using ds ks held live parts by (simp add: gone_def s')
qed

lemma removed_gone:
  assumes "k \<in> set ids" and "k \<notin> set (map fst (sy_dividers s))"
  shows "gone k seq (remove_turns ids seq s)"
proof -
  have other: "fold (\<lambda>i m. case stones i of Some held \<Rightarrow> if 0 \<le> compare_seq held seq then m else m(i \<mapsto> seq)
      | None \<Rightarrow> m(i \<mapsto> seq)) ids m k = m k" if "k \<notin> set ids" for ids m and stones :: tombstones
    using that by (induction ids arbitrary: m) (auto split: option.split)
  have fold: "(case fold (\<lambda>i m. case stones i of Some held \<Rightarrow> if 0 \<le> compare_seq held seq then m else m(i \<mapsto> seq)
      | None \<Rightarrow> m(i \<mapsto> seq)) ids m k of Some held \<Rightarrow> 0 \<le> compare_seq held seq | None \<Rightarrow> False)"
    if "k \<in> set ids" "m k = stones k" "distinct ids" for ids m and stones :: tombstones
    using that
  proof (induction ids arbitrary: m)
    case (Cons i ids)
    show ?case
    proof (cases "i = k")
      case True
      then show ?thesis using Cons.prems other [of ids stones] by (auto split: option.split)
    next
      case False
      then show ?thesis using Cons by (auto split: option.split)
    qed
  qed simp
  have "k \<notin> set (map tn_id (filter (\<lambda>t. tn_id t \<notin> set ids) (sy_turns s)))" using assms(1) by auto
  then show ?thesis
    using fold [of "remdups ids" "sy_tombstones s" "sy_tombstones s"] assms
    by (simp add: gone_def remove_turns_def remove_turns_in_def del: set_map set_filter)
qed

section \<open>Properties\<close>

text \<open>C36: Whatever a chat takes in, in whatever order, its value stays well formed (one turn per id, one block per
  sequence in order) and only moves forward: the floor and both cursors never fall, what was forgotten is
  remembered, the record is never an older one, an ask never moves back, and no transition changes the
  forgetting stamp of a turn it keeps. The reads taken in list one block per sequence of a turn in
  order, a row the writer appends has a new id and such blocks, and an admission answer carries a
  well-formed sequence number.\<close>

theorem synced_thread_moves_forward:
  assumes "synced_step\<^sup>*\<^sup>* empty_synced_thread s" and "synced_step s t" and "synced_step\<^sup>*\<^sup>* t u"
  shows "synced_ok u \<and> keeps_stamps (sy_turns s) (sy_turns t) \<and> moves_forward s u"
proof -
  have s: "synced_ok s" using steps_keep [OF assms(1) empty_synced_ok] by blast
  have t: "good_step s t" by (rule synced_step_keeps [OF assms(2) s])
  then have "synced_ok u \<and> moves_forward t u" using steps_keep [OF assms(3)] by (simp add: good_step_def)
  with t show ?thesis using moves_forward_trans by (auto simp: good_step_def)
qed

theorem synced_thread_moves_forward_witness:
  "moves_forward empty_synced_thread (raise_delivery_cursor (remove_turns [''u''] ''4'' empty_synced_thread) ''5'')"
  using synced_thread_moves_forward [OF rtranclp.rtrancl_refl synced_step.removed r_into_rtranclp [of synced_step]]
    synced_step.delivered by blast

text \<open>A message handed back stays gone: no read the removal is not covered by brings its turn back, however
  many are applied and whatever turns they list.\<close>

theorem handed_back_stays_gone:
  assumes "k \<in> set ids" and "dividers_ok (sy_dividers s)" and "k \<notin> set (map fst (sy_dividers s))"
    and "list_all (\<lambda>read. 0 \<le> compare_seq seq (rf_nextSeq read)) reads"
  shows "k \<notin> set (map tn_id (sy_turns (apply_reads reads (remove_turns ids seq s))))"
proof -
  have step: "gone k seq (apply_reads reads s) \<and> dividers_ok (sy_dividers (apply_reads reads s))"
    if "gone k seq s" "dividers_ok (sy_dividers s)" "list_all (\<lambda>read. 0 \<le> compare_seq seq (rf_nextSeq read)) reads" for s
    using that
  proof (induction reads arbitrary: s)
    case (Cons rd reads)
    have "gone k seq (case apply_read s rd of Some s' \<Rightarrow> s' | None \<Rightarrow> s) \<and>
        dividers_ok (sy_dividers (case apply_read s rd of Some s' \<Rightarrow> s' | None \<Rightarrow> s))"
      using gone_read [OF Cons.prems(1,2)] Cons.prems by (auto split: option.split)
    with Cons.IH [of "case apply_read s rd of Some s' \<Rightarrow> s' | None \<Rightarrow> s"] Cons.prems(3) show ?case
      by (simp add: apply_reads_def)
  qed (simp add: apply_reads_def)
  have "sy_dividers (remove_turns ids seq s) = sy_dividers s" by (simp add: remove_turns_def remove_turns_in_def)
  with step [OF removed_gone [OF assms(1,3)] _ assms(4)] assms(2) show ?thesis by (simp add: gone_def)
qed

definition stale_read :: read_facts where
  "stale_read = \<lparr>rf_turns = [blank_turn ''t'' ''u'' UserRole WriterOrigin CompleteTurn ''2025''], rf_asks = [],
     rf_nextSeq = ''3'', rf_runningTurnId = None,
     rf_runState = \<lparr>run_version = ''2'', run_items = [], run_sentThrough = 0, run_execution = None,
       run_mode = DraftMode, run_creditsExhausted = False\<rparr>\<rparr>"

theorem handed_back_stays_gone_witness:
  "''u'' \<notin> set (map tn_id (sy_turns (apply_reads [stale_read] (remove_turns [''u''] ''7'' empty_synced_thread))))"
proof (rule handed_back_stays_gone)
  have "compare_seq ''7'' ''3'' = 1" by code_simp
  then show "list_all (\<lambda>read. 0 \<le> compare_seq ''7'' (rf_nextSeq read)) [stale_read]" by (simp add: stale_read_def)
qed (simp_all add: empty_synced_thread_def dividers_ok_def)

end
