(* ===== verification/Spec2Isabelle.thy ===== *)
theory Spec2Isabelle
  imports Document_Replay Folder_Following Copy_Roots Catalog_Replay Store_Refinement Placement_Paths Catalog_Installed Sibling_Display Run_State_Settling Run_Slice_News
    Synced_Steps
begin

text \<open>
  A model of the offline-first resource replica of Meridian Flow (\<^verbatim>\<open>packages/resource-replica/src\<close>),
  of the address and name codecs it shares with the server (\<^verbatim>\<open>packages/contracts/src\<close>), of the
  store transactions that keep its records (\<^verbatim>\<open>apps/app/src/core/resources\<close>), and of what a client
  holds of a chat (\<^verbatim>\<open>packages/thread-client/src\<close>).

  \<^bold>\<open>The program.\<close> The replica lets a writer create, move, rename, copy and delete documents and folders
  while the server is out of reach. Every entry has a durable record with a revision and a journal of
  intents (\<^verbatim>\<open>resource-records.ts\<close>). A command appends an intent. A placement is admitted behind the
  unresolved placements it conflicts with (\<^verbatim>\<open>placement-journal.ts\<close>). A reconcile pass
  (\<^verbatim>\<open>resource-namespace.ts\<close>, \<^verbatim>\<open>folder-namespace.ts\<close>, \<^verbatim>\<open>operation-journal.ts\<close>) takes the active intent of
  a journal, writes down the request before sending it, records the answer, and settles it. Every write
  goes through the metadata store (\<^verbatim>\<open>indexeddb-resource-metadata.ts\<close>), which compares revisions and
  runs a validator over the previous and the next record. Server catalogs (\<^verbatim>\<open>catalog.ts\<close>) arrive as
  snapshots and deltas and are installed into the records (\<^verbatim>\<open>catalog-installation.ts\<close>); the placement
  graph (\<^verbatim>\<open>folder-placement.ts\<close>) says where everything stands while moves are pending, and the optimistic
  sibling order (\<^verbatim>\<open>optimistic-sibling-order.ts\<close>) in which order.

  The chat client holds one value per chat (\<^verbatim>\<open>synced-thread.ts\<close>): its turns, reconciled with the
  server's snapshots (\<^verbatim>\<open>reconcile-snapshot-turns.ts\<close>) and changed by its stream (\<^verbatim>\<open>turn-ops.ts\<close>), its
  asks (\<^verbatim>\<open>asks.ts\<close>), and the run state (\<^verbatim>\<open>run-state-slice.ts\<close>), the newest record of the chat's inbox
  with this device's intents that the record does not cover yet. Positions in the stream are decimal
  strings (\<^verbatim>\<open>event-seq.ts\<close>). Frames, reads and replies reach the value in any order.

  \<^bold>\<open>Theories and the code they model.\<close>
  \<^item> Replica_Prelude: thrown errors as values (\<^verbatim>\<open>result\<close>), the JavaScript string and array operations
    the sources use, association lists for \<^verbatim>\<open>Map\<close>. Replica_Examples: records for witnesses.
  \<^item> Canonical_Observation (\<^verbatim>\<open>canonical-observation.ts\<close>), Document_Filename (\<^verbatim>\<open>filetype.ts\<close>,
    \<^verbatim>\<open>document-filename.ts\<close>), Context_Address and Address_Roundtrip (\<^verbatim>\<open>handles.ts\<close>,
    \<^verbatim>\<open>context-entry-validation.ts\<close>, \<^verbatim>\<open>context-uri.ts\<close>), Resource_Authority
    (\<^verbatim>\<open>resource-work-authority.ts\<close>): versions, names, addresses and owners.
  \<^item> Resource_Records: the records, intents, requests and outcomes. Intent_Policy
    (\<^verbatim>\<open>resource-intent-policy.ts\<close>) and Journal_Policy (\<^verbatim>\<open>namespace-journal-policy.ts\<close>): what an answer
    means for a journal, and the journal validator. Journal_History, Journal_Extension, Journal_Planning
    and Journal_Steps: what the validator accepts and keeps, and that the planners pass it.
  \<^item> Placement_Journal (\<^verbatim>\<open>placement-journal.ts\<close> and the gate of \<^verbatim>\<open>account-resource-reconciler.ts\<close>):
    admissions, the conflicts they wait on, and that the gate never deadlocks.
  \<^item> First_Place, Resource_Deletion, Resource_Namespace, Resource_State, Resource_Creation: one
    document's journal and state (\<^verbatim>\<open>first-place.ts\<close>, \<^verbatim>\<open>namespace-requests.ts\<close>,
    \<^verbatim>\<open>namespace-receipts.ts\<close>, \<^verbatim>\<open>resource-deletion.ts\<close>, \<^verbatim>\<open>resource-join.ts\<close>,
    \<^verbatim>\<open>resource-state.ts\<close>). Records_Validator (\<^verbatim>\<open>resource-records-policy.ts\<close>) and Resource_Planning: the
    record validator, and that the transitions pass it.
  \<^item> Namespace_Replay, Replay_Steps, Document_Replay, Folder_Replay, Copy_Replay: the reconcile loop and
    its three clients.
  \<^item> Folder_Namespace, Folder_Validator, Folder_Planning, Folder_Remint, Folder_Following
    (\<^verbatim>\<open>folder-namespace.ts\<close>, \<^verbatim>\<open>folder-remint.ts\<close>): folders, and the new id of a folder whose id the
    server holds out of reach.
  \<^item> Copy_Operations, Copy_Roots (\<^verbatim>\<open>operation-journal.ts\<close>, \<^verbatim>\<open>copy-roots.ts\<close>): the Copy of several roots.
  \<^item> Sibling_Order, Catalog_View, Catalog_Replay (\<^verbatim>\<open>sibling-order.ts\<close>, \<^verbatim>\<open>catalog-scope.ts\<close>,
    \<^verbatim>\<open>catalog.ts\<close>), Catalog_Installation and Catalog_Installed (\<^verbatim>\<open>catalog-installation.ts\<close>,
    \<^verbatim>\<open>folder-catalog-installation.ts\<close>), Placement_Graph and Placement_Paths
    (\<^verbatim>\<open>folder-placement.ts\<close>): the server's catalog and where entries stand.
  \<^item> Optimistic_Order and Sibling_Display (\<^verbatim>\<open>optimistic-sibling-order.ts\<close>): the fold of unresolved
    placements over the sibling lists, and that the tree displays the result. Digit_Strings: decimal
    strings as numbers, for the ranks and the stream positions.
  \<^item> Journaled_Record: what documents, folders and operations share as stored records.
  \<^item> Event_Seq (\<^verbatim>\<open>event-seq.ts\<close>), Run_State (\<^verbatim>\<open>run-state-view.ts\<close>, \<^verbatim>\<open>fold-messages.ts\<close>,
    \<^verbatim>\<open>fold-switches.ts\<close>, \<^verbatim>\<open>durable-controls.ts\<close>), Run_State_Slice (\<^verbatim>\<open>run-state-slice.ts\<close>): the run state of
    a chat. Run_State_Facts, Run_State_Settling and Run_Slice_News: its invariants, that an intent
    settles alike in whatever order the server's facts arrive, and which news an action announces.
  \<^item> Chat_Turn (\<^verbatim>\<open>threads/turn.ts\<close>, \<^verbatim>\<open>same-turn.ts\<close>), Turn_Operations (\<^verbatim>\<open>turn-ops.ts\<close>), Turn_Reconcile
    (\<^verbatim>\<open>reconcile-snapshot-turns.ts\<close>), Chat_Asks (\<^verbatim>\<open>asks.ts\<close>), Synced_Thread and Synced_Steps
    (\<^verbatim>\<open>synced-thread.ts\<close>): the turns and asks of a chat, and that its value only moves forward.
  \<^item> Keyed_Table, Metadata_Store, Store_Invariant, Store_Transactions, Store_Refinement
    (\<^verbatim>\<open>indexeddb-resource-metadata.ts\<close>): the object stores and the transactions over them.

  \<^bold>\<open>Interfaces.\<close> The locale observation_order is the freshness rule of observation versions; comparator
  is what a sort asks of its comparison; keyed_table is an object store; journaled_record is a stored
  record with a journal under a validator, interpreted for documents, folders and operations;
  namespace_replay is what the reconcile loop asks of a client, interpreted for the same three.

  \<^bold>\<open>What the lemmas show.\<close> The journal validator is characterised by conditions on two journals, and
  along any chain of accepted updates history never changes. Every planner (preparing, recording,
  settling, reminting, following, deleting, joining excepted, adopting, installing an observation)
  starts from a record that is \<^emph>\<open>in order\<close>, one whose bare restoration the validator would accept, and
  writes an update the validator accepts. Three situations are excepted and shown to be turned away:
  a folder's waiting delete settled on this device, a document's waiting delete cancelled by a remint,
  and any update of a record that holds an accepted answer as superseded; there a pass stops on its
  own write. A pass ends, sends at most one request, and continues the stored history under every
  interleaving. The store's
  transactions keep it well formed and implement the compare-and-set the passes assume. Catalog replay
  keeps a view at a prefix of the server's log; installation never deletes and, joins excepted, never
  goes back; the placement graph is total and solves the equations of its edges; the displayed
  siblings are the folded lists. A chat's run state keeps its invariants under every action, settles
  intents independently of the order of the facts, and announces each switch once; its synced value
  stays well formed and never falls behind what it held.

  \<^bold>\<open>Modelling choices.\<close>
  \<^item> Throwing code returns \<^verbatim>\<open>Inl\<close> an error or \<^verbatim>\<open>Inr\<close> a value; a TypeScript optional field is an option;
    revisions, sequences and times are int (the sources never reach the bounds of a double).
  \<^item> Concurrency: a pass awaits the transport, the lock, the gate and the store. Before each access the
    next entry of \<^verbatim>\<open>w_others\<close> may change the stored record: a theorem about all such lists is one about
    all interleavings. A transaction of the store is a function, since IndexedDB transactions are
    atomic; a refusal or an error leaves the state unchanged.
  \<^item> Fuel: the reconcile loop repeats while a commit is stale. A turn is stale only when another actor
    changed the record, so the number of their actions plus four turns is enough, and the termination
    theorems say so. The cycle breaking and the folder walks of the placement graph recurse with
    \<^verbatim>\<open>partial_function\<close> or fuel bounded by the number of nodes, and are proved to return.
  \<^item> The time a source has been behind is stamped by a write of its own in the reconciler; the pass sees
    it as a change by another actor.
  \<^item> The transactions of the store are taken with one restriction: the folders a Copy creates come
    without commands. \<^verbatim>\<open>commitOperation\<close> does not check this; it holds of the records
    \<^verbatim>\<open>newCopyRootRecord\<close> builds, the only ones the sources hand to it.
  \<^item> Edges of the placement graph are compared by object identity in the source; the model keeps pending
    and canonical edges in two maps instead. Arrays of blocks and run-state records are compared by
    identity too; the model compares their values, which says the same where it is used.
  \<^item> \<^verbatim>\<open>Intl.Collator\<close> and \<^verbatim>\<open>localeCompare\<close> are a parameter, with the hypothesis that it is a comparator
    where a theorem needs it. Transport, lock and clock are parameters.

  \<^bold>\<open>Not modelled.\<close> The wording of the URI parser's messages around the values they quote; MIME types
  and HTTP classification; schema upgrades of old databases and the reactive projection stream of the
  store; scheduling, retries and session adoption of the account reconciler; the decoding of a
  chat's stream frames into turn operations and the views drawn of its turns; the React application, the
  server and its database (I/O around services outside the repository); the text edit engine and the
  editor schemas, which rest on Yjs and ProseMirror documents.
\<close>

end
